(* ===== verification/Prelude.thy ===== *)
theory Prelude
  imports Main "HOL-Library.Word"
begin

text \<open>
  Shared vocabulary of the development: the machine integers, the errors a C++ function can
  end with, the result type that carries them, and the \<open>std::string\<close> operations of the
  standard library that the sources call (\<open>find\<close>, \<open>substr\<close>, \<open>find_first_not_of\<close>,
  \<open>replace\<close>), with the lemmas on them that several components use.

  A \<open>std::string\<close> is a \<^typ>\<open>string\<close>, one \<^typ>\<open>char\<close> per byte; \<open>std::string::npos\<close> as a
  result is \<^const>\<open>None\<close>. Sizes and positions of strings held in memory are \<^typ>\<open>nat\<close>; where an
  unsigned subtraction of the source can wrap around, the model uses \<open>size_sub\<close>.
\<close>

named_theorems res_iff \<open>equivalences that decompose a successful or failing result\<close>
named_theorems find_facts \<open>facts about the position a string search returns\<close>

section \<open>Machine integers and results\<close>

type_synonym u32 = "32 word"
type_synonym u64 = "64 word"

text \<open>
  The ways a call ends without a value: the two exception classes of \<open>exception.hh\<close>, the
  exceptions the standard library throws, a failed \<open>assert\<close> (the build never defines
  \<open>NDEBUG\<close>), a step whose behaviour the language leaves undefined, and, for a callback whose
  result has to be a value, a loop that does not end.
\<close>

datatype err =
    RuntimeError string
  | UnixError string
  | OutOfRange
  | InvalidArgument
  | AssertFail
  | Undefined
  | Diverges

type_synonym 'a res = "err + 'a"

fun rbind :: "'a res \<Rightarrow> ('a \<Rightarrow> 'b res) \<Rightarrow> 'b res" where
  "rbind (Inl e) f = Inl e"
| "rbind (Inr x) f = f x"

text \<open>The same for a computation that may not end.\<close>

definition obind :: "'a res option \<Rightarrow> ('a \<Rightarrow> 'b res option) \<Rightarrow> 'b res option" where
  "obind m f =
     (case m of None \<Rightarrow> None | Some (Inl e) \<Rightarrow> Some (Inl e) | Some (Inr x) \<Rightarrow> f x)"

lemma obind_simps [simp]:
  "obind None f = None" "obind (Some (Inl e)) f = Some (Inl e)" "obind (Some (Inr x)) f = f x"
  by (simp_all add: obind_def)

lemma rbind_Inr_iff [res_iff]: "rbind m f = Inr y \<longleftrightarrow> (\<exists>x. m = Inr x \<and> f x = Inr y)"
  by (cases m) auto

lemma rbind_Inl_iff [res_iff]:
  "rbind m f = Inl e \<longleftrightarrow> m = Inl e \<or> (\<exists>x. m = Inr x \<and> f x = Inl e)"
  by (cases m) auto

lemma rbind_assoc: "rbind (rbind m f) g = rbind m (\<lambda>x. rbind (f x) g)"
  by (cases m) auto

lemma rbind_Inr_right [simp]: "rbind m Inr = m"
  by (cases m) auto

lemma rbind_cong [fundef_cong]:
  "m = m' \<Longrightarrow> (\<And>x. m' = Inr x \<Longrightarrow> f x = f' x) \<Longrightarrow> rbind m f = rbind m' f'"
  by (cases m') auto

lemma if_err_Inr_iff [res_iff]: "(if b then Inl e else m) = Inr y \<longleftrightarrow> \<not> b \<and> m = Inr y"
  by simp

text \<open>Reading 32-bit words built from a count: as unsigned, and as a C++ \<open>int\<close>.\<close>

lemma unat_of_nat_u32: "n < 2 ^ 32 \<Longrightarrow> unat (of_nat n :: u32) = n"
  by (simp add: unsigned_of_nat take_bit_nat_eq_self)

lemma unat_of_nat_u64: "n < 2 ^ 64 \<Longrightarrow> unat (of_nat n :: u64) = n"
  by (simp add: unsigned_of_nat take_bit_nat_eq_self)

lemma sint_of_nat_u32_nonneg:
  assumes "n < 2 ^ 32"
  shows "0 \<le> sint (of_nat n :: u32) \<longleftrightarrow> n < 2 ^ 31"
proof -
  have "0 \<le> sint (of_nat n :: u32) \<longleftrightarrow> \<not> bit n 31"
    by (simp add: signed_of_nat bit_of_nat_iff_bit)
  also have "\<dots> \<longleftrightarrow> n < 2 ^ 31"
  proof (cases "n < 2 ^ 31")
    case True
    then show ?thesis by (simp add: bit_iff_odd)
  next
    case False
    with assms have "n div 2 ^ 31 = 1"
      by (simp add: div_nat_eqI)
    with False show ?thesis by (simp add: bit_iff_odd)
  qed
  finally show ?thesis .
qed

section \<open>Substrings\<close>

text \<open>\<open>s.substr( pos, n )\<close> throws when \<open>pos\<close> is past the end; a count past the end is cut.\<close>

definition substr :: "string \<Rightarrow> nat \<Rightarrow> nat \<Rightarrow> string res" where
  "substr s pos n = (if length s < pos then Inl OutOfRange else Inr (take n (drop pos s)))"

text \<open>\<open>a - b\<close> on \<open>size_t\<close>: wraps around at 64 bits.\<close>

definition size_sub :: "nat \<Rightarrow> nat \<Rightarrow> nat" where
  "size_sub a b = nat ((int a - int b) mod 2 ^ 64)"

lemma size_sub_le: "b \<le> a \<Longrightarrow> a < 2 ^ 64 \<Longrightarrow> size_sub a b = a - b"
  by (simp add: size_sub_def of_nat_diff nat_diff_distrib' mod_pos_pos_trivial)

text \<open>\<open>s.replace( pos, n, r )\<close>.\<close>

definition str_replace :: "string \<Rightarrow> nat \<Rightarrow> nat \<Rightarrow> string \<Rightarrow> string res" where
  "str_replace s pos n r =
     (if length s < pos then Inl OutOfRange
      else Inr (take pos s @ r @ drop (pos + n) s))"

section \<open>Searching\<close>

text \<open>\<open>hay.find( needle )\<close>: the first position where \<open>needle\<close> stands.\<close>

fun str_find :: "string \<Rightarrow> string \<Rightarrow> nat option" where
  "str_find [] needle = (if needle = [] then Some 0 else None)"
| "str_find (c # cs) needle =
     (if take (length needle) (c # cs) = needle then Some 0
      else map_option Suc (str_find cs needle))"

text \<open>\<open>hay.find( needle, pos )\<close>.\<close>

definition str_find_from :: "string \<Rightarrow> string \<Rightarrow> nat \<Rightarrow> nat option" where
  "str_find_from hay needle pos =
     (if length hay < pos then None
      else map_option (\<lambda>i. pos + i) (str_find (drop pos hay) needle))"

text \<open>\<open>s.find_first_not_of( cs )\<close>.\<close>

fun find_first_not_of :: "string \<Rightarrow> string \<Rightarrow> nat option" where
  "find_first_not_of [] cs = None"
| "find_first_not_of (x # xs) cs =
     (if x \<in> set cs then map_option Suc (find_first_not_of xs cs) else Some 0)"

definition occurs_at :: "string \<Rightarrow> string \<Rightarrow> nat \<Rightarrow> bool" where
  "occurs_at hay needle i \<longleftrightarrow> i \<le> length hay \<and> take (length needle) (drop i hay) = needle"

lemma occurs_at_length: "occurs_at hay needle i \<Longrightarrow> i + length needle \<le> length hay"
proof -
  assume a: "occurs_at hay needle i"
  then have "length (take (length needle) (drop i hay)) = length needle"
    by (simp only: occurs_at_def)
  then have "length needle \<le> length hay - i"
    by simp
  moreover have "i \<le> length hay"
    using a by (simp add: occurs_at_def)
  ultimately show ?thesis by simp
qed

lemma occurs_at_0 [simp]: "occurs_at hay needle 0 \<longleftrightarrow> take (length needle) hay = needle"
  by (simp add: occurs_at_def)

lemma occurs_at_Suc_Cons [simp]: "occurs_at (c # cs) needle (Suc i) = occurs_at cs needle i"
  by (simp add: occurs_at_def)

lemma occurs_at_Nil: "occurs_at [] needle i \<longleftrightarrow> needle = [] \<and> i = 0"
  by (auto simp: occurs_at_def)

text \<open>The search returns the first occurrence, and nothing exactly when there is none.\<close>

lemma str_find_None_iff: "str_find hay needle = None \<longleftrightarrow> (\<forall>i. \<not> occurs_at hay needle i)"
proof (induction hay)
  case Nil
  then show ?case by (simp add: occurs_at_Nil)
next
  case (Cons c cs)
  have split: "(\<forall>i. \<not> occurs_at (c # cs) needle i) \<longleftrightarrow>
      \<not> occurs_at (c # cs) needle 0 \<and> (\<forall>i. \<not> occurs_at cs needle i)"
    by (metis occurs_at_Suc_Cons not0_implies_Suc)
  show ?case
    using Cons.IH by (auto simp: split)
qed

lemma str_find_Some_iff:
  "str_find hay needle = Some i \<longleftrightarrow>
     occurs_at hay needle i \<and> (\<forall>j < i. \<not> occurs_at hay needle j)"
proof (induction hay arbitrary: i)
  case Nil
  then show ?case by (auto simp: occurs_at_Nil)
next
  case (Cons c cs)
  show ?case
  proof (cases "take (length needle) (c # cs) = needle")
    case True
    then show ?thesis
      by (cases i) (auto simp: occurs_at_def)
  next
    case False
    then show ?thesis
      using Cons.IH
      by (cases i) (auto simp: occurs_at_def less_Suc_eq_0_disj)
  qed
qed

lemma str_find_bound [find_facts]:
  "str_find hay needle = Some i \<Longrightarrow> i + length needle \<le> length hay"
  by (auto simp: str_find_Some_iff dest: occurs_at_length)

lemma str_find_take [find_facts]:
  "str_find hay needle = Some i \<Longrightarrow> take (length needle) (drop i hay) = needle"
  by (simp add: str_find_Some_iff occurs_at_def)

lemma str_find_decomp:
  assumes "str_find hay needle = Some i"
  shows "hay = take i hay @ needle @ drop (i + length needle) hay"
proof -
  have "drop i hay = take (length needle) (drop i hay) @ drop (length needle) (drop i hay)"
    by (simp only: append_take_drop_id)
  also have "\<dots> = needle @ drop (i + length needle) hay"
    by (simp only: str_find_take [OF assms] drop_drop add.commute)
  finally show ?thesis
    by (metis append_take_drop_id)
qed

text \<open>Bytes that arrive later do not move a position already found.\<close>

lemma occurs_at_append: "occurs_at hay needle i \<Longrightarrow> occurs_at (hay @ more) needle i"
  using occurs_at_length [of hay needle i] by (auto simp: occurs_at_def)

lemma occurs_at_append_early:
  "occurs_at (hay @ more) needle i \<Longrightarrow> i + length needle \<le> length hay \<Longrightarrow> occurs_at hay needle i"
  by (auto simp: occurs_at_def)

lemma str_find_append:
  assumes "str_find hay needle = Some i"
  shows "str_find (hay @ more) needle = Some i"
proof -
  have bound: "i + length needle \<le> length hay"
    using assms by (rule str_find_bound)
  have "\<not> occurs_at (hay @ more) needle j" if "j < i" for j
  proof
    assume "occurs_at (hay @ more) needle j"
    then have "occurs_at hay needle j"
      by (rule occurs_at_append_early) (use that bound in simp)
    with assms that show False by (simp add: str_find_Some_iff)
  qed
  with assms show ?thesis
    by (auto simp: str_find_Some_iff intro: occurs_at_append)
qed

text \<open>A position found only after more bytes arrived ends inside those bytes.\<close>

lemma str_find_append_late:
  assumes "str_find hay needle = None" and "str_find (hay @ more) needle = Some i"
  shows "length hay < i + length needle"
proof (rule ccontr)
  assume "\<not> length hay < i + length needle"
  then have "i + length needle \<le> length hay"
    by simp
  moreover have "occurs_at (hay @ more) needle i"
    using assms(2) by (simp add: str_find_Some_iff)
  ultimately have "occurs_at hay needle i"
    by (blast intro: occurs_at_append_early)
  then show False using assms(1) str_find_None_iff by blast
qed

lemma str_find_in_prefix:
  assumes "str_find (hay @ more) needle = Some i" and "i + length needle \<le> length hay"
  shows "str_find hay needle = Some i"
  using assms by (auto simp: str_find_Some_iff intro: occurs_at_append_early occurs_at_append)

lemma occurs_at_member: "occurs_at hay needle i \<Longrightarrow> set needle \<subseteq> set hay"
  by (metis occurs_at_def set_drop_subset set_take_subset subset_trans)

lemma str_find_None_if_char:
  "c \<in> set needle \<Longrightarrow> c \<notin> set hay \<Longrightarrow> str_find hay needle = None"
  by (auto simp: str_find_None_iff dest!: occurs_at_member)

lemma str_find_self [simp]: "str_find (needle @ more) needle = Some 0"
  by (simp add: str_find_Some_iff occurs_at_def)

text \<open>The first occurrence of a single byte.\<close>

lemma str_find_char:
  "str_find s [c] = (if c \<in> set s then Some (length (takeWhile (\<lambda>x. x \<noteq> c) s)) else None)"
  by (induction s) auto

lemma find_first_not_of_None_iff: "find_first_not_of s cs = None \<longleftrightarrow> set s \<subseteq> set cs"
  by (induction s) auto

lemma find_first_not_of_Some:
  "find_first_not_of s cs = Some i \<Longrightarrow> i < length s \<and> take i s = takeWhile (\<lambda>x. x \<in> set cs) s"
  by (induction s arbitrary: i) (auto split: if_splits)

end
