(* ===== verification/Byte_Stream.thy ===== *)
theory Byte_Stream
  imports Prelude
begin

text \<open>
  \<open>FileDescriptor::read\<close> and \<open>write\<close> of \<open>src/src/util/file_descriptor.cc\<close>, and the ring buffer
  \<open>ByteStreamQueue\<close> of \<open>src/src/util/bytestream_queue.cc\<close> that stands between two descriptors.
  The kernel is an argument: \<open>sys_read limit\<close> is the answer of \<open>::read\<close>, \<open>sys_write s\<close> the number
  of bytes \<open>::write\<close> took of \<open>s\<close>, each an error when the call fails; both pass a state \<open>'w\<close> on.
  The two positions of the ring are \<open>size_t\<close> words, and their difference wraps around as in the
  code.

  The ring is refined to a list of bytes: \<open>ring_contents\<close>. The lemmas show that the positions
  stay in range, that no assertion fails, and that what is popped is what was pushed.
\<close>

section \<open>FileDescriptor\<close>

record file_descriptor =
  fd_num :: int
  fd_eof :: bool
  read_count :: u32
  write_count :: u32

definition fd_new :: "int \<Rightarrow> file_descriptor res" where
  "fd_new fd =
     (if fd \<le> 2 then Inl (UnixError ''FileDescriptor: fd <= 2'')
      else Inr \<lparr>fd_num = fd, fd_eof = False, read_count = 0, write_count = 0\<rparr>)"

text \<open>The move constructor: the new object, and what is left of the old one.\<close>

definition fd_move :: "file_descriptor \<Rightarrow> file_descriptor \<times> file_descriptor" where
  "fd_move other = (other, other\<lparr>fd_num := - 1\<rparr>)"

definition BUFFER_SIZE :: nat where "BUFFER_SIZE = 1024 * 1024"

type_synonym 'w sys_read = "nat \<Rightarrow> 'w \<Rightarrow> (string \<times> 'w) res"
type_synonym 'w sys_write = "string \<Rightarrow> 'w \<Rightarrow> (nat \<times> 'w) res"

definition fd_read ::
  "'w sys_read \<Rightarrow> nat \<Rightarrow> file_descriptor \<times> 'w \<Rightarrow> (string \<times> (file_descriptor \<times> 'w)) res" where
  "fd_read sys_read limit = (\<lambda>(fd, w).
     rbind (sys_read (min BUFFER_SIZE limit) w) (\<lambda>(bytes, w').
       let fd1 = (if length bytes = 0 then fd\<lparr>fd_eof := True\<rparr> else fd)
       in Inr (bytes, (fd1\<lparr>read_count := read_count fd1 + 1\<rparr>, w'))))"

lemma fd_read_shape:
  assumes "fd_read sys_read n (fd, k) = Inr (s, (fd', k'))"
  shows "sys_read (min BUFFER_SIZE n) k = Inr (s, k') \<and> fd_num fd' = fd_num fd \<and>
    write_count fd' = write_count fd \<and> read_count fd' = read_count fd + 1"
  using assms by (auto simp: fd_read_def res_iff Let_def split: if_splits)

text \<open>
  The iterator a \<open>write\<close> returns is given as the bytes that were written and the bytes that are
  left.
\<close>

definition fd_write_part ::
  "'w sys_write \<Rightarrow> string \<Rightarrow> file_descriptor \<times> 'w \<Rightarrow>
     ((string \<times> string) \<times> (file_descriptor \<times> 'w)) res" where
  "fd_write_part sys_write s = (\<lambda>(fd, w).
     if s = [] then Inl (RuntimeError ''nothing to write'')
     else rbind (sys_write s w) (\<lambda>(n, w').
       if n = 0 then Inl (RuntimeError ''write returned 0'')
       else Inr ((take n s, drop n s), (fd\<lparr>write_count := write_count fd + 1\<rparr>, w'))))"

lemma fd_write_part_shape:
  "fd_write_part sys_write s st = Inr ((sent, rest), st') \<Longrightarrow> s = sent @ rest \<and> sent \<noteq> []"
  by (cases st) (auto simp: fd_write_part_def res_iff split: if_splits)

text \<open>\<open>do { ... } while ( write_all and (it != buffer.end()) )\<close>.\<close>

function fd_write ::
  "'w sys_write \<Rightarrow> bool \<Rightarrow> string \<Rightarrow> file_descriptor \<times> 'w \<Rightarrow>
     ((string \<times> string) \<times> (file_descriptor \<times> 'w)) res" where
  "fd_write sys_write all s st =
     (case fd_write_part sys_write s st of
        Inl e \<Rightarrow> Inl e
      | Inr r \<Rightarrow>
          (if all \<and> snd (fst r) \<noteq> [] then
             rbind (fd_write sys_write all (snd (fst r)) (snd r)) (\<lambda>((sent', rest'), st').
               Inr ((fst (fst r) @ sent', rest'), st'))
           else Inr r))"
  by pat_completeness auto
termination
proof (relation "measure (\<lambda>(sw, all, s, st). length s)", goal_cases)
  case (2 sys_write all s st r)
  then show ?case
    using fd_write_part_shape [of sys_write s st "fst (fst r)" "snd (fst r)" "snd r"] by auto
qed simp

declare fd_write.simps [simp del]

section \<open>ByteStreamQueue\<close>

record byte_stream_queue =
  ring_buffer :: string
  next_byte_to_push :: u64
  next_byte_to_pop :: u64

definition ring_size :: "byte_stream_queue \<Rightarrow> u64" where
  "ring_size q = of_nat (length (ring_buffer q))"

definition ring_new :: "nat \<Rightarrow> byte_stream_queue res" where
  "ring_new sz =
     (if 1 < sz
      then Inr \<lparr>ring_buffer = replicate sz (CHR 0x00), next_byte_to_push = 0, next_byte_to_pop = 0\<rparr>
      else Inl AssertFail)"

definition available_to_pop :: "byte_stream_queue \<Rightarrow> u64" where
  "available_to_pop q =
     next_byte_to_push q - next_byte_to_pop q +
     (if next_byte_to_push q < next_byte_to_pop q then ring_size q else 0)"

definition available_to_push :: "byte_stream_queue \<Rightarrow> u64" where
  "available_to_push q =
     next_byte_to_pop q - next_byte_to_push q - 1 +
     (if next_byte_to_push q < next_byte_to_pop q then 0 else ring_size q)"

definition space_available :: "byte_stream_queue \<Rightarrow> bool" where
  "space_available q \<longleftrightarrow> 0 < available_to_push q"

definition non_empty :: "byte_stream_queue \<Rightarrow> bool" where
  "non_empty q \<longleftrightarrow> 0 < available_to_pop q"

datatype ring_result = Success | EndOfFile

definition contiguous_space_to_push :: "byte_stream_queue \<Rightarrow> u64" where
  "contiguous_space_to_push q =
     (if ring_size q \<le> next_byte_to_push q + available_to_push q
      then ring_size q - next_byte_to_push q else available_to_push q)"

text \<open>After the read: the bytes go into the buffer and the position moves on.\<close>

definition push_chunk :: "string \<Rightarrow> byte_stream_queue \<Rightarrow> (ring_result \<times> byte_stream_queue) res" where
  "push_chunk new_chunk q =
     (if new_chunk = [] then Inr (EndOfFile, q)
      else if \<not> of_nat (length new_chunk) \<le> ring_size q - next_byte_to_push q then Inl AssertFail
      else if length (ring_buffer q) \<le> unat (next_byte_to_push q) then Inl OutOfRange
      else
        let i = unat (next_byte_to_push q);
            q1 = q\<lparr>ring_buffer := take i (ring_buffer q) @ new_chunk @
                    drop (i + length new_chunk) (ring_buffer q),
                   next_byte_to_push := next_byte_to_push q + of_nat (length new_chunk)\<rparr>
        in if \<not> next_byte_to_push q1 \<le> ring_size q1 then Inl AssertFail
           else
             let q2 = (if next_byte_to_push q1 = ring_size q1 then q1\<lparr>next_byte_to_push := 0\<rparr> else q1)
             in if non_empty q2 then Inr (Success, q2) else Inl AssertFail)"

definition ring_push ::
  "'w sys_read \<Rightarrow> byte_stream_queue \<Rightarrow> file_descriptor \<times> 'w \<Rightarrow>
     ((ring_result \<times> byte_stream_queue) \<times> (file_descriptor \<times> 'w)) res" where
  "ring_push sys_read q st =
     (if \<not> space_available q \<or> contiguous_space_to_push q = 0 then Inl AssertFail
      else rbind (fd_read sys_read (unat (contiguous_space_to_push q)) st) (\<lambda>(new_chunk, st').
           rbind (push_chunk new_chunk q) (\<lambda>r. Inr (r, st'))))"

definition contiguous_space_to_pop :: "byte_stream_queue \<Rightarrow> u64" where
  "contiguous_space_to_pop q =
     (if ring_size q \<le> next_byte_to_pop q + available_to_pop q
      then ring_size q - next_byte_to_pop q else available_to_pop q)"

text \<open>The bytes \<open>pop\<close> offers to the descriptor, and the position after some were taken.\<close>

definition pop_range :: "byte_stream_queue \<Rightarrow> string" where
  "pop_range q =
     take (unat (contiguous_space_to_pop q)) (drop (unat (next_byte_to_pop q)) (ring_buffer q))"

definition pop_bytes_written :: "nat \<Rightarrow> byte_stream_queue \<Rightarrow> byte_stream_queue res" where
  "pop_bytes_written n q =
     (let q1 = q\<lparr>next_byte_to_pop := next_byte_to_pop q + of_nat n\<rparr>
      in if \<not> next_byte_to_pop q1 \<le> ring_size q1 then Inl AssertFail
         else Inr (if next_byte_to_pop q1 = ring_size q1 then q1\<lparr>next_byte_to_pop := 0\<rparr> else q1))"

definition ring_pop ::
  "'w sys_write \<Rightarrow> byte_stream_queue \<Rightarrow> file_descriptor \<times> 'w \<Rightarrow>
     ((string \<times> byte_stream_queue) \<times> (file_descriptor \<times> 'w)) res" where
  "ring_pop sys_write q st =
     (if \<not> non_empty q then Inl AssertFail
      else rbind (fd_write_part sys_write (pop_range q) st) (\<lambda>((sent, _), st').
           rbind (pop_bytes_written (length sent) q) (\<lambda>q'. Inr ((sent, q'), st'))))"

section \<open>The ring as a list of bytes\<close>

definition ring_inv :: "byte_stream_queue \<Rightarrow> bool" where
  "ring_inv q \<longleftrightarrow>
     1 < length (ring_buffer q) \<and> length (ring_buffer q) < 2 ^ 63 \<and>
     unat (next_byte_to_push q) < length (ring_buffer q) \<and>
     unat (next_byte_to_pop q) < length (ring_buffer q)"

definition ring_contents :: "byte_stream_queue \<Rightarrow> string" where
  "ring_contents q =
     (let i = unat (next_byte_to_pop q); j = unat (next_byte_to_push q)
      in if i \<le> j then drop i (take j (ring_buffer q))
         else drop i (ring_buffer q) @ take j (ring_buffer q))"

text \<open>The positions as numbers: the words are the images of three naturals.\<close>

lemma ring_cases:
  assumes "ring_inv q"
  obtains b i j where "q = \<lparr>ring_buffer = b, next_byte_to_push = of_nat j, next_byte_to_pop = of_nat i\<rparr>"
    and "1 < length b" and "length b < 2 ^ 63" and "i < length b" and "j < length b"
    and "unat (of_nat i :: u64) = i" and "unat (of_nat j :: u64) = j"
  using assms
  by (intro that [of "ring_buffer q" "unat (next_byte_to_push q)" "unat (next_byte_to_pop q)"])
     (simp_all add: ring_inv_def)

lemma of_nat_le_u64:
  "m < 2 ^ 64 \<Longrightarrow> n < 2 ^ 64 \<Longrightarrow> (of_nat m :: u64) \<le> of_nat n \<longleftrightarrow> m \<le> n"
  "m < 2 ^ 64 \<Longrightarrow> n < 2 ^ 64 \<Longrightarrow> (of_nat m :: u64) < of_nat n \<longleftrightarrow> m < n"
  "m < 2 ^ 64 \<Longrightarrow> n < 2 ^ 64 \<Longrightarrow> (of_nat m :: u64) = of_nat n \<longleftrightarrow> m = n"
  by (simp_all add: word_le_nat_alt word_less_nat_alt unat_of_nat_u64 word_unat_eq_iff)

lemma available_to_pop_length:
  assumes "ring_inv q"
  shows "available_to_pop q = of_nat (length (ring_contents q)) \<and>
    length (ring_contents q) < length (ring_buffer q)"
proof -
  from assms obtain b i j where q: "q = \<lparr>ring_buffer = b, next_byte_to_push = of_nat j,
      next_byte_to_pop = of_nat i\<rparr>" and r: "length b < 2 ^ 63" "i < length b" "j < length b"
    and u: "unat (of_nat i :: u64) = i" "unat (of_nat j :: u64) = j"
    by (rule ring_cases) blast
  have lt: "(of_nat j :: u64) < of_nat i \<longleftrightarrow> j < i"
    using r by (simp add: word_less_nat_alt u)
  show ?thesis
  proof (cases "i \<le> j")
    case True
    then have "of_nat j - of_nat i = (of_nat (j - i) :: u64)"
      by (simp add: of_nat_diff)
    then show ?thesis
      using True r lt by (simp add: q available_to_pop_def ring_contents_def Let_def u)
  next
    case False
    then have "of_nat j - of_nat i + of_nat (length b) = (of_nat (length b - i + j) :: u64)"
      using r by (simp add: of_nat_diff)
    then show ?thesis
      using False r lt by (simp add: q available_to_pop_def ring_contents_def Let_def u ring_size_def)
  qed
qed

lemma available_to_push_length:
  assumes "ring_inv q"
  shows "available_to_push q = of_nat (length (ring_buffer q) - 1 - length (ring_contents q))"
proof -
  have sum: "available_to_push q + available_to_pop q = ring_size q - 1"
    by (simp add: available_to_push_def available_to_pop_def)
  note p = available_to_pop_length [OF assms]
  have "available_to_push q = of_nat (length (ring_buffer q)) - 1 - of_nat (length (ring_contents q))"
    using sum p by (simp add: ring_size_def algebra_simps eq_diff_eq)
  also have "\<dots> = of_nat (length (ring_buffer q) - 1 - length (ring_contents q))"
    using p by (simp add: of_nat_diff)
  finally show ?thesis .
qed

lemma non_empty_iff:
  assumes "ring_inv q"
  shows "non_empty q \<longleftrightarrow> ring_contents q \<noteq> []"
proof -
  note p = available_to_pop_length [OF assms]
  have "length (ring_contents q) < 2 ^ 64"
    using p assms by (simp add: ring_inv_def)
  then show ?thesis
    using p by (simp add: non_empty_def word_neq_0_conv [symmetric] unat_of_nat_u64 flip: unat_eq_zero)
qed

lemma space_available_iff:
  assumes "ring_inv q"
  shows "space_available q \<longleftrightarrow> length (ring_contents q) + 1 < length (ring_buffer q)"
proof -
  let ?free = "length (ring_buffer q) - 1 - length (ring_contents q)"
  have "length (ring_buffer q) < 2 ^ 63"
    using assms by (simp add: ring_inv_def)
  then have "unat (available_to_push q) = ?free"
    unfolding available_to_push_length [OF assms] by (intro unat_of_nat_u64) simp
  then have "space_available q \<longleftrightarrow> 0 < ?free"
    by (simp add: space_available_def word_less_nat_alt)
  then show ?thesis by linarith
qed

text \<open>How much a push may read and a pop may write in one piece, as numbers.\<close>

lemma contiguous_word:
  assumes "n < 2 ^ 63" and "j < n" and "k < n"
  shows "unat (if (of_nat n :: u64) \<le> of_nat j + of_nat k then of_nat n - of_nat j
      else of_nat k :: u64) =
    (if n \<le> j + k then n - j else k)"
proof -
  have "(of_nat j + of_nat k :: u64) = of_nat (j + k)" "(of_nat n - of_nat j :: u64) = of_nat (n - j)"
    using assms by (simp_all add: of_nat_diff)
  moreover have "n < 2 ^ 64" "j + k < 2 ^ 64" "n - j < 2 ^ 64" "k < 2 ^ 64"
    using assms by simp_all
  ultimately show ?thesis
    by (simp only: of_nat_le_u64 unat_of_nat_u64 split: if_split) blast
qed

lemma contiguous_push_nat:
  assumes "ring_inv q"
  shows "unat (contiguous_space_to_push q) =
    (let i = unat (next_byte_to_pop q); j = unat (next_byte_to_push q);
         n = length (ring_buffer q)
     in if j < i then i - j - 1 else if i = 0 then n - 1 - j else n - j)"
proof -
  let ?n = "length (ring_buffer q)" and ?j = "unat (next_byte_to_push q)"
  let ?k = "?n - 1 - length (ring_contents q)"
  have r: "?n < 2 ^ 63" "?j < ?n" "unat (next_byte_to_pop q) < ?n" "1 < ?n"
    using assms by (simp_all add: ring_inv_def)
  then have "?k < ?n" by linarith
  from contiguous_word [OF r(1,2) this]
  have "unat (contiguous_space_to_push q) = (if ?n \<le> ?j + ?k then ?n - ?j else ?k)"
    by (simp only: contiguous_space_to_push_def ring_size_def available_to_push_length [OF assms]
        of_nat_unat ucast_id)
  then show ?thesis
    using r by (auto simp: Let_def ring_contents_def)
qed

lemma contiguous_pop_nat:
  assumes "ring_inv q"
  shows "unat (contiguous_space_to_pop q) =
    (let i = unat (next_byte_to_pop q); j = unat (next_byte_to_push q);
         n = length (ring_buffer q)
     in if j < i then n - i else j - i)"
proof -
  let ?n = "length (ring_buffer q)" and ?i = "unat (next_byte_to_pop q)"
  let ?k = "length (ring_contents q)"
  have r: "?n < 2 ^ 63" "?i < ?n" "unat (next_byte_to_push q) < ?n"
    using assms by (simp_all add: ring_inv_def)
  have "?k < ?n" and a: "available_to_pop q = of_nat ?k"
    using available_to_pop_length [OF assms] by simp_all
  from contiguous_word [OF r(1,2) this(1)]
  have "unat (contiguous_space_to_pop q) = (if ?n \<le> ?i + ?k then ?n - ?i else ?k)"
    by (simp only: contiguous_space_to_pop_def ring_size_def a of_nat_unat ucast_id)
  then show ?thesis
    using r by (auto simp: Let_def ring_contents_def)
qed

lemma contiguous_push_pos:
  assumes "ring_inv q" and "space_available q"
  shows "contiguous_space_to_push q \<noteq> 0"
proof -
  have "length (ring_contents q) + 1 < length (ring_buffer q)"
    using assms by (simp add: space_available_iff)
  then have "0 < unat (contiguous_space_to_push q)"
    using assms(1) unfolding contiguous_push_nat [OF assms(1)]
    by (auto simp: Let_def ring_contents_def ring_inv_def split: if_splits)
  then show ?thesis by auto
qed

text \<open>A push appends the bytes read; a pop removes the bytes written.\<close>

lemma push_chunk_spec:
  assumes inv: "ring_inv q" and len: "length ch \<le> unat (contiguous_space_to_push q)"
  shows "\<exists>q'. push_chunk ch q = Inr (if ch = [] then EndOfFile else Success, q') \<and> ring_inv q' \<and>
    ring_contents q' = ring_contents q @ ch \<and> length (ring_buffer q') = length (ring_buffer q)"
proof (cases "ch = []")
  case True
  then show ?thesis using inv by (simp add: push_chunk_def)
next
  case False
  let ?n = "length (ring_buffer q)" and ?c = "length ch"
  let ?i = "unat (next_byte_to_pop q)" and ?j = "unat (next_byte_to_push q)"
  have r: "1 < ?n" "?n < 2 ^ 63" "?i < ?n" "?j < ?n"
    using inv by (simp_all add: ring_inv_def)
  have c: "?c \<le> (if ?j < ?i then ?i - ?j - 1 else if ?i = 0 then ?n - 1 - ?j else ?n - ?j)"
    using len contiguous_push_nat [OF inv] by (simp add: Let_def)
  then have jc: "?j + ?c \<le> ?n"
    using r by (auto split: if_splits)
  then have small: "?c < 2 ^ 64" "?n - ?j < 2 ^ 64" "?j + ?c < 2 ^ 64" "?n < 2 ^ 64"
    using r by simp_all
  let ?b = "take ?j (ring_buffer q) @ ch @ drop (?j + ?c) (ring_buffer q)"
  define j' where "j' = (if ?j + ?c = ?n then 0 else ?j + ?c)"
  let ?q = "q\<lparr>ring_buffer := ?b, next_byte_to_push := of_nat j'\<rparr>"
  have lb: "length ?b = ?n"
    using jc r by simp
  have j': "j' < ?n" "unat (of_nat j' :: u64) = j'"
    using r jc small by (auto simp: j'_def unat_of_nat_u64)
  have inv': "ring_inv ?q"
    unfolding ring_inv_def using lb r j' by simp
  have cont: "ring_contents ?q = ring_contents q @ ch"
  proof (cases "?j < ?i")
    case True
    then have "j' = ?j + ?c" "?j + ?c < ?i"
      using c r by (auto simp: j'_def)
    then show ?thesis
      using True r j' by (simp add: ring_contents_def Let_def)
  next
    case nlt: False
    then show ?thesis
      using c r j' jc by (auto simp: ring_contents_def Let_def j'_def split: if_splits)
  qed
  have w: "(of_nat ?c :: u64) \<le> ring_size q - next_byte_to_push q"
  proof -
    have eq: "ring_size q - next_byte_to_push q = of_nat (?n - ?j)"
      using r by (simp add: ring_size_def of_nat_diff)
    have "?c \<le> ?n - ?j"
      using jc by simp
    then show ?thesis
      unfolding eq using small by (simp only: of_nat_le_u64)
  qed
  have w2: "next_byte_to_push q + of_nat ?c = (of_nat (?j + ?c) :: u64)"
    by simp
  have w3: "(of_nat (?j + ?c) :: u64) \<le> of_nat ?n" "(of_nat (?j + ?c) :: u64) = of_nat ?n \<longleftrightarrow> ?j + ?c = ?n"
    using jc small by (simp_all only: of_nat_le_u64)
  have ne: "non_empty ?q"
    using non_empty_iff [OF inv'] False cont by simp
  have "push_chunk ch q = Inr (Success, ?q)"
    using False w ne r w3 lb unfolding push_chunk_def w2
    by (auto simp: Let_def ring_size_def j'_def simp del: of_nat_add)
  then show ?thesis
    using inv' cont lb False by simp
qed

lemma pop_range_spec:
  assumes "ring_inv q" and "non_empty q"
  shows "pop_range q \<noteq> [] \<and> pop_range q = take (length (pop_range q)) (ring_contents q)"
proof -
  have "ring_contents q \<noteq> []"
    using assms by (simp add: non_empty_iff)
  then show ?thesis
    using assms(1)
    by (auto simp: pop_range_def contiguous_pop_nat [OF assms(1)] Let_def ring_contents_def
        ring_inv_def drop_take)
qed

lemma pop_bytes_written_spec:
  assumes inv: "ring_inv q" and n: "n \<le> length (pop_range q)"
  shows "\<exists>q'. pop_bytes_written n q = Inr q' \<and> ring_inv q' \<and>
    ring_contents q' = drop n (ring_contents q) \<and> length (ring_buffer q') = length (ring_buffer q)"
proof -
  let ?n = "length (ring_buffer q)"
  let ?i = "unat (next_byte_to_pop q)" and ?j = "unat (next_byte_to_push q)"
  have r: "1 < ?n" "?n < 2 ^ 63" "?i < ?n" "?j < ?n"
    using inv by (simp_all add: ring_inv_def)
  have c: "n \<le> (if ?j < ?i then ?n - ?i else ?j - ?i)"
    using n r by (auto simp: pop_range_def contiguous_pop_nat [OF inv] Let_def)
  then have ic: "?i + n \<le> ?n"
    using r by (auto split: if_splits)
  then have small: "?i + n < 2 ^ 64" "?n < 2 ^ 64"
    using r by simp_all
  define i' where "i' = (if ?i + n = ?n then 0 else ?i + n)"
  let ?q = "q\<lparr>next_byte_to_pop := of_nat i'\<rparr>"
  have i': "i' < ?n" "unat (of_nat i' :: u64) = i'"
    using r ic small by (auto simp: i'_def unat_of_nat_u64)
  have inv': "ring_inv ?q"
    unfolding ring_inv_def using r i' by simp
  have cont: "ring_contents ?q = drop n (ring_contents q)"
    using c r i' ic by (auto simp: ring_contents_def Let_def i'_def drop_take add.commute [of n] split: if_splits)
  have w2: "next_byte_to_pop q + of_nat n = (of_nat (?i + n) :: u64)"
    by simp
  have w3: "(of_nat (?i + n) :: u64) \<le> of_nat ?n" "(of_nat (?i + n) :: u64) = of_nat ?n \<longleftrightarrow> ?i + n = ?n"
    using ic small by (simp_all only: of_nat_le_u64)
  have "pop_bytes_written n q = Inr ?q"
    using w3 unfolding pop_bytes_written_def w2
    by (auto simp: Let_def ring_size_def i'_def simp del: of_nat_add)
  then show ?thesis
    using inv' cont by simp
qed

section \<open>Any sequence of pushes and pops\<close>

text \<open>
  What is relied on of the kernel: a read gives at most what was asked for, a write takes at most
  what was offered, a failure is an error code. \<open>taken w\<close> and \<open>given w\<close> are the bytes the
  process has read and written so far.
\<close>

definition kernel_ok ::
  "('w \<Rightarrow> string) \<Rightarrow> ('w \<Rightarrow> string) \<Rightarrow> 'w sys_read \<Rightarrow> 'w sys_write \<Rightarrow> bool" where
  "kernel_ok taken given sys_read sys_write \<longleftrightarrow>
     (\<forall>limit w. case sys_read limit w of
        Inl e \<Rightarrow> (\<exists>s. e = UnixError s)
      | Inr (s, w') \<Rightarrow> length s \<le> limit \<and> taken w' = taken w @ s \<and> given w' = given w) \<and>
     (\<forall>s w. case sys_write s w of
        Inl e \<Rightarrow> (\<exists>m. e = UnixError m)
      | Inr (n, w') \<Rightarrow> n \<le> length s \<and> given w' = given w @ take n s \<and> taken w' = taken w)"

lemma kernel_read:
  "kernel_ok taken given sys_read sys_write \<Longrightarrow>
    (case sys_read limit w of
       Inl e \<Rightarrow> (\<exists>s. e = UnixError s)
     | Inr (s, w') \<Rightarrow> length s \<le> limit \<and> taken w' = taken w @ s \<and> given w' = given w)"
  by (simp only: kernel_ok_def)

lemma kernel_write:
  "kernel_ok taken given sys_read sys_write \<Longrightarrow>
    (case sys_write s w of
       Inl e \<Rightarrow> (\<exists>m. e = UnixError m)
     | Inr (n, w') \<Rightarrow> n \<le> length s \<and> given w' = given w @ take n s \<and> taken w' = taken w)"
  by (simp only: kernel_ok_def)

datatype ring_call = Push | Pop

text \<open>The callers poll for input only with space available and for output only when nonempty.\<close>

fun ring_run ::
  "'w sys_read \<Rightarrow> 'w sys_write \<Rightarrow> ring_call list \<Rightarrow>
     byte_stream_queue \<times> file_descriptor \<times> file_descriptor \<times> 'w \<Rightarrow>
     (byte_stream_queue \<times> file_descriptor \<times> file_descriptor \<times> 'w) res" where
  "ring_run sys_read sys_write [] s = Inr s"
| "ring_run sys_read sys_write (Push # cs) (q, fd_in, fd_out, w) =
     (if space_available q
      then rbind (ring_push sys_read q (fd_in, w)) (\<lambda>((_, q'), (fd_in', w')).
             ring_run sys_read sys_write cs (q', fd_in', fd_out, w'))
      else ring_run sys_read sys_write cs (q, fd_in, fd_out, w))"
| "ring_run sys_read sys_write (Pop # cs) (q, fd_in, fd_out, w) =
     (if non_empty q
      then rbind (ring_pop sys_write q (fd_out, w)) (\<lambda>((_, q'), (fd_out', w')).
             ring_run sys_read sys_write cs (q', fd_in, fd_out', w'))
      else ring_run sys_read sys_write cs (q, fd_in, fd_out, w))"

definition kernel_error :: "err \<Rightarrow> bool" where
  "kernel_error e \<longleftrightarrow> (\<exists>s. e = UnixError s) \<or> e = RuntimeError ''write returned 0''"

lemma ring_push_spec:
  assumes inv: "ring_inv q" and k: "kernel_ok taken given sys_read sys_write"
    and space: "space_available q"
  shows "case ring_push sys_read q (fd, w) of
      Inl e \<Rightarrow> kernel_error e
    | Inr ((_, q'), (_, w')) \<Rightarrow> ring_inv q' \<and> length (ring_buffer q') = length (ring_buffer q) \<and>
        given w' = given w \<and>
        (\<exists>ch. ring_contents q' = ring_contents q @ ch \<and> taken w' = taken w @ ch)"
proof (cases "sys_read (min BUFFER_SIZE (unat (contiguous_space_to_push q))) w")
  case (Inl e)
  then have "\<exists>s. e = UnixError s"
    using kernel_read [OF k, of "min BUFFER_SIZE (unat (contiguous_space_to_push q))" w] by simp
  then show ?thesis
    using Inl space contiguous_push_pos [OF inv space]
    by (simp add: ring_push_def fd_read_def kernel_error_def)
next
  case (Inr r)
  obtain ch w' where r: "r = (ch, w')" by force
  have "length ch \<le> min BUFFER_SIZE (unat (contiguous_space_to_push q)) \<and>
      taken w' = taken w @ ch \<and> given w' = given w"
    using kernel_read [OF k, of "min BUFFER_SIZE (unat (contiguous_space_to_push q))" w] Inr r
    by simp
  moreover from this obtain res q' where "push_chunk ch q = Inr (res, q')" "ring_inv q'"
    "ring_contents q' = ring_contents q @ ch" "length (ring_buffer q') = length (ring_buffer q)"
    using push_chunk_spec [OF inv, of ch] by auto
  ultimately show ?thesis
    using Inr r space contiguous_push_pos [OF inv space]
    by (simp add: ring_push_def fd_read_def Let_def)
qed

lemma ring_pop_spec:
  assumes inv: "ring_inv q" and k: "kernel_ok taken given sys_read sys_write"
    and ne: "non_empty q"
  shows "case ring_pop sys_write q (fd, w) of
      Inl e \<Rightarrow> kernel_error e
    | Inr ((sent, q'), (_, w')) \<Rightarrow> ring_inv q' \<and> length (ring_buffer q') = length (ring_buffer q) \<and>
        taken w' = taken w \<and> given w' = given w @ sent \<and> sent \<noteq> [] \<and>
        ring_contents q = sent @ ring_contents q'"
proof (cases "sys_write (pop_range q) w")
  case (Inl e)
  then have "\<exists>s. e = UnixError s"
    using kernel_write [OF k, of "pop_range q" w] by simp
  then show ?thesis
    using Inl ne pop_range_spec [OF inv ne]
    by (simp add: ring_pop_def fd_write_part_def kernel_error_def)
next
  case (Inr r)
  obtain n w' where r: "r = (n, w')" by force
  have n: "n \<le> length (pop_range q) \<and> given w' = given w @ take n (pop_range q) \<and> taken w' = taken w"
    using kernel_write [OF k, of "pop_range q" w] Inr r by simp
  have range: "pop_range q \<noteq> []" "pop_range q = take (length (pop_range q)) (ring_contents q)"
    using pop_range_spec [OF inv ne] by simp_all
  have "take n (pop_range q) = take n (take (length (pop_range q)) (ring_contents q))"
    using range(2) by simp
  then have "take n (pop_range q) = take n (ring_contents q)"
    using n by (simp add: min_absorb1)
  moreover have "length (take n (pop_range q)) = n"
    using n by (simp add: min_absorb2)
  ultimately have sent: "take n (pop_range q) = take n (ring_contents q)"
    "length (take n (pop_range q)) = n"
    by blast+
  obtain q' where q': "pop_bytes_written n q = Inr q'" "ring_inv q'"
    "ring_contents q' = drop n (ring_contents q)" "length (ring_buffer q') = length (ring_buffer q)"
    using pop_bytes_written_spec [OF inv, of n] n by auto
  show ?thesis
  proof (cases "n = 0")
    case True
    then show ?thesis
      using Inr r ne range(1) by (simp add: ring_pop_def fd_write_part_def kernel_error_def)
  next
    case False
    then have "ring_pop sys_write q (fd, w) =
        Inr ((take n (pop_range q), q'), (fd\<lparr>write_count := write_count fd + 1\<rparr>, w'))"
      using Inr r ne range(1) q'(1) sent(2) by (simp add: ring_pop_def fd_write_part_def)
    moreover have "take n (pop_range q) \<noteq> []"
      using False range(1) by simp
    ultimately show ?thesis
      using q' n sent(1) by simp
  qed
qed

lemma ring_run_spec:
  assumes k: "kernel_ok taken given sys_read sys_write"
  shows "ring_inv q \<Longrightarrow> taken w = given w @ ring_contents q \<Longrightarrow>
    (case ring_run sys_read sys_write cs (q, fd_in, fd_out, w) of
       Inl e \<Rightarrow> kernel_error e
     | Inr (q', _, _, w') \<Rightarrow> ring_inv q' \<and> length (ring_buffer q') = length (ring_buffer q) \<and>
         taken w' = given w' @ ring_contents q')"
proof (induction cs arbitrary: q fd_in fd_out w)
  case Nil
  then show ?case by simp
next
  case (Cons c cs)
  show ?case
  proof (cases c)
    case Push
    show ?thesis
    proof (cases "space_available q")
      case False
      then show ?thesis
        using Push Cons.IH [OF Cons.prems] by simp
    next
      case True
      note p = ring_push_spec [OF Cons.prems(1) k True, where fd = fd_in and w = w]
      show ?thesis
      proof (cases "ring_push sys_read q (fd_in, w)")
        case (Inl e)
        then show ?thesis using p Push True by simp
      next
        case (Inr r)
        obtain res q' fd' w' where r: "r = ((res, q'), (fd', w'))"
          by (metis surj_pair)
        from p Inr r Cons.prems(2) have "ring_inv q'" "taken w' = given w' @ ring_contents q'"
          and l: "length (ring_buffer q') = length (ring_buffer q)"
          by auto
        from Cons.IH [OF this(1,2), of fd' fd_out] Inr r l Push True show ?thesis
          by (simp split: sum.splits prod.splits)
      qed
    qed
  next
    case Pop
    show ?thesis
    proof (cases "non_empty q")
      case False
      then show ?thesis
        using Pop Cons.IH [OF Cons.prems] by simp
    next
      case True
      note p = ring_pop_spec [OF Cons.prems(1) k True, where fd = fd_out and w = w]
      show ?thesis
      proof (cases "ring_pop sys_write q (fd_out, w)")
        case (Inl e)
        then show ?thesis using p Pop True by simp
      next
        case (Inr r)
        obtain sent q' fd' w' where r: "r = ((sent, q'), (fd', w'))"
          by (metis surj_pair)
        from p Inr r Cons.prems(2) have "ring_inv q'" "taken w' = given w' @ ring_contents q'"
          and l: "length (ring_buffer q') = length (ring_buffer q)"
          by auto
        from Cons.IH [OF this(1,2), of fd_in fd'] Inr r l Pop True show ?thesis
          by (simp split: sum.splits prod.splits)
      qed
    qed
  qed
qed

text \<open>
  C24: the ring buffer is a bounded first-in first-out queue of bytes. From its
  construction on, whatever pushes and pops the pollers make when they are enabled, however much
  each \<open>read\<close> and \<open>write\<close> moves, no assertion fails and no index is out of range: a session ends
  early only with an error of the kernel. The bytes written, followed by the bytes in the ring,
  are exactly the bytes read, in order, and at least one byte of the ring stays free.
\<close>

theorem bytestream_fifo:
  assumes "ring_new n = Inr q" and "n < 2 ^ 63" and "kernel_ok taken given sys_read sys_write"
    and "taken w = given w"
  shows "case ring_run sys_read sys_write cs (q, fd_in, fd_out, w) of
      Inl e \<Rightarrow> kernel_error e
    | Inr (q', _, _, w') \<Rightarrow> taken w' = given w' @ ring_contents q' \<and> length (ring_contents q') < n"
proof -
  have new: "ring_inv q" "ring_contents q = []" "length (ring_buffer q) = n"
    using assms(1,2) by (auto simp: ring_new_def ring_inv_def ring_contents_def split: if_splits)
  then have "case ring_run sys_read sys_write cs (q, fd_in, fd_out, w) of
      Inl e \<Rightarrow> kernel_error e
    | Inr (q', _, _, w') \<Rightarrow> ring_inv q' \<and> length (ring_buffer q') = length (ring_buffer q) \<and>
        taken w' = given w' @ ring_contents q'"
    using assms(4) by (intro ring_run_spec [OF assms(3)]) simp_all
  then show ?thesis
    using new(3) available_to_pop_length by (fastforce split: sum.splits prod.splits)
qed

text \<open>A kernel with three bytes to read that writes at most two at a time.\<close>

definition sample_read :: "(string \<times> string \<times> string) sys_read" where
  "sample_read limit = (\<lambda>(todo, rd, wr). Inr (take limit todo, (drop limit todo, rd @ take limit todo, wr)))"

definition sample_write :: "(string \<times> string \<times> string) sys_write" where
  "sample_write s = (\<lambda>(todo, rd, wr). Inr (min 2 (length s), (todo, rd, wr @ take 2 s)))"

definition sample_taken :: "string \<times> string \<times> string \<Rightarrow> string" where
  "sample_taken = (\<lambda>(todo, rd, wr). rd)"

definition sample_given :: "string \<times> string \<times> string \<Rightarrow> string" where
  "sample_given = (\<lambda>(todo, rd, wr). wr)"

lemma sample_kernel_ok: "kernel_ok sample_taken sample_given sample_read sample_write"
  by (auto simp: kernel_ok_def sample_taken_def sample_given_def sample_read_def sample_write_def
      min_def split: prod.splits)

definition sample_ring :: byte_stream_queue where
  "sample_ring = \<lparr>ring_buffer = replicate 3 (CHR 0x00), next_byte_to_push = 0, next_byte_to_pop = 0\<rparr>"

definition sample_fd :: file_descriptor where
  "sample_fd = \<lparr>fd_num = 3, fd_eof = False, read_count = 0, write_count = 0\<rparr>"

lemma bytestream_fifo_witness:
  "case ring_run sample_read sample_write [Push, Pop, Push, Pop]
     (sample_ring, sample_fd, sample_fd, (''abc'', [], [])) of
     Inl e \<Rightarrow> kernel_error e
   | Inr (q', _, _, w') \<Rightarrow> sample_taken w' = sample_given w' @ ring_contents q' \<and>
       length (ring_contents q') < 3"
  by (rule bytestream_fifo [OF _ _ sample_kernel_ok])
     (simp_all add: ring_new_def sample_ring_def sample_taken_def sample_given_def)

end
