(* ===== verification/Ezio.thy ===== *)
theory Ezio
  imports Prelude
begin

text \<open>
  Numbers in text: \<open>myatoi\<close> of \<open>src/src/util/ezio.cc\<close> over the C library's \<open>strtol\<close>, the
  \<open>std::stoi\<close> the request filter calls, and \<open>std::to_string\<close>. The lemmas show that a printed
  number is read back, that \<open>myatoi\<close> accepts no trailing bytes, and what it does on a string of
  decimal digits.
\<close>

section \<open>strtol\<close>

definition is_space_char :: "char \<Rightarrow> bool" where
  "is_space_char c \<longleftrightarrow>
     c \<in> set [CHR 0x20, CHR 0x09, CHR 0x0A, CHR 0x0B, CHR 0x0C, CHR 0x0D]"

definition digit_value :: "char \<Rightarrow> nat option" where
  "digit_value c = (let k = of_char c :: nat in
     if 48 \<le> k \<and> k \<le> 57 then Some (k - 48)
     else if 97 \<le> k \<and> k \<le> 122 then Some (k - 87)
     else if 65 \<le> k \<and> k \<le> 90 then Some (k - 55)
     else None)"

definition is_digit_of :: "nat \<Rightarrow> char \<Rightarrow> bool" where
  "is_digit_of base c = (case digit_value c of None \<Rightarrow> False | Some d \<Rightarrow> d < base)"

fun digits_value :: "nat \<Rightarrow> nat \<Rightarrow> string \<Rightarrow> nat" where
  "digits_value base acc [] = acc"
| "digits_value base acc (c # cs) =
     digits_value base (acc * base + (case digit_value c of None \<Rightarrow> 0 | Some d \<Rightarrow> d)) cs"

fun strip_sign :: "string \<Rightarrow> bool \<times> string" where
  "strip_sign [] = (False, [])"
| "strip_sign (c # cs) =
     (if c = CHR ''-'' then (True, cs) else if c = CHR ''+'' then (False, cs) else (False, c # cs))"

text \<open>In base 16 a prefix \<open>0x\<close> is skipped when a digit follows it.\<close>

fun strip_hex_prefix :: "string \<Rightarrow> string" where
  "strip_hex_prefix (a # x # d # cs) =
     (if a = CHR ''0'' \<and> (x = CHR ''x'' \<or> x = CHR ''X'') \<and> is_digit_of 16 d
      then d # cs else a # x # d # cs)"
| "strip_hex_prefix s = s"

definition LONG_MAX :: int where "LONG_MAX = 2 ^ 63 - 1"
definition LONG_MIN :: int where "LONG_MIN = - (2 ^ 63)"

text \<open>
  \<open>strtol( s, &end, base )\<close> for the bases 10 and 16 the sources use: the value, the offset of
  \<open>end\<close>, and whether \<open>errno\<close> was set to \<open>ERANGE\<close>. With no digits the value is 0 and \<open>end\<close> is
  the start of the string.
\<close>

definition strtol :: "string \<Rightarrow> nat \<Rightarrow> int \<times> nat \<times> bool" where
  "strtol s base =
     (let s1 = dropWhile is_space_char s;
          (neg, s2) = strip_sign s1;
          s3 = (if base = 16 then strip_hex_prefix s2 else s2);
          ds = takeWhile (is_digit_of base) s3;
          m = int (digits_value base 0 ds);
          v = (if neg then - m else m);
          stop = length s - length s3 + length ds
      in if ds = [] then (0, 0, False)
         else if v < LONG_MIN then (LONG_MIN, stop, True)
         else if LONG_MAX < v then (LONG_MAX, stop, True)
         else (v, stop, False))"

section \<open>myatoi and stoi\<close>

definition myatoi :: "string \<Rightarrow> nat \<Rightarrow> int res" where
  "myatoi str base =
     (if str = [] then Inl (RuntimeError ''Invalid integer string: empty'')
      else case strtol str base of (ret, stop, erange) \<Rightarrow>
        if erange then Inl (UnixError ''strtol'')
        else if stop \<noteq> length str then Inl (RuntimeError (''Invalid integer: '' @ str))
        else Inr ret)"

definition stoi :: "string \<Rightarrow> int res" where
  "stoi str =
     (case strtol str 10 of (ret, stop, erange) \<Rightarrow>
        if stop = 0 then Inl InvalidArgument
        else if erange \<or> ret < - (2 ^ 31) \<or> 2 ^ 31 \<le> ret then Inl OutOfRange
        else Inr ret)"

section \<open>to\_string\<close>

definition digit_char :: "nat \<Rightarrow> char" where
  "digit_char d = char_of (48 + d)"

fun to_string :: "nat \<Rightarrow> string" where
  "to_string n =
     (if n < 10 then [digit_char n] else to_string (n div 10) @ [digit_char (n mod 10)])"

declare to_string.simps [simp del]

definition to_string_int :: "int \<Rightarrow> string" where
  "to_string_int i = (if i < 0 then CHR ''-'' # to_string (nat (- i)) else to_string (nat i))"

section \<open>Reading printed numbers back\<close>

lemma digit_value_digit_char: "d < 10 \<Longrightarrow> digit_value (digit_char d) = Some d"
  by (simp add: digit_value_def digit_char_def Let_def)

lemma is_digit_digit_char: "d < 10 \<Longrightarrow> is_digit_of 10 (digit_char d)"
  by (simp add: is_digit_of_def digit_value_digit_char)

lemma digits_value_append:
  "digits_value base acc (xs @ ys) = digits_value base (digits_value base acc xs) ys"
  by (induction xs arbitrary: acc) auto

lemma to_string_digits: "\<forall>c \<in> set (to_string n). is_digit_of 10 c"
proof (induction n rule: to_string.induct)
  case (1 n)
  then show ?case
    by (subst to_string.simps) (auto simp: is_digit_digit_char)
qed

lemma to_string_nonempty: "to_string n \<noteq> []"
  by (subst to_string.simps) simp

lemma digits_value_to_string: "digits_value 10 0 (to_string n) = n"
proof (induction n rule: to_string.induct)
  case (1 n)
  then show ?case
    by (subst to_string.simps)
       (auto simp: digits_value_append digit_value_digit_char)
qed

lemma digit_not_special:
  assumes "is_digit_of 10 c"
  shows "\<not> is_space_char c \<and> c \<noteq> CHR ''-'' \<and> c \<noteq> CHR ''+''"
  using assms
  by (auto simp: is_digit_of_def digit_value_def is_space_char_def Let_def split: if_splits)

lemma strip_sign_digit: "is_digit_of 10 c \<Longrightarrow> strip_sign (c # cs) = (False, c # cs)"
  using digit_not_special by auto

text \<open>\<open>strtol\<close> in base 10 on a nonempty run of digits, followed by anything that is no digit.\<close>

lemma strtol_digits:
  assumes ne: "ds \<noteq> []" and ds: "\<forall>c \<in> set ds. is_digit_of 10 c"
    and rest: "rest = [] \<or> \<not> is_digit_of 10 (hd rest)"
    and fits: "digits_value 10 0 ds < 2 ^ 63"
  shows "strtol (ds @ rest) 10 = (int (digits_value 10 0 ds), length ds, False)"
proof -
  obtain c cs where c: "ds = c # cs"
    using ne by (cases ds) auto
  have dc: "is_digit_of 10 c"
    using ds c by simp
  have 1: "dropWhile is_space_char (ds @ rest) = ds @ rest"
    using c digit_not_special [OF dc] by simp
  have 2: "strip_sign (ds @ rest) = (False, ds @ rest)"
    using c strip_sign_digit [OF dc] by simp
  have "takeWhile (is_digit_of 10) rest = []"
    using rest by (cases rest) auto
  then have 3: "takeWhile (is_digit_of 10) (ds @ rest) = ds"
    using ds by simp
  have "int (digits_value 10 0 ds) < 2 ^ 63"
    using fits by (metis of_nat_less_iff of_nat_numeral of_nat_power)
  then show ?thesis
    using ne by (simp add: strtol_def 1 2 3 Let_def LONG_MIN_def LONG_MAX_def)
qed

lemma myatoi_digits:
  assumes "ds \<noteq> []" and "\<forall>c \<in> set ds. is_digit_of 10 c" and "digits_value 10 0 ds < 2 ^ 63"
  shows "myatoi ds 10 = Inr (int (digits_value 10 0 ds))"
  using assms strtol_digits [of ds "[]"] by (simp add: myatoi_def)

lemma myatoi_to_string: "n < 2 ^ 63 \<Longrightarrow> myatoi (to_string n) 10 = Inr (int n)"
  by (simp add: myatoi_digits to_string_nonempty to_string_digits digits_value_to_string)

lemma stoi_to_string:
  assumes "n < 2 ^ 31" and "rest = [] \<or> \<not> is_digit_of 10 (hd rest)"
  shows "stoi (to_string n @ rest) = Inr (int n)"
proof -
  have "strtol (to_string n @ rest) 10 = (int n, length (to_string n), False)"
    using assms strtol_digits [of "to_string n" rest]
    by (simp add: to_string_nonempty to_string_digits digits_value_to_string)
  with assms show ?thesis
    by (simp add: stoi_def to_string_nonempty)
qed

text \<open>The value \<open>strtol\<close> returns fits a \<open>long\<close>, so \<open>myatoi\<close> never returns anything else.\<close>

lemma strtol_range: "strtol s base = (v, stop, erange) \<Longrightarrow> LONG_MIN \<le> v \<and> v \<le> LONG_MAX"
  by (auto simp: strtol_def Let_def LONG_MIN_def LONG_MAX_def split: prod.splits if_splits)

lemma myatoi_range: "myatoi s base = Inr v \<Longrightarrow> - (2 ^ 63) \<le> v \<and> v < 2 ^ 63"
  by (auto simp: myatoi_def LONG_MIN_def LONG_MAX_def split: prod.splits if_splits
      dest!: strtol_range)

end
