(* ===== verification/Event_Loop.thy ===== *)
theory Event_Loop
  imports Byte_Stream Ezio
begin

text \<open>
  \<open>Poller\<close> of \<open>src/src/util/poller.cc\<close>, \<open>ChildProcess\<close> of \<open>src/src/util/child_process.cc\<close> and the
  signal handler and loop of \<open>EventLoop\<close> in \<open>src/src/util/event_loop.cc\<close>. Callbacks, interest
  functions and the descriptors they refer to act on a world \<open>'w\<close> that is passed along; \<open>::poll\<close>
  and \<open>waitid\<close> are arguments. What a call does to other processes (\<open>kill\<close>, \<open>raise\<close>) is recorded
  as a list of signals.

  The lemmas show which callbacks a poll runs, and what a \<open>SIGCHLD\<close> does to the children.
\<close>

section \<open>Poller\<close>

unbundle bit_operations_syntax

datatype result_type = Continue | Exit | Cancel

record action_result =
  result :: result_type
  result_exit_status :: u32

definition just :: "result_type \<Rightarrow> action_result" where
  "just t = \<lparr>result = t, result_exit_status = 0\<rparr>"

datatype direction = In | Out

definition POLLIN :: "16 word" where "POLLIN = 1"
definition POLLOUT :: "16 word" where "POLLOUT = 4"
definition POLLERR :: "16 word" where "POLLERR = 8"
definition POLLHUP :: "16 word" where "POLLHUP = 16"
definition POLLNVAL :: "16 word" where "POLLNVAL = 32"

fun direction_bits :: "direction \<Rightarrow> 16 word" where
  "direction_bits In = POLLIN"
| "direction_bits Out = POLLOUT"

record 'w action =
  action_fd :: "'w \<Rightarrow> file_descriptor"
  action_direction :: direction
  callback :: "'w \<Rightarrow> (action_result \<times> 'w) res"
  when_interested :: "'w \<Rightarrow> bool \<times> 'w"
  active :: bool

record pollfd =
  poll_fd :: int
  events :: "16 word"
  revents :: "16 word"

record 'w poller =
  actions :: "'w action list"
  pollfds :: "pollfd list"

definition poller_new :: "'w poller" where
  "poller_new = \<lparr>actions = [], pollfds = []\<rparr>"

definition add_action :: "'w \<Rightarrow> 'w action \<Rightarrow> 'w poller \<Rightarrow> 'w poller" where
  "add_action w a p =
     p\<lparr>actions := actions p @ [a],
       pollfds := pollfds p @ [\<lparr>poll_fd = fd_num (action_fd a w), events = 0, revents = 0\<rparr>]\<rparr>"

definition service_count :: "'w \<Rightarrow> 'w action \<Rightarrow> u32" where
  "service_count w a =
     (case action_direction a of
        In \<Rightarrow> read_count (action_fd a w) | Out \<Rightarrow> write_count (action_fd a w))"

text \<open>The events an action is polled for; \<open>when_interested\<close> is asked only of active actions.\<close>

definition interest :: "'w action \<Rightarrow> 'w \<Rightarrow> 16 word \<times> 'w" where
  "interest a w =
     (case (if active a then when_interested a w else (False, w)) of (wanted, w1) \<Rightarrow>
        let ev = (if wanted then direction_bits (action_direction a) else 0)
        in (if action_direction a = In \<and> fd_eof (action_fd a w1) then 0 else ev, w1))"

fun set_events ::
  "'w action list \<Rightarrow> pollfd list \<Rightarrow> 'w \<Rightarrow> (pollfd list \<times> 'w) res" where
  "set_events (a # as) (p # ps) w =
     (if poll_fd p \<noteq> fd_num (action_fd a w) then Inl AssertFail
      else case interest a w of (ev, w1) \<Rightarrow>
        rbind (set_events as ps w1) (\<lambda>(ps', w'). Inr (p\<lparr>events := ev\<rparr> # ps', w')))"
| "set_events _ _ w = Inr ([], w)"

datatype poll_type = PollSuccess | PollTimeout | PollExit

type_synonym poll_result = "poll_type \<times> u32"

text \<open>
  The loop over the descriptors. Beside what \<open>poll\<close> returns, the actions left and the world, it
  yields the positions of the actions whose callbacks were run.
\<close>

fun serve ::
  "nat \<Rightarrow> 'w action list \<Rightarrow> pollfd list \<Rightarrow> 'w \<Rightarrow> (poll_result \<times> 'w action list \<times> nat list \<times> 'w) res"
where
  "serve i (a # as) (p # ps) w =
     (if revents p AND (POLLERR OR POLLHUP OR POLLNVAL) \<noteq> 0
      then Inr ((PollExit, 0), a # as, [], w)
      else if revents p AND events p \<noteq> 0 then
        rbind (callback a w) (\<lambda>(r, w1).
          case result r of
            Exit \<Rightarrow> Inr ((PollExit, result_exit_status r), a # as, [i], w1)
          | t \<Rightarrow>
              let a' = (if t = Cancel then a\<lparr>active := False\<rparr> else a)
              in if service_count w a = service_count w1 a
                 then Inl (RuntimeError
                   ''Poller: busy wait detected: callback did not read/write fd'')
                 else rbind (serve (i + 1) as ps w1) (\<lambda>(pr, as', run, w').
                        Inr (pr, a' # as', i # run, w')))
      else rbind (serve (i + 1) as ps w) (\<lambda>(pr, as', run, w'). Inr (pr, a # as', run, w')))"
| "serve i as _ w = Inr ((PollSuccess, 0), as, [], w)"

text \<open>\<open>::poll\<close> fills in the answers and returns how many there are.\<close>

type_synonym 'w sys_poll = "pollfd list \<Rightarrow> int \<Rightarrow> 'w \<Rightarrow> (nat \<times> 16 word list \<times> 'w) res"

definition answered :: "pollfd list \<Rightarrow> 16 word list \<Rightarrow> pollfd list" where
  "answered ps rs = map2 (\<lambda>p r. p\<lparr>revents := r\<rparr>) ps rs"

definition poll ::
  "'w sys_poll \<Rightarrow> int \<Rightarrow> 'w poller \<times> 'w \<Rightarrow> (poll_result \<times> nat list \<times> ('w poller \<times> 'w)) res" where
  "poll sys_poll timeout_ms = (\<lambda>(p, w0).
     if length (pollfds p) \<noteq> length (actions p) then Inl AssertFail
     else rbind (set_events (actions p) (pollfds p) w0) (\<lambda>(ps, w1).
       if \<forall>x \<in> set ps. events x = 0 then Inr ((PollExit, 0), [], (p\<lparr>pollfds := ps\<rparr>, w1))
       else rbind (sys_poll ps timeout_ms w1) (\<lambda>(n, rs, w2).
         let ps' = answered ps rs
         in if n = 0 then Inr ((PollTimeout, 0), [], (p\<lparr>pollfds := ps'\<rparr>, w2))
            else rbind (serve 0 (actions p) ps' w2) (\<lambda>(pr, as, run, w').
                   Inr (pr, run, (p\<lparr>actions := as, pollfds := ps'\<rparr>, w'))))))"

section \<open>ChildProcess\<close>

datatype signal = SIGCHLD | SIGCONT | SIGHUP | SIGTERM | SIGQUIT | SIGINT | SIGSTOP | OtherSignal int

datatype si_code =
  CLD_EXITED | CLD_KILLED | CLD_DUMPED | CLD_STOPPED | CLD_CONTINUED | OtherCode int

record siginfo =
  si_pid :: int
  si_signo :: signal
  si_code :: si_code
  si_status :: int

record child_process =
  child_name :: string
  child_pid :: int
  running :: bool
  terminated :: bool
  exit_status :: int
  died_on_signal :: bool
  termination_signal :: signal
  moved_away :: bool

text \<open>The parent's side of the constructor; \<open>pid\<close> is the answer of \<open>do_clone\<close>.\<close>

definition child_new :: "string \<Rightarrow> int \<Rightarrow> signal \<Rightarrow> child_process" where
  "child_new nm pid sig =
     \<lparr>child_name = nm, child_pid = pid, running = True, terminated = False, exit_status = 0,
      died_on_signal = False, termination_signal = sig, moved_away = False\<rparr>"

text \<open>\<open>waitable\<close> and \<open>wait\<close>, given what \<open>waitid\<close> filled in.\<close>

definition waitable :: "siginfo \<Rightarrow> child_process \<Rightarrow> bool res" where
  "waitable infop c =
     (if moved_away c \<or> terminated c then Inl AssertFail
      else if si_pid infop = 0 then Inr False
      else if si_pid infop = child_pid c then Inr True
      else Inl (RuntimeError ''waitid: unexpected value in siginfo_t si_pid field (not 0 or pid)''))"

definition child_changed :: "siginfo \<Rightarrow> child_process \<Rightarrow> child_process res" where
  "child_changed infop c =
     (case si_code infop of
        CLD_EXITED \<Rightarrow> Inr (c\<lparr>terminated := True, exit_status := si_status infop\<rparr>)
      | CLD_KILLED \<Rightarrow>
          Inr (c\<lparr>terminated := True, exit_status := si_status infop, died_on_signal := True\<rparr>)
      | CLD_DUMPED \<Rightarrow>
          Inr (c\<lparr>terminated := True, exit_status := si_status infop, died_on_signal := True\<rparr>)
      | CLD_STOPPED \<Rightarrow> Inr (c\<lparr>running := False\<rparr>)
      | CLD_CONTINUED \<Rightarrow> Inr (c\<lparr>running := True\<rparr>)
      | OtherCode _ \<Rightarrow> Inl (RuntimeError ''waitid: unexpected siginfo_t si_code''))"

definition child_wait :: "bool \<Rightarrow> siginfo \<Rightarrow> child_process \<Rightarrow> child_process res" where
  "child_wait nonblocking infop c =
     (if moved_away c \<or> terminated c then Inl AssertFail
      else if nonblocking \<and> si_pid infop = 0
      then Inl (RuntimeError ''nonblocking wait: process was not waitable'')
      else if si_pid infop \<noteq> child_pid c
      then Inl (RuntimeError ''waitid: unexpected value in siginfo_t si_pid field'')
      else if si_signo infop \<noteq> SIGCHLD
      then Inl (RuntimeError ''waitid: unexpected value in siginfo_t si_signo field (not SIGCHLD)'')
      else child_changed infop c)"

text \<open>The signals sent, as pairs of a process and a signal.\<close>

definition child_signal :: "signal \<Rightarrow> child_process \<Rightarrow> (int \<times> signal) list res" where
  "child_signal sig c =
     (if moved_away c then Inl AssertFail
      else Inr (if \<not> terminated c then [(child_pid c, sig)] else []))"

definition child_resume :: "child_process \<Rightarrow> (int \<times> signal) list res" where
  "child_resume c =
     (if moved_away c then Inl AssertFail
      else if \<not> running c then child_signal SIGCONT c else Inr [])"

definition child_exception :: "child_process \<Rightarrow> err" where
  "child_exception c =
     RuntimeError (''`'' @ child_name c @ [CHR 0x27] @ '': process '' @
       (if died_on_signal c then ''died on signal '' else ''exited with failure status '') @
       to_string_int (exit_status c))"

section \<open>EventLoop\<close>

text \<open>
  The two calls of \<open>waitid\<close> with \<open>WNOHANG\<close>: \<open>peek\<close>, which leaves the child waitable, and
  \<open>reap\<close>, which does not.
\<close>

type_synonym 'w peek = "int \<Rightarrow> 'w \<Rightarrow> siginfo res"
type_synonym 'w reap = "int \<Rightarrow> 'w \<Rightarrow> (siginfo \<times> 'w) res"

type_synonym children = "(int \<times> child_process) list"

definition child_terminated :: "child_process \<Rightarrow> bool res" where
  "child_terminated c = (if moved_away c then Inl AssertFail else Inr (terminated c))"

fun all_terminated :: "children \<Rightarrow> bool res" where
  "all_terminated [] = Inr True"
| "all_terminated ((_, c) # cs) =
     rbind (child_terminated c) (\<lambda>t. if t then all_terminated cs else Inr False)"

text \<open>A child that has just terminated, among the children before and behind it.\<close>

definition child_gone ::
  "children \<Rightarrow> int \<Rightarrow> child_process \<Rightarrow> children \<Rightarrow> (action_result \<times> children) res" where
  "child_gone before continue_status c behind =
     (if exit_status c \<noteq> 0 \<and> exit_status c \<noteq> continue_status then Inl (child_exception c)
      else let cs = before @ (continue_status, c) # behind in
        rbind (all_terminated cs) (\<lambda>all.
          Inr (if all then just Exit
               else if exit_status c = continue_status then just Continue else just Exit, cs)))"

text \<open>
  The loop of the \<open>SIGCHLD\<close> case; \<open>before\<close> are the children it has passed. It yields the signals
  raised on the way.
\<close>

fun sigchld_loop ::
  "'w peek \<Rightarrow> 'w reap \<Rightarrow> children \<Rightarrow> children \<Rightarrow> 'w \<Rightarrow>
     (action_result \<times> children \<times> signal list \<times> 'w) res" where
  "sigchld_loop peek reap before [] w = Inr (just Continue, before, [], w)"
| "sigchld_loop peek reap before ((s, c) # behind) w =
     rbind (child_terminated c) (\<lambda>t.
       if t then sigchld_loop peek reap (before @ [(s, c)]) behind w
       else rbind (peek (child_pid c) w) (\<lambda>info.
         rbind (waitable info c) (\<lambda>wt.
           if \<not> wt then sigchld_loop peek reap (before @ [(s, c)]) behind w
           else rbind (reap (child_pid c) w) (\<lambda>(info', w1).
             rbind (child_wait True info' c) (\<lambda>c1.
               if terminated c1 then
                 rbind (child_gone before s c1 behind) (\<lambda>(r, cs). Inr (r, cs, [], w1))
               else if \<not> running c1 then
                 rbind (sigchld_loop peek reap (before @ [(s, c1)]) behind w1)
                   (\<lambda>(r, cs, raised, w'). Inr (r, cs, SIGSTOP # raised, w'))
               else sigchld_loop peek reap (before @ [(s, c1)]) behind w1)))))"

fun resume_all :: "children \<Rightarrow> (int \<times> signal) list res" where
  "resume_all [] = Inr []"
| "resume_all ((_, c) # cs) =
     rbind (child_resume c) (\<lambda>ks. rbind (resume_all cs) (\<lambda>ks'. Inr (ks @ ks')))"

text \<open>
  \<open>handle_signal\<close>: the answer, the children, the signals sent to children and raised, and whether
  \<open>optional_exit_behavior_\<close> was run.
\<close>

record outcome =
  answer :: action_result
  children_left :: children
  killed :: "(int \<times> signal) list"
  raised :: "signal list"
  exit_behavior_run :: bool

definition handle_signal ::
  "'w peek \<Rightarrow> 'w reap \<Rightarrow> signal \<Rightarrow> children \<Rightarrow> 'w \<Rightarrow> (outcome \<times> 'w) res" where
  "handle_signal peek reap sig cs w =
     (let out = \<lparr>answer = just Continue, children_left = cs, killed = [], raised = [],
                 exit_behavior_run = False\<rparr>
      in case sig of
        SIGCONT \<Rightarrow> rbind (resume_all cs) (\<lambda>ks. Inr (out\<lparr>killed := ks\<rparr>, w))
      | SIGCHLD \<Rightarrow>
          (if cs = [] then Inl (RuntimeError ''received SIGCHLD without any managed children'')
           else rbind (sigchld_loop peek reap [] cs w) (\<lambda>(r, cs', rs, w').
                  Inr (out\<lparr>answer := r, children_left := cs', raised := rs\<rparr>, w')))
      | SIGHUP \<Rightarrow> Inr (out\<lparr>answer := just Exit, exit_behavior_run := True\<rparr>, w)
      | SIGTERM \<Rightarrow> Inr (out\<lparr>answer := just Exit, exit_behavior_run := True\<rparr>, w)
      | SIGQUIT \<Rightarrow> Inr (out\<lparr>answer := just Exit, exit_behavior_run := True\<rparr>, w)
      | SIGINT \<Rightarrow> Inr (out\<lparr>answer := just Exit, exit_behavior_run := True\<rparr>, w)
      | _ \<Rightarrow> Inl (RuntimeError ''EventLoop: unknown signal''))"

text \<open>
  The loop of \<open>internal_loop\<close>, once the signal descriptor is among the actions; \<open>wait_time\<close> may
  change the world. It is also the loop of \<open>HTTPProxy::loop\<close>, with a constant timeout.
\<close>

partial_function (option) poll_loop ::
  "'w sys_poll \<Rightarrow> ('w \<Rightarrow> (int \<times> 'w) res) \<Rightarrow> 'w poller \<times> 'w \<Rightarrow> (u32 \<times> ('w poller \<times> 'w)) res option"
where
  [code]: "poll_loop sys_poll wait_time s =
     (case wait_time (snd s) of
        Inl e \<Rightarrow> Some (Inl e)
      | Inr (t, w1) \<Rightarrow>
          (case poll sys_poll t (fst s, w1) of
             Inl e \<Rightarrow> Some (Inl e)
           | Inr (r, run, s') \<Rightarrow>
               (if fst r = PollExit then Some (Inr (snd r, s')) else poll_loop sys_poll wait_time s')))"

section \<open>What a poll runs\<close>

text \<open>The actions that will be served: their events and answers share a bit.\<close>

definition ready :: "pollfd list \<Rightarrow> nat list" where
  "ready ps = filter (\<lambda>i. revents (ps ! i) AND events (ps ! i) \<noteq> 0) [0..<length ps]"

definition failed :: "pollfd \<Rightarrow> bool" where
  "failed p \<longleftrightarrow> revents p AND (POLLERR OR POLLHUP OR POLLNVAL) \<noteq> 0"

lemma filter_upt_shift:
  "filter P [Suc k..<Suc n] = map Suc (filter (\<lambda>i. P (Suc i)) [k..<n])"
  by (induction n) auto

lemma ready_Cons:
  "ready (p # ps) = (if revents p AND events p \<noteq> 0 then [0] else []) @ map Suc (ready ps)"
  by (simp add: ready_def upt_conv_Cons filter_upt_shift del: upt_Suc)

text \<open>An action after it was served: at most switched off.\<close>

definition same_action :: "'w action \<Rightarrow> 'w action \<Rightarrow> bool" where
  "same_action a a' \<longleftrightarrow> a' = a \<or> a' = a\<lparr>active := False\<rparr>"

lemma serve_steps:
  "failed p \<Longrightarrow> serve i (a # as) (p # ps) w = Inr ((PollExit, 0), a # as, [], w)"
  "\<not> failed p \<Longrightarrow> revents p AND events p = 0 \<Longrightarrow> serve i (a # as) (p # ps) w =
     rbind (serve (i + 1) as ps w) (\<lambda>(pr, as', run, w'). Inr (pr, a # as', run, w'))"
  "\<not> failed p \<Longrightarrow> revents p AND events p \<noteq> 0 \<Longrightarrow> serve i (a # as) (p # ps) w =
     rbind (callback a w) (\<lambda>(r, w1).
       if result r = Exit then Inr ((PollExit, result_exit_status r), a # as, [i], w1)
       else if service_count w a = service_count w1 a
       then Inl (RuntimeError ''Poller: busy wait detected: callback did not read/write fd'')
       else rbind (serve (i + 1) as ps w1) (\<lambda>(pr, as', run, w').
         Inr (pr, (if result r = Cancel then a\<lparr>active := False\<rparr> else a) # as', i # run, w')))"
proof -
  assume "\<not> failed p" "revents p AND events p \<noteq> 0"
  then show "serve i (a # as) (p # ps) w =
     rbind (callback a w) (\<lambda>(r, w1).
       if result r = Exit then Inr ((PollExit, result_exit_status r), a # as, [i], w1)
       else if service_count w a = service_count w1 a
       then Inl (RuntimeError ''Poller: busy wait detected: callback did not read/write fd'')
       else rbind (serve (i + 1) as ps w1) (\<lambda>(pr, as', run, w').
         Inr (pr, (if result r = Cancel then a\<lparr>active := False\<rparr> else a) # as', i # run, w')))"
    by (cases "callback a w") (simp_all add: failed_def Let_def split: result_type.split prod.split)
qed (simp_all add: failed_def)

declare serve.simps(1) [simp del]

lemma map_add_Suc: "map ((+) i) (map Suc xs) = map ((+) (i + 1)) xs"
  by simp

text \<open>What a callback must not do is leave its descriptor alone; then \<open>poll\<close> goes on to the end.\<close>

lemma serve_success:
  "length as = length ps \<Longrightarrow> serve i as ps w = Inr ((PollSuccess, st), as', run, w') \<Longrightarrow>
     run = map ((+) i) (ready ps) \<and> list_all2 same_action as as' \<and> (\<forall>p \<in> set ps. \<not> failed p)"
proof (induction as arbitrary: i ps w as' run)
  case Nil
  then show ?case by (simp add: ready_def)
next
  case (Cons a as)
  obtain p ps1 where ps: "ps = p # ps1" and len: "length as = length ps1"
    using Cons.prems(1) by (cases ps) auto
  have nf: "\<not> failed p"
    using Cons.prems(2) serve_steps(1) [of p i a as ps1 w] by (auto simp: ps)
  show ?case
  proof (cases "revents p AND events p = 0")
    case True
    then obtain as1 where r: "serve (i + 1) as ps1 w = Inr ((PollSuccess, st), as1, run, w')"
      and as': "as' = a # as1"
      using Cons.prems(2) by (auto simp: ps serve_steps(2) [OF nf] res_iff)
    from Cons.IH [OF len r] show ?thesis
      using True nf as' by (simp add: ps ready_Cons map_add_Suc same_action_def)
  next
    case False
    then obtain w1 as1 run1 a' where r: "serve (i + 1) as ps1 w1 = Inr ((PollSuccess, st), as1, run1, w')"
      and as': "same_action a a'" "as' = a' # as1" and run: "run = i # run1"
      using Cons.prems(2) unfolding ps serve_steps(3) [OF nf False]
      by (auto simp: res_iff same_action_def split: if_splits)
    from Cons.IH [OF len r] show ?thesis
      using False nf as' run by (simp add: ps ready_Cons map_add_Suc)
  qed
qed


lemma interest_active:
  assumes "interest a w = (ev, w')" and "ev \<noteq> 0"
  shows "active a \<and> ev = direction_bits (action_direction a)"
  using assms by (auto simp: interest_def Let_def split: prod.splits if_splits)

lemma set_events_active:
  "length as = length ps \<Longrightarrow> set_events as ps w = Inr (ps', w') \<Longrightarrow>
     list_all2 (\<lambda>a p. events p \<noteq> 0 \<longrightarrow> active a \<and> events p = direction_bits (action_direction a)) as ps'"
proof (induction as ps w arbitrary: ps' rule: set_events.induct)
  case (1 a as p ps w)
  obtain ev w1 where i: "interest a w = (ev, w1)" by force
  with "1.prems" obtain ps1 where "set_events as ps w1 = Inr (ps1, w')" "ps' = p\<lparr>events := ev\<rparr> # ps1"
    by (auto simp: res_iff split: if_splits)
  then show ?case
    using "1.IH" [OF _ i [symmetric]] "1.prems" interest_active [OF i] by (auto split: if_splits)
qed auto

text \<open>
  C30: what a successful \<open>poll\<close> has done. Exactly the actions whose answer shares a bit
  with the events they were polled for had their callback run, once each and in the order in which
  they were added; each of them was active and its own direction was answered; no descriptor had
  an error answered; and the only change to the list of actions is that some are switched off.
  (\<open>::poll\<close> is assumed to answer for every descriptor it was given.)
\<close>

theorem poller_serves:
  assumes "poll sys_poll t (p, w) = Inr ((PollSuccess, st), run, (p', w'))"
    and "\<forall>ps t w n rs w'. sys_poll ps t w = Inr (n, rs, w') \<longrightarrow> length rs = length ps"
  shows "\<exists>ps w1 n rs w2. set_events (actions p) (pollfds p) w = Inr (ps, w1) \<and>
    sys_poll ps t w1 = Inr (n, rs, w2) \<and>
    run = filter (\<lambda>i. rs ! i AND events (ps ! i) \<noteq> 0) [0..<length (actions p)] \<and>
    (\<forall>i \<in> set run. active (actions p ! i) \<and>
       rs ! i AND direction_bits (action_direction (actions p ! i)) \<noteq> 0) \<and>
    (\<forall>r \<in> set rs. r AND (POLLERR OR POLLHUP OR POLLNVAL) = 0) \<and>
    list_all2 same_action (actions p) (actions p')"
proof -
  obtain ps w1 n rs w2 where len: "length (pollfds p) = length (actions p)"
    and ev: "set_events (actions p) (pollfds p) w = Inr (ps, w1)"
    and sp: "sys_poll ps t w1 = Inr (n, rs, w2)"
    and sv: "serve 0 (actions p) (answered ps rs) w2 = Inr ((PollSuccess, st), actions p', run, w')"
    using assms(1) by (auto simp: poll_def res_iff Let_def split: if_splits)
  have act: "list_all2 (\<lambda>a p. events p \<noteq> 0 \<longrightarrow>
      active a \<and> events p = direction_bits (action_direction a)) (actions p) ps"
    using set_events_active [OF _ ev] len by simp
  then have l: "length ps = length (actions p)"
    by (simp add: list_all2_lengthD)
  have lr: "length rs = length ps"
    using assms(2) sp by blast
  have la: "length (answered ps rs) = length (actions p)"
    using l lr by (simp add: answered_def)
  have nth: "revents (answered ps rs ! i) = rs ! i \<and> events (answered ps rs ! i) = events (ps ! i)"
    if "i < length (actions p)" for i
    using that l lr by (simp add: answered_def)
  note s = serve_success [OF la [symmetric] sv]
  have map0: "map ((+) 0) xs = xs" for xs :: "nat list"
    by (simp add: map_idI)
  have run: "run = filter (\<lambda>i. rs ! i AND events (ps ! i) \<noteq> 0) [0..<length (actions p)]"
  proof -
    have "run = filter (\<lambda>i. revents (answered ps rs ! i) AND events (answered ps rs ! i) \<noteq> 0)
        [0..<length (actions p)]"
      using s map0 by (simp add: ready_def la)
    also have "\<dots> = filter (\<lambda>i. rs ! i AND events (ps ! i) \<noteq> 0) [0..<length (actions p)]"
      using nth by (intro filter_cong) auto
    finally show ?thesis .
  qed
  have "\<forall>i < length rs. rs ! i AND (POLLERR OR POLLHUP OR POLLNVAL) = 0"
    using s nth la l lr by (auto simp: failed_def all_set_conv_all_nth)
  then have "\<forall>r \<in> set rs. r AND (POLLERR OR POLLHUP OR POLLNVAL) = 0"
    by (simp add: all_set_conv_all_nth)
  moreover have "\<forall>i \<in> set run. active (actions p ! i) \<and>
       rs ! i AND direction_bits (action_direction (actions p ! i)) \<noteq> 0"
    using act by (auto simp: run list_all2_conv_all_nth)
  ultimately show ?thesis
    using ev sp run s by blast
qed

text \<open>One action that reads whenever it is asked to.\<close>

definition sample_action :: "file_descriptor action" where
  "sample_action = \<lparr>action_fd = (\<lambda>w. w), action_direction = In,
     callback = (\<lambda>w. Inr (just Cancel, w\<lparr>read_count := read_count w + 1\<rparr>)),
     when_interested = (\<lambda>w. (True, w)), active = True\<rparr>"

definition sample_poll :: "file_descriptor sys_poll" where
  "sample_poll ps t w = Inr (length ps, map events ps, w)"

lemma poller_serves_witness:
  "\<exists>p' w'. poll sample_poll 0 (add_action sample_fd sample_action poller_new, sample_fd) =
      Inr ((PollSuccess, 0), [0], (p', w')) \<and> list_all2 same_action [sample_action] (actions p')"
proof -
  let ?p = "add_action sample_fd sample_action poller_new"
  have "\<exists>p' w'. poll sample_poll 0 (?p, sample_fd) = Inr ((PollSuccess, 0), [0], (p', w'))"
    by (simp add: poll_def add_action_def poller_new_def sample_action_def sample_fd_def
        sample_poll_def interest_def answered_def serve.simps POLLIN_def POLLERR_def POLLHUP_def
        POLLNVAL_def service_count_def just_def Let_def)
  then obtain p' w' where r: "poll sample_poll 0 (?p, sample_fd) = Inr ((PollSuccess, 0), [0], (p', w'))"
    by blast
  from poller_serves [OF r] have "list_all2 same_action (actions ?p) (actions p')"
    by (auto simp: sample_poll_def)
  with r show ?thesis
    by (auto simp: add_action_def poller_new_def)
qed

section \<open>What a SIGCHLD does\<close>

text \<open>The same children, one of which may have changed its state.\<close>

definition same_child :: "int \<times> child_process \<Rightarrow> int \<times> child_process \<Rightarrow> bool" where
  "same_child x y \<longleftrightarrow> fst y = fst x \<and> child_pid (snd y) = child_pid (snd x)"

lemma same_child_refl [simp]: "same_child x x" "list_all2 same_child xs xs"
  by (simp_all add: same_child_def list_all2_refl)

definition gone :: "int \<times> child_process \<Rightarrow> bool" where
  "gone x \<longleftrightarrow> terminated (snd x)"

text \<open>Nobody has newly terminated, or exactly one has, whose status decides the answer.\<close>

definition exit_at :: "children \<Rightarrow> children \<Rightarrow> children \<Rightarrow> action_result \<Rightarrow> nat \<Rightarrow> bool" where
  "exit_at all cs ts r i \<longleftrightarrow>
     i < length cs \<and> \<not> gone (cs ! i) \<and> map gone ts = (map gone cs)[i := True] \<and>
     (exit_status (snd (ts ! i)) = 0 \<or> exit_status (snd (ts ! i)) = fst (ts ! i)) \<and>
     r = (if list_all gone all \<or> exit_status (snd (ts ! i)) \<noteq> fst (ts ! i) then just Exit
          else just Continue)"

definition one_exit :: "children \<Rightarrow> children \<Rightarrow> children \<Rightarrow> action_result \<Rightarrow> bool" where
  "one_exit all cs ts r \<longleftrightarrow>
     (r = just Continue \<and> map gone ts = map gone cs) \<or> (\<exists>i < length cs. exit_at all cs ts r i)"

lemma all_terminated_iff: "all_terminated cs = Inr b \<Longrightarrow> b = list_all gone cs"
  by (induction cs arbitrary: b rule: all_terminated.induct)
     (auto simp: res_iff child_terminated_def gone_def split: if_splits)

lemma child_wait_pid: "child_wait nb info c = Inr c1 \<Longrightarrow> child_pid c1 = child_pid c \<and> \<not> terminated c"
  by (auto simp: child_wait_def child_changed_def split: if_splits si_code.splits)

lemma exit_at_Suc:
  "gone y = gone x \<Longrightarrow> exit_at all (x # cs) (y # ts) r (Suc i) = exit_at all cs ts r i"
  by (simp add: exit_at_def)

lemma one_exit_Cons:
  assumes "one_exit all cs ts r" and "gone y = gone x"
  shows "one_exit all (x # cs) (y # ts) r"
proof (cases "r = just Continue \<and> map gone ts = map gone cs")
  case True
  then show ?thesis using assms(2) by (simp add: one_exit_def)
next
  case False
  then obtain i where "i < length cs" "exit_at all cs ts r i"
    using assms(1) by (auto simp: one_exit_def)
  then have "Suc i < length (x # cs) \<and> exit_at all (x # cs) (y # ts) r (Suc i)"
    using assms(2) by (simp add: exit_at_Suc)
  then show ?thesis unfolding one_exit_def by blast
qed

lemma child_gone_one_exit:
  assumes "child_gone before s c1 behind = Inr (r, cs')" and "terminated c1" and "\<not> terminated c"
  shows "cs' = before @ (s, c1) # behind \<and> one_exit cs' ((s, c) # behind) ((s, c1) # behind) r"
proof -
  have st: "\<not> (exit_status c1 \<noteq> 0 \<and> exit_status c1 \<noteq> s)"
  proof
    assume "exit_status c1 \<noteq> 0 \<and> exit_status c1 \<noteq> s"
    then show False
      using assms(1) by (simp add: child_gone_def)
  qed
  then have "rbind (all_terminated (before @ (s, c1) # behind)) (\<lambda>all.
      Inr (if all then just Exit else if exit_status c1 = s then just Continue else just Exit,
           before @ (s, c1) # behind)) = Inr (r, cs')"
    using assms(1) by (simp only: child_gone_def Let_def if_False)
  then obtain b where b: "all_terminated (before @ (s, c1) # behind) = Inr b"
    and cs': "cs' = before @ (s, c1) # behind"
    and r: "r = (if b then just Exit else if exit_status c1 = s then just Continue else just Exit)"
    unfolding rbind_Inr_iff by blast
  have "b = list_all gone cs'"
    using all_terminated_iff [OF b] cs' by simp
  then have "exit_at cs' ((s, c) # behind) ((s, c1) # behind) r 0"
    using assms(2,3) st r by (simp add: exit_at_def gone_def)
  then have "one_exit cs' ((s, c) # behind) ((s, c1) # behind) r"
    unfolding one_exit_def by (intro disjI2 exI [of _ 0]) simp
  with cs' show ?thesis by blast
qed

lemma same_child_pair [simp]: "same_child (s, c) (s, c1) \<longleftrightarrow> child_pid c1 = child_pid c"
  by (simp add: same_child_def)

lemma gone_pair [simp]: "gone (s, c) = terminated c"
  by (simp add: gone_def)

lemma sigchld_loop_one_exit:
  "sigchld_loop peek reap before cs w = Inr (r, cs', rs, w') \<Longrightarrow>
     \<exists>ts. cs' = before @ ts \<and> list_all2 same_child cs ts \<and> one_exit cs' cs ts r"
proof (induction cs arbitrary: before w rs)
  case Nil
  then show ?case by (auto simp: one_exit_def)
next
  case (Cons x cs)
  obtain s c where x: "x = (s, c)" by force
  have pass: ?case
    if go: "sigchld_loop peek reap (before @ [(s, c1)]) cs w1 = Inr (r, cs', rs1, w')"
      and c1: "terminated c1 = terminated c" "child_pid c1 = child_pid c" for c1 w1 rs1
  proof -
    from Cons.IH [OF go] obtain ts where "cs' = (before @ [(s, c1)]) @ ts"
      "list_all2 same_child cs ts" "one_exit cs' cs ts r"
      by blast
    then show ?thesis
      using c1 x one_exit_Cons [of cs' cs ts r "(s, c1)" "(s, c)"]
      by (intro exI [of _ "(s, c1) # ts"]) simp
  qed
  obtain t where t: "child_terminated c = Inr t"
    using Cons.prems(1) by (auto simp: x res_iff)
  show ?case
  proof (cases t)
    case True
    with t Cons.prems(1) show ?thesis by (intro pass) (auto simp: x)
  next
    case False
    with t Cons.prems(1) obtain info wt where i: "peek (child_pid c) w = Inr info"
      "waitable info c = Inr wt"
      by (auto simp: x res_iff)
    show ?thesis
    proof (cases wt)
      case F: False
      with t i False Cons.prems(1) show ?thesis by (intro pass) (auto simp: x)
    next
      case True
      with t i False Cons.prems(1) obtain info' w1 c1 where
        c1: "child_wait True info' c = Inr c1" and
        rest: "(if terminated c1 then
                 rbind (child_gone before s c1 cs) (\<lambda>(r, cs). Inr (r, cs, [], w1))
               else if \<not> running c1 then
                 rbind (sigchld_loop peek reap (before @ [(s, c1)]) cs w1)
                   (\<lambda>(r, cs, raised, w'). Inr (r, cs, SIGSTOP # raised, w'))
               else sigchld_loop peek reap (before @ [(s, c1)]) cs w1) = Inr (r, cs', rs, w')"
        by (auto simp: x res_iff)
      note pid = child_wait_pid [OF c1]
      show ?thesis
      proof (cases "terminated c1")
        case gone: True
        then have "child_gone before s c1 cs = Inr (r, cs')"
          using rest by (auto simp: res_iff)
        from child_gone_one_exit [OF this gone, of c] pid show ?thesis
          unfolding x by (intro exI [of _ "(s, c1) # cs"]) auto
      next
        case stays: False
        then obtain rs1 where
          "sigchld_loop peek reap (before @ [(s, c1)]) cs w1 = Inr (r, cs', rs1, w')"
          using rest by (auto simp: res_iff split: if_splits)
        then show ?thesis
          using pass [of c1 w1 rs1] stays pid by simp
      qed
    qed
  qed
qed

text \<open>
  C37: a \<open>SIGCHLD\<close> that is handled without error accounts for at most one exit.
  The children stay the same processes in the same order. Either none of them has newly
  terminated, and the loop goes on; or exactly one has, with status 0 or with the status it was
  registered to continue with, and the loop is told to exit exactly when all children have
  terminated or the status is not the one to continue with. The search stops at this child, so a
  second child that exited before the signal was read stays unaccounted for.
\<close>

theorem sigchld_one_exit:
  assumes "handle_signal peek reap SIGCHLD cs w = Inr (out, w')"
  shows "cs \<noteq> [] \<and> list_all2 same_child cs (children_left out) \<and>
    one_exit (children_left out) cs (children_left out) (answer out)"
proof -
  obtain r cs' rs where l: "sigchld_loop peek reap [] cs w = Inr (r, cs', rs, w')" and "cs \<noteq> []"
    and "children_left out = cs'" "answer out = r"
    using assms by (auto simp: handle_signal_def res_iff Let_def split: if_splits)
  with sigchld_loop_one_exit [OF l] show ?thesis by auto
qed

text \<open>
  A kernel that has changes pending for some processes; two children that were both registered to
  continue with status 77, as those of a packet shell are, and have both exited with it.
\<close>

definition exited :: "int \<Rightarrow> int \<Rightarrow> siginfo" where
  "exited pid status = \<lparr>si_pid = pid, si_signo = SIGCHLD, si_code = CLD_EXITED, si_status = status\<rparr>"

definition sample_peek :: "int list peek" where
  "sample_peek pid w = Inr (exited (if pid \<in> set w then pid else 0) 77)"

definition sample_reap :: "int list reap" where
  "sample_reap pid w = Inr (exited (if pid \<in> set w then pid else 0) 77, removeAll pid w)"

definition sample_children :: children where
  "sample_children =
     [(77, child_new ''packetshell'' 100 SIGHUP), (77, child_new ''downlink'' 101 SIGHUP)]"

lemma sigchld_one_exit_witness:
  "\<exists>out w'. handle_signal sample_peek sample_reap SIGCHLD sample_children [100, 101] = Inr (out, w') \<and>
     answer out = just Continue \<and> w' = [101] \<and> map gone (children_left out) = [True, False] \<and>
     one_exit (children_left out) sample_children (children_left out) (just Continue)"
proof -
  obtain out where r: "handle_signal sample_peek sample_reap SIGCHLD sample_children [100, 101] =
      Inr (out, [101])" "answer out = just Continue" "map gone (children_left out) = [True, False]"
    by (simp add: handle_signal_def sample_peek_def sample_reap_def sample_children_def exited_def
        child_new_def waitable_def child_wait_def child_changed_def child_terminated_def
        child_gone_def gone_def Let_def)
  from sigchld_one_exit [OF r(1)] r show ?thesis by auto
qed

end
