(* ===== verification/Poller_Loop.thy ===== *)
theory Poller_Loop
  imports Event_Loop
begin

text \<open>
  What the clients of a \<open>Poller\<close> rely on and owe it. The locale \<open>poller_client\<close> states the
  contract of a list of actions: an invariant of the world, and for each action a condition under
  which its callback serves the descriptor. The condition holds when \<open>when_interested\<close> has said
  so, and no other callback takes it back. Under the contract the poller's assertion and its check
  for a busy wait never fail, over any number of polls.

  The signal descriptor of \<open>src/src/util/signalfd.cc\<close> is read here too, for the loops it is part of.
\<close>

section \<open>The signal descriptor\<close>

definition SIGINFO_SIZE :: nat where "SIGINFO_SIZE = 128"

text \<open>\<open>read_signal\<close>; the layout of \<open>signalfd_siginfo\<close> is the argument \<open>decode\<close>.\<close>

definition read_signal ::
  "'w sys_read \<Rightarrow> (string \<Rightarrow> signal) \<Rightarrow> file_descriptor \<times> 'w \<Rightarrow> (signal \<times> (file_descriptor \<times> 'w)) res"
where
  "read_signal sys_read decode st =
     rbind (fd_read sys_read SIGINFO_SIZE st) (\<lambda>(delivered, st').
       if length delivered \<noteq> SIGINFO_SIZE
       then Inl (RuntimeError ''signalfd read size mismatch'')
       else Inr (decode delivered, st'))"

section \<open>The loop, pass by pass\<close>

text \<open>One pass of \<open>internal_loop\<close>, and the states the loop is in before each of its passes.\<close>

definition loop_pass ::
  "'w sys_poll \<Rightarrow> ('w \<Rightarrow> (int \<times> 'w) res) \<Rightarrow> 'w poller \<times> 'w \<Rightarrow>
     (poll_result \<times> nat list \<times> ('w poller \<times> 'w)) res" where
  "loop_pass sys_poll wait_time s =
     rbind (wait_time (snd s)) (\<lambda>(t, w). poll sys_poll t (fst s, w))"

inductive passes ::
  "'w sys_poll \<Rightarrow> ('w \<Rightarrow> (int \<times> 'w) res) \<Rightarrow> 'w poller \<times> 'w \<Rightarrow> 'w poller \<times> 'w \<Rightarrow> bool"
  for sys_poll wait_time s0 where
  start: "passes sys_poll wait_time s0 s0"
| again: "passes sys_poll wait_time s0 s \<Longrightarrow> loop_pass sys_poll wait_time s = Inr (r, run, s') \<Longrightarrow>
     fst r \<noteq> PollExit \<Longrightarrow> passes sys_poll wait_time s0 s'"

lemma poll_loop_pass:
  "poll_loop sys_poll wait s =
     (case loop_pass sys_poll wait s of
        Inl e \<Rightarrow> Some (Inl e)
      | Inr (r, run, s') \<Rightarrow>
          if fst r = PollExit then Some (Inr (snd r, s')) else poll_loop sys_poll wait s')"
  by (subst poll_loop.simps) (auto simp: loop_pass_def split: sum.splits prod.splits)

lemma passes_before:
  "passes sys_poll wait s1 s \<Longrightarrow> loop_pass sys_poll wait s0 = Inr (r, run, s1) \<Longrightarrow> fst r \<noteq> PollExit \<Longrightarrow>
     passes sys_poll wait s0 s"
  by (induction rule: passes.induct) (blast intro: passes.intros)+

text \<open>What the loop returns is what the pass from one of these states returned.\<close>

lemma poll_loop_last:
  assumes "poll_loop sys_poll wait s0 = Some res"
  shows "\<exists>s. passes sys_poll wait s0 s \<and>
    (case loop_pass sys_poll wait s of
       Inl e \<Rightarrow> res = Inl e
     | Inr (r, run, s') \<Rightarrow> fst r = PollExit \<and> res = Inr (snd r, s'))"
proof -
  let ?P = "\<lambda>sp wt s0 res. \<exists>s. passes sp wt s0 s \<and>
    (case loop_pass sp wt s of
       Inl e \<Rightarrow> res = Inl e
     | Inr (r, run, s') \<Rightarrow> fst r = PollExit \<and> res = Inr (snd r, s'))"
  have "?P sp wt s0 res" if "poll_loop sp wt s0 = Some res" for sp wt s0 and res
    using that
  proof (induction sp wt s0 res rule: poll_loop.raw_induct [rotated, consumes 1, case_names step])
    case (step loop sp wt s0 res)
    show ?case
    proof (cases "loop_pass sp wt s0")
      case (Inl e)
      then have "res = Inl e"
        using step(2) by (auto simp: loop_pass_def res_iff)
      with Inl show ?thesis
        by (intro exI [of _ s0]) (simp add: passes.start)
    next
      case (Inr x)
      obtain r run s' where x: "x = (r, run, s')" by (cases x)
      show ?thesis
      proof (cases "fst r = PollExit")
        case True
        then have "res = Inr (snd r, s')"
          using step(2) Inr x by (auto simp: loop_pass_def res_iff)
        with Inr x True show ?thesis
          by (intro exI [of _ s0]) (simp add: passes.start)
      next
        case False
        then have "loop sp wt s' = Some res"
          using step(2) Inr x by (auto simp: loop_pass_def res_iff)
        from step(1) [OF this] Inr x False show ?thesis
          by (blast intro: passes_before)
      qed
    qed
  qed
  then show ?thesis using assms .
qed

section \<open>The contract\<close>

definition busy_wait :: err where
  "busy_wait = RuntimeError ''Poller: busy wait detected: callback did not read/write fd''"

lemma service_count_switched [simp]: "service_count w (a\<lparr>active := v\<rparr>) = service_count w a"
  by (simp add: service_count_def split: direction.split)

lemma same_action_simps [simp]:
  "same_action a a' \<Longrightarrow> callback a' = callback a"
  "same_action a a' \<Longrightarrow> service_count w a' = service_count w a"
  "same_action a a' \<Longrightarrow> action_fd a' = action_fd a"
  "same_action a a' \<Longrightarrow> action_direction a' = action_direction a"
  "same_action a a' \<Longrightarrow> when_interested a' = when_interested a"
  "same_action a a' \<Longrightarrow> same_action a (a'\<lparr>active := False\<rparr>)"
  "same_action a a"
  unfolding same_action_def by auto

definition fd_nums :: "'w action list \<Rightarrow> 'w \<Rightarrow> int list" where
  "fd_nums acts w = map (\<lambda>a. fd_num (action_fd a w)) acts"

locale poller_client =
  fixes acts :: "'w action list" and inv :: "'w \<Rightarrow> bool" and willing :: "nat \<Rightarrow> 'w \<Rightarrow> bool"
    and sys_poll :: "'w sys_poll"
  assumes asked: "inv w \<Longrightarrow> i < length acts \<Longrightarrow> when_interested (acts ! i) w = (b, w') \<Longrightarrow>
      inv w' \<and> fd_nums acts w' = fd_nums acts w \<and> (b \<longrightarrow> willing i w') \<and> (\<forall>j. willing j w \<longrightarrow> willing j w')"
    and called: "inv w \<Longrightarrow> i < length acts \<Longrightarrow> willing i w \<Longrightarrow> callback (acts ! i) w = Inr (r, w') \<Longrightarrow>
      inv w' \<and> fd_nums acts w' = fd_nums acts w \<and> (\<forall>j > i. willing j w \<longrightarrow> willing j w') \<and>
      (result r = Exit \<or> service_count w (acts ! i) \<noteq> service_count w' (acts ! i))"
    and polled: "inv w \<Longrightarrow> sys_poll ps t w = Inr (n, rs, w') \<Longrightarrow>
      inv w' \<and> fd_nums acts w' = fd_nums acts w \<and> length rs = length ps \<and>
      (\<forall>j. willing j w \<longrightarrow> willing j w')"
begin

text \<open>The poller's actions are the client's, some of them switched off.\<close>

definition holds :: "'w poller \<Rightarrow> 'w \<Rightarrow> bool" where
  "holds p w \<longleftrightarrow> list_all2 same_action acts (actions p) \<and> map poll_fd (pollfds p) = fd_nums acts w"

text \<open>Where an error of a poll comes from.\<close>

definition fault :: "err \<Rightarrow> bool" where
  "fault e \<longleftrightarrow> (\<exists>ps t w. inv w \<and> sys_poll ps t w = Inl e) \<or>
     (\<exists>i w. i < length acts \<and> inv w \<and> willing i w \<and> callback (acts ! i) w = Inl e)"

lemma length_fds: "length (fd_nums acts w) = length acts"
  by (simp add: fd_nums_def)

lemma interest_asked:
  assumes "inv w" and "i < length acts" and "same_action (acts ! i) a" and "interest a w = (ev, w')"
  shows "inv w' \<and> fd_nums acts w' = fd_nums acts w \<and> (ev \<noteq> 0 \<longrightarrow> willing i w') \<and>
    (\<forall>j. willing j w \<longrightarrow> willing j w')"
proof (cases "active a")
  case True
  obtain b where b: "when_interested (acts ! i) w = (b, w')"
    using assms(3,4) True by (auto simp: interest_def Let_def split: prod.splits)
  from asked [OF assms(1,2) b] show ?thesis
    using assms(3,4) True b by (auto simp: interest_def Let_def split: if_splits)
next
  case False
  then show ?thesis
    using assms(1,4) by (auto simp: interest_def Let_def split: if_splits)
qed

lemma set_events_willing:
  assumes "inv w" and "list_all2 same_action (drop i acts) as" and "map poll_fd ps = drop i (fd_nums acts w)"
  shows "\<exists>ps' w'. set_events as ps w = Inr (ps', w') \<and> inv w' \<and>
    fd_nums acts w' = fd_nums acts w \<and> map poll_fd ps' = drop i (fd_nums acts w) \<and>
    (\<forall>j. willing j w \<longrightarrow> willing j w') \<and>
    (\<forall>k < length as. events (ps' ! k) \<noteq> 0 \<longrightarrow> willing (i + k) w')"
  using assms
proof (induction as arbitrary: i ps w)
  case Nil
  then have "length (fd_nums acts w) \<le> i"
    by (simp add: length_fds)
  with Nil show ?case by simp
next
  case (Cons a as)
  have i: "i < length acts"
    using Cons.prems(2) by (cases "i < length acts") auto
  then have a: "same_action (acts ! i) a" and as: "list_all2 same_action (drop (Suc i) acts) as"
    using Cons.prems(2) by (auto simp: Cons_nth_drop_Suc [symmetric])
  have i': "i < length (fd_nums acts w)"
    using i by (simp add: length_fds)
  then obtain p ps1 where ps: "ps = p # ps1" and p: "poll_fd p = fd_nums acts w ! i"
    and ps1: "map poll_fd ps1 = drop (Suc i) (fd_nums acts w)"
    using Cons.prems(3) by (cases ps) (auto simp: Cons_nth_drop_Suc [symmetric])
  have fd: "fd_num (action_fd a w) = fd_nums acts w ! i"
    using i a by (simp add: fd_nums_def)
  obtain ev w1 where ev: "interest a w = (ev, w1)" by force
  note asked1 = interest_asked [OF Cons.prems(1) i a ev]
  then have ps1': "map poll_fd ps1 = drop (Suc i) (fd_nums acts w1)"
    using ps1 by simp
  from asked1 obtain ps' w' where r: "set_events as ps1 w1 = Inr (ps', w')" "inv w'"
      "fd_nums acts w' = fd_nums acts w1" "map poll_fd ps' = drop (Suc i) (fd_nums acts w1)"
      "\<forall>j. willing j w1 \<longrightarrow> willing j w'"
      "\<forall>k < length as. events (ps' ! k) \<noteq> 0 \<longrightarrow> willing (Suc i + k) w'"
    using Cons.IH [OF _ as ps1'] by blast
  have "\<forall>k < length (a # as). events ((p\<lparr>events := ev\<rparr> # ps') ! k) \<noteq> 0 \<longrightarrow> willing (i + k) w'"
    using r asked1 by (auto simp: nth_Cons' less_Suc_eq_0_disj)
  then show ?case
    using r asked1 fd p i' ps ev by (auto simp: Cons_nth_drop_Suc [symmetric])
qed

lemma serve_client:
  assumes "inv w" and "list_all2 same_action (drop i acts) as" and "length ps = length as"
    and "\<forall>k < length as. events (ps ! k) \<noteq> 0 \<longrightarrow> willing (i + k) w"
  shows "case serve i as ps w of
      Inl e \<Rightarrow> fault e
    | Inr (pr, as', run, w') \<Rightarrow> inv w' \<and> fd_nums acts w' = fd_nums acts w \<and>
        list_all2 same_action (drop i acts) as'"
  using assms
proof (induction as arbitrary: i ps w)
  case Nil
  then show ?case by simp
next
  case (Cons a as)
  have i: "i < length acts"
    using Cons.prems(2) by (cases "i < length acts") auto
  then have a: "same_action (acts ! i) a" and as: "list_all2 same_action (drop (Suc i) acts) as"
    and acts: "drop i acts = acts ! i # drop (Suc i) acts"
    using Cons.prems(2) by (auto simp: Cons_nth_drop_Suc [symmetric])
  obtain p ps1 where ps: "ps = p # ps1" and len: "length ps1 = length as"
    using Cons.prems(3) by (cases ps) auto
  have will: "events p \<noteq> 0 \<longrightarrow> willing i w"
    "\<forall>k < length as. events (ps1 ! k) \<noteq> 0 \<longrightarrow> willing (Suc i + k) w"
    using Cons.prems(4) by (force simp: ps)+
  show ?case
  proof (cases "failed p")
    case True
    then show ?thesis
      using Cons.prems(1,2) by (simp add: ps serve_steps(1))
  next
    case nf: False
    show ?thesis
    proof (cases "revents p AND events p = 0")
      case True
      from Cons.IH [OF Cons.prems(1) as len will(2)] show ?thesis
        using a by (auto simp: ps serve_steps(2) [OF nf True] acts split: sum.splits prod.splits)
    next
      case busy: False
      then have wi: "willing i w" using will(1) by auto
      show ?thesis
      proof (cases "callback a w")
        case (Inl e)
        then have "fault e"
          using i wi a Cons.prems(1) by (auto simp: fault_def)
        then show ?thesis
          using Inl by (simp add: ps serve_steps(3) [OF nf busy])
      next
        case (Inr x)
        obtain r w1 where x: "x = (r, w1)" by force
        have c: "inv w1 \<and> fd_nums acts w1 = fd_nums acts w \<and> (\<forall>j > i. willing j w \<longrightarrow> willing j w1) \<and>
            (result r = Exit \<or> service_count w a \<noteq> service_count w1 a)"
          using called [OF Cons.prems(1) i wi, of r w1] Inr x a by simp
        have "\<forall>k < length as. events (ps1 ! k) \<noteq> 0 \<longrightarrow> willing (Suc i + k) w1"
          using will(2) c by auto
        from Cons.IH [OF _ as len this] show ?thesis
          using c a Inr x Cons.prems(2)
          by (auto simp: ps serve_steps(3) [OF nf busy] acts split: sum.splits prod.splits)
      qed
    qed
  qed
qed

lemma poll_client:
  assumes "inv w" and "holds p w"
  shows "case poll sys_poll t (p, w) of
      Inl e \<Rightarrow> fault e
    | Inr (r, run, (p', w')) \<Rightarrow> inv w' \<and> holds p' w'"
proof -
  have acts: "list_all2 same_action (drop 0 acts) (actions p)" and fds: "map poll_fd (pollfds p) = drop 0 (fd_nums acts w)"
    using assms(2) by (simp_all add: holds_def)
  have len: "length (pollfds p) = length (actions p)"
    using acts fds length_fds by (metis drop0 length_map list_all2_lengthD)
  obtain ps w1 where ev: "set_events (actions p) (pollfds p) w = Inr (ps, w1)" "inv w1"
      "fd_nums acts w1 = fd_nums acts w" "map poll_fd ps = fd_nums acts w"
      and will: "\<forall>k < length (actions p). events (ps ! k) \<noteq> 0 \<longrightarrow> willing k w1"
    using set_events_willing [OF assms(1) acts fds] by auto
  have l: "length ps = length (actions p)"
    using ev(4) fds len by (metis drop0 length_map)
  show ?thesis
  proof (cases "sys_poll ps t w1")
    case (Inl e)
    then have "fault e"
      using ev(2) by (auto simp: fault_def)
    then show ?thesis
      using Inl ev acts assms(2) len by (auto simp: poll_def holds_def)
  next
    case (Inr x)
    obtain n rs w2 where x: "x = (n, rs, w2)" by (cases x)
    have p: "inv w2 \<and> fd_nums acts w2 = fd_nums acts w1 \<and> length rs = length ps \<and> (\<forall>j. willing j w1 \<longrightarrow> willing j w2)"
      using polled [OF ev(2)] Inr x by simp
    have la: "length (answered ps rs) = length (actions p)"
      using l p by (simp add: answered_def)
    have fa: "map poll_fd (answered ps rs) = fd_nums acts w"
      using ev(4) l p by (simp add: answered_def list_eq_iff_nth_eq)
    have "\<forall>k < length (actions p). events (answered ps rs ! k) \<noteq> 0 \<longrightarrow> willing (0 + k) w2"
      using will p l by (simp add: answered_def)
    from serve_client [OF _ acts la this] show ?thesis
      using Inr x ev p fa acts assms(2) len
      by (auto simp: poll_def holds_def Let_def split: sum.splits prod.splits)
  qed
qed

lemma passes_client:
  assumes "passes sys_poll wait s0 s" and "inv (snd s0)" and "holds (fst s0) (snd s0)"
    and wait: "\<And>w t w'. inv w \<Longrightarrow> wait w = Inr (t, w') \<Longrightarrow> inv w' \<and> fd_nums acts w' = fd_nums acts w"
  shows "inv (snd s) \<and> holds (fst s) (snd s)"
  using assms(1)
proof induction
  case start
  then show ?case using assms(2,3) by simp
next
  case (again s r run s')
  then obtain t w1 where w: "wait (snd s) = Inr (t, w1)" and p: "poll sys_poll t (fst s, w1) = Inr (r, run, s')"
    by (auto simp: loop_pass_def res_iff)
  have "inv w1" "holds (fst s) w1"
    using again.IH wait [OF _ w] by (simp_all add: holds_def)
  from poll_client [OF this, of t] p show ?case
    by (auto split: prod.splits)
qed

lemma loop_pass_client:
  assumes "passes sys_poll wait s0 s" and "inv (snd s0)" and "holds (fst s0) (snd s0)"
    and wait: "\<And>w t w'. inv w \<Longrightarrow> wait w = Inr (t, w') \<Longrightarrow> inv w' \<and> fd_nums acts w' = fd_nums acts w"
  shows "case loop_pass sys_poll wait s of
      Inl e \<Rightarrow> fault e \<or> (\<exists>w. inv w \<and> wait w = Inl e)
    | Inr (r, run, (p', w')) \<Rightarrow> inv w' \<and> holds p' w'"
proof -
  have s: "inv (snd s)" "holds (fst s) (snd s)"
    using passes_client [OF assms(1-3) wait] by simp_all
  show ?thesis
  proof (cases "wait (snd s)")
    case (Inl e)
    then show ?thesis using s by (auto simp: loop_pass_def)
  next
    case (Inr x)
    obtain t w1 where x: "x = (t, w1)" by force
    have "inv w1" "holds (fst s) w1"
      using s wait [of "snd s" t w1] Inr x by (simp_all add: holds_def)
    from poll_client [OF this, of t] show ?thesis
      using Inr x by (auto simp: loop_pass_def split: sum.splits)
  qed
qed

end

end
