(* ===== verification/Packet_Queue.thy ===== *)
theory Packet_Queue
  imports Ezio "HOL-Library.Sublist"
begin

text \<open>
  The interface of a packet queue (\<open>AbstractPacketQueue\<close> of
  \<open>src/src/packet/abstract_packet_queue.hh\<close>) as three contracts a link relies on, and its
  simplest provider, \<open>InfinitePacketQueue\<close>.

  \<open>packet_queue\<close> is what every queue keeps: the packets it holds are, in order and without
  repetition, some of those that were enqueued, and a dequeued packet is the oldest one held.
  \<open>total_packet_queue\<close> adds that no call fails as long as there is room for the counters;
  \<open>fifo_packet_queue\<close> adds that nothing is lost.
\<close>

record queued_packet =
  arrival_time :: u64
  contents :: string

definition QueuedPacket :: "string \<Rightarrow> u64 \<Rightarrow> queued_packet" where
  "QueuedPacket s_contents s_arrival_time =
     \<lparr>arrival_time = s_arrival_time, contents = s_contents\<rparr>"

lemma QueuedPacket_simps [simp]:
  "arrival_time (QueuedPacket s t) = t" "contents (QueuedPacket s t) = s"
  by (simp_all add: QueuedPacket_def)

text \<open>The number of bytes a list of packets carries.\<close>

definition bytes_in :: "queued_packet list \<Rightarrow> nat" where
  "bytes_in ps = sum_list (map (\<lambda>p. length (contents p)) ps)"

lemma bytes_in_simps [simp]:
  "bytes_in [] = 0"
  "bytes_in (p # ps) = length (contents p) + bytes_in ps"
  "bytes_in (ps @ qs) = bytes_in ps + bytes_in qs"
  by (simp_all add: bytes_in_def)

lemma bytes_in_subseq: "subseq ps qs \<Longrightarrow> bytes_in ps \<le> bytes_in qs"
  by (induction rule: list_emb.induct) auto

lemma bytes_in_le: "\<forall>p \<in> set ps. length (contents p) \<le> m \<Longrightarrow> bytes_in ps \<le> m * length ps"
  by (induction ps) auto

lemma subseq_set: "subseq xs ys \<Longrightarrow> set xs \<subseteq> set ys"
  by (auto dest: list_emb_set)

lemma list_emb_set_subset_P: "subseq xs ys \<Longrightarrow> \<forall>y \<in> set ys. P y \<Longrightarrow> \<forall>x \<in> set xs. P x"
  using subseq_set by blast

text \<open>A sequence of calls on a queue: the packets it hands out and the queue it leaves.\<close>

datatype queue_call = Enqueue queued_packet | Dequeue

fun queue_run ::
  "(queued_packet \<Rightarrow> 'q \<Rightarrow> 'q res) \<Rightarrow> ('q \<Rightarrow> (queued_packet \<times> 'q) res) \<Rightarrow>
     queue_call list \<Rightarrow> 'q \<Rightarrow> (queued_packet list \<times> 'q) res" where
  "queue_run enq deq [] q = Inr ([], q)"
| "queue_run enq deq (Enqueue p # cs) q = rbind (enq p q) (queue_run enq deq cs)"
| "queue_run enq deq (Dequeue # cs) q =
     rbind (deq q) (\<lambda>(p, q1). rbind (queue_run enq deq cs q1) (\<lambda>(out, q'). Inr (p # out, q')))"

fun offered :: "queue_call list \<Rightarrow> queued_packet list" where
  "offered [] = []"
| "offered (Enqueue p # cs) = p # offered cs"
| "offered (Dequeue # cs) = offered cs"

section \<open>The contracts\<close>

locale packet_queue =
  fixes enqueue :: "queued_packet \<Rightarrow> 'q \<Rightarrow> 'q res"
    and dequeue :: "'q \<Rightarrow> (queued_packet \<times> 'q) res"
    and is_empty :: "'q \<Rightarrow> bool"
    and packets :: "'q \<Rightarrow> queued_packet list"
    and inv :: "'q \<Rightarrow> bool"
  assumes empty_iff: "is_empty q \<longleftrightarrow> packets q = []"
    and enqueue_sub: "inv q \<Longrightarrow> length (contents p) < 2 ^ 31 \<Longrightarrow> enqueue p q = Inr q' \<Longrightarrow>
      inv q' \<and> subseq (packets q') (packets q @ [p])"
    and dequeue_sub: "inv q \<Longrightarrow> dequeue q = Inr (p, q') \<Longrightarrow>
      inv q' \<and> (\<exists>rest. packets q = p # rest \<and> subseq (packets q') rest)"
begin

lemma dequeue_subseq:
  assumes "inv q" and "dequeue q = Inr (p, q')"
  shows "subseq (p # packets q') (packets q)"
proof -
  obtain rest where "packets q = p # rest" and "subseq (packets q') rest"
    using dequeue_sub [OF assms] by blast
  then show ?thesis by simp
qed

lemma dequeue_shorter:
  assumes "inv q" and "dequeue q = Inr (p, q')"
  shows "length (packets q') < length (packets q)"
  using list_emb_length [OF dequeue_subseq [OF assms]] by simp

lemma dequeue_inv: "inv q \<Longrightarrow> dequeue q = Inr (p, q') \<Longrightarrow> inv q'"
  using dequeue_sub by blast

lemma dequeue_all:
  assumes "inv q" and "dequeue q = Inr (p, q')" and "\<forall>x \<in> set (packets q). P x"
  shows "P p \<and> (\<forall>x \<in> set (packets q'). P x)"
  using list_emb_set_subset_P [OF dequeue_subseq [OF assms(1,2)] assms(3)] by simp

lemma enqueue_inv:
  "inv q \<Longrightarrow> length (contents p) < 2 ^ 31 \<Longrightarrow> enqueue p q = Inr q' \<Longrightarrow> inv q'"
  using enqueue_sub by blast

lemma enqueue_all:
  assumes "inv q" and "length (contents p) < 2 ^ 31" and "enqueue p q = Inr q'"
    and "\<forall>x \<in> set (packets q). P x" and "P p"
  shows "\<forall>x \<in> set (packets q'). P x"
proof (rule list_emb_set_subset_P)
  show "subseq (packets q') (packets q @ [p])"
    using enqueue_sub [OF assms(1,2,3)] by blast
  show "\<forall>y \<in> set (packets q @ [p]). P y"
    using assms(4,5) by simp
qed

text \<open>Over any calls, what leaves and what stays is in order some of what was offered.\<close>

lemma run_sub:
  "inv q \<Longrightarrow> \<forall>p \<in> set (offered cs). length (contents p) < 2 ^ 31 \<Longrightarrow>
     queue_run enqueue dequeue cs q = Inr (out, q') \<Longrightarrow>
     inv q' \<and> subseq (out @ packets q') (packets q @ offered cs)"
proof (induction cs arbitrary: q out)
  case Nil
  then show ?case by simp
next
  case (Cons c cs)
  show ?case
  proof (cases c)
    case (Enqueue p)
    with Cons.prems obtain q1 where e: "enqueue p q = Inr q1" and
      r: "queue_run enqueue dequeue cs q1 = Inr (out, q')"
      by (auto simp: rbind_Inr_iff)
    have q1: "inv q1" "subseq (packets q1) (packets q @ [p])"
      using enqueue_sub [OF Cons.prems(1) _ e] Cons.prems(2) Enqueue by simp_all
    have "inv q'" "subseq (out @ packets q') (packets q1 @ offered cs)"
      using Cons.IH [OF q1(1) _ r] Cons.prems(2) Enqueue by simp_all
    moreover have "subseq (packets q1 @ offered cs) ((packets q @ [p]) @ offered cs)"
      using q1(2) by (rule list_emb_append_mono) simp
    ultimately show ?thesis
      using Enqueue by (auto intro: subseq_order.order_trans)
  next
    case Dequeue
    with Cons.prems obtain p q1 o1 where d: "dequeue q = Inr (p, q1)" and
      r: "queue_run enqueue dequeue cs q1 = Inr (o1, q')" and out: "out = p # o1"
      by (auto simp: rbind_Inr_iff)
    have "inv q'" "subseq (o1 @ packets q') (packets q1 @ offered cs)"
      using Cons.IH [OF dequeue_inv [OF Cons.prems(1) d] _ r] Cons.prems(2) Dequeue by simp_all
    moreover have "subseq ((p # packets q1) @ offered cs) (packets q @ offered cs)"
      using dequeue_subseq [OF Cons.prems(1) d] by (rule list_emb_append_mono) simp
    ultimately show ?thesis
      using Dequeue out by (auto intro: subseq_order.order_trans)
  qed
qed

end

locale total_packet_queue = packet_queue +
  fixes room :: "queued_packet \<Rightarrow> 'a \<Rightarrow> bool"
  assumes enqueue_total: "inv q \<Longrightarrow> room p q \<Longrightarrow> \<exists>q'. enqueue p q = Inr q'"
    and dequeue_total: "inv q \<Longrightarrow> packets q \<noteq> [] \<Longrightarrow> \<exists>p q'. dequeue q = Inr (p, q')"

locale fifo_packet_queue = total_packet_queue +
  assumes enqueue_fifo: "inv q \<Longrightarrow> enqueue p q = Inr q' \<Longrightarrow> packets q' = packets q @ [p]"
    and dequeue_fifo: "inv q \<Longrightarrow> dequeue q = Inr (p, q') \<Longrightarrow> packets q = p # packets q'"

section \<open>InfinitePacketQueue\<close>

type_synonym infinite_queue = "queued_packet list"

definition infinite_new :: "string \<Rightarrow> infinite_queue res" where
  "infinite_new args =
     (if args \<noteq> [] then Inl (RuntimeError ''InfinitePacketQueue does not take arguments.'')
      else Inr [])"

definition infinite_enqueue :: "queued_packet \<Rightarrow> infinite_queue \<Rightarrow> infinite_queue res" where
  "infinite_enqueue p internal_queue = Inr (internal_queue @ [p])"

fun infinite_dequeue :: "infinite_queue \<Rightarrow> (queued_packet \<times> infinite_queue) res" where
  "infinite_dequeue [] = Inl AssertFail"
| "infinite_dequeue (ret # internal_queue) = Inr (ret, internal_queue)"

definition infinite_empty :: "infinite_queue \<Rightarrow> bool" where
  "infinite_empty internal_queue \<longleftrightarrow> internal_queue = []"

definition infinite_to_string :: "infinite_queue \<Rightarrow> string" where
  "infinite_to_string internal_queue = ''infinite''"

fun_cases infinite_dequeue_Inr: "infinite_dequeue q = Inr (p, q')"

interpretation infinite: fifo_packet_queue infinite_enqueue infinite_dequeue infinite_empty
  "\<lambda>q. q" "\<lambda>q. True" "\<lambda>p q. True"
proof (unfold_locales, goal_cases)
  case (3 q p q')
  then show ?case by (auto elim!: infinite_dequeue_Inr)
next
  case (5 q)
  then show ?case by (cases q) auto
next
  case (7 q p q')
  then show ?case by (auto elim!: infinite_dequeue_Inr)
qed (auto simp: infinite_empty_def infinite_enqueue_def)

end
