(* ===== verification/Dropping_Queue.thy ===== *)
theory Dropping_Queue
  imports Packet_Queue
begin

text \<open>
  \<open>DroppingPacketQueue\<close> of \<open>src/src/packet/dropping_packet_queue.cc\<close>, the base class of the
  bounded queues, and its two simplest subclasses, \<open>DropTailPacketQueue\<close> and
  \<open>DropHeadPacketQueue\<close>. The C++ \<open>int\<close> counters are 32-bit words read with \<^const>\<open>sint\<close>; a
  subclass adds its fields by extending the record.

  The invariant \<open>dq_inv\<close> says that the counters count what is queued and that the limits hold.
  Every operation keeps it. A tail-drop queue satisfies the total contract of a packet queue; a
  head-drop queue only the partial one, because its loop calls a \<open>dequeue\<close> that asserts the
  limits hold after a single packet is gone.
\<close>

section \<open>The class\<close>

record dropping_queue =
  queue_size_in_bytes :: u32
  queue_size_in_packets :: u32
  internal_queue :: "queued_packet list"
  packet_limit :: u32
  byte_limit :: u32

text \<open>\<open>get_arg\<close>: the number that follows \<open>name=\<close> in the queue arguments, 0 when absent.\<close>

definition get_arg :: "string \<Rightarrow> string \<Rightarrow> u32 res" where
  "get_arg args name =
     (case str_find args name of
        None \<Rightarrow> Inr 0
      | Some offset0 \<Rightarrow>
          let parse_error = RuntimeError (''could not parse queue arguments: '' @ args);
              offset = offset0 + length name
          in rbind (substr args offset 1) (\<lambda>eq.
             if eq \<noteq> ''='' then Inl parse_error
             else
               let rest = drop (offset + 1) args;
                   digit_string =
                     (case find_first_not_of rest ''0123456789'' of
                        None \<Rightarrow> rest | Some offset2 \<Rightarrow> take offset2 rest)
               in if digit_string = [] then Inl parse_error
                  else rbind (myatoi digit_string 10) (\<lambda>v. Inr (word_of_int v))))"

definition dropping_new :: "string \<Rightarrow> dropping_queue res" where
  "dropping_new args =
     rbind (get_arg args ''packets'') (\<lambda>pl.
     rbind (get_arg args ''bytes'') (\<lambda>bl.
       if pl = 0 \<and> bl = 0
       then Inl (RuntimeError ''Dropping queue must have a byte or packet limit.'')
       else Inr \<lparr>queue_size_in_bytes = 0, queue_size_in_packets = 0, internal_queue = [],
                 packet_limit = pl, byte_limit = bl\<rparr>))"

definition size_bytes :: "'a dropping_queue_scheme \<Rightarrow> u32 res" where
  "size_bytes q =
     (if 0 \<le> sint (queue_size_in_bytes q) then Inr (queue_size_in_bytes q) else Inl AssertFail)"

definition size_packets :: "'a dropping_queue_scheme \<Rightarrow> u32 res" where
  "size_packets q =
     (if 0 \<le> sint (queue_size_in_packets q) then Inr (queue_size_in_packets q)
      else Inl AssertFail)"

definition good_with :: "'a dropping_queue_scheme \<Rightarrow> u32 \<Rightarrow> u32 \<Rightarrow> bool" where
  "good_with q size_in_bytes size_in_packets \<longleftrightarrow>
     (if byte_limit q \<noteq> 0 then size_in_bytes \<le> byte_limit q else True) \<and>
     (if packet_limit q \<noteq> 0 then size_in_packets \<le> packet_limit q else True)"

definition good :: "'a dropping_queue_scheme \<Rightarrow> bool res" where
  "good q = rbind (size_bytes q) (\<lambda>b. rbind (size_packets q) (\<lambda>n. Inr (good_with q b n)))"

definition assert_good :: "'a dropping_queue_scheme \<Rightarrow> 'a dropping_queue_scheme res" where
  "assert_good q = rbind (good q) (\<lambda>g. if g then Inr q else Inl AssertFail)"

definition accept :: "queued_packet \<Rightarrow> 'a dropping_queue_scheme \<Rightarrow> 'a dropping_queue_scheme" where
  "accept p q = q\<lparr>queue_size_in_bytes := queue_size_in_bytes q + of_nat (length (contents p)),
                 queue_size_in_packets := queue_size_in_packets q + 1,
                 internal_queue := internal_queue q @ [p]\<rparr>"

definition pop_packet ::
  "queued_packet \<Rightarrow> queued_packet list \<Rightarrow> 'a dropping_queue_scheme \<Rightarrow> 'a dropping_queue_scheme"
where
  "pop_packet ret rest q =
     q\<lparr>internal_queue := rest,
       queue_size_in_bytes := queue_size_in_bytes q - of_nat (length (contents ret)),
       queue_size_in_packets := queue_size_in_packets q - 1\<rparr>"

definition dropping_dequeue ::
  "'a dropping_queue_scheme \<Rightarrow> (queued_packet \<times> 'a dropping_queue_scheme) res" where
  "dropping_dequeue q =
     (case internal_queue q of
        [] \<Rightarrow> Inl AssertFail
      | ret # rest \<Rightarrow> rbind (assert_good (pop_packet ret rest q)) (\<lambda>q'. Inr (ret, q')))"

lemma dropping_dequeue_shape:
  assumes "dropping_dequeue q = Inr (p, q')"
  shows "\<exists>rest. internal_queue q = p # rest \<and> q' = pop_packet p rest q"
proof (cases "internal_queue q")
  case Nil
  with assms show ?thesis by (simp add: dropping_dequeue_def)
next
  case (Cons p' rest)
  with assms show ?thesis
    by (auto simp: dropping_dequeue_def assert_good_def res_iff split: if_splits)
qed

definition dropping_empty :: "'a dropping_queue_scheme \<Rightarrow> bool" where
  "dropping_empty q \<longleftrightarrow> internal_queue q = []"

definition dropping_to_string :: "string \<Rightarrow> 'a dropping_queue_scheme \<Rightarrow> string" where
  "dropping_to_string type q =
     type @ '' ['' @
     (if byte_limit q \<noteq> 0 then ''bytes='' @ to_string (unat (byte_limit q)) else []) @
     (if packet_limit q \<noteq> 0
      then (if byte_limit q \<noteq> 0 then '', '' else []) @
           ''packets='' @ to_string (unat (packet_limit q))
      else []) @ '']''"

text \<open>
  The guard the bounded \<open>enqueue\<close> methods share: would the limits hold with \<open>p\<close> added? The sum
  is formed in \<open>size_t\<close> and passed as \<open>unsigned int\<close>, so it is taken modulo \<open>2 ^ 32\<close>.
\<close>

definition good_with_packet :: "queued_packet \<Rightarrow> 'a dropping_queue_scheme \<Rightarrow> bool res" where
  "good_with_packet p q =
     rbind (size_bytes q) (\<lambda>b. rbind (size_packets q) (\<lambda>n.
       Inr (good_with q (b + of_nat (length (contents p))) (n + 1))))"

section \<open>DropTailPacketQueue and DropHeadPacketQueue\<close>

definition droptail_enqueue ::
  "queued_packet \<Rightarrow> 'a dropping_queue_scheme \<Rightarrow> 'a dropping_queue_scheme res" where
  "droptail_enqueue p q =
     rbind (good_with_packet p q) (\<lambda>fits. assert_good (if fits then accept p q else q))"

definition droptail_to_string :: "'a dropping_queue_scheme \<Rightarrow> string" where
  "droptail_to_string q = dropping_to_string ''droptail'' q"

text \<open>\<open>while ( not good() ) dequeue();\<close>\<close>

function drophead_loop :: "'a dropping_queue_scheme \<Rightarrow> 'a dropping_queue_scheme res" where
  "drophead_loop q =
     (case good q of
        Inl e \<Rightarrow> Inl e
      | Inr True \<Rightarrow> Inr q
      | Inr False \<Rightarrow>
          (case dropping_dequeue q of
             Inl e \<Rightarrow> Inl e
           | Inr r \<Rightarrow> drophead_loop (snd r)))"
  by pat_completeness auto
termination
  by (relation "measure (\<lambda>q. length (internal_queue q))")
     (auto dest!: dropping_dequeue_shape simp: pop_packet_def)

declare drophead_loop.simps [simp del]

definition drophead_enqueue ::
  "queued_packet \<Rightarrow> 'a dropping_queue_scheme \<Rightarrow> 'a dropping_queue_scheme res" where
  "drophead_enqueue p q = drophead_loop (accept p q)"

definition drophead_to_string :: "'a dropping_queue_scheme \<Rightarrow> string" where
  "drophead_to_string q = dropping_to_string ''drophead'' q"

section \<open>The invariant\<close>

text \<open>
  The counters count the queued bytes and packets, neither has reached \<open>INT_MAX + 1\<close>, and the
  configured limits hold.
\<close>

definition counted :: "'a dropping_queue_scheme \<Rightarrow> bool" where
  "counted q \<longleftrightarrow>
     queue_size_in_bytes q = of_nat (bytes_in (internal_queue q)) \<and>
     queue_size_in_packets q = of_nat (length (internal_queue q))"

definition int_sized :: "'a dropping_queue_scheme \<Rightarrow> bool" where
  "int_sized q \<longleftrightarrow> bytes_in (internal_queue q) < 2 ^ 31 \<and> length (internal_queue q) < 2 ^ 31"

definition within_limits :: "'a dropping_queue_scheme \<Rightarrow> bool" where
  "within_limits q \<longleftrightarrow>
     (byte_limit q \<noteq> 0 \<longrightarrow> bytes_in (internal_queue q) \<le> unat (byte_limit q)) \<and>
     (packet_limit q \<noteq> 0 \<longrightarrow> length (internal_queue q) \<le> unat (packet_limit q))"

definition dq_inv :: "'a dropping_queue_scheme \<Rightarrow> bool" where
  "dq_inv q \<longleftrightarrow> counted q \<and> int_sized q \<and> within_limits q"

lemma counted_accept: "counted q \<Longrightarrow> counted (accept p q)"
  by (simp add: counted_def accept_def)

lemma counted_pop:
  "counted q \<Longrightarrow> internal_queue q = p # rest \<Longrightarrow> counted (pop_packet p rest q)"
  by (simp add: counted_def pop_packet_def)

lemma accept_simps [simp]:
  "internal_queue (accept p q) = internal_queue q @ [p]"
  "byte_limit (accept p q) = byte_limit q" "packet_limit (accept p q) = packet_limit q"
  by (simp_all add: accept_def)

lemma pop_packet_simps [simp]:
  "internal_queue (pop_packet p rest q) = rest"
  "byte_limit (pop_packet p rest q) = byte_limit q"
  "packet_limit (pop_packet p rest q) = packet_limit q"
  by (simp_all add: pop_packet_def)

text \<open>Below \<open>2 ^ 32\<close> queued bytes and packets the counters tell exactly what is queued.\<close>

definition word_sized :: "'a dropping_queue_scheme \<Rightarrow> bool" where
  "word_sized q \<longleftrightarrow> bytes_in (internal_queue q) < 2 ^ 32 \<and> length (internal_queue q) < 2 ^ 32"

lemma int_word_sized: "int_sized q \<Longrightarrow> word_sized q"
  by (simp add: int_sized_def word_sized_def)

lemma good_with_of_nat:
  assumes "b < 2 ^ 32" and "n < 2 ^ 32"
  shows "good_with q (of_nat b) (of_nat n) \<longleftrightarrow>
    (byte_limit q \<noteq> 0 \<longrightarrow> b \<le> unat (byte_limit q)) \<and>
    (packet_limit q \<noteq> 0 \<longrightarrow> n \<le> unat (packet_limit q))"
  using assms by (auto simp: good_with_def word_le_nat_alt unat_of_nat_u32)

lemma good_exact:
  assumes "counted q" and "word_sized q"
  shows "good q = (if int_sized q then Inr (within_limits q) else Inl AssertFail)"
  using assms good_with_of_nat [of "bytes_in (internal_queue q)" "length (internal_queue q)" q]
  by (auto simp: good_def size_bytes_def size_packets_def counted_def word_sized_def
      int_sized_def within_limits_def sint_of_nat_u32_nonneg)

lemma assert_good_exact:
  assumes "counted q" and "word_sized q"
  shows "assert_good q = (if dq_inv q then Inr q else Inl AssertFail)"
  using assms by (auto simp: assert_good_def good_exact dq_inv_def)

lemma assert_good_inv: "dq_inv q \<Longrightarrow> assert_good q = Inr q"
  by (simp add: assert_good_exact dq_inv_def int_word_sized)

lemma good_with_packet_exact:
  assumes "counted q" and "int_sized q" and "word_sized (accept p q)"
  shows "good_with_packet p q = Inr (within_limits (accept p q))"
proof -
  have "bytes_in (internal_queue q) + length (contents p) < 2 ^ 32"
    and "length (internal_queue q) + 1 < 2 ^ 32"
    using assms(3) by (simp_all add: word_sized_def)
  from good_with_of_nat [OF this, of q] show ?thesis
    using assms(1,2)
    by (simp add: good_with_packet_def size_bytes_def size_packets_def counted_def
        int_sized_def within_limits_def sint_of_nat_u32_nonneg add.commute)
qed

lemma word_sized_accept:
  "int_sized q \<Longrightarrow> length (contents p) < 2 ^ 31 \<Longrightarrow> word_sized (accept p q)"
  by (simp add: int_sized_def word_sized_def)

lemma dq_inv_pop:
  assumes "dq_inv q" and "internal_queue q = p # rest"
  shows "dq_inv (pop_packet p rest q)"
  using assms by (auto simp: dq_inv_def counted_pop int_sized_def within_limits_def)

lemma dropping_dequeue_exact:
  assumes "dq_inv q" and "internal_queue q = p # rest"
  shows "dropping_dequeue q = Inr (p, pop_packet p rest q)"
  using assms by (simp add: dropping_dequeue_def assert_good_inv dq_inv_pop)

lemma dropping_dequeue_sub:
  assumes "dq_inv q" and "dropping_dequeue q = Inr (p, q')"
  shows "dq_inv q' \<and> internal_queue q = p # internal_queue q'"
proof (cases "internal_queue q")
  case Nil
  with assms(2) show ?thesis by (simp add: dropping_dequeue_def)
next
  case (Cons p' rest)
  with assms show ?thesis
    by (auto simp: dropping_dequeue_exact intro: dq_inv_pop)
qed

lemma dropping_new_inv: "dropping_new args = Inr q \<Longrightarrow> dq_inv q \<and> internal_queue q = []"
  by (auto simp: dropping_new_def res_iff dq_inv_def counted_def int_sized_def within_limits_def)

section \<open>The subclasses keep it\<close>

definition dq_room :: "queued_packet \<Rightarrow> 'a dropping_queue_scheme \<Rightarrow> bool" where
  "dq_room p q \<longleftrightarrow> int_sized (accept p q)"

lemma dq_room_simp:
  "dq_room p q \<longleftrightarrow> bytes_in (internal_queue q) + length (contents p) < 2 ^ 31 \<and>
     length (internal_queue q) + 1 < 2 ^ 31"
  by (simp add: dq_room_def int_sized_def)

text \<open>A tail-drop queue takes the packet exactly when the limits hold with it, and never fails.\<close>

lemma droptail_exact:
  assumes "dq_inv q" and "dq_room p q"
  shows "droptail_enqueue p q =
    Inr (if within_limits (accept p q) then accept p q else q)"
proof -
  have "word_sized (accept p q)" and c: "counted (accept p q)" and s: "int_sized (accept p q)"
    using assms by (simp_all add: dq_room_def int_word_sized dq_inv_def counted_accept)
  then have "good_with_packet p q = Inr (within_limits (accept p q))"
    using assms(1) by (intro good_with_packet_exact) (simp_all add: dq_inv_def)
  moreover have "within_limits (accept p q) \<Longrightarrow> dq_inv (accept p q)"
    using c s by (simp add: dq_inv_def)
  ultimately show ?thesis
    using assms(1) by (simp add: droptail_enqueue_def assert_good_inv)
qed

lemma droptail_sub:
  assumes "dq_inv q" and "length (contents p) < 2 ^ 31" and "droptail_enqueue p q = Inr q'"
  shows "dq_inv q' \<and> (q' = q \<or> q' = accept p q)"
proof -
  have w: "word_sized (accept p q)" "word_sized q" "counted (accept p q)" "counted q"
    using assms(1,2) word_sized_accept int_word_sized counted_accept
    by (auto simp: dq_inv_def)
  obtain fits where "assert_good (if fits then accept p q else q) = Inr q'"
    using assms(3) by (auto simp: droptail_enqueue_def res_iff)
  then show ?thesis
    using w by (auto simp: assert_good_exact split: if_splits)
qed

text \<open>After one \<open>dequeue\<close> that passes its own assertion, the head-drop loop is done.\<close>

lemma drophead_loop_inv: "dq_inv q \<Longrightarrow> drophead_loop q = Inr q"
  by (subst drophead_loop.simps) (simp add: good_exact dq_inv_def int_word_sized)

lemma drophead_loop_step:
  assumes "counted q" and "word_sized q" and "int_sized q" and "\<not> within_limits q"
    and "internal_queue q = p # rest"
  shows "drophead_loop q =
    (if within_limits (pop_packet p rest q) then Inr (pop_packet p rest q) else Inl AssertFail)"
proof -
  have c: "counted (pop_packet p rest q)"
    using assms(1,5) by (rule counted_pop)
  have s: "int_sized (pop_packet p rest q)"
    using assms(3,5) by (simp add: int_sized_def)
  have g: "good q = Inr False"
    using assms by (simp add: good_exact)
  have d: "dropping_dequeue q =
      (if within_limits (pop_packet p rest q) then Inr (p, pop_packet p rest q)
       else Inl AssertFail)"
    using c s assms(5)
    by (simp add: dropping_dequeue_def assert_good_exact int_word_sized dq_inv_def)
  show ?thesis
    using c s by (subst drophead_loop.simps) (simp add: g d drophead_loop_inv dq_inv_def)
qed

lemma drophead_exact:
  assumes "dq_inv q" and "dq_room p q"
  shows "drophead_enqueue p q =
    (let q1 = accept p q; q2 = pop_packet (hd (internal_queue q1)) (tl (internal_queue q1)) q1
     in if within_limits q1 then Inr q1
        else if within_limits q2 then Inr q2 else Inl AssertFail)"
proof -
  have c: "counted (accept p q)" and s: "int_sized (accept p q)"
    using assms by (simp_all add: dq_room_def dq_inv_def counted_accept)
  obtain h t where ht: "internal_queue q @ [p] = h # t"
    by (cases "internal_queue q @ [p]") auto
  show ?thesis
  proof (cases "within_limits (accept p q)")
    case True
    then have "dq_inv (accept p q)"
      using c s by (simp add: dq_inv_def)
    with True show ?thesis
      by (simp add: drophead_enqueue_def drophead_loop_inv Let_def)
  next
    case False
    with drophead_loop_step [OF c int_word_sized [OF s] s False, of h t] show ?thesis
      by (simp add: drophead_enqueue_def Let_def ht)
  qed
qed

lemma drophead_sub:
  assumes "dq_inv q" and "length (contents p) < 2 ^ 31" and "drophead_enqueue p q = Inr q'"
  shows "dq_inv q' \<and> subseq (internal_queue q') (internal_queue q @ [p])"
proof -
  have w: "word_sized (accept p q)" "counted (accept p q)"
    using assms(1,2) word_sized_accept counted_accept by (auto simp: dq_inv_def)
  have s: "dq_room p q"
  proof (rule ccontr)
    assume "\<not> dq_room p q"
    then have "good (accept p q) = Inl AssertFail"
      using w by (simp add: good_exact dq_room_def)
    with assms(3) show False
      by (simp add: drophead_enqueue_def drophead_loop.simps [of "accept p q"])
  qed
  obtain h t where ht: "internal_queue q @ [p] = h # t"
    by (cases "internal_queue q @ [p]") auto
  then have c: "counted (pop_packet h t (accept p q))"
    using w(2) by (simp add: counted_pop)
  have "int_sized (accept p q)"
    using s by (simp add: dq_room_def)
  then have "int_sized (pop_packet h t (accept p q))"
    by (simp add: int_sized_def ht)
  then show ?thesis
    using assms(3) c w(2) \<open>int_sized (accept p q)\<close>
    by (auto simp: drophead_exact [OF assms(1) s] Let_def ht dq_inv_def split: if_splits)
qed

interpretation droptail: total_packet_queue droptail_enqueue dropping_dequeue dropping_empty
  internal_queue dq_inv dq_room
proof (unfold_locales, goal_cases)
  case (2 q p q')
  from droptail_sub [OF 2] show ?case by auto
next
  case (3 q p q')
  from dropping_dequeue_sub [OF 3] show ?case by simp
next
  case (5 q)
  then show ?case by (cases "internal_queue q") (auto simp: dropping_dequeue_exact)
qed (simp_all add: dropping_empty_def droptail_exact)

interpretation drophead: packet_queue drophead_enqueue dropping_dequeue dropping_empty
  internal_queue dq_inv
proof (unfold_locales, goal_cases)
  case (2 q p q')
  then show ?case by (rule drophead_sub)
next
  case (3 q p q')
  from dropping_dequeue_sub [OF 3] show ?case by simp
qed (simp add: dropping_empty_def)

section \<open>What the two queues are\<close>

text \<open>
  The abstract tail-drop queue: a list of packets with two limits on numbers, 0 meaning none,
  and no counters, words or assertions.
\<close>

definition list_fits :: "nat \<Rightarrow> nat \<Rightarrow> queued_packet list \<Rightarrow> bool" where
  "list_fits bl pl ps \<longleftrightarrow> (bl \<noteq> 0 \<longrightarrow> bytes_in ps \<le> bl) \<and> (pl \<noteq> 0 \<longrightarrow> length ps \<le> pl)"

fun bounded_run ::
  "nat \<Rightarrow> nat \<Rightarrow> queue_call list \<Rightarrow> queued_packet list \<Rightarrow>
     (queued_packet list \<times> queued_packet list) option" where
  "bounded_run bl pl [] ps = Some ([], ps)"
| "bounded_run bl pl (Enqueue p # cs) ps =
     bounded_run bl pl cs (if list_fits bl pl (ps @ [p]) then ps @ [p] else ps)"
| "bounded_run bl pl (Dequeue # cs) [] = None"
| "bounded_run bl pl (Dequeue # cs) (p # ps) =
     map_option (\<lambda>(out, ps'). (p # out, ps')) (bounded_run bl pl cs ps)"

text \<open>Packets of 1 to \<open>m\<close> bytes cannot bring the \<open>int\<close> counters to overflow.\<close>

definition limits_int :: "nat \<Rightarrow> 'a dropping_queue_scheme \<Rightarrow> bool" where
  "limits_int m q \<longleftrightarrow>
     byte_limit q \<noteq> 0 \<and> unat (byte_limit q) + m < 2 ^ 31 \<or>
     packet_limit q \<noteq> 0 \<and> unat (packet_limit q) * m + m < 2 ^ 31"

definition packet_sized :: "nat \<Rightarrow> queued_packet \<Rightarrow> bool" where
  "packet_sized m p \<longleftrightarrow> 0 < length (contents p) \<and> length (contents p) \<le> m"

lemma bytes_in_bounds:
  "\<forall>p \<in> set ps. packet_sized m p \<Longrightarrow> length ps \<le> bytes_in ps \<and> bytes_in ps \<le> length ps * m"
proof (induction ps)
  case (Cons p ps)
  then have "1 \<le> length (contents p)" "length (contents p) \<le> m"
    by (simp_all add: packet_sized_def del: length_greater_0_conv)
  with Cons show ?case by simp
qed simp

lemma limits_room:
  assumes "dq_inv q" and "limits_int m q" and "\<forall>x \<in> set (internal_queue q). packet_sized m x"
    and "packet_sized m p"
  shows "dq_room p q"
proof -
  note b = bytes_in_bounds [OF assms(3)]
  have "bytes_in (internal_queue q) + m < 2 ^ 31"
    using assms(2)
  proof (cases "byte_limit q \<noteq> 0 \<and> unat (byte_limit q) + m < 2 ^ 31")
    case True
    then show ?thesis
      using assms(1) by (simp add: dq_inv_def within_limits_def)
  next
    case False
    then have l: "packet_limit q \<noteq> 0" "unat (packet_limit q) * m + m < 2 ^ 31"
      using assms(2) by (auto simp: limits_int_def)
    then have "length (internal_queue q) \<le> unat (packet_limit q)"
      using assms(1) by (simp add: dq_inv_def within_limits_def)
    then have "length (internal_queue q) * m \<le> unat (packet_limit q) * m"
      by simp
    with b l(2) show ?thesis by linarith
  qed
  moreover have "1 \<le> length (contents p)" "length (contents p) \<le> m"
    using assms(4) by (simp_all add: packet_sized_def del: length_greater_0_conv)
  ultimately show ?thesis
    using b by (simp add: dq_room_simp)
qed

lemma within_list_fits:
  "within_limits q \<longleftrightarrow>
     list_fits (unat (byte_limit q)) (unat (packet_limit q)) (internal_queue q)"
  by (simp add: within_limits_def list_fits_def unat_eq_zero)

definition droptail_agrees ::
  "queue_call list \<Rightarrow> 'a dropping_queue_scheme \<Rightarrow> bool" where
  "droptail_agrees cs q \<longleftrightarrow>
     (let abs = bounded_run (unat (byte_limit q)) (unat (packet_limit q)) cs (internal_queue q)
      in case queue_run droptail_enqueue dropping_dequeue cs q of
           Inl e \<Rightarrow> e = AssertFail \<and> abs = None
         | Inr (out, q') \<Rightarrow> abs = Some (out, internal_queue q') \<and> dq_inv q')"

lemma droptail_simulation:
  "dq_inv q \<Longrightarrow> limits_int m q \<Longrightarrow>
     \<forall>x \<in> set (internal_queue q) \<union> set (offered cs). packet_sized m x \<Longrightarrow> droptail_agrees cs q"
proof (induction cs arbitrary: q)
  case Nil
  then show ?case by (simp add: droptail_agrees_def)
next
  case (Cons c cs)
  show ?case
  proof (cases c)
    case (Enqueue p)
    have r: "dq_room p q"
      using Cons.prems Enqueue by (intro limits_room [of _ m]) auto
    let ?q = "if within_limits (accept p q) then accept p q else q"
    have e: "droptail_enqueue p q = Inr ?q"
      using Cons.prems(1) r by (rule droptail_exact)
    have "dq_inv ?q"
      using Cons.prems(1) r by (auto simp: dq_inv_def counted_accept dq_room_def)
    moreover have "limits_int m ?q"
      using Cons.prems(2) by (simp add: limits_int_def)
    moreover have "\<forall>x \<in> set (internal_queue ?q) \<union> set (offered cs). packet_sized m x"
      using Cons.prems(3) Enqueue by auto
    ultimately have "droptail_agrees cs ?q"
      by (rule Cons.IH)
    then show ?thesis
      using Enqueue e
      by (auto simp: droptail_agrees_def Let_def within_list_fits split: if_splits sum.splits)
  next
    case Dequeue
    show ?thesis
    proof (cases "internal_queue q")
      case Nil
      then show ?thesis
        using Dequeue by (simp add: droptail_agrees_def dropping_dequeue_def)
    next
      case (Cons h t)
      let ?q = "pop_packet h t q"
      have "dq_inv ?q" "limits_int m ?q"
        using dq_inv_pop [OF Cons.prems(1) Cons] Cons.prems(2) by (simp_all add: limits_int_def)
      moreover have "\<forall>x \<in> set (internal_queue ?q) \<union> set (offered cs). packet_sized m x"
        using Cons.prems(3) Dequeue Cons by auto
      ultimately have "droptail_agrees cs ?q"
        by (rule Cons.IH)
      then show ?thesis
        using Dequeue Cons dropping_dequeue_exact [OF Cons.prems(1) Cons]
        by (auto simp: droptail_agrees_def Let_def split: sum.splits)
    qed
  qed
qed

text \<open>
  C23: a tail-drop queue is a list with limits. From its construction on, any
  calls with packets of 1 to \<open>m\<close> bytes, under limits that keep the \<open>int\<close> counters from
  overflowing, give the packets the abstract queue gives and leave the packets it leaves: an
  arriving packet is taken exactly when both limits hold with it, the oldest packet leaves, and
  the only failure is to \<open>dequeue\<close> from an empty queue. The two counters are then the number of
  bytes and packets queued.
\<close>

theorem droptail_refines_list:
  assumes "dropping_new args = Inr q" and "limits_int m q"
    and "\<forall>p \<in> set (offered cs). packet_sized m p"
  shows "case queue_run droptail_enqueue dropping_dequeue cs q of
      Inl e \<Rightarrow> e = AssertFail \<and>
        bounded_run (unat (byte_limit q)) (unat (packet_limit q)) cs [] = None
    | Inr (out, q') \<Rightarrow>
        bounded_run (unat (byte_limit q)) (unat (packet_limit q)) cs [] =
          Some (out, internal_queue q') \<and>
        size_bytes q' = Inr (of_nat (bytes_in (internal_queue q'))) \<and>
        size_packets q' = Inr (of_nat (length (internal_queue q')))"
proof -
  have new: "dq_inv q" "internal_queue q = []"
    using dropping_new_inv [OF assms(1)] by simp_all
  then have "droptail_agrees cs q"
    using assms(2,3) by (intro droptail_simulation [of _ m]) auto
  then show ?thesis
    using new(2)
    by (auto simp: droptail_agrees_def Let_def dq_inv_def counted_def int_sized_def size_bytes_def
        size_packets_def sint_of_nat_u32_nonneg split: sum.splits)
qed

definition sample_packet :: "nat \<Rightarrow> queued_packet" where
  "sample_packet n = QueuedPacket (replicate n CHR ''x'') 0"

definition sample_queue :: dropping_queue where
  "sample_queue = \<lparr>queue_size_in_bytes = 0, queue_size_in_packets = 0, internal_queue = [],
     packet_limit = 2, byte_limit = 0\<rparr>"

lemma sample_queue_new: "dropping_new ''packets=2'' = Inr sample_queue"
  by code_simp

lemma droptail_refines_list_witness:
  "case queue_run droptail_enqueue dropping_dequeue
      [Enqueue (sample_packet 3), Enqueue (sample_packet 5), Enqueue (sample_packet 1), Dequeue]
      sample_queue of
      Inl e \<Rightarrow> e = AssertFail \<and> bounded_run 0 2
        [Enqueue (sample_packet 3), Enqueue (sample_packet 5), Enqueue (sample_packet 1), Dequeue]
        [] = None
    | Inr (out, q') \<Rightarrow> bounded_run 0 2
        [Enqueue (sample_packet 3), Enqueue (sample_packet 5), Enqueue (sample_packet 1), Dequeue]
        [] = Some (out, internal_queue q') \<and>
        size_bytes q' = Inr (of_nat (bytes_in (internal_queue q'))) \<and>
        size_packets q' = Inr (of_nat (length (internal_queue q')))"
proof -
  have l: "unat (byte_limit sample_queue) = 0" "unat (packet_limit sample_queue) = 2"
    by (simp_all add: sample_queue_def)
  have "limits_int 5 sample_queue"
    by (simp add: limits_int_def sample_queue_def)
  from droptail_refines_list [OF sample_queue_new this,
    of "[Enqueue (sample_packet 3), Enqueue (sample_packet 5), Enqueue (sample_packet 1), Dequeue]",
    unfolded l]
  show ?thesis
    by (simp add: packet_sized_def sample_packet_def)
qed

text \<open>
  C38: a head-drop queue makes room for a new packet by dropping the oldest one,
  and only that one. In a state that respects the limits, a packet that fits is queued; otherwise
  the oldest packet is dropped, and when the limits still do not hold without it the assertion
  at the end of \<open>dequeue\<close> fails and the program aborts, although the loop around it was written to
  drop more.
\<close>

theorem drophead_drops_one:
  assumes "dq_inv q" and "dq_room p q"
  shows "map_sum (\<lambda>e. e) internal_queue (drophead_enqueue p q) =
    (let ps = internal_queue q @ [p];
         fits = list_fits (unat (byte_limit q)) (unat (packet_limit q))
     in if fits ps then Inr ps else if fits (tl ps) then Inr (tl ps) else Inl AssertFail)"
  using drophead_exact [OF assms] by (simp add: Let_def within_list_fits)

definition full_queue :: dropping_queue where
  "full_queue = \<lparr>queue_size_in_bytes = 100, queue_size_in_packets = 2,
     internal_queue = [sample_packet 50, sample_packet 50], packet_limit = 0, byte_limit = 100\<rparr>"

lemma full_queue_reached:
  "rbind (dropping_new ''bytes=100'') (queue_run drophead_enqueue dropping_dequeue
     [Enqueue (sample_packet 50), Enqueue (sample_packet 50)]) = Inr ([], full_queue)"
  by code_simp

lemma drophead_drops_one_witness:
  "map_sum (\<lambda>e. e) internal_queue (drophead_enqueue (sample_packet 51) full_queue) =
     (Inl AssertFail :: queued_packet list res)"
  using drophead_drops_one [of full_queue "sample_packet 51"]
  by (simp add: full_queue_def sample_packet_def dq_inv_def counted_def int_sized_def
      within_limits_def dq_room_simp list_fits_def Let_def)

end
