(* ===== verification/Doubles.thy ===== *)
theory Doubles
  imports Complex_Main
begin

text \<open>
  The C++ \<open>double\<close> arithmetic the queue disciplines use. A finite double is the rational number it
  denotes; an operation computes exactly and rounds the result to the nearest binary64 value,
  ties to even, which is what IEEE 754 prescribes for \<open>+\<close>, \<open>*\<close>, \<open>/\<close>, \<open>sqrt\<close> and for decimal
  literals. Overflow to an infinity is not modelled: no quantity of the sources comes near it.

  The lemmas give what the components use: rounding keeps a number between integers it lies
  between, and the rounded square root of a positive integer is at least 1.
\<close>

section \<open>Binary exponents\<close>

fun flog2 :: "nat \<Rightarrow> nat" where
  "flog2 n = (if n \<le> 1 then 0 else Suc (flog2 (n div 2)))"

declare flog2.simps [simp del]

lemma flog2_bounds: "0 < n \<Longrightarrow> 2 ^ flog2 n \<le> n \<and> n < 2 ^ Suc (flog2 n)"
proof (induction n rule: flog2.induct)
  case (1 n)
  show ?case
  proof (cases "n \<le> 1")
    case True
    with "1.prems" show ?thesis by (simp add: flog2.simps [of n])
  next
    case False
    with "1.IH" have "2 ^ flog2 (n div 2) \<le> n div 2" "n div 2 < 2 ^ Suc (flog2 (n div 2))"
      by auto
    then have "2 * 2 ^ flog2 (n div 2) \<le> n" "n < 2 * 2 ^ Suc (flog2 (n div 2))"
      by linarith+
    with False show ?thesis by (simp add: flog2.simps [of n])
  qed
qed

text \<open>The \<open>e\<close> with \<open>2 ^ e \<le> x < 2 ^ (e + 1)\<close>, for positive \<open>x\<close>.\<close>

definition exponent_of :: "rat \<Rightarrow> int" where
  "exponent_of x =
     (let (a, b) = quotient_of x;
          k = int (flog2 (nat a)) - int (flog2 (nat b))
      in if 2 powi k \<le> x then k else k - 1)"

lemma powi_split: "(2 :: rat) powi (int m - int n) = 2 ^ m / 2 ^ n"
  by (simp add: power_int_diff)

lemma exponent_of_lower:
  assumes "0 < x"
  shows "2 powi exponent_of x \<le> x"
proof -
  obtain a b where q: "quotient_of x = (a, b)"
    by force
  then have x: "x = of_int a / of_int b" and b: "0 < b"
    by (simp_all add: quotient_of_div quotient_of_denom_pos)
  with assms have a: "0 < a"
    by (simp add: zero_less_divide_iff)
  let ?m = "flog2 (nat a)" and ?n = "flog2 (nat b)"
  have am: "2 ^ ?m \<le> nat a" and bn: "nat b < 2 ^ Suc ?n"
    using flog2_bounds [of "nat a"] flog2_bounds [of "nat b"] a b by auto
  have "(2 :: int) ^ ?m \<le> a"
    using am a by (metis nat_le_iff of_nat_numeral of_nat_power zle_int int_nat_eq less_imp_le)
  then have am': "(2 :: rat) ^ ?m \<le> of_int a"
    by (metis of_int_le_iff of_int_numeral of_int_power)
  have "b < (2 :: int) ^ Suc ?n"
    using bn b by (metis nat_less_iff less_imp_le of_nat_numeral of_nat_power)
  then have bn': "of_int b < (2 :: rat) ^ Suc ?n"
    by (metis of_int_less_iff of_int_numeral of_int_power)
  have "(2 :: rat) powi (int ?m - int ?n - 1) = 2 ^ ?m / 2 ^ Suc ?n"
    using powi_split [of ?m "Suc ?n"] by (simp add: algebra_simps)
  also have "\<dots> \<le> of_int a / of_int b"
  proof (rule frac_le)
    show "0 \<le> (of_int a :: rat)" using a by simp
    show "0 < (of_int b :: rat)" using b by simp
  qed (use am' bn' in simp_all)
  finally have "(2 :: rat) powi (int ?m - int ?n - 1) \<le> x"
    by (simp add: x)
  then show ?thesis
    by (simp add: exponent_of_def q Let_def)
qed

section \<open>Rounding\<close>

definition round_half_even :: "rat \<Rightarrow> int" where
  "round_half_even y =
     (let f = \<lfloor>y\<rfloor>; d = y - of_int f
      in if d < 1 / 2 \<or> (d = 1 / 2 \<and> even f) then f else f + 1)"

lemma round_half_even_le: "y \<le> of_int n \<Longrightarrow> round_half_even y \<le> n"
proof -
  assume y: "y \<le> of_int n"
  show "round_half_even y \<le> n"
  proof (cases "y = of_int n")
    case True
    then show ?thesis by (simp add: round_half_even_def)
  next
    case False
    with y have "\<lfloor>y\<rfloor> < n"
      by (simp add: floor_less_iff)
    then show ?thesis by (simp add: round_half_even_def Let_def)
  qed
qed

lemma round_half_even_ge: "of_int n \<le> y \<Longrightarrow> n \<le> round_half_even y"
proof -
  assume "of_int n \<le> y"
  then have "n \<le> \<lfloor>y\<rfloor>"
    by (simp add: le_floor_iff)
  then show ?thesis
    by (simp add: round_half_even_def Let_def)
qed

lemma round_half_even_of_int [simp]: "round_half_even (of_int n) = n"
  by (simp add: round_half_even_def)

definition ulp :: "rat \<Rightarrow> rat" where
  "ulp x = 2 powi (max (exponent_of x - 52) (- 1074))"

definition rnd_pos :: "rat \<Rightarrow> rat" where
  "rnd_pos x = of_int (round_half_even (x / ulp x)) * ulp x"

definition rnd :: "rat \<Rightarrow> rat" where
  "rnd x = (if x = 0 then 0 else if 0 < x then rnd_pos x else - rnd_pos (- x))"

lemma ulp_pos [simp]: "0 < ulp x"
  by (simp add: ulp_def)

lemma rnd_0 [simp]: "rnd 0 = 0"
  by (simp add: rnd_def)

lemma rnd_nonneg: "0 \<le> x \<Longrightarrow> 0 \<le> rnd x"
proof -
  assume "0 \<le> x"
  moreover have "0 \<le> x \<Longrightarrow> 0 \<le> round_half_even (x / ulp x)"
    by (rule round_half_even_ge) (simp add: less_imp_le)
  ultimately show "0 \<le> rnd x"
    by (auto simp: rnd_def rnd_pos_def less_imp_le)
qed

text \<open>Below \<open>2 ^ 52\<close> the spacing of doubles divides 1, so integers are doubles.\<close>

lemma ulp_inverse_nat:
  assumes "0 < x" and "x < 2 ^ 52"
  shows "\<exists>j. ulp x = 1 / 2 ^ j"
proof -
  have "(2 :: rat) powi exponent_of x < 2 powi 52"
    using exponent_of_lower [OF assms(1)] assms(2) by simp
  from power_int_le_imp_less_exp [OF _ this] have "exponent_of x < 52"
    by simp
  then have "max (exponent_of x - 52) (- 1074) = - int (nat (- max (exponent_of x - 52) (- 1074)))"
    by simp
  then show ?thesis
    unfolding ulp_def by (metis power_int_minus power_int_of_nat inverse_eq_divide)
qed

lemma rnd_le_nat:
  assumes "0 \<le> x" and "x \<le> of_nat N" and "N < 2 ^ 52"
  shows "rnd x \<le> of_nat N"
proof (cases "x = 0")
  case True
  then show ?thesis by simp
next
  case False
  with assms(1) have pos: "0 < x" by simp
  have "(of_nat N :: rat) < 2 ^ 52"
    using assms(3) by (metis of_nat_less_iff of_nat_numeral of_nat_power)
  with assms(2) have "x < 2 ^ 52" by simp
  then obtain j where j: "ulp x = 1 / 2 ^ j"
    using ulp_inverse_nat [OF pos] by blast
  have "x / ulp x \<le> of_int (int N * 2 ^ j)"
    using assms(2) by (simp add: j)
  then have "round_half_even (x / ulp x) \<le> int N * 2 ^ j"
    by (rule round_half_even_le)
  then have "(of_int (round_half_even (x / ulp x)) :: rat) \<le> of_int (int N * 2 ^ j)"
    by (simp only: of_int_le_iff)
  then have "of_int (round_half_even (x / ulp x)) * ulp x \<le> of_int (int N * 2 ^ j) * ulp x"
    by (intro mult_right_mono) (simp_all only: less_imp_le ulp_pos)
  then show ?thesis
    using pos by (simp add: rnd_def rnd_pos_def j)
qed

lemma rnd_le_1: "0 \<le> x \<Longrightarrow> x \<le> 1 \<Longrightarrow> rnd x \<le> 1"
  using rnd_le_nat [of x 1] by simp

text \<open>\<open>(uint64_t) d\<close> for a nonnegative double.\<close>

definition trunc_nat :: "rat \<Rightarrow> nat" where
  "trunc_nat d = nat \<lfloor>d\<rfloor>"

section \<open>Square roots\<close>

fun isqrt :: "nat \<Rightarrow> nat" where
  "isqrt n =
     (if n = 0 then 0
      else let r = 2 * isqrt (n div 4) in if (r + 1) * (r + 1) \<le> n then r + 1 else r)"

declare isqrt.simps [simp del]

lemma isqrt_0 [simp]: "isqrt 0 = 0"
  by (simp add: isqrt.simps)

lemma isqrt_le: "isqrt n * isqrt n \<le> n"
proof (induction n rule: isqrt.induct)
  case (1 n)
  show ?case
  proof (cases "n = 0")
    case True
    then show ?thesis by simp
  next
    case False
    with 1 have "isqrt (n div 4) * isqrt (n div 4) \<le> n div 4" by simp
    then have "(2 * isqrt (n div 4)) * (2 * isqrt (n div 4)) \<le> n" by simp
    with False show ?thesis by (simp add: isqrt.simps [of n] Let_def)
  qed
qed

lemma isqrt_upper: "n < (isqrt n + 1) * (isqrt n + 1)"
proof (induction n rule: isqrt.induct)
  case (1 n)
  show ?case
  proof (cases "n = 0")
    case True
    then show ?thesis by (simp add: isqrt.simps [of n])
  next
    case False
    let ?s = "isqrt (n div 4)"
    from False 1 have "n div 4 < (?s + 1) * (?s + 1)" by simp
    then have "n < 4 * ((?s + 1) * (?s + 1))" by linarith
    then have "n < (2 * ?s + 2) * (2 * ?s + 2)" by (simp add: algebra_simps)
    with False show ?thesis by (auto simp: isqrt.simps [of n] Let_def)
  qed
qed

lemma isqrt_ge: "k * k \<le> n \<Longrightarrow> k \<le> isqrt n"
proof (rule ccontr)
  assume k: "k * k \<le> n" and "\<not> k \<le> isqrt n"
  then have "(isqrt n + 1) * (isqrt n + 1) \<le> k * k"
    by (intro mult_le_mono) simp_all
  with k isqrt_upper [of n] show False by linarith
qed

text \<open>
  \<open>sqrt( n )\<close> of an unsigned 32-bit count, correctly rounded: the integer root of \<open>n\<close> scaled so
  that it has 53 bits, rounded up when the root of the scaled number is nearer to the next
  integer (it is never half way between two).
\<close>

definition sqrt_scale :: "nat \<Rightarrow> nat" where
  "sqrt_scale n = 52 - flog2 n div 2"

definition sqrt_double :: "nat \<Rightarrow> rat" where
  "sqrt_double n =
     (let k = sqrt_scale n; s = n * 4 ^ k; m = isqrt s;
          r = (if m * (m + 1) < s then m + 1 else m)
      in of_nat r / 2 ^ k)"

lemma sqrt_double_ge_1: "0 < n \<Longrightarrow> 1 \<le> sqrt_double n"
proof -
  assume "0 < n"
  let ?k = "sqrt_scale n"
  have "2 ^ ?k * 2 ^ ?k = (4 :: nat) ^ ?k"
    by (simp add: power_mult_distrib [symmetric])
  also have "\<dots> \<le> n * 4 ^ ?k"
    using \<open>0 < n\<close> by simp
  finally have "2 ^ ?k \<le> isqrt (n * 4 ^ ?k)"
    by (rule isqrt_ge)
  then have "(2 :: rat) ^ ?k \<le> of_nat (isqrt (n * 4 ^ ?k))"
    by (metis of_nat_le_iff of_nat_numeral of_nat_power)
  then show ?thesis
    by (simp add: sqrt_double_def Let_def field_simps)
qed

text \<open>The quotient \<open>a / sqrt( n )\<close>, as CoDel's control law forms it, is at most \<open>a\<close>.\<close>

lemma div_sqrt_le:
  assumes "0 < n" and "a < 2 ^ 52"
  shows "trunc_nat (rnd (of_nat a / sqrt_double n)) \<le> a"
proof -
  have s: "1 \<le> sqrt_double n"
    using assms(1) by (rule sqrt_double_ge_1)
  then have "of_nat a / sqrt_double n \<le> of_nat a"
    by (simp add: divide_le_eq mult_le_cancel_left1)
  moreover have "0 \<le> of_nat a / sqrt_double n"
    using s by simp
  ultimately have "rnd (of_nat a / sqrt_double n) \<le> of_nat a"
    using assms(2) by (intro rnd_le_nat)
  then have "\<lfloor>rnd (of_nat a / sqrt_double n)\<rfloor> \<le> int a"
    by (simp add: floor_le_iff)
  then show ?thesis
    by (simp add: trunc_nat_def)
qed

end
