(* ===== verification/Environment.thy ===== *)
theory Environment
  imports Prelude Doubles
begin

text \<open>
  What the program reads from outside: the real-time clock and the random numbers of the
  standard library's generators. An \<open>env\<close> holds the sequence of readings the run will see and
  how many were taken, so each call of \<open>timestamp\<close> (\<open>src/src/util/timestamp.cc\<close>) takes the next
  one. Nothing is assumed of the sequence: the clock may stand still or jump backwards.
\<close>

record env =
  clock :: "nat \<Rightarrow> u64 \<times> u64"
  clock_reads :: nat
  initial_value :: "u64 option"
  uniform :: "nat \<Rightarrow> rat"
  uniform_draws :: nat

text \<open>\<open>clock_gettime\<close> fills in seconds and nanoseconds; the result counts milliseconds.\<close>

definition raw_timestamp :: "env \<Rightarrow> u64 \<times> env" where
  "raw_timestamp e =
     (case clock e (clock_reads e) of (tv_sec, tv_nsec) \<Rightarrow>
        (tv_nsec div 1000000 + tv_sec * 1000, e\<lparr>clock_reads := clock_reads e + 1\<rparr>))"

text \<open>The static local is initialised by the first call.\<close>

definition initial_timestamp :: "env \<Rightarrow> u64 \<times> env" where
  "initial_timestamp e =
     (case initial_value e of
        Some v \<Rightarrow> (v, e)
      | None \<Rightarrow> (case raw_timestamp e of (v, e') \<Rightarrow> (v, e'\<lparr>initial_value := Some v\<rparr>)))"

definition timestamp :: "env \<Rightarrow> u64 \<times> env" where
  "timestamp e =
     (case raw_timestamp e of (raw, e1) \<Rightarrow>
      case initial_timestamp e1 of (initial, e2) \<Rightarrow> (raw - initial, e2))"

text \<open>One draw of \<open>uniform_real_distribution( 0.0, 1.0 )\<close>.\<close>

definition draw_uniform :: "env \<Rightarrow> rat \<times> env" where
  "draw_uniform e = (uniform e (uniform_draws e), e\<lparr>uniform_draws := uniform_draws e + 1\<rparr>)"

lemma timestamp_after_init:
  "initial_value e = Some v \<Longrightarrow>
     timestamp e = (fst (raw_timestamp e) - v, e\<lparr>clock_reads := clock_reads e + 1\<rparr>)"
  by (simp add: timestamp_def raw_timestamp_def initial_timestamp_def split: prod.splits)

text \<open>
  An environment in which a given list of millisecond readings will be seen, then the last of
  them for ever; used to run the models on concrete inputs.
\<close>

fun nth_or_last :: "u64 list \<Rightarrow> nat \<Rightarrow> u64" where
  "nth_or_last [] n = 0"
| "nth_or_last [x] n = x"
| "nth_or_last (x # y # xs) 0 = x"
| "nth_or_last (x # y # xs) (Suc n) = nth_or_last (y # xs) n"

definition sample_env :: "u64 list \<Rightarrow> env" where
  "sample_env ts =
     \<lparr>clock = (\<lambda>i. (0, nth_or_last ts i * 1000000)), clock_reads = 0, initial_value = Some 0,
      uniform = (\<lambda>_. 1 / 2), uniform_draws = 0\<rparr>"

end
