(* ===== verification/Codel_Queue.thy ===== *)
theory Codel_Queue
  imports Dropping_Queue Environment
begin

text \<open>
  \<open>CODELPacketQueue\<close> of \<open>src/src/packet/codel_packet_queue.cc\<close>: a dropping queue that takes its
  drop decisions at \<open>dequeue\<close>. The object is modelled with the environment its \<open>timestamp()\<close>
  calls read. A call delivers the packet at the head and removes a run of packets behind it,
  never the last one it would need to assert on, and removes nothing while the head has waited
  less than the target.
\<close>

record codel_queue = dropping_queue +
  target :: u32
  interval :: u32
  first_above_time :: u64
  drop_next :: u64
  drop_count :: u32
  lastcount :: u32
  dropping :: bool

definition PACKET_SIZE :: u32 where "PACKET_SIZE = 1504"

definition codel_new :: "string \<Rightarrow> codel_queue res" where
  "codel_new args =
     rbind (dropping_new args) (\<lambda>base.
     rbind (get_arg args ''target'') (\<lambda>t.
     rbind (get_arg args ''interval'') (\<lambda>i.
       if t = 0 \<or> i = 0
       then Inl (RuntimeError ''CoDel queue must have target and interval arguments.'')
       else Inr \<lparr>queue_size_in_bytes = queue_size_in_bytes base,
                 queue_size_in_packets = queue_size_in_packets base,
                 internal_queue = internal_queue base,
                 packet_limit = packet_limit base, byte_limit = byte_limit base,
                 target = t, interval = i, first_above_time = 0, drop_next = 0,
                 drop_count = 0, lastcount = 0, dropping = False\<rparr>)))"

text \<open>
  \<open>dodequeue\<close> returns the packet and whether it is fit to drop; the second definition is the part
  after the packet was taken.
\<close>

definition fit_to_drop :: "u64 \<Rightarrow> queued_packet \<Rightarrow> codel_queue \<Rightarrow> (bool \<times> codel_queue) res" where
  "fit_to_drop now p q =
     (if dropping_empty q then Inr (False, q\<lparr>first_above_time := 0\<rparr>)
      else if now - arrival_time p < ucast (target q)
      then Inr (False, q\<lparr>first_above_time := 0\<rparr>)
      else
        rbind (size_bytes q) (\<lambda>b.
          if b \<le> PACKET_SIZE then Inr (False, q\<lparr>first_above_time := 0\<rparr>)
          else if first_above_time q = 0
          then Inr (False, q\<lparr>first_above_time := now + ucast (interval q)\<rparr>)
          else if first_above_time q \<le> now then Inr (True, q)
          else Inr (False, q)))"

definition dodequeue :: "u64 \<Rightarrow> codel_queue \<Rightarrow> ((queued_packet \<times> bool) \<times> codel_queue) res" where
  "dodequeue now q0 =
     rbind (dropping_dequeue q0) (\<lambda>(p, q).
     rbind (fit_to_drop now p q) (\<lambda>(ok_to_drop, q'). Inr ((p, ok_to_drop), q')))"

text \<open>
  \<open>t + (uint64_t) ( interval_ / sqrt( count ) )\<close>. A zero count would divide by zero and convert
  an infinity to an integer, which is undefined.
\<close>

definition control_law :: "u32 \<Rightarrow> u64 \<Rightarrow> u32 \<Rightarrow> u64 res" where
  "control_law intv t cnt =
     (if cnt = 0 then Inl Undefined
      else Inr (t + of_nat (trunc_nat (rnd (of_nat (unat intv) / sqrt_double (unat cnt))))))"

text \<open>\<open>while ( now >= drop_next_ && dropping_ )\<close>, each round dequeuing a packet that is lost.\<close>

lemma fit_to_drop_queue:
  "fit_to_drop now p q = Inr (ok, q') \<Longrightarrow> internal_queue q' = internal_queue q"
  by (cases "size_bytes q") (auto simp: fit_to_drop_def split: if_splits)

lemma dodequeue_shorter:
  assumes "dodequeue now q = Inr (r, q')"
  shows "length (internal_queue q') < length (internal_queue q)"
proof -
  obtain p q1 ok where "dropping_dequeue q = Inr (p, q1)" and "fit_to_drop now p q1 = Inr (ok, q')"
    using assms by (auto simp: dodequeue_def rbind_Inr_iff)
  then show ?thesis
    by (auto dest!: dropping_dequeue_shape fit_to_drop_queue)
qed

function codel_drop_loop :: "u64 \<Rightarrow> codel_queue \<Rightarrow> codel_queue res" where
  "codel_drop_loop now q =
     (if drop_next q \<le> now \<and> dropping q then
        (case dodequeue now q of
           Inl e \<Rightarrow> Inl e
         | Inr r \<Rightarrow>
             (let ok_to_drop = snd (fst r);
                  q1 = (snd r)\<lparr>drop_count := drop_count (snd r) + 1\<rparr>
              in if \<not> ok_to_drop then codel_drop_loop now (q1\<lparr>dropping := False\<rparr>)
                 else
                   (case control_law (interval q1) (drop_next q1) (drop_count q1) of
                      Inl e \<Rightarrow> Inl e
                    | Inr dn \<Rightarrow> codel_drop_loop now (q1\<lparr>drop_next := dn\<rparr>))))
      else Inr q)"
  by pat_completeness auto
termination
  by (relation "measure (\<lambda>(now, q). length (internal_queue q))")
     (auto dest: dodequeue_shorter)

declare codel_drop_loop.simps [simp del]

text \<open>
  The rest of \<open>dequeue\<close>, after its first \<open>dodequeue\<close>. The inner \<open>dodequeue_result r\<close> shadows the
  outer one, so the packet of a second \<open>dodequeue\<close> is the one that is lost.
\<close>

definition codel_control :: "u64 \<Rightarrow> bool \<Rightarrow> codel_queue \<Rightarrow> codel_queue res" where
  "codel_control now ok_to_drop q =
     (if dropping q then
        codel_drop_loop now (if \<not> ok_to_drop then q\<lparr>dropping := False\<rparr> else q)
      else if ok_to_drop then
        rbind (dodequeue now q) (\<lambda>(_, q1).
          let delta = drop_count q1 - lastcount q1;
              c = (if 1 < delta \<and> now - drop_next q1 < ucast (16 * interval q1)
                   then delta else 1)
          in rbind (control_law (interval q1) now c) (\<lambda>dn.
               Inr (q1\<lparr>dropping := True, drop_count := c, drop_next := dn,
                       lastcount := c\<rparr>)))
      else Inr q)"

definition codel_dequeue :: "env \<times> codel_queue \<Rightarrow> (queued_packet \<times> (env \<times> codel_queue)) res" where
  "codel_dequeue = (\<lambda>(e0, q0).
     case timestamp e0 of (now, e) \<Rightarrow>
     rbind (dodequeue now q0) (\<lambda>((p, ok_to_drop), q).
     rbind (codel_control now ok_to_drop q) (\<lambda>q'. Inr (p, (e, q')))))"

definition codel_enqueue :: "queued_packet \<Rightarrow> env \<times> codel_queue \<Rightarrow> (env \<times> codel_queue) res" where
  "codel_enqueue p = (\<lambda>(e, q).
     rbind (good_with_packet p q) (\<lambda>fits.
     rbind (assert_good (if fits then accept p q else q)) (\<lambda>q'. Inr (e, q'))))"

definition codel_to_string :: "codel_queue \<Rightarrow> string" where
  "codel_to_string q = dropping_to_string ''codel'' q"

section \<open>Its own fields do not matter to the base class\<close>

lemma dq_inv_codel_updates [simp]:
  "dq_inv (q\<lparr>first_above_time := a\<rparr>) = dq_inv q"
  "dq_inv (q\<lparr>drop_next := b\<rparr>) = dq_inv q"
  "dq_inv (q\<lparr>drop_count := c\<rparr>) = dq_inv q"
  "dq_inv (q\<lparr>lastcount := d\<rparr>) = dq_inv q"
  "dq_inv (q\<lparr>dropping := f\<rparr>) = dq_inv (q :: codel_queue)"
  by (simp_all add: dq_inv_def counted_def int_sized_def within_limits_def)

lemma pop_packet_codel [simp]:
  "target (pop_packet p rest q) = target q" "interval (pop_packet p rest q) = interval q"
  "first_above_time (pop_packet p rest q) = first_above_time q"
  "drop_next (pop_packet p rest q) = drop_next q"
  "drop_count (pop_packet p rest q) = drop_count q"
  "lastcount (pop_packet p rest q) = lastcount q"
  "dropping (pop_packet p rest q) = dropping q"
  by (simp_all add: pop_packet_def)

lemma dq_inv_size_bytes: "dq_inv q \<Longrightarrow> \<exists>b. size_bytes q = Inr b"
  by (auto simp: dq_inv_def counted_def int_sized_def size_bytes_def sint_of_nat_u32_nonneg)

text \<open>On a nonempty queue \<open>dodequeue\<close> takes the head; it offers a drop only if packets remain.\<close>

lemma dodequeue_head:
  assumes "dq_inv q" and "internal_queue q = p # rest"
  shows "\<exists>ok q'. dodequeue now q = Inr ((p, ok), q') \<and> dq_inv q' \<and> internal_queue q' = rest \<and>
    (ok \<longrightarrow> rest \<noteq> []) \<and> (now - arrival_time p < ucast (target q) \<longrightarrow> \<not> ok) \<and>
    target q' = target q \<and> interval q' = interval q \<and> dropping q' = dropping q \<and>
    drop_count q' = drop_count q \<and> lastcount q' = lastcount q \<and> drop_next q' = drop_next q"
proof -
  have i: "dq_inv (pop_packet p rest q)"
    using assms by (rule dq_inv_pop)
  then obtain b where "size_bytes (pop_packet p rest q) = Inr b"
    using dq_inv_size_bytes by blast
  with i show ?thesis
    by (auto simp: dodequeue_def fit_to_drop_def dropping_dequeue_exact [OF assms]
        dropping_empty_def)
qed

lemma dodequeue_sub:
  assumes "dq_inv q" and "dodequeue now q = Inr (r, q')"
  shows "dq_inv q' \<and> internal_queue q = fst r # internal_queue q'"
proof (cases "internal_queue q")
  case Nil
  with assms(2) show ?thesis
    by (simp add: dodequeue_def dropping_dequeue_def)
next
  case (Cons p rest)
  from dodequeue_head [OF assms(1) Cons, of now] assms(2) Cons show ?thesis by auto
qed

text \<open>The packets the loop removes are a prefix of what was queued.\<close>

lemma codel_drop_loop_prefix:
  "dq_inv q \<Longrightarrow> codel_drop_loop now q = Inr q' \<Longrightarrow>
     dq_inv q' \<and> (\<exists>dropped. internal_queue q = dropped @ internal_queue q')"
proof (induction now q rule: codel_drop_loop.induct)
  case (1 now q)
  show ?case
  proof (cases "drop_next q \<le> now \<and> dropping q")
    case False
    with "1.prems" show ?thesis
      by (simp add: codel_drop_loop.simps [of now q])
  next
    case True
    with "1.prems"(2) obtain r q1 where r: "dodequeue now q = Inr (r, q1)"
      by (auto simp: codel_drop_loop.simps [of now q] split: sum.splits)
    have q1: "dq_inv q1" "internal_queue q = fst r # internal_queue q1"
      using dodequeue_sub [OF "1.prems"(1) r] by auto
    let ?q2 = "q1\<lparr>drop_count := drop_count q1 + 1\<rparr>"
    show ?thesis
    proof (cases "snd r")
      case False
      with "1.prems"(2) True r have "codel_drop_loop now (?q2\<lparr>dropping := False\<rparr>) = Inr q'"
        by (simp add: codel_drop_loop.simps [of now q] Let_def)
      with "1.IH"(1) [OF True r refl refl] False q1 show ?thesis by auto
    next
      case ok: True
      with "1.prems"(2) True r obtain dn where
        dn: "control_law (interval ?q2) (drop_next ?q2) (drop_count ?q2) = Inr dn" and
        "codel_drop_loop now (?q2\<lparr>drop_next := dn\<rparr>) = Inr q'"
        by (auto simp: codel_drop_loop.simps [of now q] Let_def split: sum.splits)
      with "1.IH"(2) [OF True r refl refl] ok q1 show ?thesis by auto
    qed
  qed
qed

section \<open>dequeue as a whole\<close>

lemma codel_control_prefix:
  assumes inv: "dq_inv q" and run: "codel_control now ok q = Inr q'"
  shows "dq_inv q' \<and> (\<exists>dropped. internal_queue q = dropped @ internal_queue q')"
proof -
  consider (drops) "dropping q" | (first) "\<not> dropping q" "ok" | (none) "\<not> dropping q" "\<not> ok"
    by blast
  then show ?thesis
  proof cases
    case drops
    with run have
      "codel_drop_loop now (if \<not> ok then q\<lparr>dropping := False\<rparr> else q) = Inr q'"
      by (simp add: codel_control_def)
    from codel_drop_loop_prefix [OF _ this] inv show ?thesis
      by (cases ok) simp_all
  next
    case first
    with run obtain r q1 where d: "dodequeue now q = Inr (r, q1)" and
      "dq_inv q' = dq_inv q1 \<and> internal_queue q' = internal_queue q1"
      by (auto simp: codel_control_def rbind_Inr_iff Let_def)
    with dodequeue_sub [OF inv d] show ?thesis by auto
  next
    case none
    with run inv show ?thesis by (simp add: codel_control_def)
  qed
qed

lemma codel_dequeue_shape:
  assumes inv: "dq_inv q" and run: "codel_dequeue (e, q) = Inr (p, (e', q'))"
  shows "dq_inv q' \<and> (\<exists>dropped. internal_queue q = p # dropped @ internal_queue q')"
proof -
  obtain now e1 where t: "timestamp e = (now, e1)"
    by force
  from run obtain ok q1 where d: "dodequeue now q = Inr ((p, ok), q1)" and
    c: "codel_control now ok q1 = Inr q'"
    by (auto simp: codel_dequeue_def t rbind_Inr_iff)
  from dodequeue_sub [OF inv d] codel_control_prefix [OF _ c] show ?thesis
    by auto
qed

lemma codel_dequeue_fresh:
  assumes inv: "dq_inv q" and q: "internal_queue q = p # rest"
    and t: "timestamp e = (now, e1)" and fresh: "now - arrival_time p < ucast (target q)"
  shows "\<exists>q'. codel_dequeue (e, q) = Inr (p, (e1, q')) \<and> internal_queue q' = rest"
proof -
  obtain q1 where "dodequeue now q = Inr ((p, False), q1)" "internal_queue q1 = rest"
    using dodequeue_head [OF inv q, of now] fresh by auto
  then show ?thesis
    using t by (simp add: codel_dequeue_def codel_control_def
        codel_drop_loop.simps [of now "q1\<lparr>dropping := False\<rparr>"])
qed

text \<open>
  The loop never dequeues from an empty queue, so on a nonempty queue the call returns, as long
  as the 32-bit drop counter is not about to wrap around to 0.
\<close>

definition count_room :: "codel_queue \<Rightarrow> bool" where
  "count_room q \<longleftrightarrow> unat (drop_count q) + length (internal_queue q) < 2 ^ 32"

lemma control_law_total: "cnt \<noteq> 0 \<Longrightarrow> \<exists>dn. control_law intv t cnt = Inr dn"
  by (simp add: control_law_def)

lemma unat_inc_u32: "unat (c :: u32) + 1 < 2 ^ 32 \<Longrightarrow> unat (c + 1) = unat c + 1"
  by (simp add: unat_word_ariths)

lemma codel_drop_loop_total:
  "dq_inv q \<Longrightarrow> count_room q \<Longrightarrow> dropping q \<longrightarrow> internal_queue q \<noteq> [] \<Longrightarrow>
     \<exists>q'. codel_drop_loop now q = Inr q'"
proof (induction now q rule: codel_drop_loop.induct)
  case (1 now q)
  show ?case
  proof (cases "drop_next q \<le> now \<and> dropping q")
    case False
    then show ?thesis by (auto simp: codel_drop_loop.simps [of now q])
  next
    case True
    then obtain p rest where q: "internal_queue q = p # rest"
      using "1.prems"(3) by (cases "internal_queue q") auto
    from dodequeue_head [OF "1.prems"(1) q, of now] obtain ok q1 where
      d: "dodequeue now q = Inr ((p, ok), q1)" and inv: "dq_inv q1" and
      q1: "internal_queue q1 = rest" "ok \<longrightarrow> rest \<noteq> []" "drop_count q1 = drop_count q"
      by blast
    have c: "unat (drop_count q1 + 1) = unat (drop_count q1) + 1"
      using "1.prems"(2) q q1 by (intro unat_inc_u32) (simp add: count_room_def)
    then have room: "count_room (q1\<lparr>drop_count := drop_count q1 + 1\<rparr>)"
      using "1.prems"(2) q q1 by (simp add: count_room_def)
    let ?q2 = "q1\<lparr>drop_count := drop_count q1 + 1\<rparr>"
    show ?thesis
    proof (cases ok)
      case False
      have "\<exists>q'. codel_drop_loop now (?q2\<lparr>dropping := False\<rparr>) = Inr q'"
        using "1.IH"(1) [OF True d refl refl] False room inv by (simp add: count_room_def)
      with True d False show ?thesis
        by (simp add: codel_drop_loop.simps [of now q] Let_def)
    next
      case ok: True
      have "drop_count q1 + 1 \<noteq> 0"
        using c by auto
      then have "drop_count ?q2 \<noteq> 0"
        by simp
      from control_law_total [OF this] obtain dn where
        dn: "control_law (interval ?q2) (drop_next ?q2) (drop_count ?q2) = Inr dn"
        by blast
      then have "\<exists>q'. codel_drop_loop now (?q2\<lparr>drop_next := dn\<rparr>) = Inr q'"
        using "1.IH"(2) [OF True d refl refl] ok room inv q1 by (simp add: count_room_def)
      with True d ok dn show ?thesis
        by (simp add: codel_drop_loop.simps [of now q] Let_def)
    qed
  qed
qed

lemma codel_control_total:
  assumes inv: "dq_inv q" and room: "count_room q" and ok: "ok \<longrightarrow> internal_queue q \<noteq> []"
  shows "\<exists>q'. codel_control now ok q = Inr q'"
proof -
  consider (drops) "dropping q" | (first) "\<not> dropping q" "ok" | (none) "\<not> dropping q" "\<not> ok"
    by blast
  then show ?thesis
  proof cases
    case drops
    let ?q2 = "if \<not> ok then q\<lparr>dropping := False\<rparr> else q"
    have "dq_inv ?q2" "count_room ?q2" "dropping ?q2 \<longrightarrow> internal_queue ?q2 \<noteq> []"
      using inv room ok by (auto simp: count_room_def)
    from codel_drop_loop_total [OF this, of now] drops show ?thesis
      by (simp add: codel_control_def)
  next
    case first
    with ok obtain p rest where "internal_queue q = p # rest"
      by (cases "internal_queue q") auto
    from dodequeue_head [OF inv this, of now] obtain r q1 where
      "dodequeue now q = Inr (r, q1)"
      by blast
    with first show ?thesis
      by (auto simp: codel_control_def Let_def control_law_def)
  next
    case none
    then show ?thesis by (simp add: codel_control_def)
  qed
qed

lemma codel_dequeue_total:
  assumes inv: "dq_inv q" and room: "count_room q" and ne: "internal_queue q \<noteq> []"
  shows "\<exists>p s. codel_dequeue (e, q) = Inr (p, s)"
proof -
  obtain now e1 where t: "timestamp e = (now, e1)"
    by force
  obtain p rest where q: "internal_queue q = p # rest"
    using ne by (cases "internal_queue q") auto
  from dodequeue_head [OF inv q, of now] obtain ok q1 where
    d: "dodequeue now q = Inr ((p, ok), q1)" and inv1: "dq_inv q1" and
    q1: "internal_queue q1 = rest" "ok \<longrightarrow> rest \<noteq> []" "drop_count q1 = drop_count q"
    by blast
  have "count_room q1"
    using room q q1 by (simp add: count_room_def)
  from codel_control_total [OF inv1 this, of ok now] q1 obtain q2 where
    "codel_control now ok q1 = Inr q2"
    by auto
  with t d show ?thesis
    by (simp add: codel_dequeue_def)
qed

lemma codel_new_inv:
  assumes "codel_new args = Inr q"
  shows "dq_inv q \<and> internal_queue q = []"
proof -
  from assms obtain b where b: "dropping_new args = Inr b" and
    q: "dropping_queue.truncate q = b"
    by (auto simp: codel_new_def rbind_Inr_iff dropping_queue.defs split: if_splits)
  have "dq_inv q = dq_inv b" "internal_queue q = internal_queue b"
    by (simp_all add: q [symmetric] dq_inv_def counted_def int_sized_def within_limits_def
        dropping_queue.defs)
  with dropping_new_inv [OF b] show ?thesis by simp
qed

interpretation codel: packet_queue codel_enqueue codel_dequeue "\<lambda>s. dropping_empty (snd s)"
  "\<lambda>s. internal_queue (snd s)" "\<lambda>s. dq_inv (snd s)"
proof (unfold_locales, goal_cases)
  case (1 s)
  show ?case by (simp add: dropping_empty_def)
next
  case (2 s p s')
  obtain e q where s: "s = (e, q)" by force
  from 2(3) obtain q' where "droptail_enqueue p q = Inr q'" and "s' = (e, q')"
    by (auto simp: s codel_enqueue_def droptail_enqueue_def rbind_Inr_iff)
  then show ?case
    using droptail_sub [of q p q'] 2(1,2) by (auto simp: s)
next
  case (3 s p s')
  obtain e q e' q' where s: "s = (e, q)" "s' = (e', q')" by force
  with 3 codel_dequeue_shape [of q e p e' q'] show ?case
    by auto
qed

text \<open>
  C33: \<open>dequeue\<close> of a CoDel queue always delivers the oldest packet. On a
  nonempty queue the call returns (while the 32-bit drop counter has room for one more drop per
  queued packet), hands out the packet at the head, removes a run of packets directly behind it
  and keeps the rest in order; while the head has waited less than the target, nothing at all is
  removed. A drop therefore costs the packets behind the one CoDel judged fit to drop.
\<close>

theorem codel_delivers_head:
  assumes "dq_inv q" and "count_room q" and "internal_queue q = p # rest"
  shows "\<exists>e' q' dropped. codel_dequeue (e, q) = Inr (p, (e', q')) \<and> dq_inv q' \<and>
    rest = dropped @ internal_queue q' \<and>
    (fst (timestamp e) - arrival_time p < ucast (target q) \<longrightarrow> dropped = [])"
proof -
  obtain p' e' q' where r: "codel_dequeue (e, q) = Inr (p', (e', q'))"
    using codel_dequeue_total [OF assms(1,2), of e] assms(3) by auto
  obtain dropped where d: "dq_inv q'" "internal_queue q = p' # dropped @ internal_queue q'"
    using codel_dequeue_shape [OF assms(1) r] by blast
  have "dropped = []" if f: "fst (timestamp e) - arrival_time p < ucast (target q)"
  proof -
    obtain now e1 where t: "timestamp e = (now, e1)"
      by force
    obtain q'' where "codel_dequeue (e, q) = Inr (p, (e1, q''))" "internal_queue q'' = rest"
      using codel_dequeue_fresh [OF assms(1,3) t] f t by auto
    with r d(2) assms(3) show ?thesis by simp
  qed
  with r d assms(3) show ?thesis by auto
qed

text \<open>A queue past its interval above the target, 130 ms after its four packets arrived.\<close>

definition sample_large :: queued_packet where
  "sample_large = QueuedPacket (replicate 1500 CHR ''x'') 0"

lemma sample_large_length [simp]: "length (contents sample_large) = 1500"
  by (simp add: sample_large_def)

definition sample_codel :: codel_queue where
  "sample_codel = \<lparr>queue_size_in_bytes = 6000, queue_size_in_packets = 4,
     internal_queue = [sample_large, sample_large, sample_large, sample_large],
     packet_limit = 1000, byte_limit = 0, target = 5, interval = 100, first_above_time = 110,
     drop_next = 0, drop_count = 0, lastcount = 0, dropping = False\<rparr>"

lemma codel_delivers_head_witness:
  "\<exists>e' q' dropped. codel_dequeue (sample_env [130], sample_codel) =
      Inr (sample_large, (e', q')) \<and> dq_inv q' \<and>
    [sample_large, sample_large, sample_large] = dropped @ internal_queue q' \<and>
    (fst (timestamp (sample_env [130])) - arrival_time sample_large < ucast (target sample_codel) \<longrightarrow>
      dropped = [])"
proof (rule codel_delivers_head)
  show "dq_inv sample_codel"
    by (simp add: sample_codel_def dq_inv_def counted_def int_sized_def within_limits_def)
  show "count_room sample_codel"
    by (simp add: sample_codel_def count_room_def)
qed (simp add: sample_codel_def)

end
