(* ===== verification/Pie_Queue.thy ===== *)
theory Pie_Queue
  imports Dropping_Queue Environment
begin

text \<open>
  \<open>PIEPacketQueue\<close> of \<open>src/src/packet/pie_packet_queue.cc\<close>: a dropping queue that drops arriving
  packets with a probability computed from the queueing delay. The probability is a \<open>double\<close>,
  modelled by the correctly rounded operations of \<open>Doubles\<close>; everything else is 32-bit and
  64-bit unsigned arithmetic. The object is modelled with the environment its \<open>timestamp()\<close> and
  its random generator read.

  The lemmas show that the periodic update always ends, that the probability stays between 0
  and 1, that the contract of a packet queue holds, and when a packet is certain to be taken.
\<close>

record pie_queue = dropping_queue +
  qdelay_ref :: u32
  max_burst :: u32
  drop_prob :: rat
  burst_allowance :: u32
  qdelay_old :: u32
  current_qdelay :: u32
  dq_count :: u32
  dq_tstamp :: u32
  avg_dq_rate :: u32
  last_update :: u64

definition DQ_COUNT_INVALID :: u32 where "DQ_COUNT_INVALID = - 1"
definition PIE_PACKET_SIZE :: u32 where "PIE_PACKET_SIZE = 1504"
definition alpha :: rat where "alpha = rnd (125 / 1000)"
definition beta :: rat where "beta = rnd (125 / 100)"
definition t_update :: u32 where "t_update = 30"
definition dq_threshold :: u32 where "dq_threshold = 16384"

definition pie_new :: "string \<Rightarrow> env \<Rightarrow> (env \<times> pie_queue) res" where
  "pie_new args e =
     rbind (dropping_new args) (\<lambda>base.
     rbind (get_arg args ''qdelay_ref'') (\<lambda>ref.
     rbind (get_arg args ''max_burst'') (\<lambda>mb.
     case timestamp e of (now, e') \<Rightarrow>
       if ref = 0 \<or> mb = 0
       then Inl (RuntimeError ''PIE AQM queue must have qdelay_ref and max_burst parameters'')
       else Inr (e', \<lparr>queue_size_in_bytes = queue_size_in_bytes base,
                      queue_size_in_packets = queue_size_in_packets base,
                      internal_queue = internal_queue base,
                      packet_limit = packet_limit base, byte_limit = byte_limit base,
                      qdelay_ref = ref, max_burst = mb, drop_prob = 0, burst_allowance = 0,
                      qdelay_old = 0, current_qdelay = 0, dq_count = DQ_COUNT_INVALID,
                      dq_tstamp = 0, avg_dq_rate = 0, last_update = now\<rparr>))))"

section \<open>calculate\_drop\_prob\<close>

text \<open>The change \<open>p\<close> of the probability, scaled down while the probability is small.\<close>

definition prob_change :: "pie_queue \<Rightarrow> rat" where
  "prob_change q =
     (let p = rnd (rnd (alpha * of_int (sint (current_qdelay q - qdelay_ref q))) +
                   rnd (beta * of_int (sint (current_qdelay q - qdelay_old q))))
      in if drop_prob q < rnd (1 / 100) then rnd (p / 128)
         else if drop_prob q < rnd (1 / 10) then rnd (p / 32)
         else rnd (p / 16))"

text \<open>The new probability: clamped to \<open>0..1\<close>, and decayed while there is no delay.\<close>

definition next_drop_prob :: "bool \<Rightarrow> pie_queue \<Rightarrow> rat" where
  "next_drop_prob update_prob0 q =
     (let dp = rnd (drop_prob q + prob_change q);
          dp1 = (if dp < 0 then 0 else if 1 < dp then 1 else dp);
          update_prob = (update_prob0 \<and> \<not> 1 < dp)
      in if current_qdelay q = 0 \<and> qdelay_old q = 0 \<and> update_prob
         then rnd (dp1 * rnd (98 / 100)) else dp1)"

text \<open>\<open>max( 0, (int) burst_allowance_ - (int) t_update_ )\<close>; signed overflow is undefined.\<close>

definition next_burst :: "u32 \<Rightarrow> u32 res" where
  "next_burst b =
     (let d = sint b - sint t_update
      in if d < - (2 ^ 31) then Inl Undefined else Inr (word_of_int (max 0 d)))"

text \<open>The body of the loop: one update period.\<close>

definition pie_update :: "pie_queue \<Rightarrow> pie_queue res" where
  "pie_update q0 =
     rbind (size_bytes q0) (\<lambda>bytes.
     let q1 = q0\<lparr>qdelay_old := current_qdelay q0,
                current_qdelay := (if 0 < avg_dq_rate q0 then bytes div avg_dq_rate q0 else 0)\<rparr>;
         update_prob = (\<not> (current_qdelay q1 = 0 \<and> bytes \<noteq> 0));
         q2 = q1\<lparr>drop_prob := next_drop_prob update_prob q1\<rparr>
     in rbind (next_burst (burst_allowance q2)) (\<lambda>b.
        let q3 = q2\<lparr>burst_allowance := b, last_update := last_update q2 + ucast t_update\<rparr>
        in Inr (if drop_prob q3 = 0 \<and> current_qdelay q3 < qdelay_ref q3 div 2 \<and>
                   qdelay_old q3 < qdelay_ref q3 div 2 \<and> 0 < avg_dq_rate q3
                then q3\<lparr>dq_count := DQ_COUNT_INVALID, avg_dq_rate := 0,
                        burst_allowance := max_burst q3\<rparr>
                else q3)))"

lemma pie_update_last: "pie_update q = Inr q' \<Longrightarrow> last_update q' = last_update q + 30"
  by (auto simp: pie_update_def Let_def rbind_Inr_iff t_update_def)

lemma word_sub_less: "(k :: u64) < d \<Longrightarrow> 0 < k \<Longrightarrow> unat (d - k) < unat d"
  by (simp add: unat_sub_if' word_less_nat_alt)

text \<open>\<open>while ( now - last_update_ > t_update_ )\<close>: the unsigned difference shrinks by 30.\<close>

function pie_update_loop :: "u64 \<Rightarrow> pie_queue \<Rightarrow> pie_queue res" where
  "pie_update_loop now q =
     (if ucast t_update < now - last_update q
      then rbind (pie_update q) (\<lambda>q'. pie_update_loop now q')
      else Inr q)"
  by pat_completeness auto
termination
proof (relation "measure (\<lambda>(now, q). unat (now - last_update q))", goal_cases)
  case (2 now q q')
  then have "unat (now - last_update q - 30) < unat (now - last_update q)"
    by (intro word_sub_less) (simp_all add: t_update_def)
  moreover have "now - last_update q' = now - last_update q - 30"
    using pie_update_last [of q q'] 2 by (simp add: diff_diff_eq)
  ultimately show ?case
    by (simp only: in_measure prod.case)
qed simp

declare pie_update_loop.simps [simp del]

definition calculate_drop_prob :: "env \<times> pie_queue \<Rightarrow> (env \<times> pie_queue) res" where
  "calculate_drop_prob = (\<lambda>(e, q).
     case timestamp e of (now, e') \<Rightarrow> rbind (pie_update_loop now q) (\<lambda>q'. Inr (e', q')))"

section \<open>enqueue and dequeue\<close>

text \<open>\<open>drop_early\<close>: should the arriving packet be dropped? The random number is drawn last.\<close>

definition drop_early :: "env \<times> pie_queue \<Rightarrow> (bool \<times> env) res" where
  "drop_early = (\<lambda>(e, q).
     if 0 < burst_allowance q then Inr (False, e)
     else if qdelay_old q < qdelay_ref q div 2 \<and> drop_prob q < rnd (2 / 10) then Inr (False, e)
     else rbind (size_bytes q) (\<lambda>b.
       if b < 2 * PIE_PACKET_SIZE then Inr (False, e)
       else case draw_uniform e of (random, e') \<Rightarrow> Inr (random < drop_prob q, e')))"

definition pie_enqueue :: "queued_packet \<Rightarrow> env \<times> pie_queue \<Rightarrow> (env \<times> pie_queue) res" where
  "pie_enqueue p s0 =
     rbind (calculate_drop_prob s0) (\<lambda>(e, q).
     rbind (good_with_packet p q) (\<lambda>fits.
       if \<not> fits then Inr (e, q)
       else rbind (drop_early (e, q)) (\<lambda>(early, e').
            rbind (assert_good (if \<not> early then accept p q else q)) (\<lambda>q'. Inr (e', q')))))"

text \<open>The departure rate estimate a \<open>dequeue\<close> updates once enough bytes have left.\<close>

definition rate_sampled :: "u32 \<Rightarrow> u32 \<Rightarrow> pie_queue \<Rightarrow> pie_queue" where
  "rate_sampled now bytes q =
     (let dtime = now - dq_tstamp q in
      if 0 < dtime then
        let rate_sample = dq_count q div dtime;
            avg = (if avg_dq_rate q = 0 then rate_sample
                   else (avg_dq_rate q - drop_bit 3 (avg_dq_rate q)) + drop_bit 3 rate_sample);
            q1 = q\<lparr>avg_dq_rate := avg\<rparr>;
            q2 = (if bytes < dq_threshold then q1\<lparr>dq_count := DQ_COUNT_INVALID\<rparr>
                  else q1\<lparr>dq_count := 0, dq_tstamp := now\<rparr>)
        in if 0 < burst_allowance q2 then
             (if dtime < burst_allowance q2
              then q2\<lparr>burst_allowance := burst_allowance q2 - dtime\<rparr>
              else q2\<lparr>burst_allowance := 0\<rparr>)
           else q2
      else q)"

definition count_departure :: "u32 \<Rightarrow> u32 \<Rightarrow> queued_packet \<Rightarrow> pie_queue \<Rightarrow> pie_queue" where
  "count_departure now bytes ret q0 =
     (let q1 = (if dq_threshold \<le> bytes \<and> dq_count q0 = DQ_COUNT_INVALID
                then q0\<lparr>dq_tstamp := now, dq_count := 0\<rparr> else q0)
      in if dq_count q1 \<noteq> DQ_COUNT_INVALID then
           let q = q1\<lparr>dq_count := dq_count q1 + of_nat (length (contents ret))\<rparr>
           in if dq_threshold < dq_count q then rate_sampled now bytes q else q
         else q1)"

definition pie_dequeue :: "env \<times> pie_queue \<Rightarrow> (queued_packet \<times> (env \<times> pie_queue)) res" where
  "pie_dequeue = (\<lambda>(e0, q0).
     rbind (dropping_dequeue q0) (\<lambda>(ret, q1).
     case timestamp e0 of (now, e1) \<Rightarrow>
     rbind (size_bytes q1) (\<lambda>bytes.
     rbind (calculate_drop_prob (e1, count_departure (ucast now) bytes ret q1)) (\<lambda>s.
       Inr (ret, s)))))"

definition pie_to_string :: "pie_queue \<Rightarrow> string" where
  "pie_to_string q = dropping_to_string ''pie'' q"

section \<open>The invariant\<close>

text \<open>The counters are right, the limits hold, and the probability is one.\<close>

definition pie_inv :: "pie_queue \<Rightarrow> bool" where
  "pie_inv q \<longleftrightarrow> dq_inv q \<and> 0 \<le> drop_prob q \<and> drop_prob q \<le> 1"

lemma next_drop_prob_range: "0 \<le> next_drop_prob u q \<and> next_drop_prob u q \<le> 1"
proof -
  have c: "0 \<le> rnd (98 / 100)" "rnd (98 / 100) \<le> 1"
    by (rule rnd_nonneg, simp, rule rnd_le_1, simp_all)
  have "0 \<le> rnd (x * rnd (98 / 100)) \<and> rnd (x * rnd (98 / 100)) \<le> 1"
    if x: "0 \<le> x" "x \<le> 1" for x
  proof -
    have "0 \<le> x * rnd (98 / 100)" "x * rnd (98 / 100) \<le> 1"
      using x c by (auto intro: mult_le_one)
    then show ?thesis by (simp add: rnd_nonneg rnd_le_1)
  qed
  then show ?thesis
    by (auto simp: next_drop_prob_def Let_def)
qed

lemma dq_inv_pie_updates [simp]:
  "dq_inv (q\<lparr>drop_prob := a\<rparr>) = dq_inv q"
  "dq_inv (q\<lparr>burst_allowance := b\<rparr>) = dq_inv q"
  "dq_inv (q\<lparr>qdelay_old := b\<rparr>) = dq_inv q"
  "dq_inv (q\<lparr>current_qdelay := b\<rparr>) = dq_inv q"
  "dq_inv (q\<lparr>dq_count := b\<rparr>) = dq_inv q"
  "dq_inv (q\<lparr>dq_tstamp := b\<rparr>) = dq_inv q"
  "dq_inv (q\<lparr>avg_dq_rate := b\<rparr>) = dq_inv q"
  "dq_inv (q\<lparr>last_update := d\<rparr>) = dq_inv (q :: pie_queue)"
  by (simp_all add: dq_inv_def counted_def int_sized_def within_limits_def)

lemma pie_update_inv:
  assumes "pie_inv q" and "pie_update q = Inr q'"
  shows "pie_inv q' \<and> internal_queue q' = internal_queue q"
  using assms next_drop_prob_range
  by (auto simp: pie_inv_def pie_update_def Let_def rbind_Inr_iff)

lemma pie_update_loop_inv:
  "pie_inv q \<Longrightarrow> pie_update_loop now q = Inr q' \<Longrightarrow>
     pie_inv q' \<and> internal_queue q' = internal_queue q"
proof (induction now q rule: pie_update_loop.induct)
  case (1 now q)
  show ?case
  proof (cases "ucast t_update < now - last_update q")
    case False
    with "1.prems" show ?thesis by (simp add: pie_update_loop.simps [of now q])
  next
    case True
    with "1.prems"(2) obtain q1 where q1: "pie_update q = Inr q1" "pie_update_loop now q1 = Inr q'"
      by (auto simp: pie_update_loop.simps [of now q] rbind_Inr_iff)
    from pie_update_inv [OF "1.prems"(1) q1(1)] "1.IH" [OF True q1(1) _ q1(2)] show ?thesis
      by simp
  qed
qed

lemma calculate_drop_prob_inv:
  assumes "pie_inv (snd s)" and "calculate_drop_prob s = Inr s'"
  shows "pie_inv (snd s') \<and> internal_queue (snd s') = internal_queue (snd s)"
  using assms pie_update_loop_inv
  by (cases s) (auto simp: calculate_drop_prob_def rbind_Inr_iff split: prod.splits)

lemma drop_early_certain:
  "0 < burst_allowance q \<or> (qdelay_old q < qdelay_ref q div 2 \<and> drop_prob q < rnd (2 / 10)) \<Longrightarrow>
     drop_early (e, q) = Inr (False, e)"
  by (auto simp: drop_early_def)

lemma rate_sampled_base [simp]:
  "internal_queue (rate_sampled now b q) = internal_queue q"
  "drop_prob (rate_sampled now b q) = drop_prob q"
  "dq_inv (rate_sampled now b q) = dq_inv q"
  by (simp_all add: rate_sampled_def Let_def)

lemma count_departure_base [simp]:
  "internal_queue (count_departure now b r q) = internal_queue q"
  "drop_prob (count_departure now b r q) = drop_prob q"
  "dq_inv (count_departure now b r q) = dq_inv q"
  by (simp_all add: count_departure_def Let_def)

lemma pie_enqueue_shape:
  assumes inv: "pie_inv (snd s)" and len: "length (contents p) < 2 ^ 31"
    and run: "pie_enqueue p s = Inr s'"
  shows "pie_inv (snd s') \<and>
    (internal_queue (snd s') = internal_queue (snd s) \<or>
     internal_queue (snd s') = internal_queue (snd s) @ [p])"
proof -
  obtain e q where c: "calculate_drop_prob s = Inr (e, q)"
    using run by (auto simp: pie_enqueue_def rbind_Inr_iff)
  have q: "pie_inv q" "internal_queue q = internal_queue (snd s)"
    using calculate_drop_prob_inv [OF inv c] by simp_all
  have w: "word_sized (accept p q)" "word_sized q" "counted (accept p q)" "counted q"
    using q(1) len word_sized_accept int_word_sized counted_accept
    by (auto simp: pie_inv_def dq_inv_def)
  have "s' = (e, q) \<or> (\<exists>e' x. s' = (e', x) \<and> (assert_good q = Inr x \<or> assert_good (accept p q) = Inr x))"
    using run c by (fastforce simp: pie_enqueue_def rbind_Inr_iff split: if_splits)
  then show ?thesis
    using q w by (auto simp: assert_good_exact pie_inv_def accept_def split: if_splits)
qed

lemma pie_dequeue_shape:
  assumes inv: "pie_inv q" and run: "pie_dequeue (e, q) = Inr (p, s')"
  shows "pie_inv (snd s') \<and> internal_queue q = p # internal_queue (snd s')"
proof -
  obtain now e1 where t: "timestamp e = (now, e1)"
    by force
  from run obtain q1 b where d: "dropping_dequeue q = Inr (p, q1)" and
    c: "calculate_drop_prob (e1, count_departure (ucast now) b p q1) = Inr s'"
    by (auto simp: pie_dequeue_def rbind_Inr_iff t)
  obtain rest where q1: "q1 = pop_packet p rest q" "internal_queue q = p # rest"
    using dropping_dequeue_shape [OF d] by blast
  have "dq_inv q1"
    using dropping_dequeue_sub [of q p q1] inv d by (simp add: pie_inv_def)
  then have "pie_inv (count_departure (ucast now) b p q1)"
    using inv q1 by (simp add: pie_inv_def pop_packet_def)
  then show ?thesis
    using calculate_drop_prob_inv [OF _ c] q1 by simp
qed

lemma pie_new_inv:
  assumes "pie_new args e = Inr (e', q)"
  shows "pie_inv q \<and> internal_queue q = []"
proof -
  obtain now e1 where t: "timestamp e = (now, e1)"
    by force
  from assms obtain b where b: "dropping_new args = Inr b" and
    q: "dropping_queue.truncate q = b" "drop_prob q = 0"
    by (auto simp: pie_new_def rbind_Inr_iff dropping_queue.defs t split: if_splits)
  have "dq_inv q = dq_inv b" "internal_queue q = internal_queue b"
    by (simp_all add: q(1) [symmetric] dq_inv_def counted_def int_sized_def within_limits_def
        dropping_queue.defs)
  with dropping_new_inv [OF b] q(2) show ?thesis by (simp add: pie_inv_def)
qed

interpretation pie: packet_queue pie_enqueue pie_dequeue "\<lambda>s. dropping_empty (snd s)"
  "\<lambda>s. internal_queue (snd s)" "\<lambda>s. pie_inv (snd s)"
proof (unfold_locales, goal_cases)
  case (1 s)
  show ?case by (simp add: dropping_empty_def)
next
  case (2 s p s')
  from pie_enqueue_shape [OF 2] show ?case by auto
next
  case (3 s p s')
  obtain e q where s: "s = (e, q)" by force
  with 3 pie_dequeue_shape [of q e p s'] show ?case by simp
qed

section \<open>Runs\<close>

text \<open>
  C34: the drop probability of a PIE queue is one. From its construction on, after any
  calls that return, at any clock readings and any random numbers, it lies between 0 and 1 for
  all the roundings of \<open>double\<close> arithmetic, the counters count what is queued, the configured
  limits hold, and what was delivered and what is still queued is, in order, a part of what was
  offered.
\<close>

theorem pie_probability:
  assumes "pie_new args e = Inr s"
    and "\<forall>p \<in> set (offered cs). length (contents p) < 2 ^ 31"
    and "queue_run pie_enqueue pie_dequeue cs s = Inr (out, s')"
  shows "0 \<le> drop_prob (snd s') \<and> drop_prob (snd s') \<le> 1 \<and> dq_inv (snd s') \<and>
    subseq (out @ internal_queue (snd s')) (offered cs)"
proof -
  have i: "pie_inv (snd s)" "internal_queue (snd s) = []"
    using pie_new_inv [of args e "fst s" "snd s"] assms(1) by simp_all
  from pie.run_sub [OF i(1) assms(2,3)] i(2) show ?thesis
    by (simp add: pie_inv_def)
qed

definition sample_calls :: "queue_call list" where
  "sample_calls = [Enqueue (QueuedPacket ''abc'' 0), Enqueue (QueuedPacket ''de'' 1), Dequeue]"

lemma sample_calls_run:
  "map_sum id fst
     (rbind (pie_new ''packets=10, qdelay_ref=20, max_burst=100'' (sample_env [0, 10, 40, 50]))
       (queue_run pie_enqueue pie_dequeue sample_calls)) = Inr [QueuedPacket ''abc'' 0]"
  by code_simp

lemma map_sum_Inr_iff: "map_sum f g x = Inr y \<longleftrightarrow> (\<exists>z. x = Inr z \<and> y = g z)"
  by (cases x) auto

lemma pie_probability_witness:
  "\<exists>s s'. pie_new ''packets=10, qdelay_ref=20, max_burst=100'' (sample_env [0, 10, 40, 50]) =
      Inr s \<and>
     queue_run pie_enqueue pie_dequeue sample_calls s = Inr ([QueuedPacket ''abc'' 0], s') \<and>
     0 \<le> drop_prob (snd s') \<and> drop_prob (snd s') \<le> 1 \<and> dq_inv (snd s') \<and>
     subseq ([QueuedPacket ''abc'' 0] @ internal_queue (snd s')) (offered sample_calls)"
proof -
  obtain s out s' where
    n: "pie_new ''packets=10, qdelay_ref=20, max_burst=100'' (sample_env [0, 10, 40, 50]) = Inr s"
    and r: "queue_run pie_enqueue pie_dequeue sample_calls s = Inr (out, s')"
    and out: "out = [QueuedPacket ''abc'' 0]"
    using sample_calls_run by (auto simp: map_sum_Inr_iff rbind_Inr_iff)
  have "\<forall>p \<in> set (offered sample_calls). length (contents p) < 2 ^ 31"
    by (simp add: sample_calls_def)
  from n r out pie_probability [OF n this r] show ?thesis by blast
qed

end
