(* ===== verification/Any_Queue.thy ===== *)
theory Any_Queue
  imports Codel_Queue Pie_Queue
begin

text \<open>
  The queue disciplines behind one interface: the five classes derived from
  \<open>AbstractPacketQueue\<close>, the virtual calls a link makes on them, and \<open>get_packet_queue\<close> of
  \<open>src/src/frontend/linkshell.cc\<close>, which builds the one the command line names. The object is
  paired with the environment its clock and random numbers come from.

  The contract \<open>packet_queue\<close> holds of the dispatching calls because it holds of each class.
\<close>

datatype any_queue =
    Infinite infinite_queue
  | DropTail dropping_queue
  | DropHead dropping_queue
  | CoDel codel_queue
  | PIE pie_queue

definition with_queue :: "env \<Rightarrow> ('q \<Rightarrow> any_queue) \<Rightarrow> 'q res \<Rightarrow> (env \<times> any_queue) res" where
  "with_queue e C r = rbind r (\<lambda>q. Inr (e, C q))"

fun any_enqueue :: "queued_packet \<Rightarrow> env \<times> any_queue \<Rightarrow> (env \<times> any_queue) res" where
  "any_enqueue p (e, Infinite q) = with_queue e Infinite (infinite_enqueue p q)"
| "any_enqueue p (e, DropTail q) = with_queue e DropTail (droptail_enqueue p q)"
| "any_enqueue p (e, DropHead q) = with_queue e DropHead (drophead_enqueue p q)"
| "any_enqueue p (e, CoDel q) = rbind (codel_enqueue p (e, q)) (\<lambda>(e', q'). Inr (e', CoDel q'))"
| "any_enqueue p (e, PIE q) = rbind (pie_enqueue p (e, q)) (\<lambda>(e', q'). Inr (e', PIE q'))"

fun any_dequeue :: "env \<times> any_queue \<Rightarrow> (queued_packet \<times> (env \<times> any_queue)) res" where
  "any_dequeue (e, Infinite q) = rbind (infinite_dequeue q) (\<lambda>(p, q'). Inr (p, (e, Infinite q')))"
| "any_dequeue (e, DropTail q) = rbind (dropping_dequeue q) (\<lambda>(p, q'). Inr (p, (e, DropTail q')))"
| "any_dequeue (e, DropHead q) = rbind (dropping_dequeue q) (\<lambda>(p, q'). Inr (p, (e, DropHead q')))"
| "any_dequeue (e, CoDel q) =
     rbind (codel_dequeue (e, q)) (\<lambda>(p, (e', q')). Inr (p, (e', CoDel q')))"
| "any_dequeue (e, PIE q) =
     rbind (pie_dequeue (e, q)) (\<lambda>(p, (e', q')). Inr (p, (e', PIE q')))"

fun any_empty :: "env \<times> any_queue \<Rightarrow> bool" where
  "any_empty (e, Infinite q) = infinite_empty q"
| "any_empty (e, DropTail q) = dropping_empty q"
| "any_empty (e, DropHead q) = dropping_empty q"
| "any_empty (e, CoDel q) = dropping_empty q"
| "any_empty (e, PIE q) = dropping_empty q"

fun any_to_string :: "any_queue \<Rightarrow> string" where
  "any_to_string (Infinite q) = infinite_to_string q"
| "any_to_string (DropTail q) = droptail_to_string q"
| "any_to_string (DropHead q) = drophead_to_string q"
| "any_to_string (CoDel q) = codel_to_string q"
| "any_to_string (PIE q) = pie_to_string q"

text \<open>\<open>usage_error\<close> prints the usage and throws.\<close>

definition usage_error :: "'a res" where
  "usage_error = Inl (RuntimeError ''invalid arguments'')"

definition get_packet_queue :: "string \<Rightarrow> string \<Rightarrow> env \<Rightarrow> (env \<times> any_queue) res" where
  "get_packet_queue type args e =
     (if type = ''infinite'' then with_queue e Infinite (infinite_new args)
      else if type = ''droptail'' then with_queue e DropTail (dropping_new args)
      else if type = ''drophead'' then with_queue e DropHead (dropping_new args)
      else if type = ''codel'' then with_queue e CoDel (codel_new args)
      else if type = ''pie'' then rbind (pie_new args e) (\<lambda>(e', q). Inr (e', PIE q))
      else usage_error)"

fun any_packets :: "env \<times> any_queue \<Rightarrow> queued_packet list" where
  "any_packets (e, Infinite q) = q"
| "any_packets (e, DropTail q) = internal_queue q"
| "any_packets (e, DropHead q) = internal_queue q"
| "any_packets (e, CoDel q) = internal_queue q"
| "any_packets (e, PIE q) = internal_queue q"

fun any_inv :: "env \<times> any_queue \<Rightarrow> bool" where
  "any_inv (e, Infinite q) = True"
| "any_inv (e, DropTail q) = dq_inv q"
| "any_inv (e, DropHead q) = dq_inv q"
| "any_inv (e, CoDel q) = dq_inv q"
| "any_inv (e, PIE q) = pie_inv q"

lemma any_enqueue_sub:
  assumes inv: "any_inv s" and len: "length (contents p) < 2 ^ 31" and run: "any_enqueue p s = Inr s'"
  shows "any_inv s' \<and> subseq (any_packets s') (any_packets s @ [p])"
proof -
  obtain e a where s: "s = (e, a)" by force
  show ?thesis
  proof (cases a)
    case (Infinite q)
    with run s show ?thesis by (auto simp: with_queue_def infinite_enqueue_def)
  next
    case (DropTail q)
    with run s obtain q' where "droptail_enqueue p q = Inr q'" "s' = (e, DropTail q')"
      by (auto simp: with_queue_def rbind_Inr_iff)
    with droptail.enqueue_sub [of q p q'] inv len s DropTail show ?thesis by simp
  next
    case (DropHead q)
    with run s obtain q' where "drophead_enqueue p q = Inr q'" "s' = (e, DropHead q')"
      by (auto simp: with_queue_def rbind_Inr_iff)
    with drophead.enqueue_sub [of q p q'] inv len s DropHead show ?thesis by simp
  next
    case (CoDel q)
    with run s obtain e' q' where "codel_enqueue p (e, q) = Inr (e', q')" "s' = (e', CoDel q')"
      by (auto simp: rbind_Inr_iff)
    with codel.enqueue_sub [of "(e, q)" p "(e', q')"] inv len s CoDel show ?thesis by simp
  next
    case (PIE q)
    with run s obtain e' q' where "pie_enqueue p (e, q) = Inr (e', q')" "s' = (e', PIE q')"
      by (auto simp: rbind_Inr_iff)
    with pie.enqueue_sub [of "(e, q)" p "(e', q')"] inv len s PIE show ?thesis by simp
  qed
qed

lemma any_dequeue_sub:
  assumes inv: "any_inv s" and run: "any_dequeue s = Inr (p, s')"
  shows "any_inv s' \<and> (\<exists>rest. any_packets s = p # rest \<and> subseq (any_packets s') rest)"
proof -
  obtain e a where s: "s = (e, a)" by force
  show ?thesis
  proof (cases a)
    case (Infinite q)
    with run s show ?thesis by (cases q) auto
  next
    case (DropTail q)
    with run s obtain q' where "dropping_dequeue q = Inr (p, q')" "s' = (e, DropTail q')"
      by (auto simp: rbind_Inr_iff)
    with droptail.dequeue_sub [of q p q'] inv s DropTail show ?thesis by simp
  next
    case (DropHead q)
    with run s obtain q' where "dropping_dequeue q = Inr (p, q')" "s' = (e, DropHead q')"
      by (auto simp: rbind_Inr_iff)
    with drophead.dequeue_sub [of q p q'] inv s DropHead show ?thesis by simp
  next
    case (CoDel q)
    with run s obtain e' q' where "codel_dequeue (e, q) = Inr (p, (e', q'))" "s' = (e', CoDel q')"
      by (auto simp: rbind_Inr_iff)
    with codel.dequeue_sub [of "(e, q)" p "(e', q')"] inv s CoDel show ?thesis by simp
  next
    case (PIE q)
    with run s obtain e' q' where "pie_dequeue (e, q) = Inr (p, (e', q'))" "s' = (e', PIE q')"
      by (auto simp: rbind_Inr_iff)
    with pie.dequeue_sub [of "(e, q)" p "(e', q')"] inv s PIE show ?thesis by simp
  qed
qed

lemma any_empty_iff: "any_empty s \<longleftrightarrow> any_packets s = []"
  by (cases s rule: any_empty.cases) (simp_all add: infinite_empty_def dropping_empty_def)

interpretation any: packet_queue any_enqueue any_dequeue any_empty any_packets any_inv
  by unfold_locales (fact any_empty_iff any_enqueue_sub any_dequeue_sub)+

text \<open>Every constructor starts with an empty queue that satisfies the invariant.\<close>

lemma get_packet_queue_inv:
  assumes "get_packet_queue type args e = Inr s"
  shows "any_inv s \<and> any_packets s = []"
proof -
  have base: "dq_inv q \<and> internal_queue q = []" if "dropping_new args = Inr q" for q
    using that by (rule dropping_new_inv)
  show ?thesis
    using assms base
    by (auto dest: codel_new_inv pie_new_inv simp: get_packet_queue_def with_queue_def rbind_Inr_iff infinite_new_def
        usage_error_def split: if_splits)
qed

end
