(* ===== verification/Link_Queue.thy ===== *)
theory Link_Queue
  imports Any_Queue
begin

text \<open>
  \<open>LinkQueue\<close> of \<open>src/src/frontend/link_queue.cc\<close>: a link that may carry \<open>PACKET_SIZE\<close> bytes at
  each delivery time of a trace. The packet queue behind it is an argument \<open>Q\<close>, the virtual
  calls of \<open>AbstractPacketQueue\<close>; the lemmas about it are proved once, in the contexts of the
  contracts of \<open>Packet_Queue\<close>. The log file is the list of the lines written, the two live graphs
  the lists of the calls made on them. The value \<open>timestamp()\<close> returned is the argument \<open>now\<close>.

  The catch-up loop \<open>rationalize\<close> runs until the next delivery time is in the future, so it is a
  \<^theory_text>\<open>partial_function\<close> whose result \<^const>\<open>None\<close> would be a loop that never ends.
\<close>

record 'q queue_ops =
  op_enqueue :: "queued_packet \<Rightarrow> 'q \<Rightarrow> 'q res"
  op_dequeue :: "'q \<Rightarrow> (queued_packet \<times> 'q) res"
  op_empty :: "'q \<Rightarrow> bool"

text \<open>The lines of the log: \<open>t + size\<close>, \<open>t # size\<close> and \<open>t - size delay\<close>.\<close>

datatype log_line =
    Arrival u64 nat
  | Opportunity u64
  | Departure u64 nat u64

record 'q link_queue =
  next_delivery :: nat
  schedule :: "u64 list"
  base_timestamp :: u64
  packet_queue :: 'q
  packet_in_transit :: queued_packet
  packet_in_transit_bytes_left :: nat
  output_queue :: "string list"
  link_log :: "log_line list option"
  throughput_graph :: "(nat \<times> nat) list option"
  delay_graph :: "(nat \<times> u32) list option"
  repeat_trace :: bool
  finished :: bool

definition MTU :: nat where "MTU = 1504"

section \<open>Loading the trace\<close>

text \<open>The lines \<open>getline\<close> delivers: a final line without a newline counts if it is not empty.\<close>

fun getlines :: "string \<Rightarrow> string \<Rightarrow> string list" where
  "getlines acc [] = (if acc = [] then [] else [acc])"
| "getlines acc (c # cs) =
     (if c = CHR 0x0A then acc # getlines [] cs else getlines (acc @ [c]) cs)"

fun load_lines :: "string \<Rightarrow> string list \<Rightarrow> u64 list \<Rightarrow> u64 list res" where
  "load_lines filename [] sched = Inr sched"
| "load_lines filename (line # lines) sched =
     (if line = [] then Inl (RuntimeError (filename @ '': invalid empty line''))
      else rbind (myatoi line 10) (\<lambda>v.
        let ms = word_of_int v :: u64 in
        if sched \<noteq> [] \<and> ms < last sched
        then Inl (RuntimeError (filename @ '': timestamps must be monotonically nondecreasing''))
        else load_lines filename lines (sched @ [ms])))"

definition load_schedule :: "string \<Rightarrow> string option \<Rightarrow> u64 list res" where
  "load_schedule filename file =
     (case file of
        None \<Rightarrow> Inl (RuntimeError (filename @ '': error opening for reading''))
      | Some text \<Rightarrow>
          rbind (load_lines filename (getlines [] text) []) (\<lambda>sched.
            if sched = [] then Inl (RuntimeError (filename @ '': no valid timestamps found''))
            else if last sched = 0
            then Inl (RuntimeError (filename @ '': trace must last for a nonzero amount of time''))
            else Inr sched))"

text \<open>The constructor; \<open>logging\<close>, \<open>graph_throughput\<close> and \<open>graph_delay\<close> say what is recorded.\<close>

definition link_new ::
  "string \<Rightarrow> string option \<Rightarrow> bool \<Rightarrow> bool \<Rightarrow> bool \<Rightarrow> bool \<Rightarrow> 'q \<Rightarrow> u64 \<Rightarrow> 'q link_queue res" where
  "link_new filename file logging repeat graph_throughput graph_delay q now =
     rbind (load_schedule filename file) (\<lambda>sched.
       Inr \<lparr>next_delivery = 0, schedule = sched, base_timestamp = now, packet_queue = q,
            packet_in_transit = QueuedPacket '''' 0, packet_in_transit_bytes_left = 0,
            output_queue = [], link_log = (if logging then Some [] else None),
            throughput_graph = (if graph_throughput then Some [] else None),
            delay_graph = (if graph_delay then Some [] else None),
            repeat_trace = repeat, finished = False\<rparr>)"

section \<open>Recording\<close>

definition record_arrival :: "u64 \<Rightarrow> nat \<Rightarrow> 'q link_queue \<Rightarrow> 'q link_queue" where
  "record_arrival arrival pkt_size l =
     l\<lparr>link_log := map_option (\<lambda>g. g @ [Arrival arrival pkt_size]) (link_log l),
       throughput_graph := map_option (\<lambda>g. g @ [(1, pkt_size)]) (throughput_graph l)\<rparr>"

definition next_delivery_time :: "'q link_queue \<Rightarrow> u64 res" where
  "next_delivery_time l =
     (if finished l then Inr (- 1)
      else if next_delivery l < length (schedule l)
      then Inr (schedule l ! next_delivery l + base_timestamp l)
      else Inl OutOfRange)"

definition record_departure_opportunity :: "'q link_queue \<Rightarrow> 'q link_queue res" where
  "record_departure_opportunity l =
     rbind (case link_log l of
              None \<Rightarrow> Inr l
            | Some g \<Rightarrow> rbind (next_delivery_time l) (\<lambda>t.
                Inr (l\<lparr>link_log := Some (g @ [Opportunity t])\<rparr>)))
       (\<lambda>l1. Inr (l1\<lparr>throughput_graph :=
               map_option (\<lambda>g. g @ [(0, MTU)]) (throughput_graph l1)\<rparr>))"

definition record_departure :: "u64 \<Rightarrow> queued_packet \<Rightarrow> 'q link_queue \<Rightarrow> 'q link_queue" where
  "record_departure departure_time packet l =
     (let size = length (contents packet); delay = departure_time - arrival_time packet in
      l\<lparr>link_log := map_option (\<lambda>g. g @ [Departure departure_time size delay]) (link_log l),
        throughput_graph := map_option (\<lambda>g. g @ [(2, size)]) (throughput_graph l),
        delay_graph := map_option (\<lambda>g. g @ [(0, ucast delay)]) (delay_graph l)\<rparr>)"

section \<open>Delivering\<close>

definition use_a_delivery_opportunity :: "'q link_queue \<Rightarrow> 'q link_queue res" where
  "use_a_delivery_opportunity l0 =
     rbind (record_departure_opportunity l0) (\<lambda>l1.
     let l2 = l1\<lparr>next_delivery := (next_delivery l1 + 1) mod length (schedule l1)\<rparr>
     in Inr (if next_delivery l2 = 0 then
               if repeat_trace l2
               then l2\<lparr>base_timestamp := base_timestamp l2 + last (schedule l2)\<rparr>
               else l2\<lparr>finished := True\<rparr>
             else l2))"

text \<open>Put a packet in transit if none is: \<^const>\<open>None\<close> is the \<open>break\<close> on an empty queue.\<close>

definition load_transit :: "'q queue_ops \<Rightarrow> 'q link_queue \<Rightarrow> 'q link_queue option res" where
  "load_transit Q l =
     (if packet_in_transit_bytes_left l = 0 then
        if op_empty Q (packet_queue l) then Inr None
        else rbind (op_dequeue Q (packet_queue l)) (\<lambda>(p, q').
          Inr (Some (l\<lparr>packet_queue := q', packet_in_transit := p,
                      packet_in_transit_bytes_left := length (contents p) mod 2 ^ 32\<rparr>)))
      else Inr (Some l))"

text \<open>The four assertions of the inner loop.\<close>

definition transit_ok :: "u64 \<Rightarrow> 'q link_queue \<Rightarrow> bool" where
  "transit_ok this_delivery_time l \<longleftrightarrow>
     arrival_time (packet_in_transit l) \<le> this_delivery_time \<and>
     packet_in_transit_bytes_left l \<le> MTU \<and>
     0 < packet_in_transit_bytes_left l \<and>
     packet_in_transit_bytes_left l \<le> length (contents (packet_in_transit l))"

text \<open>Send up to \<open>amount\<close> bytes of the packet in transit; when it is through, hand it over.\<close>

definition send_some :: "u64 \<Rightarrow> nat \<Rightarrow> 'q link_queue \<Rightarrow> 'q link_queue" where
  "send_some this_delivery_time amount l0 =
     (let l = l0\<lparr>packet_in_transit_bytes_left := packet_in_transit_bytes_left l0 - amount\<rparr>
      in if packet_in_transit_bytes_left l = 0
         then (record_departure this_delivery_time (packet_in_transit l) l)
                \<lparr>output_queue := output_queue l @ [contents (packet_in_transit l)]\<rparr>
         else l)"

text \<open>\<open>while ( bytes_left_in_this_delivery > 0 )\<close>.\<close>

function deliver :: "'q queue_ops \<Rightarrow> u64 \<Rightarrow> nat \<Rightarrow> 'q link_queue \<Rightarrow> 'q link_queue res" where
  "deliver Q t left l =
     (if left = 0 then Inr l
      else case load_transit Q l of
        Inl e \<Rightarrow> Inl e
      | Inr None \<Rightarrow> Inr l
      | Inr (Some l1) \<Rightarrow>
          if \<not> transit_ok t l1 then Inl AssertFail
          else let amount = min left (packet_in_transit_bytes_left l1)
               in deliver Q t (left - amount) (send_some t amount l1))"
  by pat_completeness auto
termination
  by (relation "measure (\<lambda>(Q, t, left, l). left)") (auto simp: transit_ok_def)

declare deliver.simps [simp del]

partial_function (option) rationalize ::
  "'q queue_ops \<Rightarrow> u64 \<Rightarrow> 'q link_queue \<Rightarrow> 'q link_queue res option" where
  "rationalize Q now l =
     (case next_delivery_time l of
        Inl e \<Rightarrow> Some (Inl e)
      | Inr t \<Rightarrow>
          if t \<le> now then
            (case use_a_delivery_opportunity l of
               Inl e \<Rightarrow> Some (Inl e)
             | Inr l1 \<Rightarrow>
                 (case deliver Q t MTU l1 of
                    Inl e \<Rightarrow> Some (Inl e)
                  | Inr l2 \<Rightarrow> rationalize Q now l2))
          else Some (Inr l))"

section \<open>The calls of the packet shell\<close>

definition read_packet ::
  "'q queue_ops \<Rightarrow> u64 \<Rightarrow> string \<Rightarrow> 'q link_queue \<Rightarrow> 'q link_queue res option" where
  "read_packet Q now pkt l =
     (if MTU < length pkt
      then Some (Inl (RuntimeError ''packet size is greater than maximum''))
      else map_option (\<lambda>r. rbind r (\<lambda>l1.
             let l2 = record_arrival now (length pkt) l1
             in rbind (op_enqueue Q (QueuedPacket pkt now) (packet_queue l2)) (\<lambda>q.
                  Inr (l2\<lparr>packet_queue := q\<rparr>))))
           (rationalize Q now l))"

text \<open>\<open>fd.write\<close> of each packet of the output queue, oldest first.\<close>

fun write_all :: "(string \<Rightarrow> unit res) \<Rightarrow> string list \<Rightarrow> unit res" where
  "write_all write [] = Inr ()"
| "write_all write (x # xs) = rbind (write x) (\<lambda>_. write_all write xs)"

definition write_packets ::
  "(string \<Rightarrow> unit res) \<Rightarrow> 'q link_queue \<Rightarrow> (string list \<times> 'q link_queue) res" where
  "write_packets write l =
     rbind (write_all write (output_queue l)) (\<lambda>_. Inr (output_queue l, l\<lparr>output_queue := []\<rparr>))"

definition wait_time ::
  "'q queue_ops \<Rightarrow> u64 \<Rightarrow> 'q link_queue \<Rightarrow> (u32 \<times> 'q link_queue) res option" where
  "wait_time Q now l =
     map_option (\<lambda>r. rbind r (\<lambda>l1. rbind (next_delivery_time l1) (\<lambda>t.
       Inr (if t \<le> now then 0 else ucast (t - now), l1))))
     (rationalize Q now l)"

definition pending_output :: "'q link_queue \<Rightarrow> bool" where
  "pending_output l \<longleftrightarrow> output_queue l \<noteq> []"

section \<open>The clock of the link\<close>

text \<open>
  What the trace loader establishes, and the range of times in which no sum of the clock wraps
  around: one more period of the trace after \<open>now\<close> still fits 64 bits.
\<close>

definition schedule_ok :: "u64 list \<Rightarrow> bool" where
  "schedule_ok s \<longleftrightarrow> s \<noteq> [] \<and> sorted s \<and> 0 < last s"

definition clock_ok :: "u64 \<Rightarrow> 'q link_queue \<Rightarrow> bool" where
  "clock_ok now l \<longleftrightarrow>
     schedule_ok (schedule l) \<and> next_delivery l < length (schedule l) \<and>
     unat now + unat (last (schedule l)) < 2 ^ 64 \<and>
     unat (base_timestamp l) + unat (last (schedule l)) < 2 ^ 64"

text \<open>The next delivery time as a number, and how far the loop still has to go.\<close>

definition delivery_nat :: "'q link_queue \<Rightarrow> nat" where
  "delivery_nat l =
     (if finished l then 2 ^ 64 - 1
      else unat (schedule l ! next_delivery l) + unat (base_timestamp l))"

definition loop_measure :: "u64 \<Rightarrow> ('q link_queue \<times> 'q link_queue) set" where
  "loop_measure now =
     measures [\<lambda>l. if finished l then 0 else 1,
               \<lambda>l. unat now + 1 - unat (base_timestamp l),
               \<lambda>l. length (schedule l) - next_delivery l]"

lemma wf_loop_measure: "wf (loop_measure now)"
  by (simp add: loop_measure_def)

lemma schedule_nth_le_last:
  "sorted s \<Longrightarrow> i < length s \<Longrightarrow> s ! i \<le> last s" for s :: "u64 list"
  by (metis diff_less last_conv_nth length_0_conv length_greater_0_conv less_Suc_eq_le
      less_nat_zero_code Suc_diff_1 sorted_nth_mono zero_less_one)

lemma next_delivery_time_nat:
  assumes "clock_ok now l"
  shows "\<exists>t. next_delivery_time l = Inr t \<and> unat t = delivery_nat l"
proof -
  have "unat (schedule l ! next_delivery l) \<le> unat (last (schedule l))"
    using assms schedule_nth_le_last [of "schedule l" "next_delivery l"]
    by (simp add: clock_ok_def schedule_ok_def word_le_nat_alt)
  then have "unat (schedule l ! next_delivery l) + unat (base_timestamp l) < 2 ^ 64"
    using assms by (simp add: clock_ok_def)
  then show ?thesis
    using assms
    by (auto simp: next_delivery_time_def delivery_nat_def clock_ok_def unat_word_ariths
        unsigned_minus_1_eq_mask mask_eq_exp_minus_1)
qed

text \<open>One pass of the outer loop.\<close>

definition link_step :: "'q queue_ops \<Rightarrow> u64 \<Rightarrow> 'q link_queue \<Rightarrow> 'q link_queue res" where
  "link_step Q t l = rbind (use_a_delivery_opportunity l) (deliver Q t MTU)"

lemma rationalize_unfold:
  "rationalize Q now l =
     (case next_delivery_time l of
        Inl e \<Rightarrow> Some (Inl e)
      | Inr t \<Rightarrow> if t \<le> now then
                  (case link_step Q t l of
                     Inl e \<Rightarrow> Some (Inl e)
                   | Inr l2 \<Rightarrow> rationalize Q now l2)
                else Some (Inr l))"
  by (subst rationalize.simps) (auto simp: link_step_def split: sum.splits)

text \<open>
  What the log says: the number of opportunities and the bytes of the departed packets; the
  bytes handed over but not yet written.
\<close>

fun is_opportunity :: "log_line \<Rightarrow> bool" where
  "is_opportunity (Opportunity t) = True"
| "is_opportunity _ = False"

fun departure_size :: "log_line \<Rightarrow> nat" where
  "departure_size (Departure t n d) = n"
| "departure_size _ = 0"

definition opportunities :: "'q link_queue \<Rightarrow> nat" where
  "opportunities l = (case link_log l of None \<Rightarrow> 0 | Some g \<Rightarrow> length (filter is_opportunity g))"

definition departed :: "'q link_queue \<Rightarrow> nat" where
  "departed l = (case link_log l of None \<Rightarrow> 0 | Some g \<Rightarrow> sum_list (map departure_size g))"

definition output_bytes :: "'q link_queue \<Rightarrow> nat" where
  "output_bytes l = sum_list (map length (output_queue l))"

text \<open>Delivering does not touch the clock, and logs each packet it hands over.\<close>

definition same_clock :: "'q link_queue \<Rightarrow> 'q link_queue \<Rightarrow> bool" where
  "same_clock l l' \<longleftrightarrow>
     schedule l' = schedule l \<and> next_delivery l' = next_delivery l \<and>
     base_timestamp l' = base_timestamp l \<and> finished l' = finished l \<and>
     repeat_trace l' = repeat_trace l \<and>
     (link_log l' = None \<longleftrightarrow> link_log l = None) \<and> opportunities l' = opportunities l \<and>
     (link_log l \<noteq> None \<longrightarrow> departed l' + output_bytes l = departed l + output_bytes l')"

lemma same_clock_refl [simp]: "same_clock l l"
  by (simp add: same_clock_def)

lemma same_clock_trans: "same_clock l l1 \<Longrightarrow> same_clock l1 l2 \<Longrightarrow> same_clock l l2"
  by (auto simp: same_clock_def)

lemma load_transit_clock: "load_transit Q l = Inr (Some l1) \<Longrightarrow> same_clock l l1"
  by (auto simp: load_transit_def rbind_Inr_iff same_clock_def opportunities_def departed_def
      output_bytes_def split: if_splits)

lemma send_some_clock: "same_clock l (send_some t n l)"
  by (auto simp: send_some_def record_departure_def same_clock_def opportunities_def departed_def
      output_bytes_def Let_def split: option.splits)

lemma deliver_clock: "deliver Q t n l = Inr l' \<Longrightarrow> same_clock l l'"
proof (induction Q t n l rule: deliver.induct)
  case (1 Q t left l)
  show ?case
  proof (cases "left = 0 \<or> load_transit Q l = Inr None")
    case True
    then show ?thesis
      using "1.prems" by (subst (asm) deliver.simps) (auto split: if_splits)
  next
    case False
    then obtain l1 where l1: "load_transit Q l = Inr (Some l1)" and ok: "transit_ok t l1"
      and left: "left \<noteq> 0"
      and rec: "deliver Q t (left - min left (packet_in_transit_bytes_left l1))
                  (send_some t (min left (packet_in_transit_bytes_left l1)) l1) = Inr l'"
      using "1.prems"
      by (subst (asm) deliver.simps) (auto split: sum.splits option.splits if_splits simp: Let_def)
    have "same_clock (send_some t (min left (packet_in_transit_bytes_left l1)) l1) l'"
      by (rule "1.IH" [OF left l1]) (use ok rec in auto)
    then show ?thesis
      using load_transit_clock [OF l1] send_some_clock same_clock_trans by blast
  qed
qed

lemma use_opportunity_shape:
  assumes "clock_ok now l"
  shows "\<exists>l1. use_a_delivery_opportunity l = Inr l1 \<and> schedule l1 = schedule l \<and>
      repeat_trace l1 = repeat_trace l \<and> packet_queue l1 = packet_queue l \<and>
      packet_in_transit l1 = packet_in_transit l \<and>
      packet_in_transit_bytes_left l1 = packet_in_transit_bytes_left l \<and>
      output_queue l1 = output_queue l \<and> delay_graph l1 = delay_graph l \<and>
      (\<exists>t. next_delivery_time l = Inr t \<and>
        link_log l1 = map_option (\<lambda>g. g @ [Opportunity t]) (link_log l)) \<and>
      next_delivery l1 = (next_delivery l + 1) mod length (schedule l) \<and>
      base_timestamp l1 =
        (if next_delivery l1 = 0 \<and> repeat_trace l
         then base_timestamp l + last (schedule l) else base_timestamp l) \<and>
      finished l1 = (finished l \<or> next_delivery l1 = 0 \<and> \<not> repeat_trace l)"
proof -
  obtain t where "next_delivery_time l = Inr t"
    using next_delivery_time_nat [OF assms] by blast
  then show ?thesis
    by (cases "link_log l")
      (auto simp: use_a_delivery_opportunity_def record_departure_opportunity_def Let_def)
qed

text \<open>
  An opportunity taken before \<open>now\<close> keeps the clock in range, does not move the next delivery
  back, and brings the loop closer to its end.
\<close>

lemma use_opportunity_progress:
  assumes ok: "clock_ok now l" and t: "next_delivery_time l = Inr t" and le: "t \<le> now"
    and use: "use_a_delivery_opportunity l = Inr l1"
  shows "clock_ok now l1 \<and> delivery_nat l \<le> delivery_nat l1 \<and> (l1, l) \<in> loop_measure now \<and>
    \<not> finished l"
proof -
  let ?n = "next_delivery l" and ?s = "schedule l" and ?b = "base_timestamp l"
  have ut: "unat t = delivery_nat l"
    using next_delivery_time_nat [OF ok] t by simp
  have le': "delivery_nat l \<le> unat now"
    using le ut by (simp add: word_le_nat_alt)
  have last: "0 < unat (last ?s)" and sorted: "sorted ?s" and ne: "?s \<noteq> []"
    using ok by (auto simp: clock_ok_def schedule_ok_def word_less_nat_alt)
  have fin: "\<not> finished l"
    using le' ok last by (auto simp: delivery_nat_def clock_ok_def)
  have shape: "schedule l1 = ?s" "repeat_trace l1 = repeat_trace l"
      "next_delivery l1 = (?n + 1) mod length ?s"
      "base_timestamp l1 = (if next_delivery l1 = 0 \<and> repeat_trace l then ?b + last ?s else ?b)"
      "finished l1 = (finished l \<or> next_delivery l1 = 0 \<and> \<not> repeat_trace l)"
    using use_opportunity_shape [OF ok] use by auto
  have n: "?n < length ?s"
    using ok by (simp add: clock_ok_def)
  have t_eq: "delivery_nat l = unat (?s ! ?n) + unat ?b"
    using fin by (simp add: delivery_nat_def)
  show ?thesis
  proof (cases "?n + 1 = length ?s")
    case False
    then have n1: "next_delivery l1 = ?n + 1"
      using shape(3) n by simp
    then have "?s ! ?n \<le> ?s ! (?n + 1)"
      using sorted n False by (simp add: sorted_nth_mono)
    then show ?thesis
      using shape n1 ok fin t_eq n False
      by (simp add: clock_ok_def delivery_nat_def loop_measure_def word_le_nat_alt)
  next
    case True
    then have n1: "next_delivery l1 = 0"
      using shape(3) by simp
    have t_last: "delivery_nat l = unat (last ?s) + unat ?b"
      using t_eq True ne by (simp add: last_conv_nth flip: True)
    show ?thesis
    proof (cases "repeat_trace l")
      case False
      then show ?thesis
        using shape n1 ok fin t_last le' ne
        by (auto simp: clock_ok_def delivery_nat_def loop_measure_def)
    next
      case True
      have sum: "unat (?b + last ?s) = unat ?b + unat (last ?s)"
        using ok by (simp add: clock_ok_def unat_word_ariths)
      have *: "unat ?b + unat (last ?s) \<le> unat now"
        using le' t_last by simp
      have "unat ?b + unat (last ?s) + unat (last ?s) < 2 ^ 64"
        using * ok by (simp add: clock_ok_def)
      then show ?thesis
        using shape n1 ok fin t_last * last ne True sum
        by (auto simp: clock_ok_def delivery_nat_def loop_measure_def)
    qed
  qed
qed

lemma same_clock_ok: "same_clock l l' \<Longrightarrow> clock_ok now l' = clock_ok now l"
  and same_clock_nat: "same_clock l l' \<Longrightarrow> delivery_nat l' = delivery_nat l"
  and same_clock_time: "same_clock l l' \<Longrightarrow> next_delivery_time l' = next_delivery_time l"
  and same_clock_measure: "same_clock l l' \<Longrightarrow> (l, k) \<in> loop_measure now \<Longrightarrow> (l', k) \<in> loop_measure now"
  by (simp_all add: same_clock_def clock_ok_def delivery_nat_def next_delivery_time_def loop_measure_def)

lemma link_step_progress:
  assumes "clock_ok now l" and "next_delivery_time l = Inr t" and "t \<le> now"
    and "link_step Q t l = Inr l2"
  shows "clock_ok now l2 \<and> delivery_nat l \<le> delivery_nat l2 \<and> (l2, l) \<in> loop_measure now"
proof -
  obtain l1 where "use_a_delivery_opportunity l = Inr l1" and "deliver Q t MTU l1 = Inr l2"
    using assms(4) by (auto simp: link_step_def rbind_Inr_iff)
  then show ?thesis
    using use_opportunity_progress [OF assms(1-3)] deliver_clock [of Q t MTU l1 l2]
    by (metis same_clock_ok same_clock_nat same_clock_measure)
qed

text \<open>
  The rule for the catch-up loop: it always returns, an invariant of its passes holds when it
  returns without an error, and then the next delivery is in the future.
\<close>

lemma rationalize_rule:
  assumes "clock_ok now l" and "P l"
    and step: "\<And>t l. clock_ok now l \<Longrightarrow> P l \<Longrightarrow> next_delivery_time l = Inr t \<Longrightarrow> t \<le> now \<Longrightarrow>
      case link_step Q t l of Inl e \<Rightarrow> E e | Inr l2 \<Rightarrow> P l2"
  shows "\<exists>r. rationalize Q now l = Some r \<and>
    (case r of Inl e \<Rightarrow> E e
     | Inr l' \<Rightarrow> P l' \<and> clock_ok now l' \<and> (\<exists>t. next_delivery_time l' = Inr t \<and> now < t))"
  using assms(1,2)
proof (induction l rule: wf_induct_rule [OF wf_loop_measure [of now]])
  case (1 l)
  obtain t where t: "next_delivery_time l = Inr t"
    using next_delivery_time_nat [OF "1.prems"(1)] by blast
  show ?case
  proof (cases "t \<le> now")
    case False
    then show ?thesis
      using t "1.prems" by (subst rationalize_unfold) auto
  next
    case True
    note st = step [OF "1.prems" t True]
    show ?thesis
    proof (cases "link_step Q t l")
      case (Inl e)
      then show ?thesis using t True st by (subst rationalize_unfold) simp
    next
      case (Inr l2)
      have "clock_ok now l2" and "(l2, l) \<in> loop_measure now"
        using link_step_progress [OF "1.prems"(1) t True Inr] by auto
      moreover have "P l2"
        using st Inr by simp
      ultimately obtain r where "rationalize Q now l2 = Some r" and
        "case r of Inl e \<Rightarrow> E e
         | Inr l' \<Rightarrow> P l' \<and> clock_ok now l' \<and> (\<exists>t. next_delivery_time l' = Inr t \<and> now < t)"
        using "1.IH" by blast
      then show ?thesis
        using t True Inr by (subst rationalize_unfold) simp
    qed
  qed
qed

lemma rationalize_returns: "clock_ok now l \<Longrightarrow> \<exists>r. rationalize Q now l = Some r"
  using rationalize_rule [where P = "\<lambda>_. True" and E = "\<lambda>_. True" and Q = Q]
  by (auto split: sum.splits)

section \<open>The packets of the link\<close>

definition queue_ops_of ::
  "(queued_packet \<Rightarrow> 'q \<Rightarrow> 'q res) \<Rightarrow> ('q \<Rightarrow> (queued_packet \<times> 'q) res) \<Rightarrow> ('q \<Rightarrow> bool) \<Rightarrow> 'q queue_ops"
  where
  "queue_ops_of enqueue dequeue is_empty =
     \<lparr>op_enqueue = enqueue, op_dequeue = dequeue, op_empty = is_empty\<rparr>"

lemma queue_ops_of_simps [simp]:
  "op_enqueue (queue_ops_of e d i) = e" "op_dequeue (queue_ops_of e d i) = d"
  "op_empty (queue_ops_of e d i) = i"
  by (simp_all add: queue_ops_of_def)

text \<open>
  The packets not yet through the link, oldest first; the payloads it has still to hand over,
  those in its output queue included; and the bytes it has carried since it last wrote.
\<close>

definition held :: "('q \<Rightarrow> queued_packet list) \<Rightarrow> 'q link_queue \<Rightarrow> queued_packet list" where
  "held pkts l =
     (if packet_in_transit_bytes_left l = 0 then [] else [packet_in_transit l])
       @ pkts (packet_queue l)"

definition flow :: "('q \<Rightarrow> queued_packet list) \<Rightarrow> 'q link_queue \<Rightarrow> string list" where
  "flow pkts l = output_queue l @ map contents (held pkts l)"

definition carried :: "'q link_queue \<Rightarrow> nat" where
  "carried l =
     output_bytes l +
     (if packet_in_transit_bytes_left l = 0 then 0
      else length (contents (packet_in_transit l)) - packet_in_transit_bytes_left l)"

text \<open>Every packet held arrived by \<open>T\<close> and fits one delivery opportunity.\<close>

definition held_ok ::
  "('q \<Rightarrow> bool) \<Rightarrow> ('q \<Rightarrow> queued_packet list) \<Rightarrow> nat \<Rightarrow> 'q link_queue \<Rightarrow> bool" where
  "held_ok qinv pkts T l \<longleftrightarrow>
     qinv (packet_queue l) \<and>
     (packet_in_transit_bytes_left l = 0 \<or>
      packet_in_transit_bytes_left l \<le> length (contents (packet_in_transit l))) \<and>
     (\<forall>p \<in> set (held pkts l). contents p \<noteq> [] \<and> length (contents p) \<le> MTU \<and>
        unat (arrival_time p) \<le> T)"

definition link_inv ::
  "('q \<Rightarrow> bool) \<Rightarrow> ('q \<Rightarrow> queued_packet list) \<Rightarrow> 'q link_queue \<Rightarrow> bool" where
  "link_inv qinv pkts l \<longleftrightarrow> held_ok qinv pkts (delivery_nat l) l"

lemma held_ok_mono: "held_ok qinv pkts T l \<Longrightarrow> T \<le> T' \<Longrightarrow> held_ok qinv pkts T' l"
  by (fastforce simp: held_ok_def)

text \<open>The rule for the inner loop.\<close>

lemma deliver_rule:
  assumes "P n l"
    and error: "\<And>n l e. P n l \<Longrightarrow> 0 < n \<Longrightarrow> load_transit Q l = Inl e \<Longrightarrow> E e"
    and stop: "\<And>n l. P n l \<Longrightarrow> 0 < n \<Longrightarrow> load_transit Q l = Inr None \<Longrightarrow> R l"
    and finish: "\<And>l. P 0 l \<Longrightarrow> R l"
    and step: "\<And>n l l1. P n l \<Longrightarrow> 0 < n \<Longrightarrow> load_transit Q l = Inr (Some l1) \<Longrightarrow>
      if transit_ok t l1
      then P (n - min n (packet_in_transit_bytes_left l1))
             (send_some t (min n (packet_in_transit_bytes_left l1)) l1)
      else E AssertFail"
  shows "case deliver Q t n l of Inl e \<Rightarrow> E e | Inr l' \<Rightarrow> R l'"
  using assms(1)
proof (induction n arbitrary: l rule: less_induct)
  case (less n)
  show ?case
  proof (cases "n = 0")
    case True
    then show ?thesis using less.prems finish by (subst deliver.simps) simp
  next
    case False
    then have n: "0 < n" by simp
    consider (err) e where "load_transit Q l = Inl e" | (none) "load_transit Q l = Inr None"
      | (some) l1 where "load_transit Q l = Inr (Some l1)"
      by (cases "load_transit Q l") (metis, metis option.exhaust)
    then show ?thesis
    proof cases
      case err
      then show ?thesis using n error [OF less.prems n err] by (subst deliver.simps) simp
    next
      case none
      then show ?thesis using n stop [OF less.prems n none] by (subst deliver.simps) simp
    next
      case some
      note st = step [OF less.prems n some]
      show ?thesis
      proof (cases "transit_ok t l1")
        case False
        then show ?thesis using n some st by (subst deliver.simps) simp
      next
        case True
        have "n - min n (packet_in_transit_bytes_left l1) < n"
          using n True by (simp add: transit_ok_def)
        from less.IH [OF this] show ?thesis
          using n some st True by (subst deliver.simps) (simp add: Let_def)
      qed
    qed
  qed
qed

lemma send_some_flow:
  assumes "transit_ok t l" and "0 < n"
    and "n' = min n (packet_in_transit_bytes_left l)"
  shows "flow pkts (send_some t n' l) = flow pkts l"
    and "carried (send_some t n' l) = carried l + n'"
  using assms
  by (auto simp: send_some_def flow_def held_def carried_def output_bytes_def record_departure_def
      transit_ok_def Let_def)

lemma send_some_held_ok:
  "held_ok qinv pkts T l \<Longrightarrow> transit_ok t l \<Longrightarrow> held_ok qinv pkts T (send_some t n l)"
  by (auto simp: held_ok_def held_def send_some_def record_departure_def transit_ok_def Let_def)

text \<open>
  With a log, the bytes departed and those of the packet in transit already sent never exceed
  what the opportunities used could carry.
\<close>

definition capacity_ok :: "'q link_queue \<Rightarrow> bool" where
  "capacity_ok l \<longleftrightarrow>
     (link_log l = None \<or>
      departed l + carried l \<le> MTU * opportunities l + output_bytes l)"

lemma use_opportunity_log:
  assumes "clock_ok now l" and "use_a_delivery_opportunity l = Inr l1"
  shows "(link_log l1 = None \<longleftrightarrow> link_log l = None) \<and> departed l1 = departed l \<and>
    (link_log l \<noteq> None \<longrightarrow> opportunities l1 = opportunities l + 1) \<and>
    carried l1 = carried l \<and> output_bytes l1 = output_bytes l"
  using use_opportunity_shape [OF assms(1)] assms(2)
  by (auto simp: departed_def opportunities_def carried_def output_bytes_def split: option.splits)

lemma clock_ok_other:
  "clock_ok now l \<Longrightarrow> unat now' + unat (last (schedule l)) < 2 ^ 64 \<Longrightarrow> clock_ok now' l"
  by (simp add: clock_ok_def)

text \<open>
  A session of the packet shell with a link: the calls it makes, each with the time at which it
  was made. \<open>WritePackets\<close> yields the packets written to the other side.
\<close>

datatype link_call = ReadPacket string | WritePackets | WaitTime

definition link_call ::
  "'q queue_ops \<Rightarrow> u64 \<Rightarrow> link_call \<Rightarrow> 'q link_queue \<Rightarrow> (string list \<times> 'q link_queue) res option"
  where
  "link_call Q now c l =
     (case c of
        ReadPacket s \<Rightarrow> map_option (\<lambda>r. rbind r (\<lambda>l'. Inr ([], l'))) (read_packet Q now s l)
      | WritePackets \<Rightarrow> Some (write_packets (\<lambda>_. Inr ()) l)
      | WaitTime \<Rightarrow>
          map_option (\<lambda>r. rbind r (\<lambda>(w, l'). Inr ([], l'))) (wait_time Q now l))"

fun link_run ::
  "'q queue_ops \<Rightarrow> (u64 \<times> link_call) list \<Rightarrow> 'q link_queue \<Rightarrow>
     (string list \<times> 'q link_queue) res option"
  where
  "link_run Q [] l = Some (Inr ([], l))"
| "link_run Q ((now, c) # cs) l =
     (case link_call Q now c l of
        None \<Rightarrow> None
      | Some (Inl e) \<Rightarrow> Some (Inl e)
      | Some (Inr (out, l1)) \<Rightarrow>
          map_option (\<lambda>r. rbind r (\<lambda>(out', l2). Inr (out @ out', l2))) (link_run Q cs l1))"

fun inputs_of :: "(u64 \<times> link_call) list \<Rightarrow> string list" where
  "inputs_of [] = []"
| "inputs_of ((now, ReadPacket s) # cs) = s # inputs_of cs"
| "inputs_of ((now, WritePackets) # cs) = inputs_of cs"
| "inputs_of ((now, WaitTime) # cs) = inputs_of cs"

text \<open>The calls are sane for a trace that lasts \<open>last_ms\<close>: times in range, packets of 1 to 1504 bytes.\<close>

definition calls_ok :: "u64 \<Rightarrow> (u64 \<times> link_call) list \<Rightarrow> bool" where
  "calls_ok last_ms cs \<longleftrightarrow>
     list_all (\<lambda>(now, c). unat now + unat last_ms < 2 ^ 64 \<and>
       (case c of ReadPacket s \<Rightarrow> s \<noteq> [] \<and> length s \<le> MTU | _ \<Rightarrow> True)) cs"

lemma write_all_ok [simp]: "write_all (\<lambda>_. Inr ()) xs = Inr ()"
  by (induction xs) auto

lemma record_arrival_frame:
  "packet_queue (record_arrival t n l) = packet_queue l"
  "packet_in_transit (record_arrival t n l) = packet_in_transit l"
  "packet_in_transit_bytes_left (record_arrival t n l) = packet_in_transit_bytes_left l"
  "flow pkts (record_arrival t n l) = flow pkts l"
  "clock_ok now (record_arrival t n l) = clock_ok now l"
  "delivery_nat (record_arrival t n l) = delivery_nat l"
  "schedule (record_arrival t n l) = schedule l"
  "capacity_ok (record_arrival t n l) = capacity_ok l"
  by (auto simp: record_arrival_def flow_def held_def clock_ok_def delivery_nat_def
      capacity_ok_def departed_def opportunities_def carried_def output_bytes_def
      split: option.splits)

lemma packet_queue_update_frame:
  "clock_ok now (l\<lparr>packet_queue := q\<rparr>) = clock_ok now l"
  "delivery_nat (l\<lparr>packet_queue := q\<rparr>) = delivery_nat l"
  "capacity_ok (l\<lparr>packet_queue := q\<rparr>) = capacity_ok l"
  by (auto simp: clock_ok_def delivery_nat_def
      capacity_ok_def departed_def opportunities_def carried_def output_bytes_def)

text \<open>What a queue that loses nothing does.\<close>

definition fifo_law ::
  "(queued_packet \<Rightarrow> 'q \<Rightarrow> 'q res) \<Rightarrow> ('q \<Rightarrow> (queued_packet \<times> 'q) res) \<Rightarrow>
     ('q \<Rightarrow> queued_packet list) \<Rightarrow> ('q \<Rightarrow> bool) \<Rightarrow> bool" where
  "fifo_law enqueue dequeue packets qinv \<longleftrightarrow>
     (\<forall>q p q'. qinv q \<longrightarrow> dequeue q = Inr (p, q') \<longrightarrow> packets q = p # packets q') \<and>
     (\<forall>q p q'. qinv q \<longrightarrow> enqueue p q = Inr q' \<longrightarrow> packets q' = packets q @ [p])"

lemma write_frame:
  "clock_ok now (l\<lparr>output_queue := []\<rparr>) = clock_ok now l"
  "link_inv qinv pkts (l\<lparr>output_queue := []\<rparr>) = link_inv qinv pkts l"
  "schedule (l\<lparr>output_queue := []\<rparr>) = schedule l"
  "output_queue l @ flow pkts (l\<lparr>output_queue := []\<rparr>) = flow pkts l"
  "capacity_ok (l\<lparr>output_queue := []\<rparr>) = capacity_ok l"
  by (auto simp: flow_def link_inv_def held_ok_def held_def clock_ok_def delivery_nat_def
      capacity_ok_def departed_def opportunities_def carried_def output_bytes_def)

section \<open>The link over any packet queue\<close>

context packet_queue
begin

text \<open>Putting the next packet in transit keeps everything, in order.\<close>

lemma load_transit_none:
  "load_transit (queue_ops_of enqueue dequeue is_empty) l = Inr None \<Longrightarrow> held packets l = []"
  by (auto simp: load_transit_def held_def empty_iff rbind_Inr_iff split: if_splits)

lemma load_transit_error:
  assumes "load_transit (queue_ops_of enqueue dequeue is_empty) l = Inl e" and "held_ok inv packets T l"
  shows "\<exists>q. inv q \<and> packets q \<noteq> [] \<and> dequeue q = Inl e"
  using assms by (auto simp: load_transit_def empty_iff held_ok_def rbind_Inl_iff split: if_splits)

lemma load_transit_some:
  assumes load: "load_transit (queue_ops_of enqueue dequeue is_empty) l = Inr (Some l1)"
    and ok: "held_ok inv packets T l"
  shows "held_ok inv packets T l1 \<and> 0 < packet_in_transit_bytes_left l1 \<and> carried l1 = carried l \<and>
    subseq (flow packets l1) (flow packets l) \<and>
    (fifo_law enqueue dequeue packets inv \<longrightarrow>
      flow packets l1 = flow packets l)"
proof (cases "packet_in_transit_bytes_left l = 0")
  case False
  then show ?thesis using load ok by (simp add: load_transit_def)
next
  case True
  then obtain p q' where deq: "dequeue (packet_queue l) = Inr (p, q')"
    and l1: "l1 = l\<lparr>packet_queue := q', packet_in_transit := p,
               packet_in_transit_bytes_left := length (contents p) mod 2 ^ 32\<rparr>"
    using load by (auto simp: load_transit_def rbind_Inr_iff split: if_splits)
  have inv: "inv (packet_queue l)"
    and all: "\<forall>p \<in> set (packets (packet_queue l)).
      contents p \<noteq> [] \<and> length (contents p) \<le> MTU \<and> unat (arrival_time p) \<le> T"
    using ok True by (auto simp: held_ok_def held_def)
  have p: "contents p \<noteq> [] \<and> length (contents p) \<le> MTU \<and> unat (arrival_time p) \<le> T"
    and q': "\<forall>p \<in> set (packets q').
      contents p \<noteq> [] \<and> length (contents p) \<le> MTU \<and> unat (arrival_time p) \<le> T"
    using dequeue_all [OF inv deq all] by simp_all
  have len: "length (contents p) mod 2 ^ 32 = length (contents p)"
    using p by (simp add: MTU_def)
  have sub: "subseq (p # packets q') (packets (packet_queue l))"
    by (rule dequeue_subseq [OF inv deq])
  have "subseq (map contents (p # packets q')) (map contents (packets (packet_queue l)))"
    using sub by (rule subseq_map)
  moreover have "flow packets l1 = output_queue l @ map contents (p # packets q')"
    using p len by (simp add: l1 flow_def held_def)
  moreover have "flow packets l = output_queue l @ map contents (packets (packet_queue l))"
    using True by (simp add: flow_def held_def)
  ultimately have flow: "subseq (flow packets l1) (flow packets l)"
    by (simp only: list_emb_append_mono subseq_order.refl)
  show ?thesis
    using p q' len flow True dequeue_inv [OF inv deq] inv deq
    by (auto simp: fifo_law_def l1 held_ok_def held_def flow_def carried_def output_bytes_def)
qed

text \<open>
  One delivery opportunity: what was held and fits stays well formed, nothing is reordered, and
  either the opportunity is used to its last byte or the link is left empty. The only error is
  one of the queue's own \<open>dequeue\<close>: no assertion of the link fails.
\<close>

lemma deliver_spec:
  assumes ok: "held_ok inv packets (unat t) l"
  shows "case deliver (queue_ops_of enqueue dequeue is_empty) t n l of
      Inl e \<Rightarrow> \<exists>q. inv q \<and> packets q \<noteq> [] \<and> dequeue q = Inl e
    | Inr l' \<Rightarrow> held_ok inv packets (unat t) l' \<and> subseq (flow packets l') (flow packets l) \<and>
        (fifo_law enqueue dequeue packets inv \<longrightarrow>
          flow packets l' = flow packets l) \<and>
        (carried l' = carried l + n \<or> carried l' \<le> carried l + n \<and> held packets l' = [])"
proof (rule deliver_rule [where P = "\<lambda>k l'. k \<le> n \<and> held_ok inv packets (unat t) l' \<and>
      subseq (flow packets l') (flow packets l) \<and>
      (fifo_law enqueue dequeue packets inv \<longrightarrow>
          flow packets l' = flow packets l) \<and>
      carried l' + k = carried l + n"], goal_cases)
  case 1
  then show ?case using ok by simp
next
  case (2 k l' e)
  then show ?case using load_transit_error by blast
next
  case (3 k l')
  then show ?case using load_transit_none by fastforce
next
  case (4 l')
  then show ?case by simp
next
  case (5 k l' l1)
  let ?fifo = "fifo_law enqueue dequeue packets inv"
  have l1: "held_ok inv packets (unat t) l1" "0 < packet_in_transit_bytes_left l1"
      "carried l1 = carried l'" "subseq (flow packets l1) (flow packets l')"
      "?fifo \<Longrightarrow> flow packets l1 = flow packets l'"
    using load_transit_some [OF 5(3)] 5(1) by blast+
  have "packet_in_transit l1 \<in> set (held packets l1)"
    using l1(2) by (simp add: held_def)
  then have tr: "transit_ok t l1"
    using l1(1,2) unfolding held_ok_def transit_ok_def by (force simp: word_le_nat_alt)
  note send = send_some_flow [OF tr 5(2) refl]
  have "subseq (flow packets l1) (flow packets l)"
    using l1(4) 5(1) by (blast intro: subseq_order.trans)
  moreover have "?fifo \<longrightarrow> flow packets l1 = flow packets l"
  proof
    assume f: ?fifo
    have "flow packets l' = flow packets l"
      using 5(1) f by simp
    then show "flow packets l1 = flow packets l"
      using l1(5) [OF f] by simp
  qed
  moreover have "k - min k (packet_in_transit_bytes_left l1) \<le> n"
    using 5(1) by (meson diff_le_self le_trans)
  ultimately show ?case
    using tr send send_some_held_ok [OF l1(1) tr] 5(1) l1(3) by simp
qed

text \<open>One pass of the catch-up loop, then the whole loop.\<close>

lemma link_step_spec:
  assumes clock: "clock_ok now l" and inv: "link_inv inv packets l"
    and t: "next_delivery_time l = Inr t" and le: "t \<le> now"
  shows "case link_step (queue_ops_of enqueue dequeue is_empty) t l of
      Inl e \<Rightarrow> \<exists>q. inv q \<and> packets q \<noteq> [] \<and> dequeue q = Inl e
    | Inr l2 \<Rightarrow> link_inv inv packets l2 \<and> schedule l2 = schedule l \<and>
        subseq (flow packets l2) (flow packets l) \<and>
        (fifo_law enqueue dequeue packets inv \<longrightarrow>
          flow packets l2 = flow packets l) \<and>
        (carried l2 = carried l + MTU \<or> carried l2 \<le> carried l + MTU \<and> held packets l2 = []) \<and>
        (capacity_ok l \<longrightarrow> capacity_ok l2)"
proof -
  obtain l1 where use: "use_a_delivery_opportunity l = Inr l1"
    using use_opportunity_shape [OF clock] by blast
  note shape = use_opportunity_shape [OF clock, unfolded use sum.inject]
  note progress = use_opportunity_progress [OF clock t le use]
  have t_nat: "unat t = delivery_nat l"
    using next_delivery_time_nat [OF clock] t by simp
  have flow1: "flow packets l1 = flow packets l"
    using shape by (auto simp: flow_def held_def)
  have "held_ok inv packets (unat t) l1"
    using inv shape unfolding t_nat link_inv_def held_ok_def by (auto simp: held_def)
  note spec = deliver_spec [OF this, where n = MTU]
  show ?thesis
  proof (cases "deliver (queue_ops_of enqueue dequeue is_empty) t MTU l1")
    case (Inl e)
    then show ?thesis using spec use by (simp add: link_step_def)
  next
    case (Inr l2)
    have same: "same_clock l1 l2"
      using deliver_clock [OF Inr] .
    have ok2: "held_ok inv packets (unat t) l2"
      and carried: "carried l2 \<le> carried l1 + MTU"
      using spec Inr by auto
    have inv2: "link_inv inv packets l2"
      unfolding link_inv_def
      by (rule held_ok_mono [OF ok2]) (use progress same_clock_nat [OF same] t_nat in simp)
    have sched: "schedule l2 = schedule l"
      using same shape by (auto simp: same_clock_def)
    note log = use_opportunity_log [OF clock use]
    have cap: "capacity_ok l \<longrightarrow> capacity_ok l2"
      using log same carried by (auto simp: capacity_ok_def same_clock_def)
    show ?thesis
      using spec Inr inv2 sched cap log flow1 by (simp add: link_step_def use)
  qed
qed

lemma rationalize_spec:
  assumes clock: "clock_ok now l" and inv: "link_inv inv packets l"
  shows "\<exists>r. rationalize (queue_ops_of enqueue dequeue is_empty) now l = Some r \<and>
    (case r of
       Inl e \<Rightarrow> \<exists>q. inv q \<and> packets q \<noteq> [] \<and> dequeue q = Inl e
     | Inr l' \<Rightarrow> clock_ok now l' \<and> link_inv inv packets l' \<and> schedule l' = schedule l \<and>
        unat now < delivery_nat l' \<and>
        subseq (flow packets l') (flow packets l) \<and>
        (fifo_law enqueue dequeue packets inv \<longrightarrow>
          flow packets l' = flow packets l) \<and>
        (capacity_ok l \<longrightarrow> capacity_ok l'))"
proof -
  let ?P = "\<lambda>l'. link_inv inv packets l' \<and> schedule l' = schedule l \<and>
        subseq (flow packets l') (flow packets l) \<and>
        (fifo_law enqueue dequeue packets inv \<longrightarrow>
          flow packets l' = flow packets l) \<and> (capacity_ok l \<longrightarrow> capacity_ok l')"
  let ?E = "\<lambda>e. \<exists>q. inv q \<and> packets q \<noteq> [] \<and> dequeue q = Inl e"
  let ?Q = "queue_ops_of enqueue dequeue is_empty"
  have "\<exists>r. rationalize ?Q now l = Some r \<and>
    (case r of Inl e \<Rightarrow> ?E e
     | Inr l' \<Rightarrow> ?P l' \<and> clock_ok now l' \<and> (\<exists>t. next_delivery_time l' = Inr t \<and> now < t))"
  proof (rule rationalize_rule [OF clock], goal_cases)
    case 1
    then show ?case using inv by simp
  next
    case (2 t l1)
    then show ?case
      using link_step_spec [OF 2(1) _ 2(3,4)]
      by (cases "link_step ?Q t l1") (simp, simp, blast intro: subseq_order.trans)
  qed
  then obtain r where r: "rationalize ?Q now l = Some r"
    and post: "case r of Inl e \<Rightarrow> ?E e
     | Inr l' \<Rightarrow> ?P l' \<and> clock_ok now l' \<and> (\<exists>t. next_delivery_time l' = Inr t \<and> now < t)"
    by blast
  show ?thesis
  proof (cases r)
    case (Inl e)
    then show ?thesis using r post by simp
  next
    case (Inr l')
    then obtain t where "next_delivery_time l' = Inr t" "now < t" "clock_ok now l'" "?P l'"
      using post by auto
    moreover from this have "unat t = delivery_nat l'"
      using next_delivery_time_nat by fastforce
    ultimately show ?thesis
      using r Inr by (simp add: word_less_nat_alt)
  qed
qed

text \<open>The calls, then any sequence of them.\<close>

lemma read_packet_spec:
  assumes clock: "clock_ok now l" and inv: "link_inv inv packets l"
    and s: "s \<noteq> []" "length s \<le> MTU"
  shows "\<exists>r. read_packet (queue_ops_of enqueue dequeue is_empty) now s l = Some r \<and>
    (case r of
       Inl e \<Rightarrow> (\<exists>q. inv q \<and> packets q \<noteq> [] \<and> dequeue q = Inl e) \<or>
         (\<exists>p q. inv q \<and> length (contents p) \<le> MTU \<and> enqueue p q = Inl e)
     | Inr l' \<Rightarrow> clock_ok now l' \<and> link_inv inv packets l' \<and> schedule l' = schedule l \<and>
        subseq (flow packets l') (flow packets l @ [s]) \<and>
        (fifo_law enqueue dequeue packets inv \<longrightarrow>
          flow packets l' = flow packets l @ [s]) \<and>
        (capacity_ok l \<longrightarrow> capacity_ok l'))"
proof -
  let ?Q = "queue_ops_of enqueue dequeue is_empty" and ?p = "QueuedPacket s now"
  obtain r where r: "rationalize ?Q now l = Some r" using rationalize_spec [OF clock inv] by blast
  note spec = rationalize_spec [OF clock inv, unfolded r]
  show ?thesis
  proof (cases r)
    case (Inl e)
    then show ?thesis using r spec s by (simp add: read_packet_def MTU_def)
  next
    case (Inr l1)
    note post = spec [unfolded Inr, simplified]
    let ?l2 = "record_arrival now (length s) l1"
    have qinv: "inv (packet_queue l1)"
      using post by (simp add: link_inv_def held_ok_def)
    have len: "length (contents ?p) < 2 ^ 31" using s by (simp add: MTU_def)
    show ?thesis
    proof (cases "enqueue ?p (packet_queue l1)")
      case (Inl e)
      then show ?thesis
        using r Inr s qinv record_arrival_frame(1) [of now "length s" l1]
        by (auto simp: read_packet_def intro!: exI [of _ ?p] exI [of _ "packet_queue l1"])
    next
      case enq: (Inr q)
      let ?l3 = "?l2\<lparr>packet_queue := q\<rparr>"
      have res: "read_packet ?Q now s l = Some (Inr ?l3)"
        using r Inr s enq by (simp add: read_packet_def record_arrival_frame)
      have sub: "subseq (packets q) (packets (packet_queue l1) @ [?p])" and inv': "inv q"
        using enqueue_sub [OF qinv len enq] by auto
      have "subseq (map contents (packets q)) (map contents (packets (packet_queue l1) @ [?p]))"
        using sub by (rule subseq_map)
      then have "subseq (flow packets ?l3) (flow packets l1 @ [s])"
        by (auto simp: flow_def held_def record_arrival_def intro!: list_emb_append_mono)
      then have flow: "subseq (flow packets ?l3) (flow packets l @ [s])"
        using post by (meson list_emb_append_mono subseq_order.refl subseq_order.trans)
      have fifo: "flow packets ?l3 = flow packets l1 @ [s]"
        if "packets q = packets (packet_queue l1) @ [?p]"
        using that by (simp add: flow_def held_def record_arrival_def)
      have "\<forall>x \<in> set (packets q). contents x \<noteq> [] \<and> length (contents x) \<le> MTU \<and>
          unat (arrival_time x) \<le> delivery_nat l1"
        by (rule enqueue_all [OF qinv len enq])
          (use post s in \<open>auto simp: link_inv_def held_ok_def held_def\<close>)
      then have "link_inv inv packets ?l3"
        using post inv' by (auto simp: link_inv_def held_ok_def held_def record_arrival_def delivery_nat_def)
      moreover have "flow packets ?l3 = flow packets l @ [s]"
        if "fifo_law enqueue dequeue packets inv"
        using that post fifo qinv enq by (simp add: fifo_law_def)
      ultimately show ?thesis
        using res flow post by (simp add: record_arrival_frame packet_queue_update_frame)
    qed
  qed
qed

lemma link_call_spec:
  assumes clock: "clock_ok now l" and inv: "link_inv inv packets l"
    and c: "case c of ReadPacket s \<Rightarrow> s \<noteq> [] \<and> length s \<le> MTU | _ \<Rightarrow> True"
  shows "\<exists>r. link_call (queue_ops_of enqueue dequeue is_empty) now c l = Some r \<and>
    (case r of
       Inl e \<Rightarrow> (\<exists>q. inv q \<and> packets q \<noteq> [] \<and> dequeue q = Inl e) \<or>
         (\<exists>p q. inv q \<and> length (contents p) \<le> MTU \<and> enqueue p q = Inl e)
     | Inr (out, l') \<Rightarrow> clock_ok now l' \<and> link_inv inv packets l' \<and> schedule l' = schedule l \<and>
        subseq (out @ flow packets l') (flow packets l @ inputs_of [(now, c)]) \<and>
        (fifo_law enqueue dequeue packets inv \<longrightarrow>
          out @ flow packets l' = flow packets l @ inputs_of [(now, c)]) \<and>
        (capacity_ok l \<longrightarrow> capacity_ok l'))"
proof (cases c)
  case (ReadPacket s)
  then obtain r where "read_packet (queue_ops_of enqueue dequeue is_empty) now s l = Some r"
    using read_packet_spec [OF clock inv] c by auto
  then show ?thesis
    using read_packet_spec [OF clock inv, of s] c ReadPacket
    by (cases r) (simp_all add: link_call_def)
next
  case WritePackets
  then show ?thesis
    using clock inv by (simp add: link_call_def write_packets_def write_frame)
next
  case WaitTime
  obtain r where r: "rationalize (queue_ops_of enqueue dequeue is_empty) now l = Some r"
    using rationalize_spec [OF clock inv] by blast
  note spec = rationalize_spec [OF clock inv, unfolded r]
  show ?thesis
  proof (cases r)
    case (Inl e)
    then show ?thesis using r spec WaitTime by (simp add: link_call_def wait_time_def)
  next
    case (Inr l1)
    then obtain t where "next_delivery_time l1 = Inr t"
      using next_delivery_time_nat [of now l1] spec by auto
    then show ?thesis
      using r spec Inr WaitTime by (simp add: link_call_def wait_time_def)
  qed
qed

lemma link_run_spec:
  assumes "clock_ok now l" and "link_inv inv packets l" and "calls_ok (last (schedule l)) cs"
  shows "\<exists>r. link_run (queue_ops_of enqueue dequeue is_empty) cs l = Some r \<and>
    (case r of
       Inl e \<Rightarrow> (\<exists>q. inv q \<and> packets q \<noteq> [] \<and> dequeue q = Inl e) \<or>
         (\<exists>p q. inv q \<and> length (contents p) \<le> MTU \<and> enqueue p q = Inl e)
     | Inr (out, l') \<Rightarrow> link_inv inv packets l' \<and>
        subseq (out @ flow packets l') (flow packets l @ inputs_of cs) \<and>
        (fifo_law enqueue dequeue packets inv \<longrightarrow>
          out @ flow packets l' = flow packets l @ inputs_of cs) \<and>
        (capacity_ok l \<longrightarrow> capacity_ok l'))"
  using assms
proof (induction cs arbitrary: now l)
  case Nil
  then show ?case by simp
next
  case (Cons x cs)
  obtain now' c where x: "x = (now', c)" by fastforce
  have clock: "clock_ok now' l"
    using clock_ok_other [OF Cons.prems(1)] Cons.prems(3) x by (simp add: calls_ok_def)
  have c: "case c of ReadPacket s \<Rightarrow> s \<noteq> [] \<and> length s \<le> MTU | _ \<Rightarrow> True"
    using Cons.prems(3) x by (simp add: calls_ok_def)
  obtain r where r: "link_call (queue_ops_of enqueue dequeue is_empty) now' c l = Some r"
    using link_call_spec [OF clock Cons.prems(2) c] by blast
  note spec = link_call_spec [OF clock Cons.prems(2) c, unfolded r]
  show ?case
  proof (cases r)
    case (Inl e)
    then show ?thesis using r spec x by simp
  next
    case (Inr res)
    obtain out l1 where res: "res = (out, l1)" by fastforce
    have l1: "clock_ok now' l1" "link_inv inv packets l1" "calls_ok (last (schedule l1)) cs"
      using spec Inr res Cons.prems(3) x by (simp_all add: calls_ok_def)
    obtain r2 where r2: "link_run (queue_ops_of enqueue dequeue is_empty) cs l1 = Some r2"
      using Cons.IH [OF l1] by blast
    note IH = Cons.IH [OF l1, unfolded r2]
    have ins: "inputs_of (x # cs) = inputs_of [(now', c)] @ inputs_of cs"
      by (cases c) (simp_all add: x)
    show ?thesis
    proof (cases r2)
      case (Inl e)
      then show ?thesis using r r2 IH x Inr res by simp
    next
      case r2': (Inr res2)
      obtain out2 l2 where res2: "res2 = (out2, l2)" by fastforce
      have "subseq (out @ out2 @ flow packets l2) (out @ flow packets l1 @ inputs_of cs)"
        using IH r2' res2 by (simp add: list_emb_append_mono)
      moreover have "subseq ((out @ flow packets l1) @ inputs_of cs)
          ((flow packets l @ inputs_of [(now', c)]) @ inputs_of cs)"
        by (rule list_emb_append_mono) (use spec Inr res in simp_all)
      ultimately have sub: "subseq ((out @ out2) @ flow packets l2) (flow packets l @ inputs_of (x # cs))"
        unfolding ins by (metis append.assoc subseq_order.trans)
      have run: "link_run (queue_ops_of enqueue dequeue is_empty) (x # cs) l =
          Some (Inr (out @ out2, l2))"
        using r r2 Inr res r2' res2 x by simp
      have fifo: "(out @ out2) @ flow packets l2 = flow packets l @ inputs_of (x # cs)"
        if "fifo_law enqueue dequeue packets inv"
      proof -
        have "out2 @ flow packets l2 = flow packets l1 @ inputs_of cs"
          using IH r2' res2 that by simp
        moreover have "out @ flow packets l1 = flow packets l @ inputs_of [(now', c)]"
          using spec Inr res that by simp
        ultimately show ?thesis
          unfolding ins by (metis append.assoc)
      qed
      show ?thesis
        using run sub fifo IH spec Inr res r2' res2 by simp
    qed
  qed
qed

end

lemma fifo_law_infinite:
  "fifo_law infinite_enqueue infinite_dequeue (\<lambda>q. q) (\<lambda>_. True)"
  by (auto simp: fifo_law_def infinite.enqueue_fifo infinite.dequeue_fifo)

section \<open>The trace loader\<close>

lemma sorted_le_last: "sorted s \<Longrightarrow> x \<in> set s \<Longrightarrow> x \<le> last s" for s :: "u64 list"
  by (auto simp: in_set_conv_nth schedule_nth_le_last)

lemma load_lines_sorted:
  "load_lines fn ls sched = Inr s \<Longrightarrow> sorted sched \<Longrightarrow> sorted s"
proof (induction ls arbitrary: sched)
  case Nil
  then show ?case by simp
next
  case (Cons line lines)
  then obtain v where "myatoi line 10 = Inr v"
    and "\<not> (sched \<noteq> [] \<and> (word_of_int v :: u64) < last sched)"
    and rec: "load_lines fn lines (sched @ [word_of_int v]) = Inr s"
    by (auto simp: rbind_Inr_iff Let_def split: if_splits)
  moreover have "sorted (sched @ [word_of_int v :: u64])"
    using Cons.prems(2) calculation(2) sorted_le_last [of sched]
    by (fastforce simp: sorted_append not_less)
  ultimately show ?case using Cons.IH by blast
qed

lemma load_schedule_ok: "load_schedule fn file = Inr s \<Longrightarrow> schedule_ok s"
  by (auto simp: load_schedule_def schedule_ok_def rbind_Inr_iff word_neq_0_conv
      dest: load_lines_sorted split: option.splits if_splits)

lemma getlines_line:
  "CHR 0x0A \<notin> set x \<Longrightarrow> getlines acc (x @ CHR 0x0A # rest) = (acc @ x) # getlines [] rest"
  by (induction x arbitrary: acc) auto

text \<open>A trace file with the given delivery times, one per line.\<close>

definition trace_text :: "nat list \<Rightarrow> string" where
  "trace_text ts = concat (map (\<lambda>t. to_string t @ [CHR 0x0A]) ts)"

lemma to_string_no_newline: "CHR 0x0A \<notin> set (to_string n)"
proof
  assume "CHR 0x0A \<in> set (to_string n)"
  then have "is_digit_of 10 (CHR 0x0A)" using to_string_digits by blast
  then show False by (simp add: is_digit_of_def digit_value_def Let_def)
qed

lemma getlines_trace: "getlines [] (trace_text ts) = map to_string ts"
  by (induction ts) (simp_all add: trace_text_def getlines_line to_string_no_newline)

lemma load_lines_trace:
  "sorted (ps @ ts) \<Longrightarrow> \<forall>t \<in> set (ps @ ts). t < 2 ^ 63 \<Longrightarrow>
     load_lines fn (map to_string ts) (map of_nat ps) = Inr (map of_nat (ps @ ts))"
proof (induction ts arbitrary: ps)
  case Nil
  then show ?case by simp
next
  case (Cons t ts)
  have "\<not> (ps \<noteq> [] \<and> (of_nat t :: u64) < last (map of_nat ps))"
  proof
    assume a: "ps \<noteq> [] \<and> (of_nat t :: u64) < last (map of_nat ps)"
    then have ne: "ps \<noteq> []" by simp
    then have "last ps \<in> set ps" by simp
    then have "last ps \<le> t" "last ps < 2 ^ 63" "t < 2 ^ 63"
      using Cons.prems by (auto simp: sorted_append)
    then show False
      using a by (simp add: last_map [OF ne] word_less_nat_alt unat_of_nat_u64)
  qed
  moreover have "load_lines fn (map to_string ts) (map of_nat (ps @ [t])) =
      Inr (map of_nat ((ps @ [t]) @ ts))"
    by (rule Cons.IH) (use Cons.prems in simp_all)
  ultimately show ?case
    using Cons.prems by (simp add: to_string_nonempty myatoi_to_string Let_def)
qed

lemma link_new_init:
  assumes "link_new fn file logging rep gt gd q now = Inr l" and "qinv q" and "pkts q = []"
    and "unat now + unat (last (schedule l)) < 2 ^ 64"
  shows "clock_ok now l \<and> link_inv qinv pkts l \<and> flow pkts l = [] \<and> capacity_ok l"
  using assms
  by (auto simp: link_new_def rbind_Inr_iff clock_ok_def link_inv_def held_ok_def held_def flow_def
      capacity_ok_def departed_def opportunities_def carried_def output_bytes_def
      dest: load_schedule_ok [unfolded schedule_ok_def] load_schedule_ok)

section \<open>Properties\<close>

definition infinite_ops :: "infinite_queue queue_ops" where
  "infinite_ops = queue_ops_of infinite_enqueue infinite_dequeue infinite_empty"

definition any_ops :: "(env \<times> any_queue) queue_ops" where
  "any_ops = queue_ops_of any_enqueue any_dequeue any_empty"

text \<open>
  C1: with the infinite queue a link loses, invents, changes and reorders nothing.
  From its construction on, whatever calls a shell makes (at times in range, with packets of 1 to
  1504 bytes), every call returns normally, and the packets written, followed by those still in
  the link, are exactly the packets read, in the order they were read.
\<close>

theorem link_lossless:
  assumes "link_new fn file logging rep gt gd [] start = Inr l"
    and "unat start + unat (last (schedule l)) < 2 ^ 64"
    and "calls_ok (last (schedule l)) cs"
  shows "\<exists>out l'. link_run infinite_ops cs l = Some (Inr (out, l')) \<and>
    out @ flow (\<lambda>q. q) l' = inputs_of cs"
proof -
  have init: "clock_ok start l" "link_inv (\<lambda>_. True) (\<lambda>q. q) l" "flow (\<lambda>q. q) l = []"
    using link_new_init [OF assms(1) _ _ assms(2), of "\<lambda>_. True" "\<lambda>q. q"] by simp_all
  obtain r where r: "link_run infinite_ops cs l = Some r"
    using infinite.link_run_spec [OF init(1,2) assms(3)] by (auto simp: infinite_ops_def)
  note spec = infinite.link_run_spec [OF init(1,2) assms(3), folded infinite_ops_def, unfolded r]
  show ?thesis
  proof (cases r)
    case (Inl e)
    then consider (d) q where "q \<noteq> []" "infinite_dequeue q = Inl e"
      | (e) p q where "infinite_enqueue p q = Inl e"
      using spec by auto
    then show ?thesis
    proof cases
      case d
      then show ?thesis using infinite.dequeue_total [of q] by simp
    next
      case e
      then show ?thesis using infinite.enqueue_total [of p q] by simp
    qed
  next
    case (Inr res)
    then show ?thesis
      using spec r init(3) fifo_law_infinite by (cases res) auto
  qed
qed

definition sample_trace :: string where
  "sample_trace = trace_text [5, 5, 9]"

lemma link_lossless_witness:
  "\<exists>l out l'. link_new ''t'' (Some sample_trace) True True False False ([] :: infinite_queue) 2 = Inr l \<and>
     link_run infinite_ops [(3, ReadPacket ''ab''), (9, WritePackets), (20, WaitTime)] l =
       Some (Inr (out, l')) \<and>
     out @ flow (\<lambda>q. q) l' = [''ab'']"
proof -
  have "load_schedule ''t'' (Some sample_trace) = Inr [5, 5, 9]"
    by code_simp
  then obtain l where l: "link_new ''t'' (Some sample_trace) True True False False ([] :: infinite_queue) 2 = Inr l"
    and "schedule l = [5, 5, 9]"
    by (simp add: link_new_def)
  then show ?thesis
    using link_lossless [OF l, of "[(3, ReadPacket ''ab''), (9, WritePackets), (20, WaitTime)]"]
    by (simp add: calls_ok_def MTU_def)
qed



text \<open>
  C3: the link never carries more than its trace allows. In the log of any session
  that ends without an exception, with any queue discipline, the sizes on the departure lines add
  up to at most 1504 bytes for each delivery-opportunity line.
\<close>

theorem link_capacity:
  assumes "get_packet_queue type args e = Inr q"
    and "link_new fn file True rep gt gd q start = Inr l"
    and "unat start + unat (last (schedule l)) < 2 ^ 64"
    and "calls_ok (last (schedule l)) cs"
    and "link_run any_ops cs l = Some (Inr (out, l'))"
    and "link_log l' = Some g"
  shows "sum_list (map departure_size g) \<le> 1504 * length (filter is_opportunity g)"
proof -
  have init: "clock_ok start l" "link_inv any_inv any_packets l" "capacity_ok l"
    using link_new_init [OF assms(2) _ _ assms(3), of any_inv any_packets]
      get_packet_queue_inv [OF assms(1)] by simp_all
  have "capacity_ok l'"
    using any.link_run_spec [OF init(1,2) assms(4), folded any_ops_def] assms(5) init(3) by simp
  then show ?thesis
    using assms(6) by (simp add: capacity_ok_def departed_def opportunities_def carried_def MTU_def)
qed

text \<open>A session that reads two packets and writes what the trace lets through.\<close>

lemma sample_session:
  "\<exists>q l out l' g. get_packet_queue ''infinite'' [] (sample_env [0]) = Inr q \<and>
     link_new ''t'' (Some sample_trace) True True False False q 2 = Inr l \<and>
     unat (2 :: u64) + unat (last (schedule l)) < 2 ^ 64 \<and>
     calls_ok (last (schedule l)) [(3, ReadPacket ''ab''), (4, ReadPacket ''cd''), (8, WritePackets)] \<and>
     link_run any_ops [(3, ReadPacket ''ab''), (4, ReadPacket ''cd''), (8, WritePackets)] l =
       Some (Inr (out, l')) \<and> link_log l' = Some g"
proof -
  define q where "q = (sample_env [0], Infinite [])"
  have q: "get_packet_queue ''infinite'' [] (sample_env [0]) = Inr q"
    by (simp add: q_def get_packet_queue_def with_queue_def infinite_new_def)
  have "load_schedule ''t'' (Some sample_trace) = Inr [5, 5, 9]"
    by code_simp
  then obtain l where l: "link_new ''t'' (Some sample_trace) True True False False q 2 = Inr l"
    and sched: "schedule l = [5, 5, 9]" and shape: "next_delivery l = 0" "base_timestamp l = 2"
      "link_log l = Some []" "finished l = False" "packet_queue l = q" "throughput_graph l = None"
    by (simp add: link_new_def)
  then have range: "unat (2 :: u64) + unat (last (schedule l)) < 2 ^ 64"
      "calls_ok (last (schedule l)) [(3, ReadPacket ''ab''), (4, ReadPacket ''cd''), (8, WritePackets)]"
    by (simp_all add: calls_ok_def MTU_def)
  have "\<exists>out l' g. link_run any_ops [(3, ReadPacket ''ab''), (4, ReadPacket ''cd''), (8, WritePackets)] l =
      Some (Inr (out, l')) \<and> link_log l' = Some g"
    by (simp add: link_call_def read_packet_def write_packets_def MTU_def
        rationalize.simps next_delivery_time_def sched shape any_ops_def record_arrival_def q_def
        with_queue_def infinite_enqueue_def)
  then show ?thesis
    using q l range by blast
qed

lemma link_capacity_witness:
  "\<exists>q l out l' g. get_packet_queue ''infinite'' [] (sample_env [0]) = Inr q \<and>
     link_new ''t'' (Some sample_trace) True True False False q 2 = Inr l \<and>
     link_run any_ops [(3, ReadPacket ''ab''), (4, ReadPacket ''cd''), (8, WritePackets)] l =
       Some (Inr (out, l')) \<and>
     link_log l' = Some g \<and> sum_list (map departure_size g) \<le> 1504 * length (filter is_opportunity g)"
  using sample_session by (blast intro: link_capacity)

text \<open>
  C32: a link stays well formed. After any session that ends without an exception,
  with any queue discipline, the queue satisfies its own invariant (its counters are those of its
  packets and its limits hold), the bytes left of the packet in transit are some of its bytes, and
  every packet held has between 1 and 1504 bytes.
\<close>

theorem link_well_formed:
  assumes "get_packet_queue type args e = Inr q"
    and "link_new fn file logging rep gt gd q start = Inr l"
    and "unat start + unat (last (schedule l)) < 2 ^ 64"
    and "calls_ok (last (schedule l)) cs"
    and "link_run any_ops cs l = Some (Inr (out, l'))"
  shows "any_inv (packet_queue l') \<and>
    packet_in_transit_bytes_left l' \<le> (if packet_in_transit_bytes_left l' = 0 then 0
      else length (contents (packet_in_transit l'))) \<and>
    (\<forall>p \<in> set (held any_packets l'). 1 \<le> length (contents p) \<and> length (contents p) \<le> 1504)"
proof -
  have init: "clock_ok start l" "link_inv any_inv any_packets l"
    using link_new_init [OF assms(2) _ _ assms(3), of any_inv any_packets]
      get_packet_queue_inv [OF assms(1)] by simp_all
  have "link_inv any_inv any_packets l'"
    using any.link_run_spec [OF init assms(4), folded any_ops_def] assms(5) by simp
  then show ?thesis
    by (auto simp: link_inv_def held_ok_def MTU_def Suc_le_eq)
qed

lemma link_well_formed_witness:
  "\<exists>q l out l'. get_packet_queue ''infinite'' [] (sample_env [0]) = Inr q \<and>
     link_new ''t'' (Some sample_trace) True True False False q 2 = Inr l \<and>
     link_run any_ops [(3, ReadPacket ''ab''), (4, ReadPacket ''cd''), (8, WritePackets)] l =
       Some (Inr (out, l')) \<and>
     any_inv (packet_queue l') \<and>
     (\<forall>p \<in> set (held any_packets l'). 1 \<le> length (contents p) \<and> length (contents p) \<le> 1504)"
  using sample_session by (blast dest: link_well_formed)

text \<open>
  C9: the catch-up loop always ends, over any packet queue, as long as one period
  of the trace after \<open>now\<close> still fits a 64-bit millisecond clock; and when it ends without an
  exception, the next delivery time lies in the future.
\<close>

theorem link_catches_up:
  assumes "clock_ok now l"
  shows "\<exists>r. rationalize Q now l = Some r \<and>
    (\<forall>l'. r = Inr l' \<longrightarrow> (\<exists>t. next_delivery_time l' = Inr t \<and> now < t))"
proof -
  have "\<exists>r. rationalize Q now l = Some r \<and>
    (case r of Inl e \<Rightarrow> True
     | Inr l' \<Rightarrow> True \<and> clock_ok now l' \<and> (\<exists>t. next_delivery_time l' = Inr t \<and> now < t))"
    by (rule rationalize_rule [OF assms]) (simp_all split: sum.splits)
  then show ?thesis by fastforce
qed

definition sample_link :: "infinite_queue link_queue" where
  "sample_link =
     \<lparr>next_delivery = 1, schedule = [5, 5, 9], base_timestamp = 2,
      packet_queue = [QueuedPacket ''abc'' 3], packet_in_transit = QueuedPacket ''wxyz'' 1,
      packet_in_transit_bytes_left = 3, output_queue = [], link_log = Some [],
      throughput_graph = None, delay_graph = None, repeat_trace = True, finished = False\<rparr>"

lemma link_catches_up_witness:
  "clock_ok 11 sample_link \<and> (\<exists>r. rationalize infinite_ops 11 sample_link = Some r \<and>
    (\<forall>l'. r = Inr l' \<longrightarrow> (\<exists>t. next_delivery_time l' = Inr t \<and> 11 < t)))"
proof -
  have c: "clock_ok 11 sample_link"
    by (simp add: clock_ok_def schedule_ok_def sample_link_def)
  show ?thesis using link_catches_up [OF c, of infinite_ops] c by blast
qed

text \<open>
  A delivery opportunity is used to its last byte unless the link runs
  empty. Over any queue discipline, delivering \<open>n\<close> bytes at time \<open>t\<close> in a state whose packets all
  arrived by \<open>t\<close> carries exactly \<open>n\<close> bytes, or fewer and leaves nothing queued or in transit.
\<close>

theorem link_work_conserving:
  assumes "held_ok any_inv any_packets (unat t) l" and "deliver any_ops t n l = Inr l'"
  shows "carried l' = carried l + n \<or> carried l' \<le> carried l + n \<and> held any_packets l' = []"
  using any.deliver_spec [OF assms(1), of n] assms(2) by (simp add: any_ops_def)

definition sample_any_link :: "(env \<times> any_queue) link_queue" where
  "sample_any_link =
     \<lparr>next_delivery = 1, schedule = [5, 5, 9], base_timestamp = 2,
      packet_queue = (sample_env [0], Infinite [QueuedPacket ''abc'' 3]),
      packet_in_transit = QueuedPacket ''wxyz'' 1,
      packet_in_transit_bytes_left = 3, output_queue = [], link_log = Some [],
      throughput_graph = None, delay_graph = None, repeat_trace = True, finished = False\<rparr>"

lemma link_work_conserving_witness:
  "\<exists>l'. deliver any_ops 7 4 sample_any_link = Inr l' \<and>
     (carried l' = carried sample_any_link + 4 \<or>
      carried l' \<le> carried sample_any_link + 4 \<and> held any_packets l' = [])"
proof -
  have ok: "held_ok any_inv any_packets (unat (7 :: u64)) sample_any_link"
    by (simp add: held_ok_def held_def sample_any_link_def MTU_def)
  have "\<exists>l'. deliver any_ops 7 4 sample_any_link = Inr l'"
    by (simp add: deliver.simps load_transit_def sample_any_link_def any_ops_def transit_ok_def
        send_some_def record_departure_def MTU_def infinite_empty_def)
  then show ?thesis using link_work_conserving [OF ok] by blast
qed

text \<open>
  The trace loader reads back what a trace file says. A file with one number
  per line, nondecreasing and not all zero, loads as exactly those delivery times.
\<close>

theorem trace_roundtrip:
  assumes "sorted ts" and "\<forall>t \<in> set ts. t < 2 ^ 63" and "ts \<noteq> []" and "last ts \<noteq> 0"
  shows "load_schedule fn (Some (trace_text ts)) = Inr (map of_nat ts)"
proof -
  have "load_lines fn (map to_string ts) (map of_nat []) = Inr (map of_nat ([] @ ts))"
    by (rule load_lines_trace) (use assms in simp_all)
  moreover have "last ts < 2 ^ 64"
    using assms last_in_set [of ts] by fastforce
  then have "(of_nat (last ts) :: u64) \<noteq> 0"
    using assms(4) unat_of_nat_u64 [of "last ts"] by auto
  ultimately show ?thesis
    using assms(3) by (simp add: load_schedule_def getlines_trace last_map)
qed

lemma trace_roundtrip_witness:
  "load_schedule ''up'' (Some (trace_text [0, 7, 7, 120])) = Inr [0, 7, 7, 120]"
  using trace_roundtrip [of "[0, 7, 7, 120]" "''up''"] by simp

end
