(* ===== verification/Ferry_Queues.thy ===== *)
theory Ferry_Queues
  imports Link_Queue
begin

text \<open>
  The other queues a packet shell ferries packets through: \<open>DelayQueue\<close> of
  \<open>src/src/frontend/delay_queue.cc\<close>, \<open>LossQueue\<close> with its subclasses \<open>IIDLoss\<close> and
  \<open>SwitchingLink\<close> of \<open>src/src/frontend/loss_queue.cc\<close>, and \<open>MeterQueue\<close> of
  \<open>src/src/frontend/meter_queue.cc\<close>. \<open>timestamp()\<close> reads the environment, each call the next
  reading; \<open>fd.write\<close> is the argument \<open>write\<close>, which can fail.

  The lemmas follow a delay queue through any sequence of calls: what was written, when, and what
  is still held. For the on-off link they show that the switching loop ends, and in what state.
\<close>

section \<open>DelayQueue\<close>

record delay_queue =
  delay_ms :: u64
  delayed :: "(u64 \<times> string) list"

definition delay_new :: "u64 \<Rightarrow> delay_queue" where
  "delay_new s_delay_ms = \<lparr>delay_ms = s_delay_ms, delayed = []\<rparr>"

definition delay_read_packet :: "string \<Rightarrow> env \<times> delay_queue \<Rightarrow> env \<times> delay_queue" where
  "delay_read_packet pkt = (\<lambda>(e, q).
     case timestamp e of (now, e') \<Rightarrow>
       (e', q\<lparr>delayed := delayed q @ [(now + delay_ms q, pkt)]\<rparr>))"

text \<open>The loop of \<open>write_packets\<close>; the clock is read once per packet looked at.\<close>

fun delay_write_loop ::
  "(string \<Rightarrow> unit res) \<Rightarrow> env \<Rightarrow> (u64 \<times> string) list \<Rightarrow>
     (string list \<times> env \<times> (u64 \<times> string) list) res" where
  "delay_write_loop write e [] = Inr ([], e, [])"
| "delay_write_loop write e ((release, pkt) # rest) =
     (case timestamp e of (now, e1) \<Rightarrow>
        if release \<le> now then
          rbind (write pkt) (\<lambda>_.
          rbind (delay_write_loop write e1 rest) (\<lambda>(out, e2, rest2). Inr (pkt # out, e2, rest2)))
        else Inr ([], e1, (release, pkt) # rest))"

definition delay_write_packets ::
  "(string \<Rightarrow> unit res) \<Rightarrow> env \<times> delay_queue \<Rightarrow> (string list \<times> (env \<times> delay_queue)) res" where
  "delay_write_packets write = (\<lambda>(e, q).
     rbind (delay_write_loop write e (delayed q)) (\<lambda>(out, e', rest).
       Inr (out, (e', q\<lparr>delayed := rest\<rparr>))))"

text \<open>The time to wait is a 64-bit difference returned as an \<open>unsigned int\<close>.\<close>

definition delay_wait_time :: "env \<times> delay_queue \<Rightarrow> u32 \<times> env" where
  "delay_wait_time = (\<lambda>(e, q).
     case delayed q of
       [] \<Rightarrow> (65535, e)
     | (release, _) # _ \<Rightarrow>
         (case timestamp e of (now, e') \<Rightarrow>
            (if release \<le> now then 0 else ucast (release - now), e')))"

definition delay_pending_output :: "env \<times> delay_queue \<Rightarrow> bool \<times> env" where
  "delay_pending_output s = (case delay_wait_time s of (w, e) \<Rightarrow> (w \<le> 0, e))"

section \<open>LossQueue\<close>

record loss_queue =
  loss_packets :: "string list"

text \<open>\<open>read_packet\<close>, given the answer of the virtual \<open>drop_packet\<close>.\<close>

definition loss_read_packet :: "bool \<Rightarrow> string \<Rightarrow> 'a loss_queue_scheme \<Rightarrow> 'a loss_queue_scheme" where
  "loss_read_packet dropped pkt q =
     (if \<not> dropped then q\<lparr>loss_packets := loss_packets q @ [pkt]\<rparr> else q)"

definition loss_write_packets ::
  "(string \<Rightarrow> unit res) \<Rightarrow> 'a loss_queue_scheme \<Rightarrow> (string list \<times> 'a loss_queue_scheme) res" where
  "loss_write_packets write q =
     rbind (write_all write (loss_packets q)) (\<lambda>_. Inr (loss_packets q, q\<lparr>loss_packets := []\<rparr>))"

definition loss_wait_time :: "'a loss_queue_scheme \<Rightarrow> u32" where
  "loss_wait_time q = (if loss_packets q = [] then 65535 else 0)"

definition loss_pending_output :: "'a loss_queue_scheme \<Rightarrow> bool" where
  "loss_pending_output q \<longleftrightarrow> loss_packets q \<noteq> []"

text \<open>\<open>IIDLoss\<close>: a draw of \<open>bernoulli_distribution( loss_rate )\<close> per packet.\<close>

record iid_loss = loss_queue +
  loss_rate :: rat

definition iid_new :: "rat \<Rightarrow> iid_loss" where
  "iid_new rate = \<lparr>loss_packets = [], loss_rate = rate\<rparr>"

definition iid_drop_packet :: "env \<times> iid_loss \<Rightarrow> bool \<times> env" where
  "iid_drop_packet = (\<lambda>(e, q). case draw_uniform e of (u, e') \<Rightarrow> (u < loss_rate q, e'))"

definition iid_read_packet :: "string \<Rightarrow> env \<times> iid_loss \<Rightarrow> env \<times> iid_loss" where
  "iid_read_packet pkt = (\<lambda>(e, q).
     case iid_drop_packet (e, q) of (d, e') \<Rightarrow> (e', loss_read_packet d pkt q))"

section \<open>SwitchingLink\<close>

text \<open>
  The draws of the two exponential distributions are an argument: \<open>draws on i\<close> is the \<open>i\<close>-th
  number drawn, from \<open>off_process_\<close> when the link has just been switched on and from
  \<open>on_process_\<close> when it has just been switched off.
\<close>

type_synonym draws = "bool \<Rightarrow> nat \<Rightarrow> rat"

record switching_link = loss_queue +
  link_is_on :: bool
  next_switch_time :: u64
  switches :: nat

definition switching_new :: "env \<Rightarrow> env \<times> switching_link" where
  "switching_new e =
     (case timestamp e of (now, e') \<Rightarrow>
        (e', \<lparr>loss_packets = [], link_is_on = False, next_switch_time = now, switches = 0\<rparr>))"

definition bound :: "rat \<Rightarrow> u64" where
  "bound x = (if 2 ^ 30 < x then 2 ^ 30 else of_nat (trunc_nat x))"

definition switch_once :: "draws \<Rightarrow> switching_link \<Rightarrow> switching_link" where
  "switch_once draws q =
     q\<lparr>link_is_on := \<not> link_is_on q,
       next_switch_time := next_switch_time q + bound (draws (\<not> link_is_on q) (switches q)),
       switches := switches q + 1\<rparr>"

text \<open>\<open>while ( next_switch_time_ <= now )\<close>; with draws that are all 0 it does not end.\<close>

partial_function (option) switch_loop ::
  "draws \<Rightarrow> u64 \<Rightarrow> switching_link \<Rightarrow> switching_link option" where
  [code]: "switch_loop draws now q =
     (if next_switch_time q \<le> now then switch_loop draws now (switch_once draws q) else Some q)"

definition switching_wait_time ::
  "draws \<Rightarrow> env \<times> switching_link \<Rightarrow> (u32 \<times> (env \<times> switching_link)) option" where
  "switching_wait_time draws = (\<lambda>(e, q0).
     case timestamp e of (now, e') \<Rightarrow>
       map_option (\<lambda>q.
         (if loss_wait_time q = 0 then 0
          else if 65535 < next_switch_time q - now then 65535
          else ucast (next_switch_time q - now), (e', q)))
       (switch_loop draws now q0))"

definition switching_drop_packet :: "switching_link \<Rightarrow> bool" where
  "switching_drop_packet q \<longleftrightarrow> \<not> link_is_on q"

definition switching_read_packet :: "string \<Rightarrow> switching_link \<Rightarrow> switching_link" where
  "switching_read_packet pkt q = loss_read_packet (switching_drop_packet q) pkt q"

section \<open>MeterQueue\<close>

text \<open>The graph, when there is one, is what was added to it.\<close>

record meter_queue =
  meter_packets :: "string list"
  meter_graph :: "nat list option"

definition meter_new :: "bool \<Rightarrow> meter_queue" where
  "meter_new graph = \<lparr>meter_packets = [], meter_graph = (if graph then Some [] else None)\<rparr>"

definition meter_read_packet :: "string \<Rightarrow> meter_queue \<Rightarrow> meter_queue" where
  "meter_read_packet pkt q =
     q\<lparr>meter_packets := meter_packets q @ [pkt],
       meter_graph := map_option (\<lambda>g. g @ [length pkt]) (meter_graph q)\<rparr>"

definition meter_write_packets ::
  "(string \<Rightarrow> unit res) \<Rightarrow> meter_queue \<Rightarrow> (string list \<times> meter_queue) res" where
  "meter_write_packets write q =
     rbind (write_all write (meter_packets q)) (\<lambda>_. Inr (meter_packets q, q\<lparr>meter_packets := []\<rparr>))"

definition meter_wait_time :: "meter_queue \<Rightarrow> u32" where
  "meter_wait_time q = (if meter_packets q = [] then 65535 else 0)"

definition meter_pending_output :: "meter_queue \<Rightarrow> bool" where
  "meter_pending_output q \<longleftrightarrow> meter_packets q \<noteq> []"

section \<open>A delay queue over any calls\<close>

text \<open>The reading number \<open>i\<close> of the clock, and the last reading taken.\<close>

definition time_at :: "env \<Rightarrow> nat \<Rightarrow> u64" where
  "time_at e i = (case clock e i of (tv_sec, tv_nsec) \<Rightarrow>
     tv_nsec div 1000000 + tv_sec * 1000 - (case initial_value e of None \<Rightarrow> 0 | Some v \<Rightarrow> v))"

definition last_time :: "env \<Rightarrow> u64" where
  "last_time e = time_at e (clock_reads e - 1)"

text \<open>The clock was initialised, never jumps back, and leaves room for the delay.\<close>

definition clock_steady :: "u64 \<Rightarrow> env \<Rightarrow> bool" where
  "clock_steady d e \<longleftrightarrow>
     initial_value e \<noteq> None \<and> (\<forall>i j. i \<le> j \<longrightarrow> time_at e i \<le> time_at e j) \<and>
     (\<forall>i. unat (time_at e i) + unat d < 2 ^ 64)"

lemma timestamp_reads:
  assumes "clock_steady d e" and "timestamp e = (now, e')"
  shows "now = time_at e (clock_reads e) \<and> e' = e\<lparr>clock_reads := clock_reads e + 1\<rparr> \<and>
    clock_steady d e' \<and> last_time e' = now \<and> last_time e \<le> now"
proof -
  obtain v where v: "initial_value e = Some v"
    using assms(1) by (auto simp: clock_steady_def)
  have e': "now = time_at e (clock_reads e)" "e' = e\<lparr>clock_reads := clock_reads e + 1\<rparr>"
    using assms(2) v
    by (auto simp: timestamp_after_init raw_timestamp_def time_at_def split: prod.splits)
  have t: "time_at (e\<lparr>clock_reads := n\<rparr>) i = time_at e i" for n i
    by (simp add: time_at_def)
  show ?thesis
    using assms(1) e' by (auto simp: clock_steady_def t last_time_def)
qed

text \<open>
  A session: the packets read, each with the reading its call took, and the packets written, each
  with the last reading its call took.
\<close>

datatype delay_call = DelayRead string | DelayWrite | DelayWait

fun delay_run ::
  "delay_call list \<Rightarrow> env \<times> delay_queue \<Rightarrow>
     (u64 \<times> string) list \<times> (u64 \<times> string) list \<times> (env \<times> delay_queue)" where
  "delay_run [] s = ([], [], s)"
| "delay_run (DelayRead pkt # cs) s =
     (case delay_read_packet pkt s of s1 \<Rightarrow>
      case delay_run cs s1 of (ins, outs, s') \<Rightarrow> ((fst (timestamp (fst s)), pkt) # ins, outs, s'))"
| "delay_run (DelayWrite # cs) s =
     (case delay_write_packets (\<lambda>_. Inr ()) s of
        Inl e \<Rightarrow> ([], [], s)
      | Inr (out, s1) \<Rightarrow>
          (case delay_run cs s1 of (ins, outs, s') \<Rightarrow>
             (ins, map (Pair (last_time (fst s1))) out @ outs, s')))"
| "delay_run (DelayWait # cs) s =
     (case delay_wait_time s of (w, e1) \<Rightarrow> delay_run cs (e1, snd s))"

text \<open>What is held: packets with their release times, in order, none from the future.\<close>

definition delay_inv :: "env \<Rightarrow> delay_queue \<Rightarrow> bool" where
  "delay_inv e q \<longleftrightarrow>
     clock_steady (delay_ms q) e \<and> sorted_wrt (\<lambda>x y. fst x \<le> fst y) (delayed q) \<and>
     (\<forall>x \<in> set (delayed q). fst x \<le> last_time e + delay_ms q)"

lemma add_mono_u64:
  "a \<le> b \<Longrightarrow> unat b + unat d < 2 ^ 64 \<Longrightarrow> a + d \<le> b + d" for a b d :: u64
  by (simp add: word_le_nat_alt unat_word_ariths)

lemma last_time_room:
  "clock_steady d e \<Longrightarrow> unat (last_time e) + unat d < 2 ^ 64"
  by (simp add: clock_steady_def last_time_def)

lemma delay_inv_later:
  assumes "delay_inv e q" and "timestamp e = (now, e')"
  shows "delay_inv e' q"
proof -
  note t = timestamp_reads [OF _ assms(2), of "delay_ms q"]
  have "clock_steady (delay_ms q) e"
    using assms(1) by (simp add: delay_inv_def)
  from t [OF this] have t: "clock_steady (delay_ms q) e'" "last_time e \<le> last_time e'"
    by auto
  have "last_time e + delay_ms q \<le> last_time e' + delay_ms q"
    using t(2) last_time_room [OF t(1)] by (rule add_mono_u64)
  then show ?thesis
    using assms(1) t(1) by (auto simp: delay_inv_def)
qed

lemma delay_read_inv:
  assumes "delay_inv e q" and "delay_read_packet pkt (e, q) = (e', q')"
  shows "delay_inv e' q' \<and> delay_ms q' = delay_ms q \<and>
    delayed q' = delayed q @ [(fst (timestamp e) + delay_ms q, pkt)]"
proof -
  obtain now where t: "timestamp e = (now, e')" and
    q': "q' = q\<lparr>delayed := delayed q @ [(now + delay_ms q, pkt)]\<rparr>"
    using assms(2) by (auto simp: delay_read_packet_def split: prod.splits)
  have s: "clock_steady (delay_ms q) e"
    using assms(1) by (simp add: delay_inv_def)
  have "last_time e' = now"
    using timestamp_reads [OF s t] by blast
  then show ?thesis
    using delay_inv_later [OF assms(1) t] t
    by (auto simp: delay_inv_def q' sorted_wrt_append)
qed

text \<open>The write loop takes packets from the front, all of them due, and stops at one not due.\<close>

lemma delay_write_loop_spec:
  "clock_steady d e \<Longrightarrow>
     \<exists>out e' rest. delay_write_loop (\<lambda>_. Inr ()) e q = Inr (map snd out, e', rest) \<and>
       q = out @ rest \<and> clock_steady d e' \<and> last_time e \<le> last_time e' \<and>
       (\<forall>x \<in> set out. fst x \<le> last_time e') \<and> (rest \<noteq> [] \<longrightarrow> last_time e' < fst (hd rest))"
proof (induction q arbitrary: e)
  case Nil
  then show ?case by simp
next
  case (Cons x q)
  obtain release pkt where x: "x = (release, pkt)" by force
  obtain now e1 where t: "timestamp e = (now, e1)" by force
  note r = timestamp_reads [OF Cons.prems t]
  show ?case
  proof (cases "release \<le> now")
    case False
    then have "delay_write_loop (\<lambda>_. Inr ()) e (x # q) = Inr (map snd [], e1, x # q)"
      using t x by simp
    then show ?thesis
      using False r x by (intro exI [of _ "[]"] exI [of _ e1] exI [of _ "x # q"]) auto
  next
    case True
    from r have "clock_steady d e1" by blast
    from Cons.IH [OF this] obtain out e' rest where
      i: "delay_write_loop (\<lambda>_. Inr ()) e1 q = Inr (map snd out, e', rest)" "q = out @ rest"
        "clock_steady d e'" "last_time e1 \<le> last_time e'"
        "\<forall>x \<in> set out. fst x \<le> last_time e'" "rest \<noteq> [] \<longrightarrow> last_time e' < fst (hd rest)"
      by blast
    have "delay_write_loop (\<lambda>_. Inr ()) e (x # q) = Inr (map snd (x # out), e', rest)"
      using t x True i(1) by simp
    moreover have "last_time e \<le> last_time e'" "release \<le> last_time e'"
      using r i(4) True by (auto intro: order.trans)
    ultimately show ?thesis
      using i x by (intro exI [of _ "x # out"] exI [of _ e'] exI [of _ rest]) auto
  qed
qed

lemma delay_write_inv:
  assumes "delay_inv e q"
  shows "\<exists>out e' q'. delay_write_packets (\<lambda>_. Inr ()) (e, q) = Inr (map snd out, (e', q')) \<and>
    delay_inv e' q' \<and> delay_ms q' = delay_ms q \<and> delayed q = out @ delayed q' \<and>
    (\<forall>x \<in> set out. fst x \<le> last_time e') \<and> (\<forall>x \<in> set (delayed q'). last_time e' < fst x)"
proof -
  have s: "clock_steady (delay_ms q) e"
    using assms by (simp add: delay_inv_def)
  from delay_write_loop_spec [OF s, of "delayed q"] obtain out e' rest where
    w: "delay_write_loop (\<lambda>_. Inr ()) e (delayed q) = Inr (map snd out, e', rest)"
      "delayed q = out @ rest" "clock_steady (delay_ms q) e'" "last_time e \<le> last_time e'"
      "\<forall>x \<in> set out. fst x \<le> last_time e'" "rest \<noteq> [] \<longrightarrow> last_time e' < fst (hd rest)"
    by blast
  have sorted: "sorted_wrt (\<lambda>x y. fst x \<le> fst y) rest"
    using assms w(2) by (simp add: delay_inv_def sorted_wrt_append)
  have late: "\<forall>x \<in> set rest. last_time e' < fst x"
    using w(6) sorted by (cases rest) (auto intro: order.strict_trans2)
  have "last_time e + delay_ms q \<le> last_time e' + delay_ms q"
    using w(4) last_time_room [OF w(3)] by (rule add_mono_u64)
  then have "\<forall>x \<in> set rest. fst x \<le> last_time e' + delay_ms q"
    using assms w(2) by (auto simp: delay_inv_def intro: order.trans)
  then have "delay_inv e' (q\<lparr>delayed := rest\<rparr>)"
    using w(3) sorted by (simp add: delay_inv_def)
  then show ?thesis
    using w late by (auto simp: delay_write_packets_def)
qed

definition due :: "u64 \<Rightarrow> u64 \<times> string \<Rightarrow> u64 \<times> string" where
  "due d = (\<lambda>(t, pkt). (t + d, pkt))"

lemma delay_run_spec:
  "delay_inv e q \<Longrightarrow> delay_run cs (e, q) = (ins, outs, (e', q')) \<Longrightarrow>
     \<exists>sent. delayed q @ map (due (delay_ms q)) ins = sent @ delayed q' \<and>
       list_all2 (\<lambda>x y. snd y = snd x \<and> fst x \<le> fst y) sent outs \<and> delay_inv e' q' \<and>
       delay_ms q' = delay_ms q"
proof (induction cs arbitrary: e q ins outs)
  case Nil
  then show ?case by (intro exI [of _ "[]"]) auto
next
  case (Cons c cs)
  show ?case
  proof (cases c)
    case (DelayRead pkt)
    obtain e1 q1 where r: "delay_read_packet pkt (e, q) = (e1, q1)" by force
    with Cons.prems(2) DelayRead obtain ins1 where
      run: "delay_run cs (e1, q1) = (ins1, outs, (e', q'))" and
      ins: "ins = (fst (timestamp e), pkt) # ins1"
      by (auto split: prod.splits)
    from delay_read_inv [OF Cons.prems(1) r] Cons.IH [OF _ run] ins show ?thesis
      by (auto simp: due_def)
  next
    case DelayWrite
    from delay_write_inv [OF Cons.prems(1)] obtain out e1 q1 where
      w: "delay_write_packets (\<lambda>_. Inr ()) (e, q) = Inr (map snd out, (e1, q1))"
        "delay_inv e1 q1" "delay_ms q1 = delay_ms q" "delayed q = out @ delayed q1"
        "\<forall>x \<in> set out. fst x \<le> last_time e1"
      by blast
    with Cons.prems(2) DelayWrite obtain outs1 where
      run: "delay_run cs (e1, q1) = (ins, outs1, (e', q'))" and
      outs: "outs = map (Pair (last_time e1)) (map snd out) @ outs1"
      by (auto split: prod.splits)
    obtain sent where sent: "delayed q1 @ map (due (delay_ms q)) ins = sent @ delayed q'"
      "list_all2 (\<lambda>x y. snd y = snd x \<and> fst x \<le> fst y) sent outs1" "delay_inv e' q'"
      "delay_ms q' = delay_ms q"
      using Cons.IH [OF w(2) run] w(3) by auto
    have "list_all2 (\<lambda>x y. snd y = snd x \<and> fst x \<le> fst y) out
        (map (Pair (last_time e1)) (map snd out))"
      using w(5) by (simp add: list_all2_conv_all_nth)
    then show ?thesis
      using sent w(4) outs
      by (intro exI [of _ "out @ sent"]) (auto intro: list_all2_appendI)
  next
    case DelayWait
    obtain w e1 where wt: "delay_wait_time (e, q) = (w, e1)" by force
    have "delay_inv e1 q"
      using wt Cons.prems(1) delay_inv_later [OF Cons.prems(1)]
      by (auto simp: delay_wait_time_def split: list.splits prod.splits)
    then show ?thesis
      using Cons.IH [of e1 q ins outs] Cons.prems(2) DelayWait wt by simp
  qed
qed

lemma delay_write_loop_ok: "\<exists>r. delay_write_loop (\<lambda>_. Inr ()) e q = Inr r"
  by (induction "\<lambda>_ :: string. Inr () :: unit res" e q rule: delay_write_loop.induct)
     (force split: prod.splits)+

lemma delay_write_ok: "\<exists>out s'. delay_write_packets (\<lambda>_. Inr ()) s = Inr (out, s')"
  using delay_write_loop_ok [of "fst s" "delayed (snd s)"]
  by (auto simp: delay_write_packets_def split: prod.splits)

lemma delay_run_append:
  "delay_run (cs @ ds) s =
     (case delay_run cs s of (ins1, outs1, s1) \<Rightarrow>
      case delay_run ds s1 of (ins2, outs2, s2) \<Rightarrow> (ins1 @ ins2, outs1 @ outs2, s2))"
proof (induction cs arbitrary: s)
  case Nil
  then show ?case by (simp split: prod.splits)
next
  case (Cons c cs)
  show ?case
  proof (cases c)
    case DelayWrite
    obtain out s1 where "delay_write_packets (\<lambda>_. Inr ()) s = Inr (out, s1)"
      using delay_write_ok by blast
    then show ?thesis
      using DelayWrite Cons.IH [of s1] by (simp split: prod.splits)
  qed (use Cons.IH in \<open>simp_all split: prod.splits\<close>)
qed

lemma due_simps [simp]: "fst (due d x) = fst x + d" "snd (due d x) = snd x"
  by (simp_all add: due_def split: prod.split)

text \<open>
  A delay queue delays every packet by its delay, and does nothing else. From its
  construction on, with a clock that does not jump back, whatever calls were made up to a last
  \<open>write_packets\<close>: the packets written and then those still held are exactly the packets read, in
  order; no packet was written before the delay had passed since it was read; and of the packets
  still held, none was due at the last reading of the clock.
\<close>

theorem delay_release:
  assumes "clock_steady d e"
    and "delay_run (cs @ [DelayWrite]) (e, delay_new d) = (ins, outs, (e', q'))"
  shows "map snd outs @ map snd (delayed q') = map snd ins \<and>
    list_all2 (\<lambda>x y. snd y = snd x \<and> fst x + d \<le> fst y) (take (length outs) ins) outs \<and>
    (\<forall>x \<in> set (drop (length outs) ins). last_time e' < fst x + d)"
proof -
  have new: "delay_inv e (delay_new d)" "delayed (delay_new d) = []" "delay_ms (delay_new d) = d"
    using assms(1) by (simp_all add: delay_inv_def delay_new_def)
  obtain ins1 outs1 e1 q1 where r1: "delay_run cs (e, delay_new d) = (ins1, outs1, (e1, q1))"
    by (metis prod.exhaust)
  have inv1: "delay_inv e1 q1"
    using delay_run_spec [OF new(1) r1] by blast
  have late: "\<forall>x \<in> set (delayed q'). last_time e' < fst x"
    using delay_write_inv [OF inv1] assms(2) r1 by (fastforce simp: delay_run_append)
  obtain sent where sent: "map (due d) ins = sent @ delayed q'"
    "list_all2 (\<lambda>x y. snd y = snd x \<and> fst x \<le> fst y) sent outs"
    using delay_run_spec [OF new(1) assms(2)] new(2,3) by auto
  have n: "length sent = length outs"
    using sent(2) by (rule list_all2_lengthD)
  have "take (length outs) (map (due d) ins) = sent" "drop (length outs) (map (due d) ins) = delayed q'"
    using sent(1) n by simp_all
  then have split: "sent = map (due d) (take (length outs) ins)"
    "delayed q' = map (due d) (drop (length outs) ins)"
    by (simp_all add: take_map drop_map)
  have "list_all2 (\<lambda>x y. snd y = snd x \<and> fst x + d \<le> fst y) (take (length outs) ins) outs"
    using sent(2) by (simp add: split(1) list_all2_map1)
  moreover have "map snd outs = map snd (take (length outs) ins)"
    using calculation by (induction rule: list_all2_induct) auto
  ultimately show ?thesis
    using late by (simp add: split(2) comp_def flip: map_append)
qed

text \<open>A clock that shows 0 ms three times and 1000 ms from then on.\<close>

definition sample_clock :: env where
  "sample_clock = \<lparr>clock = (\<lambda>i. (if i < 3 then 0 else 1, 0)), clock_reads = 0,
     initial_value = Some 0, uniform = (\<lambda>_. 0), uniform_draws = 0\<rparr>"

lemma sample_clock_steady: "clock_steady 20 sample_clock"
  by (simp add: clock_steady_def sample_clock_def time_at_def)

lemma sample_delay_run:
  "case delay_run ([DelayRead ''ab'', DelayWrite, DelayRead ''cd''] @ [DelayWrite])
     (sample_clock, delay_new 20) of
     (ins, outs, s) \<Rightarrow> ins = [(0, ''ab''), (0, ''cd'')] \<and> outs = [(1000, ''ab''), (1000, ''cd'')]"
  by (simp add: sample_clock_def delay_new_def delay_read_packet_def delay_write_packets_def
      timestamp_after_init raw_timestamp_def last_time_def time_at_def)

lemma delay_release_witness:
  "\<exists>e' q'. delay_run ([DelayRead ''ab'', DelayWrite, DelayRead ''cd''] @ [DelayWrite])
       (sample_clock, delay_new 20) =
       ([(0, ''ab''), (0, ''cd'')], [(1000, ''ab''), (1000, ''cd'')], (e', q')) \<and>
     [''ab'', ''cd''] @ map snd (delayed q') = [''ab'', ''cd'']"
proof -
  obtain e' q' where r: "delay_run ([DelayRead ''ab'', DelayWrite, DelayRead ''cd''] @ [DelayWrite])
       (sample_clock, delay_new 20) =
       ([(0, ''ab''), (0, ''cd'')], [(1000, ''ab''), (1000, ''cd'')], (e', q'))"
    using sample_delay_run by (auto split: prod.splits)
  from delay_release [OF sample_clock_steady this] r show ?thesis by auto
qed

text \<open>
  A delay of \<open>2 ^ 32\<close> ms: at once after a packet was read, \<open>wait_time\<close> is 0 and \<open>pending_output\<close>
  holds, although the packet is not due and \<open>write_packets\<close> writes nothing.
\<close>

lemma delay_wait_truncated:
  "case delay_read_packet ''ab'' (sample_clock, delay_new 4294967296) of s \<Rightarrow>
     fst (delay_wait_time s) = 0 \<and> fst (delay_pending_output s) \<and>
     map_sum id fst (delay_write_packets (\<lambda>_. Inr ()) s) = Inr []"
  by (simp add: sample_clock_def delay_new_def delay_read_packet_def delay_write_packets_def
      delay_wait_time_def delay_pending_output_def timestamp_after_init raw_timestamp_def)

section \<open>The on-off link settles\<close>

lemma bound_cases:
  "unat (bound x) = (if 2 ^ 30 < x then 2 ^ 30 else trunc_nat x) \<and> unat (bound x) \<le> 2 ^ 30"
proof (cases "2 ^ 30 < x")
  case True
  then show ?thesis by (simp add: bound_def)
next
  case False
  then have "trunc_nat x \<le> 2 ^ 30"
    by (simp add: trunc_nat_def nat_le_iff floor_le_iff)
  moreover from this have "unat (of_nat (trunc_nat x) :: u64) = trunc_nat x"
    by (intro of_nat_inverse [OF refl]) simp
  ultimately show ?thesis
    using False by (simp add: bound_def)
qed

lemma bound_le: "unat (bound x) \<le> 2 ^ 30"
  using bound_cases by blast

lemma bound_pos:
  assumes "1 \<le> x"
  shows "0 < unat (bound x)"
proof -
  have "1 \<le> trunc_nat x"
    using assms by (simp add: trunc_nat_def le_nat_iff le_floor_iff)
  then show ?thesis
    using bound_cases [of x] by simp
qed

lemma switch_once_time:
  assumes "unat now + 2 ^ 30 < 2 ^ 64" and "next_switch_time q \<le> now"
  shows "unat (next_switch_time (switch_once draws q)) = unat (next_switch_time q) +
    unat (bound (draws (\<not> link_is_on q) (switches q)))"
proof -
  have "unat (next_switch_time q) + unat (bound (draws (\<not> link_is_on q) (switches q))) < 2 ^ 64"
    using assms bound_le [of "draws (\<not> link_is_on q) (switches q)"] by (simp add: word_le_nat_alt)
  then show ?thesis
    by (simp add: switch_once_def unat_word_ariths)
qed

definition settled_after :: "u64 \<Rightarrow> switching_link \<Rightarrow> switching_link \<Rightarrow> bool" where
  "settled_after now q q' \<longleftrightarrow>
     now < next_switch_time q' \<and> switches q \<le> switches q' \<and>
     link_is_on q' = (link_is_on q = even (switches q' - switches q)) \<and>
     loss_packets q' = loss_packets q"

lemma settled_after_step:
  "settled_after now (switch_once draws q) q' \<Longrightarrow> settled_after now q q'"
  by (auto simp: settled_after_def switch_once_def Suc_diff_le)

lemma switch_loop_settles:
  assumes room: "unat now + 2 ^ 30 < 2 ^ 64"
    and draws: "\<forall>i. \<exists>j \<ge> i. \<forall>on. 1 \<le> draws on j"
  shows "\<exists>q'. switch_loop draws now q = Some q' \<and> settled_after now q q'"
proof (induction "unat now + 1 - unat (next_switch_time q)" arbitrary: q rule: less_induct)
  case less
  obtain j where j: "switches q \<le> j" "\<forall>on. 1 \<le> draws on j"
    using draws by blast
  have "\<exists>q'. switch_loop draws now p = Some q' \<and> settled_after now p q'"
    if "switches p \<le> j" and "next_switch_time q \<le> next_switch_time p" for p
    using that
  proof (induction "j - switches p" arbitrary: p rule: less_induct)
    case (less p)
    show ?case
    proof (cases "next_switch_time p \<le> now")
      case False
      then have "switch_loop draws now p = Some p"
        by (simp add: switch_loop.simps [of draws now p])
      then show ?thesis
        using False by (auto simp: settled_after_def)
    next
      case True
      let ?p = "switch_once draws p"
      note t = switch_once_time [OF room True, of draws]
      have later: "next_switch_time q \<le> next_switch_time ?p"
        using less.prems(2) t by (simp add: word_le_nat_alt)
      have "\<exists>q'. switch_loop draws now ?p = Some q' \<and> settled_after now ?p q'"
      proof (cases "switches p = j")
        case False
        then have "j - switches ?p < j - switches p" "switches ?p \<le> j"
          using less.prems(1) by (simp_all add: switch_once_def)
        from less.hyps [OF this later] show ?thesis .
      next
        case eq: True
        have "0 < unat (bound (draws (\<not> link_is_on p) (switches p)))"
          using j(2) eq by (intro bound_pos) blast
        then have "unat now + 1 - unat (next_switch_time ?p) < unat now + 1 - unat (next_switch_time q)"
          using t True less.prems(2) by (simp add: word_le_nat_alt)
        then show ?thesis
          by (rule \<open>\<And>q. unat now + 1 - unat (next_switch_time q) < _ \<Longrightarrow> _\<close>)
      qed
      then show ?thesis
        using True settled_after_step by (auto simp: switch_loop.simps [of draws now p])
    qed
  qed
  from this [of q] j(1) show ?case by simp
qed

lemma ucast_small: "x \<le> 65535 \<Longrightarrow> unat (ucast x :: u32) = unat x" for x :: u64
  unfolding word_le_nat_alt unsigned_ucast_eq
  by (simp add: unsigned_take_bit_eq take_bit_nat_eq_self)

text \<open>
  The on-off link always decides. As long as ever again some draw is of at
  least a millisecond, the switching loop of \<open>wait_time\<close> ends, with the next switch in the future
  and the link on or off by the parity of the number of switches made, and the packets held
  unchanged. The answer is 0 exactly when packets are waiting to be written, and otherwise at
  most 65535 ms and not beyond the next switch.
\<close>

theorem switching_settles:
  assumes "timestamp e = (now, e')" and "unat now + 2 ^ 30 < 2 ^ 64"
    and "\<forall>i. \<exists>j \<ge> i. \<forall>on. 1 \<le> draws on j"
  shows "\<exists>w q'. switching_wait_time draws (e, q) = Some (w, (e', q')) \<and>
    now < next_switch_time q' \<and> loss_packets q' = loss_packets q \<and>
    link_is_on q' = (link_is_on q = even (switches q' - switches q)) \<and>
    (w = 0 \<longleftrightarrow> loss_packets q \<noteq> []) \<and> w \<le> 65535 \<and>
    unat now + unat w \<le> unat (next_switch_time q')"
proof -
  obtain q' where q': "switch_loop draws now q = Some q'" "settled_after now q q'"
    using switch_loop_settles [OF assms(2,3)] by blast
  define d where "d = next_switch_time q' - now"
  have d: "unat now + unat d = unat (next_switch_time q')" "d \<noteq> 0"
    using q'(2) by (auto simp: d_def settled_after_def unat_sub_if' word_less_nat_alt)
  define w :: u32 where "w = (if loss_wait_time q' = 0 then 0 else if 65535 < d then 65535 else ucast d)"
  have s: "switching_wait_time draws (e, q) = Some (w, (e', q'))"
    using assms(1) q'(1) by (simp add: switching_wait_time_def w_def d_def)
  have "loss_packets q' = loss_packets q"
    using q'(2) by (simp add: settled_after_def)
  moreover have "unat w \<le> unat d \<and> w \<le> 65535 \<and> (w = 0 \<longleftrightarrow> loss_packets q' \<noteq> [])"
  proof (cases "loss_packets q' = [] \<and> d \<le> 65535")
    case True
    then have "\<not> 65535 < d"
      by (simp add: not_less)
    then have "unat w = unat d"
      using True
      by (simp add: w_def loss_wait_time_def ucast_small)
    then show ?thesis
      using True d(2) by (auto simp: word_le_nat_alt simp flip: unat_eq_zero)
  next
    case False
    then show ?thesis
      by (auto simp: w_def loss_wait_time_def word_le_nat_alt word_less_nat_alt)
  qed
  ultimately show ?thesis
    using s q'(2) d(1) by (auto simp: settled_after_def)
qed

lemma switching_settles_witness:
  "\<exists>w q'. switching_wait_time (\<lambda>on i. 5 / 2) ((sample_clock)\<lparr>clock_reads := 3\<rparr>,
      \<lparr>loss_packets = [], link_is_on = False, next_switch_time = 0, switches = 0\<rparr>) =
        Some (w, ((sample_clock)\<lparr>clock_reads := 4\<rparr>, q')) \<and>
    1000 < next_switch_time q' \<and> loss_packets q' = [] \<and>
    link_is_on q' = (False = even (switches q' - 0)) \<and> w \<noteq> 0 \<and> w \<le> 65535"
proof -
  have t: "timestamp ((sample_clock)\<lparr>clock_reads := 3\<rparr>) =
      (1000, (sample_clock)\<lparr>clock_reads := 4\<rparr>)"
    by (simp add: sample_clock_def timestamp_after_init raw_timestamp_def)
  have "\<forall>i. \<exists>j \<ge> i. \<forall>on. 1 \<le> (\<lambda>on i. 5 / 2 :: rat) (on :: bool) (j :: nat)"
    by auto
  from switching_settles [OF t _ this, of "\<lparr>loss_packets = [], link_is_on = False,
    next_switch_time = 0, switches = 0\<rparr>"] show ?thesis
    by auto
qed

end
