(* ===== verification/Ferry.thy ===== *)
theory Ferry
  imports Poller_Loop Ferry_Queues "HOL-Library.Sublist"
begin

text \<open>
  \<open>PacketShell::Ferry\<close> of \<open>src/src/packet/packetshell.cc\<close>: the event loop that carries packets from
  a tunnel device through a queue to the sibling device, composed of the poller, the signal
  handler and any of the queues. The template parameter \<open>FerryQueueType\<close> is a record of its five
  methods, and what the loop needs of them is the locale \<open>ferry_queue\<close>, interpreted for every
  queue the shells use. The kernel is part of the world: the system calls it answers, and two
  observers of the packets it has handed out and been given.

  For every queue the loop never stops on the poller's check for a busy wait, and the packets
  given to the sibling are packets read from the tunnel, in order and at most once each.
\<close>

section \<open>The queue of a ferry\<close>

record 'q ferry_class =
  on_read :: "string \<Rightarrow> env \<times> 'q \<Rightarrow> (env \<times> 'q) res"
  on_write :: "env \<times> 'q \<Rightarrow> (string list \<times> (env \<times> 'q)) res"
  on_wait :: "env \<times> 'q \<Rightarrow> (u32 \<times> (env \<times> 'q)) res"
  on_pending :: "env \<times> 'q \<Rightarrow> bool \<times> (env \<times> 'q)"
  on_finished :: "'q \<Rightarrow> bool"

text \<open>
  A call of a callback that does not return counts as undefined: a loop that waits for nothing may
  be assumed to end. \<open>on_write\<close> yields the packets passed to \<open>fd.write\<close>, in order.
\<close>

definition returned :: "'a res option \<Rightarrow> 'a res" where
  "returned x = (case x of None \<Rightarrow> Inl Undefined | Some r \<Rightarrow> r)"

type_synonym any_link = "(env \<times> any_queue) link_queue"

definition link_class :: "any_link ferry_class" where
  "link_class =
     \<lparr>on_read = (\<lambda>pkt (e, l). case timestamp e of (now, e') \<Rightarrow>
        rbind (returned (read_packet any_ops now pkt l)) (\<lambda>l'. Inr (e', l'))),
      on_write = (\<lambda>(e, l). rbind (write_packets (\<lambda>_. Inr ()) l) (\<lambda>(out, l'). Inr (out, (e, l')))),
      on_wait = (\<lambda>(e, l). case timestamp e of (now, e') \<Rightarrow>
        rbind (returned (wait_time any_ops now l)) (\<lambda>(t, l'). Inr (t, (e', l')))),
      on_pending = (\<lambda>(e, l). (pending_output l, (e, l))),
      on_finished = finished\<rparr>"

definition delay_class :: "delay_queue ferry_class" where
  "delay_class =
     \<lparr>on_read = (\<lambda>pkt s. Inr (delay_read_packet pkt s)),
      on_write = delay_write_packets (\<lambda>_. Inr ()),
      on_wait = (\<lambda>(e, q). case delay_wait_time (e, q) of (t, e') \<Rightarrow> Inr (t, (e', q))),
      on_pending = (\<lambda>(e, q). case delay_pending_output (e, q) of (b, e') \<Rightarrow> (b, (e', q))),
      on_finished = (\<lambda>_. False)\<rparr>"

definition iid_class :: "iid_loss ferry_class" where
  "iid_class =
     \<lparr>on_read = (\<lambda>pkt s. Inr (iid_read_packet pkt s)),
      on_write = (\<lambda>(e, q). rbind (loss_write_packets (\<lambda>_. Inr ()) q) (\<lambda>(out, q'). Inr (out, (e, q')))),
      on_wait = (\<lambda>(e, q). Inr (loss_wait_time q, (e, q))),
      on_pending = (\<lambda>(e, q). (loss_pending_output q, (e, q))),
      on_finished = (\<lambda>_. False)\<rparr>"

definition switching_class :: "draws \<Rightarrow> switching_link ferry_class" where
  "switching_class draws =
     \<lparr>on_read = (\<lambda>pkt (e, q). Inr (e, switching_read_packet pkt q)),
      on_write = (\<lambda>(e, q). rbind (loss_write_packets (\<lambda>_. Inr ()) q) (\<lambda>(out, q'). Inr (out, (e, q')))),
      on_wait = (\<lambda>s. returned (map_option Inr (switching_wait_time draws s))),
      on_pending = (\<lambda>(e, q). (loss_pending_output q, (e, q))),
      on_finished = (\<lambda>_. False)\<rparr>"

definition meter_class :: "meter_queue ferry_class" where
  "meter_class =
     \<lparr>on_read = (\<lambda>pkt (e, q). Inr (e, meter_read_packet pkt q)),
      on_write = (\<lambda>(e, q). rbind (meter_write_packets (\<lambda>_. Inr ()) q) (\<lambda>(out, q'). Inr (out, (e, q')))),
      on_wait = (\<lambda>(e, q). Inr (meter_wait_time q, (e, q))),
      on_pending = (\<lambda>(e, q). (meter_pending_output q, (e, q))),
      on_finished = (\<lambda>_. False)\<rparr>"

section \<open>The loop\<close>

text \<open>
  The kernel's side of a ferry: its calls, the decoding of a \<open>signalfd_siginfo\<close>, and what becomes
  of the signals sent and raised.
\<close>

record 'k ferry_kernel =
  tun_read :: "'k sys_read"
  sibling_write :: "'k sys_write"
  signal_read :: "'k sys_read"
  decode_signal :: "string \<Rightarrow> signal"
  peek_child :: "'k peek"
  reap_child :: "'k reap"
  send_signals :: "(int \<times> signal) list \<Rightarrow> signal list \<Rightarrow> 'k \<Rightarrow> 'k res"
  poll_fds :: "'k sys_poll"
  handed_out :: "'k \<Rightarrow> string list"
  given_back :: "'k \<Rightarrow> string list"

record ('q, 'k) ferry_world =
  ferry_state :: "env \<times> 'q"
  tun :: file_descriptor
  sibling :: file_descriptor
  signal_fd :: file_descriptor
  ferry_children :: children
  kernel :: 'k
  calls :: "'k ferry_kernel"

fun write_each :: "'k sys_write \<Rightarrow> string list \<Rightarrow> file_descriptor \<times> 'k \<Rightarrow> (file_descriptor \<times> 'k) res" where
  "write_each sys_write [] st = Inr st"
| "write_each sys_write (p # ps) st =
     rbind (fd_write sys_write True p st) (\<lambda>(_, st'). write_each sys_write ps st')"

definition on_tun :: "'q ferry_class \<Rightarrow> ('q, 'k) ferry_world \<Rightarrow> (action_result \<times> ('q, 'k) ferry_world) res"
where
  "on_tun F w =
     rbind (fd_read (tun_read (calls w)) BUFFER_SIZE (tun w, kernel w)) (\<lambda>(pkt, (fd, k)).
     rbind (on_read F pkt (ferry_state w)) (\<lambda>s.
       Inr (just Continue, w\<lparr>ferry_state := s, tun := fd, kernel := k\<rparr>)))"

definition on_sibling ::
  "'q ferry_class \<Rightarrow> ('q, 'k) ferry_world \<Rightarrow> (action_result \<times> ('q, 'k) ferry_world) res" where
  "on_sibling F w =
     rbind (on_write F (ferry_state w)) (\<lambda>(out, s).
     rbind (write_each (sibling_write (calls w)) out (sibling w, kernel w)) (\<lambda>(fd, k).
       Inr (just Continue, w\<lparr>ferry_state := s, sibling := fd, kernel := k\<rparr>)))"

definition on_signal :: "('q, 'k) ferry_world \<Rightarrow> (action_result \<times> ('q, 'k) ferry_world) res" where
  "on_signal w =
     rbind (read_signal (signal_read (calls w)) (decode_signal (calls w)) (signal_fd w, kernel w))
       (\<lambda>(sig, (fd, k)).
     rbind (handle_signal (peek_child (calls w)) (reap_child (calls w)) sig (ferry_children w) k)
       (\<lambda>(out, k').
     rbind (send_signals (calls w) (killed out) (raised out) k') (\<lambda>k''.
       Inr (answer out, w\<lparr>signal_fd := fd, ferry_children := children_left out, kernel := k''\<rparr>))))"

definition ferry_actions :: "'q ferry_class \<Rightarrow> ('q, 'k) ferry_world action list" where
  "ferry_actions F =
     [\<lparr>action_fd = tun, action_direction = In, callback = on_tun F,
       when_interested = (\<lambda>w. (True, w)), active = True\<rparr>,
      \<lparr>action_fd = sibling, action_direction = Out, callback = on_sibling F,
       when_interested = (\<lambda>w. case on_pending F (ferry_state w) of (b, s) \<Rightarrow> (b, w\<lparr>ferry_state := s\<rparr>)),
       active = True\<rparr>,
      \<lparr>action_fd = sibling, action_direction = Out,
       callback = (\<lambda>w. Inr (\<lparr>result = Exit, result_exit_status = 77\<rparr>, w)),
       when_interested = (\<lambda>w. (on_finished F (snd (ferry_state w)), w)), active = True\<rparr>,
      \<lparr>action_fd = signal_fd, action_direction = In, callback = on_signal,
       when_interested = (\<lambda>w. (True, w)), active = True\<rparr>]"

text \<open>\<open>wait_time()\<close> becomes an \<open>int\<close>; \<open>::poll\<close> acts on the kernel alone.\<close>

definition ferry_wait ::
  "'q ferry_class \<Rightarrow> ('q, 'k) ferry_world \<Rightarrow> (int \<times> ('q, 'k) ferry_world) res" where
  "ferry_wait F w =
     rbind (on_wait F (ferry_state w)) (\<lambda>(t, s). Inr (sint t, w\<lparr>ferry_state := s\<rparr>))"

definition ferry_poll :: "('q, 'k) ferry_world sys_poll" where
  "ferry_poll ps t w =
     rbind (poll_fds (calls w) ps t (kernel w)) (\<lambda>(n, rs, k). Inr (n, rs, w\<lparr>kernel := k\<rparr>))"

definition ferry_start ::
  "'q ferry_class \<Rightarrow> ('q, 'k) ferry_world poller \<times> ('q, 'k) ferry_world \<Rightarrow>
     ('q, 'k) ferry_world poller \<times> ('q, 'k) ferry_world" where
  "ferry_start F s = (fold (add_action (snd s)) (ferry_actions F) (fst s), snd s)"

definition ferry_loop ::
  "'q ferry_class \<Rightarrow> ('q, 'k) ferry_world poller \<times> ('q, 'k) ferry_world \<Rightarrow>
     (u32 \<times> (('q, 'k) ferry_world poller \<times> ('q, 'k) ferry_world)) res option" where
  "ferry_loop F s = poll_loop ferry_poll (ferry_wait F) (ferry_start F s)"

section \<open>What the loop needs of its queue and of the kernel\<close>

text \<open>
  \<open>loaded\<close> says that the next write will write; \<open>carrying\<close> are the packets still to be written.
\<close>

locale ferry_queue =
  fixes F :: "'q ferry_class" and queue_inv :: "env \<times> 'q \<Rightarrow> bool"
    and loaded :: "env \<times> 'q \<Rightarrow> bool" and carrying :: "env \<times> 'q \<Rightarrow> string list"
  assumes read_law: "queue_inv s \<Longrightarrow> pkt \<noteq> [] \<Longrightarrow> on_read F pkt s = Inr s' \<Longrightarrow>
      queue_inv s' \<and> (loaded s \<longrightarrow> loaded s') \<and> subseq (carrying s') (carrying s @ [pkt])"
    and write_law: "queue_inv s \<Longrightarrow> on_write F s = Inr (out, s') \<Longrightarrow>
      queue_inv s' \<and> (loaded s \<longrightarrow> out \<noteq> []) \<and> subseq (out @ carrying s') (carrying s)"
    and wait_law: "queue_inv s \<Longrightarrow> on_wait F s = Inr (t, s') \<Longrightarrow>
      queue_inv s' \<and> subseq (carrying s') (carrying s)"
    and pending_law: "queue_inv s \<Longrightarrow> on_pending F s = (b, s') \<Longrightarrow>
      queue_inv s' \<and> (b \<or> loaded s \<longrightarrow> loaded s') \<and> carrying s' = carrying s"
    and fail_law: "queue_inv s \<Longrightarrow>
      pkt \<noteq> [] \<and> on_read F pkt s = Inl e \<or> on_write F s = Inl e \<or> on_wait F s = Inl e \<Longrightarrow>
      e \<noteq> busy_wait"

text \<open>
  A tunnel device reads and writes whole packets, never empty ones; the other calls move none. A
  call that fails has set \<open>errno\<close>.
  The session is one of fewer than \<open>2 ^ 32\<close> packets: a counter of 32 bits tells the numbers of
  writes before and after a callback apart.
\<close>

definition unmoved :: "'k ferry_kernel \<Rightarrow> 'k \<Rightarrow> 'k \<Rightarrow> bool" where
  "unmoved K k k' \<longleftrightarrow> handed_out K k' = handed_out K k \<and> given_back K k' = given_back K k"

definition unix_failure :: "'a res \<Rightarrow> bool" where
  "unix_failure r \<longleftrightarrow> (\<forall>e. r = Inl e \<longrightarrow> (\<exists>m. e = UnixError m))"

definition kernel_faithful :: "'k ferry_kernel \<Rightarrow> bool" where
  "kernel_faithful K \<longleftrightarrow>
     (\<forall>n k s k'. tun_read K n k = Inr (s, k') \<longrightarrow>
        s \<noteq> [] \<and> handed_out K k' = handed_out K k @ [s] \<and> given_back K k' = given_back K k) \<and>
     (\<forall>s k n k'. sibling_write K s k = Inr (n, k') \<longrightarrow>
        n = length s \<and> handed_out K k' = handed_out K k \<and> given_back K k' = given_back K k @ [s]) \<and>
     (\<forall>n k s k'. signal_read K n k = Inr (s, k') \<longrightarrow> unmoved K k k') \<and>
     (\<forall>pid k i k'. reap_child K pid k = Inr (i, k') \<longrightarrow> unmoved K k k') \<and>
     (\<forall>xs ys k k'. send_signals K xs ys k = Inr k' \<longrightarrow> unmoved K k k') \<and>
     (\<forall>ps t k n rs k'. poll_fds K ps t k = Inr (n, rs, k') \<longrightarrow>
        unmoved K k k' \<and> length rs = length ps) \<and>
     (\<forall>k. length (handed_out K k) < 2 ^ 32) \<and>
     (\<forall>n s pid xs ys ps t k. unix_failure (tun_read K n k) \<and> unix_failure (sibling_write K s k) \<and>
        unix_failure (signal_read K n k) \<and> unix_failure (peek_child K pid k) \<and>
        unix_failure (reap_child K pid k) \<and> unix_failure (send_signals K xs ys k) \<and>
        unix_failure (poll_fds K ps t k))"

lemma faithful_read:
  "kernel_faithful K \<Longrightarrow> tun_read K n k = Inr (s, k') \<Longrightarrow>
     s \<noteq> [] \<and> handed_out K k' = handed_out K k @ [s] \<and> given_back K k' = given_back K k"
  and faithful_write:
  "kernel_faithful K \<Longrightarrow> sibling_write K s k = Inr (m, k') \<Longrightarrow>
     m = length s \<and> handed_out K k' = handed_out K k \<and> given_back K k' = given_back K k @ [s]"
  and faithful_signal: "kernel_faithful K \<Longrightarrow> signal_read K n k = Inr (s, k') \<Longrightarrow> unmoved K k k'"
  and faithful_reap: "kernel_faithful K \<Longrightarrow> reap_child K pid k = Inr (i, k') \<Longrightarrow> unmoved K k k'"
  and faithful_send: "kernel_faithful K \<Longrightarrow> send_signals K xs ys k = Inr k' \<Longrightarrow> unmoved K k k'"
  and faithful_poll: "kernel_faithful K \<Longrightarrow> poll_fds K ps t k = Inr (j, rs, k') \<Longrightarrow>
     unmoved K k k' \<and> length rs = length ps"
  and faithful_few: "kernel_faithful K \<Longrightarrow> length (handed_out K k) < 2 ^ 32"
  and faithful_fail: "kernel_faithful K \<Longrightarrow> unix_failure (tun_read K n k) \<and>
     unix_failure (sibling_write K s k) \<and> unix_failure (signal_read K n k) \<and>
     unix_failure (peek_child K pid k) \<and> unix_failure (reap_child K pid k) \<and>
     unix_failure (send_signals K xs ys k) \<and> unix_failure (poll_fds K ps t k)"
  by (auto simp only: kernel_faithful_def)

lemma unmoved_simps:
  "unmoved K k k"
  "unmoved K k k' \<Longrightarrow> unmoved K k' k'' \<Longrightarrow> unmoved K k k''"
  by (simp_all add: unmoved_def)

text \<open>A whole packet is one write; a list of them counts as many.\<close>

lemma fd_write_whole:
  assumes "kernel_faithful K" and "fd_write (sibling_write K) True p (fd, k) = Inr (r, (fd', k'))"
  shows "handed_out K k' = handed_out K k \<and> given_back K k' = given_back K k @ [p] \<and>
    fd' = fd\<lparr>write_count := write_count fd + 1\<rparr>"
proof (cases "fd_write_part (sibling_write K) p (fd, k)")
  case (Inl e)
  then show ?thesis
    using assms(2) by (simp add: fd_write.simps)
next
  case (Inr x)
  then obtain n k1 where w: "sibling_write K p k = Inr (n, k1)"
    and x: "x = ((take n p, drop n p), (fd\<lparr>write_count := write_count fd + 1\<rparr>, k1))"
    by (auto simp: fd_write_part_def res_iff split: if_splits)
  from faithful_write [OF assms(1) w] show ?thesis
    using assms(2) Inr x by (simp add: fd_write.simps)
qed

lemma write_each_spec:
  assumes "kernel_faithful K"
  shows "write_each (sibling_write K) ps (fd, k) = Inr (fd', k') \<Longrightarrow>
    handed_out K k' = handed_out K k \<and> given_back K k' = given_back K k @ ps \<and>
    fd' = fd\<lparr>write_count := write_count fd + of_nat (length ps)\<rparr>"
proof (induction ps arbitrary: fd k)
  case Nil
  then show ?case by simp
next
  case (Cons p ps)
  then obtain r fd1 k1 where "fd_write (sibling_write K) True p (fd, k) = Inr (r, (fd1, k1))"
    and "write_each (sibling_write K) ps (fd1, k1) = Inr (fd', k')"
    by (auto simp: res_iff)
  then show ?case
    using fd_write_whole [OF assms] Cons.IH by fastforce
qed

text \<open>The signals of a ferry move no packet.\<close>

lemma sigchld_loop_unmoved:
  "kernel_faithful K \<Longrightarrow>
     sigchld_loop (peek_child K) (reap_child K) before cs k = Inr (r, cs', rs, k') \<Longrightarrow> unmoved K k k'"
proof (induction cs arbitrary: before k r cs' rs)
  case Nil
  then show ?case by (simp add: unmoved_simps)
next
  case (Cons x cs)
  obtain s c where x: "x = (s, c)" by force
  show ?case
    using Cons.prems(2) unfolding x
    by (auto simp: res_iff split: if_splits
        dest: Cons.IH [OF Cons.prems(1)] faithful_reap [OF Cons.prems(1)] intro: unmoved_simps(2))
qed

lemma handle_signal_unmoved:
  "kernel_faithful K \<Longrightarrow> handle_signal (peek_child K) (reap_child K) sig cs k = Inr (out, k') \<Longrightarrow>
     unmoved K k k'"
  by (auto simp: handle_signal_def Let_def res_iff unmoved_simps split: signal.splits if_splits
      dest: sigchld_loop_unmoved)


definition ferry_inv ::
  "(env \<times> 'q \<Rightarrow> bool) \<Rightarrow> (env \<times> 'q \<Rightarrow> string list) \<Rightarrow> ('q, 'k) ferry_world \<Rightarrow> bool" where
  "ferry_inv queue_inv carrying w \<longleftrightarrow>
     queue_inv (ferry_state w) \<and> kernel_faithful (calls w) \<and>
     subseq (given_back (calls w) (kernel w) @ carrying (ferry_state w)) (handed_out (calls w) (kernel w))"

text \<open>Only the write of packets needs a reason to be called.\<close>

definition ferry_willing :: "(env \<times> 'q \<Rightarrow> bool) \<Rightarrow> nat \<Rightarrow> ('q, 'k) ferry_world \<Rightarrow> bool" where
  "ferry_willing loaded i w \<longleftrightarrow> (i = 1 \<longrightarrow> loaded (ferry_state w))"

lemma ferry_action_cases:
  assumes "i < length (ferry_actions F)"
  obtains "i = 0" | "i = 1" | "i = 2" | "i = 3"
  using assms unfolding ferry_actions_def by (auto simp: less_Suc_eq numeral_eq_Suc)

lemma ferry_fd_nums:
  "fd_nums (ferry_actions F) w =
     [fd_num (tun w), fd_num (sibling w), fd_num (sibling w), fd_num (signal_fd w)]"
  by (simp add: fd_nums_def ferry_actions_def)

context ferry_queue
begin

lemma asked:
  assumes "ferry_inv queue_inv carrying w" and "i < length (ferry_actions F)"
    and "when_interested (ferry_actions F ! i) w = (b, w')"
  shows "ferry_inv queue_inv carrying w' \<and> fd_nums (ferry_actions F) w' = fd_nums (ferry_actions F) w \<and>
    (b \<longrightarrow> ferry_willing loaded i w') \<and> (\<forall>j. ferry_willing loaded j w \<longrightarrow> ferry_willing loaded j w')"
proof (cases rule: ferry_action_cases [OF assms(2)])
  case 2
  obtain s where p: "on_pending F (ferry_state w) = (b, s)" and w': "w' = w\<lparr>ferry_state := s\<rparr>"
    using assms(3) 2 by (auto simp: ferry_actions_def split: prod.splits)
  show ?thesis
    using pending_law [OF _ p] assms(1) 2 unfolding ferry_fd_nums
    by (auto simp: ferry_inv_def ferry_willing_def w')
qed (use assms in \<open>auto simp: ferry_actions_def ferry_willing_def\<close>)

lemma on_tun_spec:
  assumes "ferry_inv queue_inv carrying w" and "on_tun F w = Inr (r, w')"
  shows "ferry_inv queue_inv carrying w' \<and> fd_nums (ferry_actions F) w' = fd_nums (ferry_actions F) w \<and>
    (loaded (ferry_state w) \<longrightarrow> loaded (ferry_state w')) \<and> read_count (tun w') = read_count (tun w) + 1"
proof -
  let ?K = "calls w"
  obtain pkt fd k s where rd: "fd_read (tun_read ?K) BUFFER_SIZE (tun w, kernel w) = Inr (pkt, (fd, k))"
    and on: "on_read F pkt (ferry_state w) = Inr s"
    and w': "w' = w\<lparr>ferry_state := s, tun := fd, kernel := k\<rparr>"
    using assms(2) by (auto simp: on_tun_def res_iff)
  have inv: "queue_inv (ferry_state w)" "kernel_faithful ?K"
    and sub: "subseq (given_back ?K (kernel w) @ carrying (ferry_state w)) (handed_out ?K (kernel w))"
    using assms(1) by (simp_all add: ferry_inv_def)
  note fd = fd_read_shape [OF rd]
  have k: "pkt \<noteq> []" "handed_out ?K k = handed_out ?K (kernel w) @ [pkt]"
      "given_back ?K k = given_back ?K (kernel w)"
    using faithful_read [OF inv(2), of "min BUFFER_SIZE BUFFER_SIZE" "kernel w" pkt k] fd by blast+
  note law = read_law [OF inv(1) k(1) on]
  have "subseq (given_back ?K (kernel w) @ carrying s)
      (given_back ?K (kernel w) @ carrying (ferry_state w) @ [pkt])"
    using law by (simp add: list_emb_append_mono)
  moreover have "subseq ((given_back ?K (kernel w) @ carrying (ferry_state w)) @ [pkt])
      (handed_out ?K (kernel w) @ [pkt])"
    using sub by (rule list_emb_append_mono) simp
  ultimately have "subseq (given_back ?K k @ carrying s) (handed_out ?K k)"
    unfolding k by (metis append.assoc subseq_order.trans)
  then show ?thesis
    using law inv fd unfolding ferry_fd_nums by (simp add: ferry_inv_def w')
qed

lemma on_sibling_spec:
  assumes "ferry_inv queue_inv carrying w" and "on_sibling F w = Inr (r, w')"
  shows "ferry_inv queue_inv carrying w' \<and> fd_nums (ferry_actions F) w' = fd_nums (ferry_actions F) w \<and>
    (loaded (ferry_state w) \<longrightarrow> write_count (sibling w') \<noteq> write_count (sibling w))"
proof -
  let ?K = "calls w"
  obtain out s fd k where on: "on_write F (ferry_state w) = Inr (out, s)"
    and wr: "write_each (sibling_write ?K) out (sibling w, kernel w) = Inr (fd, k)"
    and w': "w' = w\<lparr>ferry_state := s, sibling := fd, kernel := k\<rparr>"
    using assms(2) by (auto simp: on_sibling_def res_iff)
  have inv: "queue_inv (ferry_state w)" "kernel_faithful ?K"
    and sub: "subseq (given_back ?K (kernel w) @ carrying (ferry_state w)) (handed_out ?K (kernel w))"
    using assms(1) by (simp_all add: ferry_inv_def)
  note law = write_law [OF inv(1) on] and ke = write_each_spec [OF inv(2) wr]
  have "subseq (given_back ?K (kernel w) @ out @ carrying s)
      (given_back ?K (kernel w) @ carrying (ferry_state w))"
    using law by (simp add: list_emb_append_mono)
  with sub have order: "subseq (given_back ?K k @ carrying s) (handed_out ?K k)"
    using ke by (metis append.assoc subseq_order.trans)
  have "length out \<le> length (carrying (ferry_state w))"
    using law by (metis add_leE length_append list_emb_length)
  also have "\<dots> \<le> length (handed_out ?K (kernel w))"
    using sub by (metis add_leE length_append list_emb_length)
  finally have few: "length out < 2 ^ 32"
    using faithful_few [OF inv(2), of "kernel w"] by simp
  have "of_nat (length out) \<noteq> (0 :: u32)" if "out \<noteq> []"
    using unat_of_nat_u32 [OF few] that by (metis length_0_conv unat_0)
  then show ?thesis
    using law inv ke order unfolding ferry_fd_nums by (auto simp: ferry_inv_def w')
qed

lemma on_signal_spec:
  assumes "ferry_inv queue_inv carrying w" and "on_signal w = Inr (r, w')"
  shows "ferry_inv queue_inv carrying w' \<and> fd_nums (ferry_actions F) w' = fd_nums (ferry_actions F) w \<and>
    read_count (signal_fd w') = read_count (signal_fd w) + 1"
proof -
  let ?K = "calls w"
  obtain sig fd k out k1 k2
    where rd: "read_signal (signal_read ?K) (decode_signal ?K) (signal_fd w, kernel w) = Inr (sig, (fd, k))"
    and h: "handle_signal (peek_child ?K) (reap_child ?K) sig (ferry_children w) k = Inr (out, k1)"
    and snd: "send_signals ?K (killed out) (raised out) k1 = Inr k2"
    and w': "w' = w\<lparr>signal_fd := fd, ferry_children := children_left out, kernel := k2\<rparr>"
    using assms(2) by (auto simp: on_signal_def res_iff)
  have inv: "kernel_faithful ?K"
    using assms(1) by (simp add: ferry_inv_def)
  obtain s where s: "fd_read (signal_read ?K) SIGINFO_SIZE (signal_fd w, kernel w) = Inr (s, (fd, k))"
    using rd by (auto simp: read_signal_def res_iff split: if_splits)
  have "unmoved ?K (kernel w) k"
    using faithful_signal [OF inv] fd_read_shape [OF s] by blast
  moreover have "unmoved ?K k k1"
    by (rule handle_signal_unmoved [OF inv h])
  moreover have "unmoved ?K k1 k2"
    by (rule faithful_send [OF inv snd])
  ultimately have "unmoved ?K (kernel w) k2"
    by (blast intro: unmoved_simps(2))
  then show ?thesis
    using assms(1) fd_read_shape [OF s] unfolding ferry_fd_nums
    by (simp add: ferry_inv_def w' unmoved_def)
qed

lemma called:
  assumes "ferry_inv queue_inv carrying w" and "i < length (ferry_actions F)"
    and "ferry_willing loaded i w" and "callback (ferry_actions F ! i) w = Inr (r, w')"
  shows "ferry_inv queue_inv carrying w' \<and> fd_nums (ferry_actions F) w' = fd_nums (ferry_actions F) w \<and>
    (\<forall>j > i. ferry_willing loaded j w \<longrightarrow> ferry_willing loaded j w') \<and>
    (result r = Exit \<or> service_count w (ferry_actions F ! i) \<noteq> service_count w' (ferry_actions F ! i))"
proof (cases rule: ferry_action_cases [OF assms(2)])
  case 1
  then have "on_tun F w = Inr (r, w')"
    using assms(4) by (simp add: ferry_actions_def)
  from on_tun_spec [OF assms(1) this] show ?thesis
    using 1 by (auto simp: ferry_actions_def ferry_willing_def service_count_def)
next
  case 2
  then have "on_sibling F w = Inr (r, w')"
    using assms(4) by (simp add: ferry_actions_def)
  from on_sibling_spec [OF assms(1) this] show ?thesis
    using 2 assms(3) by (auto simp: ferry_actions_def ferry_willing_def service_count_def)
next
  case 3
  then show ?thesis
    using assms by (auto simp: ferry_actions_def numeral_eq_Suc)
next
  case 4
  then have "on_signal w = Inr (r, w')"
    using assms(4) by (simp add: ferry_actions_def numeral_eq_Suc)
  from on_signal_spec [OF assms(1) this] show ?thesis
    using 4 by (auto simp: ferry_actions_def ferry_willing_def service_count_def numeral_eq_Suc)
qed

lemma polled:
  assumes "ferry_inv queue_inv carrying w" and "ferry_poll ps t w = Inr (n, rs, w')"
  shows "ferry_inv queue_inv carrying w' \<and> fd_nums (ferry_actions F) w' = fd_nums (ferry_actions F) w \<and>
    length rs = length ps \<and> (\<forall>j. ferry_willing loaded j w \<longrightarrow> ferry_willing loaded j w')"
proof -
  obtain k where k: "poll_fds (calls w) ps t (kernel w) = Inr (n, rs, k)"
    and w': "w' = w\<lparr>kernel := k\<rparr>"
    using assms(2) by (auto simp: ferry_poll_def res_iff)
  have "kernel_faithful (calls w)"
    using assms(1) by (simp add: ferry_inv_def)
  from faithful_poll [OF this k] show ?thesis
    using assms(1) unfolding ferry_fd_nums
    by (simp add: ferry_inv_def ferry_willing_def w' unmoved_def)
qed

lemma waited:
  assumes "ferry_inv queue_inv carrying w" and "ferry_wait F w = Inr (t, w')"
  shows "ferry_inv queue_inv carrying w' \<and> fd_nums (ferry_actions F) w' = fd_nums (ferry_actions F) w"
proof -
  obtain u s where s: "on_wait F (ferry_state w) = Inr (u, s)" and w': "w' = w\<lparr>ferry_state := s\<rparr>"
    using assms(2) by (auto simp: ferry_wait_def res_iff)
  have "queue_inv (ferry_state w)"
    using assms(1) by (simp add: ferry_inv_def)
  note law = wait_law [OF this s]
  have "subseq (given_back (calls w) (kernel w) @ carrying s)
      (given_back (calls w) (kernel w) @ carrying (ferry_state w))"
    using law by (simp add: list_emb_append_mono)
  then show ?thesis
    using assms(1) law unfolding ferry_fd_nums
    by (auto simp: ferry_inv_def w' intro: subseq_order.trans)
qed

end

sublocale ferry_queue \<subseteq> ferry: poller_client "ferry_actions F" "ferry_inv queue_inv carrying"
  "ferry_willing loaded" ferry_poll
  by unfold_locales (fact asked called polled)+

end
