(* ===== verification/Ferry_Service.thy ===== *)
theory Ferry_Service
  imports Ferry
begin

text \<open>
  The queues of the shells in the loop of a ferry: the locale \<open>ferry_queue\<close> is interpreted for
  the link, the delay, both losses and the meter, and the guarantee of the loop is stated for
  them. The first half shows that none of the callbacks can end with the poller's own error.
\<close>

section \<open>The errors of the callbacks\<close>

text \<open>None of the errors a callback can end with is the poller's.\<close>

lemma unix_not_busy: "unix_failure r \<Longrightarrow> r \<noteq> Inl busy_wait"
  by (auto simp: unix_failure_def busy_wait_def)

lemma faithful_not_busy:
  assumes "kernel_faithful K"
  shows "tun_read K n k \<noteq> Inl busy_wait" "sibling_write K s k \<noteq> Inl busy_wait"
    "signal_read K n k \<noteq> Inl busy_wait" "peek_child K pid k \<noteq> Inl busy_wait"
    "reap_child K pid k \<noteq> Inl busy_wait" "send_signals K xs ys k \<noteq> Inl busy_wait"
    "poll_fds K ps t k \<noteq> Inl busy_wait"
  using faithful_fail [OF assms] by (simp_all add: unix_not_busy)

lemma other_not_busy [simp]:
  "UnixError m \<noteq> busy_wait" "AssertFail \<noteq> busy_wait" "Undefined \<noteq> busy_wait"
  "RuntimeError (CHR ''f'' # m) \<noteq> busy_wait"
  by (simp_all add: busy_wait_def)

lemma fd_read_not_busy:
  "sys_read (min BUFFER_SIZE n) k \<noteq> Inl busy_wait \<Longrightarrow> fd_read sys_read n (fd, k) \<noteq> Inl busy_wait"
  by (auto simp: fd_read_def res_iff Let_def)

lemma fd_write_part_not_busy:
  "sys_write p k \<noteq> Inl busy_wait \<Longrightarrow> fd_write_part sys_write p (fd, k) \<noteq> Inl busy_wait"
  by (auto simp: fd_write_part_def res_iff busy_wait_def split: if_splits)

lemma fd_write_not_busy:
  "(\<And>p k. sys_write p k \<noteq> Inl busy_wait) \<Longrightarrow> fd_write sys_write all s st \<noteq> Inl busy_wait"
proof (induction sys_write all s st rule: fd_write.induct)
  case (1 sys_write all s st)
  have "fd_write_part sys_write s st \<noteq> Inl busy_wait"
    by (cases st) (simp add: fd_write_part_not_busy 1(2))
  then show ?case
    using 1 by (subst fd_write.simps) (auto simp: res_iff split: sum.splits)
qed

lemma write_each_not_busy:
  "(\<And>p k. sys_write p k \<noteq> Inl busy_wait) \<Longrightarrow> write_each sys_write ps st \<noteq> Inl busy_wait"
  by (induction ps arbitrary: st) (auto simp: res_iff fd_write_not_busy)

lemma child_not_busy:
  "waitable i c \<noteq> Inl busy_wait"
  "child_wait b i c \<noteq> Inl busy_wait"
  "child_terminated c \<noteq> Inl busy_wait"
  "child_resume c \<noteq> Inl busy_wait"
  by (auto simp: waitable_def child_wait_def child_changed_def child_terminated_def child_resume_def
      child_signal_def busy_wait_def split: if_splits si_code.splits)

lemma all_terminated_not_busy: "all_terminated cs \<noteq> Inl busy_wait"
  by (induction cs rule: all_terminated.induct) (auto simp: res_iff child_not_busy split: if_splits)

lemma child_gone_not_busy: "child_gone before s c behind \<noteq> Inl busy_wait"
  using all_terminated_not_busy
  by (auto simp: child_gone_def child_exception_def Let_def res_iff split: if_splits)
    (auto simp: busy_wait_def)

lemma resume_all_not_busy: "resume_all cs \<noteq> Inl busy_wait"
  by (induction cs rule: resume_all.induct) (auto simp: res_iff child_not_busy)

lemma sigchld_loop_not_busy:
  assumes "kernel_faithful K"
  shows "sigchld_loop (peek_child K) (reap_child K) before cs k \<noteq> Inl busy_wait"
proof (induction cs arbitrary: before k)
  case Nil
  then show ?case by simp
next
  case (Cons x cs)
  obtain s c where x: "x = (s, c)" by force
  show ?case
    unfolding x
    by (auto simp: res_iff Cons.IH child_not_busy child_gone_not_busy faithful_not_busy [OF assms]
        split: if_splits)
qed

lemma handle_signal_not_busy:
  assumes "kernel_faithful K"
  shows "handle_signal (peek_child K) (reap_child K) sig cs k \<noteq> Inl busy_wait"
  by (auto simp: handle_signal_def Let_def res_iff resume_all_not_busy
      sigchld_loop_not_busy [OF assms] split: signal.splits if_splits)
    (auto simp: busy_wait_def)

lemma read_signal_not_busy:
  "(\<And>n k. sys_read n k \<noteq> Inl busy_wait) \<Longrightarrow> read_signal sys_read d (fd, k) \<noteq> Inl busy_wait"
  using fd_read_not_busy [of sys_read SIGINFO_SIZE k fd]
  by (auto simp: read_signal_def res_iff split: if_splits) (simp add: busy_wait_def)

section \<open>The loop\<close>

lemma subseq_append_right [simp]: "subseq xs (xs @ ys)"
  using list_emb_append_mono [of "(=)" xs xs "[]" ys] by simp

context ferry_queue
begin

lemma callbacks_not_busy:
  assumes "ferry_inv queue_inv carrying w"
  shows "on_tun F w \<noteq> Inl busy_wait" "on_sibling F w \<noteq> Inl busy_wait" "on_signal w \<noteq> Inl busy_wait"
    "ferry_wait F w \<noteq> Inl busy_wait" "ferry_poll ps t w \<noteq> Inl busy_wait"
proof -
  have k: "kernel_faithful (calls w)" and q: "queue_inv (ferry_state w)"
    using assms by (simp_all add: ferry_inv_def)
  note kernel = faithful_not_busy [OF k]
  have queue: "on_write F (ferry_state w) \<noteq> Inl busy_wait" "on_wait F (ferry_state w) \<noteq> Inl busy_wait"
    using fail_law [OF q] by blast+
  have "on_read F pkt (ferry_state w) \<noteq> Inl busy_wait"
    if "fd_read (tun_read (calls w)) BUFFER_SIZE (tun w, kernel w) = Inr (pkt, (fd, k'))" for pkt fd k'
    using fail_law [OF q, of pkt] faithful_read [OF k] fd_read_shape [OF that] by blast
  then show "on_tun F w \<noteq> Inl busy_wait"
    by (auto simp: on_tun_def res_iff fd_read_not_busy kernel)
  show "on_sibling F w \<noteq> Inl busy_wait"
    by (auto simp: on_sibling_def res_iff write_each_not_busy kernel queue)
  show "on_signal w \<noteq> Inl busy_wait"
    by (auto simp: on_signal_def res_iff read_signal_not_busy handle_signal_not_busy [OF k] kernel)
  show "ferry_wait F w \<noteq> Inl busy_wait"
    by (auto simp: ferry_wait_def res_iff queue)
  show "ferry_poll ps t w \<noteq> Inl busy_wait"
    by (auto simp: ferry_poll_def res_iff kernel)
qed

text \<open>The loop from its start: four actions, all switched on.\<close>

lemma pass_spec:
  fixes w :: "('q, 'k) ferry_world"
  assumes inv: "ferry_inv queue_inv carrying w"
    and pass: "passes ferry_poll (ferry_wait F) (ferry_start F (poller_new, w)) s"
  shows "case loop_pass ferry_poll (ferry_wait F) s of
      Inl e \<Rightarrow> e \<noteq> busy_wait
    | Inr (r, run, (p', w')) \<Rightarrow> ferry_inv queue_inv carrying w'"
proof -
  have start: "poller_client.holds (ferry_actions F) (fst (ferry_start F (poller_new, w))) w"
    unfolding ferry.holds_def ferry_fd_nums
    by (simp add: ferry_start_def ferry_actions_def add_action_def poller_new_def)
  have ends: "case loop_pass ferry_poll (ferry_wait F) s of
      Inl e \<Rightarrow> poller_client.fault (ferry_actions F) (ferry_inv queue_inv carrying) (ferry_willing loaded)
          (ferry_poll :: ('q, 'k) ferry_world sys_poll) e \<or>
        (\<exists>w :: ('q, 'k) ferry_world. ferry_inv queue_inv carrying w \<and> ferry_wait F w = Inl e)
    | Inr (r, run, (p', w')) \<Rightarrow>
        ferry_inv queue_inv carrying w' \<and> poller_client.holds (ferry_actions F) p' w'"
    by (rule ferry.loop_pass_client [OF pass])
      (use inv start waited in \<open>simp_all add: ferry_start_def\<close>)
  have "callback (ferry_actions F ! i) w \<noteq> Inl busy_wait"
    if "i < length (ferry_actions F)" "ferry_inv queue_inv carrying w" for i and w :: "('q, 'k) ferry_world"
    using callbacks_not_busy [OF that(2)]
    by (cases rule: ferry_action_cases [OF that(1)]) (simp_all add: ferry_actions_def numeral_eq_Suc)
  then have "\<not> poller_client.fault (ferry_actions F) (ferry_inv queue_inv carrying) (ferry_willing loaded)
      (ferry_poll :: ('q, 'k) ferry_world sys_poll) busy_wait"
    using callbacks_not_busy(5) unfolding ferry.fault_def by blast
  with ends callbacks_not_busy(4) show ?thesis
    by (auto split: sum.splits)
qed

text \<open>What is true before and after every pass of the loop of a new ferry.\<close>

lemma service:
  assumes "kernel_faithful (calls w)" and "given_back (calls w) (kernel w) = []"
    and "queue_inv (ferry_state w)" and "carrying (ferry_state w) = []"
    and "passes ferry_poll (ferry_wait F) (ferry_start F (poller_new, w)) s"
  shows "case loop_pass ferry_poll (ferry_wait F) s of
      Inl e \<Rightarrow> e \<noteq> busy_wait
    | Inr (r, run, (p', w')) \<Rightarrow>
        subseq (given_back (calls w') (kernel w')) (handed_out (calls w') (kernel w'))"
proof -
  have "ferry_inv queue_inv carrying w"
    using assms(1-4) by (simp add: ferry_inv_def)
  from pass_spec [OF this assms(5)] show ?thesis
    by (auto simp: ferry_inv_def split: sum.splits intro: subseq_order.trans [OF subseq_append_right])
qed

end

section \<open>The queues\<close>

lemma write_all_accepted [simp]: "write_all (\<lambda>_. Inr ()) xs = Inr ()"
  by (induction xs) auto

lemma loss_write_accepted [simp]:
  "loss_write_packets (\<lambda>_. Inr ()) q = Inr (loss_packets q, q\<lparr>loss_packets := []\<rparr>)"
  by (simp add: loss_write_packets_def)

interpretation meter_ferry: ferry_queue meter_class "\<lambda>_. True"
  "\<lambda>s. meter_packets (snd s) \<noteq> []" "\<lambda>s. meter_packets (snd s)"
  by unfold_locales
    (auto simp: meter_class_def meter_read_packet_def meter_write_packets_def meter_pending_output_def)

interpretation iid_ferry: ferry_queue iid_class "\<lambda>_. True"
  "\<lambda>s. loss_packets (snd s) \<noteq> []" "\<lambda>s. loss_packets (snd s)"
  by unfold_locales
    (auto simp: iid_class_def iid_read_packet_def loss_read_packet_def loss_pending_output_def
      split: prod.splits if_splits)

text \<open>Switching moves no packet.\<close>

lemma switch_loop_packets:
  assumes "switch_loop draws now q = Some q'"
  shows "loss_packets q' = loss_packets q"
proof -
  have "loss_packets q' = loss_packets q" if "switch_loop draws now q = Some q'" for draws now q q'
    using that
  proof (induction draws now q q' rule: switch_loop.raw_induct [rotated, consumes 1, case_names step])
    case (step loop draws now q q')
    then show ?case
      by (fastforce simp: switch_once_def split: if_splits)
  qed
  then show ?thesis using assms .
qed

interpretation switching_ferry: ferry_queue "switching_class draws" "\<lambda>_. True"
  "\<lambda>s. loss_packets (snd s) \<noteq> []" "\<lambda>s. loss_packets (snd s)" for draws
  by unfold_locales
    (auto simp: switching_class_def switching_read_packet_def loss_read_packet_def
      loss_pending_output_def switching_wait_time_def returned_def switch_loop_packets
      split: prod.splits if_splits option.splits)

text \<open>A packet that was due stays due: the clock does not go back.\<close>

definition delay_due :: "env \<times> delay_queue \<Rightarrow> bool" where
  "delay_due s \<longleftrightarrow> delayed (snd s) \<noteq> [] \<and> fst (hd (delayed (snd s))) \<le> last_time (fst s)"

definition delay_ferry_inv :: "env \<times> delay_queue \<Rightarrow> bool" where
  "delay_ferry_inv s \<longleftrightarrow> delay_inv (fst s) (snd s) \<and> delay_ms (snd s) < 2 ^ 32"

definition delay_carrying :: "env \<times> delay_queue \<Rightarrow> string list" where
  "delay_carrying s = map snd (delayed (snd s))"

lemma delay_clock:
  assumes "delay_inv e q" and "timestamp e = (now, e')"
  shows "last_time e \<le> last_time e' \<and> now = last_time e'"
proof -
  have "clock_steady (delay_ms q) e"
    using assms(1) by (simp add: delay_inv_def)
  from timestamp_reads [OF this assms(2)] show ?thesis by metis
qed

lemma delay_read_ferry:
  assumes "delay_ferry_inv s" and "delay_read_packet pkt s = s'"
  shows "delay_ferry_inv s' \<and> (delay_due s \<longrightarrow> delay_due s') \<and>
    delay_carrying s' = delay_carrying s @ [pkt]"
proof -
  obtain e q e' q' where s: "s = (e, q)" "s' = (e', q')" by (metis surj_pair)
  have inv: "delay_inv e q" and small: "delay_ms q < 2 ^ 32"
    using assms(1) by (simp_all add: s delay_ferry_inv_def)
  note r = delay_read_inv [OF inv assms(2) [unfolded s]]
  obtain now e1 where t: "timestamp e = (now, e1)" by force
  have "e1 = e'"
    using assms(2) t by (simp add: s delay_read_packet_def)
  then have "last_time e \<le> last_time e'"
    using delay_clock [OF inv t] by simp
  then show ?thesis
    using r small unfolding s delay_ferry_inv_def delay_due_def delay_carrying_def
    by (cases "delayed q") auto
qed

lemma delay_write_ferry:
  assumes "delay_ferry_inv s"
  shows "\<exists>out s'. delay_write_packets (\<lambda>_. Inr ()) s = Inr (out, s') \<and> delay_ferry_inv s' \<and>
    (delay_due s \<longrightarrow> out \<noteq> []) \<and> out @ delay_carrying s' = delay_carrying s"
proof -
  obtain e q where s: "s = (e, q)" by force
  have inv: "delay_inv e q" and small: "delay_ms q < 2 ^ 32"
    using assms by (simp_all add: s delay_ferry_inv_def)
  from delay_write_inv [OF inv] obtain out e' q' where
    w: "delay_write_packets (\<lambda>_. Inr ()) (e, q) = Inr (map snd out, (e', q'))" "delay_inv e' q'"
      "delay_ms q' = delay_ms q" "delayed q = out @ delayed q'"
      "\<forall>x \<in> set (delayed q'). last_time e' < fst x"
    by blast
  have "out \<noteq> []" if "delay_due s"
  proof
    assume "out = []"
    have "last_time e \<le> last_time e'"
      using delay_write_loop_spec [of "delay_ms q" e "delayed q"] inv w(1)
      by (auto simp: delay_inv_def delay_write_packets_def)
    moreover have "hd (delayed q') \<in> set (delayed q')" "fst (hd (delayed q')) \<le> last_time e"
      using that w(4) \<open>out = []\<close> by (simp_all add: s delay_due_def)
    ultimately show False
      using w(5) by fastforce
  qed
  then show ?thesis
    using w small by (auto simp: s delay_ferry_inv_def delay_carrying_def)
qed

text \<open>The wait is at most the delay, so its 32 bits are 0 only when a packet is due.\<close>

lemma delay_wait_ferry:
  assumes "delay_ferry_inv (e, q)" and "delay_wait_time (e, q) = (t, e')"
  shows "delay_ferry_inv (e', q) \<and> (t = 0 \<or> delay_due (e, q) \<longrightarrow> delay_due (e', q))"
proof -
  have inv: "delay_inv e q" and small: "delay_ms q < 2 ^ 32"
    using assms(1) by (simp_all add: delay_ferry_inv_def)
  show ?thesis
  proof (cases "delayed q")
    case Nil
    then show ?thesis
      using assms by (auto simp: delay_wait_time_def delay_due_def)
  next
    case (Cons x rest)
    obtain release pkt where x: "x = (release, pkt)" by force
    obtain now e1 where ts: "timestamp e = (now, e1)" by force
    have e1: "e' = e1" and t: "t = (if release \<le> now then 0 else ucast (release - now))"
      using assms(2) ts Cons x by (auto simp: delay_wait_time_def split: if_splits)
    note c = delay_clock [OF inv ts] and later = delay_inv_later [OF inv ts]
    have "release \<le> now" if "t = 0"
    proof (rule ccontr)
      assume not_due: "\<not> release \<le> now"
      then have lt: "now < release" by simp
      have "release \<le> now + delay_ms q" and "unat now + unat (delay_ms q) < 2 ^ 64"
        using later last_time_room [of "delay_ms q" e1] c Cons x by (auto simp: delay_inv_def)
      then have "unat release \<le> unat now + unat (delay_ms q)"
        by (simp add: word_le_nat_alt unat_word_ariths)
      moreover have "unat (delay_ms q) < 2 ^ 32"
        using small by (simp add: word_less_nat_alt)
      moreover have "unat (release - now) = unat release - unat now"
        using lt by (simp add: unat_sub order.strict_implies_order)
      ultimately have "unat (release - now) < 2 ^ 32"
        by linarith
      moreover have "ucast (release - now) = (0 :: u32)"
        using \<open>t = 0\<close> t not_due by simp
      then have "unat (ucast (release - now) :: u32) = 0"
        by simp
      then have "unat (release - now) mod 2 ^ 32 = 0"
        by (simp add: unsigned_ucast_eq take_bit_eq_mod)
      ultimately have "release - now = 0"
        by (simp add: unat_eq_0)
      with lt show False by simp
    qed
    then show ?thesis
      using later small c e1 Cons x by (auto simp: delay_ferry_inv_def delay_due_def)
  qed
qed

interpretation delay_ferry: ferry_queue delay_class delay_ferry_inv delay_due delay_carrying
proof
  show "delay_ferry_inv s' \<and> (delay_due s \<longrightarrow> delay_due s') \<and>
      subseq (delay_carrying s') (delay_carrying s @ [pkt])"
    if "delay_ferry_inv s" "pkt \<noteq> []" "on_read delay_class pkt s = Inr s'" for s s' pkt
    using that delay_read_ferry [of s pkt s'] by (simp add: delay_class_def)
  show "delay_ferry_inv s' \<and> (delay_due s \<longrightarrow> out \<noteq> []) \<and>
      subseq (out @ delay_carrying s') (delay_carrying s)"
    if "delay_ferry_inv s" "on_write delay_class s = Inr (out, s')" for s s' out
    using that delay_write_ferry [of s] by (auto simp: delay_class_def)
  show "delay_ferry_inv s' \<and> subseq (delay_carrying s') (delay_carrying s)"
    if "delay_ferry_inv s" "on_wait delay_class s = Inr (t, s')" for s s' t
    using that delay_wait_ferry by (auto simp: delay_class_def delay_carrying_def split: prod.splits)
  show "delay_ferry_inv s' \<and> (b \<or> delay_due s \<longrightarrow> delay_due s') \<and> delay_carrying s' = delay_carrying s"
    if "delay_ferry_inv s" "on_pending delay_class s = (b, s')" for s s' b
    using that delay_wait_ferry
    by (auto simp: delay_class_def delay_pending_output_def delay_carrying_def split: prod.splits)
  show "e \<noteq> busy_wait"
    if "delay_ferry_inv s" "pkt \<noteq> [] \<and> on_read delay_class pkt s = Inl e \<or> on_write delay_class s = Inl e \<or>
      on_wait delay_class s = Inl e" for s pkt e
    using that delay_write_ferry [of s] by (auto simp: delay_class_def split: prod.splits)
qed

text \<open>A link: packets ready for the sibling stay ready until they are written.\<close>

lemma send_some_output:
  "output_queue l \<noteq> [] \<Longrightarrow> output_queue (send_some t n l) \<noteq> []"
  by (simp add: send_some_def record_departure_def Let_def)

lemma load_transit_output:
  "load_transit Q l = Inr (Some l1) \<Longrightarrow> output_queue l1 = output_queue l"
  by (auto simp: load_transit_def res_iff split: if_splits)

lemma deliver_output:
  assumes "output_queue l \<noteq> []"
  shows "case deliver Q t n l of Inl e \<Rightarrow> True | Inr l' \<Rightarrow> output_queue l' \<noteq> []"
  by (rule deliver_rule [where P = "\<lambda>_ l. output_queue l \<noteq> []"])
    (auto simp: assms load_transit_output send_some_output)

lemma link_step_output:
  assumes "clock_ok now l" and "output_queue l \<noteq> []"
  shows "case link_step Q t l of Inl e \<Rightarrow> True | Inr l' \<Rightarrow> output_queue l' \<noteq> []"
proof -
  obtain l1 where "use_a_delivery_opportunity l = Inr l1" "output_queue l1 = output_queue l"
    using use_opportunity_shape [OF assms(1)] by blast
  then show ?thesis
    using deliver_output [of l1 Q t MTU] assms(2) by (simp add: link_step_def)
qed

lemma rationalize_output:
  assumes "clock_ok now l" and "rationalize Q now l = Some (Inr l')" and "output_queue l \<noteq> []"
  shows "output_queue l' \<noteq> []"
  using rationalize_rule [OF assms(1), where P = "\<lambda>l. output_queue l \<noteq> []" and E = "\<lambda>_. True" and Q = Q]
    link_step_output assms(2,3) by auto

text \<open>The errors of the queues are assertions and undefined behaviour.\<close>

lemma sizes_not_busy [simp]: "size_bytes q \<noteq> Inl busy_wait" "size_packets q \<noteq> Inl busy_wait"
  by (simp_all add: size_bytes_def size_packets_def)

lemma dropping_not_busy [simp]:
  "good q \<noteq> Inl busy_wait" "assert_good q \<noteq> Inl busy_wait" "good_with_packet p q \<noteq> Inl busy_wait"
  "dropping_dequeue q \<noteq> Inl busy_wait"
  by (auto simp: good_def assert_good_def good_with_packet_def dropping_dequeue_def res_iff
      split: list.splits if_splits)

lemma drophead_loop_not_busy [simp]: "drophead_loop q \<noteq> Inl busy_wait"
proof (induction q rule: drophead_loop.induct)
  case (1 q)
  have "drophead_loop (snd r) \<noteq> Inl busy_wait" if "good q = Inr False" "dropping_dequeue q = Inr r" for r
    using 1 that by blast
  then show ?case
    by (subst drophead_loop.simps) (fastforce split: sum.splits bool.splits)
qed

lemma codel_not_busy [simp]:
  "fit_to_drop now p q \<noteq> Inl busy_wait" "dodequeue now r \<noteq> Inl busy_wait"
  "control_law i t c \<noteq> Inl busy_wait"
  by (auto simp: fit_to_drop_def dodequeue_def control_law_def res_iff Let_def split: if_splits)

lemma codel_drop_loop_not_busy [simp]: "codel_drop_loop now q \<noteq> Inl busy_wait"
proof (induction now q rule: codel_drop_loop.induct)
  case (1 now q)
  show ?case
    by (subst codel_drop_loop.simps) (auto simp: 1 Let_def split: sum.splits)
qed

lemma pie_update_not_busy [simp]: "pie_update q \<noteq> Inl busy_wait"
  by (auto simp: pie_update_def next_burst_def res_iff Let_def split: if_splits)

lemma pie_update_loop_not_busy [simp]: "pie_update_loop now q \<noteq> Inl busy_wait"
proof (induction now q rule: pie_update_loop.induct)
  case (1 now q)
  then show ?case
    by (subst pie_update_loop.simps) (auto simp: res_iff)
qed

lemma pie_not_busy [simp]: "pie_enqueue p s \<noteq> Inl busy_wait" "pie_dequeue s \<noteq> Inl busy_wait"
  by (cases s; auto simp: pie_enqueue_def pie_dequeue_def drop_early_def calculate_drop_prob_def
      res_iff Let_def split: prod.splits if_splits)+

lemma any_not_busy: "any_enqueue p s \<noteq> Inl busy_wait" "any_dequeue s \<noteq> Inl busy_wait"
proof -
  show "any_enqueue p s \<noteq> Inl busy_wait"
    by (cases "(p, s)" rule: any_enqueue.cases)
      (auto simp: with_queue_def infinite_enqueue_def droptail_enqueue_def drophead_enqueue_def
        codel_enqueue_def res_iff)
  have "infinite_dequeue q \<noteq> Inl busy_wait" for q
    by (cases q) auto
  then show "any_dequeue s \<noteq> Inl busy_wait"
    by (cases s rule: any_dequeue.cases)
      (auto simp: codel_dequeue_def codel_control_def res_iff Let_def split: if_splits prod.splits)
qed

definition link_ferry_inv :: "env \<times> any_link \<Rightarrow> bool" where
  "link_ferry_inv s \<longleftrightarrow>
     clock_steady (last (schedule (snd s))) (fst s) \<and> clock_ok 0 (snd s) \<and> link_inv any_inv any_packets (snd s)"

definition link_ready :: "env \<times> any_link \<Rightarrow> bool" where
  "link_ready s \<longleftrightarrow> output_queue (snd s) \<noteq> []"

definition link_carrying :: "env \<times> any_link \<Rightarrow> string list" where
  "link_carrying s = flow any_packets (snd s)"

lemma link_clock:
  assumes "link_ferry_inv (e, l)" and "timestamp e = (now, e')"
  shows "clock_ok now l \<and> clock_steady (last (schedule l)) e' \<and> link_inv any_inv any_packets l"
proof -
  have s: "clock_steady (last (schedule l)) e" and "clock_ok 0 l" and inv: "link_inv any_inv any_packets l"
    using assms(1) by (simp_all add: link_ferry_inv_def)
  note r = timestamp_reads [OF s assms(2)]
  then have "unat now + unat (last (schedule l)) < 2 ^ 64"
    using s by (auto simp: clock_steady_def)
  with r inv \<open>clock_ok 0 l\<close> clock_ok_other show ?thesis by blast
qed

lemma link_call_ferry:
  assumes "link_ferry_inv (e, l)" and "timestamp e = (now, e')"
    and "case c of ReadPacket s \<Rightarrow> s \<noteq> [] \<and> length s \<le> MTU | _ \<Rightarrow> True"
  shows "link_call any_ops now c l \<noteq> Some (Inl busy_wait)"
    and "link_call any_ops now c l = Some (Inr (out, l')) \<Longrightarrow>
      link_ferry_inv (e', l') \<and> subseq (out @ flow any_packets l') (flow any_packets l @ inputs_of [(now, c)])"
proof -
  note k = link_clock [OF assms(1,2)]
  from k have clock: "clock_ok now l" and flow: "link_inv any_inv any_packets l" by blast+
  obtain r where r: "link_call any_ops now c l = Some r"
    using any.link_call_spec [OF clock flow assms(3)] by (auto simp: any_ops_def)
  have spec: "case r of
       Inl e \<Rightarrow> (\<exists>q. any_inv q \<and> any_packets q \<noteq> [] \<and> any_dequeue q = Inl e) \<or>
         (\<exists>p q. any_inv q \<and> length (contents p) \<le> MTU \<and> any_enqueue p q = Inl e)
     | Inr (out, l') \<Rightarrow> clock_ok now l' \<and> link_inv any_inv any_packets l' \<and> schedule l' = schedule l \<and>
        subseq (out @ flow any_packets l') (flow any_packets l @ inputs_of [(now, c)])"
    using any.link_call_spec [OF clock flow assms(3)] r
    by (cases r) (auto simp flip: any_ops_def)
  show "link_call any_ops now c l \<noteq> Some (Inl busy_wait)"
    using r spec any_not_busy by (auto split: sum.splits)
  have "clock_ok 0 l'" if "clock_ok now l'" for l' :: any_link
    using that clock_ok_other [of now l' 0] by (auto simp: clock_ok_def)
  then show "link_ferry_inv (e', l') \<and>
      subseq (out @ flow any_packets l') (flow any_packets l @ inputs_of [(now, c)])"
    if "link_call any_ops now c l = Some (Inr (out, l'))"
    using that r spec k by (auto simp: link_ferry_inv_def)
qed

lemma link_read_ferry:
  assumes inv: "link_ferry_inv s" and pkt: "pkt \<noteq> []"
  shows "on_read link_class pkt s \<noteq> Inl busy_wait"
    and "on_read link_class pkt s = Inr s' \<Longrightarrow>
      link_ferry_inv s' \<and> (link_ready s \<longrightarrow> link_ready s') \<and>
      subseq (link_carrying s') (link_carrying s @ [pkt])"
proof -
  obtain e l now e' where s: "s = (e, l)" and t: "timestamp e = (now, e')" by (metis surj_pair)
  have call: "link_call any_ops now (ReadPacket pkt) l =
      map_option (\<lambda>r. rbind r (\<lambda>l'. Inr ([], l'))) (read_packet any_ops now pkt l)"
    by (simp add: link_call_def)
  note spec = link_call_ferry [OF inv [unfolded s] t, of "ReadPacket pkt"]
  show "on_read link_class pkt s \<noteq> Inl busy_wait"
    using spec(1) call pkt t
    by (cases "length pkt \<le> MTU") 
      (auto simp: s link_class_def returned_def read_packet_def busy_wait_def res_iff split: option.splits)
  show "link_ferry_inv s' \<and> (link_ready s \<longrightarrow> link_ready s') \<and> subseq (link_carrying s') (link_carrying s @ [pkt])"
    if run: "on_read link_class pkt s = Inr s'"
  proof -
    obtain l' where l': "read_packet any_ops now pkt l = Some (Inr l')" and s': "s' = (e', l')"
      using run t unfolding s
      by (cases "read_packet any_ops now pkt l") (auto simp: link_class_def returned_def res_iff)
    obtain l1 where small: "length pkt \<le> MTU" and ra: "rationalize any_ops now l = Some (Inr l1)"
      and out: "output_queue l' = output_queue l1"
      using l' by (auto simp: read_packet_def res_iff record_arrival_def Let_def split: if_splits)
    have "link_ready s \<longrightarrow> link_ready s'"
      using rationalize_output [OF _ ra] link_clock [OF inv [unfolded s] t] out
      by (simp add: link_ready_def s s')
    moreover have "link_call any_ops now (ReadPacket pkt) l = Some (Inr ([], l'))"
      using call l' by simp
    ultimately show ?thesis
      using spec(2) [of "[]" l'] pkt small by (simp add: s s' link_carrying_def)
  qed
qed

lemma link_wait_ferry:
  assumes inv: "link_ferry_inv s"
  shows "on_wait link_class s \<noteq> Inl busy_wait"
    and "on_wait link_class s = Inr (w, s') \<Longrightarrow>
      link_ferry_inv s' \<and> subseq (link_carrying s') (link_carrying s)"
proof -
  obtain e l now e' where s: "s = (e, l)" and t: "timestamp e = (now, e')" by (metis surj_pair)
  have call: "link_call any_ops now WaitTime l =
      map_option (\<lambda>r. rbind r (\<lambda>(w, l'). Inr ([], l'))) (wait_time any_ops now l)"
    by (simp add: link_call_def)
  note spec = link_call_ferry [OF inv [unfolded s] t, of WaitTime]
  show "on_wait link_class s \<noteq> Inl busy_wait"
    using spec(1) call t
    by (cases "wait_time any_ops now l") (auto simp: s link_class_def returned_def res_iff)
  show "link_ferry_inv s' \<and> subseq (link_carrying s') (link_carrying s)"
    if run: "on_wait link_class s = Inr (w, s')"
  proof -
    obtain l' where "wait_time any_ops now l = Some (Inr (w, l'))" and s': "s' = (e', l')"
      using run t unfolding s
      by (cases "wait_time any_ops now l") (auto simp: link_class_def returned_def res_iff)
    then have "link_call any_ops now WaitTime l = Some (Inr ([], l'))"
      using call by simp
    then show ?thesis
      using spec(2) [of "[]" l'] by (simp add: s s' link_carrying_def)
  qed
qed


section \<open>Properties\<close>


text \<open>
  The same holds of \<open>mm-delay\<close>'s packet shell, for a delay below \<open>2 ^ 32\<close> ms: the
  wait is computed in 64 bits and returned in 32, and below that bound it is 0 only when a packet
  is due.
\<close>

theorem delay_ferry:
  assumes "ferry_state w = (e, delay_new d)" and "clock_steady d e" and "d < 2 ^ 32"
    and "kernel_faithful (calls w)" and "given_back (calls w) (kernel w) = []"
    and "passes ferry_poll (ferry_wait delay_class) (ferry_start delay_class (poller_new, w)) s"
  shows "case loop_pass ferry_poll (ferry_wait delay_class) s of
      Inl err \<Rightarrow> err \<noteq> RuntimeError ''Poller: busy wait detected: callback did not read/write fd''
    | Inr (r, run, (p', w')) \<Rightarrow>
        subseq (given_back (calls w') (kernel w')) (handed_out (calls w') (kernel w'))"
proof -
  have "delay_ferry_inv (e, delay_new d)" and "delay_carrying (e, delay_new d) = []"
    using assms(2,3) by (simp_all add: delay_ferry_inv_def delay_inv_def delay_carrying_def delay_new_def)
  then show ?thesis
    using delay_ferry.service [OF assms(4,5) _ _ assms(6), unfolded busy_wait_def] assms(1) by simp
qed

text \<open>A kernel with one packet to read, for which every descriptor polled is writable.\<close>

definition sample_kernel :: "(bool \<times> string list) ferry_kernel" where
  "sample_kernel =
     \<lparr>tun_read = (\<lambda>n (r, g). if r then Inl (UnixError ''read'') else Inr (''ab'', (True, g))),
      sibling_write = (\<lambda>s (r, g). Inr (length s, (r, g @ [s]))),
      signal_read = (\<lambda>n k. Inl (UnixError ''read'')),
      decode_signal = (\<lambda>s. SIGCONT),
      peek_child = (\<lambda>pid k. Inl (UnixError ''waitid'')),
      reap_child = (\<lambda>pid k. Inl (UnixError ''waitid'')),
      send_signals = (\<lambda>xs ys k. Inr k),
      poll_fds = (\<lambda>ps t (r, g).
        let rs = map (\<lambda>p. if poll_fd p = 3 \<and> \<not> r \<or> poll_fd p = 4 then events p else 0) ps
        in Inr (length (filter (\<lambda>x. x \<noteq> 0) rs), rs, (r, g))),
      handed_out = (\<lambda>(r, g). if r then [''ab''] else []),
      given_back = snd\<rparr>"

lemma sample_kernel_faithful: "kernel_faithful sample_kernel"
  by (auto simp: kernel_faithful_def sample_kernel_def unmoved_def unix_failure_def Let_def
      split: if_splits)

definition sample_fd :: "int \<Rightarrow> file_descriptor" where
  "sample_fd n = \<lparr>fd_num = n, fd_eof = False, read_count = 0, write_count = 0\<rparr>"

definition sample_world :: "env \<times> 'q \<Rightarrow> ('q, bool \<times> string list) ferry_world" where
  "sample_world s =
     \<lparr>ferry_state = s, tun = sample_fd 3, sibling = sample_fd 4, signal_fd = sample_fd 5,
      ferry_children = [], kernel = (False, []), calls = sample_kernel\<rparr>"

text \<open>Three passes: the packet is read, nothing is due, the packet is written.\<close>

definition delay_pass ::
  "(delay_queue, bool \<times> string list) ferry_world poller \<times> (delay_queue, bool \<times> string list) ferry_world \<Rightarrow>
     (poll_result \<times> nat list \<times> ((delay_queue, bool \<times> string list) ferry_world poller \<times>
       (delay_queue, bool \<times> string list) ferry_world)) res" where
  "delay_pass s = loop_pass ferry_poll (ferry_wait delay_class) s"

definition delay_first ::
  "(delay_queue, bool \<times> string list) ferry_world poller \<times> (delay_queue, bool \<times> string list) ferry_world"
where
  "delay_first = ferry_start delay_class (poller_new, sample_world (sample_clock, delay_new 20))"

lemmas sample_pass = delay_pass_def loop_pass_def ferry_wait_def delay_wait_time_def poll_def interest_def
  delay_pending_output_def answered_def Let_def POLLIN_def POLLOUT_def POLLERR_def POLLHUP_def POLLNVAL_def
  on_tun_def on_sibling_def fd_read_def fd_write.simps fd_write_part_def delay_read_packet_def
  delay_write_packets_def timestamp_after_init raw_timestamp_def just_def service_count_def BUFFER_SIZE_def
  serve.simps ferry_poll_def

lemma delay_class_simps:
  "on_read delay_class pkt s = Inr (delay_read_packet pkt s)"
  "on_write delay_class s = delay_write_packets (\<lambda>_. Inr ()) s"
  "on_wait delay_class (e, q) = (case delay_wait_time (e, q) of (t, e') \<Rightarrow> Inr (t, (e', q)))"
  "on_pending delay_class (e, q) = (case delay_pending_output (e, q) of (b, e') \<Rightarrow> (b, (e', q)))"
  "on_finished delay_class q = False"
  by (simp_all add: delay_class_def)

lemma sample_kernel_simps:
  "tun_read sample_kernel n (r, g) = (if r then Inl (UnixError ''read'') else Inr (''ab'', (True, g)))"
  "sibling_write sample_kernel s (r, g) = Inr (length s, (r, g @ [s]))"
  "poll_fds sample_kernel ps t (r, g) =
     (let rs = map (\<lambda>p. if poll_fd p = 3 \<and> \<not> r \<or> poll_fd p = 4 then events p else 0) ps
      in Inr (length (filter (\<lambda>x. x \<noteq> 0) rs), rs, (r, g)))"
  "given_back sample_kernel (r, g) = g"
  "handed_out sample_kernel (r, g) = (if r then [''ab''] else [])"
  by (simp_all add: sample_kernel_def)

lemma delay_passes:
  "case delay_pass delay_first of Inl e \<Rightarrow> False | Inr (r1, run1, s1) \<Rightarrow>
     fst r1 \<noteq> PollExit \<and> run1 = [0] \<and>
     (case delay_pass s1 of Inl e \<Rightarrow> False | Inr (r2, run2, s2) \<Rightarrow>
       fst r2 \<noteq> PollExit \<and> run2 = [] \<and>
       (case delay_pass s2 of Inl e \<Rightarrow> False | Inr (r3, run3, (p3, w3)) \<Rightarrow>
         run3 = [1] \<and> given_back (calls w3) (kernel w3) = [''ab'']))"
  by (simp add: sample_pass delay_first_def ferry_start_def ferry_actions_def add_action_def
    sample_world_def poller_new_def delay_new_def sample_fd_def sample_clock_def delay_class_simps
    sample_kernel_simps)

lemma passed:
  assumes "case x of Inl e \<Rightarrow> False | Inr (r, run, s) \<Rightarrow> P r run s"
  obtains r run s where "x = Inr (r, run, s)" and "P r run s"
  using assms by (auto split: sum.splits prod.splits)

lemma sample_world_start:
  "ferry_state (sample_world s) = s" "calls (sample_world s) = sample_kernel"
  "given_back sample_kernel (kernel (sample_world s)) = []"
  by (simp_all add: sample_world_def sample_kernel_simps)

lemma delay_ferry_witness:
  "\<exists>s r3 run3 p3 w3. passes ferry_poll (ferry_wait delay_class)
       (ferry_start delay_class (poller_new, sample_world (sample_clock, delay_new 20))) s \<and>
     loop_pass ferry_poll (ferry_wait delay_class) s = Inr (r3, run3, (p3, w3)) \<and>
     given_back (calls w3) (kernel w3) = [''ab''] \<and>
     subseq [''ab''] (handed_out (calls w3) (kernel w3))"
proof -
  obtain r1 run1 s1 r2 run2 s2 r3 run3 p3 w3 where
    p: "delay_pass delay_first = Inr (r1, run1, s1)" "fst r1 \<noteq> PollExit"
      "delay_pass s1 = Inr (r2, run2, s2)" "fst r2 \<noteq> PollExit"
      "delay_pass s2 = Inr (r3, run3, (p3, w3))" and w3: "given_back (calls w3) (kernel w3) = [''ab'']"
    using delay_passes by (fastforce elim!: passed)
  have "passes ferry_poll (ferry_wait delay_class) delay_first s2"
    using p unfolding delay_pass_def by (blast intro: passes.intros)
  note reached = this [unfolded delay_first_def]
  have "case loop_pass ferry_poll (ferry_wait delay_class) s2 of
      Inl err \<Rightarrow> err \<noteq> RuntimeError ''Poller: busy wait detected: callback did not read/write fd''
    | Inr (r, run, (p', w')) \<Rightarrow>
        subseq (given_back (calls w') (kernel w')) (handed_out (calls w') (kernel w'))"
    by (rule delay_ferry [OF sample_world_start(1) sample_clock_steady _ _ _ reached])
      (simp_all add: sample_world_start sample_kernel_faithful)
  with p(5) w3 have "loop_pass ferry_poll (ferry_wait delay_class) s2 = Inr (r3, run3, (p3, w3))"
    and "subseq [''ab''] (handed_out (calls w3) (kernel w3))"
    by (simp_all add: delay_pass_def)
  with reached w3 show ?thesis by blast
qed


end
