(* ===== verification/Privileges.thy ===== *)
theory Privileges
  imports Byte_Stream
begin

text \<open>
  The set-user-ID part of \<open>src/src/util/util.cc\<close>: every shell is installed set-user-ID root, checks
  this when it starts (\<open>check_requirements\<close>), and gives its privileges up for good before it runs the
  user's command (\<open>drop_privileges\<close>) or for a while when it reads the user's files
  (\<open>TemporarilyUnprivileged\<close>).

  The calls that read and change the process's user and group IDs are the record \<open>id_calls\<close> over a
  kernel state. What their manual pages say of a call that succeeds is the locale \<open>credentials\<close>; that
  a permitted call does succeed is its extension \<open>permissive_credentials\<close>. Both are interpreted on
  the IDs alone, changed as the pages say.
\<close>

section \<open>The calls\<close>

text \<open>A call that fails, by returning \<open>-1\<close>, is \<^const>\<open>None\<close>, and then leaves the state as it was.\<close>

record 'k id_calls =
  getuid :: "'k \<Rightarrow> u32"
  geteuid :: "'k \<Rightarrow> u32"
  saved_uid :: "'k \<Rightarrow> u32"
  getgid :: "'k \<Rightarrow> u32"
  getegid :: "'k \<Rightarrow> u32"
  saved_gid :: "'k \<Rightarrow> u32"
  setreuid :: "u32 \<Rightarrow> u32 \<Rightarrow> 'k \<Rightarrow> 'k option"
  setregid :: "u32 \<Rightarrow> u32 \<Rightarrow> 'k \<Rightarrow> 'k option"
  seteuid :: "u32 \<Rightarrow> 'k \<Rightarrow> 'k option"
  setegid :: "u32 \<Rightarrow> 'k \<Rightarrow> 'k option"

text \<open>\<open>SystemCall( attempt, .. )\<close>.\<close>

definition system_call :: "string \<Rightarrow> 'a option \<Rightarrow> 'a res" where
  "system_call attempt r = (case r of None \<Rightarrow> Inl (UnixError attempt) | Some x \<Rightarrow> Inr x)"

lemma system_call_Inr [simp, res_iff]: "system_call attempt r = Inr x \<longleftrightarrow> r = Some x"
  by (simp add: system_call_def split: option.split)

section \<open>Dropping privileges\<close>

text \<open>\<open>_exit\<close> ends the process, after a message; no exception is thrown.\<close>

datatype 'k ended = Exited string | Returned 'k

definition drop_privileges :: "'k id_calls \<Rightarrow> 'k \<Rightarrow> 'k ended res" where
  "drop_privileges K k =
     (let real_gid = getgid K k; eff_gid = getegid K k; real_uid = getuid K k; eff_uid = geteuid K k
      in rbind (if real_gid \<noteq> eff_gid then system_call ''setregid'' (setregid K real_gid real_gid k) else Inr k) (\<lambda>k1.
         rbind (if real_uid \<noteq> eff_uid then system_call ''setreuid'' (setreuid K real_uid real_uid k1) else Inr k1) (\<lambda>k2.
         if real_gid \<noteq> eff_gid \<and> (setegid K eff_gid k2 \<noteq> None \<or> getegid K k2 \<noteq> real_gid)
         then Inr (Exited ''BUG: dropping privileged gid failed'')
         else if real_uid \<noteq> eff_uid \<and> (seteuid K eff_uid k2 \<noteq> None \<or> geteuid K k2 \<noteq> real_uid)
         then Inr (Exited ''BUG: dropping privileged uid failed'')
         else Inr (Returned k2))))"

definition assert_not_root :: "'k id_calls \<Rightarrow> 'k \<Rightarrow> unit res" where
  "assert_not_root K k =
     (if geteuid K k = 0 \<or> getegid K k = 0
      then Inl (RuntimeError ''BUG: privileges not dropped in sensitive region'') else Inr ())"

text \<open>The constructor and the destructor of \<open>TemporarilyUnprivileged\<close>.\<close>

record temporarily_unprivileged =
  orig_euid :: u32
  orig_egid :: u32

definition temporarily_unprivileged_new ::
  "'k id_calls \<Rightarrow> 'k \<Rightarrow> (temporarily_unprivileged \<times> 'k) res" where
  "temporarily_unprivileged_new K k =
     (let t = \<lparr>orig_euid = geteuid K k, orig_egid = getegid K k\<rparr>
      in rbind (system_call ''setegid'' (setegid K (getgid K k) k)) (\<lambda>k1.
         rbind (system_call ''seteuid'' (seteuid K (getuid K k1) k1)) (\<lambda>k2.
         rbind (assert_not_root K k2) (\<lambda>_. Inr (t, k2)))))"

text \<open>A destructor may not throw: the program is terminated instead.\<close>

definition no_throw :: "'a res \<Rightarrow> 'a res" where
  "no_throw r = (case r of Inl e \<Rightarrow> Inl AssertFail | Inr x \<Rightarrow> Inr x)"

lemma no_throw_Inr [simp, res_iff]: "no_throw r = Inr x \<longleftrightarrow> r = Inr x"
  by (simp add: no_throw_def split: sum.split)

lemma no_throw_ok [simp]: "no_throw (Inr x) = Inr x"
  by (simp add: no_throw_def)

definition temporarily_unprivileged_end ::
  "'k id_calls \<Rightarrow> temporarily_unprivileged \<Rightarrow> 'k \<Rightarrow> 'k res" where
  "temporarily_unprivileged_end K t k =
     no_throw (rbind (system_call ''seteuid'' (seteuid K (orig_euid t) k)) (\<lambda>k1.
       system_call ''setegid'' (setegid K (orig_egid t) k1)))"

section \<open>The check at the start\<close>

text \<open>\<open>environ\<close> is the environment, \<^const>\<open>None\<close> once it is cleared.\<close>

definition check_requirements ::
  "'k id_calls \<Rightarrow> (string \<Rightarrow> 'k \<Rightarrow> (int \<times> 'k) res) \<Rightarrow> 'k sys_read \<Rightarrow> 'e option \<Rightarrow> string list \<Rightarrow> 'k \<Rightarrow> 'k res"
where
  "check_requirements K sys_open sys_read environ argv k =
     (case argv of
        [] \<Rightarrow> Inl (RuntimeError ''missing argv[ 0 ]: argc <= 0'')
      | program # _ \<Rightarrow>
          rbind (rbind (sys_open ''/dev/null'' k) (\<lambda>(n, k1). rbind (fd_new n) (\<lambda>_. Inr k1))) (\<lambda>k1.
          if geteuid K k1 \<noteq> 0 then Inl (RuntimeError (program @ '': needs to be installed setuid root''))
          else if getuid K k1 = 0 \<or> getgid K k1 = 0
          then Inl (RuntimeError (program @ '': please run as non-root''))
          else if environ \<noteq> None then Inl (RuntimeError ''BUG: environment not cleared in sensitive region'')
          else rbind (sys_open ''/proc/sys/net/ipv4/ip_forward'' k1) (\<lambda>(n, k2).
               rbind (fd_new n) (\<lambda>ipf.
               rbind (fd_read sys_read BUFFER_SIZE (ipf, k2)) (\<lambda>(setting, (ipf', k3)).
                 if setting \<noteq> ''1'' @ [CHR 0x0A]
                 then Inl (RuntimeError (program @ '': Please run \"sudo sysctl -w net.ipv4.ip_forward=1\" to enable IP forwarding''))
                 else Inr k3)))))"

section \<open>What the calls do\<close>

type_synonym ids = "u32 \<times> u32 \<times> u32"

text \<open>Real, effective and saved ID.\<close>

definition uids :: "'k id_calls \<Rightarrow> 'k \<Rightarrow> ids" where
  "uids K k = (getuid K k, geteuid K k, saved_uid K k)"

definition gids :: "'k id_calls \<Rightarrow> 'k \<Rightarrow> ids" where
  "gids K k = (getgid K k, getegid K k, saved_gid K k)"

lemma uids_iff: "uids K k = (a, b, c) \<longleftrightarrow> getuid K k = a \<and> geteuid K k = b \<and> saved_uid K k = c"
  by (simp add: uids_def)

lemma gids_iff: "gids K k = (a, b, c) \<longleftrightarrow> getgid K k = a \<and> getegid K k = b \<and> saved_gid K k = c"
  by (simp add: gids_def)

text \<open>
  \<open>setreuid(2)\<close>, \<open>setregid(2)\<close>: \<open>-1\<close> leaves an ID unchanged; without privileges the real ID can become
  the real or the effective one, the effective ID any of the three; the saved ID becomes the new
  effective one when the real ID is set or the effective one is set to another value than the real
  one. \<open>seteuid(2)\<close>, \<open>setegid(2)\<close>: without privileges the effective ID can become any of the three.
\<close>

definition kept :: "u32 \<Rightarrow> u32 \<Rightarrow> u32" where
  "kept v old = (if v = -1 then old else v)"

definition set_real_effective :: "bool \<Rightarrow> u32 \<Rightarrow> u32 \<Rightarrow> ids \<Rightarrow> ids option" where
  "set_real_effective privileged r e = (\<lambda>(real, effective, saved).
     if privileged \<or> (kept r real \<in> {real, effective} \<and> kept e effective \<in> {real, effective, saved})
     then Some (kept r real, kept e effective,
       if r \<noteq> -1 \<or> (e \<noteq> -1 \<and> e \<noteq> real) then kept e effective else saved)
     else None)"

definition set_effective :: "bool \<Rightarrow> u32 \<Rightarrow> ids \<Rightarrow> ids option" where
  "set_effective privileged e = (\<lambda>(real, effective, saved).
     if e \<noteq> -1 \<and> (privileged \<or> e \<in> {real, effective, saved}) then Some (real, e, saved) else None)"

text \<open>What any process can do to its IDs.\<close>

inductive later :: "'k id_calls \<Rightarrow> 'k \<Rightarrow> 'k \<Rightarrow> bool" for K k0 where
  now: "later K k0 k0"
| set_uids: "later K k0 k \<Longrightarrow> setreuid K r e k = Some k' \<Longrightarrow> later K k0 k'"
| set_gids: "later K k0 k \<Longrightarrow> setregid K r e k = Some k' \<Longrightarrow> later K k0 k'"
| set_euid: "later K k0 k \<Longrightarrow> seteuid K e k = Some k' \<Longrightarrow> later K k0 k'"
| set_egid: "later K k0 k \<Longrightarrow> setegid K e k = Some k' \<Longrightarrow> later K k0 k'"

locale credentials =
  fixes K :: "'k id_calls"
  assumes setreuid_law: "setreuid K r e k = Some k' \<Longrightarrow>
      set_real_effective (geteuid K k = 0) r e (uids K k) = Some (uids K k') \<and> gids K k' = gids K k"
    and setregid_law: "setregid K r e k = Some k' \<Longrightarrow>
      set_real_effective (geteuid K k = 0) r e (gids K k) = Some (gids K k') \<and> uids K k' = uids K k"
    and seteuid_law: "seteuid K e k = Some k' \<Longrightarrow>
      set_effective (geteuid K k = 0) e (uids K k) = Some (uids K k') \<and> gids K k' = gids K k"
    and setegid_law: "setegid K e k = Some k' \<Longrightarrow>
      set_effective (geteuid K k = 0) e (gids K k) = Some (gids K k') \<and> uids K k' = uids K k"
begin

lemma set_same:
  "set_real_effective False r e (u, u, u) = Some x \<Longrightarrow> x = (u, u, u)"
  "set_effective False e (u, u, u) = Some x \<Longrightarrow> x = (u, u, u)"
  by (auto simp: set_real_effective_def set_effective_def split: if_splits)

text \<open>A process whose IDs are all an ordinary user's and group's cannot change them.\<close>

lemma ordinary_stays:
  assumes "later K k k'" and "uids K k = (u, u, u)" and "gids K k = (g, g, g)" and "u \<noteq> 0"
  shows "uids K k' = (u, u, u) \<and> gids K k' = (g, g, g)"
  using assms(1)
proof induction
  case now
  then show ?case using assms(2,3) by simp
next
  case (set_uids k r e k')
  then have "geteuid K k \<noteq> 0"
    using assms(4) by (auto simp: uids_iff)
  then show ?case
    using setreuid_law [OF set_uids.hyps(2)] set_uids.IH set_same(1) [of r e u] by auto
next
  case (set_gids k r e k')
  then have "geteuid K k \<noteq> 0"
    using assms(4) by (auto simp: uids_iff)
  then show ?case
    using setregid_law [OF set_gids.hyps(2)] set_gids.IH set_same(1) [of r e g] by auto
next
  case (set_euid k e k')
  then have "geteuid K k \<noteq> 0"
    using assms(4) by (auto simp: uids_iff)
  then show ?case
    using seteuid_law [OF set_euid.hyps(2)] set_euid.IH set_same(2) [of e u] by auto
next
  case (set_egid k e k')
  then have "geteuid K k \<noteq> 0"
    using assms(4) by (auto simp: uids_iff)
  then show ?case
    using setegid_law [OF set_egid.hyps(2)] set_egid.IH set_same(2) [of e g] by auto
qed

text \<open>Setting the real and the effective ID to the real one sets the saved one, too.\<close>

lemma setreuid_real:
  assumes "setreuid K (getuid K k) (getuid K k) k = Some k'" and "getuid K k \<noteq> -1"
  shows "uids K k' = (getuid K k, getuid K k, getuid K k) \<and> gids K k' = gids K k"
  using setreuid_law [OF assms(1)] assms(2)
  by (auto simp: set_real_effective_def kept_def uids_def split: if_splits)

lemma setregid_real:
  assumes "setregid K (getgid K k) (getgid K k) k = Some k'" and "getgid K k \<noteq> -1"
  shows "gids K k' = (getgid K k, getgid K k, getgid K k) \<and> uids K k' = uids K k"
  using setregid_law [OF assms(1)] assms(2)
  by (auto simp: set_real_effective_def kept_def gids_def split: if_splits)

end

text \<open>A permitted call succeeds.\<close>

locale permissive_credentials = credentials +
  assumes setreuid_works: "set_real_effective (geteuid K k = 0) r e (uids K k) \<noteq> None \<Longrightarrow> setreuid K r e k \<noteq> None"
    and setregid_works: "set_real_effective (geteuid K k = 0) r e (gids K k) \<noteq> None \<Longrightarrow> setregid K r e k \<noteq> None"
    and seteuid_works: "set_effective (geteuid K k = 0) e (uids K k) \<noteq> None \<Longrightarrow> seteuid K e k \<noteq> None"
    and setegid_works: "set_effective (geteuid K k = 0) e (gids K k) \<noteq> None \<Longrightarrow> setegid K e k \<noteq> None"
begin

lemma seteuid_one_of:
  assumes "e \<in> {getuid K k, saved_uid K k}" and "e \<noteq> -1"
  shows "\<exists>k'. seteuid K e k = Some k' \<and> uids K k' = (getuid K k, e, saved_uid K k) \<and> gids K k' = gids K k"
proof -
  have "set_effective (geteuid K k = 0) e (uids K k) = Some (getuid K k, e, saved_uid K k)"
    using assms by (auto simp: set_effective_def uids_def)
  then show ?thesis
    using seteuid_works [of k e] seteuid_law [of e k] by force
qed

lemma setegid_one_of:
  assumes "e \<in> {getgid K k, saved_gid K k}" and "e \<noteq> -1"
  shows "\<exists>k'. setegid K e k = Some k' \<and> gids K k' = (getgid K k, e, saved_gid K k) \<and> uids K k' = uids K k"
proof -
  have "set_effective (geteuid K k = 0) e (gids K k) = Some (getgid K k, e, saved_gid K k)"
    using assms by (auto simp: set_effective_def gids_def)
  then show ?thesis
    using setegid_works [of k e] setegid_law [of e k] by force
qed

end

section \<open>The IDs themselves\<close>

type_synonym cred = "ids \<times> ids"

definition id_changes :: "cred id_calls" where
  "id_changes =
     \<lparr>getuid = (\<lambda>((r, e, s), g). r), geteuid = (\<lambda>((r, e, s), g). e), saved_uid = (\<lambda>((r, e, s), g). s),
      getgid = (\<lambda>(u, (r, e, s)). r), getegid = (\<lambda>(u, (r, e, s)). e), saved_gid = (\<lambda>(u, (r, e, s)). s),
      setreuid = (\<lambda>r e (u, g). map_option (\<lambda>u'. (u', g)) (set_real_effective (fst (snd u) = 0) r e u)),
      setregid = (\<lambda>r e (u, g). map_option (\<lambda>g'. (u, g')) (set_real_effective (fst (snd u) = 0) r e g)),
      seteuid = (\<lambda>e (u, g). map_option (\<lambda>u'. (u', g)) (set_effective (fst (snd u) = 0) e u)),
      setegid = (\<lambda>e (u, g). map_option (\<lambda>g'. (u, g')) (set_effective (fst (snd u) = 0) e g))\<rparr>"

lemma id_changes_ids [simp]: "uids id_changes (u, g) = u" "gids id_changes (u, g) = g"
  by (cases u, simp add: uids_def id_changes_def) (cases g, simp add: gids_def id_changes_def)

interpretation linux: permissive_credentials id_changes
  by unfold_locales (auto simp: id_changes_def uids_def gids_def)

section \<open>Properties\<close>

lemma drop_privileges_cases:
  assumes "credentials K" and "drop_privileges K k = Inr (Returned k')"
    and u: "getuid K k \<noteq> -1" and g: "getgid K k \<noteq> -1"
    and "saved_uid K k = geteuid K k" and "saved_gid K k = getegid K k"
  shows "uids K k' = (getuid K k, getuid K k, getuid K k) \<and> gids K k' = (getgid K k, getgid K k, getgid K k)"
proof -
  obtain k1 where k1: "(if getgid K k \<noteq> getegid K k then setregid K (getgid K k) (getgid K k) k else Some k) = Some k1"
    and k': "(if getuid K k \<noteq> geteuid K k then setreuid K (getuid K k) (getuid K k) k1 else Some k1) = Some k'"
    using assms(2) unfolding drop_privileges_def Let_def rbind_Inr_iff
    by (elim exE conjE) (simp split: if_splits)
  have g1: "gids K k1 = (getgid K k, getgid K k, getgid K k) \<and> uids K k1 = uids K k"
  proof (cases "getgid K k = getegid K k")
    case True
    then show ?thesis using k1 assms(6) by (simp add: gids_def)
  next
    case False
    then show ?thesis using credentials.setregid_real [OF assms(1) _ g, of k1] k1 by simp
  qed
  then have u1: "getuid K k1 = getuid K k"
    by (simp add: uids_def)
  show ?thesis
  proof (cases "getuid K k = geteuid K k")
    case True
    then show ?thesis using k' g1 assms(5) by (simp add: uids_def)
  next
    case False
    then show ?thesis
      using credentials.setreuid_real [OF assms(1), of k1 k'] k' g1 u u1 by simp
  qed
qed


text \<open>A set-user-ID root program started by user 1000 of group 100.\<close>

definition sample_cred :: cred where
  "sample_cred = ((1000, 0, 0), (100, 100, 100))"


text \<open>
  Privileges given up for a while are gone meanwhile and come back.
  Started by an ordinary user, the constructor succeeds and leaves the effective IDs the real ones,
  so that \<open>assert_not_root\<close> holds; whatever happens to the rest of the state until the end of the
  block, the destructor succeeds and all six IDs are what they were.
\<close>

theorem temporarily_unprivileged:
  assumes "permissive_credentials K" and "saved_uid K k = geteuid K k" and "saved_gid K k = getegid K k"
    and "getuid K k \<noteq> 0" and "getgid K k \<noteq> 0"
    and "-1 \<notin> {getuid K k, geteuid K k, getgid K k, getegid K k}"
  shows "\<exists>t k1. temporarily_unprivileged_new K k = Inr (t, k1) \<and>
    geteuid K k1 = getuid K k \<and> getegid K k1 = getgid K k \<and> assert_not_root K k1 = Inr () \<and>
    (\<forall>k2. uids K k2 = uids K k1 \<longrightarrow> gids K k2 = gids K k1 \<longrightarrow>
      (\<exists>k3. temporarily_unprivileged_end K t k2 = Inr k3 \<and> uids K k3 = uids K k \<and> gids K k3 = gids K k))"
proof -
  let ?t = "\<lparr>orig_euid = geteuid K k, orig_egid = getegid K k\<rparr>"
  obtain k0 where k0: "setegid K (getgid K k) k = Some k0" "uids K k0 = uids K k"
    "gids K k0 = (getgid K k, getgid K k, getegid K k)"
    using permissive_credentials.setegid_one_of [OF assms(1), of "getgid K k" k] assms(3,6) by auto
  obtain k1 where k1: "seteuid K (getuid K k0) k0 = Some k1"
    "uids K k1 = (getuid K k, getuid K k, geteuid K k)" "gids K k1 = (getgid K k, getgid K k, getegid K k)"
    using permissive_credentials.seteuid_one_of [OF assms(1), of "getuid K k0" k0] k0 assms(2,6)
    by (auto simp: uids_def)
  have not_root: "geteuid K k1 = getuid K k" "getegid K k1 = getgid K k" "assert_not_root K k1 = Inr ()"
    using k1 assms(4,5) by (simp_all add: uids_def gids_def assert_not_root_def)
  have start: "temporarily_unprivileged_new K k = Inr (?t, k1)"
    using k0(1) k1(1) not_root(3) by (simp add: temporarily_unprivileged_new_def system_call_def)
  have restored: "\<exists>k3. temporarily_unprivileged_end K ?t k2 = Inr k3 \<and> uids K k3 = uids K k \<and> gids K k3 = gids K k"
    if "uids K k2 = uids K k1" and g2: "gids K k2 = gids K k1" for k2
  proof -
    have k2: "getuid K k2 = getuid K k" "saved_uid K k2 = geteuid K k"
      using \<open>uids K k2 = uids K k1\<close> k1(2) by (simp_all add: uids_def)
    obtain k' where k': "seteuid K (geteuid K k) k2 = Some k'" "uids K k' = uids K k" "gids K k' = gids K k1"
      using permissive_credentials.seteuid_one_of [OF assms(1), of "geteuid K k" k2] g2 k2 assms(2,6)
      by (auto simp: uids_iff uids_def [of K k])
    have g': "getgid K k' = getgid K k" "saved_gid K k' = getegid K k"
      using k'(3) k1(3) by (simp_all add: gids_iff)
    obtain k3 where "setegid K (getegid K k) k' = Some k3" "gids K k3 = gids K k" "uids K k3 = uids K k"
      using permissive_credentials.setegid_one_of [OF assms(1), of "getegid K k" k'] k'(2) g' assms(3,6)
      by (auto simp: gids_iff gids_def [of K k])
    with k' show ?thesis
      by (simp add: temporarily_unprivileged_end_def system_call_def)
  qed
  show ?thesis
    using start not_root restored by blast
qed

lemma temporarily_unprivileged_witness:
  "\<exists>t k1. temporarily_unprivileged_new id_changes sample_cred = Inr (t, k1) \<and>
    geteuid id_changes k1 = getuid id_changes sample_cred \<and> getegid id_changes k1 = getgid id_changes sample_cred \<and>
    assert_not_root id_changes k1 = Inr () \<and>
    (\<forall>k2. uids id_changes k2 = uids id_changes k1 \<longrightarrow> gids id_changes k2 = gids id_changes k1 \<longrightarrow>
      (\<exists>k3. temporarily_unprivileged_end id_changes t k2 = Inr k3 \<and>
        uids id_changes k3 = uids id_changes sample_cred \<and> gids id_changes k3 = gids id_changes sample_cred))"
  by (rule temporarily_unprivileged [OF linux.permissive_credentials_axioms])
    (simp_all add: sample_cred_def id_changes_def)

end
