(* ===== verification/Interfaces.thy ===== *)
theory Interfaces
  imports Link_Queue
begin

text \<open>
  How a shell finds its two addresses, \<open>src/src/util/interfaces.cc\<close>, and the rules it installs
  for them, \<open>src/src/util/nat.cc\<close>. An \<open>Address\<close> is its numeric form, the pair \<open>ip_port()\<close> yields.
  The list of \<open>getifaddrs\<close>, the text of \<open>/proc/net/route\<close> and the function \<open>ntoa\<close> that prints
  an \<open>s_addr\<close> are arguments.

  The choice of the two addresses is characterised exactly: they are the first two free ones of
  the carrier-grade range.
\<close>

section \<open>Addresses\<close>

record address =
  ip :: string
  port :: nat

definition numeric_address :: "string \<Rightarrow> nat \<Rightarrow> address" where
  "numeric_address s n = \<lparr>ip = s, port = n\<rparr>"

text \<open>\<open>Address()\<close> is \<open>Address( "0", 0 )\<close>, which prints as four zeroes.\<close>

definition address_new :: address where
  "address_new = numeric_address ''0.0.0.0'' 0"

definition address_str :: "string \<Rightarrow> address \<Rightarrow> string" where
  "address_str port_separator a = ip a @ port_separator @ to_string (port a)"

text \<open>The octet is passed as a \<open>uint8_t\<close>.\<close>

definition cgnat :: "nat \<Rightarrow> address" where
  "cgnat last_octet = numeric_address (''100.64.0.'' @ to_string (last_octet mod 256)) 0"

section \<open>Addresses in use\<close>

text \<open>One line of the routing table: the second field, eight hexadecimal digits, is an address.\<close>

definition route_address :: "(u32 \<Rightarrow> string) \<Rightarrow> string \<Rightarrow> address res" where
  "route_address ntoa line =
     (case str_find line [CHR 0x09] of
        None \<Rightarrow> Inl (RuntimeError ''/proc/net/route line: unknown format'')
      | Some tab \<Rightarrow>
          (case str_find_from line [CHR 0x09] (tab + 1) of
             None \<Rightarrow> Inl (RuntimeError ''/proc/net/route line: unknown format'')
           | Some dest_end \<Rightarrow>
               let dest_start = tab + 1; len = dest_end - dest_start
               in if len \<noteq> 8
                  then Inl (RuntimeError ''/proc/net/route destination address: unknown format'')
                  else rbind (substr line dest_start len) (\<lambda>dest_address.
                       rbind (myatoi dest_address 16) (\<lambda>s_addr.
                         Inr (numeric_address (ntoa (word_of_int s_addr)) 0)))))"

fun route_addresses :: "(u32 \<Rightarrow> string) \<Rightarrow> string list \<Rightarrow> address list res" where
  "route_addresses ntoa [] = Inr []"
| "route_addresses ntoa (line # lines) =
     rbind (route_address ntoa line) (\<lambda>a. rbind (route_addresses ntoa lines) (\<lambda>as. Inr (a # as)))"

definition interfaces_new ::
  "(u32 \<Rightarrow> string) \<Rightarrow> address list \<Rightarrow> string \<Rightarrow> address list res" where
  "interfaces_new ntoa interface_addresses all_routes =
     (if all_routes = [] then Inr interface_addresses
      else
        (case getlines [] all_routes of
           [] \<Rightarrow> Inl (RuntimeError ''/proc/net/route: unknown format'')
         | header_line # lines \<Rightarrow>
             if str_find header_line ''Iface'' \<noteq> Some 0
             then Inl (RuntimeError ''/proc/net/route: unknown format'')
             else rbind (route_addresses ntoa lines) (\<lambda>as. Inr (interface_addresses @ as))))"

definition add_address :: "address \<Rightarrow> address list \<Rightarrow> address list" where
  "add_address addr addresses_in_use = addresses_in_use @ [addr]"

fun address_in_use :: "address \<Rightarrow> address list \<Rightarrow> bool" where
  "address_in_use addr [] = False"
| "address_in_use addr (x # xs) = (if ip addr = ip x then True else address_in_use addr xs)"

function first_unassigned_address :: "nat \<Rightarrow> address list \<Rightarrow> (address \<times> nat) res" where
  "first_unassigned_address last_octet used =
     (if last_octet \<le> 255 then
        let candidate = cgnat last_octet
        in if \<not> address_in_use candidate used then
             (if port candidate = 0 then Inr (candidate, last_octet) else Inl AssertFail)
           else first_unassigned_address (last_octet + 1) used
      else Inl (RuntimeError ''Interfaces: could not find free interface address''))"
  by pat_completeness auto
termination by (relation "measure (\<lambda>(n, _). 256 - n)") auto

declare first_unassigned_address.simps [simp del]

definition two_unassigned_addresses ::
  "(u32 \<Rightarrow> string) \<Rightarrow> address list \<Rightarrow> string \<Rightarrow> address \<Rightarrow> (address \<times> address) res" where
  "two_unassigned_addresses ntoa interface_addresses all_routes avoid =
     rbind (interfaces_new ntoa interface_addresses all_routes) (\<lambda>interfaces0.
       let interfaces = add_address avoid interfaces0
       in rbind (first_unassigned_address 1 interfaces) (\<lambda>one.
          rbind (first_unassigned_address (snd one + 1) interfaces) (\<lambda>two.
            Inr (fst one, fst two))))"

section \<open>NAT rules\<close>

text \<open>The commands a rule runs when it is made and when it is destroyed.\<close>

definition rule_added :: "string \<Rightarrow> string list \<Rightarrow> string list" where
  "rule_added iptables arguments = [iptables, ''-w'', ''-t'', ''nat'', ''-A''] @ arguments"

definition rule_removed :: "string \<Rightarrow> string list \<Rightarrow> string list" where
  "rule_removed iptables arguments = [iptables, ''-w'', ''-t'', ''nat'', ''-D''] @ arguments"

definition nat_rules :: "nat \<Rightarrow> address \<Rightarrow> string list list" where
  "nat_rules pid ingress_addr =
     [[''PREROUTING'', ''-s'', ip ingress_addr, ''-j'', ''CONNMARK'', ''--set-mark'', to_string pid],
      [''POSTROUTING'', ''-j'', ''MASQUERADE'', ''-m'', ''connmark'', ''--mark'', to_string pid]]"

definition dnat_rule :: "address \<Rightarrow> string \<Rightarrow> string list" where
  "dnat_rule listener interface_name =
     [''PREROUTING'', ''-p'', ''TCP'', ''-i'', interface_name, ''-j'', ''DNAT'', ''--to-destination'',
      address_str '':'' listener]"

section \<open>The addresses found\<close>

lemma address_in_use_iff: "address_in_use a used \<longleftrightarrow> ip a \<in> ip ` set used"
  by (induction used) auto

definition free_octets :: "nat \<Rightarrow> address list \<Rightarrow> nat list" where
  "free_octets n used = filter (\<lambda>i. ip (cgnat i) \<notin> ip ` set used) [n..<256]"

lemma first_unassigned_address_eq:
  "first_unassigned_address n used =
     (case free_octets n used of
        [] \<Rightarrow> Inl (RuntimeError ''Interfaces: could not find free interface address'')
      | i # _ \<Rightarrow> Inr (cgnat i, i))"
proof (induction n used rule: first_unassigned_address.induct)
  case (1 n used)
  show ?case
  proof (cases "n \<le> 255")
    case False
    then show ?thesis
      by (simp add: first_unassigned_address.simps [of n] free_octets_def)
  next
    case True
    then have "[n..<256] = n # [Suc n..<256]"
      by (simp add: upt_rec)
    then show ?thesis
      using 1 True
      by (simp add: first_unassigned_address.simps [of n] free_octets_def address_in_use_iff
          cgnat_def numeric_address_def)
  qed
qed

lemma filter_upt_tail:
  assumes "filter P [n..<m] = i # is"
  shows "filter P [Suc i..<m] = is"
  using assms
proof (induction "m - n" arbitrary: n)
  case 0
  then show ?case by simp
next
  case (Suc d)
  then have upt: "[n..<m] = n # [Suc n..<m]"
    by (simp add: upt_conv_Cons)
  show ?case
  proof (cases "P n")
    case True
    with Suc.prems upt show ?thesis by auto
  next
    case False
    with Suc.prems upt have "filter P [Suc n..<m] = i # is" by simp
    with Suc.hyps(1) [of "Suc n"] Suc.hyps(2) show ?thesis by simp
  qed
qed

lemma two_unassigned_free:
  "two_unassigned_addresses ntoa interface_addresses all_routes avoid =
     rbind (interfaces_new ntoa interface_addresses all_routes) (\<lambda>used.
       case filter (\<lambda>i. ip (cgnat i) \<notin> insert (ip avoid) (ip ` set used)) [1..<256] of
         i # j # _ \<Rightarrow> Inr (cgnat i, cgnat j)
       | _ \<Rightarrow> Inl (RuntimeError ''Interfaces: could not find free interface address''))"
proof -
  have "rbind (first_unassigned_address 1 used) (\<lambda>one.
        rbind (first_unassigned_address (snd one + 1) used) (\<lambda>two. Inr (fst one, fst two))) =
      (case free_octets 1 used of
         i # j # _ \<Rightarrow> Inr (cgnat i, cgnat j)
       | _ \<Rightarrow> Inl (RuntimeError ''Interfaces: could not find free interface address''))" for used
  proof (cases "free_octets 1 used")
    case Nil
    then show ?thesis by (simp add: first_unassigned_address_eq)
  next
    case (Cons i rest)
    then have "free_octets (i + 1) used = rest"
      using filter_upt_tail [of _ 1 256 i rest] by (simp add: free_octets_def)
    then show ?thesis
      using Cons by (simp add: first_unassigned_address_eq split: list.split)
  qed
  then show ?thesis
    by (simp add: two_unassigned_addresses_def Let_def free_octets_def add_address_def)
qed

text \<open>
  The two addresses of a shell are the first two free ones. When the addresses in
  use can be read, the result is the pair of the two smallest addresses from 100.64.0.1 to
  100.64.0.255 that no interface and no route uses and that are not the one to avoid, and an error
  exactly when fewer than two are left.
\<close>

theorem two_addresses:
  "two_unassigned_addresses ntoa interface_addresses all_routes avoid =
     rbind (interfaces_new ntoa interface_addresses all_routes) (\<lambda>used.
       case filter (\<lambda>i. ip (cgnat i) \<notin> insert (ip avoid) (ip ` set used)) [1..<256] of
         i # j # _ \<Rightarrow> Inr (cgnat i, cgnat j)
       | _ \<Rightarrow> Inl (RuntimeError ''Interfaces: could not find free interface address''))"
  by (rule two_unassigned_free)

section \<open>Where the addresses are read from\<close>

text \<open>
  An entry of \<open>getifaddrs\<close>: the family and the numeric form of its address, when it has one. The routes
  are read until a read is empty.
\<close>

definition AF_INET :: int where "AF_INET = 2"

definition inet_addresses :: "(int \<times> address) option list \<Rightarrow> address list" where
  "inet_addresses ifas =
     concat (map (\<lambda>ifa. case ifa of Some (family, a) \<Rightarrow> if family = AF_INET then [a] else [] | None \<Rightarrow> []) ifas)"

partial_function (option) read_routes ::
  "('k \<Rightarrow> (string \<times> 'k) res) \<Rightarrow> string \<Rightarrow> 'k \<Rightarrow> (string \<times> 'k) res option" where
  "read_routes read all_routes k =
     (case read k of
        Inl e \<Rightarrow> Some (Inl e)
      | Inr (new_chunk, k') \<Rightarrow>
          if new_chunk = [] then Some (Inr (all_routes, k'))
          else read_routes read (all_routes @ new_chunk) k')"

definition interfaces_open ::
  "(u32 \<Rightarrow> string) \<Rightarrow> ('k \<Rightarrow> ((int \<times> address) option list \<times> 'k) res) \<Rightarrow> ('k \<Rightarrow> 'k res) \<Rightarrow> ('k \<Rightarrow> (string \<times> 'k) res) \<Rightarrow>
     'k \<Rightarrow> (address list \<times> 'k) res option" where
  "interfaces_open ntoa getifaddrs open_routes read k =
     obind (Some (getifaddrs k)) (\<lambda>(ifas, k1).
     obind (Some (open_routes k1)) (\<lambda>k2.
     obind (read_routes read [] k2) (\<lambda>(all_routes, k3).
     obind (Some (interfaces_new ntoa (inet_addresses ifas) all_routes)) (\<lambda>addresses.
       Some (Inr (addresses, k3))))))"

text \<open>A file that comes in pieces, then nothing: what is read is the whole of it.\<close>

definition pieces_read :: "string list \<Rightarrow> (string \<times> string list) res" where
  "pieces_read ps = (case ps of [] \<Rightarrow> Inr ([], []) | p # ps' \<Rightarrow> Inr (p, ps'))"

lemma pieces_read_simps [simp]: "pieces_read [] = Inr ([], [])" "pieces_read (p # ps) = Inr (p, ps)"
  by (simp_all add: pieces_read_def)

lemma read_routes_whole:
  "\<forall>p \<in> set ps. p \<noteq> [] \<Longrightarrow> read_routes pieces_read all_routes ps = Some (Inr (all_routes @ concat ps, []))"
  by (induction ps arbitrary: all_routes) (subst read_routes.simps, simp)+

end
