(* ===== verification/Sockets.thy ===== *)
theory Sockets
  imports Interfaces Byte_Stream
begin

text \<open>
  \<open>src/src/util/socket.cc\<close> and \<open>socketpair.cc\<close>: sockets are descriptors with a few more calls. A
  system call is an argument, a function of the kernel's state. What is checked of its answer, the
  order of the check and of the count of the call, and the errors are the code's.
\<close>

section \<open>Socket\<close>

definition SOCK_STREAM :: int where "SOCK_STREAM = 1"
definition SOCK_DGRAM :: int where "SOCK_DGRAM = 2"

text \<open>\<open>Socket( domain, type )\<close>: the new descriptor is the answer of \<open>socket\<close>.\<close>

definition socket_new :: "(int \<Rightarrow> int \<Rightarrow> 'k \<Rightarrow> (int \<times> 'k) res) \<Rightarrow> int \<Rightarrow> int \<Rightarrow> 'k \<Rightarrow>
    (file_descriptor \<times> 'k) res" where
  "socket_new sys_socket domain type k =
     rbind (sys_socket domain type k) (\<lambda>(n, k'). rbind (fd_new n) (\<lambda>fd. Inr (fd, k')))"

text \<open>
  \<open>Socket( fd, domain, type )\<close> asks the kernel what the descriptor is; \<open>getsockopt\<close> answers with the
  size of the value and the value, an \<open>int\<close>.
\<close>

datatype socket_option = SO_DOMAIN | SO_TYPE

definition socket_of_fd ::
  "(int \<Rightarrow> socket_option \<Rightarrow> 'k \<Rightarrow> (nat \<times> int) res) \<Rightarrow> file_descriptor \<Rightarrow> int \<Rightarrow> int \<Rightarrow> 'k \<Rightarrow>
     file_descriptor res" where
  "socket_of_fd sys_getsockopt fd domain type k =
     rbind (sys_getsockopt (fd_num fd) SO_DOMAIN k) (\<lambda>(len, actual_value).
       if len \<noteq> 4 \<or> actual_value \<noteq> domain then Inl (RuntimeError ''socket domain mismatch'')
       else rbind (sys_getsockopt (fd_num fd) SO_TYPE k) (\<lambda>(len, actual_value).
         if len \<noteq> 4 \<or> actual_value \<noteq> type then Inl (RuntimeError ''socket type mismatch'')
         else Inr fd))"

definition register_read :: "file_descriptor \<Rightarrow> file_descriptor" where
  "register_read fd = fd\<lparr>read_count := read_count fd + 1\<rparr>"

definition register_write :: "file_descriptor \<Rightarrow> file_descriptor" where
  "register_write fd = fd\<lparr>write_count := write_count fd + 1\<rparr>"

text \<open>\<open>TCPSocket::accept\<close> counts as a read, whether or not it succeeds.\<close>

definition tcp_accept ::
  "('k \<Rightarrow> (int \<times> 'k) res) \<Rightarrow> (int \<Rightarrow> socket_option \<Rightarrow> 'k \<Rightarrow> (nat \<times> int) res) \<Rightarrow>
     file_descriptor \<times> 'k \<Rightarrow> file_descriptor \<times> (file_descriptor \<times> 'k) res" where
  "tcp_accept sys_accept sys_getsockopt = (\<lambda>(listener, k).
     (register_read listener,
      rbind (sys_accept k) (\<lambda>(n, k').
      rbind (fd_new n) (\<lambda>fd.
      rbind (socket_of_fd sys_getsockopt fd AF_INET SOCK_STREAM k') (\<lambda>fd'. Inr (fd', k'))))))"

section \<open>UDPSocket\<close>

definition udp_sendto ::
  "(address \<Rightarrow> string \<Rightarrow> 'k \<Rightarrow> (nat \<times> 'k) res) \<Rightarrow> address \<Rightarrow> string \<Rightarrow> file_descriptor \<times> 'k \<Rightarrow>
     (file_descriptor \<times> 'k) res" where
  "udp_sendto sys_sendto destination payload = (\<lambda>(fd, k).
     rbind (sys_sendto destination payload k) (\<lambda>(bytes_sent, k').
       if bytes_sent \<noteq> length payload
       then Inl (RuntimeError ''datagram payload too big for sendto()'')
       else Inr (register_write fd, k')))"

definition udp_send ::
  "(string \<Rightarrow> 'k \<Rightarrow> (nat \<times> 'k) res) \<Rightarrow> string \<Rightarrow> file_descriptor \<times> 'k \<Rightarrow> (file_descriptor \<times> 'k) res"
where
  "udp_send sys_send payload = (\<lambda>(fd, k).
     rbind (sys_send payload k) (\<lambda>(bytes_sent, k').
       if bytes_sent \<noteq> length payload
       then Inl (RuntimeError ''datagram payload too big for send()'')
       else Inr (register_write fd, k')))"

text \<open>
  With \<open>MSG_TRUNC\<close> the kernel returns the length of the whole datagram, of which the buffer holds
  the beginning; the argument answers with the sender and the datagram.
\<close>

definition RECEIVE_MTU :: nat where "RECEIVE_MTU = 65536"

definition udp_recvfrom ::
  "('k \<Rightarrow> (address \<times> string \<times> 'k) res) \<Rightarrow> file_descriptor \<times> 'k \<Rightarrow>
     ((address \<times> string) \<times> (file_descriptor \<times> 'k)) res" where
  "udp_recvfrom sys_recvfrom = (\<lambda>(fd, k).
     rbind (sys_recvfrom k) (\<lambda>(source, datagram, k').
       if RECEIVE_MTU < length datagram then Inl (RuntimeError ''recvfrom (oversized datagram)'')
       else Inr ((source, datagram), (register_read fd, k'))))"

section \<open>UnixDomainSocket\<close>

text \<open>
  A message that carries a descriptor: the level, type and length of its control message, and
  whether the control data was cut off. \<open>CMSG_LEN( sizeof( int ) )\<close> is the argument \<open>len_of_int\<close>.
\<close>

record control_message =
  cmsg_rights :: bool
  cmsg_len :: nat
  cmsg_fd :: int

definition unix_make_pair ::
  "('k \<Rightarrow> (int \<times> int \<times> 'k) res) \<Rightarrow> 'k \<Rightarrow> (file_descriptor \<times> file_descriptor \<times> 'k) res" where
  "unix_make_pair sys_socketpair k =
     rbind (sys_socketpair k) (\<lambda>(a, b, k').
     rbind (fd_new a) (\<lambda>first. rbind (fd_new b) (\<lambda>second. Inr (first, second, k'))))"

definition send_fd ::
  "nat \<Rightarrow> (control_message \<Rightarrow> 'k \<Rightarrow> (nat \<times> 'k) res) \<Rightarrow> file_descriptor \<Rightarrow> file_descriptor \<times> 'k \<Rightarrow>
     (file_descriptor \<times> 'k) res" where
  "send_fd len_of_int sys_sendmsg fd = (\<lambda>(sock, k).
     rbind (sys_sendmsg \<lparr>cmsg_rights = True, cmsg_len = len_of_int, cmsg_fd = fd_num fd\<rparr> k)
       (\<lambda>(n, k').
         if n \<noteq> 0 then Inl (RuntimeError ''send_fd: sendmsg unexpectedly sent data'')
         else Inr (register_write sock, k')))"

definition recv_fd ::
  "nat \<Rightarrow> ('k \<Rightarrow> (nat \<times> bool \<times> control_message option \<times> 'k) res) \<Rightarrow> file_descriptor \<times> 'k \<Rightarrow>
     (file_descriptor \<times> (file_descriptor \<times> 'k)) res" where
  "recv_fd len_of_int sys_recvmsg = (\<lambda>(sock, k).
     rbind (sys_recvmsg k) (\<lambda>(n, truncated, message, k').
       if n \<noteq> 0 then Inl (RuntimeError ''recv_fd: recvmsg unexpectedly received data'')
       else if truncated then Inl (RuntimeError ''recvmsg: control data was truncated'')
       else
         (case message of
            None \<Rightarrow> Inl (RuntimeError ''recvmsg: unexpected control message'')
          | Some m \<Rightarrow>
              if \<not> cmsg_rights m then Inl (RuntimeError ''recvmsg: unexpected control message'')
              else if cmsg_len m \<noteq> len_of_int
              then Inl (RuntimeError ''recvmsg: unexpected control message length'')
              else rbind (fd_new (cmsg_fd m)) (\<lambda>fd. Inr (fd, (register_read sock, k'))))))"

text \<open>A descriptor sent is the descriptor received, when the kernel delivers the message.\<close>

lemma fd_passed:
  assumes "sys_sendmsg \<lparr>cmsg_rights = True, cmsg_len = len_of_int, cmsg_fd = fd_num fd\<rparr> k = Inr (0, k1)"
    and "sys_recvmsg k1 = Inr (0, False, Some \<lparr>cmsg_rights = True, cmsg_len = len_of_int, cmsg_fd = n\<rparr>, k2)"
    and "2 < n"
  shows "send_fd len_of_int sys_sendmsg fd (sock, k) = Inr (register_write sock, k1)"
    and "recv_fd len_of_int sys_recvmsg (other, k1) =
      Inr (\<lparr>fd_num = n, fd_eof = False, read_count = 0, write_count = 0\<rparr>, (register_read other, k2))"
  using assms by (simp_all add: send_fd_def recv_fd_def fd_new_def)

end
