(* ===== verification/Shells.thy ===== *)
theory Shells
  imports Link_Queue
begin

text \<open>
  What the \<open>main\<close> functions of the packet shells make of their command lines: \<open>mm-link\<close>
  (\<open>src/src/frontend/linkshell.cc\<close>), \<open>mm-delay\<close> (\<open>delayshell.cc\<close>), \<open>mm-loss\<close> (\<open>lossshell.cc\<close>),
  \<open>mm-onoff\<close> (\<open>onoffshell.cc\<close>), \<open>mm-meter\<close> (\<open>meter.cc\<close>), and the recording shell
  (\<open>recordshell.cc\<close>). Each is a function from the arguments to the session it starts: the prompt,
  the command, and what the queues of the two directions are made from. \<open>argv\<close> is the list of all
  arguments, the program's name first; \<open>check_requirements\<close> has seen to it that there is one. The answers of the system are arguments of the model:
  \<open>shell\<close> is what \<open>shell_path()\<close> finds, \<open>strtod\<close> the C function, and the options of
  \<open>getopt_long\<close> come as the list of the pairs of option and \<open>optarg\<close> it returns, followed by the
  operands that \<open>optind\<close> points at.

  The command line \<open>mm-link\<close> writes to its log is shown to be read back, by the quoting rules of a
  shell, as the arguments it was given.
\<close>

section \<open>Words common to the shells\<close>

record 'a session =
  prompt :: string
  command :: "string list"
  uplink :: 'a
  downlink :: 'a

definition usage :: "string \<Rightarrow> string \<Rightarrow> string \<Rightarrow> 'a res" where
  "usage before program_name behind = Inl (RuntimeError (before @ program_name @ behind))"

text \<open>\<open>pw->pw_shell\<close>, or the Bourne shell when it is empty.\<close>

definition shell_path :: "string \<Rightarrow> string" where
  "shell_path pw_shell = (if pw_shell = [] then ''/bin/sh'' else pw_shell)"

definition command_of :: "string res \<Rightarrow> string list \<Rightarrow> string list res" where
  "command_of shell rest = (if rest = [] then rbind shell (\<lambda>s. Inr [s]) else Inr rest)"

text \<open>\<open>join\<close> folds the rest of the command onto its front; an empty command has no front.\<close>

definition join_command :: "string list \<Rightarrow> string res" where
  "join_command cmd =
     (case cmd of [] \<Rightarrow> Inl Undefined | c # cs \<Rightarrow> Inr (foldl (\<lambda>a b. a @ '' '' @ b) c cs))"

text \<open>\<open>MAHIMAHI_SHELL_PREFIX\<close> after \<open>prepend_shell_prefix\<close>.\<close>

definition prepend_shell_prefix :: "string option \<Rightarrow> string \<Rightarrow> string" where
  "prepend_shell_prefix old str = (case old of None \<Rightarrow> [] | Some p \<Rightarrow> p) @ str"

section \<open>Floating-point arguments\<close>

text \<open>The values \<open>strtod\<close> can return, as far as the shells look at them.\<close>

datatype double = Finite rat | Infinite_double bool | NaN

text \<open>\<open>Infinite_double True\<close> is the positive infinity; NaN compares false with everything.\<close>

fun double_le :: "double \<Rightarrow> double \<Rightarrow> bool" where
  "double_le (Finite a) (Finite b) = (a \<le> b)"
| "double_le NaN _ = False"
| "double_le _ NaN = False"
| "double_le (Infinite_double a) (Infinite_double b) = (a \<longrightarrow> b)"
| "double_le (Infinite_double a) (Finite b) = (\<not> a)"
| "double_le (Finite a) (Infinite_double b) = b"

text \<open>\<open>strtod\<close> yields the value, the number of characters read, and whether \<open>errno\<close> was set.\<close>

type_synonym strtod = "string \<Rightarrow> double \<times> nat \<times> bool"

definition myatof :: "strtod \<Rightarrow> string \<Rightarrow> double res" where
  "myatof strtod str =
     (if str = [] then Inl (RuntimeError ''Invalid floating-point string: empty'')
      else case strtod str of (ret, stop, err) \<Rightarrow>
        if err then Inl (UnixError ''strtod'')
        else if stop \<noteq> length str
        then Inl (RuntimeError (''Invalid floating-point number: '' @ str))
        else Inr ret)"

section \<open>mm-delay\<close>

definition delay_main :: "string res \<Rightarrow> string list \<Rightarrow> u64 session res" where
  "delay_main shell argv =
     (case argv of
        prog # ms # rest \<Rightarrow>
          rbind (myatoi ms 10) (\<lambda>n.
          rbind (command_of shell rest) (\<lambda>cmd.
            let delay_ms = word_of_int n
            in Inr \<lparr>prompt = ''[delay '' @ to_string (unat delay_ms) @ '' ms] '', command = cmd,
                    uplink = delay_ms, downlink = delay_ms\<rparr>))
      | _ \<Rightarrow> usage ''Usage: '' (concat (take 1 argv)) '' delay-milliseconds [command...]'')"

section \<open>mm-loss\<close>

definition loss_usage :: "string \<Rightarrow> 'a res" where
  "loss_usage prog = usage ''Usage: '' prog '' uplink|downlink RATE [COMMAND...]''"

definition loss_main :: "strtod \<Rightarrow> string res \<Rightarrow> string list \<Rightarrow> double session res" where
  "loss_main strtod shell argv =
     (case argv of
        prog # link # rate # rest \<Rightarrow>
          rbind (myatof strtod rate) (\<lambda>loss_rate.
            if \<not> (double_le (Finite 0) loss_rate \<and> double_le loss_rate (Finite 1)) then loss_usage prog
            else if link \<noteq> ''uplink'' \<and> link \<noteq> ''downlink'' then loss_usage prog
            else rbind (command_of shell rest) (\<lambda>cmd.
              Inr \<lparr>prompt = ''[loss '' @ (if link = ''uplink'' then ''up='' else ''down='') @ rate @ ''] '',
                   command = cmd,
                   uplink = (if link = ''uplink'' then loss_rate else Finite 0),
                   downlink = (if link = ''uplink'' then Finite 0 else loss_rate)\<rparr>))
      | _ \<Rightarrow> loss_usage (concat (take 1 argv)))"

section \<open>mm-onoff\<close>

definition onoff_usage :: "string \<Rightarrow> 'a res" where
  "onoff_usage prog = usage ''Usage: '' prog '' uplink|downlink MEAN-ON-TIME MEAN-OFF-TIME [COMMAND...]''"

text \<open>\<open>numeric_limits<double>::max()\<close>.\<close>

definition double_max :: rat where
  "double_max = (2 - 1 / 2 ^ 52) * 2 ^ 1023"

text \<open>The two times of a direction, on and off.\<close>

definition onoff_main :: "strtod \<Rightarrow> string res \<Rightarrow> string list \<Rightarrow> (double \<times> double) session res" where
  "onoff_main strtod shell argv =
     (case argv of
        prog # link # on # off # rest \<Rightarrow>
          rbind (myatof strtod on) (\<lambda>on_time.
            if \<not> double_le (Finite 0) on_time then onoff_usage prog
            else rbind (myatof strtod off) (\<lambda>off_time.
              if \<not> double_le (Finite 0) off_time then onoff_usage prog
              else if on_time = Finite 0 \<and> off_time = Finite 0 then onoff_usage prog
              else if link \<noteq> ''uplink'' \<and> link \<noteq> ''downlink'' then onoff_usage prog
              else rbind (command_of shell rest) (\<lambda>cmd.
                let always = (Finite double_max, Finite 0)
                in Inr \<lparr>prompt = ''[onoff '' @ (if link = ''uplink'' then ''(up) on='' else ''(down) on='') @
                          on @ ''s off='' @ off @ ''s] '',
                        command = cmd,
                        uplink = (if link = ''uplink'' then (on_time, off_time) else always),
                        downlink = (if link = ''uplink'' then always else (on_time, off_time))\<rparr>)))
      | _ \<Rightarrow> onoff_usage (concat (take 1 argv)))"

section \<open>mm-meter\<close>

type_synonym options = "(char \<times> string) list"

definition char_code :: "char \<Rightarrow> nat" where
  "char_code c = of_char c"

text \<open>The flags are those of the uplink and the downlink meter.\<close>

fun meter_options :: "string \<Rightarrow> options \<Rightarrow> bool \<times> bool \<Rightarrow> (bool \<times> bool) res" where
  "meter_options prog [] m = Inr m"
| "meter_options prog ((opt, optarg) # opts) (up, down) =
     (if opt = CHR ''u'' then meter_options prog opts (True, down)
      else if opt = CHR ''d'' then meter_options prog opts (up, True)
      else if opt = CHR ''?'' then
        usage ''Usage: '' prog '' [--meter-uplink] [--meter-downlink] [COMMAND...]''
      else Inl (RuntimeError (''getopt_log: unexpected return value '' @ to_string (char_code opt))))"

definition meter_main ::
  "string res \<Rightarrow> string \<Rightarrow> options \<Rightarrow> string list \<Rightarrow> (string \<times> bool) session res" where
  "meter_main shell prog opts operands =
     rbind (meter_options prog opts (False, False)) (\<lambda>(up, down).
     rbind (command_of shell operands) (\<lambda>cmd.
       Inr \<lparr>prompt = ''[meter] '', command = cmd, uplink = (''Uplink'', up),
            downlink = (''Downlink'', down)\<rparr>))"

section \<open>The recording shell\<close>

text \<open>The directory, made to end with a slash, and the command.\<close>

definition record_main :: "string res \<Rightarrow> string list \<Rightarrow> (string \<times> string list) res" where
  "record_main shell argv =
     (case argv of
        prog # directory # rest \<Rightarrow>
          if directory = [] then Inl (RuntimeError (prog @ '': directory name must be non-empty''))
          else rbind (command_of shell rest) (\<lambda>cmd.
            Inr (if last directory \<noteq> CHR ''/'' then directory @ ''/'' else directory, cmd))
      | _ \<Rightarrow> usage ''Usage: '' (concat (take 1 argv)) '' directory [command...]'')"

section \<open>mm-link\<close>

fun shell_quote_chars :: "string \<Rightarrow> string" where
  "shell_quote_chars [] = []"
| "shell_quote_chars (ch # arg) =
     (if ch \<noteq> CHR 0x27 then [ch] else [CHR 0x27, CHR 0x5C, CHR 0x27, CHR 0x27]) @
     shell_quote_chars arg"

definition shell_quote :: "string \<Rightarrow> string" where
  "shell_quote arg = [CHR 0x27] @ shell_quote_chars arg @ [CHR 0x27]"

fun quote_rest :: "string list \<Rightarrow> string" where
  "quote_rest [] = []"
| "quote_rest (arg # args) = '' '' @ shell_quote arg @ quote_rest args"

definition command_line :: "string list \<Rightarrow> string" where
  "command_line argv = shell_quote (hd argv) @ quote_rest (tl argv)"

record link_options =
  uplink_logfile :: string
  downlink_logfile :: string
  repeat_flag :: bool
  meter_uplink :: bool
  meter_downlink :: bool
  meter_uplink_delay :: bool
  meter_downlink_delay :: bool
  uplink_queue_type :: string
  downlink_queue_type :: string
  uplink_queue_args :: string
  downlink_queue_args :: string

definition link_defaults :: link_options where
  "link_defaults =
     \<lparr>uplink_logfile = [], downlink_logfile = [], repeat_flag = True, meter_uplink = False,
      meter_downlink = False, meter_uplink_delay = False, meter_downlink_delay = False,
      uplink_queue_type = ''infinite'', downlink_queue_type = ''infinite'',
      uplink_queue_args = [], downlink_queue_args = []\<rparr>"

definition link_option :: "char \<Rightarrow> string \<Rightarrow> link_options \<Rightarrow> link_options res" where
  "link_option opt optarg o1 =
     (if opt = CHR ''u'' then Inr (o1\<lparr>uplink_logfile := optarg\<rparr>)
      else if opt = CHR ''d'' then Inr (o1\<lparr>downlink_logfile := optarg\<rparr>)
      else if opt = CHR ''o'' then Inr (o1\<lparr>repeat_flag := False\<rparr>)
      else if opt = CHR ''m'' then Inr (o1\<lparr>meter_uplink := True\<rparr>)
      else if opt = CHR ''n'' then Inr (o1\<lparr>meter_downlink := True\<rparr>)
      else if opt = CHR ''x'' then Inr (o1\<lparr>meter_uplink_delay := True\<rparr>)
      else if opt = CHR ''y'' then Inr (o1\<lparr>meter_downlink_delay := True\<rparr>)
      else if opt = CHR ''z'' then
        Inr (o1\<lparr>meter_uplink := True, meter_downlink := True, meter_uplink_delay := True,
               meter_downlink_delay := True\<rparr>)
      else if opt = CHR ''q'' then Inr (o1\<lparr>uplink_queue_type := optarg\<rparr>)
      else if opt = CHR ''w'' then Inr (o1\<lparr>downlink_queue_type := optarg\<rparr>)
      else if opt = CHR ''a'' then Inr (o1\<lparr>uplink_queue_args := optarg\<rparr>)
      else if opt = CHR ''b'' then Inr (o1\<lparr>downlink_queue_args := optarg\<rparr>)
      else if opt = CHR ''?'' then usage_error
      else Inl (RuntimeError (''getopt_long: unexpected return value '' @ to_string (char_code opt))))"

fun link_options_of :: "options \<Rightarrow> link_options \<Rightarrow> link_options res" where
  "link_options_of [] o1 = Inr o1"
| "link_options_of ((opt, optarg) # opts) o1 =
     rbind (link_option opt optarg o1) (link_options_of opts)"

text \<open>What a direction's \<open>LinkQueue\<close> is constructed from.\<close>

record link_arguments =
  link_name :: string
  filename :: string
  logfile :: string
  repeat_trace_flag :: bool
  graph_throughput :: bool
  graph_delay :: bool
  link_packet_queue :: any_queue
  log_command_line :: string

text \<open>The queue of the uplink is made before that of the downlink; both see the environment.\<close>

definition link_main ::
  "string res \<Rightarrow> string list \<Rightarrow> options \<Rightarrow> string list \<Rightarrow> env \<Rightarrow> (env \<times> link_arguments session) res"
where
  "link_main shell argv opts operands e =
     (if length argv < 3 then usage_error
      else rbind (link_options_of opts link_defaults) (\<lambda>o1.
        case operands of
          up_file # down_file # rest \<Rightarrow>
            rbind (command_of shell rest) (\<lambda>cmd.
            rbind (get_packet_queue (uplink_queue_type o1) (uplink_queue_args o1) e) (\<lambda>(e1, q1).
            rbind (get_packet_queue (downlink_queue_type o1) (downlink_queue_args o1) e1) (\<lambda>(e2, q2).
              Inr (e2, \<lparr>prompt = ''[link] '', command = cmd,
                uplink = \<lparr>link_name = ''Uplink'', filename = up_file, logfile = uplink_logfile o1,
                  repeat_trace_flag = repeat_flag o1, graph_throughput = meter_uplink o1,
                  graph_delay = meter_uplink_delay o1, link_packet_queue = q1,
                  log_command_line = command_line argv\<rparr>,
                downlink = \<lparr>link_name = ''Downlink'', filename = down_file,
                  logfile = downlink_logfile o1, repeat_trace_flag = repeat_flag o1,
                  graph_throughput = meter_downlink o1, graph_delay = meter_downlink_delay o1,
                  link_packet_queue = q2, log_command_line = command_line argv\<rparr>\<rparr>))))
        | _ \<Rightarrow> usage_error))"

section \<open>The quoted command line is read back\<close>

text \<open>
  How a shell splits a line into words, as far as blanks, single quotes and the backslash go:
  \<open>None\<close> is the state between words, \<open>Some w\<close> inside the word that has begun with \<open>w\<close>; \<open>quoted\<close>
  tells whether a single quote is open. A line that ends inside a quote is no line.
\<close>

fun sh_words :: "bool \<Rightarrow> string option \<Rightarrow> string \<Rightarrow> string list option" where
  "sh_words quoted w [] =
     (if quoted then None else Some (case w of None \<Rightarrow> [] | Some x \<Rightarrow> [x]))"
| "sh_words True w (c # cs) =
     (if c = CHR 0x27 then sh_words False w cs
      else sh_words True (Some ((case w of None \<Rightarrow> [] | Some x \<Rightarrow> x) @ [c])) cs)"
| "sh_words False w (c # cs) =
     (if c = CHR 0x27 then sh_words True (Some (case w of None \<Rightarrow> [] | Some x \<Rightarrow> x)) cs
      else if c = CHR 0x5C then
        (case cs of [] \<Rightarrow> None
         | d # ds \<Rightarrow> sh_words False (Some ((case w of None \<Rightarrow> [] | Some x \<Rightarrow> x) @ [d])) ds)
      else if c = CHR '' '' then
        (case w of None \<Rightarrow> sh_words False None cs
         | Some x \<Rightarrow> map_option (Cons x) (sh_words False None cs))
      else sh_words False (Some ((case w of None \<Rightarrow> [] | Some x \<Rightarrow> x) @ [c])) cs)"

lemma sh_words_quoted:
  "sh_words True (Some w) (shell_quote_chars arg @ CHR 0x27 # rest) =
     sh_words False (Some (w @ arg)) rest"
  by (induction arg arbitrary: w) auto

lemma sh_words_shell_quote:
  "sh_words False None (shell_quote arg @ rest) = sh_words False (Some arg) rest"
  using sh_words_quoted [of "[]" arg rest] by (simp add: shell_quote_def)

lemma sh_words_rest: "sh_words False (Some w) (quote_rest args) = Some (w # args)"
  by (induction args arbitrary: w) (simp_all add: sh_words_shell_quote)

text \<open>
  The command line in the log of \<open>mm-link\<close> can be pasted into a shell.
  Whatever the arguments contain, quotes, blanks and backslashes included, splitting the line by
  the quoting rules of a shell gives exactly the arguments the program was started with.
\<close>

theorem command_line_roundtrip:
  assumes "argv \<noteq> []"
  shows "sh_words False None (command_line argv) = Some argv"
  using assms by (cases argv) (simp_all add: command_line_def sh_words_shell_quote sh_words_rest)

lemma command_line_roundtrip_witness:
  "sh_words False None (command_line [''mm-link'', [CHR ''a'', CHR 0x27, CHR '' '', CHR 0x5C], []]) =
     Some [''mm-link'', [CHR ''a'', CHR 0x27, CHR '' '', CHR 0x5C], []]"
  by (rule command_line_roundtrip) simp

end
