(* ===== verification/System.thy ===== *)
theory System
  imports Privileges Event_Loop Interfaces Sockets Shells
begin

text \<open>
  What the shells do to the system around them: run a command and wait for it
  (\<open>src/src/util/system_runner.cc\<close>, the rest of \<open>child_process.cc\<close>), keep temporary files
  (\<open>temp_file.cc\<close>), configure network devices (\<open>netdevice.cc\<close>), and look at directories and name
  servers (\<open>util.cc\<close>). System calls are arguments, functions of the kernel's state.
\<close>

section \<open>Child processes\<close>

text \<open>\<open>do_clone\<close> checks the number of links of \<open>/proc/self/task\<close>, one more than two per thread.\<close>

definition do_clone ::
  "('k \<Rightarrow> (nat \<times> 'k) res) \<Rightarrow> (bool \<Rightarrow> 'k \<Rightarrow> (int \<times> 'k) res) \<Rightarrow> bool \<Rightarrow> 'k \<Rightarrow> (int \<times> 'k) res" where
  "do_clone stat_task clone new_namespace k =
     rbind (stat_task k) (\<lambda>(st_nlink, k').
       if st_nlink \<noteq> 3 then Inl (RuntimeError ''ChildProcess constructed in multi-threaded program'')
       else clone new_namespace k')"

text \<open>The child's side of the constructor: its exit status, unless a failed assertion kills it.\<close>

definition child_exit :: "int res \<Rightarrow> int option" where
  "child_exit r =
     (case r of
        Inr status \<Rightarrow> Some status
      | Inl e \<Rightarrow> if e \<in> {AssertFail, Undefined, Diverges} then None else Some 1)"

text \<open>The move constructor yields the new object and leaves the old one marked.\<close>

definition child_move :: "child_process \<Rightarrow> (child_process \<times> child_process) res" where
  "child_move other = (if moved_away other then Inl AssertFail else Inr (other, other\<lparr>moved_away := True\<rparr>))"

text \<open>The destructor's loop; an exception is printed and ends it. The signals sent are recorded.\<close>

type_synonym 'k waitid = "int \<Rightarrow> 'k \<Rightarrow> (siginfo \<times> 'k) res"

partial_function (option) child_destroy_loop ::
  "'k waitid \<Rightarrow> child_process \<Rightarrow> (int \<times> signal) list \<Rightarrow> 'k \<Rightarrow>
     (child_process \<times> (int \<times> signal) list \<times> 'k) option" where
  "child_destroy_loop waitid c sent k =
     (if terminated c then Some (c, sent, k)
      else case rbind (child_resume c) (\<lambda>s1. rbind (child_signal (termination_signal c) c) (\<lambda>s2. Inr (s1 @ s2))) of
        Inl e \<Rightarrow> Some (c, sent, k)
      | Inr signals \<Rightarrow>
          (case rbind (waitid (child_pid c) k) (\<lambda>(info, k'). rbind (child_wait False info c) (\<lambda>c'. Inr (c', k'))) of
             Inl e \<Rightarrow> Some (c, sent @ signals, k)
           | Inr (c', k') \<Rightarrow> child_destroy_loop waitid c' (sent @ signals) k'))"

definition child_destroy ::
  "'k waitid \<Rightarrow> child_process \<Rightarrow> 'k \<Rightarrow> (child_process \<times> (int \<times> signal) list \<times> 'k) option" where
  "child_destroy waitid c k = (if moved_away c then Some (c, [], k) else child_destroy_loop waitid c [] k)"

section \<open>Running a command\<close>

text \<open>The environment: \<open>environ\<close> is the null pointer, or what \<open>getenv\<close> finds.\<close>

type_synonym environment = "string \<Rightarrow> string option"

text \<open>
  \<open>ezexec\<close>: the arguments and the environment passed to \<open>execve\<close> or \<open>execvpe\<close>, and the state of the
  process that becomes the new program. Each argument is copied and ended by a zero byte. A call that
  succeeds does not return; \<open>exec\<close> answers whether it does.
\<close>

definition c_string :: "string \<Rightarrow> string" where
  "c_string s = takeWhile (\<lambda>ch. ch \<noteq> CHR 0x00) s"

record 'k image =
  image_path_search :: bool
  image_argv :: "string list"
  image_environ :: "environment option"
  image_state :: 'k

definition ezexec ::
  "'k id_calls \<Rightarrow> ('k image \<Rightarrow> bool) \<Rightarrow> environment option \<Rightarrow> bool \<Rightarrow> string list \<Rightarrow> 'k \<Rightarrow> 'k image res"
where
  "ezexec K exec environ path_search cmd k =
     (if cmd = [] then Inl (RuntimeError ''ezexec: empty command'')
      else if (geteuid K k = 0 \<or> getegid K k = 0) \<and> environ \<noteq> None
      then Inl (RuntimeError (''BUG: root'' @ [CHR 0x27] @ ''s environment not cleared''))
      else if (geteuid K k = 0 \<or> getegid K k = 0) \<and> path_search
      then Inl (RuntimeError ''BUG: root should not search PATH'')
      else let argv = map (\<lambda>x. c_string (x @ [CHR 0x00])) cmd;
               i = \<lparr>image_path_search = path_search, image_argv = argv, image_environ = environ, image_state = k\<rparr>
           in if exec i then Inr i else Inl (UnixError (hd argv)))"

text \<open>
  \<open>environ\<close> after \<open>prepend_shell_prefix\<close>, which reads and sets the prefix of the prompt; \<open>setenv\<close> makes
  an environment when there is none.
\<close>

definition environment_of :: "environment option \<Rightarrow> environment" where
  "environment_of environ = (case environ of None \<Rightarrow> Map.empty | Some e \<Rightarrow> e)"

definition setenv :: "string \<Rightarrow> string \<Rightarrow> bool \<Rightarrow> environment option \<Rightarrow> environment option" where
  "setenv name val overwrite environ =
     Some (if overwrite \<or> environment_of environ name = None
           then (environment_of environ)(name \<mapsto> c_string val) else environment_of environ)"

definition prefixed_environment :: "string \<Rightarrow> environment option \<Rightarrow> environment option" where
  "prefixed_environment str environ =
     setenv ''PROMPT_COMMAND'' ''PS1=\"$MAHIMAHI_SHELL_PREFIX$PS1\" PROMPT_COMMAND='' True
       (setenv ''MAHIMAHI_SHELL_PREFIX''
         (prepend_shell_prefix (environment_of environ ''MAHIMAHI_SHELL_PREFIX'') str) True environ)"

text \<open>\<open>spawn\<close> is \<open>clone\<close> with \<open>ezexec( command )\<close> in the child.\<close>

partial_function (option) run_wait :: "'k waitid \<Rightarrow> child_process \<Rightarrow> 'k \<Rightarrow> (child_process \<times> 'k) res option" where
  "run_wait waitid c k =
     (case child_terminated c of
        Inl e \<Rightarrow> Some (Inl e)
      | Inr t \<Rightarrow> if t then Some (Inr (c, k)) else
          (case rbind (waitid (child_pid c) k) (\<lambda>(info, k'). rbind (child_wait False info c) (\<lambda>c'. Inr (c', k'))) of
             Inl e \<Rightarrow> Some (Inl e)
           | Inr (c', k') \<Rightarrow> run_wait waitid c' k'))"

definition run_command ::
  "(string list \<Rightarrow> 'k \<Rightarrow> (int \<times> 'k) res) \<Rightarrow> 'k waitid \<Rightarrow> string list \<Rightarrow> 'k \<Rightarrow> 'k res option" where
  "run_command spawn waitid cmd k =
     (case rbind (join_command cmd) (\<lambda>name. rbind (spawn cmd k) (\<lambda>(pid, k1).
             Inr (child_new name pid SIGHUP, k1))) of
        Inl e \<Rightarrow> Some (Inl e)
      | Inr (c, k1) \<Rightarrow>
          map_option (\<lambda>r. rbind r (\<lambda>(c', k2). if exit_status c' \<noteq> 0 then Inl (child_exception c') else Inr k2))
            (run_wait waitid c k1))"

section \<open>Temporary files\<close>

record unique_file =
  mutable_temp_filename :: string
  file_fd :: file_descriptor
  file_moved_away :: bool

definition to_mutable :: "string \<Rightarrow> string" where
  "to_mutable str = str @ [CHR 0x00]"

text \<open>\<open>mkstemp\<close> fills in the name; it answers with the buffer it was given and the descriptor.\<close>

definition unique_file_new ::
  "(string \<Rightarrow> 'k \<Rightarrow> (string \<times> int \<times> 'k) res) \<Rightarrow> string \<Rightarrow> 'k \<Rightarrow> (unique_file \<times> 'k) res" where
  "unique_file_new mkstemp filename_template k =
     rbind (mkstemp (to_mutable (filename_template @ ''.XXXXXX'')) k) (\<lambda>(buffer, n, k').
     rbind (fd_new n) (\<lambda>fd.
       Inr (\<lparr>mutable_temp_filename = buffer, file_fd = fd, file_moved_away = False\<rparr>, k')))"

definition file_name :: "unique_file \<Rightarrow> string res" where
  "file_name f =
     (if length (mutable_temp_filename f) \<le> 1 then Inl AssertFail else Inr (butlast (mutable_temp_filename f)))"

definition file_write :: "'k sys_write \<Rightarrow> string \<Rightarrow> unique_file \<Rightarrow> 'k \<Rightarrow> (unique_file \<times> 'k) res" where
  "file_write sys_write str f k =
     (if file_moved_away f then Inl AssertFail
      else rbind (fd_write sys_write True str (file_fd f, k)) (\<lambda>(_, (fd, k')).
        Inr (f\<lparr>file_fd := fd\<rparr>, k')))"

definition file_move :: "unique_file \<Rightarrow> unique_file \<times> unique_file" where
  "file_move other =
     (case fd_move (file_fd other) of (fd, fd') \<Rightarrow>
        (\<lparr>mutable_temp_filename = mutable_temp_filename other, file_fd = fd, file_moved_away = False\<rparr>,
         other\<lparr>file_fd := fd', file_moved_away := True\<rparr>))"

text \<open>The destructor of a \<open>TempFile\<close>: the name that is unlinked; an exception is printed.\<close>

definition temp_file_end :: "(string \<Rightarrow> 'k \<Rightarrow> 'k option) \<Rightarrow> unique_file \<Rightarrow> 'k \<Rightarrow> 'k" where
  "temp_file_end unlink f k =
     (if file_moved_away f then k
      else case rbind (file_name f) (\<lambda>name. system_call (''unlink '' @ name) (unlink (c_string name) k)) of
        Inl e \<Rightarrow> k
      | Inr k' \<Rightarrow> k')"

section \<open>Network devices\<close>

text \<open>The requests to \<open>ioctl\<close>, each with what its function puts into the \<open>ifreq\<close>.\<close>

datatype interface_request =
  TUNSETIFF_TUN | SIOCSIFADDR address | SIOCSIFDSTADDR address | SIOCSIFNETMASK address | SIOCSIFFLAGS_UP

definition IFNAMSIZ :: nat where "IFNAMSIZ = 16"

text \<open>\<open>strncpy\<close> copies up to \<open>IFNAMSIZ\<close> characters of the name.\<close>

definition interface_ioctl ::
  "(int \<Rightarrow> string \<Rightarrow> interface_request \<Rightarrow> 'k \<Rightarrow> 'k option) \<Rightarrow> file_descriptor \<Rightarrow> interface_request \<Rightarrow> string \<Rightarrow>
     'k \<Rightarrow> 'k res" where
  "interface_ioctl ioctl fd request name k =
     system_call (''ioctl '' @ name) (ioctl (fd_num fd) (take IFNAMSIZ (c_string name)) request k)"

record 'k net_calls =
  open_udp :: "'k \<Rightarrow> (file_descriptor \<times> 'k) res"
  net_ioctl :: "int \<Rightarrow> string \<Rightarrow> interface_request \<Rightarrow> 'k \<Rightarrow> 'k option"
  net_run :: "string list \<Rightarrow> 'k \<Rightarrow> 'k res"
  IP_program :: string

text \<open>Over a temporary socket.\<close>

definition temp_ioctl :: "'k net_calls \<Rightarrow> interface_request \<Rightarrow> string \<Rightarrow> 'k \<Rightarrow> 'k res" where
  "temp_ioctl N request name k =
     rbind (open_udp N k) (\<lambda>(fd, k'). interface_ioctl (net_ioctl N) fd request name k')"

definition assign_address :: "'k net_calls \<Rightarrow> string \<Rightarrow> address \<Rightarrow> address \<Rightarrow> 'k \<Rightarrow> 'k res" where
  "assign_address N device_name addr peer k =
     rbind (temp_ioctl N (SIOCSIFADDR addr) device_name k) (\<lambda>k1.
     rbind (temp_ioctl N (SIOCSIFDSTADDR peer) device_name k1) (\<lambda>k2.
     rbind (temp_ioctl N (SIOCSIFNETMASK (numeric_address ''255.255.255.255'' 0)) device_name k2) (\<lambda>k3.
       temp_ioctl N SIOCSIFFLAGS_UP device_name k3)))"

definition tun_device_new ::
  "(string \<Rightarrow> 'k \<Rightarrow> (int \<times> 'k) res) \<Rightarrow> 'k net_calls \<Rightarrow> string \<Rightarrow> address \<Rightarrow> address \<Rightarrow> 'k \<Rightarrow>
     (file_descriptor \<times> 'k) res" where
  "tun_device_new sys_open N name addr peer k =
     rbind (sys_open ''/dev/net/tun'' k) (\<lambda>(n, k1).
     rbind (fd_new n) (\<lambda>fd.
     rbind (interface_ioctl (net_ioctl N) fd TUNSETIFF_TUN name k1) (\<lambda>k2.
     rbind (assign_address N name addr peer k2) (\<lambda>k3. Inr (fd, k3)))))"

record veth_pair =
  veth_name :: string
  kernel_will_destroy :: bool

definition name_check :: "string \<Rightarrow> unit res" where
  "name_check str =
     (if str_find str ''veth-'' \<noteq> Some 0
      then Inl (RuntimeError (str @ '': name of veth device must start with \"veth-\"'')) else Inr ())"

definition veth_new :: "'k net_calls \<Rightarrow> string \<Rightarrow> string \<Rightarrow> 'k \<Rightarrow> (veth_pair \<times> 'k) res" where
  "veth_new N outside_name inside_name k =
     rbind (name_check outside_name) (\<lambda>_.
     rbind (name_check inside_name) (\<lambda>_.
     rbind (net_run N [IP_program N, ''link'', ''add'', outside_name, ''type'', ''veth'', ''peer'', ''name'', inside_name] k)
       (\<lambda>k'. Inr (\<lparr>veth_name = outside_name, kernel_will_destroy = False\<rparr>, k'))))"

definition set_kernel_will_destroy :: "veth_pair \<Rightarrow> veth_pair" where
  "set_kernel_will_destroy v = v\<lparr>kernel_will_destroy := True\<rparr>"

text \<open>The destructor; an exception is printed.\<close>

definition veth_end :: "'k net_calls \<Rightarrow> veth_pair \<Rightarrow> 'k \<Rightarrow> 'k" where
  "veth_end N v k =
     (if kernel_will_destroy v then k
      else case net_run N [IP_program N, ''link'', ''del'', veth_name v] k of Inl e \<Rightarrow> k | Inr k' \<Rightarrow> k')"

section \<open>Directories and name servers\<close>

definition make_directory ::
  "'k id_calls \<Rightarrow> (string \<Rightarrow> 'k \<Rightarrow> 'k option) \<Rightarrow> string \<Rightarrow> 'k \<Rightarrow> 'k res" where
  "make_directory K mkdir directory k =
     rbind (assert_not_root K k) (\<lambda>_.
       if directory = [] \<or> last directory \<noteq> CHR ''/'' then Inl AssertFail
       else system_call (''mkdir '' @ directory) (mkdir (c_string directory) k))"

text \<open>\<open>opendir\<close> and all that \<open>readdir\<close> yields, the names in the directory.\<close>

definition list_directory_contents ::
  "'k id_calls \<Rightarrow> (string \<Rightarrow> 'k \<Rightarrow> (string list \<times> 'k) option) \<Rightarrow> string \<Rightarrow> 'k \<Rightarrow> (string list \<times> 'k) res" where
  "list_directory_contents K readdir dir k =
     rbind (assert_not_root K k) (\<lambda>_.
     rbind (system_call (''opendir ('' @ dir @ '')'') (readdir (c_string dir) k)) (\<lambda>(names, k').
       Inr (map (\<lambda>d_name. dir @ d_name) (filter (\<lambda>d_name. d_name \<noteq> ''.'' \<and> d_name \<noteq> ''..'') names), k')))"

text \<open>\<open>_res\<close> after \<open>res_init\<close>: the first server, and the entries of \<open>nsaddr_list\<close>, of which those
  without a port are unused.\<close>

definition first_nameserver :: "('k \<Rightarrow> (address list \<times> 'k) option) \<Rightarrow> 'k \<Rightarrow> (address \<times> 'k) res" where
  "first_nameserver res_init k = rbind (system_call ''res_init'' (res_init k)) (\<lambda>(nsaddr_list, k'). Inr (nsaddr_list ! 0, k'))"

definition MAXNS :: nat where "MAXNS = 3"

definition all_nameservers :: "('k \<Rightarrow> (address list \<times> 'k) option) \<Rightarrow> 'k \<Rightarrow> (address list \<times> 'k) res" where
  "all_nameservers res_init k =
     rbind (system_call ''res_init'' (res_init k)) (\<lambda>(nsaddr_list, k').
       Inr (filter (\<lambda>a. port a \<noteq> 0) (take MAXNS nsaddr_list), k'))"

definition get_working_directory :: "string option \<Rightarrow> string res" where
  "get_working_directory cwd = system_call ''getcwd'' cwd"

section \<open>The start of an event loop\<close>

text \<open>
  The comparison of two signal masks, over \<open>sigismember\<close>, and the descriptor the signals of a mask are
  read from. The greatest real-time signal is not compared.
\<close>

definition SIGRTMAX :: nat where "SIGRTMAX = 64"

definition masks_equal :: "('m \<Rightarrow> nat \<Rightarrow> int) \<Rightarrow> 'm \<Rightarrow> 'm \<Rightarrow> bool" where
  "masks_equal sigismember a b \<longleftrightarrow> list_all (\<lambda>signum. sigismember a signum = sigismember b signum) [0..<SIGRTMAX]"

definition signal_fd_new :: "('m \<Rightarrow> 'k \<Rightarrow> (int \<times> 'k) res) \<Rightarrow> 'm \<Rightarrow> 'k \<Rightarrow> (file_descriptor \<times> 'k) res" where
  "signal_fd_new signalfd signals k = rbind (signalfd signals k) (\<lambda>(n, k'). rbind (fd_new n) (\<lambda>fd. Inr (fd, k')))"

lemma masks_equal_last:
  "masks_equal (\<lambda>m signum. if signum \<in> m then 1 else 0) {SIGRTMAX} {}"
  by (simp add: masks_equal_def list_all_iff)

text \<open>
  A mask is made of signals one by one, and becomes the mask of the process; an event loop blocks
  the six signals it handles.
\<close>

definition signal_mask_new ::
  "'m option \<Rightarrow> ('m \<Rightarrow> signal \<Rightarrow> 'm option) \<Rightarrow> signal list \<Rightarrow> 'm res" where
  "signal_mask_new sigemptyset sigaddset signals =
     foldl (\<lambda>so_far s. rbind so_far (\<lambda>m. system_call ''sigaddset'' (sigaddset m s)))
       (system_call ''sigemptyset'' sigemptyset) signals"

definition signal_mask_current :: "('k \<Rightarrow> 'm option) \<Rightarrow> 'k \<Rightarrow> 'm res" where
  "signal_mask_current sigprocmask k = system_call ''sigprocmask'' (sigprocmask k)"

definition signal_mask_set :: "('m \<Rightarrow> 'k \<Rightarrow> 'k option) \<Rightarrow> 'm \<Rightarrow> 'k \<Rightarrow> 'k res" where
  "signal_mask_set sigprocmask m k = system_call ''sigprocmask'' (sigprocmask m k)"

definition loop_signals :: "signal list" where
  "loop_signals = [SIGCHLD, SIGCONT, SIGHUP, SIGTERM, SIGQUIT, SIGINT]"

definition event_loop_new ::
  "'m option \<Rightarrow> ('m \<Rightarrow> signal \<Rightarrow> 'm option) \<Rightarrow> ('m \<Rightarrow> 'k \<Rightarrow> 'k option) \<Rightarrow> 'k \<Rightarrow> ('m \<times> children \<times> 'k) res" where
  "event_loop_new sigemptyset sigaddset sigprocmask k =
     rbind (signal_mask_new sigemptyset sigaddset loop_signals) (\<lambda>signals.
     rbind (signal_mask_set sigprocmask signals k) (\<lambda>k'. Inr (signals, [], k')))"

text \<open>Over masks that are sets, those six are blocked and no others.\<close>

lemma event_loop_blocks:
  "event_loop_new (Some {}) (\<lambda>m s. Some (insert s m)) (\<lambda>m k. Some m) k =
     Inr (set loop_signals, [], set loop_signals)"
  by (simp add: event_loop_new_def signal_mask_new_def loop_signals_def system_call_def signal_mask_set_def insert_commute)

text \<open>
  What \<open>internal_loop\<close> does before it polls: it gives up privileges until it returns, checks that the
  signals of the loop are still the ones that are blocked, and opens the descriptor they are read from.
\<close>

definition loop_start ::
  "'k id_calls \<Rightarrow> ('m \<Rightarrow> nat \<Rightarrow> int) \<Rightarrow> ('k \<Rightarrow> 'm res) \<Rightarrow> ('m \<Rightarrow> 'k \<Rightarrow> (int \<times> 'k) res) \<Rightarrow> 'm \<Rightarrow> 'k \<Rightarrow>
     (temporarily_unprivileged \<times> file_descriptor \<times> 'k) res" where
  "loop_start K sigismember current_mask signalfd signals k =
     rbind (temporarily_unprivileged_new K k) (\<lambda>(tu, k1).
     rbind (current_mask k1) (\<lambda>mask.
       if \<not> masks_equal sigismember signals mask then Inl (RuntimeError ''EventLoop: signal mask has been altered'')
       else rbind (signal_fd_new signalfd signals k1) (\<lambda>(fd, k2). Inr (tu, fd, k2))))"

text \<open>The children are added at the end of the list, with the status that does not end the loop.\<close>

definition add_special_child :: "int \<Rightarrow> child_process \<Rightarrow> children \<Rightarrow> children" where
  "add_special_child continue_status c cs = cs @ [(continue_status, c)]"

definition add_child :: "child_process \<Rightarrow> children \<Rightarrow> children" where
  "add_child c cs = cs @ [(- 1, c)]"

section \<open>Waiting for a child\<close>

text \<open>
  Reports of \<open>waitid\<close> that do not end the child: it was stopped or continued. A report that ends it
  says how.
\<close>

definition paused :: "int \<Rightarrow> siginfo \<Rightarrow> bool" where
  "paused pid info \<longleftrightarrow>
     si_pid info = pid \<and> si_signo info = SIGCHLD \<and> si_code info \<in> {CLD_STOPPED, CLD_CONTINUED}"

definition ended :: "int \<Rightarrow> siginfo \<Rightarrow> bool" where
  "ended pid info \<longleftrightarrow>
     si_pid info = pid \<and> si_signo info = SIGCHLD \<and> si_code info \<in> {CLD_EXITED, CLD_KILLED, CLD_DUMPED}"

text \<open>From \<open>k\<close> the child only stops and continues until \<open>k'\<close>, with these reports.\<close>

inductive reported :: "'k waitid \<Rightarrow> int \<Rightarrow> 'k \<Rightarrow> siginfo list \<Rightarrow> 'k \<Rightarrow> bool" for waitid pid where
  none: "reported waitid pid k [] k"
| some: "waitid pid k = Inr (info, k1) \<Longrightarrow> paused pid info \<Longrightarrow> reported waitid pid k1 infos k' \<Longrightarrow>
     reported waitid pid k (info # infos) k'"

inductive_cases reported_noneE: "reported waitid pid k [] k'"
inductive_cases reported_someE: "reported waitid pid k (info # infos) k'"

lemma child_wait_paused:
  assumes "paused (child_pid c) info" and "\<not> moved_away c" and "\<not> terminated c"
  shows "child_wait False info c = Inr (c\<lparr>running := (si_code info = CLD_CONTINUED)\<rparr>)"
  using assms by (auto simp: child_wait_def child_changed_def paused_def)

definition dead :: "siginfo \<Rightarrow> child_process \<Rightarrow> child_process" where
  "dead info c = (if si_code info = CLD_EXITED then c\<lparr>terminated := True, exit_status := si_status info\<rparr>
     else c\<lparr>terminated := True, exit_status := si_status info, died_on_signal := True\<rparr>)"

lemma child_wait_ended:
  assumes "ended (child_pid c) info" and "\<not> moved_away c" and "\<not> terminated c"
  shows "child_wait False info c = Inr (dead info c)"
  using assms by (auto simp: child_wait_def child_changed_def ended_def dead_def)

lemma run_wait_reports:
  assumes "reported waitid (child_pid c) k infos k1" and "waitid (child_pid c) k1 = Inr (info, k2)"
    and "ended (child_pid c) info" and "\<not> moved_away c" and "\<not> terminated c"
  shows "\<exists>r. run_wait waitid c k = Some (Inr (dead info (c\<lparr>running := r\<rparr>), k2))"
  using assms
proof (induction infos arbitrary: c k)
  case Nil
  then have "k1 = k" by (blast elim: reported_noneE)
  moreover have "run_wait waitid (dead info c) k2 = Some (Inr (dead info c, k2))"
    using Nil.prems(4) by (subst run_wait.simps) (simp add: child_terminated_def dead_def)
  ultimately have "run_wait waitid c k = Some (Inr (dead info c, k2))"
    using Nil.prems(2,4,5) child_wait_ended [OF Nil.prems(3,4,5)]
    by (subst run_wait.simps) (simp add: child_terminated_def)
  then show ?case
    by (intro exI [of _ "running c"]) simp
next
  case (Cons i infos)
  from Cons.prems(1) obtain k0 where k0: "waitid (child_pid c) k = Inr (i, k0)" "paused (child_pid c) i"
    "reported waitid (child_pid c) k0 infos k1"
    by (blast elim: reported_someE)
  let ?c = "c\<lparr>running := (si_code i = CLD_CONTINUED)\<rparr>"
  have "run_wait waitid c k = run_wait waitid ?c k0"
    using k0(1) Cons.prems(4,5) child_wait_paused [OF k0(2) Cons.prems(4,5)]
    by (subst run_wait.simps) (simp add: child_terminated_def)
  moreover obtain r where "run_wait waitid ?c k0 = Some (Inr (dead info (?c\<lparr>running := r\<rparr>), k2))"
    using Cons.IH [of ?c k0] k0(3) Cons.prems(2-5) by auto
  ultimately show ?case by auto
qed

text \<open>The signals the destructor sends before each wait.\<close>

fun kill_signals :: "int \<Rightarrow> signal \<Rightarrow> bool \<Rightarrow> siginfo list \<Rightarrow> (int \<times> signal) list" where
  "kill_signals pid sig run [] = (if run then [] else [(pid, SIGCONT)]) @ [(pid, sig)]"
| "kill_signals pid sig run (info # infos) =
     (if run then [] else [(pid, SIGCONT)]) @ [(pid, sig)] @
     kill_signals pid sig (si_code info = CLD_CONTINUED) infos"

lemma child_destroy_reports:
  assumes "reported waitid (child_pid c) k infos k1" and "waitid (child_pid c) k1 = Inr (info, k2)"
    and "ended (child_pid c) info" and "\<not> moved_away c" and "\<not> terminated c"
  shows "\<exists>r. child_destroy_loop waitid c sent k =
    Some (dead info (c\<lparr>running := r\<rparr>), sent @ kill_signals (child_pid c) (termination_signal c) (running c) infos, k2)"
  using assms
proof (induction infos arbitrary: c k sent)
  case Nil
  then have "k1 = k" by (blast elim: reported_noneE)
  moreover have "child_destroy_loop waitid (dead info c) s k2 = Some (dead info c, s, k2)" for s
    by (subst child_destroy_loop.simps) (simp add: dead_def)
  ultimately have "child_destroy_loop waitid c sent k =
      Some (dead info c, sent @ kill_signals (child_pid c) (termination_signal c) (running c) [], k2)"
    using Nil.prems(2,4,5) child_wait_ended [OF Nil.prems(3,4,5)]
    by (subst child_destroy_loop.simps) (simp add: child_resume_def child_signal_def)
  then show ?case
    by (intro exI [of _ "running c"]) simp
next
  case (Cons i infos)
  from Cons.prems(1) obtain k0 where k0: "waitid (child_pid c) k = Inr (i, k0)" "paused (child_pid c) i"
    "reported waitid (child_pid c) k0 infos k1"
    by (blast elim: reported_someE)
  let ?c = "c\<lparr>running := (si_code i = CLD_CONTINUED)\<rparr>"
  let ?sent = "sent @ (if running c then [] else [(child_pid c, SIGCONT)]) @ [(child_pid c, termination_signal c)]"
  have "child_destroy_loop waitid c sent k = child_destroy_loop waitid ?c ?sent k0"
    using k0(1) Cons.prems(4,5) child_wait_paused [OF k0(2) Cons.prems(4,5)]
    by (subst child_destroy_loop.simps) (simp add: child_resume_def child_signal_def)
  moreover obtain r where "child_destroy_loop waitid ?c ?sent k0 = Some (dead info (?c\<lparr>running := r\<rparr>),
      ?sent @ kill_signals (child_pid ?c) (termination_signal ?c) (running ?c) infos, k2)"
    using Cons.IH [of ?c k0 ?sent] k0(3) Cons.prems(2-5) by auto
  ultimately show ?case by auto
qed

section \<open>Properties\<close>

text \<open>
  C28: \<open>run\<close> comes back once the command has ended, however often it is stopped and
  continued before, and succeeds exactly when it ended with status 0; otherwise the exception names
  the command and says how it ended.
\<close>

theorem run_reports:
  assumes "spawn (program # arguments) k = Inr (pid, k0)" and "reported waitid pid k0 infos k1"
    and "waitid pid k1 = Inr (info, k2)" and "ended pid info"
  shows "run_command spawn waitid (program # arguments) k =
    Some (if si_status info = 0 then Inr k2
      else Inl (RuntimeError (''`'' @ projr (join_command (program # arguments)) @ [CHR 0x27] @ '': process '' @
        (if si_code info = CLD_EXITED then ''exited with failure status '' else ''died on signal '') @
        to_string_int (si_status info))))"
proof -
  obtain name where name: "join_command (program # arguments) = Inr name"
    by (simp add: join_command_def)
  let ?c = "child_new name pid SIGHUP"
  obtain r where "run_wait waitid ?c k0 = Some (Inr (dead info (?c\<lparr>running := r\<rparr>), k2))"
    using run_wait_reports [of waitid ?c k0 infos k1 info k2] assms(2-4) by (auto simp: child_new_def)
  then show ?thesis
    using assms(1,4) name
    by (auto simp: run_command_def dead_def child_exception_def child_new_def ended_def)
qed

lemma run_reports_witness:
  "run_command (\<lambda>cmd k. Inr (42, k))
     (\<lambda>pid k. case k of [] \<Rightarrow> Inl (UnixError ''waitid'') | i # is \<Rightarrow> Inr (i, is))
     (''ip'' # [''link'', ''del'', ''veth-7''])
     [\<lparr>si_pid = 42, si_signo = SIGCHLD, si_code = CLD_STOPPED, si_status = 19\<rparr>,
      \<lparr>si_pid = 42, si_signo = SIGCHLD, si_code = CLD_EXITED, si_status = 1\<rparr>] =
   Some (Inl (RuntimeError (''`ip link del veth-7'' @ [CHR 0x27] @ '': process exited with failure status '' @
     to_string_int 1)))"
proof -
  let ?waitid = "\<lambda>pid k. case k of [] \<Rightarrow> Inl (UnixError ''waitid'') | i # is \<Rightarrow> Inr (i, is)"
  let ?stop = "\<lparr>si_pid = 42, si_signo = SIGCHLD, si_code = CLD_STOPPED, si_status = 19\<rparr>"
  let ?exit = "\<lparr>si_pid = 42, si_signo = SIGCHLD, si_code = CLD_EXITED, si_status = 1\<rparr>"
  have "reported ?waitid 42 [?stop, ?exit] [?stop] [?exit]"
    by (rule reported.some) (auto simp: paused_def intro: reported.none)
  from run_reports [of "\<lambda>cmd k. Inr (42, k)" "''ip''" "[''link'', ''del'', ''veth-7'']", OF refl this]
  show ?thesis by (simp add: ended_def join_command_def)
qed



text \<open>The name of a temporary file is the one \<open>mkstemp\<close> made, and is unlinked once.\<close>

lemma file_name_made:
  assumes "mkstemp (to_mutable (t @ ''.XXXXXX'')) k = Inr (to_mutable name, n, k')" and "2 < n" and "name \<noteq> []"
  shows "\<exists>f. unique_file_new mkstemp t k = Inr (f, k') \<and> file_name f = Inr name \<and>
    temp_file_end unlink (snd (file_move f)) k' = k'"
  using assms
  by (auto simp: unique_file_new_def fd_new_def file_name_def to_mutable_def temp_file_end_def file_move_def
      fd_move_def split: prod.split)

end
