(* ===== verification/Raw_Address.thy ===== *)
theory Raw_Address
  imports Ezio Byte_Stream "HOL-Library.List_Lexorder"
begin

text \<open>
  \<open>Address\<close> as it is stored, \<open>src/src/util/address.cc\<close>: the bytes of a socket address and their
  number. \<open>getaddrinfo\<close> and \<open>getnameinfo\<close> are arguments; \<open>memcmp\<close> of two blocks of the same size is
  the lexicographic order of lists of bytes. The addresses of the program are those of the Internet
  family, on which the comparisons are an equality and a linear order: by port, then by address.
\<close>

section \<open>The bytes\<close>

type_synonym byte = "8 word"

definition RAW_SIZE :: nat where "RAW_SIZE = 128"
definition SOCKADDR_IN_SIZE :: nat where "SOCKADDR_IN_SIZE = 16"

record raw_address =
  address_size :: nat
  address_bytes :: "byte list"

text \<open>\<open>sockaddr_in\<close>: port and address are in network order, the family in the host's.\<close>

datatype sockaddr_in = SockaddrIn (sin_port: "16 word") (sin_addr: u32)

definition port_bytes :: "16 word \<Rightarrow> byte list" where
  "port_bytes p = [word_of_nat (unat p div 256), word_of_nat (unat p mod 256)]"

definition addr_bytes :: "u32 \<Rightarrow> byte list" where
  "addr_bytes a =
     [word_of_nat (unat a div 2 ^ 24), word_of_nat (unat a div 2 ^ 16 mod 256),
      word_of_nat (unat a div 2 ^ 8 mod 256), word_of_nat (unat a mod 256)]"

definition sockaddr_in_bytes :: "sockaddr_in \<Rightarrow> byte list" where
  "sockaddr_in_bytes s = [2, 0] @ port_bytes (sin_port s) @ addr_bytes (sin_addr s) @ replicate 8 0"

section \<open>Address\<close>

definition address_of_raw :: "byte list \<Rightarrow> nat \<Rightarrow> raw_address res" where
  "address_of_raw bytes n =
     (if RAW_SIZE < n then Inl (RuntimeError ''invalid sockaddr size'')
      else Inr \<lparr>address_size = n, address_bytes = take n bytes @ replicate (RAW_SIZE - n) 0\<rparr>)"

definition address_of_sockaddr_in :: "sockaddr_in \<Rightarrow> raw_address" where
  "address_of_sockaddr_in s =
     \<lparr>address_size = SOCKADDR_IN_SIZE,
      address_bytes = sockaddr_in_bytes s @ replicate (RAW_SIZE - SOCKADDR_IN_SIZE) 0\<rparr>"

text \<open>
  The constructor over \<open>getaddrinfo\<close>, which answers with an error code or with the addresses found.
  The flags of the hints are or-ed with the two numeric ones where they were to be tested for them,
  so every failure is called numeric.
\<close>

type_synonym getaddrinfo = "bool \<Rightarrow> string \<Rightarrow> string \<Rightarrow> int + (byte list \<times> nat) list"

definition address_resolved :: "getaddrinfo \<Rightarrow> bool \<Rightarrow> string \<Rightarrow> string \<Rightarrow> raw_address res" where
  "address_resolved gai numeric node service =
     (case gai numeric node service of
        Inl code \<Rightarrow> Inl (UnixError (''getaddrinfo('' @ node @ '':'' @ service @ '', numeric'' @ '')''))
      | Inr [] \<Rightarrow> Inl (RuntimeError ''getaddrinfo returned successfully but with no results'')
      | Inr ((bytes, len) # _) \<Rightarrow> address_of_raw bytes len)"

definition address_of_names :: "getaddrinfo \<Rightarrow> string \<Rightarrow> string \<Rightarrow> raw_address res" where
  "address_of_names gai hostname service = address_resolved gai False hostname service"

definition address_of_numbers :: "getaddrinfo \<Rightarrow> string \<Rightarrow> 16 word \<Rightarrow> raw_address res" where
  "address_of_numbers gai ip port = address_resolved gai True ip (to_string (unat port))"

text \<open>\<open>ip_port\<close>; the port is read with \<open>myatoi\<close> and cut to 16 bits.\<close>

definition ip_port :: "(byte list \<Rightarrow> nat \<Rightarrow> int + string \<times> string) \<Rightarrow> raw_address \<Rightarrow> (string \<times> 16 word) res" where
  "ip_port getnameinfo a =
     (case getnameinfo (address_bytes a) (address_size a) of
        Inl code \<Rightarrow> Inl (UnixError ''getnameinfo'')
      | Inr (ip, port) \<Rightarrow> rbind (myatoi port 10) (\<lambda>n. Inr (ip, word_of_int n)))"

definition address_equal :: "raw_address \<Rightarrow> raw_address \<Rightarrow> bool" where
  "address_equal a b \<longleftrightarrow> take (address_size a) (address_bytes a) = take (address_size a) (address_bytes b)"

definition address_less :: "raw_address \<Rightarrow> raw_address \<Rightarrow> bool" where
  "address_less a b \<longleftrightarrow> address_bytes a < address_bytes b"

section \<open>Addresses of sockets\<close>

text \<open>\<open>get_address\<close>: \<open>getsockname\<close> and \<open>getpeername\<close> fill in bytes and the size.\<close>

definition get_address :: "(int \<Rightarrow> (byte list \<times> nat) res) \<Rightarrow> file_descriptor \<Rightarrow> raw_address res" where
  "get_address call fd = rbind (call (fd_num fd)) (\<lambda>(bytes, size). address_of_raw bytes size)"

text \<open>The target before the redirection, an option of the socket.\<close>

definition original_dest_of :: "(int \<Rightarrow> (byte list \<times> nat) res) \<Rightarrow> file_descriptor \<Rightarrow> raw_address res" where
  "original_dest_of getsockopt fd = rbind (getsockopt (fd_num fd)) (\<lambda>(dstaddr, len). address_of_raw dstaddr len)"

definition socket_bind ::
  "(int \<Rightarrow> byte list \<Rightarrow> nat \<Rightarrow> 'k \<Rightarrow> 'k res) \<Rightarrow> raw_address \<Rightarrow> file_descriptor \<Rightarrow> 'k \<Rightarrow> 'k res" where
  "socket_bind bind a fd k = bind (fd_num fd) (address_bytes a) (address_size a) k"

definition socket_connect ::
  "(int \<Rightarrow> byte list \<Rightarrow> nat \<Rightarrow> 'k \<Rightarrow> 'k res) \<Rightarrow> raw_address \<Rightarrow> file_descriptor \<Rightarrow> 'k \<Rightarrow> 'k res" where
  "socket_connect connect a fd k = connect (fd_num fd) (address_bytes a) (address_size a) k"

definition tcp_listen :: "(int \<Rightarrow> int \<Rightarrow> 'k \<Rightarrow> 'k res) \<Rightarrow> int \<Rightarrow> file_descriptor \<Rightarrow> 'k \<Rightarrow> 'k res" where
  "tcp_listen listen backlog fd k = listen (fd_num fd) backlog k"

text \<open>The two options the program sets, both to 1.\<close>

datatype set_option = SO_REUSEADDR | SO_TIMESTAMPNS

definition set_reuseaddr :: "(int \<Rightarrow> set_option \<Rightarrow> int \<Rightarrow> 'k \<Rightarrow> 'k res) \<Rightarrow> file_descriptor \<Rightarrow> 'k \<Rightarrow> 'k res" where
  "set_reuseaddr setsockopt fd k = setsockopt (fd_num fd) SO_REUSEADDR 1 k"

definition set_timestamps :: "(int \<Rightarrow> set_option \<Rightarrow> int \<Rightarrow> 'k \<Rightarrow> 'k res) \<Rightarrow> file_descriptor \<Rightarrow> 'k \<Rightarrow> 'k res" where
  "set_timestamps setsockopt fd k = setsockopt (fd_num fd) SO_TIMESTAMPNS 1 k"

section \<open>The order\<close>

lemma word8_less:
  "a < 256 \<Longrightarrow> b < 256 \<Longrightarrow> (word_of_nat a :: byte) < word_of_nat b \<longleftrightarrow> a < b"
  "a < 256 \<Longrightarrow> b < 256 \<Longrightarrow> (word_of_nat a :: byte) = word_of_nat b \<longleftrightarrow> a = b"
  by (simp_all add: word_less_nat_alt unat_of_nat word_unat_eq_iff)

text \<open>Numbers below \<open>256 ^ n\<close> are ordered as their bytes, the most significant first.\<close>

lemma digits_less:
  "(x :: nat) < y \<longleftrightarrow> x div 256 < y div 256 \<or> x div 256 = y div 256 \<and> x mod 256 < y mod 256"
proof -
  have digits: "a * 256 + r < b * 256 + s \<longleftrightarrow> a < b \<or> a = b \<and> r < s"
    if "r < 256" "s < 256" for a b r s :: nat
    using that by (cases a b rule: linorder_cases) linarith+
  show ?thesis
    using digits [of "x mod 256" "y mod 256" "x div 256" "y div 256"] by (simp add: div_mult_mod_eq)
qed

lemma digits_eq: "(x :: nat) = y \<longleftrightarrow> x div 256 = y div 256 \<and> x mod 256 = y mod 256"
  by (metis div_mult_mod_eq)

lemma div_bounds: "unat (p :: 16 word) div 256 < 256" "unat (a :: u32) div 2 ^ 24 < 256"
proof -
  have "unat p < 65536"
    by (rule order_less_le_trans [OF unsigned_less]) simp
  then show "unat p div 256 < 256" by simp
  have "unat a < 4294967296"
    by (rule order_less_le_trans [OF unsigned_less]) simp
  then show "unat a div 2 ^ 24 < 256" by simp
qed

lemma port_bytes_less: "port_bytes p < port_bytes q \<longleftrightarrow> p < q"
  unfolding port_bytes_def word_less_nat_alt [of p q] digits_less [of "unat p" "unat q"]
  using div_bounds(1) by (simp add: word8_less)

lemma port_bytes_eq: "port_bytes p = port_bytes q \<longleftrightarrow> p = q"
  unfolding port_bytes_def word_unat_eq_iff [of p q] digits_eq [of "unat p" "unat q"]
  using div_bounds(1) by (simp add: word8_less)

lemma addr_digits:
  "(n :: nat) div 65536 div 256 = n div 16777216" "n div 256 div 256 = n div 65536"
  by (simp_all add: div_mult2_eq [symmetric])

lemma addr_bytes_less: "addr_bytes a < addr_bytes b \<longleftrightarrow> a < b"
proof -
  let ?x = "unat a" and ?y = "unat b"
  have "?x < ?y \<longleftrightarrow> ?x div 256 < ?y div 256 \<or> ?x div 256 = ?y div 256 \<and> ?x mod 256 < ?y mod 256"
    by (rule digits_less)
  also have "?x div 256 < ?y div 256 \<longleftrightarrow> ?x div 65536 < ?y div 65536 \<or>
      ?x div 65536 = ?y div 65536 \<and> ?x div 256 mod 256 < ?y div 256 mod 256"
    using digits_less [of "?x div 256" "?y div 256"] by (simp only: addr_digits)
  also have "?x div 65536 < ?y div 65536 \<longleftrightarrow> ?x div 16777216 < ?y div 16777216 \<or>
      ?x div 16777216 = ?y div 16777216 \<and> ?x div 65536 mod 256 < ?y div 65536 mod 256"
    using digits_less [of "?x div 65536" "?y div 65536"] by (simp only: addr_digits)
  also have "?x div 256 = ?y div 256 \<longleftrightarrow> ?x div 65536 = ?y div 65536 \<and> ?x div 256 mod 256 = ?y div 256 mod 256"
    using digits_eq [of "?x div 256" "?y div 256"] by (simp only: addr_digits)
  also have "?x div 65536 = ?y div 65536 \<longleftrightarrow>
      ?x div 16777216 = ?y div 16777216 \<and> ?x div 65536 mod 256 = ?y div 65536 mod 256"
    using digits_eq [of "?x div 65536" "?y div 65536"] by (simp only: addr_digits)
  finally have "?x < ?y \<longleftrightarrow> addr_bytes a < addr_bytes b"
    using div_bounds(2) [of a] div_bounds(2) [of b] unfolding addr_bytes_def by (auto simp: word8_less)
  then show ?thesis by (simp only: word_less_nat_alt [of a b])
qed

lemma addr_bytes_eq: "addr_bytes a = addr_bytes b \<longleftrightarrow> a = b"
  by (metis addr_bytes_less linorder_cases order_less_irrefl)

lemma length_bytes [simp]:
  "length (port_bytes p) = 2" "length (addr_bytes a) = 4" "length (sockaddr_in_bytes s) = SOCKADDR_IN_SIZE"
  by (simp_all add: port_bytes_def addr_bytes_def sockaddr_in_bytes_def SOCKADDR_IN_SIZE_def)

text \<open>Lists whose beginnings are of the same length.\<close>

lemma append_less_iff:
  "length xs = length ys \<Longrightarrow>
     (xs @ us < ys @ vs) = (xs < ys \<or> xs = ys \<and> us < (vs :: 'a :: linorder list))"
  by (induction xs ys rule: list_induct2) auto

lemma sockaddr_in_bytes_less:
  "sockaddr_in_bytes s < sockaddr_in_bytes t \<longleftrightarrow>
     sin_port s < sin_port t \<or> sin_port s = sin_port t \<and> sin_addr s < sin_addr t"
  by (simp add: sockaddr_in_bytes_def append_less_iff port_bytes_less port_bytes_eq addr_bytes_less)

lemma sockaddr_in_bytes_eq: "sockaddr_in_bytes s = sockaddr_in_bytes t \<longleftrightarrow> s = t"
  by (cases s; cases t) (simp add: sockaddr_in_bytes_def port_bytes_eq addr_bytes_eq)

text \<open>The addresses of the Internet family, in the order of \<open>operator<\<close>; so they are in a \<open>std::set\<close>.\<close>

instantiation sockaddr_in :: linorder
begin

definition less_eq_sockaddr_in :: "sockaddr_in \<Rightarrow> sockaddr_in \<Rightarrow> bool" where
  "less_eq_sockaddr_in s t \<longleftrightarrow> sockaddr_in_bytes s \<le> sockaddr_in_bytes t"

definition less_sockaddr_in :: "sockaddr_in \<Rightarrow> sockaddr_in \<Rightarrow> bool" where
  "less_sockaddr_in s t \<longleftrightarrow> sockaddr_in_bytes s < sockaddr_in_bytes t"

instance
  by standard (auto simp: less_eq_sockaddr_in_def less_sockaddr_in_def sockaddr_in_bytes_eq [symmetric])

end

section \<open>Properties\<close>

text \<open>
  On addresses of the Internet family the comparisons of raw bytes are what a set
  needs. Two of them are equal exactly when port and address are; one is less when its port is, or
  when the ports are equal and its address is, as numbers; and this is the linear order the set of
  addresses is sorted by.
\<close>

theorem address_order:
  "(address_equal (address_of_sockaddr_in s) (address_of_sockaddr_in t) \<longleftrightarrow> s = t) \<and>
   (address_less (address_of_sockaddr_in s) (address_of_sockaddr_in t) \<longleftrightarrow> s < t) \<and>
   (s < t \<longleftrightarrow> sin_port s < sin_port t \<or> sin_port s = sin_port t \<and> sin_addr s < sin_addr t)"
proof -
  have "address_less (address_of_sockaddr_in s) (address_of_sockaddr_in t) \<longleftrightarrow> s < t"
    by (simp add: address_less_def address_of_sockaddr_in_def append_less_iff less_sockaddr_in_def)
  then show ?thesis
    using sockaddr_in_bytes_less [of s t]
    by (simp add: address_equal_def address_of_sockaddr_in_def sockaddr_in_bytes_eq less_sockaddr_in_def)
qed

end
