(* ===== verification/Tokenize.thy ===== *)
theory Tokenize
  imports Ezio
begin

text \<open>
  \<open>split\<close> of \<open>src/src/http/tokenize.hh\<close> and the media type parser \<open>MIMEType\<close> built on it. The
  positions of the separator are collected first, then the tokens are cut out between them; for
  a separator of one byte the tokens are the maximal pieces without it.
\<close>

text \<open>The loop that collects the positions.\<close>

function split_indices :: "string \<Rightarrow> string \<Rightarrow> nat \<Rightarrow> nat list" where
  "split_indices str separator next_token =
     (case str_find_from str separator next_token of
        None \<Rightarrow> []
      | Some i \<Rightarrow> i # split_indices str separator (Suc i))"
  by pat_completeness auto
termination
proof (relation "measure (\<lambda>(str, separator, next_token). length str + 1 - next_token)", goal_cases)
  case (2 str separator next_token i)
  then show ?case
    by (auto simp: str_find_from_def split: if_splits dest: str_find_bound)
qed simp

declare split_indices.simps [simp del]

text \<open>The inner tokens, between one position and the next.\<close>

fun inner_tokens :: "string \<Rightarrow> nat \<Rightarrow> nat list \<Rightarrow> string list res" where
  "inner_tokens str sep_size (i # j # js) =
     rbind (substr str (i + sep_size) (size_sub (size_sub j i) sep_size)) (\<lambda>t.
     rbind (inner_tokens str sep_size (j # js)) (\<lambda>ts. Inr (t # ts)))"
| "inner_tokens str sep_size _ = Inr []"

definition split :: "string \<Rightarrow> string \<Rightarrow> string list res" where
  "split str separator =
     (case split_indices str separator 0 of
        [] \<Rightarrow> Inr [str]
      | i # is \<Rightarrow>
          rbind (substr str 0 i) (\<lambda>t0.
          rbind (inner_tokens str (length separator) (i # is)) (\<lambda>ts.
          rbind (substr str (last (i # is) + length separator) (length str)) (\<lambda>tn.
          Inr (t0 # ts @ [tn])))))"

record mime_type =
  mime_type :: string
  parameters :: "(string \<times> string) list"

definition MIMEType :: "string \<Rightarrow> mime_type res" where
  "MIMEType content_type =
     rbind (split content_type '';'') (\<lambda>type_and_parameters.
       if length type_and_parameters = 0 \<or> type_and_parameters ! 0 = []
       then Inl (RuntimeError ''MIMEType: invalid MIME media-type string'')
       else Inr \<lparr>mime_type = type_and_parameters ! 0, parameters = []\<rparr>)"

section \<open>Splitting at one byte\<close>

text \<open>The pieces of a string between the occurrences of a byte.\<close>

fun pieces :: "char \<Rightarrow> string \<Rightarrow> string list" where
  "pieces c [] = [[]]"
| "pieces c (x # xs) =
     (if x = c then [] # pieces c xs
      else case pieces c xs of [] \<Rightarrow> [[x]] | t # ts \<Rightarrow> (x # t) # ts)"

fun join :: "string \<Rightarrow> string list \<Rightarrow> string" where
  "join sep [] = []"
| "join sep [t] = t"
| "join sep (t # u # ts) = t @ sep @ join sep (u # ts)"

lemma pieces_nonempty [simp]: "pieces c s \<noteq> []"
  by (cases s) (auto split: list.split)

lemma pieces_join: "join [c] (pieces c s) = s"
proof (induction s)
  case Nil
  then show ?case by simp
next
  case (Cons x xs)
  obtain t ts where t: "pieces c xs = t # ts"
    by (meson neq_Nil_conv pieces_nonempty)
  show ?case
    using Cons.IH by (cases ts) (auto simp: t)
qed

lemma pieces_free: "t \<in> set (pieces c s) \<Longrightarrow> c \<notin> set t"
proof (induction s arbitrary: t)
  case Nil
  then show ?case by simp
next
  case (Cons x xs)
  obtain u us where u: "pieces c xs = u # us"
    by (meson neq_Nil_conv pieces_nonempty)
  show ?case
    using Cons.prems Cons.IH by (auto simp: u split: if_splits)
qed

lemma length_pieces: "length (pieces c s) = count_list s c + 1"
proof (induction s)
  case Nil
  then show ?case by simp
next
  case (Cons x xs)
  obtain u us where u: "pieces c xs = u # us"
    by (meson neq_Nil_conv pieces_nonempty)
  show ?case using Cons.IH by (auto simp: u)
qed

lemma pieces_find:
  "pieces c s = (case str_find s [c] of None \<Rightarrow> [s] | Some i \<Rightarrow> take i s # pieces c (drop (Suc i) s))"
  by (induction s) (auto split: option.splits)

lemma find_from_char:
  "p \<le> length str \<Longrightarrow> str_find_from str [c] p = map_option (\<lambda>i. p + i) (str_find (drop p str) [c])"
  by (simp add: str_find_from_def)

lemma pieces_indices:
  assumes "p \<le> length str"
  shows "case split_indices str [c] p of
      [] \<Rightarrow> pieces c (drop p str) = [drop p str]
    | i # is \<Rightarrow> p \<le> i \<and> i < length str \<and> split_indices str [c] (Suc i) = is \<and>
        pieces c (drop p str) = take (i - p) (drop p str) # pieces c (drop (Suc i) str)"
proof (cases "str_find (drop p str) [c]")
  case None
  then show ?thesis
    using assms by (simp add: split_indices.simps find_from_char pieces_find [of c "drop p str"])
next
  case (Some k)
  have "p + k < length str"
    using str_find_bound [OF Some] assms by simp
  moreover have "Suc (p + k) = Suc k + p"
    by simp
  ultimately show ?thesis
    using assms Some
    by (simp add: split_indices.simps [of str "[c]" p] find_from_char
        pieces_find [of c "drop p str"] ac_simps)
qed

lemma inner_tokens_pieces:
  assumes "length str < 2 ^ 64" and "i < length str" and "split_indices str [c] (Suc i) = is"
  shows "\<exists>ts. inner_tokens str 1 (i # is) = Inr ts \<and>
    ts @ [drop (last (i # is) + 1) str] = pieces c (drop (Suc i) str) \<and> last (i # is) < length str"
  using assms(2,3)
proof (induction "is" arbitrary: i)
  case Nil
  then show ?case
    using pieces_indices [of "Suc i" str c] by simp
next
  case (Cons j js)
  have j: "Suc i \<le> j" "j < length str" "split_indices str [c] (Suc j) = js"
      "pieces c (drop (Suc i) str) = take (j - Suc i) (drop (Suc i) str) # pieces c (drop (Suc j) str)"
    using Cons.prems pieces_indices [of "Suc i" str c] by auto
  then obtain ts where ts: "inner_tokens str 1 (j # js) = Inr ts"
    "ts @ [drop (last (j # js) + 1) str] = pieces c (drop (Suc j) str)" "last (j # js) < length str"
    using Cons.IH by blast
  have "size_sub (size_sub j i) 1 = j - Suc i"
    using j assms(1) by (simp add: size_sub_le)
  then have "inner_tokens str 1 (i # j # js) = Inr (take (j - Suc i) (drop (Suc i) str) # ts)"
    using ts(1) j by (simp add: substr_def)
  then show ?case
    using ts j by simp
qed

lemma split_char:
  assumes "length str < 2 ^ 64"
  shows "split str [c] = Inr (pieces c str)"
proof (cases "split_indices str [c] 0")
  case Nil
  then show ?thesis
    using pieces_indices [of 0 str c] by (simp add: split_def)
next
  case (Cons i "is")
  then have i: "i < length str" "split_indices str [c] (Suc i) = is"
      "pieces c str = take i str # pieces c (drop (Suc i) str)"
    using pieces_indices [of 0 str c] by auto
  then obtain ts where "inner_tokens str 1 (i # is) = Inr ts"
    "ts @ [drop (last (i # is) + 1) str] = pieces c (drop (Suc i) str)" "last (i # is) < length str"
    using inner_tokens_pieces [OF assms] by blast
  then show ?thesis
    using i by (simp add: split_def Cons substr_def)
qed

section \<open>Property\<close>

text \<open>
  Splitting at a one-byte separator loses nothing. For every string that fits
  memory the call returns tokens that contain no separator and that, joined by it, give back
  the string; there is one more token than separators.
\<close>

theorem split_roundtrip:
  assumes "length str < 2 ^ 64"
  shows "\<exists>ts. split str [c] = Inr ts \<and> join [c] ts = str \<and> length ts = count_list str c + 1 \<and>
    list_all (\<lambda>t. c \<notin> set t) ts"
  using split_char [OF assms] by (auto simp: pieces_join length_pieces list_all_iff dest: pieces_free)

lemma split_roundtrip_witness:
  "\<exists>ts. split ''HTTP/1.1 200 OK'' '' '' = Inr ts \<and> join '' '' ts = ''HTTP/1.1 200 OK'' \<and>
     length ts = count_list ''HTTP/1.1 200 OK'' (CHR '' '') + 1 \<and>
     list_all (\<lambda>t. CHR '' '' \<notin> set t) ts"
  using split_roundtrip [of "''HTTP/1.1 200 OK''" "CHR '' ''"] by simp

end
