(* ===== verification/Http_Message.thy ===== *)
theory Http_Message
  imports Tokenize
begin

text \<open>
  \<open>HTTPHeader\<close> and the base class \<open>HTTPMessage\<close> (\<open>src/src/http/http_header.cc\<close>,
  \<open>http_message.cc\<close>): the state machine an external parser drives from the first line to the
  complete message, the header lookup, the serializer and the conversions to and from the stored
  form. A request or response is an extension of the record, so the operations are written over
  its scheme; the three virtual calls a subclass implements are arguments. A \<open>size_t\<close> is a
  \<^typ>\<open>nat\<close> below \<open>2 ^ 64\<close>, with \<open>-1\<close> as \<open>2 ^ 64 - 1\<close>.
\<close>

definition CRLF :: string where
  "CRLF = [CHR 0x0D, CHR 0x0A]"

lemma length_CRLF [simp]: "length CRLF = 2"
  by (simp add: CRLF_def)

section \<open>HTTPHeader\<close>

record http_header =
  header_key :: string
  header_value :: string

definition parse_header :: "string \<Rightarrow> http_header res" where
  "parse_header buf =
     (case str_find buf '':'' of
        None \<Rightarrow> Inl (RuntimeError ''HTTPHeader: buffer does not contain colon'')
      | Some colon_location \<Rightarrow>
          rbind (substr buf 0 colon_location) (\<lambda>k.
          rbind (substr buf (colon_location + 1) (length buf)) (\<lambda>value_temp.
          case find_first_not_of value_temp '' '' of
            None \<Rightarrow> Inr \<lparr>header_key = k, header_value = value_temp\<rparr>
          | Some first_nonspace \<Rightarrow>
              rbind (substr value_temp first_nonspace (length value_temp)) (\<lambda>v.
              Inr \<lparr>header_key = k, header_value = v\<rparr>))))"

definition header_str :: "http_header \<Rightarrow> string" where
  "header_str h = header_key h @ '': '' @ header_value h"

section \<open>HTTPMessage\<close>

datatype http_message_state = FIRST_LINE_PENDING | HEADERS_PENDING | BODY_PENDING | COMPLETE

text \<open>The enumerators in order, for the comparisons of the assertions.\<close>

fun state_code :: "http_message_state \<Rightarrow> nat" where
  "state_code FIRST_LINE_PENDING = 0"
| "state_code HEADERS_PENDING = 1"
| "state_code BODY_PENDING = 2"
| "state_code COMPLETE = 3"

record http_message =
  expected_body_size_pair :: "bool \<times> nat"
  first_line :: string
  headers :: "http_header list"
  body :: string
  state :: http_message_state

definition http_message_new :: http_message where
  "http_message_new =
     \<lparr>expected_body_size_pair = (False, 2 ^ 64 - 1), first_line = '''', headers = [], body = '''',
      state = FIRST_LINE_PENDING\<rparr>"

definition set_first_line :: "string \<Rightarrow> 'a http_message_scheme \<Rightarrow> 'a http_message_scheme res" where
  "set_first_line str m =
     (if state m \<noteq> FIRST_LINE_PENDING then Inl AssertFail
      else Inr (m\<lparr>first_line := str, state := HEADERS_PENDING\<rparr>))"

definition add_header_line ::
  "string \<Rightarrow> 'a http_message_scheme \<Rightarrow> 'a http_message_scheme res" where
  "add_header_line str m =
     (if state m \<noteq> HEADERS_PENDING then Inl AssertFail
      else rbind (parse_header str) (\<lambda>h. Inr (m\<lparr>headers := headers m @ [h]\<rparr>)))"

definition add_header ::
  "http_header \<Rightarrow> 'a http_message_scheme \<Rightarrow> 'a http_message_scheme res" where
  "add_header header m =
     (if state m \<noteq> HEADERS_PENDING then Inl AssertFail
      else Inr (m\<lparr>headers := headers m @ [header]\<rparr>))"

text \<open>\<open>calculate_expected_body_size\<close> is the subclass's.\<close>

definition done_with_headers ::
  "('a http_message_scheme \<Rightarrow> 'a http_message_scheme res) \<Rightarrow>
     'a http_message_scheme \<Rightarrow> 'a http_message_scheme res" where
  "done_with_headers calculate_expected_body_size m =
     (if state m \<noteq> HEADERS_PENDING then Inl AssertFail
      else calculate_expected_body_size (m\<lparr>state := BODY_PENDING\<rparr>))"

definition set_expected_body_size ::
  "bool \<Rightarrow> nat \<Rightarrow> 'a http_message_scheme \<Rightarrow> 'a http_message_scheme res" where
  "set_expected_body_size is_known amount m =
     (if state m \<noteq> BODY_PENDING then Inl AssertFail
      else Inr (m\<lparr>expected_body_size_pair := (is_known, amount)\<rparr>))"

definition body_size_is_known :: "'a http_message_scheme \<Rightarrow> bool res" where
  "body_size_is_known m =
     (if state_code (state m) \<le> state_code HEADERS_PENDING then Inl AssertFail
      else Inr (fst (expected_body_size_pair m)))"

definition expected_body_size :: "'a http_message_scheme \<Rightarrow> nat res" where
  "expected_body_size m =
     rbind (body_size_is_known m) (\<lambda>known.
       if \<not> known then Inl AssertFail else Inr (snd (expected_body_size_pair m)))"

text \<open>The known-size branch of \<open>read_in_body\<close>.\<close>

definition read_known_body ::
  "string \<Rightarrow> 'a http_message_scheme \<Rightarrow> (nat \<times> 'a http_message_scheme) res" where
  "read_known_body str m =
     rbind (expected_body_size m) (\<lambda>expected.
       if expected < length (body m) then Inl AssertFail
       else let amount_to_append = min (expected - length (body m)) (length str) in
         rbind (substr str 0 amount_to_append) (\<lambda>part.
           let m1 = m\<lparr>body := body m @ part\<rparr> in
           Inr (amount_to_append,
                if length (body m1) = expected then m1\<lparr>state := COMPLETE\<rparr> else m1)))"

definition read_in_body ::
  "(string \<Rightarrow> 'a http_message_scheme \<Rightarrow> (nat \<times> 'a http_message_scheme) res) \<Rightarrow>
     string \<Rightarrow> 'a http_message_scheme \<Rightarrow> (nat \<times> 'a http_message_scheme) res" where
  "read_in_body read_in_complex_body str m =
     (if state m \<noteq> BODY_PENDING then Inl AssertFail
      else rbind (body_size_is_known m) (\<lambda>known.
        if known then read_known_body str m else read_in_complex_body str m))"

definition message_eof ::
  "('a http_message_scheme \<Rightarrow> bool res) \<Rightarrow> 'a http_message_scheme \<Rightarrow> 'a http_message_scheme res"
  where
  "message_eof eof_in_body m =
     (case state m of
        FIRST_LINE_PENDING \<Rightarrow> Inr m
      | HEADERS_PENDING \<Rightarrow> Inl (RuntimeError ''HTTPMessage: EOF received in middle of headers'')
      | BODY_PENDING \<Rightarrow>
          rbind (eof_in_body m) (\<lambda>ends. Inr (if ends then m\<lparr>state := COMPLETE\<rparr> else m))
      | COMPLETE \<Rightarrow> Inl AssertFail)"

section \<open>Header lookup\<close>

text \<open>\<open>'A' - 'a'\<close> is \<open>-32\<close>.\<close>

definition http_to_lower :: "char \<Rightarrow> char" where
  "http_to_lower c =
     (let k = of_char c :: nat in if 65 \<le> k \<and> k \<le> 90 then char_of (k + 32) else c)"

definition strip_initial_whitespace :: "string \<Rightarrow> string res" where
  "strip_initial_whitespace str =
     (case find_first_not_of str '' '' of
        None \<Rightarrow> Inr ''''
      | Some first_nonspace \<Rightarrow> substr str first_nonspace (length str))"

text \<open>The comparison loop, on strings of one length.\<close>

fun same_letters :: "string \<Rightarrow> string \<Rightarrow> bool" where
  "same_letters (a # as) (b # bs) =
     (if http_to_lower a \<noteq> http_to_lower b then False else same_letters as bs)"
| "same_letters _ _ = True"

definition equivalent_strings :: "string \<Rightarrow> string \<Rightarrow> bool res" where
  "equivalent_strings a b =
     rbind (strip_initial_whitespace a) (\<lambda>new_a.
     rbind (strip_initial_whitespace b) (\<lambda>new_b.
       Inr (if length new_a \<noteq> length new_b then False else same_letters new_a new_b)))"

fun has_header_in :: "http_header list \<Rightarrow> string \<Rightarrow> bool res" where
  "has_header_in [] header_name = Inr False"
| "has_header_in (h # hs) header_name =
     rbind (equivalent_strings (header_key h) header_name) (\<lambda>same.
       if same then Inr True else has_header_in hs header_name)"

fun get_header_value_in :: "http_header list \<Rightarrow> string \<Rightarrow> string res" where
  "get_header_value_in [] header_name =
     Inl (RuntimeError (''HTTPMessage header not found: '' @ header_name))"
| "get_header_value_in (h # hs) header_name =
     rbind (equivalent_strings (header_key h) header_name) (\<lambda>same.
       if same then Inr (header_value h) else get_header_value_in hs header_name)"

definition has_header :: "string \<Rightarrow> 'a http_message_scheme \<Rightarrow> bool res" where
  "has_header header_name m = has_header_in (headers m) header_name"

definition get_header_value :: "string \<Rightarrow> 'a http_message_scheme \<Rightarrow> string res" where
  "get_header_value header_name m = get_header_value_in (headers m) header_name"

section \<open>Serialization\<close>

fun headers_str :: "http_header list \<Rightarrow> string" where
  "headers_str [] = ''''"
| "headers_str (h # hs) = header_str h @ CRLF @ headers_str hs"

definition message_str :: "'a http_message_scheme \<Rightarrow> string res" where
  "message_str m =
     (if state m \<noteq> COMPLETE then Inl AssertFail
      else Inr (first_line m @ CRLF @ headers_str (headers m) @ CRLF @ body m))"

text \<open>The stored form, the three fields of \<open>http_record.proto\<close>.\<close>

record proto_message =
  proto_first_line :: string
  proto_header :: "http_header list"
  proto_body :: string

definition toprotobuf :: "'a http_message_scheme \<Rightarrow> proto_message res" where
  "toprotobuf m =
     (if state m \<noteq> COMPLETE then Inl AssertFail
      else Inr \<lparr>proto_first_line = first_line m, proto_header = headers m, proto_body = body m\<rparr>)"

definition message_of_protobuf :: "proto_message \<Rightarrow> http_message" where
  "message_of_protobuf p =
     \<lparr>expected_body_size_pair = (False, 2 ^ 64 - 1), first_line = proto_first_line p,
      headers = proto_header p, body = proto_body p, state = COMPLETE\<rparr>"

section \<open>Lookup is case-insensitive\<close>

text \<open>What two header names have in common when they are the same name.\<close>

definition canonical :: "string \<Rightarrow> string" where
  "canonical s = map http_to_lower (dropWhile (\<lambda>c. c = CHR '' '') s)"

lemma find_first_not_of_drop:
  "find_first_not_of s '' '' = Some i \<Longrightarrow> drop i s = dropWhile (\<lambda>c. c = CHR '' '') s"
  by (induction s arbitrary: i) (auto split: if_splits)

lemma find_first_not_of_all:
  "find_first_not_of s '' '' = None \<Longrightarrow> dropWhile (\<lambda>c. c = CHR '' '') s = []"
  by (induction s) (auto split: if_splits)

lemma strip_initial_whitespace_eq:
  "strip_initial_whitespace s = Inr (dropWhile (\<lambda>c. c = CHR '' '') s)"
proof (cases "find_first_not_of s '' ''")
  case None
  then show ?thesis by (simp add: strip_initial_whitespace_def find_first_not_of_all)
next
  case (Some i)
  have "i \<le> length s"
    using find_first_not_of_Some [OF Some] by simp
  then show ?thesis
    using Some
    by (simp add: strip_initial_whitespace_def substr_def find_first_not_of_drop length_dropWhile_le)
qed

lemma same_letters_map:
  "length a = length b \<Longrightarrow> same_letters a b \<longleftrightarrow> map http_to_lower a = map http_to_lower b"
  by (induction a b rule: same_letters.induct) auto

lemma equivalent_strings_canonical:
  "equivalent_strings a b = Inr (canonical a = canonical b)"
proof (cases "length (dropWhile (\<lambda>c. c = CHR '' '') a) = length (dropWhile (\<lambda>c. c = CHR '' '') b)")
  case True
  then show ?thesis
    by (simp add: equivalent_strings_def strip_initial_whitespace_eq canonical_def same_letters_map)
next
  case False
  then have "canonical a \<noteq> canonical b"
    unfolding canonical_def by (metis length_map)
  then show ?thesis
    using False by (simp add: equivalent_strings_def strip_initial_whitespace_eq)
qed

lemma has_header_in_iff:
  "has_header_in hs name = Inr (\<exists>h \<in> set hs. canonical (header_key h) = canonical name)"
  by (induction hs) (auto simp: equivalent_strings_canonical)

lemma get_header_value_in_find:
  "get_header_value_in hs name =
     (case find (\<lambda>h. canonical (header_key h) = canonical name) hs of
        None \<Rightarrow> Inl (RuntimeError (''HTTPMessage header not found: '' @ name))
      | Some h \<Rightarrow> Inr (header_value h))"
  by (induction hs) (auto simp: equivalent_strings_canonical)

section \<open>Header lines\<close>

definition header_wf :: "http_header \<Rightarrow> bool" where
  "header_wf h \<longleftrightarrow>
     CHR '':'' \<notin> set (header_key h) \<and> header_value h \<noteq> [] \<and> hd (header_value h) \<noteq> CHR '' ''"

lemma find_first_not_of_hd: "v \<noteq> [] \<Longrightarrow> hd v \<noteq> CHR '' '' \<Longrightarrow> find_first_not_of v '' '' = Some 0"
  by (cases v) auto

lemma parse_header_str:
  assumes "header_wf h"
  shows "parse_header (header_str h) = Inr h"
proof -
  let ?k = "header_key h" and ?v = "header_value h"
  have "takeWhile (\<lambda>x. x \<noteq> CHR '':'') (?k @ '':'' @ '' '' @ ?v) = ?k"
    using assms by (subst takeWhile_append2) (auto simp: header_wf_def)
  then have colon: "str_find (header_str h) '':'' = Some (length ?k)"
    by (simp add: str_find_char header_str_def)
  have "find_first_not_of ('' '' @ ?v) '' '' = Some 1"
    using assms by (simp add: header_wf_def find_first_not_of_hd)
  then show ?thesis
    using colon by (simp add: parse_header_def substr_def header_str_def)
qed

lemma length_takeWhile_less: "c \<in> set s \<Longrightarrow> length (takeWhile (\<lambda>x. x \<noteq> c) s) < length s"
  by (induction s) auto

text \<open>A header line is accepted exactly when it has a colon; what is left out is the blanks.\<close>

lemma parse_header_shape:
  "parse_header buf =
     (if CHR '':'' \<in> set buf
      then let k = takeWhile (\<lambda>c. c \<noteq> CHR '':'') buf; v = drop (length k + 1) buf;
               w = dropWhile (\<lambda>c. c = CHR '' '') v
           in Inr \<lparr>header_key = k, header_value = (if w = [] then v else w)\<rparr>
      else Inl (RuntimeError ''HTTPHeader: buffer does not contain colon''))"
proof (cases "CHR '':'' \<in> set buf")
  case False
  then show ?thesis by (simp add: parse_header_def str_find_char)
next
  case True
  let ?k = "takeWhile (\<lambda>c. c \<noteq> CHR '':'') buf"
  let ?v = "drop (length ?k + 1) buf"
  have len: "length ?k + 1 \<le> length buf"
    using length_takeWhile_less [OF True] by simp
  have k: "take (length ?k) buf = ?k"
    by (simp add: takeWhile_eq_take [symmetric])
  define v where "v = ?v"
  define w where "w = dropWhile (\<lambda>c. c = CHR '' '') v"
  have parse: "parse_header buf = (case find_first_not_of v '' '' of
      None \<Rightarrow> Inr \<lparr>header_key = ?k, header_value = v\<rparr>
    | Some i \<Rightarrow> rbind (substr v i (length v)) (\<lambda>w. Inr \<lparr>header_key = ?k, header_value = w\<rparr>))"
    using True len k by (simp add: parse_header_def str_find_char substr_def v_def split: option.split)
  have "parse_header buf = Inr \<lparr>header_key = ?k, header_value = (if w = [] then v else w)\<rparr>"
  proof (cases "find_first_not_of v '' ''")
    case None
    then show ?thesis
      using parse find_first_not_of_all [OF None] by (simp add: w_def)
  next
    case (Some i)
    have "i < length v"
      using find_first_not_of_Some [OF Some] by simp
    moreover have "drop i v = w"
      using find_first_not_of_drop [OF Some] by (simp add: w_def)
    moreover have "w \<noteq> []"
      using calculation by auto
    ultimately show ?thesis
      using parse Some length_dropWhile_le [of "\<lambda>c. c = CHR '' ''" v]
      by (simp add: substr_def flip: w_def)
  qed
  then show ?thesis
    using True by (simp add: v_def w_def Let_def)
qed

section \<open>Properties\<close>

text \<open>
  A header is found by its name whatever the case of its letters and the blanks in
  front of it. \<open>get_header_value\<close> gives the value of the first header whose name agrees with the
  one asked for after leading blanks are dropped and every letter is put in lower case, and fails
  with its own error, naming the header, exactly when \<open>has_header\<close> says there is none.
\<close>

theorem header_lookup:
  "has_header name m =
      Inr (find (\<lambda>h. canonical (header_key h) = canonical name) (headers m) \<noteq> None) \<and>
    get_header_value name m =
      (case find (\<lambda>h. canonical (header_key h) = canonical name) (headers m) of
         None \<Rightarrow> Inl (RuntimeError (''HTTPMessage header not found: '' @ name))
       | Some h \<Rightarrow> Inr (header_value h))"
  by (auto simp: has_header_def get_header_value_def has_header_in_iff get_header_value_in_find
      find_None_iff)

text \<open>
  What becomes of a header when it is written and read again, as every header that
  passes the proxy is. The name comes back, and the value without its leading blanks; a value
  that is nothing but blanks, or empty, comes back one blank longer.
\<close>

theorem header_reread:
  assumes "CHR '':'' \<notin> set (header_key h)"
  shows "parse_header (header_str h) =
    Inr \<lparr>header_key = header_key h,
         header_value =
           (if dropWhile (\<lambda>c. c = CHR '' '') (header_value h) = [] then CHR '' '' # header_value h
            else dropWhile (\<lambda>c. c = CHR '' '') (header_value h))\<rparr>"
proof -
  have "takeWhile (\<lambda>c. c \<noteq> CHR '':'') (header_str h) = header_key h"
    using assms unfolding header_str_def by (subst takeWhile_append2) auto
  moreover have "CHR '':'' \<in> set (header_str h)"
    by (simp add: header_str_def)
  moreover have "drop (length (header_key h) + 1) (header_str h) = CHR '' '' # header_value h"
    by (simp add: header_str_def)
  ultimately show ?thesis
    by (simp add: parse_header_shape Let_def)
qed

lemma header_reread_witness:
  "parse_header (header_str \<lparr>header_key = ''X-Empty'', header_value = ''''\<rparr>) =
     Inr \<lparr>header_key = ''X-Empty'', header_value = '' ''\<rparr>"
  using header_reread [of "\<lparr>header_key = ''X-Empty'', header_value = ''''\<rparr>"] by simp

end
