(* ===== verification/Message_Sequence.thy ===== *)
theory Message_Sequence
  imports Http_Message
begin

text \<open>
  \<open>HTTPMessageSequence\<close> of \<open>src/src/http/http_message_sequence.hh\<close>: the incremental parser that
  turns a byte stream into a queue of complete messages. It is a template over the message type
  and an abstract class, so the message type's virtual calls are the record \<open>http_class\<close> and
  \<open>initialize_new_message\<close>, which the derived parser implements, an argument on the parser's
  own state. The loop of \<open>parse\<close> is a \<^theory_text>\<open>partial_function\<close>: that it ends is a theorem of the
  locale \<open>message_class\<close>, the contract of the two message types.
\<close>

record 'a http_class =
  new_message :: "'a http_message_scheme"
  calculate_expected_body_size :: "'a http_message_scheme \<Rightarrow> 'a http_message_scheme res"
  read_in_complex_body :: "string \<Rightarrow> 'a http_message_scheme \<Rightarrow> (nat \<times> 'a http_message_scheme) res"
  eof_in_body :: "'a http_message_scheme \<Rightarrow> bool res"

record 'm message_sequence =
  buffer :: string
  complete_messages :: "'m list"
  message_in_progress :: 'm

section \<open>The internal buffer\<close>

definition have_complete_line :: "string \<Rightarrow> bool" where
  "have_complete_line buf \<longleftrightarrow> str_find buf CRLF \<noteq> None"

definition pop_bytes :: "nat \<Rightarrow> string \<Rightarrow> string res" where
  "pop_bytes num buf =
     (if length buf < num then Inl AssertFail else str_replace buf 0 num '''')"

definition get_and_pop_line :: "string \<Rightarrow> (string \<times> string) res" where
  "get_and_pop_line buf =
     (case str_find buf CRLF of
        None \<Rightarrow> Inl AssertFail
      | Some first_line_ending \<Rightarrow>
          rbind (substr buf 0 first_line_ending) (\<lambda>line.
          rbind (pop_bytes (first_line_ending + length CRLF) buf) (\<lambda>rest. Inr (line, rest))))"

section \<open>The parser\<close>

definition first_line_step ::
  "(('a http_message_scheme, 'x) message_sequence_scheme \<Rightarrow>
      ('a http_message_scheme, 'x) message_sequence_scheme res) \<Rightarrow>
   ('a http_message_scheme, 'x) message_sequence_scheme \<Rightarrow>
     (bool \<times> ('a http_message_scheme, 'x) message_sequence_scheme) res" where
  "first_line_step initialize_new_message s =
     (if \<not> have_complete_line (buffer s) then Inr (False, s)
      else rbind (initialize_new_message s) (\<lambda>s1.
        rbind (get_and_pop_line (buffer s1)) (\<lambda>(line, rest).
        rbind (set_first_line line (message_in_progress s1)) (\<lambda>m.
          Inr (True, s1\<lparr>buffer := rest, message_in_progress := m\<rparr>)))))"

definition header_line_step ::
  "'a http_class \<Rightarrow> ('a http_message_scheme, 'x) message_sequence_scheme \<Rightarrow>
     (bool \<times> ('a http_message_scheme, 'x) message_sequence_scheme) res" where
  "header_line_step C s =
     (if \<not> have_complete_line (buffer s) then Inr (False, s)
      else rbind (get_and_pop_line (buffer s)) (\<lambda>(line, rest).
        rbind (if line = '''' then done_with_headers (calculate_expected_body_size C) (message_in_progress s)
               else add_header_line line (message_in_progress s)) (\<lambda>m.
          Inr (True, s\<lparr>buffer := rest, message_in_progress := m\<rparr>))))"

definition body_step ::
  "'a http_class \<Rightarrow> ('a http_message_scheme, 'x) message_sequence_scheme \<Rightarrow>
     (bool \<times> ('a http_message_scheme, 'x) message_sequence_scheme) res" where
  "body_step C s =
     rbind (read_in_body (read_in_complex_body C) (buffer s) (message_in_progress s))
       (\<lambda>(bytes_read, m).
       if bytes_read \<noteq> length (buffer s) \<and> state m \<noteq> COMPLETE then Inl AssertFail
       else rbind (pop_bytes bytes_read (buffer s)) (\<lambda>rest.
         Inr (state m = COMPLETE, s\<lparr>buffer := rest, message_in_progress := m\<rparr>)))"

definition parsing_step ::
  "'a http_class \<Rightarrow>
   (('a http_message_scheme, 'x) message_sequence_scheme \<Rightarrow>
      ('a http_message_scheme, 'x) message_sequence_scheme res) \<Rightarrow>
   ('a http_message_scheme, 'x) message_sequence_scheme \<Rightarrow>
     (bool \<times> ('a http_message_scheme, 'x) message_sequence_scheme) res" where
  "parsing_step C initialize_new_message s =
     (case state (message_in_progress s) of
        FIRST_LINE_PENDING \<Rightarrow> first_line_step initialize_new_message s
      | HEADERS_PENDING \<Rightarrow> header_line_step C s
      | BODY_PENDING \<Rightarrow> body_step C s
      | COMPLETE \<Rightarrow>
          Inr (True, s\<lparr>complete_messages := complete_messages s @ [message_in_progress s],
                       message_in_progress := new_message C\<rparr>))"

text \<open>\<open>while ( parsing_step() ) {}\<close>.\<close>

partial_function (option) parse_loop ::
  "'a http_class \<Rightarrow>
   (('a http_message_scheme, 'x) message_sequence_scheme \<Rightarrow>
      ('a http_message_scheme, 'x) message_sequence_scheme res) \<Rightarrow>
   ('a http_message_scheme, 'x) message_sequence_scheme \<Rightarrow>
     ('a http_message_scheme, 'x) message_sequence_scheme res option" where
  "parse_loop C initialize_new_message s =
     (case parsing_step C initialize_new_message s of
        Inl e \<Rightarrow> Some (Inl e)
      | Inr (continue, s') \<Rightarrow>
          if continue then parse_loop C initialize_new_message s' else Some (Inr s'))"

definition parse ::
  "'a http_class \<Rightarrow>
   (('a http_message_scheme, 'x) message_sequence_scheme \<Rightarrow>
      ('a http_message_scheme, 'x) message_sequence_scheme res) \<Rightarrow>
   string \<Rightarrow> ('a http_message_scheme, 'x) message_sequence_scheme \<Rightarrow>
     ('a http_message_scheme, 'x) message_sequence_scheme res option" where
  "parse C initialize_new_message buf s =
     (case (if buf = ''''
            then rbind (message_eof (eof_in_body C) (message_in_progress s)) (\<lambda>m.
                   Inr (s\<lparr>message_in_progress := m\<rparr>))
            else Inr s) of
        Inl e \<Rightarrow> Some (Inl e)
      | Inr s1 \<Rightarrow> parse_loop C initialize_new_message (s1\<lparr>buffer := buffer s1 @ buf\<rparr>))"

definition sequence_empty :: "('m, 'x) message_sequence_scheme \<Rightarrow> bool" where
  "sequence_empty s \<longleftrightarrow> complete_messages s = []"

text \<open>\<open>front\<close> and \<open>pop\<close> of an empty \<open>std::queue\<close> have no defined behaviour.\<close>

definition sequence_front :: "('m, 'x) message_sequence_scheme \<Rightarrow> 'm res" where
  "sequence_front s =
     (case complete_messages s of [] \<Rightarrow> Inl Undefined | m # ms \<Rightarrow> Inr m)"

definition sequence_pop ::
  "('m, 'x) message_sequence_scheme \<Rightarrow> ('m, 'x) message_sequence_scheme res" where
  "sequence_pop s =
     (case complete_messages s of
        [] \<Rightarrow> Inl Undefined
      | m # ms \<Rightarrow> Inr (s\<lparr>complete_messages := ms\<rparr>))"

section \<open>The contract of a message type\<close>

definition rmap :: "('a \<Rightarrow> 'b) \<Rightarrow> 'a res \<Rightarrow> 'b res" where
  "rmap f r = rbind r (\<lambda>x. Inr (f x))"

lemma rmap_simps [simp]: "rmap f (Inl e) = Inl e" "rmap f (Inr x) = Inr (f x)"
  by (simp_all add: rmap_def)

lemma rmap_rmap: "rmap f (rmap g r) = rmap (f \<circ> g) r"
  by (cases r) simp_all

lemma rmap_Inl_iff [simp]: "rmap f r = Inl e \<longleftrightarrow> r = Inl e"
  by (cases r) simp_all

text \<open>
  What is left of a message once it is complete (a parser of its body, with whatever was
  buffered there, is never looked at again) and the amount of input a parser still holds.
\<close>

definition settled ::
  "('a http_message_scheme \<Rightarrow> 'a http_message_scheme) \<Rightarrow> 'a http_message_scheme \<Rightarrow> 'a http_message_scheme"
  where
  "settled view m = (if state m = COMPLETE then view m else m)"

definition settled_sequence ::
  "('a http_message_scheme \<Rightarrow> 'a http_message_scheme) \<Rightarrow>
   ('a http_message_scheme, 'x) message_sequence_scheme \<Rightarrow>
   ('a http_message_scheme, 'x) message_sequence_scheme" where
  "settled_sequence view s =
     s\<lparr>complete_messages := map view (complete_messages s),
       message_in_progress := settled view (message_in_progress s)\<rparr>"

definition message_ok ::
  "('a http_message_scheme \<Rightarrow> bool) \<Rightarrow> 'a http_message_scheme \<Rightarrow> bool" where
  "message_ok body_inv m \<longleftrightarrow>
     (case state m of
        BODY_PENDING \<Rightarrow>
          (if fst (expected_body_size_pair m) then length (body m) \<le> snd (expected_body_size_pair m)
           else body_inv m)
      | COMPLETE \<Rightarrow> True
      | _ \<Rightarrow> body m = '''')"

definition held_input :: "('a http_message_scheme, 'x) message_sequence_scheme \<Rightarrow> nat" where
  "held_input s =
     (if state (message_in_progress s) = BODY_PENDING then length (body (message_in_progress s)) else 0)
       + length (buffer s)"

text \<open>The bound on the input under which the chunk arithmetic does not wrap around.\<close>

definition INPUT_LIMIT :: nat where "INPUT_LIMIT = 2 ^ 32 - 2"

text \<open>A message whose body of known size took in \<open>n\<close> bytes of \<open>u\<close>.\<close>

definition filled :: "nat \<Rightarrow> string \<Rightarrow> 'a http_message_scheme \<Rightarrow> 'a http_message_scheme" where
  "filled n u m =
     (let m' = m\<lparr>body := body m @ take n u\<rparr>
      in if length (body m') = snd (expected_body_size_pair m) then m'\<lparr>state := COMPLETE\<rparr> else m')"

lemma filled_append: "filled (length u + k) (u @ t) m = filled k t (m\<lparr>body := body m @ u\<rparr>)"
  by (simp add: filled_def)

locale message_class =
  fixes C :: "'a http_class"
    and initialize ::
      "('a http_message_scheme, 'x) message_sequence_scheme \<Rightarrow>
         ('a http_message_scheme, 'x) message_sequence_scheme res"
    and body_inv :: "'a http_message_scheme \<Rightarrow> bool"
    and view :: "'a http_message_scheme \<Rightarrow> 'a http_message_scheme"
  assumes new_law: "state (new_message C) = FIRST_LINE_PENDING \<and> body (new_message C) = ''''"
    and init_law: "initialize s = Inr s' \<Longrightarrow> state (message_in_progress s) = FIRST_LINE_PENDING \<Longrightarrow>
      body (message_in_progress s) = '''' \<Longrightarrow>
      state (message_in_progress s') = FIRST_LINE_PENDING \<and> body (message_in_progress s') = '''' \<and>
      buffer s' = buffer s"
    and init_buffer: "initialize (s\<lparr>buffer := b\<rparr>) = rmap (\<lambda>s'. s'\<lparr>buffer := b\<rparr>) (initialize s)"
    and init_complete: "initialize (s\<lparr>complete_messages := ms\<rparr>) =
      rmap (\<lambda>s'. s'\<lparr>complete_messages := ms\<rparr>) (initialize s)"
    and init_keeps: "initialize s = Inr s' \<Longrightarrow> complete_messages s' = complete_messages s"
    and calculate_law: "state m = BODY_PENDING \<Longrightarrow> body m = '''' \<Longrightarrow>
      calculate_expected_body_size C m = Inr m' \<Longrightarrow>
      state m' = BODY_PENDING \<and> body m' = '''' \<and> first_line m' = first_line m \<and>
      headers m' = headers m \<and> (\<not> fst (expected_body_size_pair m') \<longrightarrow> body_inv m')"
    and read_law: "state m = BODY_PENDING \<Longrightarrow> body_inv m \<Longrightarrow> length (body m) + length u < INPUT_LIMIT \<Longrightarrow>
      read_in_complex_body C u m = Inr (n, m') \<Longrightarrow>
      (if state m' = COMPLETE then n \<le> length u
       else state m' = BODY_PENDING \<and> n = length u \<and> body_inv m' \<and>
         length (body m') = length (body m) + length u \<and>
         expected_body_size_pair m' = expected_body_size_pair m)"
    and read_append: "state m = BODY_PENDING \<Longrightarrow> body_inv m \<Longrightarrow>
      length (body m) + length (u @ t) < INPUT_LIMIT \<Longrightarrow>
      rmap (\<lambda>(n, m'). (n, settled view m')) (read_in_complex_body C (u @ t) m) =
      rmap (\<lambda>(n, m'). (n, settled view m'))
        (rbind (read_in_complex_body C u m) (\<lambda>(n, m').
          if state m' = COMPLETE then Inr (n, m')
          else rmap (\<lambda>(k, m2). (n + k, m2)) (read_in_complex_body C t m')))"
    and view_state: "state (view m) = state m"
    and view_view: "view (view m) = view m"
begin

lemma settled_state [simp]: "state (settled view m) = state m"
  by (simp add: settled_def view_state)

lemma settled_pending [simp]: "state m \<noteq> COMPLETE \<Longrightarrow> settled view m = m"
  by (simp add: settled_def)

lemma settled_settled [simp]: "settled view (settled view m) = settled view m"
  by (simp add: settled_def view_state view_view)

lemma settled_sequence_simps [simp]:
  "buffer (settled_sequence view s) = buffer s"
  "complete_messages (settled_sequence view s) = map view (complete_messages s)"
  "message_in_progress (settled_sequence view s) = settled view (message_in_progress s)"
  by (simp_all add: settled_sequence_def)

text \<open>Reading a body of known size.\<close>

lemma read_known_body_cases:
  assumes "state m = BODY_PENDING" and "fst (expected_body_size_pair m)"
    and "length (body m) \<le> snd (expected_body_size_pair m)"
  shows "read_in_body (read_in_complex_body C) s m =
    (let n = min (snd (expected_body_size_pair m) - length (body m)) (length s);
         m' = m\<lparr>body := body m @ take n s\<rparr>
     in Inr (n, if length (body m') = snd (expected_body_size_pair m) then m'\<lparr>state := COMPLETE\<rparr> else m'))"
  using assms
  by (simp add: read_in_body_def read_known_body_def body_size_is_known_def expected_body_size_def
      substr_def Let_def)

lemma read_unknown_body:
  "state m = BODY_PENDING \<Longrightarrow> \<not> fst (expected_body_size_pair m) \<Longrightarrow>
     read_in_body (read_in_complex_body C) s m = read_in_complex_body C s m"
  by (simp add: read_in_body_def body_size_is_known_def)

lemma body_read_law:
  assumes "state m = BODY_PENDING" and "message_ok body_inv m"
    and "length (body m) + length s < INPUT_LIMIT"
    and "read_in_body (read_in_complex_body C) s m = Inr (n, m')"
  shows "if state m' = COMPLETE then n \<le> length s
    else state m' = BODY_PENDING \<and> n = length s \<and> message_ok body_inv m' \<and>
      length (body m') = length (body m) + length s"
proof (cases "fst (expected_body_size_pair m)")
  case True
  then show ?thesis
    using assms read_known_body_cases [of m s]
    by (auto simp: message_ok_def Let_def min_def split: if_splits)
next
  case False
  then show ?thesis
    using assms read_unknown_body [of m s] read_law [of m s n m']
    by (auto simp: message_ok_def split: if_splits)
qed

lemma body_read_append:
  assumes "state m = BODY_PENDING" and "message_ok body_inv m"
    and "length (body m) + length (s @ t) < INPUT_LIMIT"
  shows "rmap (\<lambda>(n, m'). (n, settled view m')) (read_in_body (read_in_complex_body C) (s @ t) m) =
    rmap (\<lambda>(n, m'). (n, settled view m'))
      (rbind (read_in_body (read_in_complex_body C) s m) (\<lambda>(n, m').
        if state m' = COMPLETE then Inr (n, m')
        else rmap (\<lambda>(k, m2). (n + k, m2)) (read_in_body (read_in_complex_body C) t m')))"
proof (cases "fst (expected_body_size_pair m)")
  case True
  let ?room = "snd (expected_body_size_pair m) - length (body m)"
  have le: "length (body m) \<le> snd (expected_body_size_pair m)"
    using assms(1,2) True by (simp add: message_ok_def)
  note st = read_known_body_cases [OF assms(1) True le, of "s @ t"]
    and s = read_known_body_cases [OF assms(1) True le, of s]
  show ?thesis
  proof (cases "?room \<le> length s")
    case True
    then show ?thesis
      using st s le by (simp add: Let_def)
  next
    case False
    let ?m = "m\<lparr>body := body m @ s\<rparr>" and ?k = "min (?room - length s) (length t)"
    have m: "state ?m = BODY_PENDING" "fst (expected_body_size_pair ?m)"
      "length (body ?m) \<le> snd (expected_body_size_pair ?m)"
      using assms(1) \<open>fst (expected_body_size_pair m)\<close> False by simp_all
    have n: "min ?room (length (s @ t)) = length s + ?k" "min ?room (length s) = length s"
      using False by simp_all
    have sizes: "snd (expected_body_size_pair ?m) - length (body ?m) = ?room - length s"
      by simp
    have t: "read_in_body (read_in_complex_body C) t ?m = Inr (?k, filled ?k t ?m)"
      using read_known_body_cases [OF m, of t] unfolding filled_def Let_def sizes by simp
    have st': "read_in_body (read_in_complex_body C) (s @ t) m =
        Inr (length s + ?k, filled (length s + ?k) (s @ t) m)"
      using st unfolding filled_def Let_def n by simp
    have "filled (length s + ?k) (s @ t) m = filled ?k t ?m"
      by (simp only: filled_append)
    moreover have "read_in_body (read_in_complex_body C) s m = Inr (length s, ?m)"
      using s False by (simp add: Let_def n)
    ultimately show ?thesis
      using t st' assms(1) by simp
  qed
next
  case False
  then have inv: "body_inv m"
    using assms(1,2) by (simp add: message_ok_def)
  show ?thesis
  proof (cases "read_in_complex_body C s m")
    case (Inl e)
    then show ?thesis
      using read_append [OF assms(1) inv assms(3)] read_unknown_body [OF assms(1) False] by simp
  next
    case (Inr r)
    obtain n m' where r: "r = (n, m')" by fastforce
    show ?thesis
    proof (cases "state m' = COMPLETE")
      case True
      then show ?thesis
        using read_append [OF assms(1) inv assms(3)] read_unknown_body [OF assms(1) False] Inr r by simp
    next
      case pending: False
      then have "state m' = BODY_PENDING" "\<not> fst (expected_body_size_pair m')"
        using read_law [OF assms(1) inv _ Inr [unfolded r]] assms(3) False by auto
      then show ?thesis
        using read_append [OF assms(1) inv assms(3)] read_unknown_body [OF assms(1) False]
          read_unknown_body [of m'] Inr r pending by simp
    qed
  qed
qed

end

section \<open>One step of the parser\<close>

lemma get_and_pop_line_found:
  assumes "str_find buf CRLF = Some i"
  shows "get_and_pop_line buf = Inr (take i buf, drop (i + 2) buf)"
  using str_find_bound [OF assms] assms
  by (simp add: get_and_pop_line_def substr_def pop_bytes_def str_replace_def)

lemma pop_bytes_le: "n \<le> length buf \<Longrightarrow> pop_bytes n buf = Inr (drop n buf)"
  by (simp add: pop_bytes_def str_replace_def)

lemma pop_bytes_Inr: "pop_bytes n buf = Inr rest \<longleftrightarrow> n \<le> length buf \<and> rest = drop n buf"
  by (auto simp: pop_bytes_def str_replace_def)

text \<open>How far the parser is from waiting for input.\<close>

fun state_rank :: "http_message_state \<Rightarrow> nat" where
  "state_rank BODY_PENDING = 2"
| "state_rank COMPLETE = 1"
| "state_rank _ = 0"

definition steps_left :: "('a http_message_scheme, 'x) message_sequence_scheme \<Rightarrow> nat" where
  "steps_left s = 2 * length (buffer s) + state_rank (state (message_in_progress s))"

text \<open>More bytes in the buffer of the parser.\<close>

definition more_input ::
  "string \<Rightarrow> ('a http_message_scheme, 'x) message_sequence_scheme \<Rightarrow>
     ('a http_message_scheme, 'x) message_sequence_scheme" where
  "more_input t s = s\<lparr>buffer := buffer s @ t\<rparr>"

lemma more_input_simps [simp]:
  "buffer (more_input t s) = buffer s @ t"
  "message_in_progress (more_input t s) = message_in_progress s"
  "complete_messages (more_input t s) = complete_messages s"
  "more_input u (more_input t s) = more_input (t @ u) s" "more_input [] s = s"
  by (simp_all add: more_input_def)

context message_class
begin

lemma set_first_line_ok:
  "set_first_line line m = Inr m' \<Longrightarrow> body m = '''' \<Longrightarrow>
     state m' = HEADERS_PENDING \<and> message_ok body_inv m'"
  by (auto simp: set_first_line_def message_ok_def split: if_splits)

lemma end_of_line_ok:
  assumes "state m = HEADERS_PENDING" and "body m = ''''"
    and "(if line = '''' then done_with_headers (calculate_expected_body_size C) m
          else add_header_line line m) = Inr m'"
  shows "(state m' = HEADERS_PENDING \<or> state m' = BODY_PENDING) \<and> body m' = '''' \<and>
    message_ok body_inv m'"
proof (cases "line = ''''")
  case True
  then have "calculate_expected_body_size C (m\<lparr>state := BODY_PENDING\<rparr>) = Inr m'"
    using assms by (simp add: done_with_headers_def)
  from calculate_law [OF _ _ this] show ?thesis
    using assms(2) by (simp add: message_ok_def)
next
  case False
  then show ?thesis
    using assms by (auto simp: add_header_line_def rbind_Inr_iff message_ok_def)
qed

lemma step_ok:
  assumes ok: "message_ok body_inv (message_in_progress s)" and len: "held_input s < INPUT_LIMIT"
    and step: "parsing_step C initialize s = Inr (continue, s')"
  shows "message_ok body_inv (message_in_progress s') \<and> held_input s' \<le> held_input s \<and>
    (continue \<longrightarrow> steps_left s' < steps_left s)"
proof (cases "state (message_in_progress s)")
  case FIRST_LINE_PENDING
  then have body: "body (message_in_progress s) = ''''"
    using ok by (simp add: message_ok_def)
  show ?thesis
  proof (cases "str_find (buffer s) CRLF")
    case None
    then show ?thesis
      using step ok FIRST_LINE_PENDING
      by (simp add: parsing_step_def first_line_step_def have_complete_line_def)
  next
    case (Some i)
    have line: "have_complete_line (buffer s)"
      using Some by (simp add: have_complete_line_def)
    obtain s1 where init: "initialize s = Inr s1"
      using step FIRST_LINE_PENDING line
      by (cases "initialize s") (simp_all add: parsing_step_def first_line_step_def)
    have s1: "buffer s1 = buffer s" "body (message_in_progress s1) = ''''"
      using init_law [OF init FIRST_LINE_PENDING body] by simp_all
    obtain m where m: "set_first_line (take i (buffer s)) (message_in_progress s1) = Inr m"
      and s': "continue" "s' = s1\<lparr>buffer := drop (i + 2) (buffer s), message_in_progress := m\<rparr>"
      using step FIRST_LINE_PENDING line init get_and_pop_line_found [OF Some] s1(1)
      by (cases "set_first_line (take i (buffer s)) (message_in_progress s1)")
        (simp_all add: parsing_step_def first_line_step_def)
    then show ?thesis
      using set_first_line_ok [OF m s1(2)] str_find_bound [OF Some] FIRST_LINE_PENDING
      by (simp add: steps_left_def held_input_def)
  qed
next
  case HEADERS_PENDING
  then have body: "body (message_in_progress s) = ''''"
    using ok by (simp add: message_ok_def)
  show ?thesis
  proof (cases "str_find (buffer s) CRLF")
    case None
    then show ?thesis
      using step ok HEADERS_PENDING
      by (simp add: parsing_step_def header_line_step_def have_complete_line_def)
  next
    case (Some i)
    let ?line = "take i (buffer s)"
    obtain m where m: "(if ?line = '''' then done_with_headers (calculate_expected_body_size C) (message_in_progress s)
          else add_header_line ?line (message_in_progress s)) = Inr m"
      and s': "s' = s\<lparr>buffer := drop (i + 2) (buffer s), message_in_progress := m\<rparr>"
      using step HEADERS_PENDING Some
      unfolding parsing_step_def header_line_step_def have_complete_line_def
      by (auto simp: rbind_Inr_iff get_and_pop_line_found split del: if_split)
    from end_of_line_ok [OF HEADERS_PENDING body m] show ?thesis
      using str_find_bound [OF Some] HEADERS_PENDING s' by (auto simp: steps_left_def held_input_def)
  qed
next
  case BODY_PENDING
  obtain n m where read: "read_in_body (read_in_complex_body C) (buffer s) (message_in_progress s) = Inr (n, m)"
    and n: "n = length (buffer s) \<or> state m = COMPLETE" "n \<le> length (buffer s)"
    and s': "continue = (state m = COMPLETE)"
      "s' = s\<lparr>buffer := drop n (buffer s), message_in_progress := m\<rparr>"
    using step BODY_PENDING
    by (auto simp: parsing_step_def body_step_def rbind_Inr_iff pop_bytes_Inr split: if_splits)
  have "length (body (message_in_progress s)) + length (buffer s) < INPUT_LIMIT"
    using len BODY_PENDING by (simp add: held_input_def)
  from body_read_law [OF BODY_PENDING ok this read] show ?thesis
    using s' n BODY_PENDING
    by (auto simp: message_ok_def steps_left_def held_input_def split: if_splits)
next
  case COMPLETE
  then show ?thesis
    using step new_law by (auto simp: parsing_step_def message_ok_def steps_left_def held_input_def)
qed

text \<open>The loop ends.\<close>

lemma parse_loop_returns:
  "message_ok body_inv (message_in_progress s) \<Longrightarrow> held_input s < INPUT_LIMIT \<Longrightarrow>
     \<exists>r. parse_loop C initialize s = Some r \<and>
       (case r of Inl e \<Rightarrow> True
        | Inr s' \<Rightarrow> message_ok body_inv (message_in_progress s') \<and> held_input s' \<le> held_input s)"
proof (induction "steps_left s" arbitrary: s rule: less_induct)
  case less
  show ?case
  proof (cases "parsing_step C initialize s")
    case (Inl e)
    then show ?thesis by (subst parse_loop.simps) simp
  next
    case (Inr r)
    obtain continue s' where r: "r = (continue, s')" by fastforce
    note step = step_ok [OF less.prems Inr [unfolded r]]
    show ?thesis
    proof (cases continue)
      case False
      then show ?thesis using Inr r step by (subst parse_loop.simps) simp
    next
      case True
      then obtain r2 where "parse_loop C initialize s' = Some r2"
        "case r2 of Inl e \<Rightarrow> True
         | Inr s'' \<Rightarrow> message_ok body_inv (message_in_progress s'') \<and> held_input s'' \<le> held_input s'"
        using less.hyps [of s'] step less.prems by auto
      then show ?thesis
        using Inr r True step by (subst parse_loop.simps) (auto split: sum.splits)
    qed
  qed
qed

end

section \<open>The pieces of the input do not matter\<close>

context message_class
begin

lemma settled_update:
  assumes "state (message_in_progress s) \<noteq> COMPLETE"
  shows "settled_sequence view s = s\<lparr>complete_messages := map view (complete_messages s)\<rparr>"
  using assms by (simp add: settled_sequence_def)

lemma first_line_step_settled:
  assumes "state (message_in_progress s) = FIRST_LINE_PENDING"
  shows "rmap (\<lambda>(c, x). (c, settled_sequence view x)) (first_line_step initialize (settled_sequence view s)) =
    rmap (\<lambda>(c, x). (c, settled_sequence view x)) (first_line_step initialize s)"
proof -
  have upd: "settled_sequence view s = s\<lparr>complete_messages := map view (complete_messages s)\<rparr>"
    using assms by (simp add: settled_update)
  show ?thesis
  proof (cases "have_complete_line (buffer s) \<and> (\<exists>s1. initialize s = Inr s1)")
    case False
    then show ?thesis
      unfolding upd
      by (cases "initialize s")
        (auto simp: first_line_step_def init_complete settled_sequence_def view_view o_def)
  next
    case True
    then obtain s1 where s1: "initialize s = Inr s1" by blast
    have cs: "complete_messages s1 = complete_messages s"
      by (rule init_keeps [OF s1])
    show ?thesis
    proof (cases "get_and_pop_line (buffer s1)")
      case (Inl e)
      then show ?thesis using True s1 by (simp add: first_line_step_def upd init_complete)
    next
      case (Inr lr)
      obtain line rest where lr: "lr = (line, rest)" by fastforce
      show ?thesis
        using True s1 Inr lr cs unfolding upd
        by (cases "set_first_line line (message_in_progress s1)")
          (simp_all add: first_line_step_def init_complete settled_sequence_def view_view o_def)
    qed
  qed
qed

lemma header_line_step_settled:
  assumes "state (message_in_progress s) = HEADERS_PENDING"
  shows "rmap (\<lambda>(c, x). (c, settled_sequence view x)) (header_line_step C (settled_sequence view s)) =
    rmap (\<lambda>(c, x). (c, settled_sequence view x)) (header_line_step C s)"
proof -
  have upd: "settled_sequence view s = s\<lparr>complete_messages := map view (complete_messages s)\<rparr>"
    using assms by (simp add: settled_update)
  show ?thesis
  proof (cases "have_complete_line (buffer s)")
    case False
    then show ?thesis
      unfolding upd by (simp add: header_line_step_def settled_sequence_def view_view o_def)
  next
    case True
    show ?thesis
    proof (cases "get_and_pop_line (buffer s)")
      case (Inl e)
      then show ?thesis using True by (simp add: header_line_step_def upd)
    next
      case (Inr lr)
      obtain line rest where lr: "lr = (line, rest)" by fastforce
      show ?thesis
        using True Inr lr unfolding upd
        by (cases "line = ''''";
            cases "done_with_headers (calculate_expected_body_size C) (message_in_progress s)";
            cases "add_header_line line (message_in_progress s)")
          (simp_all add: header_line_step_def settled_sequence_def view_view o_def)
    qed
  qed
qed

lemma body_step_settled:
  assumes "state (message_in_progress s) = BODY_PENDING"
  shows "rmap (\<lambda>(c, x). (c, settled_sequence view x)) (body_step C (settled_sequence view s)) =
    rmap (\<lambda>(c, x). (c, settled_sequence view x)) (body_step C s)"
proof -
  have upd: "settled_sequence view s = s\<lparr>complete_messages := map view (complete_messages s)\<rparr>"
    using assms by (simp add: settled_update)
  show ?thesis
  proof (cases "read_in_body (read_in_complex_body C) (buffer s) (message_in_progress s)")
    case (Inl e)
    then show ?thesis by (simp add: body_step_def upd)
  next
    case (Inr nm)
    obtain n m where nm: "nm = (n, m)" by fastforce
    show ?thesis
      using Inr nm unfolding upd
      by (cases "n \<le> length (buffer s)")
        (simp_all add: body_step_def pop_bytes_def str_replace_def settled_sequence_def view_view o_def)
  qed
qed

lemma step_settled:
  "rmap (\<lambda>(c, x). (c, settled_sequence view x)) (parsing_step C initialize (settled_sequence view s)) =
   rmap (\<lambda>(c, x). (c, settled_sequence view x)) (parsing_step C initialize s)"
proof (cases "state (message_in_progress s)")
  case FIRST_LINE_PENDING
  then show ?thesis using first_line_step_settled by (simp add: parsing_step_def)
next
  case HEADERS_PENDING
  then show ?thesis using header_line_step_settled by (simp add: parsing_step_def)
next
  case BODY_PENDING
  then show ?thesis using body_step_settled by (simp add: parsing_step_def)
next
  case COMPLETE
  then show ?thesis
    by (simp add: parsing_step_def settled_sequence_def settled_def view_state view_view o_def)
qed

end

context message_class
begin

abbreviation (input) same_result ::
  "(bool \<times> ('a http_message_scheme, 'x) message_sequence_scheme) res \<Rightarrow>
     (bool \<times> ('a http_message_scheme, 'x) message_sequence_scheme) res \<Rightarrow> bool" where
  "same_result r1 r2 \<equiv>
     rmap (\<lambda>(c, x). (c, settled_sequence view x)) r1 = rmap (\<lambda>(c, x). (c, settled_sequence view x)) r2"

lemma first_line_step_more:
  assumes "state (message_in_progress s) = FIRST_LINE_PENDING" and "body (message_in_progress s) = ''''"
  shows "case first_line_step initialize s of
      Inl e \<Rightarrow> first_line_step initialize (more_input t s) = Inl e
    | Inr (c, s') \<Rightarrow> if c then first_line_step initialize (more_input t s) = Inr (True, more_input t s')
        else s' = s"
proof (cases "str_find (buffer s) CRLF")
  case None
  then show ?thesis by (simp add: first_line_step_def have_complete_line_def)
next
  case (Some i)
  have line: "have_complete_line (buffer s)" "have_complete_line (buffer s @ t)"
    using Some str_find_append [OF Some, of t] by (simp_all add: have_complete_line_def)
  have init: "initialize (more_input t s) = rmap (\<lambda>s1. s1\<lparr>buffer := buffer s @ t\<rparr>) (initialize s)"
    by (simp add: more_input_def init_buffer)
  show ?thesis
  proof (cases "initialize s")
    case (Inl e)
    then show ?thesis using line init by (simp add: first_line_step_def)
  next
    case (Inr s1)
    have s1: "buffer s1 = buffer s"
      using init_law [OF Inr assms] by simp
    have pop: "get_and_pop_line (buffer s) = Inr (take i (buffer s), drop (i + 2) (buffer s))"
        "get_and_pop_line (buffer s @ t) = Inr (take i (buffer s), drop (i + 2) (buffer s) @ t)"
      using get_and_pop_line_found [OF Some] get_and_pop_line_found [OF str_find_append [OF Some, of t]]
        str_find_bound [OF Some] by simp_all
    show ?thesis
      using line init Inr s1 pop
      by (cases "set_first_line (take i (buffer s)) (message_in_progress s1)")
        (simp_all add: first_line_step_def more_input_def)
  qed
qed

lemma header_line_step_more:
  "case header_line_step C s of
     Inl e \<Rightarrow> header_line_step C (more_input t s) = Inl e
   | Inr (c, s') \<Rightarrow> if c then header_line_step C (more_input t s) = Inr (True, more_input t s')
       else s' = s"
proof (cases "str_find (buffer s) CRLF")
  case None
  then show ?thesis by (simp add: header_line_step_def have_complete_line_def)
next
  case (Some i)
  have line: "have_complete_line (buffer s)" "have_complete_line (buffer s @ t)"
    using Some str_find_append [OF Some, of t] by (simp_all add: have_complete_line_def)
  have pop: "get_and_pop_line (buffer s) = Inr (take i (buffer s), drop (i + 2) (buffer s))"
      "get_and_pop_line (buffer s @ t) = Inr (take i (buffer s), drop (i + 2) (buffer s) @ t)"
    using get_and_pop_line_found [OF Some] get_and_pop_line_found [OF str_find_append [OF Some, of t]]
      str_find_bound [OF Some] by simp_all
  show ?thesis
  proof (cases "take i (buffer s) = ''''")
    case True
    then show ?thesis
      using line pop
      by (cases "done_with_headers (calculate_expected_body_size C) (message_in_progress s)")
        (simp_all add: header_line_step_def more_input_def)
  next
    case False
    then show ?thesis
      using line pop
      by (cases "add_header_line (take i (buffer s)) (message_in_progress s)")
        (simp_all add: header_line_step_def more_input_def)
  qed
qed

lemma body_step_more:
  assumes st: "state (message_in_progress s) = BODY_PENDING"
    and ok: "message_ok body_inv (message_in_progress s)"
    and len: "held_input s + length t < INPUT_LIMIT"
  shows "case body_step C s of
      Inl e \<Rightarrow> body_step C (more_input t s) = Inl e
    | Inr (c, s') \<Rightarrow> if c then same_result (body_step C (more_input t s)) (Inr (True, more_input t s'))
        else state (message_in_progress s') = BODY_PENDING \<and>
          same_result (body_step C (more_input t s)) (body_step C (more_input t s'))"
proof -
  let ?m = "message_in_progress s" and ?read = "read_in_body (read_in_complex_body C)"
  have len1: "length (body ?m) + length (buffer s @ t) < INPUT_LIMIT"
    and len2: "length (body ?m) + length (buffer s) < INPUT_LIMIT"
    using len st by (simp_all add: held_input_def)
  note app = body_read_append [OF st ok len1]
  show ?thesis
  proof (cases "?read (buffer s) ?m")
    case (Inl e)
    then have "?read (buffer s @ t) ?m = Inl e"
      using app by simp
    then show ?thesis using Inl by (simp add: body_step_def)
  next
    case (Inr nm)
    obtain n m where nm: "nm = (n, m)" by fastforce
    note read = Inr [unfolded nm]
    note law = body_read_law [OF st ok len2 read]
    show ?thesis
    proof (cases "state m = COMPLETE")
      case True
      then obtain m1 where m1: "?read (buffer s @ t) ?m = Inr (n, m1)" "settled view m1 = settled view m"
        using app read by (cases "?read (buffer s @ t) ?m") auto
      then have "state m1 = COMPLETE"
        using True settled_state by metis
      then show ?thesis
        using True m1 read law
        by (simp add: body_step_def pop_bytes_le more_input_def settled_sequence_def)
    next
      case False
      then have m: "state m = BODY_PENDING" "n = length (buffer s)" "message_ok body_inv m"
          "length (body m) = length (body ?m) + length (buffer s)"
        using law by simp_all
      have step: "body_step C s = Inr (False, s\<lparr>buffer := '''', message_in_progress := m\<rparr>)"
        using read m by (simp add: body_step_def pop_bytes_le)
      have eq: "rmap (\<lambda>(n, m'). (n, settled view m')) (?read (buffer s @ t) ?m) =
          rmap (\<lambda>(n, m'). (n, settled view m')) (rmap (\<lambda>(k, m2). (n + k, m2)) (?read t m))"
        using app read m(1) by simp
      have "same_result (body_step C (more_input t s))
          (body_step C (more_input t (s\<lparr>buffer := '''', message_in_progress := m\<rparr>)))"
      proof (cases "?read t m")
        case (Inl e)
        then show ?thesis using eq by (simp add: body_step_def)
      next
        case (Inr km)
        obtain k m2 where km: "km = (k, m2)" by fastforce
        then obtain m1 where m1: "?read (buffer s @ t) ?m = Inr (n + k, m1)"
            "settled view m1 = settled view m2"
          using eq Inr by (cases "?read (buffer s @ t) ?m") auto
        then have states: "state m1 = state m2"
          using settled_state by metis
        show ?thesis
          using Inr km m1 states m(2)
          by (cases "k \<le> length t")
            (simp_all add: body_step_def pop_bytes_def str_replace_def more_input_def settled_sequence_def)
      qed
      then show ?thesis
        using step m(1) by simp
    qed
  qed
qed

end

text \<open>Reading the pieces one after the other; the first exception ends it.\<close>

fun parse_pieces ::
  "'a http_class \<Rightarrow>
   (('a http_message_scheme, 'x) message_sequence_scheme \<Rightarrow>
      ('a http_message_scheme, 'x) message_sequence_scheme res) \<Rightarrow>
   string list \<Rightarrow> ('a http_message_scheme, 'x) message_sequence_scheme \<Rightarrow>
     ('a http_message_scheme, 'x) message_sequence_scheme res option" where
  "parse_pieces C initialize [] s = Some (Inr s)"
| "parse_pieces C initialize (part # parts) s =
     (case parse C initialize part s of
        Some (Inr s') \<Rightarrow> parse_pieces C initialize parts s'
      | r \<Rightarrow> r)"

context message_class
begin

lemma step_more:
  assumes ok: "message_ok body_inv (message_in_progress s)"
    and len: "held_input s + length t < INPUT_LIMIT"
  shows "case parsing_step C initialize s of
      Inl e \<Rightarrow> parsing_step C initialize (more_input t s) = Inl e
    | Inr (c, s') \<Rightarrow>
        same_result (parsing_step C initialize (more_input t s))
          (if c then Inr (True, more_input t s') else parsing_step C initialize (more_input t s'))"
proof (cases "state (message_in_progress s)")
  case FIRST_LINE_PENDING
  have b: "body (message_in_progress s) = ''''"
    using ok FIRST_LINE_PENDING by (simp add: message_ok_def)
  show ?thesis
    using first_line_step_more [OF FIRST_LINE_PENDING b, where t = t] FIRST_LINE_PENDING
    by (auto simp: parsing_step_def split: sum.splits if_splits)
next
  case HEADERS_PENDING
  show ?thesis
    using header_line_step_more [where s = s and t = t] HEADERS_PENDING
    by (auto simp: parsing_step_def split: sum.splits if_splits)
next
  case BODY_PENDING
  show ?thesis
  proof (cases "body_step C s")
    case (Inl e)
    then show ?thesis
      using body_step_more [OF BODY_PENDING ok len] BODY_PENDING by (simp add: parsing_step_def)
  next
    case (Inr r)
    obtain c s' where r: "r = (c, s')" by fastforce
    then show ?thesis
      using body_step_more [OF BODY_PENDING ok len] BODY_PENDING Inr
      by (cases c) (simp_all add: parsing_step_def)
  qed
next
  case COMPLETE
  then show ?thesis by (simp add: parsing_step_def more_input_def settled_sequence_def)
qed

abbreviation (input) same_outcome ::
  "('a http_message_scheme, 'x) message_sequence_scheme res option \<Rightarrow>
     ('a http_message_scheme, 'x) message_sequence_scheme res option \<Rightarrow> bool" where
  "same_outcome r1 r2 \<equiv>
     map_option (rmap (settled_sequence view)) r1 = map_option (rmap (settled_sequence view)) r2"

lemma settled_facts:
  assumes "settled_sequence view s1 = settled_sequence view s2"
  shows "steps_left s1 = steps_left s2" and "held_input s1 = held_input s2"
    and "message_ok body_inv (message_in_progress s1) = message_ok body_inv (message_in_progress s2)"
proof -
  have b: "buffer s1 = buffer s2"
    and m: "settled view (message_in_progress s1) = settled view (message_in_progress s2)"
    using assms settled_sequence_simps by metis+
  then have st: "state (message_in_progress s1) = state (message_in_progress s2)"
    using settled_state by metis
  show "steps_left s1 = steps_left s2"
    using b st by (simp add: steps_left_def)
  show "held_input s1 = held_input s2"
    using b st m
    by (cases "state (message_in_progress s1) = BODY_PENDING") (simp_all add: held_input_def)
  show "message_ok body_inv (message_in_progress s1) = message_ok body_inv (message_in_progress s2)"
    using st m by (cases "state (message_in_progress s1) = COMPLETE") (simp_all add: message_ok_def)
qed

lemma more_settled:
  "settled_sequence view s1 = settled_sequence view s2 \<Longrightarrow>
     settled_sequence view (more_input t s1) = settled_sequence view (more_input t s2)"
proof -
  have eq: "settled_sequence view (more_input t s) = more_input t (settled_sequence view s)" for s
    by (simp add: more_input_def settled_sequence_def)
  assume "settled_sequence view s1 = settled_sequence view s2"
  then show ?thesis by (simp add: eq)
qed

lemma step_same:
  "settled_sequence view s1 = settled_sequence view s2 \<Longrightarrow>
     same_result (parsing_step C initialize s1) (parsing_step C initialize s2)"
  using step_settled [of s1] step_settled [of s2] by simp

lemma loop_same:
  assumes "settled_sequence view s1 = settled_sequence view s2"
    and "message_ok body_inv (message_in_progress s1)" and "held_input s1 < INPUT_LIMIT"
  shows "same_outcome (parse_loop C initialize s1) (parse_loop C initialize s2)"
  using assms
proof (induction "steps_left s1" arbitrary: s1 s2 rule: less_induct)
  case less
  note same = step_same [OF less.prems(1)]
  show ?case
  proof (cases "parsing_step C initialize s1")
    case (Inl e)
    then show ?thesis
      using same by (subst (1 2) parse_loop.simps) (cases "parsing_step C initialize s2"; simp)
  next
    case (Inr r1)
    obtain c t1 where r1: "r1 = (c, t1)" by fastforce
    then obtain t2 where t2: "parsing_step C initialize s2 = Inr (c, t2)"
      and eq: "settled_sequence view t1 = settled_sequence view t2"
      using same Inr by (cases "parsing_step C initialize s2") auto
    note ok = step_ok [OF less.prems(2,3) Inr [unfolded r1]]
    show ?thesis
    proof (cases c)
      case False
      then show ?thesis
        using Inr r1 t2 eq by (subst (1 2) parse_loop.simps) simp
    next
      case True
      then have "same_outcome (parse_loop C initialize t1) (parse_loop C initialize t2)"
        using less.hyps [of t1 t2] ok eq less.prems(3) by simp
      then show ?thesis
        using Inr r1 t2 True by (subst (1 2) parse_loop.simps) simp
    qed
  qed
qed

lemma loop_same_step:
  assumes same: "same_result (parsing_step C initialize s1) (parsing_step C initialize s2)"
    and ok: "message_ok body_inv (message_in_progress s1)" "held_input s1 < INPUT_LIMIT"
  shows "same_outcome (parse_loop C initialize s1) (parse_loop C initialize s2)"
proof (cases "parsing_step C initialize s1")
  case (Inl e)
  then show ?thesis
    using same by (subst (1 2) parse_loop.simps) (cases "parsing_step C initialize s2"; simp)
next
  case (Inr r1)
  obtain c t1 where r1: "r1 = (c, t1)" by fastforce
  then obtain t2 where t2: "parsing_step C initialize s2 = Inr (c, t2)"
    and eq: "settled_sequence view t1 = settled_sequence view t2"
    using same Inr by (cases "parsing_step C initialize s2") auto
  note ok1 = step_ok [OF ok Inr [unfolded r1]]
  have "same_outcome (parse_loop C initialize t1) (parse_loop C initialize t2)"
    by (rule loop_same [OF eq]) (use ok1 ok(2) in auto)
  then show ?thesis
    using Inr r1 t2 eq by (subst (1 2) parse_loop.simps) (cases c; simp)
qed

lemma loop_more:
  assumes "message_ok body_inv (message_in_progress s)" and "held_input s + length t < INPUT_LIMIT"
  shows "case parse_loop C initialize s of
      Some (Inr s') \<Rightarrow> same_outcome (parse_loop C initialize (more_input t s))
                        (parse_loop C initialize (more_input t s'))
    | r \<Rightarrow> parse_loop C initialize (more_input t s) = r"
  using assms
proof (induction "steps_left s" arbitrary: s rule: less_induct)
  case less
  note more = step_more [OF less.prems]
  have ok: "message_ok body_inv (message_in_progress (more_input t s))"
    and len: "held_input (more_input t s) < INPUT_LIMIT"
    and len0: "held_input s < INPUT_LIMIT"
    using less.prems by (simp_all add: held_input_def split: if_splits)
  show ?case
  proof (cases "parsing_step C initialize s")
    case (Inl e)
    then show ?thesis
      using more by (subst parse_loop.simps, subst (2) parse_loop.simps) simp
  next
    case (Inr r)
    obtain c s' where r: "r = (c, s')" by fastforce
    note step = step_ok [OF less.prems(1) len0 Inr [unfolded r]]
    show ?thesis
    proof (cases c)
      case False
      then have "same_outcome (parse_loop C initialize (more_input t s))
          (parse_loop C initialize (more_input t s'))"
        using loop_same_step [OF _ ok len] more Inr r by simp
      moreover have "parse_loop C initialize s = Some (Inr s')"
        using Inr r False by (subst parse_loop.simps) simp
      ultimately show ?thesis by simp
    next
      case True
      then obtain u where u: "parsing_step C initialize (more_input t s) = Inr (True, u)"
        and eq: "settled_sequence view u = settled_sequence view (more_input t s')"
        using more Inr r by (cases "parsing_step C initialize (more_input t s)") auto
      have loops: "parse_loop C initialize s = parse_loop C initialize s'"
          "parse_loop C initialize (more_input t s) = parse_loop C initialize u"
        using Inr r True u by (subst parse_loop.simps; simp)+
      have u_ok: "message_ok body_inv (message_in_progress u)" "held_input u < INPUT_LIMIT"
        using step_ok [OF ok len u] len by auto
      have same: "same_outcome (parse_loop C initialize u) (parse_loop C initialize (more_input t s'))"
        by (rule loop_same [OF eq u_ok])
      have IH: "case parse_loop C initialize s' of
          Some (Inr s'') \<Rightarrow> same_outcome (parse_loop C initialize (more_input t s'))
                        (parse_loop C initialize (more_input t s''))
        | r \<Rightarrow> parse_loop C initialize (more_input t s') = r"
        using less.hyps [of s'] step True less.prems(2) by simp
      show ?thesis
      proof (cases "parse_loop C initialize s'")
        case None
        then show ?thesis using loops same IH by simp
      next
        case (Some res)
        then show ?thesis
          using loops same IH
          by (cases res; cases "parse_loop C initialize u") auto
      qed
    qed
  qed
qed

end

context message_class
begin

lemma parse_nonempty:
  "t \<noteq> '''' \<Longrightarrow> parse C initialize t s = parse_loop C initialize (more_input t s)"
  by (simp add: parse_def more_input_def)

lemma held_more: "held_input (more_input t s) = held_input s + length t"
  by (simp add: held_input_def)

lemma parse_returns:
  assumes "message_ok body_inv (message_in_progress s)" and "held_input s + length t < INPUT_LIMIT"
    and "t \<noteq> ''''"
  shows "\<exists>r. parse C initialize t s = Some r \<and>
    (case r of Inl e \<Rightarrow> True
     | Inr s' \<Rightarrow> message_ok body_inv (message_in_progress s') \<and> held_input s' \<le> held_input s + length t)"
  using parse_loop_returns [of "more_input t s", unfolded held_more] assms by (simp add: parse_nonempty)

text \<open>
  However a stream is cut into reads, the parser ends up in the same state, or fails with the
  same exception, as if it had been given in one piece.
\<close>

lemma parse_segmentation:
  assumes "parts \<noteq> []" and "\<forall>part \<in> set parts. part \<noteq> ''''"
    and "message_ok body_inv (message_in_progress s)"
    and "held_input s + length (concat parts) < INPUT_LIMIT"
  shows "same_outcome (parse_pieces C initialize parts s) (parse C initialize (concat parts) s)"
  using assms
proof (induction parts arbitrary: s)
  case Nil
  then show ?case by simp
next
  case (Cons x xs)
  have x: "x \<noteq> ''''"
    using Cons.prems(2) by simp
  show ?case
  proof (cases "xs = []")
    case True
    then show ?thesis
      by (cases "parse C initialize x s") (auto split: sum.split)
  next
    case False
    let ?t = "concat xs"
    have t: "?t \<noteq> ''''"
      using False Cons.prems(2) by (cases xs) auto
    have whole: "parse C initialize (concat (x # xs)) s = parse_loop C initialize (more_input ?t (more_input x s))"
      using x by (simp add: parse_nonempty)
    have ok: "message_ok body_inv (message_in_progress (more_input x s))"
        "held_input (more_input x s) + length ?t < INPUT_LIMIT"
      using Cons.prems(3,4) by (simp_all add: held_more)
    note more = loop_more [OF ok]
    have first: "parse C initialize x s = parse_loop C initialize (more_input x s)"
      by (rule parse_nonempty [OF x])
    obtain r where r: "parse_loop C initialize (more_input x s) = Some r"
      and post: "case r of Inl e \<Rightarrow> True
        | Inr s' \<Rightarrow> message_ok body_inv (message_in_progress s') \<and> held_input s' \<le> held_input (more_input x s)"
      using parse_loop_returns [of "more_input x s"] ok by (auto simp: held_more)
    show ?thesis
    proof (cases r)
      case (Inl e)
      then show ?thesis
        using first r more whole by simp
    next
      case (Inr s')
      have "same_outcome (parse_pieces C initialize xs s') (parse C initialize ?t s')"
        by (rule Cons.IH) (use False Cons.prems post Inr ok in auto)
      then have "same_outcome (parse_pieces C initialize (x # xs) s) (parse_loop C initialize (more_input ?t s'))"
        using first r Inr t by (simp add: parse_nonempty)
      then show ?thesis
        using more whole r Inr by simp
    qed
  qed
qed

end

section \<open>Reading a serialized message\<close>

definition line_ok :: "string \<Rightarrow> bool" where
  "line_ok line \<longleftrightarrow> CHR 0x0D \<notin> set line"

lemma find_line_end: "line_ok line \<Longrightarrow> str_find (line @ CRLF @ rest) CRLF = Some (length line)"
proof (induction line)
  case Nil
  then show ?case by simp
next
  case (Cons c line)
  then show ?case by (auto simp: line_ok_def CRLF_def)
qed

lemma pop_line:
  "line_ok line \<Longrightarrow> have_complete_line (line @ CRLF @ rest) \<and>
     get_and_pop_line (line @ CRLF @ rest) = Inr (line, rest)"
  using find_line_end [of line rest] get_and_pop_line_found [of "line @ CRLF @ rest" "length line"]
  by (simp add: have_complete_line_def)

context message_class
begin

lemma loop_first_line:
  assumes "state (message_in_progress s) = FIRST_LINE_PENDING" and "initialize s = Inr s1"
    and "buffer s = line @ CRLF @ rest" and "line_ok line" and "body (message_in_progress s) = ''''"
  shows "parse_loop C initialize s = parse_loop C initialize (s1\<lparr>buffer := rest,
    message_in_progress := (message_in_progress s1)\<lparr>first_line := line, state := HEADERS_PENDING\<rparr>\<rparr>)"
proof -
  have s1: "buffer s1 = buffer s" "state (message_in_progress s1) = FIRST_LINE_PENDING"
    using init_law [OF assms(2,1,5)] by simp_all
  show ?thesis
    using pop_line [OF assms(4), of rest] assms s1
    by (subst parse_loop.simps) (simp add: parsing_step_def first_line_step_def set_first_line_def)
qed

lemma loop_header:
  assumes "state (message_in_progress s) = HEADERS_PENDING"
    and "buffer s = header_str h @ CRLF @ rest" and "header_wf h" and "line_ok (header_str h)"
  shows "parse_loop C initialize s = parse_loop C initialize (s\<lparr>buffer := rest, message_in_progress :=
    (message_in_progress s)\<lparr>headers := headers (message_in_progress s) @ [h]\<rparr>\<rparr>)"
proof -
  have ne: "header_str h \<noteq> ''''"
    by (simp add: header_str_def)
  then show ?thesis
    using pop_line [OF assms(4), of rest] assms parse_header_str [OF assms(3)]
    by (subst parse_loop.simps) (simp add: parsing_step_def header_line_step_def add_header_line_def)
qed

lemma loop_headers:
  assumes "state (message_in_progress s) = HEADERS_PENDING"
    and "buffer s = headers_str hs @ rest" and "\<forall>h \<in> set hs. header_wf h \<and> line_ok (header_str h)"
  shows "parse_loop C initialize s = parse_loop C initialize (s\<lparr>buffer := rest, message_in_progress :=
    (message_in_progress s)\<lparr>headers := headers (message_in_progress s) @ hs\<rparr>\<rparr>)"
  using assms
proof (induction hs arbitrary: s)
  case Nil
  then show ?case by auto
next
  case (Cons h hs)
  have "parse_loop C initialize s = parse_loop C initialize (s\<lparr>buffer := headers_str hs @ rest,
      message_in_progress := (message_in_progress s)\<lparr>headers := headers (message_in_progress s) @ [h]\<rparr>\<rparr>)"
    by (rule loop_header) (use Cons.prems in simp_all)
  then show ?case
    by (subst (asm) Cons.IH) (use Cons.prems in simp_all)
qed

text \<open>The head of a message: its first line, its headers and the blank line.\<close>

lemma loop_head:
  assumes "state (message_in_progress s) = FIRST_LINE_PENDING" and "initialize s = Inr s1"
    and "body (message_in_progress s) = ''''"
    and "buffer s = line @ CRLF @ headers_str hs @ CRLF @ rest" and "line_ok line"
    and "\<forall>h \<in> set hs. header_wf h \<and> line_ok (header_str h)"
    and "calculate_expected_body_size C ((message_in_progress s1)\<lparr>first_line := line,
      headers := headers (message_in_progress s1) @ hs, state := BODY_PENDING\<rparr>) = Inr m"
  shows "parse_loop C initialize s =
    parse_loop C initialize (s1\<lparr>buffer := rest, message_in_progress := m\<rparr>)"
proof -
  let ?m1 = "(message_in_progress s1)\<lparr>first_line := line, state := HEADERS_PENDING\<rparr>"
  let ?m2 = "?m1\<lparr>headers := headers (message_in_progress s1) @ hs\<rparr>"
  have "parse_loop C initialize s = parse_loop C initialize (s1\<lparr>buffer := headers_str hs @ CRLF @ rest,
      message_in_progress := ?m1\<rparr>)"
    by (rule loop_first_line [OF assms(1,2,4,5,3)])
  also have "\<dots> = parse_loop C initialize (s1\<lparr>buffer := CRLF @ rest, message_in_progress := ?m2\<rparr>)"
    by (subst loop_headers [of _ hs "CRLF @ rest"]) (use assms(6) in simp_all)
  also have "\<dots> = parse_loop C initialize (s1\<lparr>buffer := rest, message_in_progress := m\<rparr>)"
  proof -
    have "line_ok ''''" by (simp add: line_ok_def)
    from pop_line [OF this, of rest] show ?thesis
      using assms(7)
      by (subst parse_loop.simps)
        (simp add: parsing_step_def header_line_step_def done_with_headers_def)
  qed
  finally show ?thesis .
qed

text \<open>A body of known size, all of it in the buffer, completes the message.\<close>

lemma loop_known_body:
  assumes "message_in_progress s = m" and "state m = BODY_PENDING" and "fst (expected_body_size_pair m)"
    and "snd (expected_body_size_pair m) = length b" and "body m = ''''" and "buffer s = b @ rest"
  shows "parse_loop C initialize s = parse_loop C initialize (s\<lparr>buffer := rest,
    complete_messages := complete_messages s @ [m\<lparr>body := b, state := COMPLETE\<rparr>],
    message_in_progress := new_message C\<rparr>)"
proof -
  have "read_in_body (read_in_complex_body C) (b @ rest) m =
      Inr (length b, m\<lparr>body := b, state := COMPLETE\<rparr>)"
    using read_known_body_cases [OF assms(2,3), of "b @ rest"] assms by simp
  then have "parse_loop C initialize s =
      parse_loop C initialize (s\<lparr>buffer := rest, message_in_progress := m\<lparr>body := b, state := COMPLETE\<rparr>\<rparr>)"
    using assms by (subst parse_loop.simps) (simp add: parsing_step_def body_step_def pop_bytes_le)
  also have "\<dots> = parse_loop C initialize (s\<lparr>buffer := rest,
      complete_messages := complete_messages s @ [m\<lparr>body := b, state := COMPLETE\<rparr>],
      message_in_progress := new_message C\<rparr>)"
    by (subst parse_loop.simps) (simp add: parsing_step_def)
  finally show ?thesis .
qed

lemma loop_idle:
  "state (message_in_progress s) = FIRST_LINE_PENDING \<Longrightarrow> buffer s = '''' \<Longrightarrow>
     parse_loop C initialize s = Some (Inr s)"
  by (subst parse_loop.simps)
    (simp add: parsing_step_def first_line_step_def have_complete_line_def CRLF_def)

end

end
