(* ===== verification/Http_Request.thy ===== *)
theory Http_Request
  imports Message_Sequence
begin

text \<open>
  \<open>HTTPRequest\<close> and \<open>HTTPRequestParser\<close> (\<open>src/src/http/http_request.cc\<close>,
  \<open>http_request_parser.hh\<close>): a request adds no state to a message and always knows its body size.
  The contract of \<open>Message_Sequence\<close> holds of it, so a request parser does not depend on how the
  stream was cut into reads, and it reads back what \<open>str\<close> writes.
\<close>

definition request_calculate :: "http_message \<Rightarrow> http_message res" where
  "request_calculate m =
     (if state m \<noteq> BODY_PENDING then Inl AssertFail
      else if take 4 (first_line m) = ''GET '' \<or> take 5 (first_line m) = ''HEAD ''
      then set_expected_body_size True 0 m
      else if take 5 (first_line m) = ''POST ''
      then rbind (has_header ''Content-Length'' m) (\<lambda>known.
        if \<not> known then Inl (RuntimeError ''HTTPRequest: does not support chunked requests'')
        else rbind (get_header_value ''Content-Length'' m) (\<lambda>v.
             rbind (myatoi v 10) (\<lambda>n.
               set_expected_body_size True (nat (n mod 2 ^ 64)) m)))
      else Inl (RuntimeError (''Cannot handle HTTP method: '' @ first_line m)))"

definition request_read_complex :: "string \<Rightarrow> http_message \<Rightarrow> (nat \<times> http_message) res" where
  "request_read_complex str m = Inl (RuntimeError ''HTTPRequest: does not support chunked requests'')"

definition request_eof_in_body :: "http_message \<Rightarrow> bool res" where
  "request_eof_in_body m = Inl (RuntimeError ''HTTPRequest: got EOF in middle of body'')"

definition is_head :: "http_message \<Rightarrow> bool res" where
  "is_head m =
     (if state_code (state m) \<le> state_code FIRST_LINE_PENDING then Inl AssertFail
      else Inr (take 5 (first_line m) = ''HEAD ''))"

definition HTTPRequest :: "unit http_class" where
  "HTTPRequest =
     \<lparr>new_message = http_message_new, calculate_expected_body_size = request_calculate,
      read_in_complex_body = request_read_complex, eof_in_body = request_eof_in_body\<rparr>"

type_synonym request_parser = "http_message message_sequence"

definition request_parser_new :: request_parser where
  "request_parser_new =
     \<lparr>buffer = '''', complete_messages = [], message_in_progress = http_message_new\<rparr>"

text \<open>\<open>HTTPRequestParser\<close> has nothing to initialize.\<close>

definition request_initialize :: "request_parser \<Rightarrow> request_parser res" where
  "request_initialize s = Inr s"

definition request_parse :: "string \<Rightarrow> request_parser \<Rightarrow> request_parser res option" where
  "request_parse = parse HTTPRequest request_initialize"

section \<open>A request meets the contract\<close>

lemma set_expected_body_size_shape:
  "set_expected_body_size known n m = Inr m' \<longleftrightarrow>
     state m = BODY_PENDING \<and> m' = m\<lparr>expected_body_size_pair := (known, n)\<rparr>"
  by (auto simp: set_expected_body_size_def)

lemma request_calculate_shape:
  "request_calculate m = Inr m' \<Longrightarrow> \<exists>n. m' = m\<lparr>expected_body_size_pair := (True, n)\<rparr>"
  by (auto simp: request_calculate_def rbind_Inr_iff set_expected_body_size_shape split: if_splits)

interpretation request: message_class HTTPRequest request_initialize "\<lambda>m. False" "\<lambda>m. m"
proof (unfold_locales, goal_cases)
  case 1
  then show ?case by (simp add: HTTPRequest_def http_message_new_def)
next
  case (6 m m')
  then show ?case using request_calculate_shape [of m m'] by (auto simp: HTTPRequest_def)
qed (simp_all add: request_initialize_def)

lemma settled_id [simp]: "settled_sequence (\<lambda>m. m) s = s"
  by (simp add: settled_sequence_def settled_def)

lemma rmap_id [simp]: "rmap (\<lambda>x. x) r = r"
  by (cases r) simp_all

lemma settled_id_fun: "settled_sequence (\<lambda>m. m) = (\<lambda>s. s)"
  by (rule ext) simp

lemma outcome_id: "map_option (rmap (settled_sequence (\<lambda>m. m))) r = r"
  by (cases r) (simp_all add: settled_id_fun)

lemma request_parser_new_ok:
  "message_ok (\<lambda>m. False) (message_in_progress request_parser_new) \<and> held_input request_parser_new = 0"
  by (simp add: request_parser_new_def http_message_new_def message_ok_def held_input_def)

section \<open>Requests that read back\<close>

text \<open>
  A complete request as the parser itself produces them: a method it handles, header lines with
  a colon-free name and a value that is not blank, no carriage return in a line, and a body of
  the announced size.
\<close>

definition request_wf :: "http_message \<Rightarrow> bool" where
  "request_wf m \<longleftrightarrow>
     state m = COMPLETE \<and> line_ok (first_line m) \<and>
     list_all (\<lambda>h. header_wf h \<and> line_ok (header_str h)) (headers m) \<and>
     request_calculate (m\<lparr>expected_body_size_pair := (False, 2 ^ 64 - 1), body := '''', state := BODY_PENDING\<rparr>) =
       Inr (m\<lparr>expected_body_size_pair := (True, length (body m)), body := '''', state := BODY_PENDING\<rparr>)"

text \<open>The parsed form of a request: the body size is known.\<close>

definition sized :: "http_message \<Rightarrow> http_message" where
  "sized m = m\<lparr>expected_body_size_pair := (True, length (body m))\<rparr>"

lemma request_loop_str:
  assumes wf: "request_wf m" and new: "message_in_progress s = http_message_new"
    and str: "message_str m = Inr text" and buf: "buffer s = text @ rest"
  shows "parse_loop HTTPRequest request_initialize s =
    parse_loop HTTPRequest request_initialize (s\<lparr>buffer := rest,
      complete_messages := complete_messages s @ [sized m]\<rparr>)"
proof -
  let ?m = "m\<lparr>expected_body_size_pair := (True, length (body m)), body := '''', state := BODY_PENDING\<rparr>"
  have buf': "buffer s = first_line m @ CRLF @ headers_str (headers m) @ CRLF @ (body m @ rest)"
    using str wf buf by (simp add: message_str_def request_wf_def)
  have calc: "calculate_expected_body_size HTTPRequest ((message_in_progress s)\<lparr>first_line := first_line m,
      headers := headers (message_in_progress s) @ headers m, state := BODY_PENDING\<rparr>) = Inr ?m"
  proof -
    have "(message_in_progress s)\<lparr>first_line := first_line m,
        headers := headers (message_in_progress s) @ headers m, state := BODY_PENDING\<rparr> =
        m\<lparr>expected_body_size_pair := (False, 2 ^ 64 - 1), body := '''', state := BODY_PENDING\<rparr>"
      by (simp add: new http_message_new_def)
    then show ?thesis using wf by (simp add: HTTPRequest_def request_wf_def)
  qed
  have "parse_loop HTTPRequest request_initialize s =
      parse_loop HTTPRequest request_initialize (s\<lparr>buffer := body m @ rest, message_in_progress := ?m\<rparr>)"
    by (rule request.loop_head [OF _ _ _ buf' _ _ calc])
      (use wf in \<open>simp_all add: new http_message_new_def request_initialize_def request_wf_def list_all_iff\<close>)
  also have "\<dots> = parse_loop HTTPRequest request_initialize (s\<lparr>buffer := rest,
      complete_messages := complete_messages s @ [?m\<lparr>body := body m, state := COMPLETE\<rparr>],
      message_in_progress := new_message HTTPRequest\<rparr>)"
    by (subst request.loop_known_body [of _ ?m "body m" rest]) simp_all
  also have "?m\<lparr>body := body m, state := COMPLETE\<rparr> = sized m"
    using wf by (simp add: sized_def request_wf_def)
  also have "s\<lparr>buffer := rest, complete_messages := complete_messages s @ [sized m],
      message_in_progress := new_message HTTPRequest\<rparr> =
      s\<lparr>buffer := rest, complete_messages := complete_messages s @ [sized m]\<rparr>"
    using new by (simp add: HTTPRequest_def)
  finally show ?thesis .
qed

lemma request_loop_strs:
  assumes "list_all request_wf ms" and "message_in_progress s = http_message_new"
    and "buffer s = concat (map (\<lambda>m. projr (message_str m)) ms)"
  shows "parse_loop HTTPRequest request_initialize s =
    Some (Inr (s\<lparr>buffer := '''', complete_messages := complete_messages s @ map sized ms\<rparr>))"
  using assms
proof (induction ms arbitrary: s)
  case Nil
  then show ?case
    using request.loop_idle [of s] by (simp add: http_message_new_def)
next
  case (Cons m ms)
  have str: "message_str m = Inr (projr (message_str m))"
    using Cons.prems(1) by (simp add: request_wf_def message_str_def)
  have "parse_loop HTTPRequest request_initialize s =
      parse_loop HTTPRequest request_initialize (s\<lparr>buffer := concat (map (\<lambda>m. projr (message_str m)) ms),
        complete_messages := complete_messages s @ [sized m]\<rparr>)"
    by (rule request_loop_str [OF _ _ str]) (use Cons.prems in simp_all)
  then show ?case
    using Cons by simp
qed

section \<open>Properties\<close>

text \<open>
  C12: the request parser reads back what \<open>str\<close> writes. Any nonempty sequence of
  well-formed complete requests, pipelined on one connection, is parsed as exactly these
  requests, in order, with every byte used and nothing left in progress.
\<close>

theorem request_roundtrip:
  assumes "ms \<noteq> []" and "list_all request_wf ms"
  shows "request_parse (concat (map (\<lambda>m. projr (message_str m)) ms)) request_parser_new =
    Some (Inr (request_parser_new\<lparr>complete_messages := map sized ms\<rparr>))"
proof -
  let ?t = "concat (map (\<lambda>m. projr (message_str m)) ms)"
  have "?t \<noteq> ''''"
    using assms by (cases ms) (auto simp: request_wf_def message_str_def CRLF_def)
  then have "request_parse ?t request_parser_new =
      parse_loop HTTPRequest request_initialize (more_input ?t request_parser_new)"
    by (simp add: request_parse_def request.parse_nonempty)
  also have "\<dots> = Some (Inr ((more_input ?t request_parser_new)\<lparr>buffer := '''',
      complete_messages := complete_messages (more_input ?t request_parser_new) @ map sized ms\<rparr>))"
    by (rule request_loop_strs) (use assms in \<open>simp_all add: request_parser_new_def\<close>)
  finally show ?thesis
    by (simp add: request_parser_new_def more_input_def)
qed

definition sample_get :: http_message where
  "sample_get =
     \<lparr>expected_body_size_pair = (True, 0), first_line = ''GET / HTTP/1.1'',
      headers = [\<lparr>header_key = ''Host'', header_value = ''a.example''\<rparr>], body = '''', state = COMPLETE\<rparr>"

definition sample_post :: http_message where
  "sample_post =
     \<lparr>expected_body_size_pair = (True, 3), first_line = ''POST /run HTTP/1.1'',
      headers = [\<lparr>header_key = ''content-length'', header_value = ''3''\<rparr>], body = ''a=b'', state = COMPLETE\<rparr>"

lemma sample_get_wf: "request_wf sample_get"
  by (simp add: request_wf_def sample_get_def line_ok_def header_wf_def header_str_def
      request_calculate_def set_expected_body_size_def)

lemma sample_post_wf: "request_wf sample_post"
proof -
  have "canonical ''content-length'' = canonical ''Content-Length''"
    by (simp add: canonical_def http_to_lower_def char_of_def bit_0)
  moreover have "myatoi ''3'' 10 = Inr 3"
    by code_simp
  ultimately show ?thesis
    by (simp add: request_wf_def sample_post_def line_ok_def header_wf_def header_str_def
        request_calculate_def set_expected_body_size_def has_header_def has_header_in_iff
        get_header_value_def get_header_value_in_find)
qed

lemma sample_requests_wf: "list_all request_wf [sample_get, sample_post]"
  by (simp add: sample_get_wf sample_post_wf)

lemma request_roundtrip_witness:
  "request_parse (concat (map (\<lambda>m. projr (message_str m)) [sample_get, sample_post])) request_parser_new =
    Some (Inr (request_parser_new\<lparr>complete_messages := map sized [sample_get, sample_post]\<rparr>))"
  by (rule request_roundtrip) (simp_all only: sample_requests_wf list.distinct not_False_eq_True)

text \<open>
  The request parser does not depend on how the stream was cut into
  reads. Given the pieces of a stream below 4 GiB one read after another, it always returns, and
  with the same queue of requests, the same request in progress and the same unparsed bytes, or
  the same exception, as if all of it had arrived at once.
\<close>

theorem request_segmentation:
  assumes "parts \<noteq> []" and "list_all (\<lambda>part. part \<noteq> '''') parts"
    and "length (concat parts) < 2 ^ 32 - 2"
  shows "parse_pieces HTTPRequest request_initialize parts request_parser_new =
      request_parse (concat parts) request_parser_new \<and>
    request_parse (concat parts) request_parser_new \<noteq> None"
proof -
  have len: "held_input request_parser_new + length (concat parts) < INPUT_LIMIT"
    using assms(3) request_parser_new_ok by (simp add: INPUT_LIMIT_def)
  have ne: "concat parts \<noteq> ''''"
    using assms(1,2) by (cases parts) auto
  show ?thesis
    using request.parse_segmentation [OF assms(1), of request_parser_new] assms(2) len
      request_parser_new_ok request.parse_returns [of request_parser_new "concat parts", OF _ len ne]
    by (auto simp: request_parse_def outcome_id list_all_iff)
qed

lemma request_segmentation_witness:
  "parse_pieces HTTPRequest request_initialize [''GET / HT'', ''TP/1.1'', CRLF] request_parser_new =
     request_parse (concat [''GET / HT'', ''TP/1.1'', CRLF]) request_parser_new \<and>
   request_parse (concat [''GET / HT'', ''TP/1.1'', CRLF]) request_parser_new \<noteq> None"
  by (rule request_segmentation) (simp_all add: CRLF_def)

end
