(* ===== verification/Chunked_Parser.thy ===== *)
theory Chunked_Parser
  imports Http_Message
begin

text \<open>
  The body parsers of \<open>src/src/http/body_parser.hh\<close> and \<open>chunked_parser.cc\<close>. A parser is told of
  every piece of the stream and answers whether all of it belongs to the body (\<open>npos\<close>, here
  \<^const>\<open>None\<close>) or how many of its bytes do. The chunk size is a \<^typ>\<open>u32\<close>: it is cut to 32 bits when
  it is read, and \<open>current_chunk_size_ + 2\<close> wraps around. The stream counters \<open>parsed_so_far\<close> and
  \<open>acked_so_far\<close> are 64 bits wide in the source and numbers here.
\<close>

datatype chunk_state = CHUNK_HDR | CHUNK | TRAILER

record chunked_body_parser =
  parser_buffer :: string
  current_chunk_size :: u32
  acked_so_far :: nat
  parsed_so_far :: nat
  chunk_state :: chunk_state
  trailers_enabled :: bool

definition chunked_new :: "bool \<Rightarrow> chunked_body_parser" where
  "chunked_new t_trailers_enabled =
     \<lparr>parser_buffer = '''', current_chunk_size = 0, acked_so_far = 0, parsed_so_far = 0,
      chunk_state = CHUNK_HDR, trailers_enabled = t_trailers_enabled\<rparr>"

definition get_chunk_size :: "string \<Rightarrow> u32 res" where
  "get_chunk_size chunk_hdr =
     rbind (substr chunk_hdr (size_sub (length chunk_hdr) 2) 2) (\<lambda>ending.
     if ending \<noteq> CRLF then Inl AssertFail
     else case (case str_find chunk_hdr '';'' of
                  None \<Rightarrow> str_find chunk_hdr CRLF | Some p \<Rightarrow> Some p) of
         None \<Rightarrow> Inl AssertFail
       | Some pos \<Rightarrow>
           rbind (substr chunk_hdr 0 pos) (\<lambda>hex_string.
           let hex = (case str_find hex_string '' '' of
                        None \<Rightarrow> hex_string | Some space_loc \<Rightarrow> take space_loc hex_string)
           in rbind (myatoi hex 16) (\<lambda>v. Inr (word_of_int v))))"

text \<open>The chunk header up to its CRLF at \<open>it\<close>.\<close>

definition header_step :: "nat \<Rightarrow> chunked_body_parser \<Rightarrow> chunked_body_parser res" where
  "header_step it p =
     rbind (substr (parser_buffer p) 0 (it + 2)) (\<lambda>hdr.
     rbind (get_chunk_size hdr) (\<lambda>sz.
     rbind (substr (parser_buffer p) (it + 2) (length (parser_buffer p))) (\<lambda>rest.
       Inr (p\<lparr>current_chunk_size := sz, chunk_state := (if sz = 0 then TRAILER else CHUNK),
              parsed_so_far := parsed_so_far p + (it + 2), parser_buffer := rest\<rparr>))))"

text \<open>A whole chunk and its CRLF.\<close>

definition chunk_step :: "chunked_body_parser \<Rightarrow> chunked_body_parser res" where
  "chunk_step p =
     rbind (substr (parser_buffer p) (unat (current_chunk_size p)) 2) (\<lambda>ending.
     if ending \<noteq> CRLF then Inl AssertFail
     else rbind (substr (parser_buffer p) (unat (current_chunk_size p + 2))
                   (length (parser_buffer p))) (\<lambda>rest.
       Inr (p\<lparr>chunk_state := CHUNK_HDR,
              parsed_so_far := parsed_so_far p + unat (current_chunk_size p + 2),
              parser_buffer := rest\<rparr>)))"

definition ack :: "nat \<Rightarrow> chunked_body_parser \<Rightarrow> chunked_body_parser" where
  "ack n p = p\<lparr>acked_so_far := acked_so_far p + n\<rparr>"

definition compute_ack_size ::
  "string \<Rightarrow> string \<Rightarrow> nat \<Rightarrow> chunked_body_parser \<Rightarrow> (nat option \<times> chunked_body_parser) res" where
  "compute_ack_size haystack needle input_size p =
     (case str_find haystack needle of
        Some loc \<Rightarrow>
          let p1 = p\<lparr>parsed_so_far := parsed_so_far p + (loc + length needle)\<rparr>
          in if parsed_so_far p1 \<le> acked_so_far p1 then Inl AssertFail
             else Inr (Some (parsed_so_far p1 - acked_so_far p1), p1)
      | None \<Rightarrow> Inr (None, ack input_size p))"

text \<open>\<open>while ( !parser_buffer_.empty() )\<close>, for an input of \<open>n\<close> bytes.\<close>

function chunk_loop :: "nat \<Rightarrow> chunked_body_parser \<Rightarrow> (nat option \<times> chunked_body_parser) res" where
  "chunk_loop n p =
     (if parser_buffer p = [] then Inr (None, ack n p)
      else case chunk_state p of
        CHUNK_HDR \<Rightarrow>
          (case str_find (parser_buffer p) CRLF of
             Some it \<Rightarrow> rbind (header_step it p) (chunk_loop n)
           | None \<Rightarrow> Inr (None, ack n p))
      | CHUNK \<Rightarrow>
          (if unat (current_chunk_size p + 2) \<le> length (parser_buffer p)
           then rbind (chunk_step p) (chunk_loop n)
           else Inr (None, ack n p))
      | TRAILER \<Rightarrow>
          compute_ack_size (parser_buffer p) (if trailers_enabled p then CRLF @ CRLF else CRLF) n p)"
  by pat_completeness auto

lemma header_step_buffer:
  "header_step it p = Inr p' \<Longrightarrow>
     it + 2 \<le> length (parser_buffer p) \<and> parser_buffer p' = drop (it + 2) (parser_buffer p) \<and>
     chunk_state p' \<noteq> CHUNK_HDR"
  by (auto simp: header_step_def substr_def rbind_Inr_iff split: if_splits)

lemma chunk_step_buffer:
  "chunk_step p = Inr p' \<Longrightarrow>
     parser_buffer p' = drop (unat (current_chunk_size p + 2)) (parser_buffer p) \<and>
     chunk_state p' = CHUNK_HDR"
  by (auto simp: chunk_step_def substr_def rbind_Inr_iff split: if_splits)

termination chunk_loop
proof (relation "measure (\<lambda>(n, p).
    2 * length (parser_buffer p) + (if chunk_state p = CHUNK then 1 else 0))", goal_cases)
  case (2 n p it p')
  then show ?case using header_step_buffer [of it p p'] by auto
next
  case (3 n p p')
  then show ?case using chunk_step_buffer [of p p'] by auto
qed simp

declare chunk_loop.simps [simp del]

definition chunked_read ::
  "string \<Rightarrow> chunked_body_parser \<Rightarrow> (nat option \<times> chunked_body_parser) res" where
  "chunked_read input_buffer p =
     chunk_loop (length input_buffer) (p\<lparr>parser_buffer := parser_buffer p @ input_buffer\<rparr>)"

text \<open>Both parsers of \<open>BodyParser\<close>, and their virtual calls.\<close>

datatype body_parser = Rule5 | Chunked chunked_body_parser

fun body_parser_read :: "string \<Rightarrow> body_parser \<Rightarrow> (nat option \<times> body_parser) res" where
  "body_parser_read str Rule5 = Inr (None, Rule5)"
| "body_parser_read str (Chunked p) = rbind (chunked_read str p) (\<lambda>(r, p'). Inr (r, Chunked p'))"

fun body_parser_eof :: "body_parser \<Rightarrow> bool" where
  "body_parser_eof Rule5 = True"
| "body_parser_eof (Chunked p) = True"

section \<open>The loop without its accounting\<close>

text \<open>
  \<open>chunk_core\<close> runs the state machine as far as the buffer allows: the flag says whether the end
  of the body was found. The loop is this plus the bookkeeping of acknowledged bytes.
\<close>

function chunk_core :: "chunked_body_parser \<Rightarrow> (bool \<times> chunked_body_parser) res" where
  "chunk_core p =
     (if parser_buffer p = [] then Inr (False, p)
      else case chunk_state p of
        CHUNK_HDR \<Rightarrow>
          (case str_find (parser_buffer p) CRLF of
             Some it \<Rightarrow> rbind (header_step it p) chunk_core
           | None \<Rightarrow> Inr (False, p))
      | CHUNK \<Rightarrow>
          (if unat (current_chunk_size p + 2) \<le> length (parser_buffer p)
           then rbind (chunk_step p) chunk_core
           else Inr (False, p))
      | TRAILER \<Rightarrow>
          (let needle = (if trailers_enabled p then CRLF @ CRLF else CRLF) in
           case str_find (parser_buffer p) needle of
             Some loc \<Rightarrow> Inr (True, p\<lparr>parsed_so_far := parsed_so_far p + (loc + length needle)\<rparr>)
           | None \<Rightarrow> Inr (False, p)))"
  by pat_completeness auto
termination
proof (relation "measure (\<lambda>p.
    2 * length (parser_buffer p) + (if chunk_state p = CHUNK then 1 else 0))", goal_cases)
  case (2 p it p')
  then show ?case using header_step_buffer [of it p p'] by auto
next
  case (3 p p')
  then show ?case using chunk_step_buffer [of p p'] by auto
qed simp

declare chunk_core.simps [simp del]

lemma chunk_loop_core:
  "chunk_loop n p =
     rbind (chunk_core p) (\<lambda>(found, q).
       if \<not> found then Inr (None, ack n q)
       else if parsed_so_far q \<le> acked_so_far q then Inl AssertFail
       else Inr (Some (parsed_so_far q - acked_so_far q), q))"
proof (induction n p rule: chunk_loop.induct)
  case (1 n p)
  show ?case
  proof (cases "parser_buffer p = []")
    case True
    then show ?thesis by (subst chunk_loop.simps, subst chunk_core.simps) simp
  next
    case False
    show ?thesis
    proof (cases "chunk_state p")
      case CHUNK_HDR
      show ?thesis
      proof (cases "str_find (parser_buffer p) CRLF")
        case None
        then show ?thesis using False CHUNK_HDR by (subst chunk_loop.simps, subst chunk_core.simps) simp
      next
        case (Some it)
        then show ?thesis
          using False CHUNK_HDR "1.IH"(1) [OF False CHUNK_HDR Some]
          by (subst chunk_loop.simps, subst chunk_core.simps) (cases "header_step it p"; simp)
      qed
    next
      case CHUNK
      then show ?thesis
        using False "1.IH"(2) [OF False CHUNK]
        by (subst chunk_loop.simps, subst chunk_core.simps) (cases "chunk_step p"; simp)
    next
      case TRAILER
      then show ?thesis
        using False by (subst chunk_loop.simps, subst chunk_core.simps)
          (simp add: compute_ack_size_def Let_def split: option.split)
    qed
  qed
qed

text \<open>More input, and another count of acknowledged bytes.\<close>

definition feed :: "string \<Rightarrow> chunked_body_parser \<Rightarrow> chunked_body_parser" where
  "feed t p = p\<lparr>parser_buffer := parser_buffer p @ t\<rparr>"

lemma feed_simps [simp]:
  "parser_buffer (feed t p) = parser_buffer p @ t" "chunk_state (feed t p) = chunk_state p"
  "current_chunk_size (feed t p) = current_chunk_size p" "acked_so_far (feed t p) = acked_so_far p"
  "parsed_so_far (feed t p) = parsed_so_far p" "trailers_enabled (feed t p) = trailers_enabled p"
  "feed u (feed t p) = feed (t @ u) p" "feed [] p = p"
  by (simp_all add: feed_def)

lemma header_step_feed:
  assumes "it + 2 \<le> length (parser_buffer p)"
  shows "header_step it (feed t p) = rbind (header_step it p) (\<lambda>p'. Inr (feed t p'))"
proof (cases "get_chunk_size (take (it + 2) (parser_buffer p))")
  case (Inl e)
  then show ?thesis using assms by (simp add: header_step_def substr_def)
next
  case (Inr sz)
  then show ?thesis using assms by (simp add: header_step_def substr_def feed_def)
qed

lemma chunk_step_feed:
  assumes "unat (current_chunk_size p + 2) \<le> length (parser_buffer p)"
    and "length (parser_buffer p @ t) < 2 ^ 32 - 2"
  shows "chunk_step (feed t p) = rbind (chunk_step p) (\<lambda>p'. Inr (feed t p'))"
proof (cases "unat (current_chunk_size p) < 2 ^ 32 - 2")
  case True
  then have "unat (current_chunk_size p + 2) = unat (current_chunk_size p) + 2"
    by (simp add: unat_word_ariths)
  then show ?thesis
    using assms(1) by (simp add: chunk_step_def substr_def feed_def)
next
  case False
  then have "length (parser_buffer p @ t) < unat (current_chunk_size p)"
    using assms(2) by simp
  then show ?thesis
    by (simp add: chunk_step_def substr_def)
qed

section \<open>The pieces of the stream do not matter\<close>

text \<open>What one run found stands, and where it stopped it resumes, when more input arrives.\<close>

lemma chunk_core_feed:
  assumes "length (parser_buffer p @ t) < 2 ^ 32 - 2"
  shows "chunk_core (feed t p) =
    rbind (chunk_core p) (\<lambda>(found, q). if found then Inr (True, feed t q) else chunk_core (feed t q))"
  using assms
proof (induction p rule: chunk_core.induct)
  case (1 p)
  show ?case
  proof (cases "parser_buffer p = []")
    case True
    then show ?thesis by (simp add: chunk_core.simps [of p])
  next
    case False
    show ?thesis
    proof (cases "chunk_state p")
      case CHUNK_HDR
      show ?thesis
      proof (cases "str_find (parser_buffer p) CRLF")
        case None
        then show ?thesis using False CHUNK_HDR by (simp add: chunk_core.simps [of p])
      next
        case (Some it)
        have it: "it + 2 \<le> length (parser_buffer p)"
          using str_find_bound [OF Some] by simp
        have l: "chunk_core (feed t p) = rbind (header_step it (feed t p)) chunk_core"
          using False CHUNK_HDR str_find_append [OF Some, of t] by (simp add: chunk_core.simps [of "feed t p"])
        have r: "chunk_core p = rbind (header_step it p) chunk_core"
          using False CHUNK_HDR Some by (simp add: chunk_core.simps [of p])
        show ?thesis
        proof (cases "header_step it p")
          case (Inl e)
          then show ?thesis using l r header_step_feed [OF it, of t] by simp
        next
          case (Inr p')
          have "length (parser_buffer p' @ t) < 2 ^ 32 - 2"
            using header_step_buffer [OF Inr] "1.prems" by simp
          then show ?thesis
            using l r header_step_feed [OF it, of t] Inr "1.IH"(1) [OF False CHUNK_HDR Some Inr] by simp
        qed
      qed
    next
      case CHUNK
      show ?thesis
      proof (cases "unat (current_chunk_size p + 2) \<le> length (parser_buffer p)")
        case far: False
        then show ?thesis using False CHUNK by (simp add: chunk_core.simps [of p])
      next
        case True
        have l: "chunk_core (feed t p) = rbind (chunk_step (feed t p)) chunk_core"
          using False CHUNK True by (simp add: chunk_core.simps [of "feed t p"])
        have r: "chunk_core p = rbind (chunk_step p) chunk_core"
          using False CHUNK True by (simp add: chunk_core.simps [of p])
        show ?thesis
        proof (cases "chunk_step p")
          case (Inl e)
          then show ?thesis using l r chunk_step_feed [OF True "1.prems"] by simp
        next
          case (Inr p')
          have "length (parser_buffer p' @ t) < 2 ^ 32 - 2"
            using chunk_step_buffer [OF Inr] "1.prems" by simp
          then show ?thesis
            using l r chunk_step_feed [OF True "1.prems"] Inr "1.IH"(2) [OF False CHUNK True Inr] by simp
        qed
      qed
    next
      case TRAILER
      let ?n = "if trailers_enabled p then CRLF @ CRLF else CRLF"
      show ?thesis
      proof (cases "str_find (parser_buffer p) ?n")
        case None
        then show ?thesis using False TRAILER by (simp add: chunk_core.simps [of p] Let_def)
      next
        case (Some loc)
        have "str_find (parser_buffer p @ t) ?n = Some loc"
          by (rule str_find_append [OF Some])
        then have "chunk_core (feed t p) =
            Inr (True, (feed t p)\<lparr>parsed_so_far := parsed_so_far p + (loc + length ?n)\<rparr>)"
          using False TRAILER by (simp add: chunk_core.simps [of "feed t p"] Let_def)
        moreover have "chunk_core p = Inr (True, p\<lparr>parsed_so_far := parsed_so_far p + (loc + length ?n)\<rparr>)"
          using False TRAILER Some by (simp add: chunk_core.simps [of p] Let_def)
        ultimately show ?thesis by (simp add: feed_def)
      qed
    qed
  qed
qed

text \<open>The loop accounts for every byte it takes out of the buffer.\<close>

lemma header_step_parsed:
  "header_step it p = Inr p' \<Longrightarrow> parsed_so_far p' = parsed_so_far p + (it + 2) \<and>
     acked_so_far p' = acked_so_far p \<and> trailers_enabled p' = trailers_enabled p"
  by (auto simp: header_step_def substr_def rbind_Inr_iff split: if_splits)

lemma chunk_step_parsed:
  "chunk_step p = Inr p' \<Longrightarrow> parsed_so_far p' = parsed_so_far p + unat (current_chunk_size p + 2) \<and>
     acked_so_far p' = acked_so_far p \<and> trailers_enabled p' = trailers_enabled p"
  by (auto simp: chunk_step_def substr_def rbind_Inr_iff split: if_splits)

lemma chunk_core_accounts:
  "chunk_core p = Inr (found, q) \<Longrightarrow>
     acked_so_far q = acked_so_far p \<and> parsed_so_far p \<le> parsed_so_far q \<and>
     (if found then parsed_so_far q \<le> parsed_so_far p + length (parser_buffer p) \<and>
        parsed_so_far p < parsed_so_far q
      else parsed_so_far q + length (parser_buffer q) = parsed_so_far p + length (parser_buffer p))"
proof (induction p arbitrary: q rule: chunk_core.induct)
  case (1 p)
  show ?case
  proof (cases "parser_buffer p = []")
    case True
    then show ?thesis using "1.prems" by (subst (asm) chunk_core.simps) auto
  next
    case False
    show ?thesis
    proof (cases "chunk_state p")
      case CHUNK_HDR
      show ?thesis
      proof (cases "str_find (parser_buffer p) CRLF")
        case None
        then show ?thesis
          using False CHUNK_HDR "1.prems" by (subst (asm) chunk_core.simps) auto
      next
        case (Some it)
        obtain p' where p': "header_step it p = Inr p'" and "chunk_core p' = Inr (found, q)"
          using False CHUNK_HDR Some "1.prems" by (subst (asm) chunk_core.simps) (auto simp: rbind_Inr_iff)
        from "1.IH"(1) [OF False CHUNK_HDR Some p' this(2)] show ?thesis
          using header_step_parsed [OF p'] header_step_buffer [OF p'] by (auto split: if_splits)
      qed
    next
      case CHUNK
      show ?thesis
      proof (cases "unat (current_chunk_size p + 2) \<le> length (parser_buffer p)")
        case far: False
        then show ?thesis
          using False CHUNK "1.prems" by (subst (asm) chunk_core.simps) auto
      next
        case True
        obtain p' where p': "chunk_step p = Inr p'" and rec: "chunk_core p' = Inr (found, q)"
          using False CHUNK True "1.prems" by (subst (asm) chunk_core.simps) (auto simp: rbind_Inr_iff)
        note IH = "1.IH"(2) [OF False CHUNK True p' rec]
        show ?thesis
          using IH chunk_step_parsed [OF p'] chunk_step_buffer [OF p'] True
          by (auto split: if_splits)
      qed
    next
      case TRAILER
      then show ?thesis
        using False "1.prems"
        by (subst (asm) chunk_core.simps)
          (auto simp: Let_def split: option.splits if_splits dest: str_find_bound)
    qed
  qed
qed

lemma chunk_core_early:
  "chunk_core (feed t p) = Inr (True, q) \<Longrightarrow>
     parsed_so_far q \<le> parsed_so_far p + length (parser_buffer p) \<Longrightarrow>
     length (parser_buffer p @ t) < 2 ^ 32 - 2 \<Longrightarrow> \<exists>q'. chunk_core p = Inr (True, q')"
proof (induction p arbitrary: q rule: chunk_core.induct)
  case (1 p)
  show ?case
  proof (cases "parser_buffer p = []")
    case True
    then show ?thesis
      using chunk_core_accounts [OF "1.prems"(1)] "1.prems"(2) by simp
  next
    case False
    show ?thesis
    proof (cases "chunk_state p")
      case CHUNK_HDR
      then obtain it p' where it: "str_find (parser_buffer p @ t) CRLF = Some it"
        and p': "header_step it (feed t p) = Inr p'" and rec: "chunk_core p' = Inr (True, q)"
        using False "1.prems"(1)
        by (subst (asm) chunk_core.simps) (auto simp: rbind_Inr_iff split: option.splits)
      have "it + 2 \<le> length (parser_buffer p)"
        using chunk_core_accounts [OF rec] header_step_parsed [OF p'] "1.prems"(2) by simp
      then have found: "str_find (parser_buffer p) CRLF = Some it" "it + 2 \<le> length (parser_buffer p)"
        using str_find_in_prefix [OF it] by simp_all
      then obtain p1 where p1: "header_step it p = Inr p1" "p' = feed t p1"
        using header_step_feed [OF found(2), of t] p' by (cases "header_step it p") auto
      have "\<exists>q'. chunk_core p1 = Inr (True, q')"
        using "1.IH"(1) [OF False CHUNK_HDR found(1) p1(1), of q] rec p1 "1.prems"(2,3)
          header_step_buffer [OF p1(1)] header_step_parsed [OF p1(1)] by simp
      then show ?thesis
        using False CHUNK_HDR found p1 by (simp add: chunk_core.simps [of p])
    next
      case CHUNK
      show ?thesis
      proof (cases "unat (current_chunk_size p + 2) \<le> length (parser_buffer p)")
        case far: False
        then obtain p' where "chunk_step (feed t p) = Inr p'" and "chunk_core p' = Inr (True, q)"
          using False CHUNK "1.prems"(1)
          by (subst (asm) chunk_core.simps) (auto simp: rbind_Inr_iff split: if_splits)
        then show ?thesis
          using chunk_core_accounts [of p' True q] chunk_step_parsed [of "feed t p" p'] far
            "1.prems"(2) by simp
      next
        case True
        obtain p' where p': "chunk_step (feed t p) = Inr p'" and rec: "chunk_core p' = Inr (True, q)"
          using False CHUNK True "1.prems"(1)
          by (subst (asm) chunk_core.simps) (auto simp: rbind_Inr_iff)
        then obtain p1 where p1: "chunk_step p = Inr p1" "p' = feed t p1"
          using chunk_step_feed [OF True "1.prems"(3)] by (cases "chunk_step p") auto
        have "\<exists>q'. chunk_core p1 = Inr (True, q')"
          using "1.IH"(2) [OF False CHUNK True p1(1), of q] rec p1 "1.prems"(2,3) True
            chunk_step_buffer [OF p1(1)] chunk_step_parsed [OF p1(1)] by simp
        then show ?thesis
          using False CHUNK True p1 by (simp add: chunk_core.simps [of p])
      qed
    next
      case TRAILER
      let ?n = "if trailers_enabled p then CRLF @ CRLF else CRLF"
      obtain loc where loc: "str_find (parser_buffer p @ t) ?n = Some loc"
        and q: "parsed_so_far q = parsed_so_far p + (loc + length ?n)"
        using False TRAILER "1.prems"(1)
        by (subst (asm) chunk_core.simps) (auto simp: Let_def split: option.splits)
      have "str_find (parser_buffer p) ?n = Some loc"
        by (rule str_find_in_prefix [OF loc]) (use q "1.prems"(2) in simp)
      then show ?thesis
        using False TRAILER by (simp add: chunk_core.simps [of p] Let_def)
    qed
  qed
qed

text \<open>
  Between two calls of \<open>read\<close>: everything received is accounted for, and the parser is stuck on
  what it has buffered.
\<close>

definition chunked_inv :: "chunked_body_parser \<Rightarrow> bool" where
  "chunked_inv p \<longleftrightarrow>
     acked_so_far p = parsed_so_far p + length (parser_buffer p) \<and> chunk_core p = Inr (False, p)"

lemma chunked_new_inv: "chunked_inv (chunked_new b)"
  by (simp add: chunked_inv_def chunked_new_def chunk_core.simps)

text \<open>The count of acknowledged bytes is not read before the end.\<close>

lemma header_step_acked:
  "header_step it (p\<lparr>acked_so_far := a\<rparr>) =
     rbind (header_step it p) (\<lambda>q. Inr (q\<lparr>acked_so_far := a\<rparr>))"
  by (cases "it + 2 \<le> length (parser_buffer p)";
      cases "get_chunk_size (take (it + 2) (parser_buffer p))")
    (auto simp: header_step_def substr_def)

lemma chunk_step_acked:
  "chunk_step (p\<lparr>acked_so_far := a\<rparr>) = rbind (chunk_step p) (\<lambda>q. Inr (q\<lparr>acked_so_far := a\<rparr>))"
  by (simp add: chunk_step_def substr_def)

lemma chunk_core_acked:
  "chunk_core (p\<lparr>acked_so_far := a\<rparr>) =
     rbind (chunk_core p) (\<lambda>(found, q). Inr (found, q\<lparr>acked_so_far := a\<rparr>))"
proof (induction p rule: chunk_core.induct)
  case (1 p)
  show ?case
  proof (cases "parser_buffer p = []")
    case True
    then show ?thesis by (simp add: chunk_core.simps [of p] chunk_core.simps [of "p\<lparr>acked_so_far := a\<rparr>"])
  next
    case False
    note unfold = chunk_core.simps [of p] chunk_core.simps [of "p\<lparr>acked_so_far := a\<rparr>"]
    show ?thesis
    proof (cases "chunk_state p")
      case CHUNK_HDR
      show ?thesis
      proof (cases "str_find (parser_buffer p) CRLF")
        case None
        then show ?thesis using False CHUNK_HDR by (simp add: unfold)
      next
        case (Some it)
        then show ?thesis
          using False CHUNK_HDR "1.IH"(1) [OF False CHUNK_HDR Some]
          by (cases "header_step it p") (simp_all add: unfold header_step_acked)
      qed
    next
      case CHUNK
      show ?thesis
      proof (cases "unat (current_chunk_size p + 2) \<le> length (parser_buffer p)")
        case far: False
        then show ?thesis using False CHUNK by (simp add: unfold)
      next
        case True
        then show ?thesis
          using False CHUNK "1.IH"(2) [OF False CHUNK True]
          by (cases "chunk_step p") (simp_all add: unfold chunk_step_acked)
      qed
    next
      case TRAILER
      then show ?thesis using False by (simp add: unfold Let_def split: option.split)
    qed
  qed
qed

lemma chunked_read_core:
  "chunked_read a p = chunk_loop (length a) (feed a p)"
  by (simp add: chunked_read_def feed_def)

lemma chunk_core_stuck:
  "chunk_core p = Inr (False, q) \<Longrightarrow> length (parser_buffer p) < 2 ^ 32 - 2 \<Longrightarrow> chunk_core q = Inr (False, q)"
  using chunk_core_feed [of p "[]"] by simp

text \<open>
  A call of \<open>read\<close> never fails the assertion on its accounting, and says how many of the bytes
  it was given belong to the body.
\<close>

lemma chunked_read_cases:
  assumes inv: "chunked_inv p" and len: "acked_so_far p + length a < 2 ^ 32 - 2"
  shows "chunked_read a p =
    (case chunk_core (feed a p) of
       Inl e \<Rightarrow> Inl e
     | Inr (False, q) \<Rightarrow> Inr (None, ack (length a) q)
     | Inr (True, q) \<Rightarrow> Inr (Some (parsed_so_far q - acked_so_far p), q))"
proof (cases "chunk_core (feed a p)")
  case (Inl e)
  then show ?thesis by (simp add: chunked_read_core chunk_loop_core)
next
  case (Inr r)
  obtain found q where r: "r = (found, q)" by fastforce
  note acc = chunk_core_accounts [OF Inr [unfolded r]]
  have "acked_so_far p < parsed_so_far q" if found
  proof (rule ccontr)
    assume "\<not> acked_so_far p < parsed_so_far q"
    then have "\<exists>q'. chunk_core p = Inr (True, q')"
      using chunk_core_early [of a p q] Inr r that inv len by (simp add: chunked_inv_def)
    then show False using inv by (simp add: chunked_inv_def)
  qed
  then show ?thesis
    using Inr r acc by (cases found) (simp_all add: chunked_read_core chunk_loop_core)
qed

lemma chunked_read_inv:
  assumes inv: "chunked_inv p" and len: "acked_so_far p + length a < 2 ^ 32 - 2"
    and read: "chunked_read a p = Inr (r, p')"
  shows "case r of None \<Rightarrow> chunked_inv p' \<and> acked_so_far p' = acked_so_far p + length a
    | Some k \<Rightarrow> 0 < k \<and> k \<le> length a"
proof -
  obtain found q where core: "chunk_core (feed a p) = Inr (found, q)"
    using read chunked_read_cases [OF inv len] by (cases "chunk_core (feed a p)") auto
  note acc = chunk_core_accounts [OF core]
  show ?thesis
  proof (cases found)
    case False
    have "chunk_core q = Inr (False, q)"
      using chunk_core_stuck [of "feed a p" q] core False inv len by (simp add: chunked_inv_def)
    then have "chunk_core (ack (length a) q) = Inr (False, ack (length a) q)"
      by (simp add: ack_def chunk_core_acked)
    then show ?thesis
      using read chunked_read_cases [OF inv len] core False acc inv
      by (auto simp: chunked_inv_def ack_def)
  next
    case True
    have "acked_so_far p < parsed_so_far q"
    proof (rule ccontr)
      assume "\<not> acked_so_far p < parsed_so_far q"
      then have "\<exists>q'. chunk_core p = Inr (True, q')"
        using chunk_core_early [of a p q] core True inv len by (simp add: chunked_inv_def)
      then show False using inv by (simp add: chunked_inv_def)
    qed
    then show ?thesis
      using read chunked_read_cases [OF inv len] core True acc inv by (auto simp: chunked_inv_def)
  qed
qed

text \<open>Reading in two pieces is reading the whole.\<close>

lemma chunked_read_append:
  assumes inv: "chunked_inv p" and len: "acked_so_far p + length (a @ b) < 2 ^ 32 - 2"
  shows "chunked_read (a @ b) p =
    rbind (chunked_read a p) (\<lambda>(r, q).
      case r of
        Some k \<Rightarrow> Inr (Some k, feed b q)
      | None \<Rightarrow> rbind (chunked_read b q) (\<lambda>(r', s).
          Inr (case r' of None \<Rightarrow> (None, s)
               | Some k \<Rightarrow> (Some (length a + k), s\<lparr>acked_so_far := acked_so_far p\<rparr>))))"
proof -
  have len_a: "acked_so_far p + length a < 2 ^ 32 - 2"
    using len by simp
  have split: "chunk_core (feed (a @ b) p) =
      rbind (chunk_core (feed a p)) (\<lambda>(found, q). if found then Inr (True, feed b q)
        else chunk_core (feed b q))"
    using chunk_core_feed [of "feed a p" b] inv len by (simp add: chunked_inv_def)
  note whole = chunked_read_cases [OF inv len] and first = chunked_read_cases [OF inv len_a]
  show ?thesis
  proof (cases "chunk_core (feed a p)")
    case (Inl e)
    then show ?thesis using whole first split by simp
  next
    case (Inr r)
    obtain found q where r: "r = (found, q)" by fastforce
    show ?thesis
    proof (cases found)
      case True
      then show ?thesis using whole first split Inr r by simp
    next
      case False
      let ?q = "ack (length a) q"
      have read: "chunked_read a p = Inr (None, ?q)"
        using first Inr r False by simp
      note acc = chunk_core_accounts [OF Inr [unfolded r]]
      have q: "chunked_inv ?q" "acked_so_far ?q = acked_so_far p + length a"
        using chunked_read_inv [OF inv len_a read] by simp_all
      have len_b: "acked_so_far ?q + length b < 2 ^ 32 - 2"
        using q len by simp
      have "feed b ?q = (feed b q)\<lparr>acked_so_far := acked_so_far p + length a\<rparr>"
        using acc by (simp add: feed_def ack_def)
      then have core: "chunk_core (feed b ?q) = rbind (chunk_core (feed b q))
          (\<lambda>(found, s). Inr (found, s\<lparr>acked_so_far := acked_so_far p + length a\<rparr>))"
        by (simp add: chunk_core_acked)
      note second = chunked_read_cases [OF q(1) len_b]
      show ?thesis
      proof (cases "chunk_core (feed b q)")
        case e: (Inl e)
        then show ?thesis using whole read second split core Inr r False by simp
      next
        case i: (Inr r2)
        obtain f s where r2: "r2 = (f, s)" by fastforce
        have s: "acked_so_far s = acked_so_far p"
          using chunk_core_accounts [OF i [unfolded r2]] acc by simp
        show ?thesis
        proof (cases f)
          case False
          then show ?thesis
            using whole read second split core Inr r \<open>\<not> found\<close> i r2 s by (simp add: ack_def add.assoc)
        next
          case True
          then have "chunked_read b ?q = Inr (Some (parsed_so_far s - (acked_so_far p + length a)),
              s\<lparr>acked_so_far := acked_so_far p + length a\<rparr>)"
            using second core i r2 q by simp
          moreover from this have "acked_so_far p + length a < parsed_so_far s"
            using chunked_read_inv [OF q(1) len_b] by fastforce
          ultimately show ?thesis
            using whole read split Inr r \<open>\<not> found\<close> i r2 True s by simp
        qed
      qed
    qed
  qed
qed

section \<open>Recognising the end of a body\<close>

text \<open>A chunked encoding as a sender writes it: sizes in lower-case hex, no extensions, no trailers.\<close>

definition hex_digit :: "nat \<Rightarrow> char" where
  "hex_digit d = (if d < 10 then char_of (48 + d) else char_of (87 + d))"

fun to_hex :: "nat \<Rightarrow> string" where
  "to_hex n = (if n < 16 then [hex_digit n] else to_hex (n div 16) @ [hex_digit (n mod 16)])"

declare to_hex.simps [simp del]

definition encode_chunk :: "string \<Rightarrow> string" where
  "encode_chunk d = to_hex (length d) @ CRLF @ d @ CRLF"

definition encode_body :: "string list \<Rightarrow> string" where
  "encode_body ds = concat (map encode_chunk ds) @ ''0'' @ CRLF @ CRLF"

lemma digit_value_hex: "d < 16 \<Longrightarrow> digit_value (hex_digit d) = Some d"
  by (simp add: digit_value_def hex_digit_def Let_def)

lemma to_hex_digits: "c \<in> set (to_hex n) \<Longrightarrow> is_digit_of 16 c"
proof (induction n arbitrary: c rule: to_hex.induct)
  case (1 n)
  then show ?case
    by (subst (asm) (2) to_hex.simps) (auto simp: is_digit_of_def digit_value_hex split: if_splits)
qed

lemma to_hex_nonempty [simp]: "to_hex n \<noteq> []"
  by (subst to_hex.simps) simp

lemma length_to_hex: "length (to_hex n) \<le> n + 1"
proof (induction n rule: to_hex.induct)
  case (1 n)
  show ?case
  proof (cases "n < 16")
    case True
    then show ?thesis by (subst to_hex.simps) simp
  next
    case False
    then have "length (to_hex n) = length (to_hex (n div 16)) + 1"
      by (subst to_hex.simps) simp
    also have "\<dots> \<le> n div 16 + 2"
      using 1 False by simp
    also have "\<dots> \<le> n + 1"
      using False by simp
    finally show ?thesis .
  qed
qed

lemma digits_value_to_hex: "digits_value 16 0 (to_hex n) = n"
proof (induction n rule: to_hex.induct)
  case (1 n)
  then show ?case
    by (subst to_hex.simps) (auto simp: digits_value_append digit_value_hex)
qed

lemma hex_digit_not_special:
  "is_digit_of 16 c \<Longrightarrow> \<not> is_space_char c \<and> c \<noteq> CHR ''-'' \<and> c \<noteq> CHR ''+'' \<and> c \<noteq> CHR ''x'' \<and>
     c \<noteq> CHR ''X'' \<and> c \<noteq> CHR '';'' \<and> c \<noteq> CHR '' '' \<and> c \<noteq> CHR 0x0D"
  by (auto simp: is_digit_of_def digit_value_def is_space_char_def Let_def split: if_splits)

lemma strip_hex_prefix_digits:
  "\<forall>c \<in> set s. is_digit_of 16 c \<Longrightarrow> strip_hex_prefix s = s"
  using hex_digit_not_special by (cases s rule: strip_hex_prefix.cases) auto

lemma myatoi_hex:
  assumes "n < 2 ^ 63"
  shows "myatoi (to_hex n) 16 = Inr (int n)"
proof -
  have dig: "\<forall>c \<in> set (to_hex n). is_digit_of 16 c"
    using to_hex_digits by blast
  obtain c cs where c: "to_hex n = c # cs"
    by (meson neq_Nil_conv to_hex_nonempty)
  then have hd: "is_digit_of 16 c"
    using dig by simp
  have "dropWhile is_space_char (to_hex n) = to_hex n"
    using hex_digit_not_special [OF hd] c by simp
  moreover have "strip_sign (to_hex n) = (False, to_hex n)"
    using hex_digit_not_special [OF hd] c by simp
  moreover have tw: "takeWhile (is_digit_of 16) (to_hex n) = to_hex n"
    using dig by (simp add: takeWhile_eq_all_conv)
  ultimately have "strtol (to_hex n) 16 = (int n, length (to_hex n), False)"
    using assms strip_hex_prefix_digits [OF dig] digits_value_to_hex [of n]
    by (simp add: strtol_def LONG_MAX_def LONG_MIN_def Let_def tw)
  then show ?thesis by (simp add: myatoi_def)
qed

lemma str_find_CRLF:
  "CHR 0x0D \<notin> set x \<Longrightarrow> str_find (x @ CRLF @ y) CRLF = Some (length x)"
proof (induction x)
  case Nil
  then show ?case by simp
next
  case (Cons c x)
  then show ?case by (auto simp: CRLF_def)
qed

lemma get_chunk_size_hex:
  assumes "n < 2 ^ 63"
  shows "get_chunk_size (to_hex n @ CRLF) = Inr (of_nat n)"
proof -
  have cr: "CHR 0x0D \<notin> set (to_hex n)" and semi: "CHR '';'' \<notin> set (to_hex n @ CRLF)"
    and blank: "CHR '' '' \<notin> set (to_hex n)"
    using to_hex_digits hex_digit_not_special by (fastforce simp: CRLF_def)+
  have "size_sub (length (to_hex n @ CRLF)) 2 = length (to_hex n)"
    using length_to_hex [of n] assms by (simp add: size_sub_def)
  then show ?thesis
    using str_find_CRLF [OF cr, of "[]"] myatoi_hex [OF assms] semi blank
    by (simp add: get_chunk_size_def substr_def str_find_char)
qed

lemma encode_chunk_read:
  assumes buf: "parser_buffer p = encode_chunk d @ rest" and st: "chunk_state p = CHUNK_HDR"
    and d: "d \<noteq> []" "length d < 2 ^ 32 - 2"
  shows "chunk_core p = chunk_core (p\<lparr>current_chunk_size := of_nat (length d),
    chunk_state := CHUNK_HDR, parsed_so_far := parsed_so_far p + length (encode_chunk d),
    parser_buffer := rest\<rparr>)"
proof -
  let ?h = "to_hex (length d)" and ?n = "of_nat (length d) :: u32"
  have cr: "CHR 0x0D \<notin> set ?h"
    using to_hex_digits hex_digit_not_special by blast
  have find: "str_find (parser_buffer p) CRLF = Some (length ?h)"
    using str_find_CRLF [OF cr, of "d @ CRLF @ rest"] by (simp add: buf encode_chunk_def)
  have un: "unat ?n = length d" "unat (?n + 2) = length d + 2" "?n \<noteq> 0"
    using d by (simp_all add: unat_of_nat_u32 unat_word_ariths)
      (use d unat_of_nat_u32 [of "length d"] in fastforce)
  let ?p1 = "p\<lparr>current_chunk_size := ?n, chunk_state := CHUNK,
      parsed_so_far := parsed_so_far p + (length ?h + 2), parser_buffer := d @ CRLF @ rest\<rparr>"
  have size: "get_chunk_size (?h @ CRLF) = Inr ?n"
    using d by (simp add: get_chunk_size_hex)
  have "header_step (length ?h) p = Inr ?p1"
    using size un by (simp add: header_step_def substr_def buf encode_chunk_def)
  then have 1: "chunk_core p = chunk_core ?p1"
    using find st by (subst chunk_core.simps) (simp add: buf encode_chunk_def)
  let ?p2 = "?p1\<lparr>chunk_state := CHUNK_HDR, parsed_so_far := parsed_so_far ?p1 + (length d + 2),
      parser_buffer := rest\<rparr>"
  have "chunk_step ?p1 = Inr ?p2"
    using un by (simp add: chunk_step_def substr_def)
  then have "chunk_core ?p1 = chunk_core ?p2"
    using un d(1) by (subst chunk_core.simps) simp
  then show ?thesis
    using 1 by (simp add: encode_chunk_def algebra_simps)
qed

lemma encode_end_read:
  assumes "parser_buffer p = ''0'' @ CRLF @ CRLF @ rest" and "chunk_state p = CHUNK_HDR"
    and "\<not> trailers_enabled p"
  shows "\<exists>q. chunk_core p = Inr (True, q) \<and> parsed_so_far q = parsed_so_far p + 5"
proof -
  have find: "str_find (parser_buffer p) CRLF = Some 1"
    using str_find_CRLF [of "''0''" "CRLF @ rest"] assms(1) by simp
  let ?p1 = "p\<lparr>current_chunk_size := 0, chunk_state := TRAILER,
      parsed_so_far := parsed_so_far p + 3, parser_buffer := CRLF @ rest\<rparr>"
  have "get_chunk_size (''0'' @ CRLF) = Inr 0"
    by code_simp
  then have "header_step 1 p = Inr ?p1"
    using assms(1) by (simp add: header_step_def substr_def CRLF_def)
  then have "chunk_core p = chunk_core ?p1"
    using find assms by (subst chunk_core.simps) simp
  also have "\<dots> = Inr (True, ?p1\<lparr>parsed_so_far := parsed_so_far ?p1 + 2\<rparr>)"
    using assms(3) by (subst chunk_core.simps) (simp add: CRLF_def)
  finally show ?thesis by simp
qed

lemma encode_body_read:
  assumes "parser_buffer p = encode_body ds @ rest" and "chunk_state p = CHUNK_HDR"
    and "\<not> trailers_enabled p" and "\<forall>d \<in> set ds. d \<noteq> [] \<and> length d < 2 ^ 32 - 2"
  shows "\<exists>q. chunk_core p = Inr (True, q) \<and>
    parsed_so_far q = parsed_so_far p + length (encode_body ds)"
  using assms
proof (induction ds arbitrary: p)
  case Nil
  then show ?case
    using encode_end_read [of p rest] by (simp add: encode_body_def)
next
  case (Cons d ds)
  have buf: "parser_buffer p = encode_chunk d @ encode_body ds @ rest"
    using Cons.prems(1) by (simp add: encode_body_def)
  let ?p = "p\<lparr>current_chunk_size := of_nat (length d),
    chunk_state := CHUNK_HDR, parsed_so_far := parsed_so_far p + length (encode_chunk d),
    parser_buffer := encode_body ds @ rest\<rparr>"
  have "chunk_core p = chunk_core ?p"
    by (rule encode_chunk_read [OF buf Cons.prems(2)]) (use Cons.prems(4) in simp_all)
  moreover obtain q where "chunk_core ?p = Inr (True, q)"
    and "parsed_so_far q = parsed_so_far ?p + length (encode_body ds)"
    using Cons.IH [of ?p] Cons.prems(3,4) by auto
  ultimately show ?case
    by (simp add: encode_body_def)
qed

lemma chunked_read_encoding:
  assumes "\<forall>d \<in> set ds. d \<noteq> []" and "length (encode_body ds @ rest) < 2 ^ 32 - 2"
  shows "\<exists>q. chunked_read (encode_body ds @ rest) (chunked_new False) =
    Inr (Some (length (encode_body ds)), q)"
proof -
  let ?p = "feed (encode_body ds @ rest) (chunked_new False)"
  have small: "length d < 2 ^ 32 - 2" if "d \<in> set ds" for d
  proof -
    have "length d \<le> length (encode_body ds)"
      using that by (induction ds) (auto simp: encode_body_def encode_chunk_def)
    then show ?thesis using assms(2) by simp
  qed
  obtain q where "chunk_core ?p = Inr (True, q)" "parsed_so_far q = length (encode_body ds)"
    using encode_body_read [of ?p ds rest] small assms(1) by (auto simp: chunked_new_def)
  then show ?thesis
    using chunked_read_cases [OF chunked_new_inv, of False "encode_body ds @ rest"] assms(2)
    by (simp add: chunked_new_def)
qed

section \<open>Properties\<close>

text \<open>
  C25: a chunked body ends where its sender ended it. Given the encoding of any
  list of nonempty chunks, followed by anything (the next response), a fresh parser without
  trailers claims exactly the bytes of the encoding and none of what follows, and no assertion
  fails, as long as the input stays below 4 GiB.
\<close>

theorem chunked_end_found:
  assumes "\<forall>d \<in> set ds. d \<noteq> []" and "length (encode_body ds @ rest) < 2 ^ 32 - 2"
  shows "\<exists>q. chunked_read (encode_body ds @ rest) (chunked_new False) =
    Inr (Some (length (encode_body ds)), q)"
  by (rule chunked_read_encoding [OF assms])

lemma chunked_end_found_witness:
  "\<exists>q. chunked_read (encode_body [''Wiki'', ''pedia''] @ ''HTTP'') (chunked_new False) =
    Inr (Some (length (encode_body [''Wiki'', ''pedia''])), q)"
proof (rule chunked_end_found)
  show "\<forall>d \<in> set [''Wiki'', ''pedia'']. d \<noteq> []" by simp
  have "length (encode_body [''Wiki'', ''pedia''] @ ''HTTP'') = 28" by code_simp
  then show "length (encode_body [''Wiki'', ''pedia''] @ ''HTTP'') < 2 ^ 32 - 2" by simp
qed

text \<open>
  Between reads, a chunked parser has accounted for every byte it was given,
  and the assertion in \<open>compute_ack_size\<close> cannot fail. From a state that satisfies this
  invariant, a read that does not end the body restores it, and one that does claims at least
  one and at most all of the bytes it was given; the invariant holds of a new parser.
\<close>

theorem chunked_accounting:
  "chunked_inv (chunked_new trailers) \<and>
   (chunked_inv p \<and> acked_so_far p + length a < 2 ^ 32 - 2 \<and> chunked_read a p = Inr (r, p') \<longrightarrow>
     (case r of None \<Rightarrow> chunked_inv p' \<and> acked_so_far p' = acked_so_far p + length a
      | Some k \<Rightarrow> 0 < k \<and> k \<le> length a))"
  using chunked_new_inv chunked_read_inv by blast

lemma chunked_accounting_witness:
  "\<exists>p'. chunked_read ''5'' (chunked_new False) = Inr (None, p') \<and> chunked_inv p' \<and> acked_so_far p' = 1"
proof -
  have "\<exists>p'. chunked_read ''5'' (chunked_new False) = Inr (None, p')"
    by (simp add: chunked_read_def chunked_new_def chunk_loop.simps CRLF_def)
  then obtain p' where r: "chunked_read ''5'' (chunked_new False) = Inr (None, p')" by blast
  have pre: "chunked_inv (chunked_new False)" "acked_so_far (chunked_new False) + length ''5'' < 2 ^ 32 - 2"
    using chunked_new_inv by (simp_all add: chunked_new_def)
  show ?thesis
    using chunked_accounting [of False "chunked_new False" "''5''" None p'] pre r
    by (simp add: chunked_new_def)
qed

end
