(* ===== verification/Http_Response.thy ===== *)
theory Http_Response
  imports Http_Request Chunked_Parser
begin

text \<open>
  \<open>HTTPResponse\<close> and \<open>HTTPResponseParser\<close> (\<open>src/src/http/http_response.cc\<close>,
  \<open>http_response_parser.cc\<close>): a response carries the request it answers and, when its size is not
  announced, a parser that finds the end of its body. The rules of RFC 2616 section 4.4 are
  \<open>response_calculate\<close>. A response meets the contract of \<open>Message_Sequence\<close>: the parser's
  answers do not depend on how the stream was cut.
\<close>

record http_response = http_message +
  request_of :: http_message
  body_parser :: "body_parser option"

definition http_response_new :: http_response where
  "http_response_new =
     \<lparr>expected_body_size_pair = (False, 2 ^ 64 - 1), first_line = '''', headers = [], body = '''',
      state = FIRST_LINE_PENDING, request_of = http_message_new, body_parser = None\<rparr>"

definition status_code :: "http_response \<Rightarrow> string res" where
  "status_code m =
     (if state_code (state m) \<le> state_code FIRST_LINE_PENDING then Inl AssertFail
      else rbind (split (first_line m) '' '') (\<lambda>tokens.
        if length tokens < 3
        then Inl (RuntimeError (''HTTPResponse: Invalid status line: '' @ first_line m))
        else Inr (tokens ! 1)))"

text \<open>\<open>status_code().at( 0 ) == '1' or ... or request_.is_head()\<close>, left to right.\<close>

definition bodiless :: "http_response \<Rightarrow> bool res" where
  "bodiless m =
     rbind (status_code m) (\<lambda>code.
       if code = '''' then Inl OutOfRange
       else if hd code = CHR ''1'' \<or> code = ''204'' \<or> code = ''304'' then Inr True
       else is_head (request_of m))"

text \<open>\<open>has_header( "Transfer-Encoding" ) and equivalent_strings( split( ... ).back(), "chunked" )\<close>.\<close>

definition chunked_coding :: "http_response \<Rightarrow> bool res" where
  "chunked_coding m =
     rbind (has_header ''Transfer-Encoding'' m) (\<lambda>te.
       if \<not> te then Inr False
       else rbind (get_header_value ''Transfer-Encoding'' m) (\<lambda>v.
            rbind (split v '','') (\<lambda>codings. equivalent_strings (last codings) ''chunked'')))"

definition byteranges :: "http_response \<Rightarrow> bool res" where
  "byteranges m =
     rbind (has_header ''Content-Type'' m) (\<lambda>ct.
       if \<not> ct then Inr False
       else rbind (get_header_value ''Content-Type'' m) (\<lambda>v.
            rbind (MIMEType v) (\<lambda>mt. equivalent_strings (mime_type mt) ''multipart/byteranges'')))"

definition response_rules_3_to_5 :: "http_response \<Rightarrow> http_response res" where
  "response_rules_3_to_5 m =
     rbind (has_header ''Transfer-Encoding'' m) (\<lambda>te.
     rbind (if te then Inr False else has_header ''Content-Length'' m) (\<lambda>rule3.
       if rule3
       then rbind (get_header_value ''Content-Length'' m) (\<lambda>v.
            rbind (myatoi v 10) (\<lambda>n. set_expected_body_size True (nat (n mod 2 ^ 64)) m))
       else rbind (byteranges m) (\<lambda>rule4.
         if rule4
         then rbind (set_expected_body_size False (2 ^ 64 - 1) m) (\<lambda>_.
           Inl (RuntimeError ''HTTPResponse: unsupported multipart/byteranges without Content-Length''))
         else rbind (set_expected_body_size False (2 ^ 64 - 1) m) (\<lambda>m1.
           Inr (m1\<lparr>body_parser := Some Rule5\<rparr>)))))"

definition response_calculate :: "http_response \<Rightarrow> http_response res" where
  "response_calculate m =
     (if state m \<noteq> BODY_PENDING then Inl AssertFail
      else rbind (bodiless m) (\<lambda>rule1.
        if rule1 then set_expected_body_size True 0 m
        else rbind (chunked_coding m) (\<lambda>rule2.
          if rule2
          then rbind (set_expected_body_size False (2 ^ 64 - 1) m) (\<lambda>m1.
               rbind (has_header ''Trailer'' m1) (\<lambda>trailers.
                 Inr (m1\<lparr>body_parser := Some (Chunked (chunked_new trailers))\<rparr>)))
          else response_rules_3_to_5 m)))"

definition response_read_complex :: "string \<Rightarrow> http_response \<Rightarrow> (nat \<times> http_response) res" where
  "response_read_complex str m =
     (if state m \<noteq> BODY_PENDING then Inl AssertFail
      else case body_parser m of
        None \<Rightarrow> Inl AssertFail
      | Some bp \<Rightarrow> rbind (body_parser_read str bp) (\<lambda>(amount_parsed, bp').
          let m1 = m\<lparr>body_parser := Some bp'\<rparr> in
          case amount_parsed of
            None \<Rightarrow> Inr (length str, m1\<lparr>body := body m1 @ str\<rparr>)
          | Some n \<Rightarrow> rbind (substr str 0 n) (\<lambda>part.
              Inr (n, m1\<lparr>body := body m1 @ part, state := COMPLETE\<rparr>))))"

definition response_eof_in_body :: "http_response \<Rightarrow> bool res" where
  "response_eof_in_body m =
     (case body_parser m of
        Some bp \<Rightarrow> Inr (body_parser_eof bp)
      | None \<Rightarrow> Inl (RuntimeError ''HTTPResponse: got EOF in middle of body''))"

definition set_request :: "http_message \<Rightarrow> http_response \<Rightarrow> http_response res" where
  "set_request request m =
     (if state m \<noteq> FIRST_LINE_PENDING then Inl AssertFail
      else Inr (m\<lparr>request_of := request\<rparr>))"

definition HTTPResponse where
  "HTTPResponse =
     \<lparr>new_message = http_response_new, calculate_expected_body_size = response_calculate,
      read_in_complex_body = response_read_complex, eof_in_body = response_eof_in_body\<rparr>"

section \<open>HTTPResponseParser\<close>

record response_parser = "http_response message_sequence" +
  requests :: "http_message list"

definition response_parser_new :: response_parser where
  "response_parser_new =
     \<lparr>buffer = '''', complete_messages = [], message_in_progress = http_response_new,
      requests = []\<rparr>"

definition response_initialize :: "response_parser \<Rightarrow> response_parser res" where
  "response_initialize s =
     (case requests s of
        [] \<Rightarrow> Inl (RuntimeError ''HTTPResponseParser: response without matching request'')
      | r # rs \<Rightarrow> rbind (set_request r (message_in_progress s)) (\<lambda>m.
          Inr (s\<lparr>message_in_progress := m, requests := rs\<rparr>)))"

definition new_request_arrived :: "http_message \<Rightarrow> response_parser \<Rightarrow> response_parser" where
  "new_request_arrived request s = s\<lparr>requests := requests s @ [request]\<rparr>"

definition response_parse :: "string \<Rightarrow> response_parser \<Rightarrow> response_parser res option" where
  "response_parse = parse HTTPResponse response_initialize"

section \<open>A response meets the contract\<close>

definition response_inv :: "http_response \<Rightarrow> bool" where
  "response_inv m \<longleftrightarrow>
     (case body_parser m of
        None \<Rightarrow> False
      | Some Rule5 \<Rightarrow> True
      | Some (Chunked p) \<Rightarrow> chunked_inv p \<and> acked_so_far p = length (body m))"

text \<open>A complete response without the parser that found its end.\<close>

definition without_parser :: "http_response \<Rightarrow> http_response" where
  "without_parser m = m\<lparr>body_parser := None\<rparr>"

lemma set_request_frame:
  "set_request r m = Inr m' \<Longrightarrow> m' = m\<lparr>request_of := r\<rparr> \<and> state m' = state m \<and> body m' = body m \<and>
     headers m' = headers m \<and> expected_body_size_pair m' = expected_body_size_pair m"
  by (cases m) (auto simp: set_request_def split: if_splits)

lemma response_calculate_shape:
  assumes "response_calculate m = Inr m'"
  shows "(\<exists>n. m' = m\<lparr>expected_body_size_pair := (True, n)\<rparr>) \<or>
    (\<exists>bp. m' = m\<lparr>expected_body_size_pair := (False, 2 ^ 64 - 1), body_parser := Some bp\<rparr> \<and>
      (bp = Rule5 \<or> (\<exists>t. bp = Chunked (chunked_new t))))"
proof -
  have rules: "(\<exists>n. m' = m\<lparr>expected_body_size_pair := (True, n)\<rparr>) \<or>
      m' = m\<lparr>expected_body_size_pair := (False, 2 ^ 64 - 1), body_parser := Some Rule5\<rparr>"
    if "response_rules_3_to_5 m = Inr m'"
    using that
    by (auto simp: response_rules_3_to_5_def rbind_Inr_iff set_expected_body_size_shape split: if_splits)
  show ?thesis
    using assms rules
    by (auto simp: response_calculate_def rbind_Inr_iff set_expected_body_size_shape split: if_splits)
qed

lemma chunked_new_acked: "acked_so_far (chunked_new t) = 0"
  by (simp add: chunked_new_def)

lemma response_read_law:
  assumes "state m = BODY_PENDING" and inv: "response_inv m"
    and len: "length (body m) + length u < INPUT_LIMIT"
    and read: "response_read_complex u m = Inr (n, m')"
  shows "if state m' = COMPLETE then n \<le> length u
    else state m' = BODY_PENDING \<and> n = length u \<and> response_inv m' \<and>
      length (body m') = length (body m) + length u \<and>
      expected_body_size_pair m' = expected_body_size_pair m"
proof -
  obtain bp where bp: "body_parser m = Some bp"
    using inv by (cases "body_parser m") (auto simp: response_inv_def)
  show ?thesis
  proof (cases bp)
    case Rule5
    then show ?thesis
      using assms(1) read bp by (auto simp: response_read_complex_def response_inv_def Let_def)
  next
    case (Chunked p)
    then have p: "chunked_inv p" "acked_so_far p = length (body m)"
      using inv bp by (simp_all add: response_inv_def)
    obtain r p' where r: "chunked_read u p = Inr (r, p')"
      using read assms(1) bp Chunked
      by (cases "chunked_read u p") (auto simp: response_read_complex_def)
    have len': "acked_so_far p + length u < 2 ^ 32 - 2"
      using len p by (simp add: INPUT_LIMIT_def)
    show ?thesis
      using chunked_read_inv [OF p(1) len' r] read assms(1) bp Chunked r p
      by (cases r)
        (auto simp: response_read_complex_def response_inv_def substr_def Let_def)
  qed
qed

lemma response_read_append:
  assumes st: "state m = BODY_PENDING" and inv: "response_inv m"
    and len: "length (body m) + length (u @ t) < INPUT_LIMIT"
  shows "rmap (\<lambda>(n, m'). (n, settled without_parser m')) (response_read_complex (u @ t) m) =
    rmap (\<lambda>(n, m'). (n, settled without_parser m'))
      (rbind (response_read_complex u m) (\<lambda>(n, m').
        if state m' = COMPLETE then Inr (n, m')
        else rmap (\<lambda>(k, m2). (n + k, m2)) (response_read_complex t m')))"
proof -
  obtain bp where bp: "body_parser m = Some bp"
    using inv by (cases "body_parser m") (auto simp: response_inv_def)
  show ?thesis
  proof (cases bp)
    case Rule5
    then show ?thesis
      using st bp by (simp add: response_read_complex_def Let_def)
  next
    case (Chunked p)
    then have p: "chunked_inv p" "acked_so_far p = length (body m)"
      using inv bp by (simp_all add: response_inv_def)
    have len': "acked_so_far p + length (u @ t) < 2 ^ 32 - 2"
      "acked_so_far p + length u < 2 ^ 32 - 2"
      using len p by (simp_all add: INPUT_LIMIT_def)
    note app = chunked_read_append [OF p(1) len'(1)]
    show ?thesis
    proof (cases "chunked_read u p")
      case (Inl e)
      then show ?thesis
        using app st bp Chunked by (simp add: response_read_complex_def)
    next
      case (Inr rq)
      obtain r q where rq: "rq = (r, q)" by fastforce
      note first = chunked_read_inv [OF p(1) len'(2) Inr [unfolded rq]]
      show ?thesis
      proof (cases r)
        case (Some k)
        then show ?thesis
          using app Inr rq st bp Chunked first
          by (simp add: response_read_complex_def substr_def settled_def without_parser_def Let_def)
      next
        case None
        have q: "chunked_inv q" "acked_so_far q + length t < 2 ^ 32 - 2"
          using first None len'(1) by simp_all
        show ?thesis
        proof (cases "chunked_read t q")
          case (Inl e)
          then show ?thesis
            using app Inr rq st bp Chunked None
            by (simp add: response_read_complex_def Let_def)
        next
          case second: (Inr rs)
          obtain r2 s where rs: "rs = (r2, s)" by fastforce
          note snd_inv = chunked_read_inv [OF q second [unfolded rs]]
          show ?thesis
            using app Inr rq st bp Chunked None second rs snd_inv
            by (cases r2)
              (simp_all add: response_read_complex_def substr_def settled_def without_parser_def Let_def)
        qed
      qed
    qed
  qed
qed

lemma HTTPResponse_simps:
  "new_message HTTPResponse = http_response_new"
  "calculate_expected_body_size HTTPResponse = response_calculate"
  "read_in_complex_body HTTPResponse = response_read_complex"
  "eof_in_body HTTPResponse = response_eof_in_body"
  by (simp_all add: HTTPResponse_def)

interpretation response: message_class HTTPResponse response_initialize response_inv without_parser
proof (unfold_locales, goal_cases)
  case 1
  then show ?case by (simp add: HTTPResponse_def http_response_new_def)
next
  case (2 s s')
  then show ?case
    by (auto simp: response_initialize_def rbind_Inr_iff split: list.splits dest: set_request_frame)
next
  case (3 b s)
  then show ?case
    by (cases "requests s") (simp_all add: response_initialize_def set_request_def)
next
  case (4 ms s)
  then show ?case
    by (cases "requests s") (simp_all add: response_initialize_def set_request_def)
next
  case (5 s s')
  then show ?case
    by (auto simp: response_initialize_def set_request_def rbind_Inr_iff split: list.splits if_splits)
next
  case (6 m m')
  then have "response_calculate m = Inr m'"
    by (simp add: HTTPResponse_def)
  from response_calculate_shape [OF this] 6 show ?case
    by (auto simp: response_inv_def chunked_new_inv chunked_new_acked)
next
  case (7 m u n m')
  then show ?case using response_read_law [of m u n m'] by (simp add: HTTPResponse_def)
next
  case (8 m u t)
  then show ?case using response_read_append [of m u t] unfolding HTTPResponse_simps by blast
qed (simp_all add: without_parser_def)

section \<open>Responses whose end can be found\<close>

text \<open>The response as it stands when its headers are complete.\<close>

definition at_headers_end :: "http_response \<Rightarrow> http_response" where
  "at_headers_end m =
     m\<lparr>expected_body_size_pair := (False, 2 ^ 64 - 1), body := '''', state := BODY_PENDING,
       body_parser := None\<rparr>"

text \<open>
  A response as a server sends it: lines without carriage return, and a body whose end the
  headers determine, either by its size or by the chunked coding.
\<close>

definition framed :: "http_response \<Rightarrow> bool" where
  "framed m \<longleftrightarrow>
     line_ok (first_line m) \<and> list_all (\<lambda>h. header_wf h \<and> line_ok (header_str h)) (headers m) \<and>
     (response_calculate (at_headers_end m) =
        Inr ((at_headers_end m)\<lparr>expected_body_size_pair := (True, length (body m))\<rparr>) \<or>
      response_calculate (at_headers_end m) =
        Inr ((at_headers_end m)\<lparr>body_parser := Some (Chunked (chunked_new False))\<rparr>) \<and>
      (\<exists>ds. list_all (\<lambda>d. d \<noteq> '''') ds \<and> body m = encode_body ds))"

definition response_text :: "http_response \<Rightarrow> string" where
  "response_text m = first_line m @ CRLF @ headers_str (headers m) @ CRLF @ body m"

text \<open>What of a complete response its users look at.\<close>

definition same_response :: "http_response \<Rightarrow> http_response \<Rightarrow> bool" where
  "same_response m m' \<longleftrightarrow>
     first_line m' = first_line m \<and> headers m' = headers m \<and> body m' = body m \<and>
     request_of m' = request_of m \<and> state m' = COMPLETE"

lemma response_loop_head:
  assumes "framed m" and "message_in_progress s = http_response_new"
    and "requests s = request_of m # rs" and "buffer s = response_text m @ rest"
    and "response_calculate (at_headers_end m) = Inr m1"
  shows "parse_loop HTTPResponse response_initialize s =
    parse_loop HTTPResponse response_initialize
      (s\<lparr>requests := rs, buffer := body m @ rest, message_in_progress := m1\<rparr>)"
proof -
  let ?s1 = "s\<lparr>message_in_progress := http_response_new\<lparr>request_of := request_of m\<rparr>, requests := rs\<rparr>"
  have init: "response_initialize s = Inr ?s1"
    using assms(2,3) by (simp add: response_initialize_def set_request_def http_response_new_def)
  have m0: "(message_in_progress ?s1)\<lparr>first_line := first_line m,
      headers := headers (message_in_progress ?s1) @ headers m, state := BODY_PENDING\<rparr> = at_headers_end m"
    by (cases m) (simp add: at_headers_end_def http_response_new_def)
  have buf: "buffer s = first_line m @ CRLF @ headers_str (headers m) @ CRLF @ (body m @ rest)"
    using assms(4) by (simp add: response_text_def)
  have calc: "calculate_expected_body_size HTTPResponse ((message_in_progress ?s1)\<lparr>first_line := first_line m,
      headers := headers (message_in_progress ?s1) @ headers m, state := BODY_PENDING\<rparr>) = Inr m1"
    unfolding m0 using assms(5) by (simp add: HTTPResponse_simps)
  have "parse_loop HTTPResponse response_initialize s = parse_loop HTTPResponse response_initialize
      (?s1\<lparr>buffer := body m @ rest, message_in_progress := m1\<rparr>)"
    by (rule response.loop_head [OF _ init _ buf _ _ calc])
      (use assms(1,2) in \<open>simp_all add: http_response_new_def framed_def list_all_iff\<close>)
  then show ?thesis by simp
qed

lemma response_loop_text:
  assumes framed: "framed m" and new: "message_in_progress s = http_response_new"
    and req: "requests s = request_of m # rs" and buf: "buffer s = response_text m @ rest"
    and len: "length (buffer s) < INPUT_LIMIT"
  shows "\<exists>m'. same_response m m' \<and> parse_loop HTTPResponse response_initialize s =
    parse_loop HTTPResponse response_initialize (s\<lparr>requests := rs, buffer := rest,
      complete_messages := complete_messages s @ [m'], message_in_progress := http_response_new\<rparr>)"
proof -
  consider (known) "response_calculate (at_headers_end m) =
        Inr ((at_headers_end m)\<lparr>expected_body_size_pair := (True, length (body m))\<rparr>)"
    | (chunked) ds where "response_calculate (at_headers_end m) =
        Inr ((at_headers_end m)\<lparr>body_parser := Some (Chunked (chunked_new False))\<rparr>)"
      "list_all (\<lambda>d. d \<noteq> '''') ds" "body m = encode_body ds"
    using framed by (auto simp: framed_def)
  then show ?thesis
  proof cases
    case known
    let ?m1 = "(at_headers_end m)\<lparr>expected_body_size_pair := (True, length (body m))\<rparr>"
    let ?m2 = "?m1\<lparr>body := body m, state := COMPLETE\<rparr>"
    have shape: "state ?m1 = BODY_PENDING" "body ?m1 = ''''" "same_response m ?m2"
      by (cases m; simp add: at_headers_end_def same_response_def)+
    have "parse_loop HTTPResponse response_initialize s = parse_loop HTTPResponse response_initialize
        (s\<lparr>requests := rs, buffer := body m @ rest, message_in_progress := ?m1\<rparr>)"
      by (rule response_loop_head [OF framed new req buf known])
    also have "\<dots> = parse_loop HTTPResponse response_initialize
        (s\<lparr>requests := rs, buffer := rest, complete_messages := complete_messages s @ [?m2],
           message_in_progress := http_response_new\<rparr>)"
      by (subst response.loop_known_body [of _ ?m1 "body m" rest])
        (simp_all add: shape HTTPResponse_simps)
    finally show ?thesis
      using shape(3) new by (intro exI [of _ ?m2]) simp
  next
    case chunked
    let ?m1 = "(at_headers_end m)\<lparr>body_parser := Some (Chunked (chunked_new False))\<rparr>"
    have shape: "state ?m1 = BODY_PENDING" "body ?m1 = ''''" "fst (expected_body_size_pair ?m1) = False"
        "body_parser ?m1 = Some (Chunked (chunked_new False))"
      by (cases m; simp add: at_headers_end_def)+
    have small: "length (encode_body ds @ rest) < 2 ^ 32 - 2"
      using len buf chunked(3) by (simp add: response_text_def INPUT_LIMIT_def)
    obtain q where q: "chunked_read (encode_body ds @ rest) (chunked_new False) =
        Inr (Some (length (encode_body ds)), q)"
      using chunked_read_encoding [OF _ small] chunked(2) by (auto simp: list_all_iff)
    let ?m2 = "?m1\<lparr>body_parser := Some (Chunked q), body := body m, state := COMPLETE\<rparr>"
    have same: "same_response m ?m2"
      by (cases m) (simp add: at_headers_end_def same_response_def)
    have st2: "state ?m2 = COMPLETE"
      using same by (simp add: same_response_def)
    have read: "read_in_body response_read_complex (body m @ rest) ?m1 = Inr (length (body m), ?m2)"
      using shape q chunked(3)
      by (simp add: read_in_body_def body_size_is_known_def response_read_complex_def substr_def Let_def)
    have "parse_loop HTTPResponse response_initialize s = parse_loop HTTPResponse response_initialize
        (s\<lparr>requests := rs, buffer := body m @ rest, message_in_progress := ?m1\<rparr>)"
      by (rule response_loop_head [OF framed new req buf chunked(1)])
    also have "\<dots> = parse_loop HTTPResponse response_initialize
        (s\<lparr>requests := rs, buffer := rest, message_in_progress := ?m2\<rparr>)"
      by (subst parse_loop.simps)
        (simp add: parsing_step_def body_step_def shape(1) read st2 pop_bytes_le HTTPResponse_simps
          del: read_in_body_def)
    also have "\<dots> = parse_loop HTTPResponse response_initialize
        (s\<lparr>requests := rs, buffer := rest, complete_messages := complete_messages s @ [?m2],
           message_in_progress := http_response_new\<rparr>)"
      by (subst parse_loop.simps) (simp add: parsing_step_def st2 HTTPResponse_simps)
    finally show ?thesis
      using same new by (intro exI [of _ ?m2]) simp
  qed
qed

lemma response_loop_texts:
  assumes "list_all framed ms" and "message_in_progress s = http_response_new"
    and "requests s = map request_of ms" and "buffer s = concat (map response_text ms)"
    and "length (buffer s) < INPUT_LIMIT"
  shows "\<exists>ms'. list_all2 same_response ms ms' \<and> parse_loop HTTPResponse response_initialize s =
    Some (Inr (s\<lparr>requests := [], buffer := '''', complete_messages := complete_messages s @ ms',
      message_in_progress := http_response_new\<rparr>))"
  using assms
proof (induction ms arbitrary: s)
  case Nil
  have "s\<lparr>requests := [], buffer := '''', message_in_progress := http_response_new\<rparr> = s"
    using Nil.prems by (cases s) simp
  then show ?case
    using response.loop_idle [of s] Nil.prems by (simp add: http_response_new_def)
next
  case (Cons m ms)
  obtain m' where m': "same_response m m'"
    and loop: "parse_loop HTTPResponse response_initialize s = parse_loop HTTPResponse response_initialize
      (s\<lparr>requests := map request_of ms, buffer := concat (map response_text ms),
        complete_messages := complete_messages s @ [m'], message_in_progress := http_response_new\<rparr>)"
    using response_loop_text [of m s "map request_of ms" "concat (map response_text ms)"] Cons.prems
    by auto
  let ?s = "s\<lparr>requests := map request_of ms, buffer := concat (map response_text ms),
        complete_messages := complete_messages s @ [m'], message_in_progress := http_response_new\<rparr>"
  obtain ms' where "list_all2 same_response ms ms'" and "parse_loop HTTPResponse response_initialize ?s =
      Some (Inr (?s\<lparr>requests := [], buffer := '''', complete_messages := complete_messages ?s @ ms',
        message_in_progress := http_response_new\<rparr>))"
    using Cons.IH [of ?s] Cons.prems by auto
  then show ?case
    using loop m' by (intro exI [of _ "m' # ms'"]) simp
qed

lemma response_parser_new_ok:
  "message_ok response_inv (message_in_progress (response_parser_new\<lparr>requests := rs\<rparr>)) \<and>
     held_input (response_parser_new\<lparr>requests := rs\<rparr>) = 0"
  by (simp add: response_parser_new_def http_response_new_def message_ok_def held_input_def)

section \<open>Properties\<close>


text \<open>
  C26: nor does the response parser depend on how the stream was cut. With any
  requests waiting for their answers, the pieces of a stream below 4 GiB give the same result as
  the whole (the same exception, or the same responses, unparsed bytes and message in progress,
  up to the buffer of a body parser that has done its work), and parsing always returns.
\<close>

theorem response_segmentation:
  assumes "parts \<noteq> []" and "list_all (\<lambda>part. part \<noteq> '''') parts"
    and "length (concat parts) < 2 ^ 32 - 2"
  shows "map_option (rmap (settled_sequence without_parser))
      (parse_pieces HTTPResponse response_initialize parts (response_parser_new\<lparr>requests := rs\<rparr>)) =
    map_option (rmap (settled_sequence without_parser))
      (response_parse (concat parts) (response_parser_new\<lparr>requests := rs\<rparr>)) \<and>
    response_parse (concat parts) (response_parser_new\<lparr>requests := rs\<rparr>) \<noteq> None"
proof -
  let ?s = "response_parser_new\<lparr>requests := rs\<rparr>"
  have len: "held_input ?s + length (concat parts) < INPUT_LIMIT"
    using assms(3) response_parser_new_ok [of rs] by (simp add: INPUT_LIMIT_def)
  have ne: "concat parts \<noteq> ''''"
    using assms(1,2) by (cases parts) auto
  obtain r where r: "parse HTTPResponse response_initialize (concat parts) ?s = Some r"
    using response.parse_returns [OF conjunct1 [OF response_parser_new_ok] len ne] by blast
  show ?thesis
    using response.parse_segmentation [OF assms(1) _ conjunct1 [OF response_parser_new_ok] len]
      assms(2) r unfolding response_parse_def by (simp add: list_all_iff)
qed

lemma response_segmentation_witness:
  "map_option (rmap (settled_sequence without_parser))
      (parse_pieces HTTPResponse response_initialize [''HTTP/1.1 2'', ''00 OK'', CRLF]
        (response_parser_new\<lparr>requests := [sample_get]\<rparr>)) =
    map_option (rmap (settled_sequence without_parser))
      (response_parse (concat [''HTTP/1.1 2'', ''00 OK'', CRLF]) (response_parser_new\<lparr>requests := [sample_get]\<rparr>)) \<and>
    response_parse (concat [''HTTP/1.1 2'', ''00 OK'', CRLF]) (response_parser_new\<lparr>requests := [sample_get]\<rparr>) \<noteq> None"
  by (rule response_segmentation) (simp_all add: CRLF_def)

definition sample_ok :: http_response where
  "sample_ok =
     \<lparr>expected_body_size_pair = (False, 0), first_line = ''HTTP/1.1 200 OK'',
      headers = [\<lparr>header_key = ''CONTENT-LENGTH'', header_value = ''2''\<rparr>], body = ''ok'',
      state = COMPLETE, request_of = sample_get, body_parser = None\<rparr>"

definition sample_chunked :: http_response where
  "sample_chunked =
     \<lparr>expected_body_size_pair = (False, 0), first_line = ''HTTP/1.1 200 OK'',
      headers = [\<lparr>header_key = ''Transfer-Encoding'', header_value = ''gzip, Chunked''\<rparr>],
      body = encode_body [''Wiki'', ''pedia''], state = COMPLETE, request_of = sample_post, body_parser = None\<rparr>"

lemma sample_not_bodiless:
  "bodiless (at_headers_end sample_ok) = Inr False" "bodiless (at_headers_end sample_chunked) = Inr False"
proof -
  have "pieces (CHR '' '') ''HTTP/1.1 200 OK'' = [''HTTP/1.1'', ''200'', ''OK'']"
    by simp
  then have "split ''HTTP/1.1 200 OK'' '' '' = Inr [''HTTP/1.1'', ''200'', ''OK'']"
    using split_char [of "''HTTP/1.1 200 OK''" "CHR '' ''"] by simp
  then show "bodiless (at_headers_end sample_ok) = Inr False"
    "bodiless (at_headers_end sample_chunked) = Inr False"
    by (simp_all add: bodiless_def status_code_def at_headers_end_def sample_ok_def sample_chunked_def
        is_head_def sample_get_def sample_post_def)
qed

lemma sample_ok_framed: "framed sample_ok"
proof -
  have c: "canonical ''CONTENT-LENGTH'' = canonical ''Content-Length''"
      "canonical ''CONTENT-LENGTH'' \<noteq> canonical ''Transfer-Encoding''"
    by (simp_all add: canonical_def http_to_lower_def char_of_def bit_0)
  have n: "myatoi ''2'' 10 = Inr 2"
    by code_simp
  have "chunked_coding (at_headers_end sample_ok) = Inr False"
    using c by (simp add: chunked_coding_def has_header_def has_header_in_iff at_headers_end_def sample_ok_def)
  moreover have "response_rules_3_to_5 (at_headers_end sample_ok) =
      Inr ((at_headers_end sample_ok)\<lparr>expected_body_size_pair := (True, 2)\<rparr>)"
    using c n by (simp add: response_rules_3_to_5_def has_header_def has_header_in_iff at_headers_end_def
        sample_ok_def get_header_value_def get_header_value_in_find set_expected_body_size_def)
  ultimately have "response_calculate (at_headers_end sample_ok) =
      Inr ((at_headers_end sample_ok)\<lparr>expected_body_size_pair := (True, length (body sample_ok))\<rparr>)"
    using sample_not_bodiless(1)
    by (simp add: response_calculate_def at_headers_end_def sample_ok_def)
  then show ?thesis
    by (simp add: framed_def) (simp add: sample_ok_def line_ok_def header_wf_def header_str_def)
qed

lemma sample_chunked_framed: "framed sample_chunked"
proof -
  have c: "canonical ''Transfer-Encoding'' \<noteq> canonical ''Trailer''"
      "pieces (CHR '','') ''gzip, Chunked'' = [''gzip'', '' Chunked'']"
      "canonical '' Chunked'' = canonical ''chunked''"
    by (simp_all add: canonical_def http_to_lower_def char_of_def bit_0)
  have "split ''gzip, Chunked'' '','' = Inr [''gzip'', '' Chunked'']"
    using split_char [of "''gzip, Chunked''" "CHR '',''"] c(2) by simp
  then have "chunked_coding (at_headers_end sample_chunked) = Inr True"
    using c(3) by (simp add: chunked_coding_def has_header_def has_header_in_iff at_headers_end_def
        sample_chunked_def get_header_value_def get_header_value_in_find equivalent_strings_canonical)
  then have "response_calculate (at_headers_end sample_chunked) =
      Inr ((at_headers_end sample_chunked)\<lparr>body_parser := Some (Chunked (chunked_new False))\<rparr>)"
    using sample_not_bodiless(2) c(1)
    by (simp add: response_calculate_def at_headers_end_def sample_chunked_def set_expected_body_size_def
        has_header_def has_header_in_iff)
  moreover have "list_all (\<lambda>d. d \<noteq> '''') [''Wiki'', ''pedia''] \<and>
      body sample_chunked = encode_body [''Wiki'', ''pedia'']"
    by (simp add: sample_chunked_def)
  ultimately show ?thesis
    unfolding framed_def
    by (intro conjI disjI2 exI [of _ "[''Wiki'', ''pedia'']"])
      (simp_all add: sample_chunked_def line_ok_def header_wf_def header_str_def)
qed


end
