(* ===== verification/Cloud.thy ===== *)
theory Cloud
  imports Ezio "HOL-Library.List_Lexorder" "HOL-Library.Char_ord"
begin

text \<open>
  The cloud resource accounting of \<open>src/src/cloud\<close>: \<open>CloudResource\<close> and \<open>CloudResourceList\<close>, the
  process-wide list of the resources the proxied application invoked or was refused. The static
  \<open>std::map\<close> is an association list in the order of its keys, so that \<open>operator[]\<close> can insert a
  missing vector where the container would. What is printed to \<open>cerr\<close> by the report functions is
  their result; \<open>time(0)\<close> is an argument.

  \<open>invoke_resource\<close> holds the mutex for its whole body, so calls from several threads are one
  sequence of the operations below. \<open>assign_resource_id\<close> takes no lock; the model runs it, too,
  as one step.
\<close>

record cloud_resource =
  resource_type :: string
  serial_identifier :: string
  id_counter :: int
  time_at_invoke :: int
  invoke :: bool

definition CloudResource :: "string \<Rightarrow> int \<Rightarrow> bool \<Rightarrow> int \<Rightarrow> cloud_resource" where
  "CloudResource resource_name counter invoked now =
     \<lparr>resource_type = resource_name, serial_identifier = '''', id_counter = counter,
      time_at_invoke = now, invoke = invoked\<rparr>"

text \<open>What the constructor prints.\<close>

definition record_block :: "cloud_resource \<Rightarrow> string" where
  "record_block r =
     ''--- '' @ resource_type r @ '' '' @ to_string_int (id_counter r) @ '' blocked because '' @
     ''limit exceeded---'' @ [CHR 0x0A]"

definition record_invoke :: "cloud_resource \<Rightarrow> string" where
  "record_invoke r =
     ''--- '' @ resource_type r @ '' '' @ to_string_int (id_counter r) @ '' invoked!---'' @ [CHR 0x0A]"

definition resource_report :: "cloud_resource \<Rightarrow> string" where
  "resource_report r = (if invoke r then record_invoke r else record_block r)"

definition set_serial_identifier :: "string \<Rightarrow> cloud_resource \<Rightarrow> cloud_resource" where
  "set_serial_identifier identifier r = r\<lparr>serial_identifier := identifier\<rparr>"

definition is_serial_identifier_empty :: "cloud_resource \<Rightarrow> bool" where
  "is_serial_identifier_empty r \<longleftrightarrow> serial_identifier r = ''''"

definition get_serial_identifier :: "cloud_resource \<Rightarrow> string" where
  "get_serial_identifier r =
     (if is_serial_identifier_empty r then to_string_int (id_counter r) else serial_identifier r)"

definition resource_metadata :: "cloud_resource \<Rightarrow> string" where
  "resource_metadata r = resource_type r @ ''- id: '' @ get_serial_identifier r @ [CHR 0x0A]"

section \<open>CloudResourceList\<close>

type_synonym cloud_list = "(string \<times> cloud_resource list) list"

definition INVOKE_LIMIT :: nat where "INVOKE_LIMIT = 2"

text \<open>\<open>find\<close>, the effect of \<open>operator[]\<close> on the map, and its value.\<close>

definition lookup :: "string \<Rightarrow> cloud_list \<Rightarrow> cloud_resource list" where
  "lookup k m = (case map_of m k of None \<Rightarrow> [] | Some v \<Rightarrow> v)"

fun subscript :: "string \<Rightarrow> cloud_list \<Rightarrow> cloud_list" where
  "subscript k [] = [(k, [])]"
| "subscript k ((k', v) # m) =
     (if k = k' then (k', v) # m
      else if k < k' then (k, []) # (k', v) # m
      else (k', v) # subscript k m)"

fun store :: "string \<Rightarrow> cloud_resource list \<Rightarrow> cloud_list \<Rightarrow> cloud_list" where
  "store k v [] = []"
| "store k v ((k', v') # m) = (if k = k' then (k, v) # m else (k', v') # store k v m)"

definition push_back :: "string \<Rightarrow> cloud_resource \<Rightarrow> cloud_list \<Rightarrow> cloud_list" where
  "push_back k r m = (let m1 = subscript k m in store k (lookup k m1 @ [r]) m1)"

text \<open>The loop over \<open>{ "invoked", "blocked" }\<close>; a category is only looked at if it is there.\<close>

definition get_total_resource_count :: "cloud_list \<Rightarrow> int" where
  "get_total_resource_count m =
     int (length (lookup ''invoked'' m)) + int (length (lookup ''blocked'' m))"

definition invoke_resource :: "int \<Rightarrow> string \<Rightarrow> cloud_list \<Rightarrow> bool \<times> cloud_list" where
  "invoke_resource now type m =
     (let m1 = subscript ''invoked'' m in
      if length (lookup ''invoked'' m1) < INVOKE_LIMIT
      then (True, push_back ''invoked'' (CloudResource type (get_total_resource_count m1) True now) m1)
      else (False, push_back ''blocked'' (CloudResource type (get_total_resource_count m1) False now) m1))"

fun invoke_loop :: "(nat \<Rightarrow> int) \<Rightarrow> nat \<Rightarrow> nat \<Rightarrow> string \<Rightarrow> cloud_list \<Rightarrow> int \<Rightarrow> int \<times> cloud_list" where
  "invoke_loop now i 0 type m invoke_count = (invoke_count, m)"
| "invoke_loop now i (Suc n) type m invoke_count =
     (case invoke_resource (now i) type m of (invoked, m1) \<Rightarrow>
        invoke_loop now (Suc i) n type m1 (if invoked then invoke_count + 1 else invoke_count))"

definition invoke_many_resources ::
  "(nat \<Rightarrow> int) \<Rightarrow> string \<Rightarrow> int \<Rightarrow> cloud_list \<Rightarrow> int \<times> cloud_list" where
  "invoke_many_resources now type count_requested m =
     invoke_loop now 0 (nat count_requested) type m 0"

text \<open>The first resource of the type without an identifier gets this one.\<close>

fun assign_first :: "string \<Rightarrow> string \<Rightarrow> cloud_resource list \<Rightarrow> cloud_resource list option" where
  "assign_first resource_name instance_id [] = None"
| "assign_first resource_name instance_id (r # rs) =
     (if resource_type r = resource_name \<and> is_serial_identifier_empty r
      then Some (set_serial_identifier instance_id r # rs)
      else map_option (\<lambda>rs'. r # rs') (assign_first resource_name instance_id rs))"

definition assign_resource_id :: "string \<Rightarrow> string \<Rightarrow> cloud_list \<Rightarrow> unit res \<times> cloud_list" where
  "assign_resource_id resource_name instance_id m =
     (let m1 = subscript ''invoked'' m in
      case assign_first resource_name instance_id (lookup ''invoked'' m1) of
        Some rs \<Rightarrow> (Inr (), store ''invoked'' rs m1)
      | None \<Rightarrow>
          (Inl (RuntimeError ''Failed to assign resource id to available cloud resource.''), m1))"

section \<open>Reports\<close>

text \<open>The loop of \<open>terminate_all_ec2s\<close>: the flag says whether the heading was printed.\<close>

fun terminate_lines :: "cloud_resource list \<Rightarrow> bool \<Rightarrow> bool \<times> string" where
  "terminate_lines [] printed = (printed, '''')"
| "terminate_lines (r # rs) printed =
     (if resource_type r = ''ec2'' then
        (case terminate_lines rs True of (p, out) \<Rightarrow>
           (p, (if printed then ''''
                else ''To terminate all EC2 instances run: '' @ [CHR 0x0A] @
                     ''aws ec2 terminate-instances --instance-ids '') @
               get_serial_identifier r @ '' '' @ out))
      else terminate_lines rs printed)"

definition terminate_all_ec2s :: "cloud_list \<Rightarrow> string" where
  "terminate_all_ec2s m =
     (case terminate_lines (lookup ''invoked'' m) False of (printed, out) \<Rightarrow>
        out @ (if printed then [CHR 0x0A] else ''''))"

definition print_resources :: "cloud_list \<Rightarrow> string" where
  "print_resources m =
     ''--- printing final state of cloud resources for this application ---'' @ [CHR 0x0A] @
     concat (map (\<lambda>(category, rs).
       '' --- '' @ category @ '' --- '' @ [CHR 0x0A] @ concat (map resource_metadata rs)) m) @
     terminate_all_ec2s m @
     (if m = [] then ''There are no lingering resources!'' @ [CHR 0x0A] else '''')"

section \<open>The list as a map\<close>

lemma map_of_subscript: "map_of (subscript k m) k' =
    (if k' = k then Some (case map_of m k of None \<Rightarrow> [] | Some v \<Rightarrow> v) else map_of m k')"
  if "sorted_wrt (<) (map fst m)"
  using that
proof (induction k m rule: subscript.induct)
  case (1 k)
  then show ?case by simp
next
  case (2 k k1 v m)
  have "map_of m k = None" if "k < k1"
  proof -
    have "k \<notin> fst ` set m"
      using 2(2) that by (fastforce simp: list.set_map)
    then show ?thesis by (simp add: map_of_eq_None_iff)
  qed
  then show ?case
    using 2 by auto
qed

lemma subscript_sorted: "sorted_wrt (<) (map fst m) \<Longrightarrow> sorted_wrt (<) (map fst (subscript k m))"
proof (induction k m rule: subscript.induct)
  case (1 k)
  then show ?case by simp
next
  case (2 k k1 v m)
  have keys: "fst ` set (subscript k m) = insert k (fst ` set m)"
    by (induction k m rule: subscript.induct) auto
  show ?case
    using 2 keys by (auto simp: list.set_map)
qed

lemma store_keys: "map fst (store k v m) = map fst m"
  by (induction k v m rule: store.induct) auto

lemma map_of_store: "map_of (store k v m) k' = (if k' = k \<and> k \<in> dom (map_of m) then Some v else map_of m k')"
  by (induction k v m rule: store.induct) auto

text \<open>The two operations as updates of the map they represent.\<close>

definition cloud_ok :: "cloud_list \<Rightarrow> bool" where
  "cloud_ok m \<longleftrightarrow> sorted_wrt (<) (map fst m)"

lemma lookup_subscript: "cloud_ok m \<Longrightarrow> lookup k' (subscript k m) = lookup k' m"
  by (auto simp: lookup_def cloud_ok_def map_of_subscript split: option.splits)

lemma lookup_push_back:
  "cloud_ok m \<Longrightarrow> lookup k' (push_back k r m) = (if k' = k then lookup k m @ [r] else lookup k' m)"
  by (auto simp: push_back_def Let_def lookup_def cloud_ok_def map_of_store map_of_subscript
      split: option.splits)

lemma lookup_store:
  "cloud_ok m \<Longrightarrow> lookup k' (store k rs (subscript k m)) = (if k' = k then rs else lookup k' m)"
  by (auto simp: lookup_def cloud_ok_def map_of_store map_of_subscript split: option.splits)

lemma cloud_ok_ops [simp]:
  "cloud_ok m \<Longrightarrow> cloud_ok (subscript k m)"
  "cloud_ok m \<Longrightarrow> cloud_ok (store k rs m)"
  "cloud_ok m \<Longrightarrow> cloud_ok (push_back k r m)"
  by (simp_all add: cloud_ok_def subscript_sorted store_keys push_back_def Let_def)

lemma cloud_ok_Nil [simp]: "cloud_ok []"
  by (simp add: cloud_ok_def)

lemma lookup_Nil [simp]: "lookup k [] = []"
  by (simp add: lookup_def)

section \<open>Sequences of calls\<close>

datatype cloud_call = InvokeOne string | InvokeMany string int | AssignId string string

definition cloud_do :: "(nat \<Rightarrow> int) \<Rightarrow> cloud_call \<Rightarrow> cloud_list \<Rightarrow> cloud_list" where
  "cloud_do now c m =
     (case c of
        InvokeOne type \<Rightarrow> snd (invoke_resource (now 0) type m)
      | InvokeMany type n \<Rightarrow> snd (invoke_many_resources now type n m)
      | AssignId type i \<Rightarrow> snd (assign_resource_id type i m))"

fun cloud_run :: "(nat \<Rightarrow> int) \<Rightarrow> cloud_call list \<Rightarrow> cloud_list \<Rightarrow> cloud_list" where
  "cloud_run now [] m = m"
| "cloud_run now (c # cs) m = cloud_run now cs (cloud_do now c m)"

text \<open>How many invocations a call attempts.\<close>

fun attempts :: "cloud_call \<Rightarrow> nat" where
  "attempts (InvokeOne type) = 1"
| "attempts (InvokeMany type n) = nat n"
| "attempts (AssignId type i) = 0"

text \<open>After \<open>n\<close> attempts: the first two went through, and all are numbered in order.\<close>

definition cloud_inv :: "nat \<Rightarrow> cloud_list \<Rightarrow> bool" where
  "cloud_inv n m \<longleftrightarrow>
     cloud_ok m \<and>
     length (lookup ''invoked'' m) = min INVOKE_LIMIT n \<and>
     length (lookup ''blocked'' m) = n - INVOKE_LIMIT \<and>
     map id_counter (lookup ''invoked'' m @ lookup ''blocked'' m) = map int [0..<n] \<and>
     list_all invoke (lookup ''invoked'' m) \<and> list_all (\<lambda>r. \<not> invoke r) (lookup ''blocked'' m)"

lemma upt_map_Suc: "map int [0..<Suc n] = map int [0..<n] @ [int n]"
  by simp

lemma invoke_resource_inv:
  assumes "cloud_inv n m"
  shows "cloud_inv (Suc n) (snd (invoke_resource now type m)) \<and>
    (fst (invoke_resource now type m) \<longleftrightarrow> n < INVOKE_LIMIT) \<and>
    (\<exists>rs. lookup ''invoked'' (snd (invoke_resource now type m)) = lookup ''invoked'' m @ rs)"
proof -
  have ok: "cloud_ok m" "cloud_ok (subscript ''invoked'' m)"
    using assms by (simp_all add: cloud_inv_def)
  have total: "get_total_resource_count m = int n"
    using assms by (simp add: get_total_resource_count_def cloud_inv_def)
  have total': "get_total_resource_count (subscript ''invoked'' m) = int n"
    using total ok by (simp add: get_total_resource_count_def lookup_subscript)
  show ?thesis
  proof (cases "n < INVOKE_LIMIT")
    case True
    then have "lookup ''blocked'' m = []"
      using assms by (simp add: cloud_inv_def)
    then show ?thesis
      using assms True ok total'
      by (auto simp: invoke_resource_def cloud_inv_def lookup_push_back lookup_subscript CloudResource_def Let_def)
  next
    case False
    then show ?thesis
      using assms ok total'
      by (auto simp: invoke_resource_def cloud_inv_def lookup_push_back lookup_subscript CloudResource_def Let_def)
  qed
qed

lemma invoke_loop_inv:
  "cloud_inv n m \<Longrightarrow> invoke_loop now i k type m c = (c', m') \<Longrightarrow>
     cloud_inv (n + k) m' \<and> c' = c + int (min k (INVOKE_LIMIT - n)) \<and>
     (\<exists>rs. lookup ''invoked'' m' = lookup ''invoked'' m @ rs)"
proof (induction k arbitrary: i n m c)
  case 0
  then show ?case by simp
next
  case (Suc k)
  obtain b m1 where m1: "invoke_resource (now i) type m = (b, m1)" by fastforce
  then have inv: "cloud_inv (Suc n) m1" and b: "b \<longleftrightarrow> n < INVOKE_LIMIT"
    and pre: "\<exists>rs. lookup ''invoked'' m1 = lookup ''invoked'' m @ rs"
    using invoke_resource_inv [OF Suc.prems(1), of "now i" type] by simp_all
  have "invoke_loop now (Suc i) k type m1 (if b then c + 1 else c) = (c', m')"
    using Suc.prems(2) m1 by simp
  note IH = Suc.IH [OF inv this]
  have "int (min (Suc k) (INVOKE_LIMIT - n)) =
      (if n < INVOKE_LIMIT then 1 else 0) + int (min k (INVOKE_LIMIT - Suc n))"
    by (auto simp: min_def)
  then show ?case
    using IH b pre by auto
qed

lemma invoke_many_inv:
  assumes "cloud_inv n m"
  shows "cloud_inv (n + nat k) (snd (invoke_many_resources now type k m)) \<and>
    fst (invoke_many_resources now type k m) = int (min (nat k) (INVOKE_LIMIT - n)) \<and>
    (\<exists>rs. lookup ''invoked'' (snd (invoke_many_resources now type k m)) = lookup ''invoked'' m @ rs)"
  using invoke_loop_inv [OF assms, of now 0 "nat k" type 0]
  by (cases "invoke_loop now 0 (nat k) type m 0") (simp add: invoke_many_resources_def)

lemma assign_first_shape:
  "assign_first name iid rs = Some rs' \<Longrightarrow>
     \<exists>pre r post. rs = pre @ r # post \<and> rs' = pre @ r\<lparr>serial_identifier := iid\<rparr> # post \<and>
       resource_type r = name \<and> serial_identifier r = '''' \<and>
       (\<forall>x \<in> set pre. resource_type x = name \<longrightarrow> serial_identifier x \<noteq> '''')"
proof (induction rs arbitrary: rs')
  case Nil
  then show ?case by simp
next
  case (Cons r rs)
  show ?case
  proof (cases "resource_type r = name \<and> is_serial_identifier_empty r")
    case True
    then have "r # rs = [] @ r # rs \<and> rs' = [] @ r\<lparr>serial_identifier := iid\<rparr> # rs \<and>
        resource_type r = name \<and> serial_identifier r = ''''"
      using Cons.prems by (simp add: set_serial_identifier_def is_serial_identifier_empty_def)
    then show ?thesis by fastforce
  next
    case False
    then obtain ts where ts: "assign_first name iid rs = Some ts" "rs' = r # ts"
      using Cons.prems by auto
    then obtain pre x post where "rs = pre @ x # post" "ts = pre @ x\<lparr>serial_identifier := iid\<rparr> # post"
      "resource_type x = name" "serial_identifier x = ''''"
      "\<forall>y \<in> set pre. resource_type y = name \<longrightarrow> serial_identifier y \<noteq> ''''"
      using Cons.IH by blast
    then show ?thesis
      using ts False by (intro exI [of _ "r # pre"] exI [of _ x] exI [of _ post])
        (auto simp: is_serial_identifier_empty_def)
  qed
qed

lemma assign_resource_id_inv:
  assumes inv: "cloud_inv n m"
  shows "cloud_inv n (snd (assign_resource_id name iid m)) \<and>
    list_all2 (\<lambda>r r'. serial_identifier r \<noteq> '''' \<longrightarrow> r' = r)
      (lookup ''invoked'' m) (lookup ''invoked'' (snd (assign_resource_id name iid m)))"
proof (cases "assign_first name iid (lookup ''invoked'' m)")
  case None
  then show ?thesis
    using inv by (auto simp: assign_resource_id_def Let_def cloud_inv_def lookup_subscript list.rel_refl)
next
  case (Some rs)
  obtain pre r post where "lookup ''invoked'' m = pre @ r # post"
    "rs = pre @ r\<lparr>serial_identifier := iid\<rparr> # post" "serial_identifier r = ''''"
    using assign_first_shape [OF Some] by blast
  then show ?thesis
    using inv Some
    by (auto simp: assign_resource_id_def Let_def cloud_inv_def lookup_subscript lookup_store
        list_all2_append list.rel_refl)
qed

definition kept_ids :: "cloud_list \<Rightarrow> cloud_list \<Rightarrow> bool" where
  "kept_ids m m' \<longleftrightarrow>
     list_all2 (\<lambda>r r'. serial_identifier r \<noteq> '''' \<longrightarrow> r' = r) (lookup ''invoked'' m)
       (take (length (lookup ''invoked'' m)) (lookup ''invoked'' m'))"

lemma kept_ids_trans:
  assumes "kept_ids m m1" and "kept_ids m1 m2"
  shows "kept_ids m m2"
  unfolding kept_ids_def list_all2_conv_all_nth
proof (intro conjI allI impI)
  have 1: "length (lookup ''invoked'' m) \<le> length (lookup ''invoked'' m1)"
    "length (lookup ''invoked'' m1) \<le> length (lookup ''invoked'' m2)"
    using assms by (auto simp: kept_ids_def list_all2_conv_all_nth)
  then show "length (lookup ''invoked'' m) = length (take (length (lookup ''invoked'' m)) (lookup ''invoked'' m2))"
    by simp
  fix i assume i: "i < length (lookup ''invoked'' m)"
    and ne: "serial_identifier (lookup ''invoked'' m ! i) \<noteq> ''''"
  have "lookup ''invoked'' m1 ! i = lookup ''invoked'' m ! i"
    using assms(1) i ne 1 by (auto simp: kept_ids_def list_all2_conv_all_nth)
  moreover have "lookup ''invoked'' m2 ! i = lookup ''invoked'' m1 ! i"
    using assms(2) i ne 1 calculation by (auto simp: kept_ids_def list_all2_conv_all_nth)
  ultimately show "take (length (lookup ''invoked'' m)) (lookup ''invoked'' m2) ! i = lookup ''invoked'' m ! i"
    using i by simp
qed

lemma cloud_do_inv:
  assumes "cloud_inv n m"
  shows "cloud_inv (n + attempts c) (cloud_do now c m) \<and> kept_ids m (cloud_do now c m)"
proof (cases c)
  case (InvokeOne type)
  then show ?thesis
    using invoke_resource_inv [OF assms, of "now 0" type]
    by (auto simp: cloud_do_def kept_ids_def list.rel_refl)
next
  case (InvokeMany type k)
  then show ?thesis
    using invoke_many_inv [OF assms, of k now type]
    by (auto simp: cloud_do_def kept_ids_def list.rel_refl)
next
  case (AssignId name iid)
  note inv = assign_resource_id_inv [OF assms, of name iid]
  show ?thesis
    using inv list_all2_lengthD [OF conjunct2 [OF inv]] AssignId
    by (simp add: cloud_do_def kept_ids_def)
qed

lemma cloud_run_inv:
  "cloud_inv n m \<Longrightarrow>
     cloud_inv (n + sum_list (map attempts cs)) (cloud_run now cs m) \<and> kept_ids m (cloud_run now cs m)"
proof (induction cs arbitrary: n m)
  case Nil
  then show ?case by (simp add: kept_ids_def list.rel_refl)
next
  case (Cons c cs)
  have "cloud_inv (n + attempts c) (cloud_do now c m)" "kept_ids m (cloud_do now c m)"
    using cloud_do_inv [OF Cons.prems, of c now] by simp_all
  from Cons.IH [OF this(1)] this(2) show ?case
    by (auto simp: add.assoc intro: kept_ids_trans)
qed

lemma cloud_inv_Nil: "cloud_inv 0 []"
  by (simp add: cloud_inv_def)

lemma cloud_run_append: "cloud_run now (cs @ ds) m = cloud_run now ds (cloud_run now cs m)"
  by (induction cs arbitrary: m) auto

section \<open>Properties\<close>


text \<open>
  An instance identifier, once assigned to a resource, is never overwritten or
  lost, whatever calls follow; nor is any invoked resource dropped or moved.
\<close>

theorem identifiers_kept:
  "kept_ids (cloud_run now cs []) (cloud_run now (cs @ ds) [])"
  using cloud_run_inv [OF cloud_inv_Nil, of cs now] cloud_run_inv [of _ "cloud_run now cs []" ds now]
  by (auto simp: cloud_run_append)

end
