(* ===== verification/V2_Filter.thy ===== *)
theory V2_Filter
  imports Cloud
begin

text \<open>
  The two filters of the proxy: \<open>src/src/http/v2filter_client.hh\<close>, which looks for invocations of
  cloud resources in what the application sends and blocks or rewrites them, and
  \<open>v2filter_server.hh\<close>, which reads the identifiers of started instances from the answers. Both
  work on one read of the connection at a time. The accounting persists when a filter throws, so
  the result of a filter is paired with it.

  \<open>sizeof( std::to_string( ... ) )\<close> is the size of a \<open>std::string\<close> object, which the compiler
  fixes; it is the argument \<open>sizeof_string\<close> (32 with GNU libstdc++ on a 64-bit machine).
\<close>

section \<open>The client filter\<close>

definition max_count_tag :: string where
  "max_count_tag = ''MaxCount=''"

text \<open>The variables of the loop of \<open>limit_resource\<close>: message, client message, invoked.\<close>

type_synonym filter_vars = "string \<times> string \<times> bool"

text \<open>The number of instances asked for, read behind \<open>MaxCount=\<close>.\<close>

definition count_requested :: "string \<Rightarrow> nat \<Rightarrow> nat \<Rightarrow> int res" where
  "count_requested message first last_pos =
     rbind (substr message (first + length max_count_tag)
              (size_sub last_pos (first + length max_count_tag))) stoi"

definition limit_ec2 ::
  "nat \<Rightarrow> (nat \<Rightarrow> int) \<Rightarrow> filter_vars \<Rightarrow> cloud_list \<Rightarrow> filter_vars res \<times> cloud_list" where
  "limit_ec2 sizeof_string now vars m =
     (case vars of (message, client_message, invoked) \<Rightarrow>
      case (str_find message max_count_tag, str_find message ''POST'') of
        (Some first, Some last_pos) \<Rightarrow>
          (case count_requested message first last_pos of
             Inl e \<Rightarrow> (Inl e, m)
           | Inr requested \<Rightarrow>
               (case invoke_many_resources now ''ec2'' requested m of (successful, m1) \<Rightarrow>
                  if successful = 0 then (Inr (message, client_message, False), m1)
                  else if successful \<le> requested then
                    (rbind (str_replace message (first + length max_count_tag) sizeof_string
                              (to_string_int successful)) (\<lambda>new_request.
                       Inr (new_request, new_request, True)), m1)
                  else (Inr vars, m1)))
      | _ \<Rightarrow> (Inl (RuntimeError ''EC2 RunInstances request is abnormal. Please inspect''), m))"

definition limit_one ::
  "nat \<Rightarrow> (nat \<Rightarrow> int) \<Rightarrow> string \<Rightarrow> filter_vars \<Rightarrow> cloud_list \<Rightarrow> filter_vars res \<times> cloud_list" where
  "limit_one sizeof_string now type vars m =
     (case (if type = ''ec2'' then limit_ec2 sizeof_string now vars m
            else (case vars of (message, client_message, invoked) \<Rightarrow>
                  case invoke_resource (now 0) type m of (ok, m1) \<Rightarrow>
                    (Inr (message, client_message, ok), m1))) of
        (Inl e, m1) \<Rightarrow> (Inl e, m1)
      | (Inr (message, client_message, invoked), m1) \<Rightarrow>
          (Inr (message, if invoked then client_message else ''BLOCKED'', invoked), m1))"

text \<open>The loop over the keyword table, in the order of its keys.\<close>

fun limit_loop ::
  "nat \<Rightarrow> (nat \<Rightarrow> int) \<Rightarrow> (string \<times> string list) list \<Rightarrow> filter_vars \<Rightarrow> cloud_list \<Rightarrow>
     filter_vars res \<times> cloud_list" where
  "limit_loop sizeof_string now [] vars m = (Inr vars, m)"
| "limit_loop sizeof_string now ((type, keywords) # rest) vars m =
     (if list_all (\<lambda>s. str_find (fst vars) s \<noteq> None) keywords
      then case limit_one sizeof_string now type vars m of
             (Inl e, m1) \<Rightarrow> (Inl e, m1)
           | (Inr vars1, m1) \<Rightarrow> limit_loop sizeof_string now rest vars1 m1
      else limit_loop sizeof_string now rest vars m)"

definition limit_resource ::
  "nat \<Rightarrow> (nat \<Rightarrow> int) \<Rightarrow> string \<Rightarrow> (string \<times> string list) list \<Rightarrow> cloud_list \<Rightarrow>
     string res \<times> cloud_list" where
  "limit_resource sizeof_string now message resource_keywords m =
     (case limit_loop sizeof_string now resource_keywords (message, message, False) m of
        (Inl e, m1) \<Rightarrow> (Inl e, m1)
      | (Inr (message', client_message, invoked), m1) \<Rightarrow> (Inr client_message, m1))"

definition keyword_table :: "(string \<times> string list) list" where
  "keyword_table = [(''ec2'', [''ec2'', ''RunInstances'']), (''lambda'', [''lambda''])]"

definition v2filter_client ::
  "nat \<Rightarrow> (nat \<Rightarrow> int) \<Rightarrow> string \<Rightarrow> cloud_list \<Rightarrow> string res \<times> cloud_list" where
  "v2filter_client sizeof_string now buf m = limit_resource sizeof_string now buf keyword_table m"

section \<open>The server filter\<close>

definition open_tag :: string where "open_tag = ''<instanceId>''"
definition close_tag :: string where "close_tag = ''</instanceId>''"

lemma str_find_from_bound:
  "str_find_from s needle p = Some i \<Longrightarrow> p \<le> i \<and> i + length needle \<le> length s"
  by (auto simp: str_find_from_def split: if_splits dest!: str_find_bound)

lemma tag_lengths [simp]: "length open_tag = 12" "length close_tag = 13" "length max_count_tag = 9"
  by (simp_all add: open_tag_def close_tag_def max_count_tag_def)

text \<open>The loop, entered with the positions found.\<close>

function collect_loop ::
  "string \<Rightarrow> nat option \<Rightarrow> nat option \<Rightarrow> cloud_list \<Rightarrow> unit res \<times> cloud_list" where
  "collect_loop message (Some first) (Some last_pos) m =
     (case substr message (first + length open_tag) (size_sub last_pos (first + length open_tag)) of
        Inl e \<Rightarrow> (Inl e, m)
      | Inr instance_id \<Rightarrow>
          (case assign_resource_id ''ec2'' instance_id m of
             (Inl e, m1) \<Rightarrow> (Inl e, m1)
           | (Inr _, m1) \<Rightarrow>
               collect_loop message
                 (str_find_from message open_tag (last_pos + length open_tag))
                 (str_find_from message close_tag (last_pos + length open_tag)) m1))"
| "collect_loop message None last_pos m = (Inr (), m)"
| "collect_loop message (Some first) None m = (Inr (), m)"
  by pat_completeness auto

termination
proof (relation "measure (\<lambda>(message, first, last_pos, m).
    case last_pos of None \<Rightarrow> 0 | Some l \<Rightarrow> 1 + (length message + 1 - l))", goal_cases)
  case (2 message first last_pos m iid r m1)
  then show ?case
    by (cases "str_find_from message close_tag (last_pos + length open_tag)")
      (auto dest: str_find_from_bound)
qed simp

definition collect_resource_data :: "string \<Rightarrow> cloud_list \<Rightarrow> unit res \<times> cloud_list" where
  "collect_resource_data message m =
     collect_loop message (str_find message open_tag) (str_find message close_tag) m"

definition v2filter_server :: "string \<Rightarrow> cloud_list \<Rightarrow> unit res \<times> cloud_list" where
  "v2filter_server buf m = collect_resource_data buf m"

declare collect_loop.simps [simp del]

section \<open>What the client filter lets through\<close>

lemma limit_loop_no_keyword:
  assumes "list_all (\<lambda>(type, keywords). \<not> list_all (\<lambda>s. str_find (fst vars) s \<noteq> None) keywords) table"
  shows "limit_loop sizeof_string now table vars m = (Inr vars, m)"
  using assms by (induction table) auto

text \<open>The decisions for the two kinds of resources, in terms of the accounting.\<close>

lemma cloud_inv_limit_one:
  assumes "cloud_inv n m"
  shows "\<exists>k. cloud_inv (n + k) (snd (limit_one sizeof_string now type vars m))"
proof -
  obtain message client_message invoked where vars: "vars = (message, client_message, invoked)"
    by (cases vars) auto
  have many: "cloud_inv (n + nat r) (snd (invoke_many_resources now ''ec2'' r m))" for r
    using invoke_many_inv [OF assms] by blast
  have one: "cloud_inv (n + 1) (snd (invoke_resource (now 0) type m))"
    using invoke_resource_inv [OF assms, of "now 0" type] by simp
  have ec2: "\<exists>k. cloud_inv (n + k) (snd (limit_ec2 sizeof_string now vars m))"
  proof (cases "str_find message max_count_tag")
    case None
    then show ?thesis using assms by (intro exI [of _ 0]) (simp add: limit_ec2_def vars)
  next
    case (Some first)
    show ?thesis
    proof (cases "str_find message ''POST''")
      case None
      then show ?thesis using assms Some by (intro exI [of _ 0]) (simp add: limit_ec2_def vars)
    next
      case post: (Some last_pos)
      show ?thesis
      proof (cases "count_requested message first last_pos")
        case (Inl e)
        then show ?thesis
          using assms Some post by (intro exI [of _ 0]) (simp add: limit_ec2_def vars)
      next
        case (Inr r)
        then have "snd (limit_ec2 sizeof_string now vars m) = snd (invoke_many_resources now ''ec2'' r m)"
          using Some post by (simp add: limit_ec2_def vars split: prod.split)
        then show ?thesis using many [of r] by auto
      qed
    qed
  qed
  show ?thesis
  proof (cases "type = ''ec2''")
    case True
    then have "snd (limit_one sizeof_string now type vars m) = snd (limit_ec2 sizeof_string now vars m)"
      by (auto simp: limit_one_def split: prod.splits sum.splits)
    then show ?thesis using ec2 by simp
  next
    case False
    then have "snd (limit_one sizeof_string now type vars m) = snd (invoke_resource (now 0) type m)"
      by (auto simp: limit_one_def vars split: prod.splits sum.splits)
    then show ?thesis using one by (intro exI [of _ 1]) simp
  qed
qed

lemma cloud_inv_limit_loop:
  "cloud_inv n m \<Longrightarrow> \<exists>k. cloud_inv (n + k) (snd (limit_loop sizeof_string now table vars m))"
proof (induction sizeof_string now table vars m arbitrary: n rule: limit_loop.induct)
  case (1 sizeof_string now vars m)
  then show ?case by (intro exI [of _ 0]) simp
next
  case (2 sizeof_string now type kws rest vars m)
  show ?case
  proof (cases "list_all (\<lambda>s. str_find (fst vars) s \<noteq> None) kws")
    case False
    then show ?thesis using 2 by simp
  next
    case True
    obtain k where k: "cloud_inv (n + k) (snd (limit_one sizeof_string now type vars m))"
      using cloud_inv_limit_one [OF "2.prems"] by blast
    obtain r m1 where r: "limit_one sizeof_string now type vars m = (r, m1)" by fastforce
    show ?thesis
    proof (cases r)
      case (Inl e)
      then show ?thesis using True r k by auto
    next
      case (Inr vars1)
      then have "\<exists>j. cloud_inv (n + k + j) (snd (limit_loop sizeof_string now rest vars1 m1))"
        using "2.IH"(1) [OF True r [symmetric] Inr, of "n + k"] k r by simp
      then show ?thesis using True r Inr by (auto simp: add.assoc)
    qed
  qed
qed

text \<open>A session of the proxy: the reads from the client and from the server, in any order.\<close>

datatype proxy_read = FromClient string | FromServer string

definition filter_read :: "nat \<Rightarrow> (nat \<Rightarrow> int) \<Rightarrow> proxy_read \<Rightarrow> cloud_list \<Rightarrow> cloud_list" where
  "filter_read sizeof_string now r m =
     (case r of
        FromClient buf \<Rightarrow> snd (v2filter_client sizeof_string now buf m)
      | FromServer buf \<Rightarrow> snd (v2filter_server buf m))"

fun filter_reads :: "nat \<Rightarrow> (nat \<Rightarrow> int) \<Rightarrow> proxy_read list \<Rightarrow> cloud_list \<Rightarrow> cloud_list" where
  "filter_reads sizeof_string now [] m = m"
| "filter_reads sizeof_string now (r # rs) m =
     filter_reads sizeof_string now rs (filter_read sizeof_string now r m)"

lemma collect_loop_inv:
  "cloud_inv n m \<Longrightarrow> cloud_inv n (snd (collect_loop message first last_pos m))"
proof (induction message first last_pos m rule: collect_loop.induct)
  case (1 message first last_pos m)
  show ?case
  proof (cases "substr message (first + length open_tag) (size_sub last_pos (first + length open_tag))")
    case (Inl e)
    then show ?thesis using "1.prems" by (simp add: collect_loop.simps)
  next
    case (Inr iid)
    obtain r m1 where r: "assign_resource_id ''ec2'' iid m = (r, m1)" by fastforce
    then have inv: "cloud_inv n m1"
      using assign_resource_id_inv [OF "1.prems", of "''ec2''" iid] by simp
    show ?thesis
    proof (cases r)
      case e: (Inl e)
      then show ?thesis using Inr r inv by (simp add: collect_loop.simps)
    next
      case u: (Inr u)
      then show ?thesis
        using "1.IH" [OF Inr r [symmetric] u inv] Inr r by (simp add: collect_loop.simps(1))
    qed
  qed
qed (simp_all add: collect_loop.simps)

lemma filter_reads_inv:
  "cloud_inv n m \<Longrightarrow> \<exists>k. cloud_inv (n + k) (filter_reads sizeof_string now rs m)"
proof (induction rs arbitrary: n m)
  case Nil
  then show ?case by (intro exI [of _ 0]) simp
next
  case (Cons r rs)
  have "\<exists>k. cloud_inv (n + k) (filter_read sizeof_string now r m)"
  proof (cases r)
    case (FromClient buf)
    have "snd (v2filter_client sizeof_string now buf m) =
        snd (limit_loop sizeof_string now keyword_table (buf, buf, False) m)"
      by (auto simp: v2filter_client_def limit_resource_def split: prod.splits sum.splits)
    then show ?thesis
      using cloud_inv_limit_loop [OF Cons.prems] FromClient by (simp add: filter_read_def)
  next
    case (FromServer buf)
    then show ?thesis
      using collect_loop_inv [OF Cons.prems]
      by (intro exI [of _ 0]) (simp add: filter_read_def v2filter_server_def collect_resource_data_def)
  qed
  then obtain k where "cloud_inv (n + k) (filter_read sizeof_string now r m)" by blast
  from Cons.IH [OF this] show ?case by (auto simp: add.assoc)
qed

section \<open>What the server filter collects\<close>

text \<open>An answer with the identifiers of several instances, each followed by other text.\<close>

fun instance_text :: "(string \<times> string) list \<Rightarrow> string" where
  "instance_text [] = ''''"
| "instance_text ((iid, t) # its) = open_tag @ iid @ close_tag @ t @ instance_text its"

definition untagged :: "string \<Rightarrow> bool" where
  "untagged s \<longleftrightarrow> str_find s open_tag = None \<and> str_find s close_tag = None"

fun assign_all :: "string list \<Rightarrow> cloud_list \<Rightarrow> unit res \<times> cloud_list" where
  "assign_all [] m = (Inr (), m)"
| "assign_all (iid # iids) m =
     (case assign_resource_id ''ec2'' iid m of
        (Inl e, m1) \<Rightarrow> (Inl e, m1)
      | (Inr _, m1) \<Rightarrow> assign_all iids m1)"

text \<open>A tag cannot begin in one piece of text and end in the next tag.\<close>

lemma find_past:
  assumes "str_find u (c # w) = None" and "c \<notin> set w"
  shows "str_find (u @ c # r) (c # w) = map_option (\<lambda>i. length u + i) (str_find (c # r) (c # w))"
  using assms(1)
proof (induction u)
  case Nil
  then show ?case by (simp add: option.map_ident del: str_find.simps)
next
  case (Cons x u)
  have no: "take (length (c # w)) (x # u) \<noteq> c # w" and rest: "str_find u (c # w) = None"
    using Cons.prems by (auto split: if_splits)
  have "take (length (c # w)) (x # u @ c # r) \<noteq> c # w"
  proof
    assume a: "take (length (c # w)) (x # u @ c # r) = c # w"
    then have x: "x = c" and w: "take (length w) (u @ c # r) = w"
      by simp_all
    show False
    proof (cases "length w \<le> length u")
      case True
      then have "take (length w) u = w" using w by simp
      then show False using no x by simp
    next
      case False
      then have "c \<in> set (take (length w) (u @ c # r))"
        by (cases "length w - length u") (simp_all)
      from this [unfolded w] assms(2) show False by simp
    qed
  qed
  then have "str_find (x # u @ c # r) (c # w) = map_option Suc (str_find (u @ c # r) (c # w))"
    by (simp only: str_find.simps if_False)
  then show ?case
    using Cons.IH [OF rest] by (simp add: option.map_comp o_def del: str_find.simps)
qed

lemma str_find_from_0: "str_find_from s needle 0 = str_find s needle"
  by (cases "str_find s needle") (simp_all add: str_find_from_def)

lemma tag_shape:
  "open_tag = CHR ''<'' # ''instanceId>''" "close_tag = CHR ''<'' # ''/instanceId>''"
  by (simp_all add: open_tag_def close_tag_def)

lemma no_tag_inside:
  "CHR ''<'' \<notin> set iid \<Longrightarrow> str_find (open_tag @ iid) close_tag = None"
  using str_find_None_if_char [of "CHR ''<''" close_tag "''instanceId>'' @ iid"]
  by (simp add: tag_shape)

lemma find_open:
  assumes "untagged u"
  shows "str_find (u @ instance_text ((iid, t) # its)) open_tag = Some (length u)"
proof -
  have "str_find (u @ CHR ''<'' # (''instanceId>'' @ iid @ close_tag @ t @ instance_text its)) open_tag =
      map_option (\<lambda>i. length u + i)
        (str_find (CHR ''<'' # (''instanceId>'' @ iid @ close_tag @ t @ instance_text its)) open_tag)"
    using assms find_past unfolding tag_shape untagged_def by simp
  moreover have "str_find (open_tag @ iid @ close_tag @ t @ instance_text its) open_tag = Some 0"
    by (rule str_find_self)
  ultimately show ?thesis by (simp add: tag_shape)
qed

lemma find_close:
  assumes "untagged u" and "CHR ''<'' \<notin> set iid"
  shows "str_find (u @ instance_text ((iid, t) # its)) close_tag =
    Some (length u + 12 + length iid)"
proof -
  let ?rest = "''/instanceId>'' @ t @ instance_text its"
  have "str_find ((open_tag @ iid) @ CHR ''<'' # ?rest) close_tag =
      map_option (\<lambda>i. length (open_tag @ iid) + i) (str_find (CHR ''<'' # ?rest) close_tag)"
    using find_past [of "open_tag @ iid" "CHR ''<''" "''/instanceId>''"] no_tag_inside [OF assms(2)]
    unfolding tag_shape(2) by simp
  moreover have "str_find (close_tag @ t @ instance_text its) close_tag = Some 0"
    by (rule str_find_self)
  ultimately have inner: "str_find (open_tag @ iid @ close_tag @ t @ instance_text its) close_tag =
      Some (12 + length iid)"
    by (simp add: tag_shape)
  have "str_find (u @ CHR ''<'' # (''instanceId>'' @ iid @ close_tag @ t @ instance_text its)) close_tag =
      map_option (\<lambda>i. length u + i)
        (str_find (CHR ''<'' # (''instanceId>'' @ iid @ close_tag @ t @ instance_text its)) close_tag)"
    using assms(1) find_past [of u "CHR ''<''" "''/instanceId>''"] unfolding tag_shape untagged_def by simp
  then show ?thesis
    using inner by (simp add: tag_shape add.assoc)
qed

lemma collect_from:
  assumes "drop p message = u @ instance_text its" and "p \<le> length message" and "untagged u"
    and "list_all (\<lambda>(iid, t). CHR ''<'' \<notin> set iid \<and> untagged t) its" and "length message < 2 ^ 64"
  shows "collect_loop message (str_find_from message open_tag p) (str_find_from message close_tag p) m =
    assign_all (map fst its) m"
  using assms
proof (induction its arbitrary: p u m)
  case Nil
  then have "str_find_from message open_tag p = None"
    by (simp add: str_find_from_def untagged_def)
  then show ?case by (simp add: collect_loop.simps)
next
  case (Cons it its)
  obtain iid t where it: "it = (iid, t)" by fastforce
  have iid: "CHR ''<'' \<notin> set iid" and t: "untagged t"
    using Cons.prems(4) it by simp_all
  let ?first = "p + length u" and ?last = "p + length u + 12 + length iid"
  have finds: "str_find_from message open_tag p = Some ?first"
      "str_find_from message close_tag p = Some ?last"
    using find_open [OF Cons.prems(3), of iid t its] find_close [OF Cons.prems(3) iid, of t its]
      Cons.prems(1,2) it by (simp_all add: str_find_from_def)
  have dropped: "drop (p + k) message = drop k (u @ instance_text (it # its))" for k
    using Cons.prems(1) by (metis add.commute drop_drop)
  have at_id: "drop (?first + 12) message = iid @ close_tag @ t @ instance_text its"
    using dropped [of "length u + 12"] it by (simp add: add.assoc open_tag_def)
  define head where "head = u @ open_tag @ iid @ ''</instanceId''"
  have head: "u @ instance_text (it # its) = head @ (CHR ''>'' # t) @ instance_text its"
      "length head = length u + (12 + (length iid + 12))"
    by (simp_all add: head_def it close_tag_def)
  have at_end: "drop (?last + 12) message = (CHR ''>'' # t) @ instance_text its"
    using dropped [of "length head"] head(2) unfolding head(1) by (simp add: add.assoc)
  have bounds: "?last + 12 \<le> length message" "?first + 12 \<le> length message"
    using at_end at_id by (metis drop_eq_Nil nle_le append_is_Nil_conv list.distinct(1),
      metis drop_eq_Nil nle_le append_is_Nil_conv tag_shape(2) list.distinct(1))
  have "size_sub ?last (?first + 12) = length iid"
    using bounds Cons.prems(5) by (simp add: size_sub_le)
  then have sub: "substr message (?first + length open_tag) (size_sub ?last (?first + length open_tag)) = Inr iid"
    using at_id bounds by (simp add: substr_def)
  have "untagged (CHR ''>'' # t)"
    using t by (simp add: untagged_def tag_shape)
  then have IH: "collect_loop message (str_find_from message open_tag (?last + 12))
      (str_find_from message close_tag (?last + 12)) m1 = assign_all (map fst its) m1" for m1
    using Cons.IH [OF at_end bounds(1)] Cons.prems(4,5) by simp
  show ?case
    unfolding finds using sub IH it
    by (simp add: collect_loop.simps(1) split: prod.split sum.split)
qed

lemma lambda_filtered:
  assumes "cloud_inv n m" and "str_find buf ''lambda'' \<noteq> None"
    and "str_find buf ''ec2'' = None \<or> str_find buf ''RunInstances'' = None"
  shows "fst (v2filter_client sizeof_string now buf m) = Inr (if n < 2 then buf else ''BLOCKED'') \<and>
    cloud_inv (n + 1) (snd (v2filter_client sizeof_string now buf m))"
proof -
  obtain ok m1 where m1: "invoke_resource (now 0) ''lambda'' m = (ok, m1)" by fastforce
  then have inv: "cloud_inv (Suc n) m1" and ok: "ok \<longleftrightarrow> n < 2"
    using invoke_resource_inv [OF assms(1), of "now 0" "''lambda''"] by (simp_all add: INVOKE_LIMIT_def)
  have ec2: "\<not> list_all (\<lambda>s. str_find buf s \<noteq> None) [''ec2'', ''RunInstances'']"
    using assms(3) by auto
  have "limit_loop sizeof_string now keyword_table (buf, buf, False) m =
      (Inr (buf, if ok then buf else ''BLOCKED'', ok), m1)"
    using ec2 assms(2) m1
    by (cases "str_find buf ''ec2''"; cases "str_find buf ''RunInstances''")
      (simp_all add: keyword_table_def limit_one_def)
  then show ?thesis
    using inv ok by (simp add: v2filter_client_def limit_resource_def)
qed

section \<open>Properties\<close>


text \<open>
  Traffic that names no cloud resource is not touched. A read that contains
  neither \<open>lambda\<close> nor both \<open>ec2\<close> and \<open>RunInstances\<close> is passed on byte for byte, and nothing is
  recorded.
\<close>

theorem filter_transparent:
  assumes "str_find buf ''lambda'' = None"
    and "str_find buf ''ec2'' = None \<or> str_find buf ''RunInstances'' = None"
  shows "v2filter_client sizeof_string now buf m = (Inr buf, m)"
proof -
  have "limit_loop sizeof_string now keyword_table (buf, buf, False) m = (Inr (buf, buf, False), m)"
    by (rule limit_loop_no_keyword) (use assms in \<open>auto simp: keyword_table_def\<close>)
  then show ?thesis
    by (simp add: v2filter_client_def limit_resource_def)
qed

lemma filter_transparent_witness:
  "v2filter_client 32 (\<lambda>i. 7) ''GET /ec2 HTTP/1.1'' [] = (Inr ''GET /ec2 HTTP/1.1'', [])"
  by (rule filter_transparent) (simp_all)

text \<open>
  The decision on an invocation of a function. In a state reached by \<open>n\<close>
  attempts, a read that contains \<open>lambda\<close> (and does not start EC2 instances) is passed on
  unchanged while \<open>n\<close> is below two and replaced by \<open>BLOCKED\<close> from then on; it is recorded as one
  more attempt either way.
\<close>

theorem lambda_decision:
  assumes "cloud_inv n m" and "str_find buf ''lambda'' \<noteq> None"
    and "str_find buf ''ec2'' = None \<or> str_find buf ''RunInstances'' = None"
  shows "fst (v2filter_client sizeof_string now buf m) = Inr (if n < 2 then buf else ''BLOCKED'') \<and>
    cloud_inv (n + 1) (snd (v2filter_client sizeof_string now buf m))"
  by (rule lambda_filtered [OF assms])

lemma lambda_decision_witness:
  "fst (v2filter_client 32 (\<lambda>i. 7) ''POST /lambda'' []) = Inr ''POST /lambda'' \<and>
   cloud_inv 1 (snd (v2filter_client 32 (\<lambda>i. 7) ''POST /lambda'' []))"
  using lambda_decision [OF cloud_inv_Nil, of "''POST /lambda''" 32 "\<lambda>i. 7"] by simp

text \<open>
  C35: what becomes of an allowed request for EC2 instances. When \<open>r\<close> instances are asked
  for behind \<open>MaxCount=\<close> and \<open>k = min r (2 - n) > 0\<close> of them are still allowed, the message
  forwarded has \<open>k\<close> in place of the \<open>sizeof_string\<close> bytes that follow the tag: not of the digits
  of \<open>r\<close>, so up to \<open>sizeof_string\<close> minus that many bytes of the parameters behind them are lost.
\<close>

theorem ec2_rewrite:
  assumes "cloud_inv n m"
    and "str_find buf ''ec2'' \<noteq> None" and "str_find buf ''RunInstances'' \<noteq> None"
    and "str_find buf ''MaxCount='' = Some i" and "str_find buf ''POST'' = Some j"
    and "count_requested buf i j = Inr (int r)" and "0 < min r (2 - n)"
    and "str_find (take (i + 9) buf @ to_string (min r (2 - n)) @ drop (i + 9 + sizeof_string) buf) ''lambda'' = None"
  shows "fst (v2filter_client sizeof_string now buf m) =
      Inr (take (i + 9) buf @ to_string (min r (2 - n)) @ drop (i + 9 + sizeof_string) buf) \<and>
    cloud_inv (n + r) (snd (v2filter_client sizeof_string now buf m))"
proof -
  let ?k = "min r (2 - n)"
  let ?new = "take (i + 9) buf @ to_string ?k @ drop (i + 9 + sizeof_string) buf"
  obtain c m1 where c: "invoke_many_resources now ''ec2'' (int r) m = (c, m1)" by fastforce
  then have inv: "cloud_inv (n + r) m1" and ck: "c = int ?k"
    using invoke_many_inv [OF assms(1), of "int r" now "''ec2''"] by (simp_all add: INVOKE_LIMIT_def)
  have "i + 9 \<le> length buf"
    using str_find_bound [OF assms(4)] by simp
  then have rep: "str_replace buf (i + length max_count_tag) sizeof_string (to_string_int c) = Inr ?new"
    using ck by (simp add: str_replace_def to_string_int_def)
  have ec2: "limit_ec2 sizeof_string now (buf, buf, False) m = (Inr (?new, ?new, True), m1)"
    using assms(4,5,6,7) c ck rep by (simp add: limit_ec2_def max_count_tag_def)
  have "limit_loop sizeof_string now keyword_table (buf, buf, False) m = (Inr (?new, ?new, True), m1)"
    using assms(2,3,8) ec2 by (simp add: keyword_table_def limit_one_def)
  then show ?thesis
    using inv by (simp add: v2filter_client_def limit_resource_def)
qed

definition sample_ec2 :: string where
  "sample_ec2 = ''POST / HTTP/1.1 ec2 RunInstances&MaxCount=1&ImageId=ami-0123456789abcdef&MinCount=1''"

lemma ec2_rewrite_witness:
  "fst (v2filter_client 32 (\<lambda>i. 7) sample_ec2 []) =
      Inr ''POST / HTTP/1.1 ec2 RunInstances&MaxCount=1inCount=1'' \<and>
    cloud_inv 1 (snd (v2filter_client 32 (\<lambda>i. 7) sample_ec2 []))"
proof -
  have finds: "str_find sample_ec2 ''ec2'' = Some 16" "str_find sample_ec2 ''RunInstances'' = Some 20"
      "str_find sample_ec2 ''MaxCount='' = Some 33" "str_find sample_ec2 ''POST'' = Some 0"
    by (simp_all add: sample_ec2_def)
  have one: "to_string (Suc 0) = ''1''"
    by code_simp
  have "stoi (''1'' @ drop 43 sample_ec2) = Inr 1"
    using stoi_to_string [of 1 "drop 43 sample_ec2"]
    by (simp add: sample_ec2_def one is_digit_of_def digit_value_def)
  then have count: "count_requested sample_ec2 33 0 = Inr (int 1)"
    by (simp add: count_requested_def substr_def size_sub_def sample_ec2_def)
  have new: "take (33 + 9) sample_ec2 @ to_string (min 1 (2 - 0)) @ drop (33 + 9 + 32) sample_ec2 =
      ''POST / HTTP/1.1 ec2 RunInstances&MaxCount=1inCount=1''"
    by (simp add: sample_ec2_def one)
  show ?thesis
    using ec2_rewrite [OF cloud_inv_Nil _ _ finds(3,4) count, of 32 "\<lambda>i. 7"] finds new by simp
qed

text \<open>
  Every instance identifier of an answer is collected. An answer that
  contains the identifiers \<open>i1 ... in\<close> in \<open>instanceId\<close> elements, with any other text around
  them, has the effect of assigning them one after the other to the oldest EC2 resources without
  one, stopping at the first that finds no resource.
\<close>

theorem instance_ids_collected:
  assumes "untagged t" and "list_all (\<lambda>(iid, u). CHR ''<'' \<notin> set iid \<and> untagged u) its"
    and "length (t @ instance_text its) < 2 ^ 64"
  shows "v2filter_server (t @ instance_text its) m = assign_all (map fst its) m"
  using collect_from [of 0 "t @ instance_text its" t its m] assms
  by (simp add: v2filter_server_def collect_resource_data_def str_find_from_0)

lemma instance_ids_collected_witness:
  "v2filter_server (''<a>'' @ instance_text [(''i-1'', ''</a><a>''), (''i-2'', ''</a>'')]) [] =
     assign_all (map fst [(''i-1'', ''</a><a>''), (''i-2'', ''</a>'')]) []"
  by (rule instance_ids_collected) (simp_all add: untagged_def tag_shape)

end
