(* ===== verification/Http_Proxy.thy ===== *)
theory Http_Proxy
  imports Http_Response V2_Filter
begin

text \<open>
  The proxy's treatment of one connection: the four callbacks of \<open>HTTPProxy::loop\<close>
  (\<open>src/src/httpserver/http_proxy.cc\<close>), the canned answer to a blocked request, and the record
  written by \<open>HTTPDiskStore::save\<close> (\<open>src/src/http/backing_store.cc\<close>). A callback is one step of
  the poller; what it reads from a socket is its argument, what it writes is appended to the
  connection's output. An exception ends the connection but not the process, so the accounting of
  cloud resources is returned beside the result; \<^const>\<open>None\<close> as a result is a parse loop that
  does not end.
\<close>

section \<open>The backing store\<close>

record stored_exchange =
  stored_ip :: string
  stored_port :: nat
  stored_https :: bool
  stored_request :: proto_message
  stored_response :: proto_message

definition save :: "http_response \<Rightarrow> string \<times> nat \<Rightarrow> stored_exchange res" where
  "save resp server_address =
     rbind (toprotobuf (request_of resp)) (\<lambda>req.
     rbind (toprotobuf resp) (\<lambda>ans.
       Inr \<lparr>stored_ip = fst server_address, stored_port = snd server_address,
            stored_https = (snd server_address = 443), stored_request = req,
            stored_response = ans\<rparr>))"

section \<open>The canned response\<close>

definition status_messages :: "nat \<Rightarrow> string res" where
  "status_messages status =
     (if status = 400 then Inr ''Bad Request''
      else if status = 404 then Inr ''Not Found''
      else if status = 405 then Inr ''Method Not Allowed''
      else if status = 429 then Inr ''%''
      else Inl OutOfRange)"

definition get_canned_response :: "nat \<Rightarrow> http_message \<Rightarrow> string res" where
  "get_canned_response status request =
     rbind (set_request request http_response_new) (\<lambda>r1.
     rbind (status_messages status) (\<lambda>msg.
     rbind (set_first_line (''HTTP/1.1 '' @ to_string status @ '' '' @ msg) r1) (\<lambda>r2.
     rbind (add_header \<lparr>header_key = ''Content-Length'', header_value = ''0''\<rparr> r2) (\<lambda>r3.
     rbind (add_header \<lparr>header_key = ''Content-Type'', header_value = ''text/plain''\<rparr> r3) (\<lambda>r4.
     rbind (done_with_headers response_calculate r4) (\<lambda>r5.
     rbind (read_in_body response_read_complex '''' r5) (\<lambda>(n, r6).
       if state r6 \<noteq> COMPLETE then Inl AssertFail else message_str r6)))))))"

section \<open>The callbacks\<close>

record connection =
  request_parser :: request_parser
  response_parser :: response_parser
  server_addr :: "string \<times> nat"
  to_server :: string
  to_client :: string
  saved :: "stored_exchange list"

definition connection_new :: "string \<times> nat \<Rightarrow> connection" where
  "connection_new original_dest =
     \<lparr>request_parser = request_parser_new, response_parser = response_parser_new,
      server_addr = original_dest, to_server = '''', to_client = '''', saved = []\<rparr>"

text \<open>\<open>string buffer = server.read(); ...\<close>\<close>

definition on_server_readable ::
  "string \<Rightarrow> connection \<Rightarrow> cloud_list \<Rightarrow> connection res option \<times> cloud_list" where
  "on_server_readable buf c m =
     (case v2filter_server buf m of
        (Inl e, m1) \<Rightarrow> (Some (Inl e), m1)
      | (Inr _, m1) \<Rightarrow>
          (obind (response_parse buf (response_parser c)) (\<lambda>rp.
             Some (Inr (c\<lparr>response_parser := rp\<rparr>))), m1))"

text \<open>The branch of a blocked read.\<close>

definition spoof_response :: "string \<Rightarrow> connection \<Rightarrow> connection res option" where
  "spoof_response buf c =
     obind (request_parse buf (request_parser c)) (\<lambda>qp.
     obind (Some (sequence_front qp)) (\<lambda>client_message.
     obind (Some (sequence_pop qp)) (\<lambda>qp1.
     obind (Some (get_canned_response 405 client_message)) (\<lambda>answer.
     obind (response_parse answer (new_request_arrived client_message (response_parser c))) (\<lambda>rp.
       Some (Inr (c\<lparr>request_parser := qp1, response_parser := rp\<rparr>)))))))"

definition on_client_readable ::
  "nat \<Rightarrow> (nat \<Rightarrow> int) \<Rightarrow> string \<Rightarrow> connection \<Rightarrow> cloud_list \<Rightarrow> connection res option \<times> cloud_list"
  where
  "on_client_readable sizeof_string now buf c m =
     (case v2filter_client sizeof_string now buf m of
        (Inl e, m1) \<Rightarrow> (Some (Inl e), m1)
      | (Inr client_message, m1) \<Rightarrow>
          (if client_message \<noteq> ''BLOCKED''
           then obind (request_parse client_message (request_parser c)) (\<lambda>qp.
                  Some (Inr (c\<lparr>request_parser := qp\<rparr>)))
           else spoof_response buf c, m1))"

text \<open>Polled for only while \<open>not request_parser.empty()\<close>.\<close>

definition on_server_writable :: "connection \<Rightarrow> connection res" where
  "on_server_writable c =
     rbind (sequence_front (request_parser c)) (\<lambda>request.
     rbind (message_str request) (\<lambda>text.
     rbind (sequence_pop (request_parser c)) (\<lambda>qp.
       Inr (c\<lparr>to_server := to_server c @ text,
              response_parser := new_request_arrived request (response_parser c),
              request_parser := qp\<rparr>))))"

definition on_client_writable :: "connection \<Rightarrow> connection res" where
  "on_client_writable c =
     rbind (sequence_front (response_parser c)) (\<lambda>resp.
     rbind (message_str resp) (\<lambda>text.
     rbind (save resp (server_addr c)) (\<lambda>exchange.
     rbind (sequence_pop (response_parser c)) (\<lambda>rp.
       Inr (c\<lparr>to_client := to_client c @ text, saved := saved c @ [exchange],
              response_parser := rp\<rparr>)))))"

section \<open>The answer to a blocked request\<close>

lemma canned_405_calculate:
  assumes "state m = BODY_PENDING" and "state_code FIRST_LINE_PENDING < state_code (state (request_of m))"
    and "first_line m = ''HTTP/1.1 405 Method Not Allowed''"
    and "headers m = [\<lparr>header_key = ''Content-Length'', header_value = ''0''\<rparr>,
      \<lparr>header_key = ''Content-Type'', header_value = ''text/plain''\<rparr>]"
  shows "response_calculate m = Inr (m\<lparr>expected_body_size_pair := (True, 0)\<rparr>)"
proof -
  have "pieces (CHR '' '') ''HTTP/1.1 405 Method Not Allowed'' =
      [''HTTP/1.1'', ''405'', ''Method'', ''Not'', ''Allowed'']"
    by simp
  then have "split (first_line m) '' '' = Inr [''HTTP/1.1'', ''405'', ''Method'', ''Not'', ''Allowed'']"
    using split_char [of "''HTTP/1.1 405 Method Not Allowed''" "CHR '' ''"] assms(3) by simp
  then obtain b where b: "bodiless m = Inr b"
    using assms(1,2) by (simp add: bodiless_def status_code_def is_head_def)
  have te: "canonical ''Content-Length'' \<noteq> canonical ''Transfer-Encoding''"
      "canonical ''Content-Type'' \<noteq> canonical ''Transfer-Encoding''"
    by (simp_all add: canonical_def http_to_lower_def char_of_def bit_0)
  have zero: "myatoi ''0'' 10 = Inr 0"
    by code_simp
  have sizes: "set_expected_body_size True 0 m = Inr (m\<lparr>expected_body_size_pair := (True, 0)\<rparr>)"
    using assms(1) by (simp add: set_expected_body_size_def)
  have "chunked_coding m = Inr False"
    using te assms(4) by (simp add: chunked_coding_def has_header_def has_header_in_iff)
  moreover have "response_rules_3_to_5 m = Inr (m\<lparr>expected_body_size_pair := (True, 0)\<rparr>)"
    using te assms(4) zero sizes
    by (simp add: response_rules_3_to_5_def has_header_def has_header_in_iff get_header_value_def
        get_header_value_in_find)
  ultimately show ?thesis
    using b sizes assms(1) by (cases b) (simp_all add: response_calculate_def)
qed

definition canned_405 :: string where
  "canned_405 =
     ''HTTP/1.1 405 Method Not Allowed'' @ CRLF @ ''Content-Length: 0'' @ CRLF @
     ''Content-Type: text/plain'' @ CRLF @ CRLF"

lemma get_canned_405:
  assumes "state r \<noteq> FIRST_LINE_PENDING"
  shows "get_canned_response 405 r = Inr canned_405"
proof -
  have "to_string 405 = ''405''"
    by code_simp
  moreover have "state_code FIRST_LINE_PENDING < state_code (state r)"
    using assms by (cases "state r") simp_all
  ultimately show ?thesis
    by (simp add: get_canned_response_def set_request_def http_response_new_def status_messages_def
        set_first_line_def add_header_def done_with_headers_def canned_405_calculate
        read_in_body_def body_size_is_known_def read_known_body_def expected_body_size_def
        substr_def message_str_def header_str_def canned_405_def)
qed

text \<open>The message the response parser makes of the canned text, for the request \<open>q\<close>.\<close>

definition canned_message :: "http_message \<Rightarrow> http_response" where
  "canned_message q =
     \<lparr>expected_body_size_pair = (True, 0), first_line = ''HTTP/1.1 405 Method Not Allowed'',
      headers = [\<lparr>header_key = ''Content-Length'', header_value = ''0''\<rparr>,
        \<lparr>header_key = ''Content-Type'', header_value = ''text/plain''\<rparr>],
      body = '''', state = COMPLETE, request_of = q, body_parser = None\<rparr>"

lemma canned_message_framed:
  assumes "state q \<noteq> FIRST_LINE_PENDING"
  shows "framed (canned_message q)" and "response_text (canned_message q) = canned_405"
proof -
  have "state_code FIRST_LINE_PENDING < state_code (state q)"
    using assms by (cases "state q") simp_all
  then have "response_calculate (at_headers_end (canned_message q)) =
      Inr ((at_headers_end (canned_message q))\<lparr>expected_body_size_pair := (True, 0)\<rparr>)"
    by (intro canned_405_calculate) (simp_all add: at_headers_end_def canned_message_def)
  then show "framed (canned_message q)"
    unfolding framed_def
    by (intro conjI disjI1) (simp_all add: canned_message_def line_ok_def header_wf_def header_str_def)
  show "response_text (canned_message q) = canned_405"
    by (simp add: response_text_def canned_message_def canned_405_def header_str_def)
qed

lemma length_canned_405: "length canned_405 = 80"
  by (simp add: canned_405_def)

lemma same_canned:
  "same_response (canned_message q) r \<Longrightarrow> request_of r = q \<and> message_str r = Inr canned_405 \<and> state r = COMPLETE"
  by (simp add: same_response_def canned_message_def message_str_def canned_405_def header_str_def)

text \<open>An idle response parser answers the oldest waiting request with the canned text.\<close>

lemma canned_parse:
  assumes "message_in_progress rp = http_response_new" and "buffer rp = ''''"
    and "requests rp = q # qs" and "state q \<noteq> FIRST_LINE_PENDING"
  shows "\<exists>r. same_response (canned_message q) r \<and> response_parse canned_405 rp =
    Some (Inr (rp\<lparr>requests := qs, buffer := '''', complete_messages := complete_messages rp @ [r],
      message_in_progress := http_response_new\<rparr>))"
proof -
  let ?rp = "more_input canned_405 rp"
  have parse: "response_parse canned_405 rp = parse_loop HTTPResponse response_initialize ?rp"
    by (simp add: response_parse_def response.parse_nonempty canned_405_def)
  have shape: "message_in_progress ?rp = http_response_new" "buffer ?rp = response_text (canned_message q) @ ''''"
      "requests ?rp = request_of (canned_message q) # qs" "complete_messages ?rp = complete_messages rp"
    using assms canned_message_framed(2) [OF assms(4)]
    by (simp_all add: more_input_def canned_message_def)
  have len: "length (buffer ?rp) < INPUT_LIMIT"
    using assms(2) length_canned_405 by (simp add: INPUT_LIMIT_def)
  obtain r where r: "same_response (canned_message q) r"
    and loop: "parse_loop HTTPResponse response_initialize ?rp = parse_loop HTTPResponse response_initialize
      (?rp\<lparr>requests := qs, buffer := '''', complete_messages := complete_messages ?rp @ [r],
        message_in_progress := http_response_new\<rparr>)"
    using response_loop_text [OF canned_message_framed(1) [OF assms(4)] shape(1) shape(3) shape(2) len]
    by blast
  let ?finished = "?rp\<lparr>requests := qs, buffer := '''', complete_messages := complete_messages ?rp @ [r],
        message_in_progress := http_response_new\<rparr>"
  have "parse_loop HTTPResponse response_initialize ?finished = Some (Inr ?finished)"
    by (rule response.loop_idle) (simp_all add: http_response_new_def)
  moreover have "?finished = rp\<lparr>requests := qs, buffer := '''', complete_messages := complete_messages rp @ [r],
        message_in_progress := http_response_new\<rparr>"
    by (cases rp) (simp add: more_input_def)
  ultimately show ?thesis
    using parse loop r by auto
qed

text \<open>An idle request parser takes in one more request.\<close>

lemma request_parse_one:
  assumes "message_in_progress qp = http_message_new" and "buffer qp = ''''" and "request_wf q"
  shows "request_parse (projr (message_str q)) qp =
    Some (Inr (qp\<lparr>complete_messages := complete_messages qp @ [sized q]\<rparr>))"
proof -
  have str: "message_str q = Inr (projr (message_str q))" and ne: "projr (message_str q) \<noteq> ''''"
    using assms(3) by (simp_all add: request_wf_def message_str_def CRLF_def)
  let ?qp = "more_input (projr (message_str q)) qp"
  have "request_parse (projr (message_str q)) qp = parse_loop HTTPRequest request_initialize ?qp"
    using ne by (simp add: request_parse_def request.parse_nonempty)
  also have "\<dots> = Some (Inr (?qp\<lparr>buffer := '''', complete_messages := complete_messages ?qp @ map sized [q]\<rparr>))"
    by (rule request_loop_strs) (use assms in simp_all)
  finally show ?thesis
    using assms(2) by (simp add: more_input_def)
qed

text \<open>
  What the branch of a blocked read does on an idle connection with requests waiting: it takes the
  oldest of them, not the blocked one.
\<close>

lemma spoof_response_idle:
  assumes qp: "message_in_progress (request_parser c) = http_message_new" "buffer (request_parser c) = ''''"
    and rp: "message_in_progress (response_parser c) = http_response_new" "buffer (response_parser c) = ''''"
      "requests (response_parser c) = []"
    and q: "request_wf q" and waiting: "complete_messages (request_parser c) @ [sized q] = first # others"
    and st: "state first = COMPLETE"
  shows "\<exists>c' r. spoof_response (projr (message_str q)) c = Some (Inr c') \<and>
    complete_messages (request_parser c') = others \<and>
    message_in_progress (request_parser c') = http_message_new \<and>
    complete_messages (response_parser c') = complete_messages (response_parser c) @ [r] \<and>
    request_of r = first \<and> message_str r = Inr canned_405 \<and> to_server c' = to_server c"
proof -
  have first: "state first \<noteq> FIRST_LINE_PENDING"
    using st by simp
  let ?qp = "(request_parser c)\<lparr>complete_messages := first # others\<rparr>"
  have parse: "request_parse (projr (message_str q)) (request_parser c) = Some (Inr ?qp)"
    using request_parse_one [OF qp q] waiting by simp
  let ?rp = "new_request_arrived first (response_parser c)"
  have shape: "message_in_progress ?rp = http_response_new" "buffer ?rp = ''''" "requests ?rp = first # []"
      "complete_messages ?rp = complete_messages (response_parser c)"
    using rp by (simp_all add: new_request_arrived_def)
  obtain r where r: "same_response (canned_message first) r" and rp': "response_parse canned_405 ?rp =
      Some (Inr (?rp\<lparr>requests := [], buffer := '''', complete_messages := complete_messages ?rp @ [r],
        message_in_progress := http_response_new\<rparr>))"
    using canned_parse [OF shape(1,2,3) first] by blast
  show ?thesis
    using parse rp' shape(4) same_canned [OF r] get_canned_405 [OF first] qp
    by (simp add: spoof_response_def sequence_front_def sequence_pop_def)
qed

section \<open>Reads the filter does not touch\<close>

fun client_reads ::
  "nat \<Rightarrow> (nat \<Rightarrow> int) \<Rightarrow> string list \<Rightarrow> connection \<Rightarrow> cloud_list \<Rightarrow> connection res option \<times> cloud_list"
  where
  "client_reads sizeof_string now [] c m = (Some (Inr c), m)"
| "client_reads sizeof_string now (buf # bufs) c m =
     (case on_client_readable sizeof_string now buf c m of
        (Some (Inr c1), m1) \<Rightarrow> client_reads sizeof_string now bufs c1 m1
      | r \<Rightarrow> r)"

fun server_writes :: "nat \<Rightarrow> connection \<Rightarrow> connection res" where
  "server_writes 0 c = Inr c"
| "server_writes (Suc k) c = rbind (on_server_writable c) (server_writes k)"

definition innocent :: "string \<Rightarrow> bool" where
  "innocent buf \<longleftrightarrow>
     buf \<noteq> '''' \<and> buf \<noteq> ''BLOCKED'' \<and> str_find buf ''lambda'' = None \<and>
     (str_find buf ''ec2'' = None \<or> str_find buf ''RunInstances'' = None)"

lemma filter_innocent:
  assumes "innocent buf"
  shows "v2filter_client sizeof_string now buf m = (Inr buf, m)"
proof -
  have "limit_loop sizeof_string now keyword_table (buf, buf, False) m = (Inr (buf, buf, False), m)"
    by (rule limit_loop_no_keyword) (use assms in \<open>auto simp: keyword_table_def innocent_def\<close>)
  then show ?thesis
    by (simp add: v2filter_client_def limit_resource_def)
qed

lemma client_reads_innocent:
  "list_all innocent parts \<Longrightarrow>
     client_reads sizeof_string now parts c m =
       (obind (parse_pieces HTTPRequest request_initialize parts (request_parser c)) (\<lambda>qp.
          Some (Inr (c\<lparr>request_parser := qp\<rparr>))), m)"
proof (induction parts arbitrary: c)
  case Nil
  then show ?case by simp
next
  case (Cons x xs)
  have x: "on_client_readable sizeof_string now x c m =
      (obind (request_parse x (request_parser c)) (\<lambda>qp. Some (Inr (c\<lparr>request_parser := qp\<rparr>))), m)"
    using Cons.prems by (simp add: on_client_readable_def filter_innocent innocent_def)
  show ?case
  proof (cases "request_parse x (request_parser c)")
    case None
    then show ?thesis using x by (simp add: request_parse_def)
  next
    case (Some r)
    show ?thesis
    proof (cases r)
      case (Inl e)
      then show ?thesis using x Some by (simp add: request_parse_def)
    next
      case (Inr qp)
      then show ?thesis
        using x Some Cons.IH [of "c\<lparr>request_parser := qp\<rparr>"] Cons.prems
        by (simp add: request_parse_def)
    qed
  qed
qed

lemma server_writes_all:
  assumes "complete_messages (request_parser c) = map sized ms @ rest" and "list_all request_wf ms"
  shows "\<exists>c'. server_writes (length ms) c = Inr c' \<and>
    to_server c' = to_server c @ concat (map (\<lambda>m. projr (message_str m)) ms) \<and>
    requests (response_parser c') = requests (response_parser c) @ map sized ms \<and>
    complete_messages (request_parser c') = rest"
  using assms
proof (induction ms arbitrary: c)
  case Nil
  then show ?case by simp
next
  case (Cons q ms)
  have str: "message_str (sized q) = Inr (projr (message_str q))"
    using Cons.prems(2) by (simp add: request_wf_def message_str_def sized_def)
  let ?c = "c\<lparr>to_server := to_server c @ projr (message_str q),
      response_parser := new_request_arrived (sized q) (response_parser c),
      request_parser := (request_parser c)\<lparr>complete_messages := map sized ms @ rest\<rparr>\<rparr>"
  have "on_server_writable c = Inr ?c"
    using Cons.prems(1) str
    by (simp add: on_server_writable_def sequence_front_def sequence_pop_def)
  moreover obtain c' where "server_writes (length ms) ?c = Inr c'"
    "to_server c' = to_server ?c @ concat (map (\<lambda>m. projr (message_str m)) ms)"
    "requests (response_parser c') = requests (response_parser ?c) @ map sized ms"
    "complete_messages (request_parser c') = rest"
    using Cons.IH [of ?c] Cons.prems(2) by auto
  ultimately show ?case
    by (simp add: new_request_arrived_def)
qed

section \<open>Properties\<close>

text \<open>
  The proxy is transparent to traffic that names no cloud resource. However
  the bytes of a sequence of well-formed requests are cut into reads, if no read looks like an
  invocation, the reads raise no exception, record nothing, and the server is then sent exactly
  these bytes, with each request queued to be matched with its response.
\<close>

theorem requests_forwarded:
  assumes "parts \<noteq> []" and "list_all innocent parts" and "list_all request_wf ms"
    and "concat parts = concat (map (\<lambda>m. projr (message_str m)) ms)"
    and "length (concat parts) < 2 ^ 32 - 2"
  shows "\<exists>c' c''. client_reads sizeof_string now parts (connection_new dest) m = (Some (Inr c'), m) \<and>
    server_writes (length ms) c' = Inr c'' \<and> to_server c'' = concat parts \<and>
    requests (response_parser c'') = map sized ms \<and> sequence_empty (request_parser c'')"
proof -
  have ne: "\<forall>part \<in> set parts. part \<noteq> ''''" and ne2: "concat parts \<noteq> ''''"
    using assms(1,2) by (cases parts; auto simp: list_all_iff innocent_def)+
  have len: "held_input request_parser_new + length (concat parts) < INPUT_LIMIT"
    using assms(5) request_parser_new_ok by (simp add: INPUT_LIMIT_def)
  let ?qp = "request_parser_new\<lparr>complete_messages := map sized ms\<rparr>"
  have "parse_pieces HTTPRequest request_initialize parts request_parser_new =
      parse HTTPRequest request_initialize (concat parts) request_parser_new"
    using request.parse_segmentation [OF assms(1) ne _ len] request_parser_new_ok
    by (simp add: outcome_id)
  also have "\<dots> = parse_loop HTTPRequest request_initialize (more_input (concat parts) request_parser_new)"
    by (rule request.parse_nonempty [OF ne2])
  also have "\<dots> = Some (Inr ((more_input (concat parts) request_parser_new)\<lparr>buffer := '''',
      complete_messages := complete_messages (more_input (concat parts) request_parser_new) @ map sized ms\<rparr>))"
    by (rule request_loop_strs) (use assms(3,4) in \<open>simp_all add: request_parser_new_def\<close>)
  also have "\<dots> = Some (Inr ?qp)"
    by (simp add: request_parser_new_def more_input_def)
  finally have reads: "client_reads sizeof_string now parts (connection_new dest) m =
      (Some (Inr ((connection_new dest)\<lparr>request_parser := ?qp\<rparr>)), m)"
    using client_reads_innocent [OF assms(2)] by (simp add: connection_new_def)
  let ?c = "(connection_new dest)\<lparr>request_parser := ?qp\<rparr>"
  have "complete_messages (request_parser ?c) = map sized ms @ []"
    by simp
  from server_writes_all [OF this assms(3)] obtain c'' where "server_writes (length ms) ?c = Inr c''"
    "to_server c'' = concat parts" "requests (response_parser c'') = map sized ms"
    "complete_messages (request_parser c'') = []"
    using assms(4) by (auto simp: connection_new_def response_parser_new_def)
  with reads show ?thesis by (auto simp: sequence_empty_def)
qed

lemma requests_forwarded_witness:
  "\<exists>c' c''. client_reads 32 (\<lambda>i. 7) [take 20 (projr (message_str sample_get)), drop 20 (projr (message_str sample_get))]
      (connection_new (''10.0.0.1'', 80)) [] = (Some (Inr c'), []) \<and>
    server_writes (length [sample_get]) c' = Inr c'' \<and>
    to_server c'' = concat [take 20 (projr (message_str sample_get)), drop 20 (projr (message_str sample_get))] \<and>
    requests (response_parser c'') = map sized [sample_get] \<and> sequence_empty (request_parser c'')"
proof (rule requests_forwarded)
  have get: "projr (message_str sample_get) =
      ''GET / HTTP/1.1'' @ CRLF @ ''Host: a.example'' @ CRLF @ CRLF"
    by (simp add: message_str_def sample_get_def header_str_def)
  show "list_all innocent [take 20 (projr (message_str sample_get)), drop 20 (projr (message_str sample_get))]"
    by (simp add: get innocent_def CRLF_def)
  show "list_all request_wf [sample_get]"
    by (simp add: sample_get_wf)
  show "length (concat [take 20 (projr (message_str sample_get)), drop 20 (projr (message_str sample_get))])
      < 2 ^ 32 - 2"
    by (simp add: get)
qed simp_all

text \<open>
  C6: a blocked request never reaches the server. On a fresh connection, once two
  resources were invoked, a read that is one whole request naming a function leaves nothing to
  forward, and the client is to be sent the canned 405 answer, matched with that request.
\<close>

theorem blocked_request:
  assumes "cloud_inv n m" and "2 \<le> n" and "request_wf q"
    and "str_find (projr (message_str q)) ''lambda'' \<noteq> None"
    and "str_find (projr (message_str q)) ''ec2'' = None \<or> str_find (projr (message_str q)) ''RunInstances'' = None"
  shows "\<exists>c' r m'. on_client_readable sizeof_string now (projr (message_str q)) (connection_new dest) m =
      (Some (Inr c'), m') \<and>
    sequence_empty (request_parser c') \<and> to_server c' = '''' \<and>
    complete_messages (response_parser c') = [r] \<and> request_of r = sized q \<and>
    message_str r = Inr (''HTTP/1.1 405 Method Not Allowed'' @ CRLF @ ''Content-Length: 0'' @ CRLF @
      ''Content-Type: text/plain'' @ CRLF @ CRLF)"
proof -
  have filter: "fst (v2filter_client sizeof_string now (projr (message_str q)) m) = Inr ''BLOCKED''"
    using lambda_filtered [OF assms(1,4,5)] assms(2) by simp
  obtain m' where m': "v2filter_client sizeof_string now (projr (message_str q)) m = (Inr ''BLOCKED'', m')"
    using filter by (cases "v2filter_client sizeof_string now (projr (message_str q)) m") simp
  have "state (sized q) = COMPLETE"
    using assms(3) by (simp add: request_wf_def sized_def)
  then obtain c' r where "spoof_response (projr (message_str q)) (connection_new dest) = Some (Inr c')"
    "complete_messages (request_parser c') = []"
    "complete_messages (response_parser c') = complete_messages (response_parser (connection_new dest)) @ [r]"
    "request_of r = sized q" "message_str r = Inr canned_405"
    "to_server c' = to_server (connection_new dest)"
    using spoof_response_idle [of "connection_new dest" q "sized q" "[]"] assms(3)
    by (auto simp: connection_new_def request_parser_new_def response_parser_new_def)
  then show ?thesis
    using m' by (simp add: on_client_readable_def sequence_empty_def canned_405_def connection_new_def
        response_parser_new_def)
qed

definition sample_lambda :: http_message where
  "sample_lambda =
     \<lparr>expected_body_size_pair = (True, 0), first_line = ''GET /lambda HTTP/1.1'',
      headers = [], body = '''', state = COMPLETE\<rparr>"

lemma sample_lambda_facts:
  "request_wf sample_lambda"
  "projr (message_str sample_lambda) = ''GET /lambda HTTP/1.1'' @ CRLF @ CRLF"
  "str_find (projr (message_str sample_lambda)) ''lambda'' \<noteq> None"
  "str_find (projr (message_str sample_lambda)) ''ec2'' = None"
  by (simp_all add: request_wf_def sample_lambda_def line_ok_def request_calculate_def
      set_expected_body_size_def message_str_def CRLF_def)

definition full_list :: cloud_list where
  "full_list = cloud_run (\<lambda>i. 0) [InvokeMany ''lambda'' 2] []"

lemma full_list_inv: "cloud_inv 2 full_list"
  using cloud_run_inv [OF cloud_inv_Nil, of "[InvokeMany ''lambda'' 2]" "\<lambda>i. 0"]
  by (simp add: full_list_def numeral_2_eq_2)

lemma blocked_request_witness:
  "\<exists>c' r m'. on_client_readable 32 (\<lambda>i. 7) (projr (message_str sample_lambda))
      (connection_new (''10.0.0.1'', 80)) full_list = (Some (Inr c'), m') \<and>
    sequence_empty (request_parser c') \<and> to_server c' = '''' \<and>
    complete_messages (response_parser c') = [r] \<and> request_of r = sized sample_lambda \<and>
    message_str r = Inr (''HTTP/1.1 405 Method Not Allowed'' @ CRLF @ ''Content-Length: 0'' @ CRLF @
      ''Content-Type: text/plain'' @ CRLF @ CRLF)"
  by (rule blocked_request [OF full_list_inv]) (use sample_lambda_facts in simp_all)

text \<open>
  C27: but only on an idle connection. When an earlier, allowed request
  still waits to be sent, the same read takes that one out of the queue instead: the earlier
  request gets the canned answer and is never sent, and the next write sends the blocked
  request to the server.
\<close>

theorem blocked_request_forwarded:
  assumes "cloud_inv n m" and "2 \<le> n" and "request_wf p" and "request_wf q"
    and "str_find (projr (message_str q)) ''lambda'' \<noteq> None"
    and "str_find (projr (message_str q)) ''ec2'' = None \<or> str_find (projr (message_str q)) ''RunInstances'' = None"
  shows "\<exists>c' r m' c''. on_client_readable sizeof_string now (projr (message_str q))
      ((connection_new dest)\<lparr>request_parser := request_parser_new\<lparr>complete_messages := [sized p]\<rparr>\<rparr>) m =
        (Some (Inr c'), m') \<and>
    complete_messages (response_parser c') = [r] \<and> request_of r = sized p \<and>
    on_server_writable c' = Inr c'' \<and> to_server c'' = projr (message_str q)"
proof -
  let ?c = "(connection_new dest)\<lparr>request_parser := request_parser_new\<lparr>complete_messages := [sized p]\<rparr>\<rparr>"
  have filter: "fst (v2filter_client sizeof_string now (projr (message_str q)) m) = Inr ''BLOCKED''"
    using lambda_filtered [OF assms(1,5,6)] assms(2) by simp
  obtain m' where m': "v2filter_client sizeof_string now (projr (message_str q)) m = (Inr ''BLOCKED'', m')"
    using filter by (cases "v2filter_client sizeof_string now (projr (message_str q)) m") simp
  have "state (sized p) = COMPLETE"
    using assms(3) by (simp add: request_wf_def sized_def)
  then obtain c' r where c': "spoof_response (projr (message_str q)) ?c = Some (Inr c')"
    "complete_messages (request_parser c') = [sized q]"
    "complete_messages (response_parser c') = complete_messages (response_parser ?c) @ [r]"
    "request_of r = sized p" "to_server c' = to_server ?c"
    using spoof_response_idle [of ?c q "sized p" "[sized q]"] assms(4)
    by (auto simp: connection_new_def request_parser_new_def response_parser_new_def)
  have str: "message_str (sized q) = Inr (projr (message_str q))"
    using assms(4) by (simp add: request_wf_def message_str_def sized_def)
  have "\<exists>c''. on_server_writable c' = Inr c'' \<and> to_server c'' = projr (message_str q)"
    using c'(2,5) str
    by (simp add: on_server_writable_def sequence_front_def sequence_pop_def connection_new_def)
  then show ?thesis
    using m' c' by (auto simp: on_client_readable_def connection_new_def response_parser_new_def)
qed

lemma blocked_request_forwarded_witness:
  "\<exists>c' r m' c''. on_client_readable 32 (\<lambda>i. 7) (projr (message_str sample_lambda))
      ((connection_new (''10.0.0.1'', 80))
        \<lparr>request_parser := request_parser_new\<lparr>complete_messages := [sized sample_get]\<rparr>\<rparr>) full_list =
        (Some (Inr c'), m') \<and>
    complete_messages (response_parser c') = [r] \<and> request_of r = sized sample_get \<and>
    on_server_writable c' = Inr c'' \<and> to_server c'' = projr (message_str sample_lambda)"
  by (rule blocked_request_forwarded [OF full_list_inv]) (use sample_lambda_facts sample_get_wf in simp_all)

text \<open>
  And only if the read completes a request. When a blocked read leaves
  the request parser without a complete request, the proxy takes the front of an empty queue,
  which has no defined behaviour.
\<close>

theorem blocked_read_undefined:
  assumes "cloud_inv n m" and "2 \<le> n" and "str_find buf ''lambda'' \<noteq> None"
    and "str_find buf ''ec2'' = None \<or> str_find buf ''RunInstances'' = None"
    and "request_parse buf (request_parser c) = Some (Inr qp)" and "sequence_empty qp"
  shows "fst (on_client_readable sizeof_string now buf c m) = Some (Inl Undefined)"
proof -
  have filter: "fst (v2filter_client sizeof_string now buf m) = Inr ''BLOCKED''"
    using lambda_filtered [OF assms(1,3,4)] assms(2) by simp
  then obtain m' where "v2filter_client sizeof_string now buf m = (Inr ''BLOCKED'', m')"
    by (cases "v2filter_client sizeof_string now buf m") simp
  then show ?thesis
    using assms(5,6)
    by (simp add: on_client_readable_def spoof_response_def sequence_front_def sequence_empty_def)
qed

lemma blocked_read_undefined_witness:
  "fst (on_client_readable 32 (\<lambda>i. 7) ''GET /lambda HT'' (connection_new (''10.0.0.1'', 80)) full_list) =
     Some (Inl Undefined)"
proof (rule blocked_read_undefined [OF full_list_inv])
  let ?qp = "more_input ''GET /lambda HT'' request_parser_new"
  show "request_parse ''GET /lambda HT'' (request_parser (connection_new (''10.0.0.1'', 80))) = Some (Inr ?qp)"
    by (simp add: connection_new_def request_parse_def request.parse_nonempty parse_loop.simps
        parsing_step_def first_line_step_def have_complete_line_def more_input_def
        request_parser_new_def http_message_new_def CRLF_def)
  show "sequence_empty ?qp"
    by (simp add: sequence_empty_def request_parser_new_def)
qed simp_all

text \<open>
  The answer to a blocked request is always the same text, whatever the request,
  as long as its first line was read: status 405, an empty body announced by \<open>Content-Length\<close>,
  and no assertion fails on the way.
\<close>

theorem canned_response:
  assumes "state r \<noteq> FIRST_LINE_PENDING"
  shows "get_canned_response 405 r =
    Inr (''HTTP/1.1 405 Method Not Allowed'' @ CRLF @ ''Content-Length: 0'' @ CRLF @
      ''Content-Type: text/plain'' @ CRLF @ CRLF)"
  using get_canned_405 [OF assms] by (simp add: canned_405_def)

lemma canned_response_witness:
  "get_canned_response 405 sample_get =
    Inr (''HTTP/1.1 405 Method Not Allowed'' @ CRLF @ ''Content-Length: 0'' @ CRLF @
      ''Content-Type: text/plain'' @ CRLF @ CRLF)"
  by (rule canned_response) (simp add: sample_get_def)

text \<open>
  C36: what is stored of an exchange is what was exchanged. A response written to the
  client is saved with the server's address, HTTPS exactly for port 443, and the messages
  reconstructed from the record serialize to the request and to the response sent.
\<close>

theorem exchange_saved:
  assumes "on_client_writable c = Inr c'"
  shows "\<exists>resp x. sequence_front (response_parser c) = Inr resp \<and> saved c' = saved c @ [x] \<and>
    stored_ip x = fst (server_addr c) \<and> stored_port x = snd (server_addr c) \<and>
    stored_https x = (snd (server_addr c) = 443) \<and>
    message_str (message_of_protobuf (stored_request x)) = message_str (request_of resp) \<and>
    (\<exists>sent. message_str (message_of_protobuf (stored_response x)) = Inr sent \<and>
      to_client c' = to_client c @ sent)"
proof -
  obtain resp sent x rp where front: "sequence_front (response_parser c) = Inr resp"
    and str: "message_str resp = Inr sent" and save: "save resp (server_addr c) = Inr x"
    and c': "c' = c\<lparr>to_client := to_client c @ sent, saved := saved c @ [x], response_parser := rp\<rparr>"
    using assms by (auto simp: on_client_writable_def rbind_Inr_iff)
  then show ?thesis
    by (auto simp: save_def rbind_Inr_iff toprotobuf_def message_str_def message_of_protobuf_def
        split: if_splits)
qed

definition sample_connection :: connection where
  "sample_connection =
     (connection_new (''10.0.0.1'', 443))
       \<lparr>response_parser := response_parser_new\<lparr>complete_messages := [sample_ok]\<rparr>\<rparr>"

lemma exchange_saved_witness:
  "\<exists>c' resp x. on_client_writable sample_connection = Inr c' \<and>
    sequence_front (response_parser sample_connection) = Inr resp \<and>
    saved c' = saved sample_connection @ [x] \<and> stored_https x"
proof -
  obtain c' where c': "on_client_writable sample_connection = Inr c'"
    by (simp add: on_client_writable_def sample_connection_def connection_new_def response_parser_new_def
        sequence_front_def sequence_pop_def message_str_def save_def toprotobuf_def sample_ok_def sample_get_def)
  have "snd (server_addr sample_connection) = 443"
    by (simp add: sample_connection_def connection_new_def)
  then show ?thesis
    using exchange_saved [OF c'] c' by auto
qed

end
