(* ===== verification/Dns_Proxy.thy ===== *)
theory Dns_Proxy
  imports Poller_Loop Sockets
begin

text \<open>
  \<open>DNSProxy\<close> of \<open>src/src/util/dns_proxy.cc\<close> and the start of the name server in
  \<open>src/src/util/dns_server.cc\<close>. Each request runs on a thread of its own: a datagram is sent on, and
  one reply awaited; a connection is relayed in both directions through two byte streams, by a
  poller whose four actions meet the contract \<open>poller_client\<close>. An exception ends the thread and is
  printed, so a thread's result is a value of the result type.
\<close>

section \<open>The relay of a connection\<close>

record 'k relay_kernel =
  server_read :: "'k sys_read"
  server_write :: "'k sys_write"
  client_read :: "'k sys_read"
  client_write :: "'k sys_write"
  relay_poll_fds :: "'k sys_poll"
  server_taken :: "'k \<Rightarrow> string"
  server_given :: "'k \<Rightarrow> string"
  client_taken :: "'k \<Rightarrow> string"
  client_given :: "'k \<Rightarrow> string"

record 'k relay_world =
  dns_server :: file_descriptor
  relay_client :: file_descriptor
  from_client :: byte_stream_queue
  from_server :: byte_stream_queue
  relay_state :: 'k
  relay_calls :: "'k relay_kernel"

definition relay_new ::
  "file_descriptor \<Rightarrow> file_descriptor \<Rightarrow> 'k \<Rightarrow> 'k relay_kernel \<Rightarrow> 'k relay_world res" where
  "relay_new server client k calls =
     rbind (ring_new BUFFER_SIZE) (\<lambda>from_client.
     rbind (ring_new BUFFER_SIZE) (\<lambda>from_server.
       Inr \<lparr>dns_server = server, relay_client = client, from_client = from_client,
            from_server = from_server, relay_state = k, relay_calls = calls\<rparr>))"

definition relay_answer :: "ring_result \<Rightarrow> action_result" where
  "relay_answer r = (case r of EndOfFile \<Rightarrow> just Cancel | Success \<Rightarrow> just Continue)"

definition push_from_server :: "'k relay_world \<Rightarrow> (action_result \<times> 'k relay_world) res" where
  "push_from_server w =
     rbind (ring_push (server_read (relay_calls w)) (from_server w) (dns_server w, relay_state w))
       (\<lambda>((r, q), (fd, k)).
         Inr (relay_answer r, w\<lparr>from_server := q, dns_server := fd, relay_state := k\<rparr>))"

definition push_from_client :: "'k relay_world \<Rightarrow> (action_result \<times> 'k relay_world) res" where
  "push_from_client w =
     rbind (ring_push (client_read (relay_calls w)) (from_client w) (relay_client w, relay_state w))
       (\<lambda>((r, q), (fd, k)).
         Inr (relay_answer r, w\<lparr>from_client := q, relay_client := fd, relay_state := k\<rparr>))"

definition pop_to_server :: "'k relay_world \<Rightarrow> (action_result \<times> 'k relay_world) res" where
  "pop_to_server w =
     rbind (ring_pop (server_write (relay_calls w)) (from_client w) (dns_server w, relay_state w))
       (\<lambda>((_, q), (fd, k)).
         Inr (just Continue, w\<lparr>from_client := q, dns_server := fd, relay_state := k\<rparr>))"

definition pop_to_client :: "'k relay_world \<Rightarrow> (action_result \<times> 'k relay_world) res" where
  "pop_to_client w =
     rbind (ring_pop (client_write (relay_calls w)) (from_server w) (relay_client w, relay_state w))
       (\<lambda>((_, q), (fd, k)).
         Inr (just Continue, w\<lparr>from_server := q, relay_client := fd, relay_state := k\<rparr>))"

definition relay_actions :: "'k relay_world action list" where
  "relay_actions =
     [\<lparr>action_fd = dns_server, action_direction = In, callback = push_from_server,
       when_interested = (\<lambda>w. (space_available (from_server w), w)), active = True\<rparr>,
      \<lparr>action_fd = relay_client, action_direction = In, callback = push_from_client,
       when_interested = (\<lambda>w. (space_available (from_client w), w)), active = True\<rparr>,
      \<lparr>action_fd = dns_server, action_direction = Out, callback = pop_to_server,
       when_interested = (\<lambda>w. (non_empty (from_client w), w)), active = True\<rparr>,
      \<lparr>action_fd = relay_client, action_direction = Out, callback = pop_to_client,
       when_interested = (\<lambda>w. (non_empty (from_server w), w)), active = True\<rparr>]"

definition relay_poll :: "'k relay_world sys_poll" where
  "relay_poll ps t w =
     rbind (relay_poll_fds (relay_calls w) ps t (relay_state w)) (\<lambda>(n, rs, k).
       Inr (n, rs, w\<lparr>relay_state := k\<rparr>))"

text \<open>The timeout is constant; a timeout does not end the loop.\<close>

definition relay_wait :: "'k relay_world \<Rightarrow> (int \<times> 'k relay_world) res" where
  "relay_wait w = Inr (60000, w)"

definition relay_start :: "'k relay_world \<Rightarrow> 'k relay_world poller \<times> 'k relay_world" where
  "relay_start w = (fold (add_action w) relay_actions poller_new, w)"

definition relay_loop ::
  "'k relay_world \<Rightarrow> (u32 \<times> ('k relay_world poller \<times> 'k relay_world)) res option" where
  "relay_loop w = poll_loop relay_poll relay_wait (relay_start w)"

text \<open>
  The thread of \<open>handle_tcp\<close>: \<open>tcp_connect\<close> stands for a new socket connected to the target. The
  thread's result is that of the loop; an exception before it is a result, too.
\<close>

definition handle_tcp_connection ::
  "('k \<Rightarrow> (file_descriptor \<times> 'k) res) \<Rightarrow> 'k relay_kernel \<Rightarrow> file_descriptor \<times> 'k \<Rightarrow>
     (u32 \<times> ('k relay_world poller \<times> 'k relay_world)) res option" where
  "handle_tcp_connection tcp_connect K = (\<lambda>(client, k).
     case tcp_connect k of
       Inl e \<Rightarrow> Some (Inl e)
     | Inr (server, k') \<Rightarrow>
         (case relay_new server client k' K of
            Inl e \<Rightarrow> Some (Inl e)
          | Inr w \<Rightarrow> relay_loop w))"

section \<open>What the relay has passed on\<close>

text \<open>
  A kernel that moves bytes as a stream socket does, on two connections that do not touch each
  other.
\<close>

definition still ::
  "('k \<Rightarrow> string) \<Rightarrow> ('k \<Rightarrow> string) \<Rightarrow> 'k sys_read \<Rightarrow> 'k sys_write \<Rightarrow> bool" where
  "still taken given sys_read sys_write \<longleftrightarrow>
     (\<forall>n k s k'. sys_read n k = Inr (s, k') \<longrightarrow> taken k' = taken k \<and> given k' = given k) \<and>
     (\<forall>s k n k'. sys_write s k = Inr (n, k') \<longrightarrow> taken k' = taken k \<and> given k' = given k)"

definition relay_faithful :: "'k relay_kernel \<Rightarrow> bool" where
  "relay_faithful K \<longleftrightarrow>
     kernel_ok (client_taken K) (server_given K) (client_read K) (server_write K) \<and>
     kernel_ok (server_taken K) (client_given K) (server_read K) (client_write K) \<and>
     still (client_taken K) (server_given K) (server_read K) (client_write K) \<and>
     still (server_taken K) (client_given K) (client_read K) (server_write K) \<and>
     (\<forall>ps t k. case relay_poll_fds K ps t k of
        Inl e \<Rightarrow> \<exists>m. e = UnixError m
      | Inr (n, rs, k') \<Rightarrow> length rs = length ps \<and>
          client_taken K k' = client_taken K k \<and> server_given K k' = server_given K k \<and>
          server_taken K k' = server_taken K k \<and> client_given K k' = client_given K k)"

definition relay_inv :: "'k relay_world \<Rightarrow> bool" where
  "relay_inv w \<longleftrightarrow>
     (let K = relay_calls w; k = relay_state w
      in relay_faithful K \<and> ring_inv (from_client w) \<and> ring_inv (from_server w) \<and>
         client_taken K k = server_given K k @ ring_contents (from_client w) \<and>
         server_taken K k = client_given K k @ ring_contents (from_server w))"

definition relay_willing :: "nat \<Rightarrow> 'k relay_world \<Rightarrow> bool" where
  "relay_willing i w \<longleftrightarrow>
     (i = 0 \<longrightarrow> space_available (from_server w)) \<and> (i = 1 \<longrightarrow> space_available (from_client w)) \<and>
     (i = 2 \<longrightarrow> non_empty (from_client w)) \<and> (i = 3 \<longrightarrow> non_empty (from_server w))"

lemma relay_fd_nums:
  "fd_nums relay_actions w =
     [fd_num (dns_server w), fd_num (relay_client w), fd_num (dns_server w), fd_num (relay_client w)]"
  by (simp add: fd_nums_def relay_actions_def)

text \<open>A push is one read, a pop one write, of the descriptor they are given.\<close>

lemma ring_push_fd:
  assumes "ring_push sys_read q (fd, k) = Inr ((r, q'), (fd', k'))"
  shows "fd_num fd' = fd_num fd \<and> read_count fd' = read_count fd + 1 \<and> write_count fd' = write_count fd"
  using assms by (auto simp: ring_push_def res_iff dest: fd_read_shape split: if_splits)

lemma ring_pop_fd:
  assumes "ring_pop sys_write q (fd, k) = Inr ((sent, q'), (fd', k'))"
  shows "fd_num fd' = fd_num fd \<and> write_count fd' = write_count fd + 1 \<and> read_count fd' = read_count fd"
  using assms by (auto simp: ring_pop_def fd_write_part_def res_iff split: if_splits)

lemma ring_push_non_empty:
  assumes "ring_inv q" and "ring_inv q'" and "ring_contents q' = ring_contents q @ ch" and "non_empty q"
  shows "non_empty q'"
  using assms by (simp add: non_empty_iff)

lemma case_rbind:
  "(case rbind x f of Inl e \<Rightarrow> P e | Inr y \<Rightarrow> Q y) =
     (case x of Inl e \<Rightarrow> P e | Inr z \<Rightarrow> (case f z of Inl e \<Rightarrow> P e | Inr y \<Rightarrow> Q y))"
  by (cases x) simp_all

text \<open>
  Half of the relay: what a push or a pop does to its own direction, to its descriptor, and to the
  other direction, which is nothing.
\<close>

lemma push_half:
  assumes q: "ring_inv q" and k: "kernel_ok taken given sys_read sys_write"
    and still: "still taken' given' sys_read sys_write'" and space: "space_available q"
  shows "case ring_push sys_read q (fd, w) of
      Inl e \<Rightarrow> kernel_error e
    | Inr ((r, q'), (fd', w')) \<Rightarrow> ring_inv q' \<and> given w' = given w \<and>
        (\<exists>ch. ring_contents q' = ring_contents q @ ch \<and> taken w' = taken w @ ch) \<and>
        (non_empty q \<longrightarrow> non_empty q') \<and> taken' w' = taken' w \<and> given' w' = given' w \<and>
        fd_num fd' = fd_num fd \<and> read_count fd' = read_count fd + 1"
proof (cases "ring_push sys_read q (fd, w)")
  case (Inl e)
  then show ?thesis
    using ring_push_spec [OF q k space, where fd = fd and w = w] by simp
next
  case (Inr x)
  obtain r q' fd' w' where x: "x = ((r, q'), (fd', w'))" by (metis surj_pair)
  obtain s where "fd_read sys_read (unat (contiguous_space_to_push q)) (fd, w) = Inr (s, (fd', w'))"
    using Inr x by (auto simp: ring_push_def res_iff split: if_splits)
  from fd_read_shape [OF this] have "taken' w' = taken' w \<and> given' w' = given' w"
    using still by (auto simp: still_def)
  then show ?thesis
    using ring_push_spec [OF q k space, where fd = fd and w = w] Inr x ring_push_fd [OF Inr [unfolded x]]
      ring_push_non_empty [OF q, of q'] by auto
qed

lemma pop_half:
  assumes q: "ring_inv q" and k: "kernel_ok taken given sys_read sys_write"
    and still: "still taken' given' sys_read' sys_write" and ne: "non_empty q"
  shows "case ring_pop sys_write q (fd, w) of
      Inl e \<Rightarrow> kernel_error e
    | Inr ((sent, q'), (fd', w')) \<Rightarrow> ring_inv q' \<and> taken w' = taken w \<and>
        given w' = given w @ sent \<and> ring_contents q = sent @ ring_contents q' \<and>
        taken' w' = taken' w \<and> given' w' = given' w \<and>
        fd_num fd' = fd_num fd \<and> write_count fd' = write_count fd + 1"
proof (cases "ring_pop sys_write q (fd, w)")
  case (Inl e)
  then show ?thesis
    using ring_pop_spec [OF q k ne, where fd = fd and w = w] by simp
next
  case (Inr x)
  obtain sent q' fd' w' where x: "x = ((sent, q'), (fd', w'))" by (metis surj_pair)
  obtain n where "sys_write (pop_range q) w = Inr (n, w')"
    using Inr x by (auto simp: ring_pop_def fd_write_part_def res_iff split: if_splits)
  then have "taken' w' = taken' w \<and> given' w' = given' w"
    using still by (auto simp: still_def)
  then show ?thesis
    using ring_pop_spec [OF q k ne, where fd = fd and w = w] Inr x ring_pop_fd [OF Inr [unfolded x]]
    by auto
qed

lemma relay_kernel_facts:
  assumes "relay_inv w"
  shows "kernel_ok (server_taken (relay_calls w)) (client_given (relay_calls w))
      (server_read (relay_calls w)) (client_write (relay_calls w))"
    and "kernel_ok (client_taken (relay_calls w)) (server_given (relay_calls w))
      (client_read (relay_calls w)) (server_write (relay_calls w))"
    and "still (client_taken (relay_calls w)) (server_given (relay_calls w))
      (server_read (relay_calls w)) (client_write (relay_calls w))"
    and "still (server_taken (relay_calls w)) (client_given (relay_calls w))
      (client_read (relay_calls w)) (server_write (relay_calls w))"
    and "ring_inv (from_client w)" and "ring_inv (from_server w)"
  using assms by (simp_all add: relay_inv_def relay_faithful_def Let_def)

text \<open>What a callback does, when it is called with reason.\<close>

definition relayed :: "'k relay_world \<Rightarrow> 'k relay_world \<Rightarrow> bool" where
  "relayed w w' \<longleftrightarrow> relay_inv w' \<and> fd_nums relay_actions w' = fd_nums relay_actions w"

lemmas relayed_simps = relayed_def relay_inv_def relay_fd_nums Let_def

lemma push_from_server_spec:
  assumes "relay_inv w" and "space_available (from_server w)"
  shows "case push_from_server w of
      Inl e \<Rightarrow> kernel_error e
    | Inr (r, w') \<Rightarrow> relayed w w' \<and> from_client w' = from_client w \<and>
        (non_empty (from_server w) \<longrightarrow> non_empty (from_server w')) \<and>
        read_count (dns_server w') = read_count (dns_server w) + 1"
  using push_half [where fd = "dns_server w" and w = "relay_state w", OF relay_kernel_facts(6,1,3) assms(2), OF assms(1) assms(1) assms(1)] assms(1)
  by (auto simp: push_from_server_def case_rbind relayed_simps split: sum.splits)

lemma push_from_client_spec:
  assumes "relay_inv w" and "space_available (from_client w)"
  shows "case push_from_client w of
      Inl e \<Rightarrow> kernel_error e
    | Inr (r, w') \<Rightarrow> relayed w w' \<and> from_server w' = from_server w \<and>
        (non_empty (from_client w) \<longrightarrow> non_empty (from_client w')) \<and>
        read_count (relay_client w') = read_count (relay_client w) + 1"
  using push_half [where fd = "relay_client w" and w = "relay_state w", OF relay_kernel_facts(5,2,4) assms(2), OF assms(1) assms(1) assms(1)] assms(1)
  by (auto simp: push_from_client_def case_rbind relayed_simps split: sum.splits)

lemma pop_to_server_spec:
  assumes "relay_inv w" and "non_empty (from_client w)"
  shows "case pop_to_server w of
      Inl e \<Rightarrow> kernel_error e
    | Inr (r, w') \<Rightarrow> relayed w w' \<and> from_server w' = from_server w \<and>
        write_count (dns_server w') = write_count (dns_server w) + 1"
  using pop_half [where fd = "dns_server w" and w = "relay_state w", OF relay_kernel_facts(5,2,4) assms(2), OF assms(1) assms(1) assms(1)] assms(1)
  by (auto simp: pop_to_server_def case_rbind relayed_simps split: sum.splits)

lemma pop_to_client_spec:
  assumes "relay_inv w" and "non_empty (from_server w)"
  shows "case pop_to_client w of
      Inl e \<Rightarrow> kernel_error e
    | Inr (r, w') \<Rightarrow> relayed w w' \<and> from_client w' = from_client w \<and>
        write_count (relay_client w') = write_count (relay_client w) + 1"
  using pop_half [where fd = "relay_client w" and w = "relay_state w", OF relay_kernel_facts(6,1,3) assms(2), OF assms(1) assms(1) assms(1)] assms(1)
  by (auto simp: pop_to_client_def case_rbind relayed_simps split: sum.splits)

lemma relay_action_cases:
  assumes "i < length relay_actions"
  obtains "i = 0" | "i = 1" | "i = 2" | "i = 3"
  using assms unfolding relay_actions_def by (auto simp: less_Suc_eq numeral_eq_Suc)

lemma relay_called:
  assumes "relay_inv w" and "i < length relay_actions" and "relay_willing i w"
  shows "case callback (relay_actions ! i) w of
      Inl e \<Rightarrow> kernel_error e
    | Inr (r, w') \<Rightarrow> relay_inv w' \<and> fd_nums relay_actions w' = fd_nums relay_actions w \<and>
        (\<forall>j > i. relay_willing j w \<longrightarrow> relay_willing j w') \<and>
        service_count w (relay_actions ! i) \<noteq> service_count w' (relay_actions ! i)"
proof (cases rule: relay_action_cases [OF assms(2)])
  case 1
  then show ?thesis
    using push_from_server_spec [OF assms(1)] assms(3)
    by (auto simp: relay_actions_def relay_willing_def relayed_def service_count_def split: sum.splits)
next
  case 2
  then show ?thesis
    using push_from_client_spec [OF assms(1)] assms(3)
    by (auto simp: relay_actions_def relay_willing_def relayed_def service_count_def split: sum.splits)
next
  case 3
  then show ?thesis
    using pop_to_server_spec [OF assms(1)] assms(3)
    by (auto simp: relay_actions_def relay_willing_def relayed_def service_count_def split: sum.splits)
next
  case 4
  then show ?thesis
    using pop_to_client_spec [OF assms(1)] assms(3)
    by (auto simp: relay_actions_def relay_willing_def relayed_def service_count_def numeral_eq_Suc
        split: sum.splits)
qed

lemma relay_asked:
  assumes "i < length relay_actions" and "when_interested (relay_actions ! i) w = (b, w')"
  shows "w' = w \<and> (b \<longrightarrow> relay_willing i w)"
  using assms(2)
  by (cases rule: relay_action_cases [OF assms(1)])
    (auto simp: relay_actions_def relay_willing_def numeral_eq_Suc)

lemma relay_polled:
  assumes "relay_inv w"
  shows "case relay_poll ps t w of
      Inl e \<Rightarrow> kernel_error e
    | Inr (n, rs, w') \<Rightarrow> relay_inv w' \<and> fd_nums relay_actions w' = fd_nums relay_actions w \<and>
        length rs = length ps \<and> (\<forall>j. relay_willing j w \<longrightarrow> relay_willing j w')"
proof -
  have "relay_faithful (relay_calls w)"
    using assms by (simp add: relay_inv_def Let_def)
  then have "case relay_poll_fds (relay_calls w) ps t (relay_state w) of
      Inl e \<Rightarrow> \<exists>m. e = UnixError m
    | Inr (n, rs, k') \<Rightarrow> length rs = length ps \<and>
        client_taken (relay_calls w) k' = client_taken (relay_calls w) (relay_state w) \<and>
        server_given (relay_calls w) k' = server_given (relay_calls w) (relay_state w) \<and>
        server_taken (relay_calls w) k' = server_taken (relay_calls w) (relay_state w) \<and>
        client_given (relay_calls w) k' = client_given (relay_calls w) (relay_state w)"
    by (simp only: relay_faithful_def)
  then show ?thesis
    using assms
    by (auto simp: relay_poll_def case_rbind relayed_simps relay_willing_def kernel_error_def
        split: sum.splits)
qed

interpretation relay: poller_client relay_actions relay_inv relay_willing relay_poll
proof
  show "relay_inv w' \<and> fd_nums relay_actions w' = fd_nums relay_actions w \<and> (b \<longrightarrow> relay_willing i w') \<and>
      (\<forall>j. relay_willing j w \<longrightarrow> relay_willing j w')"
    if "relay_inv w" "i < length relay_actions" "when_interested (relay_actions ! i) w = (b, w')"
    for w :: "'k relay_world" and i b w'
    using relay_asked [OF that(2,3)] that(1) by blast
  show "relay_inv w' \<and> fd_nums relay_actions w' = fd_nums relay_actions w \<and>
      (\<forall>j > i. relay_willing j w \<longrightarrow> relay_willing j w') \<and>
      (result r = Exit \<or> service_count w (relay_actions ! i) \<noteq> service_count w' (relay_actions ! i))"
    if "relay_inv w" "i < length relay_actions" "relay_willing i w"
      "callback (relay_actions ! i) w = Inr (r, w')" for w :: "'k relay_world" and i r w'
    using relay_called [OF that(1-3)] that(4) by simp
  show "relay_inv w' \<and> fd_nums relay_actions w' = fd_nums relay_actions w \<and> length rs = length ps \<and>
      (\<forall>j. relay_willing j w \<longrightarrow> relay_willing j w')"
    if "relay_inv w" "relay_poll ps t w = Inr (n, rs, w')" for w :: "'k relay_world" and ps t n rs w'
    using relay_polled [OF that(1), of ps t] that(2) by simp
qed

lemma relay_fault:
  assumes "poller_client.fault relay_actions relay_inv relay_willing (relay_poll :: 'k relay_world sys_poll) e"
  shows "kernel_error e"
proof -
  have "kernel_error e" if "relay_inv w" "relay_poll ps t w = Inl e" for ps t and w :: "'k relay_world"
    using relay_polled [OF that(1), of ps t] that(2) by simp
  moreover have "kernel_error e"
    if "i < length relay_actions" "relay_inv w" "relay_willing i w" "callback (relay_actions ! i) w = Inl e"
    for i and w :: "'k relay_world"
    using relay_called [OF that(2,1,3)] that(4) by simp
  ultimately show ?thesis
    using assms unfolding relay.fault_def by blast
qed

lemma relay_pass:
  fixes w :: "'k relay_world"
  assumes "relay_inv w" and "passes relay_poll relay_wait (relay_start w) s"
  shows "case loop_pass relay_poll relay_wait s of
      Inl e \<Rightarrow> kernel_error e
    | Inr (r, run, (p', w')) \<Rightarrow> relay_inv w'"
proof -
  have "poller_client.holds relay_actions (fst (relay_start w)) w"
    unfolding relay.holds_def relay_fd_nums
    by (simp add: relay_start_def relay_actions_def add_action_def poller_new_def)
  then have "case loop_pass relay_poll relay_wait s of
      Inl e \<Rightarrow> poller_client.fault relay_actions relay_inv relay_willing
          (relay_poll :: 'k relay_world sys_poll) e \<or>
        (\<exists>w :: 'k relay_world. relay_inv w \<and> relay_wait w = Inl e)
    | Inr (r, run, (p', w')) \<Rightarrow> relay_inv w' \<and> poller_client.holds relay_actions p' w'"
    using assms(1) by (intro relay.loop_pass_client [OF assms(2)]) (simp_all add: relay_start_def relay_wait_def)
  then show ?thesis
    using relay_fault by (auto simp: relay_wait_def split: sum.splits)
qed

section \<open>When the relay ends by itself\<close>

text \<open>An action whose callback never answers \<open>Cancel\<close> stays switched on.\<close>

definition lasting :: "'w action \<Rightarrow> bool" where
  "lasting a \<longleftrightarrow> (\<forall>w r w'. callback a w = Inr (r, w') \<longrightarrow> result r \<noteq> Cancel)"

lemma lasting_same: "same_action a a' \<Longrightarrow> lasting a' = lasting a"
  by (simp add: lasting_def)

lemma serve_lasting:
  "serve i as ps w = Inr (pr, as', run, w') \<Longrightarrow>
     list_all2 (\<lambda>a a'. lasting a \<and> active a \<longrightarrow> active a') as as'"
proof (induction as arbitrary: i ps w pr as' run w')
  case Nil
  then show ?case by simp
next
  case (Cons a as)
  show ?case
  proof (cases ps)
    case Nil
    then show ?thesis using Cons.prems by (auto simp: list_all2_same)
  next
    case ps: (Cons p ps1)
    consider (failed) "failed p" | (idle) "\<not> failed p" "revents p AND events p = 0"
      | (ready) "\<not> failed p" "revents p AND events p \<noteq> 0" by blast
    then show ?thesis
    proof cases
      case failed
      then show ?thesis using Cons.prems by (auto simp: ps serve_steps list_all2_same)
    next
      case idle
      then show ?thesis using Cons by (auto simp: ps serve_steps res_iff)
    next
      case ready
      then show ?thesis
        using Cons.prems unfolding ps serve_steps(3) [OF ready]
        by (auto simp: res_iff lasting_def list_all2_same dest: Cons.IH split: if_splits)
    qed
  qed
qed

text \<open>Conditions that do not change the world are all asked of the same world.\<close>

lemma set_events_pure:
  "set_events as ps w = Inr (ps', w') \<Longrightarrow> length ps = length as \<Longrightarrow>
     (\<And>a v. a \<in> set as \<Longrightarrow> snd (when_interested a v) = v) \<Longrightarrow>
     w' = w \<and> length ps' = length as \<and> (\<forall>k < length as. events (ps' ! k) = fst (interest (as ! k) w))"
proof (induction as arbitrary: ps ps' w w')
  case Nil
  then show ?case by simp
next
  case (Cons a as)
  obtain p ps1 where ps: "ps = p # ps1"
    using Cons.prems(2) by (cases ps) auto
  obtain ev w1 where ev: "interest a w = (ev, w1)" by force
  then have w1: "w1 = w"
    using Cons.prems(3) [of a w] by (auto simp: interest_def Let_def split: if_splits prod.splits)
  obtain ps2 where ps2: "set_events as ps1 w = Inr (ps2, w')" "ps' = p\<lparr>events := ev\<rparr> # ps2"
    using Cons.prems(1) ev w1 by (auto simp: ps res_iff split: if_splits)
  from Cons.IH [OF ps2(1)] Cons.prems(2,3) show ?case
    using ps2(2) ev by (auto simp: ps nth_Cons')
qed

lemma poll_lasting:
  assumes "poll sys_poll t (p, w) = Inr (r, run, (p', w'))"
  shows "list_all2 (\<lambda>a a'. lasting a \<and> active a \<longrightarrow> active a') (actions p) (actions p')"
  using assms
  by (auto simp: poll_def res_iff Let_def list_all2_same dest!: serve_lasting split: if_splits)

lemma relay_pops_last: "k = 2 \<or> k = 3 \<Longrightarrow> lasting (relay_actions ! k)"
  by (auto simp: lasting_def relay_actions_def pop_to_server_def pop_to_client_def just_def res_iff
      numeral_eq_Suc)

lemma relay_reached:
  assumes "relay_inv w" and "passes relay_poll relay_wait (relay_start w) s"
  shows "relay_inv (snd s) \<and> poller_client.holds relay_actions (fst s) (snd s) \<and>
    active (actions (fst s) ! 2) \<and> active (actions (fst s) ! 3)"
proof -
  have start: "poller_client.holds relay_actions (fst (relay_start w)) w"
    unfolding relay.holds_def relay_fd_nums
    by (simp add: relay_start_def relay_actions_def add_action_def poller_new_def)
  have holds: "relay_inv (snd s) \<and> poller_client.holds relay_actions (fst s) (snd s)"
    if "passes relay_poll relay_wait (relay_start w) s" for s
    by (rule relay.passes_client [OF that]) (use assms(1) start in \<open>simp_all add: relay_start_def relay_wait_def\<close>)
  have "active (actions (fst s) ! 2) \<and> active (actions (fst s) ! 3)"
    using assms(2)
  proof induction
    case start
    then show ?case
      by (simp add: relay_start_def relay_actions_def add_action_def poller_new_def)
  next
    case (again s r run s')
    have p: "poll relay_poll 60000 (fst s, snd s) = Inr (r, run, (fst s', snd s'))"
      using again(2) by (simp add: loop_pass_def relay_wait_def)
    have h: "list_all2 same_action relay_actions (actions (fst s))"
      using holds [OF again(1)] unfolding relay.holds_def by simp
    then have len: "length (actions (fst s)) = 4"
      by (auto simp: relay_actions_def dest: list_all2_lengthD)
    have "lasting (actions (fst s) ! k)" if "k = 2 \<or> k = 3" for k
      using relay_pops_last [OF that] list_all2_nthD2 [OF h, of k] len that
      by (auto dest: lasting_same)
    then show ?case
      using again.IH list_all2_nthD [OF poll_lasting [OF p]] len by simp
  qed
  then show ?thesis
    using holds [OF assms(2)] by blast
qed

text \<open>A poll that ends because it asked for nothing found no action interested.\<close>

lemma idle_poll:
  assumes "poll sys_poll t (p, w) = Inr (r, run, (p', w'))" and "\<forall>x \<in> set (pollfds p'). events x = 0"
    and pure: "\<And>a v. a \<in> set (actions p) \<Longrightarrow> snd (when_interested a v) = v"
    and polled: "\<And>ps n rs w2. sys_poll ps t w = Inr (n, rs, w2) \<Longrightarrow> length rs = length ps"
  shows "w' = w \<and> (\<forall>k < length (actions p). fst (interest (actions p ! k) w) = 0)"
proof -
  obtain ps w1 where len: "length (pollfds p) = length (actions p)"
    and ev: "set_events (actions p) (pollfds p) w = Inr (ps, w1)"
    using assms(1) by (auto simp: poll_def res_iff split: if_splits)
  note ps = set_events_pure [OF ev len pure]
  show ?thesis
  proof (cases "\<forall>x \<in> set ps. events x = 0")
    case True
    then show ?thesis using assms(1) len ev ps by (auto simp: poll_def dest: nth_mem)
  next
    case False
    then obtain n rs w2 where rs: "sys_poll ps t w = Inr (n, rs, w2)" and p': "pollfds p' = answered ps rs"
      using assms(1) len ev ps by (auto simp: poll_def Let_def res_iff split: if_splits)
    have "length rs = length ps"
      by (rule polled [OF rs])
    then have "\<forall>k < length ps. events (ps ! k) = 0"
      using assms(2) unfolding p' by (auto simp: answered_def all_set_conv_all_nth)
    then show ?thesis
      using False by (simp add: all_set_conv_all_nth)
  qed
qed

lemma switched_on: "same_action a a' \<Longrightarrow> active a' \<Longrightarrow> a' = a"
  unfolding same_action_def by (elim disjE) simp_all

lemma relay_idle:
  assumes "relay_inv w" and "passes relay_poll relay_wait (relay_start w) s"
    and "loop_pass relay_poll relay_wait s = Inr (r, run, (p', w'))"
    and "\<forall>x \<in> set (pollfds p'). events x = 0"
  shows "relay_inv w' \<and> ring_contents (from_client w') = [] \<and> ring_contents (from_server w') = []"
proof -
  obtain p v where s: "s = (p, v)" by force
  note reached = relay_reached [OF assms(1,2), unfolded s]
  have v: "relay_inv v" and h: "list_all2 same_action relay_actions (actions p)"
    using reached unfolding relay.holds_def by simp_all
  have len: "length (actions p) = 4"
    using h by (auto simp: relay_actions_def dest: list_all2_lengthD)
  have same: "same_action (relay_actions ! k) (actions p ! k)" if "k < 4" for k
    using list_all2_nthD2 [OF h, of k] len that by simp
  have pure: "snd (when_interested a u) = u" if a: "a \<in> set (actions p)" for a u
  proof -
    obtain k where k: "k < 4" "a = actions p ! k"
      using a len by (auto simp: in_set_conv_nth)
    then show ?thesis
      using same [OF k(1)] relay_asked [of k u]
      by (cases "when_interested (relay_actions ! k) u") (auto simp: relay_actions_def)
  qed
  have poll: "poll relay_poll 60000 (p, v) = Inr (r, run, (p', w'))"
    using assms(3) by (simp add: s loop_pass_def relay_wait_def)
  have idle: "w' = v \<and> (\<forall>k < length (actions p). fst (interest (actions p ! k) v) = 0)"
  proof (rule idle_poll [OF poll assms(4)])
    show "snd (when_interested a u) = u" if "a \<in> set (actions p)" for a u
      using that by (rule pure)
    show "length rs = length ps" if "relay_poll ps 60000 v = Inr (n, rs, w2)" for ps n rs w2
      using relay_polled [OF v, of ps 60000] that by simp
  qed
  have "actions p ! 2 = relay_actions ! 2" "actions p ! 3 = relay_actions ! 3"
    using switched_on [OF same [of 2]] switched_on [OF same [of 3]] reached by simp_all
  moreover have "fst (interest (actions p ! 2) v) = 0" "fst (interest (actions p ! 3) v) = 0"
    using idle len by simp_all
  ultimately have "fst (interest (relay_actions ! 2) v) = 0" "fst (interest (relay_actions ! 3) v) = 0"
    by simp_all
  then have "\<not> non_empty (from_client v)" "\<not> non_empty (from_server v)"
    by (simp_all add: interest_def relay_actions_def POLLOUT_def split: if_splits)
  moreover have "ring_inv (from_client v)" "ring_inv (from_server v)"
    using v by (simp_all add: relay_inv_def Let_def)
  ultimately show ?thesis
    using idle v by (simp add: non_empty_iff)
qed

section \<open>One datagram\<close>

text \<open>
  The thread of \<open>handle_udp\<close>: \<open>udp_connect\<close> stands for a new socket connected to the target, and
  \<open>reply_to\<close> for \<open>sendto\<close> on the listener.
\<close>

record 'k udp_kernel =
  udp_connect :: "'k \<Rightarrow> (file_descriptor \<times> 'k) res"
  udp_read :: "'k sys_read"
  udp_write :: "'k sys_write"
  reply_to :: "address \<Rightarrow> string \<Rightarrow> 'k \<Rightarrow> (nat \<times> 'k) res"
  udp_poll_fds :: "'k sys_poll"
  answers :: "'k \<Rightarrow> string list"
  replies :: "'k \<Rightarrow> (address \<times> string) list"

record 'k udp_world =
  udp_server :: file_descriptor
  udp_listener :: file_descriptor
  udp_state :: 'k

definition udp_reply ::
  "'k udp_kernel \<Rightarrow> address \<Rightarrow> 'k udp_world \<Rightarrow> (action_result \<times> 'k udp_world) res" where
  "udp_reply K requester w =
     rbind (fd_read (udp_read K) BUFFER_SIZE (udp_server w, udp_state w)) (\<lambda>(payload, (fd, k)).
     rbind (udp_sendto (reply_to K) requester payload (udp_listener w, k)) (\<lambda>(listener, k').
       Inr (just Continue, w\<lparr>udp_server := fd, udp_listener := listener, udp_state := k'\<rparr>)))"

definition udp_poll :: "'k udp_kernel \<Rightarrow> 'k udp_world sys_poll" where
  "udp_poll K ps t w =
     rbind (udp_poll_fds K ps t (udp_state w)) (\<lambda>(n, rs, k). Inr (n, rs, w\<lparr>udp_state := k\<rparr>))"

definition udp_action :: "'k udp_kernel \<Rightarrow> address \<Rightarrow> 'k udp_world action" where
  "udp_action K requester =
     \<lparr>action_fd = udp_server, action_direction = In, callback = udp_reply K requester,
      when_interested = (\<lambda>w. (True, w)), active = True\<rparr>"

definition handle_udp_request ::
  "'k udp_kernel \<Rightarrow> address \<times> string \<Rightarrow> file_descriptor \<times> 'k \<Rightarrow> (file_descriptor \<times> 'k) res" where
  "handle_udp_request K request = (\<lambda>(listener, k).
     rbind (udp_connect K k) (\<lambda>(server, k1).
     rbind (fd_write (udp_write K) True (snd request) (server, k1)) (\<lambda>(_, (server', k2)).
       let w = \<lparr>udp_server = server', udp_listener = listener, udp_state = k2\<rparr>
       in rbind (poll (udp_poll K) 60000 (add_action w (udp_action K (fst request)) poller_new, w))
            (\<lambda>(r, run, (p, w')). Inr (udp_listener w', udp_state w')))))"

text \<open>The kernel of a datagram: what was read from the server, and what was sent to whom.\<close>

definition udp_faithful :: "'k udp_kernel \<Rightarrow> bool" where
  "udp_faithful K \<longleftrightarrow>
     (\<forall>k fd k'. udp_connect K k = Inr (fd, k') \<longrightarrow> answers K k' = answers K k \<and> replies K k' = replies K k) \<and>
     (\<forall>s k n k'. udp_write K s k = Inr (n, k') \<longrightarrow> answers K k' = answers K k \<and> replies K k' = replies K k) \<and>
     (\<forall>n k s k'. udp_read K n k = Inr (s, k') \<longrightarrow>
        answers K k' = answers K k @ [s] \<and> replies K k' = replies K k) \<and>
     (\<forall>a s k n k'. reply_to K a s k = Inr (n, k') \<longrightarrow>
        answers K k' = answers K k \<and> replies K k' = replies K k @ [(a, s)]) \<and>
     (\<forall>ps t k n rs k'. udp_poll_fds K ps t k = Inr (n, rs, k') \<longrightarrow>
        answers K k' = answers K k \<and> replies K k' = replies K k)"

lemma fd_write_frame:
  assumes "\<And>s k n k'. sys_write s k = Inr (n, k') \<Longrightarrow> f k' = f k"
  shows "fd_write sys_write all s (fd, k) = Inr (r, (fd', k')) \<Longrightarrow> f k' = f k"
  using assms
proof (induction sys_write all s "(fd, k)" arbitrary: fd k r fd' k' rule: fd_write.induct)
  case (1 sys_write all s fd k)
  obtain part fd1 k1 where part: "fd_write_part sys_write s (fd, k) = Inr (part, (fd1, k1))"
    using 1(2) by (auto simp: fd_write.simps split: sum.splits)
  have "f k1 = f k"
    using part 1(3) by (auto simp: fd_write_part_def res_iff split: if_splits)
  then show ?case
    using 1(1) [OF part] 1(2,3) part by (subst (asm) fd_write.simps) (auto simp: res_iff split: if_splits)
qed

text \<open>A poll over the one action runs its callback at most once.\<close>

lemma serve_one:
  assumes "serve i [a] ps w = Inr (r, as', run, w')"
  shows "w' = w \<or> (\<exists>x. callback a w = Inr (x, w'))"
proof (cases ps)
  case Nil
  then show ?thesis using assms by simp
next
  case (Cons p ps1)
  consider "failed p" | "\<not> failed p" "revents p AND events p = 0" | "\<not> failed p" "revents p AND events p \<noteq> 0"
    by blast
  then show ?thesis
    using assms Cons by cases (auto simp: serve_steps res_iff split: if_splits)
qed

lemma udp_poll_once:
  assumes "poll (udp_poll K) t (add_action w (udp_action K a) poller_new, w) = Inr (r, run, (p, w'))"
  shows "w' = w \<or> (\<exists>ps n rs k. udp_poll_fds K ps t (udp_state w) = Inr (n, rs, k) \<and>
    (w' = w\<lparr>udp_state := k\<rparr> \<or> (\<exists>x. udp_reply K a (w\<lparr>udp_state := k\<rparr>) = Inr (x, w'))))"
proof -
  let ?a = "udp_action K a" and ?p = "add_action w (udp_action K a) poller_new"
  have act: "actions ?p = [?a]"
    by (simp add: add_action_def poller_new_def)
  obtain ps v where ev: "set_events [?a] (pollfds ?p) w = Inr (ps, v)"
    using assms by (auto simp: poll_def act res_iff simp del: set_events.simps split: if_splits)
  have v: "v = w"
    using ev by (cases "pollfds ?p") (auto simp: interest_def udp_action_def Let_def split: if_splits)
  show ?thesis
  proof (cases "\<forall>x \<in> set ps. events x = 0")
    case True
    then show ?thesis
      using assms ev v by (auto simp: poll_def act simp del: set_events.simps split: if_splits)
  next
    case False
    then obtain n rs k where k: "udp_poll_fds K ps t (udp_state w) = Inr (n, rs, k)"
      and rest: "w' = w\<lparr>udp_state := k\<rparr> \<or>
        (\<exists>as'. serve 0 [?a] (answered ps rs) (w\<lparr>udp_state := k\<rparr>) = Inr (r, as', run, w'))"
      using assms ev v
      by (auto simp: poll_def act udp_poll_def Let_def res_iff simp del: set_events.simps split: if_splits)
    have "callback ?a = udp_reply K a"
      by (simp add: udp_action_def)
    then have "w' = w\<lparr>udp_state := k\<rparr> \<or> (\<exists>x. udp_reply K a (w\<lparr>udp_state := k\<rparr>) = Inr (x, w'))"
      using rest serve_one [of 0 ?a] by metis
    with k show ?thesis by blast
  qed
qed

lemma udp_reply_spec:
  assumes "udp_faithful K" and "udp_reply K a w = Inr (x, w')"
  shows "\<exists>s. answers K (udp_state w') = answers K (udp_state w) @ [s] \<and>
    replies K (udp_state w') = replies K (udp_state w) @ [(a, s)]"
proof -
  obtain s fd k listener k' where
    rd: "fd_read (udp_read K) BUFFER_SIZE (udp_server w, udp_state w) = Inr (s, (fd, k))"
    and snd: "udp_sendto (reply_to K) a s (udp_listener w, k) = Inr (listener, k')"
    and w': "w' = w\<lparr>udp_server := fd, udp_listener := listener, udp_state := k'\<rparr>"
    using assms(2) by (auto simp: udp_reply_def res_iff)
  obtain n where n: "reply_to K a s k = Inr (n, k')"
    using snd by (auto simp: udp_sendto_def res_iff split: if_splits)
  have "answers K k = answers K (udp_state w) @ [s] \<and> replies K k = replies K (udp_state w)"
    using assms(1) fd_read_shape [OF rd] unfolding udp_faithful_def by blast
  moreover have "answers K k' = answers K k \<and> replies K k' = replies K k @ [(a, s)]"
    using assms(1) n unfolding udp_faithful_def by blast
  ultimately show ?thesis
    by (simp add: w')
qed

text \<open>
  A datagram is answered at most once, with the server's answer, and to the one
  who sent it. When the thread of \<open>handle_udp\<close> ends without an exception, either nothing was read
  from the server and nothing sent, or one answer was read and that answer was sent to the sender
  of the request.
\<close>

theorem udp_one_reply:
  assumes "udp_faithful K" and "handle_udp_request K (requester, request) (listener, k) = Inr (listener', k')"
  shows "answers K k' = answers K k \<and> replies K k' = replies K k \<or>
    (\<exists>s. answers K k' = answers K k @ [s] \<and> replies K k' = replies K k @ [(requester, s)])"
proof -
  obtain server k1 sent server' k2 r run p w' where
    connect: "udp_connect K k = Inr (server, k1)"
    and send: "fd_write (udp_write K) True request (server, k1) = Inr (sent, (server', k2))"
    and poll: "poll (udp_poll K) 60000
      (add_action \<lparr>udp_server = server', udp_listener = listener, udp_state = k2\<rparr>
        (udp_action K requester) poller_new,
       \<lparr>udp_server = server', udp_listener = listener, udp_state = k2\<rparr>) = Inr (r, run, (p, w'))"
    and k': "k' = udp_state w'"
    using assms(2) by (auto simp: handle_udp_request_def Let_def res_iff)
  have "answers K k2 = answers K k1" "replies K k2 = replies K k1"
    using assms(1) by (auto intro!: fd_write_frame [OF _ send] simp: udp_faithful_def)
  moreover have "answers K k1 = answers K k" "replies K k1 = replies K k"
    using assms(1) connect by (simp_all add: udp_faithful_def)
  ultimately have start: "answers K k2 = answers K k" "replies K k2 = replies K k"
    by simp_all
  have polled: "answers K v = answers K k2 \<and> replies K v = replies K k2"
    if "udp_poll_fds K ps 60000 k2 = Inr (n, rs, v)" for ps n rs v
    using assms(1) that unfolding udp_faithful_def by blast
  from udp_poll_once [OF poll] show ?thesis
  proof (elim disjE exE conjE)
    fix ps n rs v x
    assume v: "udp_poll_fds K ps 60000 (udp_state \<lparr>udp_server = server', udp_listener = listener,
        udp_state = k2\<rparr>) = Inr (n, rs, v)"
      and x: "udp_reply K requester (\<lparr>udp_server = server', udp_listener = listener,
        udp_state = k2\<rparr>\<lparr>udp_state := v\<rparr>) = Inr (x, w')"
    from udp_reply_spec [OF assms(1) x] polled [of ps n rs v] v start show ?thesis
      by (auto simp: k')
  qed (use start polled in \<open>auto simp: k'\<close>)
qed

definition sample_udp :: "(string list \<times> (address \<times> string) list) udp_kernel" where
  "sample_udp =
     \<lparr>udp_connect = (\<lambda>k. Inr (\<lparr>fd_num = 9, fd_eof = False, read_count = 0, write_count = 0\<rparr>, k)),
      udp_read = (\<lambda>n (as, rs). Inr (''ok'', (as @ [''ok''], rs))),
      udp_write = (\<lambda>s k. Inr (length s, k)),
      reply_to = (\<lambda>a s (as, rs). Inr (length s, (as, rs @ [(a, s)]))),
      udp_poll_fds = (\<lambda>ps t k. Inr (length ps, map events ps, k)),
      answers = fst, replies = snd\<rparr>"

lemma udp_one_reply_witness:
  "\<exists>listener' as rs. handle_udp_request sample_udp (cgnat 1, ''q'') (sample_fd, ([], [])) =
       Inr (listener', (as, rs)) \<and> rs = [(cgnat 1, ''ok'')] \<and>
     (as = [] \<and> rs = [] \<or> (\<exists>s. as = [s] \<and> rs = [(cgnat 1, s)]))"
proof -
  have f: "udp_faithful sample_udp"
    by (auto simp: udp_faithful_def sample_udp_def)
  obtain l as rs where r: "handle_udp_request sample_udp (cgnat 1, ''q'') (sample_fd, ([], [])) =
      Inr (l, (as, rs))" and rs: "rs = [(cgnat 1, ''ok'')]"
    by (simp add: handle_udp_request_def sample_udp_def fd_write.simps fd_write_part_def poll_def add_action_def
        poller_new_def udp_action_def udp_poll_def udp_reply_def udp_sendto_def fd_read_def interest_def Let_def
        serve_steps answered_def failed_def register_write_def sample_fd_def POLLIN_def POLLERR_def POLLHUP_def
        POLLNVAL_def just_def service_count_def serve.simps)
  have "as = [] \<and> rs = [] \<or> (\<exists>s. as = [s] \<and> rs = [(cgnat 1, s)])"
    using udp_one_reply [OF f r] by (simp add: sample_udp_def)
  with r rs show ?thesis by blast
qed

section \<open>Binding\<close>

text \<open>\<open>what()\<close> of an exception; \<open>strerror\<close> is the text of \<open>errno\<close>.\<close>

definition what :: "(string \<Rightarrow> string) \<Rightarrow> err \<Rightarrow> string" where
  "what strerror e =
     (case e of
        RuntimeError m \<Rightarrow> m
      | UnixError attempt \<Rightarrow> attempt @ '': '' @ strerror attempt
      | OutOfRange \<Rightarrow> ''out_of_range''
      | InvalidArgument \<Rightarrow> ''invalid_argument''
      | _ \<Rightarrow> [])"

record 'k bind_kernel =
  open_socket :: "int \<Rightarrow> 'k \<Rightarrow> (file_descriptor \<times> 'k) res"
  bind_socket :: "file_descriptor \<Rightarrow> address \<Rightarrow> 'k \<Rightarrow> 'k res"
  listen_socket :: "file_descriptor \<Rightarrow> 'k \<Rightarrow> 'k res"
  local_address :: "file_descriptor \<Rightarrow> 'k \<Rightarrow> address res"

record dns_proxy =
  proxy_udp :: file_descriptor
  proxy_tcp :: file_descriptor
  udp_target :: address
  tcp_target :: address

definition make_bound_socket ::
  "'k bind_kernel \<Rightarrow> int \<Rightarrow> address \<Rightarrow> 'k \<Rightarrow> (file_descriptor \<times> 'k) res" where
  "make_bound_socket K type listen_address k =
     rbind (open_socket K type k) (\<lambda>(sock, k1).
     rbind (bind_socket K sock listen_address k1) (\<lambda>k2. Inr (sock, k2)))"

definition dns_proxy_of_sockets ::
  "'k bind_kernel \<Rightarrow> file_descriptor \<Rightarrow> file_descriptor \<Rightarrow> address \<Rightarrow> address \<Rightarrow> 'k \<Rightarrow>
     (dns_proxy \<times> 'k) res" where
  "dns_proxy_of_sockets K udp tcp udp_addr tcp_addr k =
     rbind (local_address K udp k) (\<lambda>a.
       if a = address_new then Inl (RuntimeError ''DNSProxy internal error: udp_listener must be bound'')
       else rbind (local_address K tcp k) (\<lambda>b.
         if b = address_new then Inl (RuntimeError ''DNSProxy internal error: tcp_listener must be bound'')
         else rbind (listen_socket K tcp k) (\<lambda>k'.
           Inr (\<lparr>proxy_udp = udp, proxy_tcp = tcp, udp_target = udp_addr, tcp_target = tcp_addr\<rparr>, k'))))"

text \<open>The two temporaries are made in the order of the arguments; C++ leaves that order open.\<close>

definition dns_proxy_new ::
  "'k bind_kernel \<Rightarrow> address \<Rightarrow> address \<Rightarrow> address \<Rightarrow> 'k \<Rightarrow> (dns_proxy \<times> 'k) res" where
  "dns_proxy_new K listen_address udp_addr tcp_addr k =
     rbind (make_bound_socket K SOCK_DGRAM listen_address k) (\<lambda>(udp, k1).
     rbind (make_bound_socket K SOCK_STREAM listen_address k1) (\<lambda>(tcp, k2).
       dns_proxy_of_sockets K udp tcp udp_addr tcp_addr k2))"

definition maybe_proxy ::
  "'k bind_kernel \<Rightarrow> (string \<Rightarrow> string) \<Rightarrow> address \<Rightarrow> address \<Rightarrow> address \<Rightarrow> 'k \<Rightarrow>
     (dns_proxy \<times> 'k) option res" where
  "maybe_proxy K strerror listen_address udp_addr tcp_addr k =
     (case dns_proxy_new K listen_address udp_addr tcp_addr k of
        Inr x \<Rightarrow> Inr (Some x)
      | Inl e \<Rightarrow> if take 5 (what strerror e) = ''bind:'' then Inr None else Inl e)"

section \<open>Starting the name server\<close>

text \<open>
  The loop that waits for \<open>dnsmasq\<close>: \<open>write\<close> sends one datagram, and throws when the one before was
  answered with an ICMP error. It returns the number of attempts made.
\<close>

definition probe :: "('k \<Rightarrow> unit res \<times> 'k) \<Rightarrow> 'k \<Rightarrow> unit res \<times> 'k" where
  "probe write k = (case write k of (Inl e, k') \<Rightarrow> (Inl e, k') | (Inr _, k') \<Rightarrow> write k')"

function await_dnsmasq ::
  "('k \<Rightarrow> unit res \<times> 'k) \<Rightarrow> (string \<Rightarrow> string) \<Rightarrow> nat \<Rightarrow> 'k \<Rightarrow> (nat \<times> 'k) res" where
  "await_dnsmasq write strerror attempts k =
     (if 20 \<le> attempts + 1
      then Inl (RuntimeError (''dnsmasq: did not start after '' @ to_string (attempts + 1) @ '' attempts''))
      else
        (case probe write k of
           (Inr _, k') \<Rightarrow> Inr (attempts + 1, k')
         | (Inl e, k') \<Rightarrow>
             if take 6 (what strerror e) \<noteq> ''write:'' then Inl e
             else await_dnsmasq write strerror (attempts + 1) k'))"
  by pat_completeness auto
termination by (relation "measure (\<lambda>(write, strerror, n, k). 20 - n)") auto

declare await_dnsmasq.simps [simp del]

text \<open>The states after each of the first failed attempts.\<close>

fun after_failures :: "('k \<Rightarrow> unit res \<times> 'k) \<Rightarrow> nat \<Rightarrow> 'k \<Rightarrow> 'k" where
  "after_failures write 0 k = k"
| "after_failures write (Suc n) k = after_failures write n (snd (probe write k))"

lemma to_string_20: "to_string 20 = ''20''"
  by code_simp

text \<open>A name server that does not answer yet makes the write fail.\<close>

lemma await_attempts:
  assumes "\<And>i. i < n \<Longrightarrow> fst (probe write (after_failures write i k)) = Inl (UnixError ''write'')"
    and "fst (probe write (after_failures write n k)) = Inr ()" and "a \<le> 19"
  shows "await_dnsmasq write strerror a k =
    (if a + n < 19 then Inr (a + n + 1, after_failures write (Suc n) k)
     else Inl (RuntimeError ''dnsmasq: did not start after 20 attempts''))"
  using assms
proof (induction n arbitrary: a k)
  case 0
  obtain k' where "probe write k = (Inr (), k')"
    using 0(2) by (cases "probe write k") auto
  moreover have "a = 19" if "\<not> a < 19"
    using that 0(3) by simp
  ultimately show ?case
    by (subst await_dnsmasq.simps) (auto simp: to_string_20)
next
  case (Suc n)
  obtain k' where k': "probe write k = (Inl (UnixError ''write''), k')"
    using Suc.prems(1) [of 0] by (cases "probe write k") auto
  show ?case
  proof (cases "a = 19")
    case True
    then show ?thesis
      by (subst await_dnsmasq.simps) (simp add: to_string_20)
  next
    case False
    have "await_dnsmasq write strerror (a + 1) k' =
      (if a + 1 + n < 19 then Inr (a + 1 + n + 1, after_failures write (Suc n) k')
       else Inl (RuntimeError ''dnsmasq: did not start after 20 attempts''))"
      by (rule Suc.IH) (use Suc.prems(1) [of "Suc i" for i] Suc.prems(2,3) k' False in simp_all)
    then show ?thesis
      using k' Suc.prems(3) False by (subst await_dnsmasq.simps) (simp add: what_def)
  qed
qed

text \<open>\<open>start_dnsmasq\<close>; \<open>spawn\<close> answers with the process number of the child that runs the command.\<close>

definition dnsmasq_command :: "string \<Rightarrow> string list \<Rightarrow> string list" where
  "dnsmasq_command dnsmasq extra_arguments =
     [dnsmasq, ''--keep-in-foreground'', ''--no-resolv'', ''--no-hosts'', ''-C'', ''/dev/null''] @ extra_arguments"

definition start_dnsmasq ::
  "string \<Rightarrow> (string list \<Rightarrow> 'k \<Rightarrow> (int \<times> 'k) res) \<Rightarrow> ('k \<Rightarrow> 'k res) \<Rightarrow> ('k \<Rightarrow> unit res \<times> 'k) \<Rightarrow>
     (string \<Rightarrow> string) \<Rightarrow> string list \<Rightarrow> 'k \<Rightarrow> (child_process \<times> 'k) res" where
  "start_dnsmasq dnsmasq spawn connect write strerror extra_arguments k =
     rbind (spawn (dnsmasq_command dnsmasq extra_arguments) k) (\<lambda>(pid, k1).
     rbind (connect k1) (\<lambda>k2.
     rbind (await_dnsmasq write strerror 0 k2) (\<lambda>(attempts, k3).
       Inr (child_new ''dnsmasq'' pid SIGTERM, k3))))"

section \<open>The handlers in the event loop of the shell\<close>

text \<open>
  What the listeners' callbacks do in the main thread: the request or the connection a new thread
  is started for is appended to a list.
\<close>

record 'k dns_world =
  listener_udp :: file_descriptor
  listener_tcp :: file_descriptor
  dns_state :: 'k
  udp_threads :: "(address \<times> string) list"
  tcp_threads :: "file_descriptor list"

definition on_udp_listener ::
  "('k \<Rightarrow> (address \<times> string \<times> 'k) res) \<Rightarrow> 'k dns_world \<Rightarrow> (action_result \<times> 'k dns_world) res" where
  "on_udp_listener sys_recvfrom w =
     rbind (udp_recvfrom sys_recvfrom (listener_udp w, dns_state w)) (\<lambda>(request, (fd, k)).
       Inr (just Continue, w\<lparr>listener_udp := fd, dns_state := k, udp_threads := udp_threads w @ [request]\<rparr>))"

definition on_tcp_listener ::
  "('k \<Rightarrow> (int \<times> 'k) res) \<Rightarrow> (int \<Rightarrow> socket_option \<Rightarrow> 'k \<Rightarrow> (nat \<times> int) res) \<Rightarrow> 'k dns_world \<Rightarrow>
     (action_result \<times> 'k dns_world) res" where
  "on_tcp_listener sys_accept sys_getsockopt w =
     (case tcp_accept sys_accept sys_getsockopt (listener_tcp w, dns_state w) of (listener, r) \<Rightarrow>
        rbind r (\<lambda>(client, k).
          Inr (just Continue, w\<lparr>listener_tcp := listener, dns_state := k, tcp_threads := tcp_threads w @ [client]\<rparr>)))"

definition register_dns_handlers ::
  "('k \<Rightarrow> (address \<times> string \<times> 'k) res) \<Rightarrow> ('k \<Rightarrow> (int \<times> 'k) res) \<Rightarrow>
     (int \<Rightarrow> socket_option \<Rightarrow> 'k \<Rightarrow> (nat \<times> int) res) \<Rightarrow> 'k dns_world \<Rightarrow> 'k dns_world poller \<Rightarrow>
     'k dns_world poller" where
  "register_dns_handlers sys_recvfrom sys_accept sys_getsockopt w p =
     add_action w \<lparr>action_fd = listener_tcp, action_direction = In,
         callback = on_tcp_listener sys_accept sys_getsockopt, when_interested = (\<lambda>w. (True, w)), active = True\<rparr>
       (add_action w \<lparr>action_fd = listener_udp, action_direction = In,
         callback = on_udp_listener sys_recvfrom, when_interested = (\<lambda>w. (True, w)), active = True\<rparr> p)"

text \<open>Both callbacks count as reads of their listener, so they pass the check for a busy wait.\<close>

lemma dns_handlers_serve:
  "on_udp_listener sys_recvfrom w = Inr (r, w') \<Longrightarrow>
     read_count (listener_udp w') = read_count (listener_udp w) + 1"
  "on_tcp_listener sys_accept sys_getsockopt w = Inr (r, w') \<Longrightarrow>
     read_count (listener_tcp w') = read_count (listener_tcp w) + 1"
  by (auto simp: on_udp_listener_def on_tcp_listener_def udp_recvfrom_def tcp_accept_def register_read_def
      res_iff split: if_splits)

section \<open>Properties\<close>

text \<open>
  C16: the proxy relays a name server's connection faithfully. In every pass of a relay,
  from whatever state its earlier passes have reached, what was given to the server is a prefix of
  what was taken from the client, and the other way round; an error is one of the kernel's, never
  a failed assertion or the poller's check for a busy wait; and when the relay ends because it has
  nothing left to wait for, everything taken on either side has been given to the other.
\<close>

theorem dns_relay:
  assumes "relay_new server client k K = Inr w" and "relay_faithful K"
    and "client_taken K k = server_given K k" and "server_taken K k = client_given K k"
    and "passes relay_poll relay_wait (relay_start w) s"
  shows "case loop_pass relay_poll relay_wait s of
      Inl e \<Rightarrow> (\<exists>m. e = UnixError m) \<or> e = RuntimeError ''write returned 0''
    | Inr (r, run, (p', w')) \<Rightarrow>
        (case (relay_calls w', relay_state w') of (K', k') \<Rightarrow>
          (\<exists>held. client_taken K' k' = server_given K' k' @ held) \<and>
          (\<exists>held. server_taken K' k' = client_given K' k' @ held) \<and>
          ((\<forall>x \<in> set (pollfds p'). events x = 0) \<longrightarrow>
            client_taken K' k' = server_given K' k' \<and> server_taken K' k' = client_given K' k'))"
proof -
  have w: "relay_inv w"
    using assms(1-4)
    by (auto simp: relay_new_def ring_new_def res_iff relay_inv_def ring_inv_def ring_contents_def
        BUFFER_SIZE_def)
  show ?thesis
    using relay_pass [OF w assms(5)] relay_idle [OF w assms(5)]
    by (fastforce simp: kernel_error_def relay_inv_def Let_def split: sum.splits prod.splits)
qed

text \<open>
  Starting the name server takes at most 19 attempts. If the first \<open>n\<close> probes
  fail because the server does not answer yet and the next succeeds, the loop returns after
  \<open>n + 1\<close> attempts when \<open>n < 19\<close>, and throws otherwise: of the 20 attempts the exception reports,
  19 were made.
\<close>

theorem dnsmasq_awaited:
  assumes "\<And>i. i < n \<Longrightarrow> fst (probe write (after_failures write i k)) = Inl (UnixError ''write'')"
    and "fst (probe write (after_failures write n k)) = Inr ()"
  shows "await_dnsmasq write strerror 0 k =
    (if n < 19 then Inr (n + 1, after_failures write (Suc n) k)
     else Inl (RuntimeError ''dnsmasq: did not start after 20 attempts''))"
  using await_attempts [where a = 0, OF assms] by simp

lemma dnsmasq_awaited_witness:
  "await_dnsmasq (\<lambda>k. (if k < 2 then Inl (UnixError ''write'') else Inr (), k + 1)) (\<lambda>s. s) 0 (0 :: nat) =
     Inr (3, 4)"
proof -
  let ?w = "\<lambda>k :: nat. (if k < 2 then Inl (UnixError ''write'') else Inr (), k + 1)"
  have "fst (probe ?w (after_failures ?w i 0)) = Inl (UnixError ''write'')" if "i < 2" for i
    using that by (auto simp: less_2_cases_iff probe_def)
  moreover have "fst (probe ?w (after_failures ?w 2 0)) = Inr ()"
    by (simp add: probe_def numeral_2_eq_2)
  ultimately show ?thesis
    using dnsmasq_awaited [of 2 ?w 0 "\<lambda>s. s"] by (simp add: probe_def numeral_eq_Suc)
qed

text \<open>A kernel with two bytes to read from the client, and nothing from the server.\<close>

definition sample_relay :: "(string \<times> string \<times> string) relay_kernel" where
  "sample_relay =
     \<lparr>server_read = (\<lambda>n k. Inr ([], k)),
      server_write = (\<lambda>s (c, g, h). Inr (length s, (c, g @ s, h))),
      client_read = (\<lambda>n (c, g, h).
        if c = [] then Inr (take n ''ab'', (take n ''ab'', g, h)) else Inr ([], (c, g, h))),
      client_write = (\<lambda>s (c, g, h). Inr (0, (c, g, h))),
      relay_poll_fds = (\<lambda>ps t k. Inr (length ps, map events ps, k)),
      server_taken = (\<lambda>(c, g, h). h), server_given = (\<lambda>(c, g, h). g),
      client_taken = (\<lambda>(c, g, h). c), client_given = (\<lambda>(c, g, h). h)\<rparr>"

lemma sample_relay_faithful: "relay_faithful sample_relay"
  by (auto simp: relay_faithful_def sample_relay_def kernel_ok_def still_def split: if_splits)

lemma dns_relay_witness:
  "\<exists>w. relay_new (sample_fd \<lparr>fd_num := 4\<rparr>) sample_fd ([], [], []) sample_relay = Inr w \<and>
     (case loop_pass relay_poll relay_wait (relay_start w) of
        Inl e \<Rightarrow> (\<exists>m. e = UnixError m) \<or> e = RuntimeError ''write returned 0''
      | Inr (r, run, (p', w')) \<Rightarrow>
          (case (relay_calls w', relay_state w') of (K', k') \<Rightarrow>
            (\<exists>held. client_taken K' k' = server_given K' k' @ held) \<and>
            (\<exists>held. server_taken K' k' = client_given K' k' @ held) \<and>
            ((\<forall>x \<in> set (pollfds p'). events x = 0) \<longrightarrow>
              client_taken K' k' = server_given K' k' \<and> server_taken K' k' = client_given K' k')))"
proof -
  obtain w where w: "relay_new (sample_fd \<lparr>fd_num := 4\<rparr>) sample_fd ([], [], []) sample_relay = Inr w"
    by (simp add: relay_new_def ring_new_def BUFFER_SIZE_def)
  from dns_relay [OF w sample_relay_faithful _ _ passes.start] w show ?thesis
    by (simp add: sample_relay_def)
qed

end
