(* ===== verification/Replay_Shell.thy ===== *)
theory Replay_Shell
  imports System Raw_Address Http_Proxy Dns_Proxy
begin

text \<open>
  The replay shell, \<open>src/src/frontend/replayshell.cc\<close> and \<open>web_server.cc\<close>: it reads a directory of
  recorded exchanges, gives every recorded address to an interface of a new network namespace,
  starts one Apache per recorded address and port and a name server that answers with the recorded
  addresses, and runs the user's command. A recorded exchange is the record \<open>stored_exchange\<close> of
  \<open>Http_Proxy\<close>. The calls into the system, the name resolution among them, are the record
  \<open>replay_calls\<close>.

  The lemmas show that the user's files are read with the user's IDs only, which commands the shell
  runs as root and with what, and what Apache's configuration consists of when a directory's name
  contains a line break.
\<close>

section \<open>A web server\<close>

text \<open>The files that \<open>config.h\<close> names, and the two fixed parts of the configuration.\<close>

record apache_modules =
  MOD_MPM_PREFORK :: string
  MOD_AUTHZ_CORE :: string
  MOD_DEEPCGI :: string
  MOD_SSL :: string
  MOD_SSL_CERTIFICATE_FILE :: string
  MOD_SSL_KEY :: string

definition apache_main_config :: "apache_modules \<Rightarrow> string" where
  "apache_main_config M =
     ''LoadModule mpm_prefork_module '' @ MOD_MPM_PREFORK M @
     CHR 0x0A # ''LoadModule authz_core_module '' @ MOD_AUTHZ_CORE M @
     CHR 0x0A # ''Mutex pthread'' @ CHR 0x0A # ''LoadFile '' @ MOD_DEEPCGI M @
     CHR 0x0A # ''LoadModule deepcgi_module '' @ MOD_DEEPCGI M @
     CHR 0x0A # ''SetHandler deepcgi-handler'' @ [CHR 0x0A]"

definition apache_ssl_config :: "apache_modules \<Rightarrow> string" where
  "apache_ssl_config M =
     ''LoadModule ssl_module '' @ MOD_SSL M @ CHR 0x0A # ''SSLEngine on'' @
     CHR 0x0A # ''SSLCertificateFile      '' @ MOD_SSL_CERTIFICATE_FILE M @
     CHR 0x0A # ''SSLCertificateKeyFile '' @ MOD_SSL_KEY M @ [CHR 0x0A]"

definition sockaddr_str :: "(u32 \<Rightarrow> string) \<Rightarrow> sockaddr_in \<Rightarrow> string" where
  "sockaddr_str ntoa a = ntoa (sin_addr a) @ '':'' @ to_string (unat (sin_port a))"

text \<open>What the constructor writes: up to the name of the file of process numbers, and from there.\<close>

definition config_head :: "apache_modules \<Rightarrow> sockaddr_in \<Rightarrow> string \<Rightarrow> string \<Rightarrow> string list" where
  "config_head M addr working_directory record_path =
     [apache_main_config M,
      ''WorkingDir '' @ working_directory @ [CHR 0x0A],
      ''RecordingDir '' @ record_path @ [CHR 0x0A]] @
     (if sin_port addr = 443 then [apache_ssl_config M] else [])"

definition config_tail :: "(u32 \<Rightarrow> string) \<Rightarrow> sockaddr_in \<Rightarrow> nat \<Rightarrow> nat \<Rightarrow> u32 \<Rightarrow> u32 \<Rightarrow> string list" where
  "config_tail ntoa addr pid salt uid gid =
     [''PidFile /tmp/replayshell_apache_pid.'' @ to_string pid @ ''.'' @ to_string salt @ [CHR 0x0A],
      ''ServerName mahimahi.'' @ [CHR 0x0A],
      ''ErrorLog /dev/null'' @ [CHR 0x0A],
      ''CustomLog /dev/null common'' @ [CHR 0x0A],
      ''User #'' @ to_string (unat uid) @ [CHR 0x0A],
      ''Group #'' @ to_string (unat gid) @ [CHR 0x0A],
      ''Listen '' @ sockaddr_str ntoa addr]"

text \<open>The calls the shell makes.\<close>

record 'k replay_calls =
  replay_ids :: "'k id_calls"
  replay_net :: "'k net_calls"
  replay_mkstemp :: "string \<Rightarrow> 'k \<Rightarrow> (string \<times> int \<times> 'k) res"
  replay_open :: "string \<Rightarrow> 'k \<Rightarrow> (int \<times> 'k) res"
  replay_read :: "'k sys_read"
  replay_write :: "'k sys_write"
  replay_unlink :: "string \<Rightarrow> 'k \<Rightarrow> 'k option"
  replay_readdir :: "string \<Rightarrow> 'k \<Rightarrow> (string list \<times> 'k) option"
  parse_file :: "int \<Rightarrow> 'k \<Rightarrow> stored_exchange option \<times> 'k"
  getcwd :: "'k \<Rightarrow> string option"
  chdir :: "string \<Rightarrow> 'k \<Rightarrow> 'k option"
  pw_shell :: "'k \<Rightarrow> string res"
  unshare_net :: "'k \<Rightarrow> 'k option"
  srandom_time :: "'k \<Rightarrow> 'k"
  random_number :: "'k \<Rightarrow> nat \<times> 'k"
  replay_pid :: nat
  modules :: apache_modules
  APACHE2 :: string
  DNSMASQ :: string
  ntoa :: "u32 \<Rightarrow> string"
  resolve :: "string \<Rightarrow> u32 res"
  replay_res_init :: "'k \<Rightarrow> (address list \<times> 'k) option"
  dns_spawn :: "string list \<Rightarrow> 'k \<Rightarrow> (int \<times> 'k) res"
  dns_connect :: "'k \<Rightarrow> 'k res"
  dns_write :: "'k \<Rightarrow> unit res \<times> 'k"
  replay_strerror :: "string \<Rightarrow> string"
  replay_clone :: "bool \<Rightarrow> 'k \<Rightarrow> (int \<times> 'k) res"

record web_server =
  config_file :: unique_file
  server_moved_away :: bool

fun file_writes :: "'k sys_write \<Rightarrow> string list \<Rightarrow> unique_file \<Rightarrow> 'k \<Rightarrow> (unique_file \<times> 'k) res" where
  "file_writes sys_write [] f k = Inr (f, k)"
| "file_writes sys_write (s # ss) f k =
     rbind (file_write sys_write s f k) (\<lambda>(f', k'). file_writes sys_write ss f' k')"

definition web_server_new ::
  "'k replay_calls \<Rightarrow> sockaddr_in \<Rightarrow> string \<Rightarrow> string \<Rightarrow> 'k \<Rightarrow> (web_server \<times> 'k) res" where
  "web_server_new R addr working_directory record_path k =
     rbind (unique_file_new (replay_mkstemp R) ''/tmp/replayshell_apache_config'' k) (\<lambda>(f, k1).
     rbind (file_writes (replay_write R) (config_head (modules R) addr working_directory record_path) f k1) (\<lambda>(f1, k2).
     case random_number R k2 of (salt, k3) \<Rightarrow>
     rbind (file_writes (replay_write R) (config_tail (ntoa R) addr (replay_pid R) salt
       (getuid (replay_ids R) k3) (getgid (replay_ids R) k3)) f1 k3) (\<lambda>(f', k4).
     rbind (file_name f') (\<lambda>name.
     rbind (net_run (replay_net R) [APACHE2 R, ''-f'', name, ''-k'', ''start''] k4) (\<lambda>k5.
       Inr (\<lparr>config_file = f', server_moved_away = False\<rparr>, k5))))))"

definition web_server_move :: "web_server \<Rightarrow> web_server \<times> web_server" where
  "web_server_move other =
     (case file_move (config_file other) of (f, f') \<Rightarrow>
        (\<lparr>config_file = f, server_moved_away = False\<rparr>, \<lparr>config_file = f', server_moved_away = True\<rparr>))"

text \<open>The destructor, then that of the temporary file; exceptions are printed.\<close>

definition web_server_end :: "'k replay_calls \<Rightarrow> web_server \<Rightarrow> 'k \<Rightarrow> 'k" where
  "web_server_end R s k =
     (let k1 = (if server_moved_away s then k
        else case rbind (file_name (config_file s)) (\<lambda>name.
               net_run (replay_net R) [APACHE2 R, ''-f'', name, ''-k'', ''graceful-stop''] k) of
          Inl e \<Rightarrow> k
        | Inr k' \<Rightarrow> k')
      in temp_file_end (replay_unlink R) (config_file s) k1)"

section \<open>What there is to serve\<close>

record served =
  unique_ip :: "sockaddr_in set"
  unique_ip_and_port :: "sockaddr_in set"
  hostname_to_ip :: "(string \<times> sockaddr_in) list"

definition served_new :: served where
  "served_new = \<lparr>unique_ip = {}, unique_ip_and_port = {}, hostname_to_ip = []\<rparr>"

text \<open>
  \<open>resolve\<close> reads a numeric address, and \<open>ntoa\<close> prints one. The recorded port has 32 bits, the one of
  an address 16.
\<close>

definition address_at :: "'k replay_calls \<Rightarrow> string \<Rightarrow> 16 word \<Rightarrow> sockaddr_in res" where
  "address_at R node p = rbind (resolve R node) (\<lambda>a. Inr (SockaddrIn p a))"

definition serve_exchange :: "'k replay_calls \<Rightarrow> stored_exchange \<Rightarrow> served \<Rightarrow> served res" where
  "serve_exchange R protobuf s =
     rbind (address_at R (stored_ip protobuf) (word_of_nat (stored_port protobuf))) (\<lambda>address.
     rbind (address_at R (ntoa R (sin_addr address)) 0) (\<lambda>only_ip.
     rbind (get_header_value ''Host'' (message_of_protobuf (stored_request protobuf))) (\<lambda>host.
       Inr \<lparr>unique_ip = insert only_ip (unique_ip s),
            unique_ip_and_port = insert address (unique_ip_and_port s),
            hostname_to_ip = hostname_to_ip s @ [(host, address)]\<rparr>)))"

text \<open>The files of the directory, each opened and parsed.\<close>

fun collect_files :: "'k replay_calls \<Rightarrow> string list \<Rightarrow> served \<Rightarrow> 'k \<Rightarrow> (served \<times> 'k) res" where
  "collect_files R [] s k = Inr (s, k)"
| "collect_files R (path # files) s k =
     rbind (replay_open R path k) (\<lambda>(n, k1). rbind (fd_new n) (\<lambda>fd.
       case parse_file R (fd_num fd) k1 of
         (None, k2) \<Rightarrow> Inl (RuntimeError (path @ '': invalid HTTP request/response''))
       | (Some protobuf, k2) \<Rightarrow>
           rbind (serve_exchange R protobuf s) (\<lambda>s'. collect_files R files s' k2)))"

text \<open>The block that runs without privileges.\<close>

definition collect_directory :: "'k replay_calls \<Rightarrow> string \<Rightarrow> 'k \<Rightarrow> (served \<times> 'k) res" where
  "collect_directory R directory k =
     rbind (temporarily_unprivileged_new (replay_ids R) k) (\<lambda>(tu, k1).
     rbind (list_directory_contents (replay_ids R) (replay_readdir R) directory k1) (\<lambda>(files, k2).
     rbind (collect_files R files served_new k2) (\<lambda>(s, k3).
     rbind (temporarily_unprivileged_end (replay_ids R) tu k3) (\<lambda>k4. Inr (s, k4)))))"

section \<open>The network\<close>

definition dummy_command :: "string \<Rightarrow> string \<Rightarrow> string list" where
  "dummy_command ip_program name = [ip_program, ''link'', ''add'', name, ''type'', ''dummy'']"

definition add_dummy_interface :: "'k net_calls \<Rightarrow> string \<Rightarrow> address \<Rightarrow> 'k \<Rightarrow> 'k res" where
  "add_dummy_interface N name addr k =
     rbind (net_run N (dummy_command (IP_program N) name) k) (\<lambda>k1.
     rbind (temp_ioctl N SIOCSIFFLAGS_UP name k1) (\<lambda>k2.
       temp_ioctl N (SIOCSIFADDR addr) name k2))"

text \<open>Both loops over addresses, with their counter of 32 bits.\<close>

fun add_interfaces :: "'k net_calls \<Rightarrow> string \<Rightarrow> u32 \<Rightarrow> address list \<Rightarrow> 'k \<Rightarrow> 'k res" where
  "add_interfaces N stem counter [] k = Inr k"
| "add_interfaces N stem counter (a # as) k =
     rbind (add_dummy_interface N (stem @ to_string (unat counter)) a k) (\<lambda>k'.
       add_interfaces N stem (counter + 1) as k')"

fun start_servers ::
  "'k replay_calls \<Rightarrow> string \<Rightarrow> string \<Rightarrow> sockaddr_in list \<Rightarrow> web_server list \<Rightarrow> 'k \<Rightarrow> (web_server list \<times> 'k) res"
where
  "start_servers R wd dir [] servers k = Inr (servers, k)"
| "start_servers R wd dir (a # as) servers k =
     rbind (web_server_new R a wd dir k) (\<lambda>(s, k'). start_servers R wd dir as (servers @ [s]) k')"

definition host_line :: "(u32 \<Rightarrow> string) \<Rightarrow> string \<times> sockaddr_in \<Rightarrow> string" where
  "host_line print = (\<lambda>(host, a). print (sin_addr a) @ '' '' @ host @ [CHR 0x0A])"

definition address_of_sin :: "(u32 \<Rightarrow> string) \<Rightarrow> sockaddr_in \<Rightarrow> address" where
  "address_of_sin print a = numeric_address (print (sin_addr a)) (unat (sin_port a))"

section \<open>The shell\<close>

text \<open>The directory, made to end with a slash, and the words of the command.\<close>

definition replay_arguments :: "string list \<Rightarrow> (string \<times> string list) res" where
  "replay_arguments argv =
     (case argv of
        prog # directory # rest \<Rightarrow>
          if directory = [] then Inl (RuntimeError (prog @ '': directory name must be non-empty''))
          else Inr (if last directory \<noteq> CHR ''/'' then directory @ ''/'' else directory, rest)
      | _ \<Rightarrow> usage ''Usage: '' (concat (take 1 argv)) '' directory [command...]'')"

record 'k replay_session =
  replay_command :: "string list"
  servers :: "web_server list"
  dnsmasq_hosts :: unique_file
  replay_children :: children
  replay_state :: 'k

text \<open>The first half, to the end of the block without privileges.\<close>

definition replay_read_directory ::
  "'k replay_calls \<Rightarrow> string list \<Rightarrow> 'k \<Rightarrow> (string list \<times> string \<times> string \<times> served \<times> 'k) res" where
  "replay_read_directory R argv k =
     rbind (check_requirements (replay_ids R) (replay_open R) (replay_read R) (None :: environment option) argv k) (\<lambda>k1.
     rbind (replay_arguments argv) (\<lambda>(directory, rest).
     rbind (get_working_directory (getcwd R k1)) (\<lambda>working_directory.
     rbind (system_call ''chdir'' (chdir R (c_string working_directory) k1)) (\<lambda>k2.
     rbind (command_of (pw_shell R k2) rest) (\<lambda>cmd.
     rbind (system_call ''unshare'' (unshare_net R k2)) (\<lambda>k3.
     rbind (temp_ioctl (replay_net R) SIOCSIFFLAGS_UP ''lo'' k3) (\<lambda>k4.
     rbind (collect_directory R directory (srandom_time R k4)) (\<lambda>(s, k5).
       Inr (cmd, directory, working_directory, s, k5)))))))))"

text \<open>The second half, up to the event loop.\<close>

definition replay_network ::
  "'k replay_calls \<Rightarrow> string \<Rightarrow> string \<Rightarrow> served \<Rightarrow> 'k \<Rightarrow> (web_server list \<times> unique_file \<times> child_process \<times> 'k) res"
where
  "replay_network R directory working_directory s k =
     rbind (add_interfaces (replay_net R) ''sharded'' 0
       (map (address_of_sin (ntoa R)) (sorted_list_of_set (unique_ip s))) k) (\<lambda>k1.
     rbind (start_servers R working_directory directory (sorted_list_of_set (unique_ip_and_port s)) [] k1)
       (\<lambda>(servers, k2).
     rbind (unique_file_new (replay_mkstemp R) ''/tmp/replayshell_hosts'' k2) (\<lambda>(f, k3).
     rbind (file_writes (replay_write R) (map (host_line (ntoa R)) (hostname_to_ip s)) f k3) (\<lambda>(hosts, k4).
     rbind (all_nameservers (replay_res_init R) k4) (\<lambda>(nameservers, k5).
     rbind (file_name hosts) (\<lambda>name.
     rbind (add_interfaces (replay_net R) ''nameserver'' 0 nameservers k5) (\<lambda>k6.
     rbind (start_dnsmasq (DNSMASQ R) (dns_spawn R) (dns_connect R) (dns_write R) (replay_strerror R)
       [''-H'', name] k6) (\<lambda>(dnsmasq, k7).
       Inr (servers, hosts, dnsmasq, k7)))))))))"

definition replay_shell_main :: "'k replay_calls \<Rightarrow> string list \<Rightarrow> 'k \<Rightarrow> 'k replay_session res" where
  "replay_shell_main R argv k =
     rbind (replay_read_directory R argv k) (\<lambda>(cmd, directory, working_directory, s, k1).
     rbind (replay_network R directory working_directory s k1) (\<lambda>(ws, hosts, dnsmasq, k2).
     rbind (join_command cmd) (\<lambda>name.
     rbind (replay_clone R False k2) (\<lambda>(pid, k3).
       Inr \<lparr>replay_command = cmd, servers = ws, dnsmasq_hosts = hosts,
            replay_children = add_child (child_new name pid SIGHUP) (add_child dnsmasq []), replay_state = k3\<rparr>))))"

text \<open>The child that becomes the user's command.\<close>

definition run_as_user ::
  "'k id_calls \<Rightarrow> ('k image \<Rightarrow> bool) \<Rightarrow> environment option \<Rightarrow> string \<Rightarrow> string list \<Rightarrow> 'k \<Rightarrow> 'k image ended res" where
  "run_as_user K exec user_environment shell_prefix cmd k =
     rbind (drop_privileges K k) (\<lambda>d. case d of
        Exited why \<Rightarrow> Inr (Exited why)
      | Returned k1 \<Rightarrow>
          rbind (ezexec K exec (prefixed_environment shell_prefix user_environment) True cmd k1) (\<lambda>i.
            Inr (Returned i)))"

definition replay_shell_child ::
  "'k replay_calls \<Rightarrow> ('k image \<Rightarrow> bool) \<Rightarrow> environment option \<Rightarrow> string list \<Rightarrow> 'k \<Rightarrow> 'k image ended res" where
  "replay_shell_child R exec user_environment cmd k =
     run_as_user (replay_ids R) exec user_environment ''[replay] '' cmd k"

text \<open>The destructors at the end: the file of the hosts, and the servers from the first to the last.\<close>

definition replay_end :: "'k replay_calls \<Rightarrow> web_server list \<Rightarrow> unique_file \<Rightarrow> 'k \<Rightarrow> 'k" where
  "replay_end R ss hosts k = fold (web_server_end R) ss (temp_file_end (replay_unlink R) hosts k)"

section \<open>What is written to a file\<close>

text \<open>
  A write that succeeds hands over a beginning of what it is given; \<open>written\<close> is all that was, and
  \<open>obs\<close> something else in the state.
\<close>

definition writes_to :: "('k \<Rightarrow> string) \<Rightarrow> ('k \<Rightarrow> 'a) \<Rightarrow> 'k sys_write \<Rightarrow> bool" where
  "writes_to written obs sys_write \<longleftrightarrow>
     (\<forall>s k n k'. sys_write s k = Inr (n, k') \<longrightarrow> written k' = written k @ take n s \<and> obs k' = obs k)"

lemma fd_write_written:
  assumes "writes_to written obs sys_write"
  shows "fd_write sys_write True s st = Inr (r, st') \<Longrightarrow>
    written (snd st') = written (snd st) @ s \<and> obs (snd st') = obs (snd st)"
proof (induction "length s" arbitrary: s st r rule: less_induct)
  case less
  obtain fd k where st: "st = (fd, k)" by (cases st)
  from less.prems obtain sent rest st1 where
    part: "fd_write_part sys_write s st = Inr ((sent, rest), st1)"
    by (subst (asm) fd_write.simps) (auto split: sum.splits)
  have s: "s = sent @ rest" "sent \<noteq> []"
    using fd_write_part_shape [OF part] by simp_all
  have "written (snd st1) = written k @ sent \<and> obs (snd st1) = obs k"
    using part assms unfolding st by (auto simp: fd_write_part_def writes_to_def res_iff split: if_splits)
  moreover have "written (snd st') = written (snd st1) @ rest \<and> obs (snd st') = obs (snd st1)"
  proof (cases "rest = []")
    case True
    then show ?thesis using less.prems part by (subst (asm) fd_write.simps) simp
  next
    case False
    obtain r1 where "fd_write sys_write True rest st1 = Inr (r1, st')"
      using less.prems part False by (subst (asm) fd_write.simps) (auto simp: res_iff)
    from less.hyps [OF _ this] s show ?thesis by simp
  qed
  ultimately show ?case using s st by simp
qed

lemma file_writes_written:
  assumes "writes_to written obs sys_write"
  shows "file_writes sys_write ss f k = Inr (f', k') \<Longrightarrow>
    written k' = written k @ concat ss \<and> obs k' = obs k \<and> mutable_temp_filename f' = mutable_temp_filename f"
proof (induction ss arbitrary: f k)
  case (Cons s ss)
  then obtain f1 k1 where one: "file_write sys_write s f k = Inr (f1, k1)"
    and rest: "file_writes sys_write ss f1 k1 = Inr (f', k')"
    by (auto simp: res_iff)
  have "written k1 = written k @ s \<and> obs k1 = obs k \<and> mutable_temp_filename f1 = mutable_temp_filename f"
    using one by (auto simp: file_write_def res_iff dest!: fd_write_written [OF assms] split: if_splits)
  then show ?case using Cons.IH [OF rest] by simp
qed simp

section \<open>Apache's configuration\<close>

lemma getlines_break: "getlines acc (x @ CHR 0x0A # y) = getlines acc (x @ [CHR 0x0A]) @ getlines [] y"
  by (induction x arbitrary: acc) auto

lemma getlines_ended: "CHR 0x0A \<notin> set x \<Longrightarrow> getlines [] (x @ CHR 0x0A # y) = x # getlines [] y"
  using getlines_line [of x "[]" y] by simp

lemma getlines_last: "CHR 0x0A \<notin> set x \<Longrightarrow> getlines acc x = (if acc @ x = [] then [] else [acc @ x])"
  by (induction x arbitrary: acc) auto

text \<open>The lines of a name: a directory may contain line breaks.\<close>

definition broken :: "string \<Rightarrow> string list \<Rightarrow> string" where
  "broken first others = first @ concat (map (\<lambda>x. CHR 0x0A # x) others)"

lemma getlines_broken:
  "\<forall>x \<in> set (first # others). CHR 0x0A \<notin> set x \<Longrightarrow>
     getlines [] (broken first others @ CHR 0x0A # rest) = first # others @ getlines [] rest"
  by (induction others arbitrary: first) (simp_all add: broken_def getlines_ended)

lemma main_config_ends: "\<exists>x. apache_main_config M = x @ [CHR 0x0A]" "\<exists>x. apache_ssl_config M = x @ [CHR 0x0A]"
  by (simp_all add: apache_main_config_def apache_ssl_config_def append_Cons [symmetric] append_assoc [symmetric]
      del: append_assoc append_Cons)

lemma getlines_main_config: "getlines [] (apache_main_config M @ y) = getlines [] (apache_main_config M) @ getlines [] y"
  using main_config_ends(1) [of M] getlines_break [of "[]" _ y] by auto

lemma getlines_ssl_config: "getlines [] (apache_ssl_config M @ y) = getlines [] (apache_ssl_config M) @ getlines [] y"
  using main_config_ends(2) [of M] getlines_break [of "[]" _ y] by auto

text \<open>
  What the calls made for a server do to some part of the state: they keep it, but for a command,
  which has the effect \<open>runs\<close>.
\<close>

definition server_keeps :: "('k \<Rightarrow> 'a) \<Rightarrow> (string list \<Rightarrow> 'a \<Rightarrow> 'a) \<Rightarrow> 'k replay_calls \<Rightarrow> bool" where
  "server_keeps obs runs R \<longleftrightarrow>
     (\<forall>t k b n k'. replay_mkstemp R t k = Inr (b, n, k') \<longrightarrow> obs k' = obs k) \<and>
     (\<forall>k. obs (snd (random_number R k)) = obs k) \<and>
     (\<forall>c k k'. net_run (replay_net R) c k = Inr k' \<longrightarrow> obs k' = runs c (obs k))"

lemma web_server_new_steps:
  assumes "web_server_new R addr wd dir k = Inr (s, k')"
  obtains f k1 f1 k2 k4 name where
    "unique_file_new (replay_mkstemp R) ''/tmp/replayshell_apache_config'' k = Inr (f, k1)"
    "file_writes (replay_write R) (config_head (modules R) addr wd dir) f k1 = Inr (f1, k2)"
    "file_writes (replay_write R) (config_tail (ntoa R) addr (replay_pid R) (fst (random_number R k2))
      (getuid (replay_ids R) (snd (random_number R k2))) (getgid (replay_ids R) (snd (random_number R k2))))
      f1 (snd (random_number R k2)) = Inr (config_file s, k4)"
    "file_name (config_file s) = Inr name" "\<not> server_moved_away s"
    "net_run (replay_net R) [APACHE2 R, ''-f'', name, ''-k'', ''start''] k4 = Inr k'"
  using assms by (auto simp: web_server_new_def res_iff case_prod_unfold)

lemma web_server_new_writes:
  assumes "writes_to written obs (replay_write R)" and "server_keeps written (\<lambda>_ w. w) R"
    and "server_keeps obs runs R" and "web_server_new R addr wd dir k = Inr (s, k')"
    and ids: "\<And>k k'. obs k' = obs k \<Longrightarrow> getuid (replay_ids R) k' = getuid (replay_ids R) k \<and>
        getgid (replay_ids R) k' = getgid (replay_ids R) k"
  shows "\<exists>salt. written k' = written k @ concat (config_head (modules R) addr wd dir) @
    concat (config_tail (ntoa R) addr (replay_pid R) salt (getuid (replay_ids R) k) (getgid (replay_ids R) k))"
proof -
  from assms(4) obtain f k1 f1 k2 k4 name where
    steps: "unique_file_new (replay_mkstemp R) ''/tmp/replayshell_apache_config'' k = Inr (f, k1)"
      "file_writes (replay_write R) (config_head (modules R) addr wd dir) f k1 = Inr (f1, k2)"
      "file_writes (replay_write R) (config_tail (ntoa R) addr (replay_pid R) (fst (random_number R k2))
        (getuid (replay_ids R) (snd (random_number R k2))) (getgid (replay_ids R) (snd (random_number R k2))))
        f1 (snd (random_number R k2)) = Inr (config_file s, k4)"
      "net_run (replay_net R) [APACHE2 R, ''-f'', name, ''-k'', ''start''] k4 = Inr k'"
    by (rule web_server_new_steps)
  let ?k3 = "snd (random_number R k2)"
  have "written k1 = written k \<and> obs k1 = obs k" "written ?k3 = written k2 \<and> obs ?k3 = obs k2"
    "written k' = written k4"
    using steps(1,4) assms(2,3) by (auto simp: unique_file_new_def server_keeps_def res_iff dest: spec)
  then show ?thesis
    using file_writes_written [OF assms(1) steps(2)] file_writes_written [OF assms(1) steps(3)]
      ids [of ?k3 k] by auto
qed

lemma getlines_append: "CHR 0x0A \<notin> set x \<Longrightarrow> getlines acc (x @ y) = getlines (acc @ x) y"
  by (induction x arbitrary: acc) auto

lemma getlines_append1: "CHR 0x0A \<notin> set x \<Longrightarrow> getlines acc x = (if acc @ x = [] then [] else [acc @ x])"
  using getlines_append [of x acc "[]"] by simp

lemma config_tail_lines:
  "CHR 0x0A \<notin> set (print (sin_addr addr)) \<Longrightarrow>
   getlines [] (concat (config_tail print addr pid salt uid gid)) =
     [''PidFile /tmp/replayshell_apache_pid.'' @ to_string pid @ ''.'' @ to_string salt,
      ''ServerName mahimahi.'', ''ErrorLog /dev/null'', ''CustomLog /dev/null common'',
      ''User #'' @ to_string (unat uid), ''Group #'' @ to_string (unat gid),
      ''Listen '' @ sockaddr_str print addr]"
  by (simp add: config_tail_def sockaddr_str_def getlines_append getlines_append1 to_string_no_newline)

section \<open>A small system\<close>

text \<open>Its state is what was written, the commands that were run, and the IDs.\<close>

type_synonym small = "string \<times> string list list \<times> cred"

definition small_ids :: "small id_calls" where
  "small_ids =
     \<lparr>getuid = (\<lambda>(w, c, u). getuid id_changes u), geteuid = (\<lambda>(w, c, u). geteuid id_changes u),
      saved_uid = (\<lambda>(w, c, u). saved_uid id_changes u), getgid = (\<lambda>(w, c, u). getgid id_changes u),
      getegid = (\<lambda>(w, c, u). getegid id_changes u), saved_gid = (\<lambda>(w, c, u). saved_gid id_changes u),
      setreuid = (\<lambda>r e (w, c, u). map_option (\<lambda>u'. (w, c, u')) (setreuid id_changes r e u)),
      setregid = (\<lambda>r e (w, c, u). map_option (\<lambda>u'. (w, c, u')) (setregid id_changes r e u)),
      seteuid = (\<lambda>e (w, c, u). map_option (\<lambda>u'. (w, c, u')) (seteuid id_changes e u)),
      setegid = (\<lambda>e (w, c, u). map_option (\<lambda>u'. (w, c, u')) (setegid id_changes e u))\<rparr>"

lemma small_ids_calls:
  "uids small_ids (w, c, u) = uids id_changes u" "gids small_ids (w, c, u) = gids id_changes u"
  "geteuid small_ids (w, c, u) = geteuid id_changes u"
  "setreuid small_ids r e (w, c, u) = map_option (\<lambda>u'. (w, c, u')) (setreuid id_changes r e u)"
  "setregid small_ids r e (w, c, u) = map_option (\<lambda>u'. (w, c, u')) (setregid id_changes r e u)"
  "seteuid small_ids e (w, c, u) = map_option (\<lambda>u'. (w, c, u')) (seteuid id_changes e u)"
  "setegid small_ids e (w, c, u) = map_option (\<lambda>u'. (w, c, u')) (setegid id_changes e u)"
  by (simp_all add: uids_def gids_def small_ids_def)

interpretation small: permissive_credentials small_ids
proof
  fix r e and k k' :: small
  obtain w c u w' c' u' where k: "k = (w, c, u)" "k' = (w', c', u')" by (metis surj_pair)
  note laws = linux.setreuid_law linux.setregid_law linux.seteuid_law linux.setegid_law
  note works = linux.setreuid_works linux.setregid_works linux.seteuid_works linux.setegid_works
  note simps = k small_ids_calls option.map_disc_iff map_option_eq_Some
  show "set_real_effective (geteuid small_ids k = 0) r e (uids small_ids k) = Some (uids small_ids k') \<and>
      gids small_ids k' = gids small_ids k" if "setreuid small_ids r e k = Some k'"
    using that laws(1) [of r e u u'] unfolding simps by blast
  show "set_real_effective (geteuid small_ids k = 0) r e (gids small_ids k) = Some (gids small_ids k') \<and>
      uids small_ids k' = uids small_ids k" if "setregid small_ids r e k = Some k'"
    using that laws(2) [of r e u u'] unfolding simps by blast
  show "set_effective (geteuid small_ids k = 0) e (uids small_ids k) = Some (uids small_ids k') \<and>
      gids small_ids k' = gids small_ids k" if "seteuid small_ids e k = Some k'"
    using that laws(3) [of e u u'] unfolding simps by blast
  show "set_effective (geteuid small_ids k = 0) e (gids small_ids k) = Some (gids small_ids k') \<and>
      uids small_ids k' = uids small_ids k" if "setegid small_ids e k = Some k'"
    using that laws(4) [of e u u'] unfolding simps by blast
  show "setreuid small_ids r e k \<noteq> None"
    if "set_real_effective (geteuid small_ids k = 0) r e (uids small_ids k) \<noteq> None"
    using that works(1) [of u r e] unfolding simps by blast
  show "setregid small_ids r e k \<noteq> None"
    if "set_real_effective (geteuid small_ids k = 0) r e (gids small_ids k) \<noteq> None"
    using that works(2) [of u r e] unfolding simps by blast
  show "seteuid small_ids e k \<noteq> None" if "set_effective (geteuid small_ids k = 0) e (uids small_ids k) \<noteq> None"
    using that works(3) [of u e] unfolding simps by blast
  show "setegid small_ids e k \<noteq> None" if "set_effective (geteuid small_ids k = 0) e (gids small_ids k) \<noteq> None"
    using that works(4) [of u e] unfolding simps by blast
qed

definition small_net :: "small net_calls" where
  "small_net =
     \<lparr>open_udp = (\<lambda>k. Inr (sample_fd, k)), net_ioctl = (\<lambda>n name r k. Some k),
      net_run = (\<lambda>c (w, cs, u). Inr (w, cs @ [c], u)), IP_program = ''/sbin/ip''\<rparr>"

definition small_exchange :: stored_exchange where
  "small_exchange =
     \<lparr>stored_ip = ''192.0.2.1'', stored_port = 80, stored_https = False,
      stored_request = \<lparr>proto_first_line = ''GET / HTTP/1.1'', proto_header = [\<lparr>header_key = ''Host'', header_value = ''example.org''\<rparr>],
        proto_body = []\<rparr>,
      stored_response = \<lparr>proto_first_line = ''HTTP/1.1 200 OK'', proto_header = [], proto_body = []\<rparr>\<rparr>"

definition small_replay :: "small replay_calls" where
  "small_replay =
     \<lparr>replay_ids = small_ids, replay_net = small_net, replay_mkstemp = (\<lambda>t k. Inr (t, 3, k)),
      replay_open = (\<lambda>name k. Inr (4, k)), replay_read = (\<lambda>n k. Inr (''1'' @ [CHR 0x0A], k)),
      replay_write = (\<lambda>s (w, cs, u). Inr (length s, (w @ s, cs, u))), replay_unlink = (\<lambda>name k. Some k),
      replay_readdir = (\<lambda>name k. Some ([''.'', ''..'', ''save.1''], k)),
      parse_file = (\<lambda>n k. (Some small_exchange, k)),
      getcwd = (\<lambda>k. Some ''/home/user''), chdir = (\<lambda>name k. Some k), pw_shell = (\<lambda>k. Inr ''/bin/sh''),
      unshare_net = Some, srandom_time = (\<lambda>k. k), random_number = (\<lambda>k. (7, k)), replay_pid = 4711,
      modules = \<lparr>MOD_MPM_PREFORK = ''a.so'', MOD_AUTHZ_CORE = ''b.so'', MOD_DEEPCGI = ''c.so'', MOD_SSL = ''d.so'',
        MOD_SSL_CERTIFICATE_FILE = ''e.pem'', MOD_SSL_KEY = ''f.pem''\<rparr>,
      APACHE2 = ''/usr/sbin/apache2'', DNSMASQ = ''/usr/sbin/dnsmasq'',
      ntoa = (\<lambda>a. if a = 3221225985 then ''192.0.2.1'' else ''0.0.0.0''),
      resolve = (\<lambda>s. if s = ''192.0.2.1'' then Inr 3221225985 else Inl (UnixError ''getaddrinfo'')),
      replay_res_init = (\<lambda>k. Some ([numeric_address ''192.0.2.53'' 53], k)),
      dns_spawn = (\<lambda>c (w, cs, u). Inr (4712, (w, cs @ [c], u))), dns_connect = Inr, dns_write = (\<lambda>k. (Inr (), k)),
      replay_strerror = (\<lambda>s. []), replay_clone = (\<lambda>b k. Inr (4713, k))\<rparr>"

section \<open>Properties\<close>

text \<open>
  What a server's configuration consists of. Its lines are the fixed ones, the two
  directories, the ones for TLS exactly when the port is 443, and then the name of the file of process
  numbers, the names of logs, the user's IDs and the address to listen at. But a working directory
  whose name contains line breaks, which the user can make, adds each of its further lines as a
  directive of its own to the configuration of a server that is started as root.
\<close>

theorem apache_config:
  defines "ids \<equiv> \<lambda>R k. (getuid (replay_ids R) k, getgid (replay_ids R) k)"
  assumes "writes_to written (ids R) (replay_write R)" and "server_keeps written (\<lambda>_ w. w) R"
    and "server_keeps (ids R) (\<lambda>_ i. i) R"
    and "\<forall>x \<in> set (record_path # first # others). CHR 0x0A \<notin> set x" and "CHR 0x0A \<notin> set (ntoa R (sin_addr addr))"
    and "web_server_new R addr (broken first others) record_path k = Inr (s, k')"
  shows "\<exists>salt cfg. written k' = written k @ cfg \<and> getlines [] cfg =
      getlines [] (apache_main_config (modules R)) @
      (''WorkingDir '' @ first) # others @ [''RecordingDir '' @ record_path] @
      (if sin_port addr = 443 then getlines [] (apache_ssl_config (modules R)) else []) @
      [''PidFile /tmp/replayshell_apache_pid.'' @ to_string (replay_pid R) @ ''.'' @ to_string salt,
       ''ServerName mahimahi.'', ''ErrorLog /dev/null'', ''CustomLog /dev/null common'',
       ''User #'' @ to_string (unat (getuid (replay_ids R) k)),
       ''Group #'' @ to_string (unat (getgid (replay_ids R) k)),
       ''Listen '' @ sockaddr_str (ntoa R) addr]"
proof -
  obtain salt where salt: "written k' = written k @
      concat (config_head (modules R) addr (broken first others) record_path) @
      concat (config_tail (ntoa R) addr (replay_pid R) salt (getuid (replay_ids R) k) (getgid (replay_ids R) k))"
    using web_server_new_writes [OF assms(2-4,7)] by (auto simp: ids_def)
  let ?tail = "concat (config_tail (ntoa R) addr (replay_pid R) salt (getuid (replay_ids R) k) (getgid (replay_ids R) k))"
  have "getlines [] (concat (config_head (modules R) addr (broken first others) record_path) @ ?tail) =
      getlines [] (apache_main_config (modules R)) @ (''WorkingDir '' @ first) # others @
      [''RecordingDir '' @ record_path] @
      (if sin_port addr = 443 then getlines [] (apache_ssl_config (modules R)) else []) @ getlines [] ?tail"
    using assms(5) getlines_broken [of "''WorkingDir '' @ first" others]
    by (simp add: config_head_def getlines_main_config getlines_ssl_config getlines_append broken_def)
  then show ?thesis
    using salt config_tail_lines [of "ntoa R", OF assms(6)] by auto
qed

text \<open>A user who starts the shell in a directory whose name has a second line.\<close>

lemma small_writes:
  "[] \<notin> set ss \<Longrightarrow> \<not> file_moved_away f \<Longrightarrow> \<exists>f'. file_writes (replay_write small_replay) ss f (w, cs, u) =
     Inr (f', (w @ concat ss, cs, u)) \<and> \<not> file_moved_away f' \<and> mutable_temp_filename f' = mutable_temp_filename f"
proof (induction ss arbitrary: f w)
  case (Cons s ss)
  have "fd_write (replay_write small_replay) True s (fd, (w, cs, u)) =
      Inr ((s, []), (fd\<lparr>write_count := write_count fd + 1\<rparr>, (w @ s, cs, u)))" for fd
    using Cons.prems(1) by (subst fd_write.simps) (auto simp: fd_write_part_def small_replay_def)
  then show ?case
    using Cons.prems Cons.IH [of "f\<lparr>file_fd := file_fd f\<lparr>write_count := write_count (file_fd f) + 1\<rparr>\<rparr>" "w @ s"]
    by (simp add: file_write_def)
qed simp

lemma small_server:
  "\<exists>s w'. web_server_new small_replay addr wd dir (w, cs, u) = Inr (s, (w', cs @
     [[''/usr/sbin/apache2'', ''-f'', ''/tmp/replayshell_apache_config.XXXXXX'', ''-k'', ''start'']], u))"
proof -
  have head: "[] \<notin> set (config_head M addr wd dir)" for M
    by (simp add: config_head_def apache_main_config_def apache_ssl_config_def)
  have tail: "[] \<notin> set (config_tail (ntoa small_replay) addr p salt i g)" for p salt i g
    by (simp add: config_tail_def)
  let ?name = "''/tmp/replayshell_apache_config.XXXXXX'' @ [CHR 0x00]"
  obtain f where f: "mutable_temp_filename f = ?name" "\<not> file_moved_away f"
    and new: "\<And>k. unique_file_new (replay_mkstemp small_replay) ''/tmp/replayshell_apache_config'' k = Inr (f, k)"
    by (rule that [of "\<lparr>mutable_temp_filename = ?name,
        file_fd = \<lparr>fd_num = 3, fd_eof = False, read_count = 0, write_count = 0\<rparr>, file_moved_away = False\<rparr>"])
      (simp_all add: unique_file_new_def small_replay_def to_mutable_def fd_new_def)
  obtain f1 w1 where f1: "file_writes (replay_write small_replay) (config_head (modules small_replay) addr wd dir) f
      (w, cs, u) = Inr (f1, (w1, cs, u))" "\<not> file_moved_away f1" "mutable_temp_filename f1 = ?name"
    using small_writes [OF head f(2)] f(1) by metis
  obtain f2 w2 where f2: "file_writes (replay_write small_replay) (config_tail (ntoa small_replay) addr
      (replay_pid small_replay) 7 (getuid (replay_ids small_replay) (w1, cs, u))
      (getgid (replay_ids small_replay) (w1, cs, u))) f1 (w1, cs, u) = Inr (f2, (w2, cs, u))"
      "mutable_temp_filename f2 = ?name"
    using small_writes [OF tail f1(2)] f1(3) by metis
  have random: "random_number small_replay k = (7, k)" for k
    by (simp add: small_replay_def)
  have net: "net_run (replay_net small_replay) c (v, ds, i) = Inr (v, ds @ [c], i)"
    "APACHE2 small_replay = ''/usr/sbin/apache2''" for c v ds i
    by (simp_all add: small_replay_def small_net_def)
  show ?thesis
    by (simp add: web_server_new_def new f1(1) random f2(1) file_name_def f2(2) net)
qed

lemma apache_config_witness:
  "\<exists>s w cs u salt. web_server_new small_replay (SockaddrIn 80 3221225985)
      (broken ''/home/user/a'' [''LoadModule x /home/user/x.so'']) ''trace/'' ([], [], sample_cred) = Inr (s, (w, cs, u)) \<and>
    getlines [] w =
      getlines [] (apache_main_config (modules small_replay)) @
      [''WorkingDir /home/user/a'', ''LoadModule x /home/user/x.so'', ''RecordingDir trace/'',
       ''PidFile /tmp/replayshell_apache_pid.4711.'' @ to_string salt,
       ''ServerName mahimahi.'', ''ErrorLog /dev/null'', ''CustomLog /dev/null common'',
       ''User #1000'', ''Group #100'', ''Listen 192.0.2.1:80'']"
proof -
  let ?a = "SockaddrIn 80 3221225985" and ?d = "broken ''/home/user/a'' [''LoadModule x /home/user/x.so'']"
  obtain s w cs u where new: "web_server_new small_replay ?a ?d ''trace/'' ([], [], sample_cred) = Inr (s, (w, cs, u))"
    using small_server by blast
  have "writes_to fst (\<lambda>k. (getuid (replay_ids small_replay) k, getgid (replay_ids small_replay) k)) (replay_write small_replay)"
    "server_keeps fst (\<lambda>_ w. w) small_replay"
    "server_keeps (\<lambda>k. (getuid (replay_ids small_replay) k, getgid (replay_ids small_replay) k)) (\<lambda>_ i. i) small_replay"
    by (auto simp: writes_to_def server_keeps_def small_replay_def small_net_def small_ids_def split: prod.splits)
  from apache_config [OF this _ _ new]
  obtain salt where "getlines [] w = getlines [] (apache_main_config (modules small_replay)) @
      [''WorkingDir /home/user/a'', ''LoadModule x /home/user/x.so'', ''RecordingDir trace/'',
       ''PidFile /tmp/replayshell_apache_pid.'' @ to_string (replay_pid small_replay) @ ''.'' @ to_string salt,
       ''ServerName mahimahi.'', ''ErrorLog /dev/null'', ''CustomLog /dev/null common'',
       ''User #'' @ to_string (unat (getuid (replay_ids small_replay) ([], [], sample_cred))),
       ''Group #'' @ to_string (unat (getgid (replay_ids small_replay) ([], [], sample_cred))),
       ''Listen '' @ sockaddr_str (ntoa small_replay) ?a]"
    by (auto simp: small_replay_def)
  moreover have "replay_pid small_replay = 4711" "ntoa small_replay 3221225985 = ''192.0.2.1''"
    "getuid (replay_ids small_replay) ([], [], sample_cred) = 1000"
    "getgid (replay_ids small_replay) ([], [], sample_cred) = 100"
    by (simp_all add: small_replay_def small_ids_def id_changes_def sample_cred_def)
  moreover have "to_string 4711 = ''4711''" "to_string 1000 = ''1000''" "to_string 100 = ''100''" "to_string 80 = ''80''"
    by (simp_all add: to_string.simps digit_char_def) code_simp+
  ultimately have "getlines [] w = getlines [] (apache_main_config (modules small_replay)) @
      [''WorkingDir /home/user/a'', ''LoadModule x /home/user/x.so'', ''RecordingDir trace/'',
       ''PidFile /tmp/replayshell_apache_pid.4711.'' @ to_string salt,
       ''ServerName mahimahi.'', ''ErrorLog /dev/null'', ''CustomLog /dev/null common'',
       ''User #1000'', ''Group #100'', ''Listen 192.0.2.1:80'']"
    by (simp add: sockaddr_str_def)
  with new show ?thesis by blast
qed

section \<open>The commands that are run\<close>

text \<open>
  \<open>started\<close> lists the programs that were started; only the calls that start one add to it.
\<close>

definition starts_logged :: "('k \<Rightarrow> string list list) \<Rightarrow> 'k replay_calls \<Rightarrow> bool" where
  "starts_logged started R \<longleftrightarrow>
     server_keeps started (\<lambda>c cs. cs @ [c]) R \<and>
     (\<forall>k fd k'. open_udp (replay_net R) k = Inr (fd, k') \<longrightarrow> started k' = started k) \<and>
     (\<forall>n name r k k'. net_ioctl (replay_net R) n name r k = Some k' \<longrightarrow> started k' = started k) \<and>
     (\<forall>k as k'. replay_res_init R k = Some (as, k') \<longrightarrow> started k' = started k) \<and>
     (\<forall>c k pid k'. dns_spawn R c k = Inr (pid, k') \<longrightarrow> started k' = started k @ [c]) \<and>
     (\<forall>k k'. dns_connect R k = Inr k' \<longrightarrow> started k' = started k) \<and>
     (\<forall>k. started (snd (dns_write R k)) = started k)"

definition numbered_dummies :: "string \<Rightarrow> string \<Rightarrow> nat list \<Rightarrow> string list list" where
  "numbered_dummies ip_program stem numbers = map (\<lambda>i. dummy_command ip_program (stem @ to_string i)) numbers"

lemma temp_ioctl_starts:
  "starts_logged started R \<Longrightarrow> temp_ioctl (replay_net R) r name k = Inr k' \<Longrightarrow> started k' = started k"
  by (auto simp: starts_logged_def temp_ioctl_def interface_ioctl_def res_iff)

lemma add_dummy_interface_starts:
  assumes "starts_logged started R" and "add_dummy_interface (replay_net R) name a k = Inr k'"
  shows "started k' = started k @ [dummy_command (IP_program (replay_net R)) name]"
proof -
  obtain k1 k2 where "net_run (replay_net R) (dummy_command (IP_program (replay_net R)) name) k = Inr k1"
    "temp_ioctl (replay_net R) SIOCSIFFLAGS_UP name k1 = Inr k2" "temp_ioctl (replay_net R) (SIOCSIFADDR a) name k2 = Inr k'"
    using assms(2) by (auto simp: add_dummy_interface_def res_iff)
  then show ?thesis
    using temp_ioctl_starts [OF assms(1)] assms(1) by (auto simp: starts_logged_def server_keeps_def)
qed

lemma add_interfaces_starts:
  assumes "starts_logged started R"
  shows "add_interfaces (replay_net R) stem (of_nat i) as k = Inr k' \<Longrightarrow> i + length as \<le> 2 ^ 32 \<Longrightarrow>
    started k' = started k @ numbered_dummies (IP_program (replay_net R)) stem [i..<i + length as]"
proof (induction as arbitrary: i k)
  case (Cons a as)
  obtain k1 where one: "add_dummy_interface (replay_net R) (stem @ to_string (unat (of_nat i :: u32))) a k = Inr k1"
    and rest: "add_interfaces (replay_net R) stem (of_nat (Suc i)) as k1 = Inr k'"
    using Cons.prems(1) by (auto simp: res_iff add.commute)
  have "unat (of_nat i :: u32) = i"
    using Cons.prems(2) by (simp add: unat_of_nat)
  then show ?case
    using add_dummy_interface_starts [OF assms one] Cons.IH [OF rest] Cons.prems(2)
    by (simp add: numbered_dummies_def upt_conv_Cons del: upt_Suc)
qed (simp add: numbered_dummies_def)

definition server_command :: "string \<Rightarrow> web_server \<Rightarrow> string list" where
  "server_command apache w = [apache, ''-f'', projr (file_name (config_file w)), ''-k'', ''start'']"

lemma web_server_new_starts:
  assumes "starts_logged started R" and "writes_to written started (replay_write R)"
    and "web_server_new R addr wd dir k = Inr (s, k')"
  shows "started k' = started k @ [server_command (APACHE2 R) s]"
proof -
  from assms(3) obtain f k1 f1 k2 k4 name where
    steps: "unique_file_new (replay_mkstemp R) ''/tmp/replayshell_apache_config'' k = Inr (f, k1)"
      "file_writes (replay_write R) (config_head (modules R) addr wd dir) f k1 = Inr (f1, k2)"
      "file_writes (replay_write R) (config_tail (ntoa R) addr (replay_pid R) (fst (random_number R k2))
        (getuid (replay_ids R) (snd (random_number R k2))) (getgid (replay_ids R) (snd (random_number R k2))))
        f1 (snd (random_number R k2)) = Inr (config_file s, k4)"
      "file_name (config_file s) = Inr name"
      "net_run (replay_net R) [APACHE2 R, ''-f'', name, ''-k'', ''start''] k4 = Inr k'"
    by (rule web_server_new_steps)
  have "server_keeps started (\<lambda>c cs. cs @ [c]) R"
    using assms(1) by (simp add: starts_logged_def)
  then have "started k1 = started k" "started (snd (random_number R k2)) = started k2"
    "started k' = started k4 @ [server_command (APACHE2 R) s]"
    using steps(1,4,5) by (auto simp: unique_file_new_def server_keeps_def server_command_def res_iff dest: spec)
  then show ?thesis
    using file_writes_written [OF assms(2) steps(2)] file_writes_written [OF assms(2) steps(3)] by simp
qed

lemma start_servers_starts:
  assumes "starts_logged started R" and "writes_to written started (replay_write R)"
  shows "start_servers R wd dir as ss k = Inr (ws, k') \<Longrightarrow>
    \<exists>new. ws = ss @ new \<and> length new = length as \<and> started k' = started k @ map (server_command (APACHE2 R)) new"
proof (induction as arbitrary: ss k)
  case (Cons a as)
  obtain s k1 where one: "web_server_new R a wd dir k = Inr (s, k1)"
    and rest: "start_servers R wd dir as (ss @ [s]) k1 = Inr (ws, k')"
    using Cons.prems by (auto simp: res_iff)
  obtain new where "ws = ss @ (s # new) \<and> length (s # new) = length (a # as) \<and>
      started k' = started k @ map (server_command (APACHE2 R)) (s # new)"
    using Cons.IH [OF rest] web_server_new_starts [OF assms one] by auto
  then show ?case by blast
qed simp

lemma await_dnsmasq_keeps:
  assumes "\<And>k. started (snd (w k)) = started k"
  shows "await_dnsmasq w strerror n k = Inr (m, k') \<Longrightarrow> started k' = started k"
proof (induction "20 - n" arbitrary: n k rule: less_induct)
  case less
  have probe: "started (snd (probe w k)) = started k"
    using assms by (simp add: probe_def split: sum.splits prod.splits) (metis snd_conv)
  have n: "\<not> 20 \<le> n + 1"
    using less.prems by (subst (asm) await_dnsmasq.simps) (auto split: if_splits)
  obtain r k1 where k1: "probe w k = (r, k1)" by (cases "probe w k")
  show ?case
  proof (cases r)
    case (Inl e)
    have "await_dnsmasq w strerror (n + 1) k1 = Inr (m, k')"
      using less.prems n k1 Inl by (subst (asm) await_dnsmasq.simps) (auto split: if_splits)
    from less.hyps [OF _ this] n probe k1 show ?thesis by simp
  next
    case (Inr u)
    then show ?thesis
      using less.prems n k1 probe by (subst (asm) await_dnsmasq.simps) (auto split: if_splits)
  qed
qed

text \<open>
  The commands the shell runs as root, all of them and in order: one interface per
  address, numbered from 0; one server for every distinct address and port, each with the file made for
  it; one interface per name server; and the name server, with the file of hosts.
\<close>

theorem replay_commands:
  assumes "starts_logged started R" and "writes_to written started (replay_write R)"
    and "card (unique_ip s) \<le> 2 ^ 32"
    and "replay_network R directory wd s k = Inr (ws, hosts, dnsmasq, k')"
  shows "\<exists>n \<le> MAXNS. started k' = started k @
      numbered_dummies (IP_program (replay_net R)) ''sharded'' [0..<card (unique_ip s)] @
      map (server_command (APACHE2 R)) ws @
      numbered_dummies (IP_program (replay_net R)) ''nameserver'' [0..<n] @
      [dnsmasq_command (DNSMASQ R) [''-H'', projr (file_name hosts)]] \<and>
    length ws = card (unique_ip_and_port s)"
proof -
  let ?as = "map (address_of_sin (ntoa R)) (sorted_list_of_set (unique_ip s))"
  let ?lines = "map (host_line (ntoa R)) (hostname_to_ip s)"
  obtain k1 k2 f k3 k4 ns k5 name k6 where steps:
    "add_interfaces (replay_net R) ''sharded'' 0 ?as k = Inr k1"
    "start_servers R wd directory (sorted_list_of_set (unique_ip_and_port s)) [] k1 = Inr (ws, k2)"
    "unique_file_new (replay_mkstemp R) ''/tmp/replayshell_hosts'' k2 = Inr (f, k3)"
    "file_writes (replay_write R) ?lines f k3 = Inr (hosts, k4)"
    "all_nameservers (replay_res_init R) k4 = Inr (ns, k5)" "file_name hosts = Inr name"
    "add_interfaces (replay_net R) ''nameserver'' 0 ns k5 = Inr k6"
    "start_dnsmasq (DNSMASQ R) (dns_spawn R) (dns_connect R) (dns_write R) (replay_strerror R) [''-H'', name] k6 =
      Inr (dnsmasq, k')"
    using assms(4) by (auto simp: replay_network_def res_iff)
  let ?n = "length ns"
  have n: "?n \<le> MAXNS"
    using steps(5) by (auto simp: all_nameservers_def res_iff intro: order_trans [OF length_filter_le])
  have "started k1 = started k @ numbered_dummies (IP_program (replay_net R)) ''sharded'' [0..<card (unique_ip s)]"
    using add_interfaces_starts [OF assms(1), of "''sharded''" 0 ?as k k1] steps(1) assms(3) by simp
  moreover from start_servers_starts [OF assms(1,2) steps(2)]
  have "length ws = card (unique_ip_and_port s) \<and> started k2 = started k1 @ map (server_command (APACHE2 R)) ws"
    by auto
  moreover have "started k3 = started k2"
    using steps(3) assms(1) by (auto simp: unique_file_new_def starts_logged_def server_keeps_def res_iff)
  moreover have "started k4 = started k3"
    using file_writes_written [OF assms(2) steps(4)] by simp
  moreover have "started k5 = started k4"
    using steps(5) assms(1) by (auto simp: all_nameservers_def starts_logged_def res_iff)
  moreover have "started k6 = started k5 @ numbered_dummies (IP_program (replay_net R)) ''nameserver'' [0..<?n]"
    using add_interfaces_starts [OF assms(1), of "''nameserver''" 0 ns k5 k6] steps(7) n by (simp add: MAXNS_def)
  moreover have "started k' = started k6 @ [dnsmasq_command (DNSMASQ R) [''-H'', name]]"
  proof -
    obtain pid k7 k8 m where dns: "dns_spawn R (dnsmasq_command (DNSMASQ R) [''-H'', name]) k6 = Inr (pid, k7)"
      "dns_connect R k7 = Inr k8" "await_dnsmasq (dns_write R) (replay_strerror R) 0 k8 = Inr (m, k')"
      using steps(8) by (auto simp: start_dnsmasq_def res_iff)
    have "started k' = started k8"
      by (rule await_dnsmasq_keeps [OF _ dns(3)]) (use assms(1) in \<open>simp add: starts_logged_def\<close>)
    moreover have "started k8 = started k7"
      using dns(2) assms(1) unfolding starts_logged_def by blast
    moreover have "started k7 = started k6 @ [dnsmasq_command (DNSMASQ R) [''-H'', name]]"
      using dns(1) assms(1) unfolding starts_logged_def by blast
    ultimately show ?thesis by simp
  qed
  ultimately show ?thesis
    using n steps(6) by (intro exI [of _ ?n]) simp
qed

lemma small_starts:
  "starts_logged (\<lambda>(w, cs, u). cs) small_replay" "writes_to fst (\<lambda>(w, cs, u). cs) (replay_write small_replay)"
  by (auto simp: starts_logged_def server_keeps_def writes_to_def small_replay_def small_net_def split: prod.splits)

definition small_served :: served where
  "small_served =
     \<lparr>unique_ip = {SockaddrIn 0 3221225985}, unique_ip_and_port = {SockaddrIn 80 3221225985},
      hostname_to_ip = [(''example.org'', SockaddrIn 80 3221225985)]\<rparr>"

lemma small_interface:
  "add_dummy_interface (replay_net small_replay) name a (w, cs, u) = Inr (w, cs @ [dummy_command ''/sbin/ip'' name], u)"
  by (simp add: add_dummy_interface_def small_replay_def small_net_def temp_ioctl_def interface_ioctl_def system_call_def)

lemma small_interfaces:
  "\<exists>cs'. add_interfaces (replay_net small_replay) stem i as (w, cs, u) = Inr (w, cs', u)"
  by (induction as arbitrary: i cs) (simp_all add: small_interface)

lemma small_file:
  "\<exists>f. unique_file_new (replay_mkstemp small_replay) t k = Inr (f, k) \<and> \<not> file_moved_away f \<and>
     mutable_temp_filename f = t @ ''.XXXXXX'' @ [CHR 0x00]"
  by (simp add: unique_file_new_def small_replay_def to_mutable_def fd_new_def)

lemma small_servers:
  "\<exists>ws' w' cs'. start_servers small_replay wd dir as ws (w, cs, u) = Inr (ws', (w', cs', u))"
proof (induction as arbitrary: ws w cs)
  case (Cons a as)
  then show ?case using small_server [of a wd dir w cs u] by fastforce
qed simp

lemma small_network:
  "\<exists>ws hosts dnsmasq k'. replay_network small_replay dir wd s (w, cs, u) = Inr (ws, hosts, dnsmasq, k')"
proof -
  obtain cs1 where ips: "add_interfaces (replay_net small_replay) ''sharded'' 0
      (map (address_of_sin (ntoa small_replay)) (sorted_list_of_set (unique_ip s))) (w, cs, u) = Inr (w, cs1, u)"
    using small_interfaces by blast
  obtain ws w2 cs2 where ws: "start_servers small_replay wd dir (sorted_list_of_set (unique_ip_and_port s)) []
      (w, cs1, u) = Inr (ws, (w2, cs2, u))"
    using small_servers by blast
  obtain f where f: "unique_file_new (replay_mkstemp small_replay) ''/tmp/replayshell_hosts'' (w2, cs2, u) = Inr (f, (w2, cs2, u))"
    "\<not> file_moved_away f" "mutable_temp_filename f = ''/tmp/replayshell_hosts'' @ ''.XXXXXX'' @ [CHR 0x00]"
    using small_file by metis
  have "[] \<notin> set (map (host_line (ntoa small_replay)) (hostname_to_ip s))"
    by (auto simp: host_line_def)
  then obtain f' w4 where lines: "file_writes (replay_write small_replay) (map (host_line (ntoa small_replay)) (hostname_to_ip s))
      f (w2, cs2, u) = Inr (f', (w4, cs2, u))" "mutable_temp_filename f' = mutable_temp_filename f"
    using small_writes [OF _ f(2)] by metis
  have name: "file_name f' = Inr ''/tmp/replayshell_hosts.XXXXXX''"
    using lines(2) f(3) by (simp add: file_name_def)
  have ns: "all_nameservers (replay_res_init small_replay) k = Inr ([numeric_address ''192.0.2.53'' 53], k)" for k
    by (simp add: all_nameservers_def small_replay_def MAXNS_def numeric_address_def system_call_def)
  obtain cs6 where nis: "add_interfaces (replay_net small_replay) ''nameserver'' 0 [numeric_address ''192.0.2.53'' 53]
      (w4, cs2, u) = Inr (w4, cs6, u)"
    using small_interfaces by blast
  have dns: "\<exists>d k'. start_dnsmasq (DNSMASQ small_replay) (dns_spawn small_replay) (dns_connect small_replay)
      (dns_write small_replay) e c (v, ds, i) = Inr (d, k')" for e c v ds i
    by (cases i) (auto simp: start_dnsmasq_def small_replay_def await_dnsmasq.simps probe_def)
  then obtain d k' where "start_dnsmasq (DNSMASQ small_replay) (dns_spawn small_replay) (dns_connect small_replay)
      (dns_write small_replay) (replay_strerror small_replay) [''-H'', ''/tmp/replayshell_hosts.XXXXXX''] (w4, cs6, u) = Inr (d, k')"
    by blast
  then show ?thesis
    by (simp add: replay_network_def ips ws f(1) lines(1) ns name nis del: add_interfaces.simps split_paired_Ex)
qed

lemma replay_commands_witness:
  "\<exists>ws hosts dnsmasq w cs u. replay_network small_replay ''trace/'' ''/home/user'' small_served ([], [], sample_cred) =
     Inr (ws, hosts, dnsmasq, (w, cs, u)) \<and> length ws = 1 \<and>
     (\<exists>n \<le> 3. cs = [dummy_command ''/sbin/ip'' (''sharded'' @ to_string 0)] @ map (server_command ''/usr/sbin/apache2'') ws @
       numbered_dummies ''/sbin/ip'' ''nameserver'' [0..<n] @
       [dnsmasq_command ''/usr/sbin/dnsmasq'' [''-H'', projr (file_name hosts)]])"
proof -
  obtain ws hosts dnsmasq w cs u where run: "replay_network small_replay ''trace/'' ''/home/user'' small_served
      ([], [], sample_cred) = Inr (ws, hosts, dnsmasq, (w, cs, u))"
    using small_network by (metis surj_pair)
  have paths: "IP_program (replay_net small_replay) = ''/sbin/ip''" "APACHE2 small_replay = ''/usr/sbin/apache2''"
    "DNSMASQ small_replay = ''/usr/sbin/dnsmasq''"
    by (simp_all add: small_replay_def small_net_def)
  have "length ws = 1 \<and> (\<exists>n \<le> 3. cs = [dummy_command ''/sbin/ip'' (''sharded'' @ to_string 0)] @
       map (server_command ''/usr/sbin/apache2'') ws @
       numbered_dummies ''/sbin/ip'' ''nameserver'' [0..<n] @
       [dnsmasq_command ''/usr/sbin/dnsmasq'' [''-H'', projr (file_name hosts)]])"
    using replay_commands [OF small_starts _ run] by (auto simp: paths MAXNS_def small_served_def numbered_dummies_def)
  with run show ?thesis by blast
qed

section \<open>The files of the directory\<close>

text \<open>The exchanges in the files, read one after the other.\<close>

inductive reads :: "'k replay_calls \<Rightarrow> string list \<Rightarrow> 'k \<Rightarrow> stored_exchange list \<Rightarrow> 'k \<Rightarrow> bool" for R where
  none: "reads R [] k [] k"
| some: "replay_open R path k = Inr (n, k1) \<Longrightarrow> 2 < n \<Longrightarrow> parse_file R n k1 = (Some p, k2) \<Longrightarrow>
     reads R files k2 ps k' \<Longrightarrow> reads R (path # files) k (p # ps) k'"

definition recorded_host :: "stored_exchange \<Rightarrow> string res" where
  "recorded_host p = get_header_value ''Host'' (message_of_protobuf (stored_request p))"

text \<open>What there is to serve for exchanges with these addresses and hosts.\<close>

definition serves :: "(stored_exchange \<Rightarrow> u32) \<Rightarrow> (stored_exchange \<Rightarrow> string) \<Rightarrow> stored_exchange list \<Rightarrow> served \<Rightarrow> served" where
  "serves addr host ps s =
     \<lparr>unique_ip = (\<lambda>p. SockaddrIn 0 (addr p)) ` set ps \<union> unique_ip s,
      unique_ip_and_port = (\<lambda>p. SockaddrIn (word_of_nat (stored_port p)) (addr p)) ` set ps \<union> unique_ip_and_port s,
      hostname_to_ip = hostname_to_ip s @ map (\<lambda>p. (host p, SockaddrIn (word_of_nat (stored_port p)) (addr p))) ps\<rparr>"

lemma collect_files_reads:
  assumes "reads R files k ps k'"
    and "\<And>p. p \<in> set ps \<Longrightarrow> resolve R (stored_ip p) = Inr (addr p) \<and> resolve R (ntoa R (addr p)) = Inr (addr p) \<and>
      recorded_host p = Inr (host p)"
  shows "collect_files R files s k = Inr (serves addr host ps s, k')"
  using assms
proof (induction arbitrary: s)
  case (none k)
  then show ?case by (simp add: serves_def)
next
  case (some path k n k1 p k2 files ps k')
  let ?s = "serves addr host [p] s"
  have "serve_exchange R p s = Inr ?s"
    using some.prems [of p]
    by (simp add: serve_exchange_def address_at_def serves_def recorded_host_def)
  moreover have "serves addr host ps ?s = serves addr host (p # ps) s"
    by (auto simp: serves_def)
  ultimately show ?case
    using some.hyps some.IH [of ?s] some.prems by (simp add: fd_new_def)
qed


section \<open>Whose files are read\<close>

text \<open>The calls, but to open a directory or a file, or to read one, fails unless the user makes them.\<close>

definition by_user :: "'k id_calls \<Rightarrow> 'k \<Rightarrow> bool" where
  "by_user K k \<longleftrightarrow> geteuid K k = getuid K k \<and> getegid K k = getgid K k \<and> geteuid K k \<noteq> 0 \<and> getegid K k \<noteq> 0"

definition user_only :: "'k replay_calls \<Rightarrow> 'k replay_calls" where
  "user_only R = R
     \<lparr>replay_open := (\<lambda>name k. if by_user (replay_ids R) k then replay_open R name k else Inl Undefined),
      replay_readdir := (\<lambda>name k. if by_user (replay_ids R) k then replay_readdir R name k else None),
      parse_file := (\<lambda>n k. if by_user (replay_ids R) k then parse_file R n k else (None, k))\<rparr>"

definition reads_keep_ids :: "'k replay_calls \<Rightarrow> bool" where
  "reads_keep_ids R \<longleftrightarrow>
     (\<forall>name k n k'. replay_open R name k = Inr (n, k') \<longrightarrow>
        uids (replay_ids R) k' = uids (replay_ids R) k \<and> gids (replay_ids R) k' = gids (replay_ids R) k) \<and>
     (\<forall>name k names k'. replay_readdir R name k = Some (names, k') \<longrightarrow>
        uids (replay_ids R) k' = uids (replay_ids R) k \<and> gids (replay_ids R) k' = gids (replay_ids R) k) \<and>
     (\<forall>n k. uids (replay_ids R) (snd (parse_file R n k)) = uids (replay_ids R) k \<and>
        gids (replay_ids R) (snd (parse_file R n k)) = gids (replay_ids R) k)"

lemma by_user_ids: "uids K k' = uids K k \<and> gids K k' = gids K k \<Longrightarrow> by_user K k' = by_user K k"
  by (auto simp: by_user_def uids_def gids_def)

lemma collect_files_user:
  assumes "reads_keep_ids R"
  shows "by_user (replay_ids R) k \<Longrightarrow> collect_files (user_only R) files s k = collect_files R files s k \<and>
    (\<forall>s' k'. collect_files R files s k = Inr (s', k') \<longrightarrow>
      uids (replay_ids R) k' = uids (replay_ids R) k \<and> gids (replay_ids R) k' = gids (replay_ids R) k)"
proof (induction files arbitrary: s k)
  case (Cons path files)
  have exchange: "serve_exchange (user_only R) p s = serve_exchange R p s" for p
    by (simp add: serve_exchange_def address_at_def user_only_def)
  have opened: "replay_open (user_only R) path k = replay_open R path k"
    using Cons.prems by (simp add: user_only_def)
  show ?case
  proof (cases "rbind (replay_open R path k) (\<lambda>(n, k1). rbind (fd_new n) (\<lambda>fd. Inr (fd_num fd, k1)))")
    case (Inl e)
    then show ?thesis
      using opened by (cases "replay_open R path k"; cases "fd_new (fst (projr (replay_open R path k)))") auto
  next
    case (Inr x)
    then obtain n k1 fd where x: "replay_open R path k = Inr (n, k1)" "fd_new n = Inr fd"
      by (auto simp: res_iff)
    have k1: "uids (replay_ids R) k1 = uids (replay_ids R) k \<and> gids (replay_ids R) k1 = gids (replay_ids R) k"
      using x(1) assms unfolding reads_keep_ids_def by blast
    obtain r k2 where k2: "parse_file R (fd_num fd) k1 = (r, k2)" by (cases "parse_file R (fd_num fd) k1")
    have ids: "uids (replay_ids R) k2 = uids (replay_ids R) k \<and> gids (replay_ids R) k2 = gids (replay_ids R) k"
      using assms k1 k2 unfolding reads_keep_ids_def by (metis snd_conv)
    have "parse_file (user_only R) (fd_num fd) k1 = (r, k2)"
      using k2 Cons.prems by_user_ids [OF k1] by (simp add: user_only_def)
    moreover have "by_user (replay_ids R) k2"
      using Cons.prems by_user_ids [OF ids] by simp
    ultimately show ?thesis
      using x opened k2 ids Cons.IH [of k2]
      by (cases r; cases "serve_exchange R (the r) s") (simp_all add: exchange)
  qed
qed simp

text \<open>
  The shell reads nothing as root on the user's behalf. Looking into the directory,
  opening the files in it and reading them all happen with the user's and not with root's IDs: were
  they to fail otherwise, nothing would change. Afterwards the process has the IDs it had before.
\<close>

theorem read_as_user:
  assumes "credentials (replay_ids R)" and "reads_keep_ids R"
  shows "collect_directory (user_only R) directory k = collect_directory R directory k \<and>
    (\<forall>s k'. collect_directory R directory k = Inr (s, k') \<longrightarrow>
      uids (replay_ids R) k' = uids (replay_ids R) k \<and> gids (replay_ids R) k' = gids (replay_ids R) k)"
proof -
  let ?K = "replay_ids R"
  show ?thesis
  proof (cases "temporarily_unprivileged_new ?K k")
    case (Inl e)
    then show ?thesis by (simp add: collect_directory_def user_only_def)
  next
    case (Inr x)
    then obtain tu k0 k1 where new: "temporarily_unprivileged_new ?K k = Inr (tu, k1)"
      and steps: "setegid ?K (getgid ?K k) k = Some k0" "seteuid ?K (getuid ?K k0) k0 = Some k1"
      "assert_not_root ?K k1 = Inr ()" "tu = \<lparr>orig_euid = geteuid ?K k, orig_egid = getegid ?K k\<rparr>"
      by (cases x) (auto simp: temporarily_unprivileged_new_def res_iff Let_def)
    have k1: "uids ?K k1 = (getuid ?K k, getuid ?K k, saved_uid ?K k) \<and> gids ?K k1 = (getgid ?K k, getgid ?K k, saved_gid ?K k)"
      using credentials.setegid_law [OF assms(1) steps(1)] credentials.seteuid_law [OF assms(1) steps(2)]
      by (auto simp: set_effective_def uids_def gids_def split: if_splits)
    then have user: "by_user ?K k1"
      using steps(3) by (auto simp: by_user_def uids_def gids_def assert_not_root_def split: if_splits)
    have listed: "list_directory_contents ?K (replay_readdir (user_only R)) directory k1 =
        list_directory_contents ?K (replay_readdir R) directory k1"
      using user by (simp add: list_directory_contents_def user_only_def)
    have files: "collect_files (user_only R) files served_new k2 = collect_files R files served_new k2 \<and>
        (\<forall>s k3. collect_files R files served_new k2 = Inr (s, k3) \<longrightarrow>
          uids ?K k3 = uids ?K k1 \<and> gids ?K k3 = gids ?K k1)"
      if "list_directory_contents ?K (replay_readdir R) directory k1 = Inr (files, k2)" for files k2
    proof -
      have k2: "uids ?K k2 = uids ?K k1 \<and> gids ?K k2 = gids ?K k1"
        using that assms(2) by (auto simp: list_directory_contents_def res_iff reads_keep_ids_def)
      then show ?thesis
        using collect_files_user [OF assms(2), of k2] user by_user_ids [OF k2] by metis
    qed
    have restored: "uids ?K k4 = uids ?K k \<and> gids ?K k4 = gids ?K k"
      if "temporarily_unprivileged_end ?K tu k3 = Inr k4" "uids ?K k3 = uids ?K k1 \<and> gids ?K k3 = gids ?K k1" for k3 k4
    proof -
      note ended = that
      obtain k' where k': "seteuid ?K (geteuid ?K k) k3 = Some k'" "setegid ?K (getegid ?K k) k' = Some k4"
        using ended(1) steps(4) by (auto simp: temporarily_unprivileged_end_def res_iff)
      show ?thesis
        using credentials.seteuid_law [OF assms(1) k'(1)] credentials.setegid_law [OF assms(1) k'(2)] ended(2) k1
        by (auto simp: set_effective_def uids_def gids_def split: if_splits)
    qed
    show ?thesis
    proof (cases "list_directory_contents ?K (replay_readdir R) directory k1")
      case (Inl e)
      then show ?thesis using new listed by (simp add: collect_directory_def user_only_def)
    next
      case (Inr y)
      obtain files k2 where y: "y = (files, k2)" by (cases y)
      have "replay_ids (user_only R) = ?K" by (simp add: user_only_def)
      then show ?thesis
        using new listed Inr y files [of files k2] restored
        by (auto simp: collect_directory_def res_iff)
    qed
  qed
qed

section \<open>The small system reads a recording\<close>

lemma small_host: "recorded_host small_exchange = Inr ''example.org''"
  by (simp add: recorded_host_def small_exchange_def get_header_value_def message_of_protobuf_def
      equivalent_strings_canonical)

lemma small_reads: "reads small_replay [path] k [small_exchange] k"
  by (rule reads.some [where n = 4]) (auto simp: small_replay_def intro: reads.none)

lemma small_resolve:
  "resolve small_replay (stored_ip small_exchange) = Inr 3221225985"
  "resolve small_replay (ntoa small_replay 3221225985) = Inr 3221225985" "stored_port small_exchange = 80"
  by (simp_all add: small_replay_def small_exchange_def)


lemma small_directory:
  "collect_directory small_replay ''trace/'' ([], [], sample_cred) = Inr (small_served, ([], [], sample_cred))"
proof -
  let ?k = "([], [], ((1000, 1000, 0), (100, 100, 100))) :: small"
  have ids: "replay_ids small_replay = small_ids"
    by (simp add: small_replay_def)
  have new: "temporarily_unprivileged_new small_ids ([], [], sample_cred) = Inr (\<lparr>orig_euid = 0, orig_egid = 100\<rparr>, ?k)"
    by (simp add: temporarily_unprivileged_new_def small_ids_def id_changes_def sample_cred_def set_effective_def
        assert_not_root_def system_call_def)
  have restored: "temporarily_unprivileged_end small_ids \<lparr>orig_euid = 0, orig_egid = 100\<rparr> ?k = Inr ([], [], sample_cred)"
    by (simp add: temporarily_unprivileged_end_def small_ids_def id_changes_def sample_cred_def set_effective_def
        system_call_def)
  have list: "list_directory_contents small_ids (replay_readdir small_replay) ''trace/'' ?k = Inr ([''trace/save.1''], ?k)"
    by (simp add: list_directory_contents_def assert_not_root_def small_ids_def id_changes_def small_replay_def system_call_def)
  have files: "collect_files small_replay [''trace/save.1''] served_new ?k = Inr (small_served, ?k)"
    using collect_files_reads [OF small_reads, of "\<lambda>p. 3221225985" "\<lambda>p. ''example.org''"]
    by (simp add: small_resolve small_host small_served_def serves_def served_new_def)
  show ?thesis
    by (simp add: collect_directory_def ids new list files restored del: collect_files.simps)
qed

lemma read_as_user_witness:
  "collect_directory (user_only small_replay) ''trace/'' ([], [], sample_cred) = Inr (small_served, ([], [], sample_cred)) \<and>
   uids small_ids ([], [], sample_cred) = (1000, 0, 0)"
proof -
  have "reads_keep_ids small_replay"
    by (simp add: reads_keep_ids_def small_replay_def)
  moreover have cr: "credentials (replay_ids small_replay)"
    using small.credentials_axioms by (simp add: small_replay_def)
  ultimately have "collect_directory (user_only small_replay) ''trace/'' ([], [], sample_cred) =
      collect_directory small_replay ''trace/'' ([], [], sample_cred)"
    using read_as_user [OF cr] by simp
  moreover have "uids small_ids ([], [], sample_cred) = (1000, 0, 0)"
    by (simp add: small_ids_calls sample_cred_def)
  ultimately show ?thesis
    using small_directory by simp
qed

end
