(* ===== verification/Parser_Queue.thy ===== *)
theory Parser_Queue
  imports Http_Response "HOL-Library.Sublist"
begin

text \<open>
  The queue of a parser's complete messages (\<open>src/src/http/http_message_sequence.hh\<close>): parsing adds
  to its end and is not influenced by what waits in it, so a parser whose messages were taken out
  goes on as one whose messages were left.
\<close>

section \<open>Messages that wait in the queue\<close>

definition prefixed ::
  "'a http_message_scheme list \<Rightarrow> ('a http_message_scheme, 'x) message_sequence_scheme \<Rightarrow>
   ('a http_message_scheme, 'x) message_sequence_scheme" where
  "prefixed ms s = s\<lparr>complete_messages := ms @ complete_messages s\<rparr>"

lemma prefixed_simps [simp]:
  "buffer (prefixed ms s) = buffer s"
  "message_in_progress (prefixed ms s) = message_in_progress s"
  "complete_messages (prefixed ms s) = ms @ complete_messages s"
  "held_input (prefixed ms s) = held_input s"
  "(prefixed ms s)\<lparr>buffer := b\<rparr> = prefixed ms (s\<lparr>buffer := b\<rparr>)"
  "(prefixed ms s)\<lparr>message_in_progress := m\<rparr> = prefixed ms (s\<lparr>message_in_progress := m\<rparr>)"
  by (simp_all add: prefixed_def held_input_def)

lemma prefixed_self: "s = prefixed (complete_messages s) (s\<lparr>complete_messages := []\<rparr>)"
  by (simp add: prefixed_def)

context message_class
begin

text \<open>The parser adds to the queue of complete messages and never looks at it.\<close>

lemma initialize_prefixed: "initialize (prefixed ms s) = rmap (prefixed ms) (initialize s)"
  using init_complete [where s = s and ms = "ms @ complete_messages s"] init_keeps [of s]
  by (cases "initialize s") (auto simp: prefixed_def)

lemma step_prefixed:
  "parsing_step C initialize (prefixed ms s) =
     rmap (\<lambda>(c, s'). (c, prefixed ms s')) (parsing_step C initialize s)"
proof (cases "state (message_in_progress s)")
  case FIRST_LINE_PENDING
  show ?thesis
  proof (cases "initialize s")
    case (Inl e)
    then show ?thesis
      using FIRST_LINE_PENDING by (simp add: parsing_step_def first_line_step_def initialize_prefixed)
  next
    case (Inr s1)
    then show ?thesis
      using FIRST_LINE_PENDING
      by (cases "get_and_pop_line (buffer s1)")
        (auto simp: parsing_step_def first_line_step_def initialize_prefixed rmap_def rbind_assoc
          split: prod.split)
  qed
next
  case HEADERS_PENDING
  then show ?thesis
    by (cases "get_and_pop_line (buffer s)")
      (auto simp: parsing_step_def header_line_step_def rmap_def rbind_assoc split: prod.split)
next
  case BODY_PENDING
  then show ?thesis
    by (cases "read_in_body (read_in_complex_body C) (buffer s) (message_in_progress s)")
      (auto simp: parsing_step_def body_step_def rmap_def rbind_assoc split: prod.split)
next
  case COMPLETE
  then show ?thesis
    by (simp add: parsing_step_def prefixed_def)
qed

end

text \<open>The loop: whatever it returns, it returns with the waiting messages in front.\<close>

lemma loop_prefixed_at:
  assumes "parse_loop C init s = Some r"
    and "\<And>s. parsing_step C init (prefixed ms s) =
      rmap (\<lambda>(c, s'). (c, prefixed ms s')) (parsing_step C init s)"
  shows "parse_loop C init (prefixed ms s) = Some (rmap (prefixed ms) r)"
  using assms
proof (induction C init s r rule: parse_loop.raw_induct [rotated, consumes 1, case_names step])
  case (step loop C init s r)
  show ?case
  proof (cases "parsing_step C init s")
    case (Inl e)
    then show ?thesis
      using step(2) by (subst parse_loop.simps) (auto simp: step(3))
  next
    case (Inr x)
    then show ?thesis
      using step(2) step(1) [OF _ step(3)]
      by (subst parse_loop.simps) (auto simp: step(3) split: prod.splits if_splits)
  qed
qed

context message_class
begin

lemma parse_prefixed:
  assumes "parse C initialize t s = Some r"
  shows "parse C initialize t (prefixed ms s) = Some (rmap (prefixed ms) r)"
  using assms loop_prefixed_at [of C initialize _ r ms, OF _ step_prefixed]
  by (cases "message_eof (eof_in_body C) (message_in_progress s)") (auto simp: parse_def)

end

text \<open>Parsing only adds.\<close>

lemma loop_adds_at:
  assumes "parse_loop C init s = Some r" and "r = Inr s'"
    and "\<And>s c s'. parsing_step C init s = Inr (c, s') \<Longrightarrow>
      prefix (complete_messages s) (complete_messages s')"
  shows "prefix (complete_messages s) (complete_messages s')"
  using assms
proof (induction C init s r rule: parse_loop.raw_induct [rotated, consumes 1, case_names step])
  case (step loop C init s r)
  show ?case
  proof (cases "parsing_step C init s")
    case (Inl e)
    then show ?thesis
      using step(2) step(3) by simp
  next
    case (Inr x)
    obtain c s1 where x: "x = (c, s1)" by force
    show ?thesis
    proof (cases c)
      case True
      then have loop: "loop C init s1 = Some r"
        using step(2) Inr x by simp
      have "prefix (complete_messages s1) (complete_messages s')"
        by (rule step(1) [OF loop step(3)]) (rule step(4))
      then show ?thesis
        using step(4) [OF Inr [unfolded x]] by (rule prefix_order.trans [rotated])
    next
      case False
      then show ?thesis
        using step(2,3) step(4) [OF Inr [unfolded x]] Inr x by simp
    qed
  qed
qed

context message_class
begin

lemma step_adds:
  assumes "parsing_step C initialize s = Inr (c, s')"
  shows "prefix (complete_messages s) (complete_messages s')"
  using assms step_prefixed [of "complete_messages s" "s\<lparr>complete_messages := []\<rparr>"]
  by (cases "parsing_step C initialize (s\<lparr>complete_messages := []\<rparr>)") (auto simp: prefixed_self [symmetric])

lemma parse_adds:
  assumes "parse C initialize t s = Some (Inr s')"
  shows "prefix (complete_messages s) (complete_messages s')"
  using assms loop_adds_at [of C initialize _ "Inr s'", OF _ refl step_adds]
  by (fastforce simp: parse_def res_iff split: if_splits sum.splits)

end

end
