(* ===== verification/Certificate.thy ===== *)
theory Certificate
  imports Main
begin

text \<open>
  The key and the certificate of the server side, \<open>src/src/httpserver/certificate.hh\<close>, byte by byte. They
  are read with the encoding rules both are written in (DER: a tag, a length and contents); the lemmas
  show that the lengths the code passes to OpenSSL are those of the arrays and that the key is the
  one of the certificate. A byte is a number below 256.
\<close>

section \<open>The bytes\<close>

definition private_key :: "nat list" where
  "private_key =
    [0x30, 0x82, 0x04, 0xa3, 0x02, 0x01, 0x00, 0x02, 0x82, 0x01, 0x01, 0x00,
     0xc2, 0x70, 0x86, 0x11, 0x74, 0xf8, 0x7e, 0xbf, 0xe6, 0x17, 0xdc, 0xa8,
     0xc4, 0xa8, 0x22, 0xa1, 0x4f, 0x26, 0x75, 0x39, 0x01, 0x7a, 0x94, 0xe0,
     0x1b, 0x12, 0xe9, 0xac, 0x1b, 0xdd, 0x8e, 0x03, 0x51, 0xdd, 0xe5, 0xb0,
     0x4b, 0xae, 0x33, 0x37, 0x16, 0x0b, 0x01, 0xa7, 0x41, 0x8e, 0x81, 0xdc,
     0xb2, 0xa5, 0xb6, 0xc4, 0xba, 0xf4, 0xf7, 0x71, 0xad, 0x79, 0x76, 0x8c,
     0x88, 0x96, 0x74, 0xfa, 0xcb, 0x41, 0x4d, 0x4e, 0xb0, 0xd7, 0x9b, 0xe4,
     0x9b, 0xef, 0x7a, 0xe1, 0x63, 0xb0, 0x12, 0xa1, 0x50, 0x6d, 0xb7, 0x9a,
     0xc1, 0x22, 0x48, 0x4f, 0x7a, 0xd9, 0xc5, 0x1a, 0x4d, 0x85, 0xde, 0x00,
     0x1f, 0xac, 0x02, 0xc4, 0x29, 0xc9, 0x20, 0x0f, 0xa5, 0x60, 0xa6, 0xbf,
     0x5b, 0x16, 0xf2, 0x7f, 0xfe, 0x26, 0x28, 0xb6, 0xb6, 0x03, 0x77, 0xda,
     0x13, 0xe7, 0x8f, 0xf1, 0x6b, 0x6d, 0xa2, 0x45, 0x40, 0x7a, 0xf7, 0xce,
     0x83, 0x68, 0x27, 0xdf, 0x82, 0x18, 0x5d, 0x5b, 0xdd, 0xb2, 0x39, 0xf3,
     0x85, 0xd0, 0xdc, 0x68, 0x03, 0x62, 0x76, 0x99, 0xa9, 0x6e, 0xba, 0x22,
     0x66, 0xb8, 0xe1, 0x6d, 0x48, 0xf4, 0x4e, 0x6a, 0x93, 0x6c, 0xf6, 0x9c,
     0xd9, 0xb3, 0x30, 0x82, 0x7d, 0xf8, 0xfc, 0xd2, 0x43, 0x70, 0x88, 0xb1,
     0x1f, 0x6f, 0x38, 0xe9, 0x22, 0x04, 0x36, 0xb5, 0xe6, 0x4c, 0xae, 0xfc,
     0x6d, 0x7c, 0x87, 0x09, 0x1f, 0xb4, 0x5c, 0xdd, 0x1b, 0x56, 0xfb, 0xbb,
     0x33, 0x3a, 0x34, 0xa2, 0xdd, 0xad, 0x6c, 0x7f, 0x7b, 0xb1, 0x91, 0xe8,
     0x4a, 0x8e, 0xe1, 0x11, 0x8c, 0x95, 0x1f, 0x8f, 0x17, 0x75, 0xbd, 0xd6,
     0x54, 0x34, 0xb3, 0xff, 0xd9, 0x05, 0xd8, 0xa0, 0xaa, 0xb9, 0x04, 0x57,
     0x3e, 0x3a, 0xeb, 0x87, 0xef, 0xe4, 0x8f, 0xfb, 0x2f, 0xbf, 0xb3, 0x41,
     0x31, 0x09, 0x08, 0x43, 0x02, 0x03, 0x01, 0x00, 0x01, 0x02, 0x82, 0x01,
     0x00, 0x41, 0x44, 0xa2, 0x4c, 0x53, 0xd6, 0x62, 0x3d, 0xaa, 0x50, 0x12,
     0x3a, 0xf8, 0xa0, 0x73, 0xd7, 0x70, 0x09, 0x39, 0xca, 0x23, 0xeb, 0xf0,
     0xf3, 0x75, 0x43, 0x18, 0xfb, 0x33, 0xf3, 0x60, 0x0b, 0x4f, 0x3c, 0xcc,
     0x30, 0x2c, 0x87, 0x52, 0x1b, 0xc8, 0xa3, 0x73, 0x2f, 0xa0, 0xba, 0xe4,
     0x6e, 0x9f, 0xed, 0x2e, 0x77, 0xc5, 0x46, 0x1b, 0x95, 0xa6, 0x24, 0xa2,
     0x9d, 0xb3, 0xef, 0xc5, 0x5e, 0xb6, 0x41, 0xba, 0x60, 0x92, 0xce, 0x1d,
     0x3f, 0x54, 0xf4, 0xc3, 0x6b, 0xcb, 0x19, 0xbc, 0x77, 0x37, 0xd7, 0x4c,
     0x8d, 0x7f, 0x0d, 0x31, 0xf6, 0xb4, 0x07, 0x4b, 0xb9, 0x73, 0x92, 0x5f,
     0x1d, 0xed, 0x83, 0xc0, 0xfd, 0xf6, 0x04, 0xd4, 0x65, 0x4c, 0x1f, 0x30,
     0x7a, 0x05, 0x6a, 0xa3, 0x86, 0x41, 0x5a, 0xaf, 0xc9, 0xfd, 0x39, 0x16,
     0xcf, 0x36, 0x65, 0x41, 0x95, 0x49, 0x79, 0x68, 0xc1, 0x7e, 0x74, 0xab,
     0xb5, 0x89, 0xac, 0xe9, 0x54, 0xca, 0xa8, 0x69, 0xb9, 0x03, 0x3e, 0xe6,
     0x2b, 0x7f, 0x1e, 0x42, 0xd0, 0x9a, 0x45, 0xe4, 0x5a, 0x15, 0xcd, 0x72,
     0x92, 0x8e, 0x18, 0x60, 0x20, 0xe9, 0xfd, 0x48, 0x27, 0x90, 0x30, 0x83,
     0x10, 0xa0, 0xda, 0x3f, 0x02, 0xda, 0x1e, 0x76, 0xe4, 0x89, 0x59, 0xe9,
     0xb7, 0x8d, 0x87, 0x17, 0xa9, 0x0d, 0x5e, 0x87, 0x38, 0x38, 0x81, 0x3e,
     0x58, 0x08, 0x15, 0x1d, 0x43, 0xce, 0x4c, 0x26, 0x09, 0xeb, 0xd4, 0xef,
     0x79, 0x38, 0x64, 0xe3, 0x0c, 0xa3, 0x6d, 0x12, 0x6e, 0x40, 0xc2, 0x64,
     0xb2, 0x40, 0xc4, 0xb7, 0x3b, 0x9b, 0xb5, 0x75, 0x67, 0x45, 0x28, 0xc9,
     0xa8, 0x62, 0x0f, 0x25, 0x24, 0x04, 0x75, 0xd8, 0xad, 0xca, 0xf4, 0x31,
     0xc2, 0xfd, 0x81, 0xfb, 0x5f, 0x7f, 0x87, 0x5b, 0x10, 0xe9, 0xe5, 0xe3,
     0x71, 0x7d, 0x73, 0x31, 0x79, 0x02, 0x81, 0x81, 0x00, 0xe5, 0xe2, 0x52,
     0xe0, 0x66, 0xca, 0x98, 0xc0, 0xa1, 0x49, 0x38, 0x5d, 0x9d, 0x32, 0xed,
     0x93, 0x4c, 0x2a, 0xe9, 0x5c, 0x25, 0xfd, 0xa5, 0x3f, 0x23, 0x96, 0x2c,
     0x68, 0x90, 0xae, 0xe5, 0xdc, 0x3d, 0x3a, 0x70, 0xba, 0x2c, 0x15, 0x82,
     0x0f, 0xe1, 0x6c, 0xf0, 0x04, 0xaa, 0x65, 0xaf, 0x69, 0x7c, 0x8e, 0xfe,
     0xa4, 0xd2, 0x1e, 0x52, 0xae, 0xbe, 0xcc, 0xac, 0xed, 0xba, 0xdd, 0x1d,
     0x78, 0x91, 0xdb, 0x78, 0x56, 0xc0, 0x5d, 0x33, 0x10, 0xc2, 0xe3, 0x43,
     0xfa, 0xe9, 0x54, 0x75, 0xd9, 0xbb, 0x34, 0x9d, 0xf7, 0x51, 0x14, 0xf2,
     0x7c, 0x08, 0x82, 0x5d, 0x6e, 0xdd, 0x86, 0xdd, 0xf5, 0x85, 0xd9, 0xe9,
     0xd9, 0x3e, 0x2c, 0x0b, 0x2b, 0xa2, 0xfc, 0x45, 0x3b, 0x49, 0xa8, 0x32,
     0xaf, 0xd6, 0x61, 0x01, 0x56, 0x0a, 0x4b, 0x44, 0x29, 0x76, 0x5e, 0x7f,
     0x52, 0xe8, 0x4b, 0x53, 0x7d, 0x02, 0x81, 0x81, 0x00, 0xd8, 0x87, 0x5f,
     0x89, 0x72, 0xbc, 0x21, 0x0c, 0xfb, 0x12, 0x3d, 0x07, 0xb0, 0x98, 0xb2,
     0x64, 0x54, 0x64, 0x84, 0x14, 0x1a, 0x4b, 0xa9, 0xc6, 0xdc, 0x4a, 0x49,
     0xca, 0x2a, 0xa0, 0xdd, 0x30, 0xe0, 0x8d, 0x07, 0x00, 0x79, 0x1f, 0x36,
     0x12, 0x0f, 0xda, 0x2b, 0x88, 0x46, 0x5e, 0xa2, 0x38, 0x0c, 0xe5, 0x1c,
     0x69, 0x56, 0x0c, 0x3d, 0x4e, 0x25, 0x8b, 0xda, 0x2f, 0x22, 0xd7, 0xa6,
     0x8a, 0x2b, 0xfa, 0xec, 0xd2, 0x9c, 0x98, 0xfd, 0x40, 0x5a, 0xee, 0xae,
     0x67, 0xa6, 0xe8, 0xed, 0xb9, 0x09, 0x09, 0x7a, 0x70, 0x9f, 0x70, 0x4d,
     0xdd, 0x30, 0x4a, 0x95, 0xda, 0xe6, 0xfe, 0x52, 0xf4, 0x21, 0xd5, 0xee,
     0xe7, 0x1b, 0x76, 0x4c, 0xca, 0x76, 0xc9, 0x62, 0x92, 0x62, 0x1f, 0xf3,
     0x42, 0x56, 0x0c, 0x0f, 0x40, 0xb9, 0x31, 0xb2, 0x97, 0xd7, 0xb8, 0x29,
     0x50, 0x44, 0x9d, 0x16, 0xbf, 0x02, 0x81, 0x81, 0x00, 0xc1, 0x47, 0xff,
     0x22, 0x89, 0x8a, 0x81, 0xd0, 0x44, 0x4b, 0x49, 0xc6, 0xfb, 0xea, 0xdb,
     0xf1, 0x62, 0xb3, 0x19, 0xad, 0xce, 0x8b, 0x6a, 0xaa, 0xa1, 0x83, 0x1c,
     0x27, 0x76, 0xae, 0x76, 0xb9, 0x2c, 0x09, 0xbc, 0xc9, 0xeb, 0x52, 0xd2,
     0x1e, 0x04, 0x0d, 0x11, 0xe8, 0xfa, 0x53, 0xb0, 0x9e, 0x62, 0x89, 0xdf,
     0xf4, 0x38, 0x6e, 0x22, 0x5a, 0xa6, 0x35, 0x74, 0x98, 0x14, 0xea, 0xe0,
     0x62, 0x85, 0x50, 0x1f, 0xe7, 0xe0, 0xa8, 0xfb, 0xcc, 0x75, 0xef, 0x9b,
     0x32, 0x95, 0x87, 0xdb, 0xe6, 0x8b, 0x0d, 0xfc, 0x5a, 0xfa, 0xa3, 0x40,
     0x15, 0xa5, 0x19, 0xe6, 0xf0, 0xd5, 0xf5, 0x15, 0x1d, 0xdf, 0xc2, 0x8e,
     0x69, 0x87, 0x6a, 0x84, 0xa1, 0xd5, 0xd1, 0x81, 0x6c, 0x0d, 0xcc, 0x0b,
     0x81, 0xe8, 0x1f, 0x7b, 0x7e, 0x19, 0xfd, 0x9a, 0x7b, 0xb9, 0xf8, 0x4d,
     0xd9, 0x29, 0x52, 0x5c, 0x09, 0x02, 0x81, 0x80, 0x1b, 0x25, 0xf6, 0x03,
     0x8c, 0xc0, 0x2b, 0xc0, 0xad, 0xe6, 0x1e, 0x82, 0xcd, 0x50, 0x87, 0xe5,
     0x6e, 0x73, 0x5f, 0xe0, 0x09, 0x5f, 0xfd, 0x3c, 0x72, 0xb8, 0x59, 0xc2,
     0x20, 0x50, 0x25, 0x0b, 0x90, 0xcb, 0xfd, 0xd9, 0xc0, 0x55, 0xfa, 0x78,
     0x8f, 0x46, 0x42, 0x79, 0x06, 0xa1, 0xac, 0xe3, 0x2c, 0x32, 0xb9, 0xba,
     0x37, 0x50, 0xb7, 0x8b, 0x09, 0xc8, 0x1c, 0x26, 0x16, 0xcf, 0x45, 0x11,
     0x43, 0xec, 0x65, 0x2f, 0x0e, 0xf5, 0x5b, 0xa3, 0x6b, 0x03, 0x4c, 0x18,
     0xb0, 0xe3, 0xb9, 0x92, 0x9e, 0xa0, 0x72, 0x9a, 0x96, 0x53, 0x05, 0x60,
     0x3b, 0x42, 0xce, 0xc1, 0x30, 0x7f, 0x28, 0xb5, 0x75, 0x5c, 0x96, 0x64,
     0xa1, 0x9b, 0xd6, 0x8a, 0xf8, 0x13, 0xcd, 0xe9, 0x1e, 0xa6, 0x74, 0xe0,
     0x97, 0x5b, 0x51, 0xba, 0x42, 0xbe, 0x09, 0x6f, 0x62, 0x5b, 0xb3, 0xca,
     0x5d, 0x9f, 0xf8, 0x8f, 0x02, 0x81, 0x80, 0x04, 0x7a, 0x71, 0xec, 0x40,
     0xe4, 0x53, 0xcc, 0x7f, 0xd1, 0x04, 0x91, 0x79, 0x2c, 0x84, 0x90, 0x93,
     0x3d, 0x40, 0x28, 0xd6, 0x47, 0xab, 0xb4, 0xa6, 0x4e, 0xc7, 0xc4, 0x58,
     0xcb, 0x7f, 0x9e, 0xd4, 0xe7, 0x78, 0x26, 0xa5, 0x61, 0x06, 0x2f, 0xf8,
     0xcc, 0xe6, 0xd4, 0x80, 0xe5, 0x28, 0xf0, 0xfc, 0x94, 0x63, 0xd7, 0xcd,
     0x0a, 0xc5, 0x87, 0x30, 0x4f, 0x58, 0x26, 0xbc, 0xe9, 0xb5, 0x61, 0x05,
     0xe8, 0x1b, 0xc7, 0xa9, 0x2e, 0x31, 0x17, 0x81, 0xe0, 0xd6, 0x16, 0xe5,
     0xf4, 0x97, 0xd2, 0x75, 0x1d, 0xaa, 0x35, 0x0f, 0x54, 0xee, 0x03, 0x4d,
     0x8d, 0x8e, 0x83, 0x96, 0x44, 0xb8, 0x92, 0x0e, 0x27, 0xb0, 0x08, 0x42,
     0x78, 0xff, 0xff, 0x03, 0x4a, 0x56, 0xc2, 0xba, 0xca, 0x93, 0x94, 0x23,
     0x4d, 0x68, 0x9a, 0xbb, 0xf4, 0x02, 0x21, 0x2a, 0xcc, 0xac, 0x08, 0x43,
     0xfb, 0xd0, 0x67]"

definition certificate :: "nat list" where
  "certificate =
    [0x30, 0x82, 0x02, 0xa2, 0x30, 0x82, 0x01, 0x8a, 0x02, 0x09, 0x00, 0x88,
     0x3d, 0x73, 0xcd, 0x2d, 0x4d, 0x6e, 0x84, 0x30, 0x0d, 0x06, 0x09, 0x2a,
     0x86, 0x48, 0x86, 0xf7, 0x0d, 0x01, 0x01, 0x05, 0x05, 0x00, 0x30, 0x13,
     0x31, 0x11, 0x30, 0x0f, 0x06, 0x03, 0x55, 0x04, 0x03, 0x13, 0x08, 0x6d,
     0x61, 0x68, 0x69, 0x6d, 0x61, 0x68, 0x69, 0x30, 0x1e, 0x17, 0x0d, 0x31,
     0x33, 0x31, 0x32, 0x32, 0x31, 0x30, 0x31, 0x30, 0x34, 0x33, 0x37, 0x5a,
     0x17, 0x0d, 0x31, 0x34, 0x30, 0x31, 0x32, 0x30, 0x30, 0x31, 0x30, 0x34,
     0x33, 0x37, 0x5a, 0x30, 0x13, 0x31, 0x11, 0x30, 0x0f, 0x06, 0x03, 0x55,
     0x04, 0x03, 0x13, 0x08, 0x6d, 0x61, 0x68, 0x69, 0x6d, 0x61, 0x68, 0x69,
     0x30, 0x82, 0x01, 0x22, 0x30, 0x0d, 0x06, 0x09, 0x2a, 0x86, 0x48, 0x86,
     0xf7, 0x0d, 0x01, 0x01, 0x01, 0x05, 0x00, 0x03, 0x82, 0x01, 0x0f, 0x00,
     0x30, 0x82, 0x01, 0x0a, 0x02, 0x82, 0x01, 0x01, 0x00, 0xc2, 0x70, 0x86,
     0x11, 0x74, 0xf8, 0x7e, 0xbf, 0xe6, 0x17, 0xdc, 0xa8, 0xc4, 0xa8, 0x22,
     0xa1, 0x4f, 0x26, 0x75, 0x39, 0x01, 0x7a, 0x94, 0xe0, 0x1b, 0x12, 0xe9,
     0xac, 0x1b, 0xdd, 0x8e, 0x03, 0x51, 0xdd, 0xe5, 0xb0, 0x4b, 0xae, 0x33,
     0x37, 0x16, 0x0b, 0x01, 0xa7, 0x41, 0x8e, 0x81, 0xdc, 0xb2, 0xa5, 0xb6,
     0xc4, 0xba, 0xf4, 0xf7, 0x71, 0xad, 0x79, 0x76, 0x8c, 0x88, 0x96, 0x74,
     0xfa, 0xcb, 0x41, 0x4d, 0x4e, 0xb0, 0xd7, 0x9b, 0xe4, 0x9b, 0xef, 0x7a,
     0xe1, 0x63, 0xb0, 0x12, 0xa1, 0x50, 0x6d, 0xb7, 0x9a, 0xc1, 0x22, 0x48,
     0x4f, 0x7a, 0xd9, 0xc5, 0x1a, 0x4d, 0x85, 0xde, 0x00, 0x1f, 0xac, 0x02,
     0xc4, 0x29, 0xc9, 0x20, 0x0f, 0xa5, 0x60, 0xa6, 0xbf, 0x5b, 0x16, 0xf2,
     0x7f, 0xfe, 0x26, 0x28, 0xb6, 0xb6, 0x03, 0x77, 0xda, 0x13, 0xe7, 0x8f,
     0xf1, 0x6b, 0x6d, 0xa2, 0x45, 0x40, 0x7a, 0xf7, 0xce, 0x83, 0x68, 0x27,
     0xdf, 0x82, 0x18, 0x5d, 0x5b, 0xdd, 0xb2, 0x39, 0xf3, 0x85, 0xd0, 0xdc,
     0x68, 0x03, 0x62, 0x76, 0x99, 0xa9, 0x6e, 0xba, 0x22, 0x66, 0xb8, 0xe1,
     0x6d, 0x48, 0xf4, 0x4e, 0x6a, 0x93, 0x6c, 0xf6, 0x9c, 0xd9, 0xb3, 0x30,
     0x82, 0x7d, 0xf8, 0xfc, 0xd2, 0x43, 0x70, 0x88, 0xb1, 0x1f, 0x6f, 0x38,
     0xe9, 0x22, 0x04, 0x36, 0xb5, 0xe6, 0x4c, 0xae, 0xfc, 0x6d, 0x7c, 0x87,
     0x09, 0x1f, 0xb4, 0x5c, 0xdd, 0x1b, 0x56, 0xfb, 0xbb, 0x33, 0x3a, 0x34,
     0xa2, 0xdd, 0xad, 0x6c, 0x7f, 0x7b, 0xb1, 0x91, 0xe8, 0x4a, 0x8e, 0xe1,
     0x11, 0x8c, 0x95, 0x1f, 0x8f, 0x17, 0x75, 0xbd, 0xd6, 0x54, 0x34, 0xb3,
     0xff, 0xd9, 0x05, 0xd8, 0xa0, 0xaa, 0xb9, 0x04, 0x57, 0x3e, 0x3a, 0xeb,
     0x87, 0xef, 0xe4, 0x8f, 0xfb, 0x2f, 0xbf, 0xb3, 0x41, 0x31, 0x09, 0x08,
     0x43, 0x02, 0x03, 0x01, 0x00, 0x01, 0x30, 0x0d, 0x06, 0x09, 0x2a, 0x86,
     0x48, 0x86, 0xf7, 0x0d, 0x01, 0x01, 0x05, 0x05, 0x00, 0x03, 0x82, 0x01,
     0x01, 0x00, 0x80, 0xba, 0x06, 0xdc, 0x05, 0xc4, 0x5b, 0x99, 0x60, 0x63,
     0x14, 0x2e, 0xc9, 0x9e, 0xb0, 0xd9, 0x85, 0xf2, 0xeb, 0x8e, 0x61, 0x56,
     0xc3, 0xb9, 0x27, 0xfd, 0xf2, 0xfd, 0x2b, 0x9e, 0x5a, 0x7b, 0x82, 0x99,
     0x51, 0x5d, 0xed, 0xe7, 0x01, 0xda, 0x15, 0x29, 0x13, 0x33, 0x0d, 0x81,
     0xd1, 0x35, 0x3b, 0x21, 0x49, 0x37, 0x4f, 0x2a, 0x5f, 0x41, 0x2c, 0x57,
     0x00, 0x06, 0x58, 0x11, 0x40, 0x56, 0x05, 0x23, 0x6f, 0x46, 0x2b, 0xea,
     0x88, 0x56, 0x0f, 0x28, 0xae, 0xbc, 0x7a, 0x17, 0x39, 0x9f, 0xa9, 0x0d,
     0xf0, 0x2b, 0x1b, 0x33, 0x8d, 0xc3, 0x13, 0x18, 0x51, 0x6d, 0x16, 0x7b,
     0xfd, 0xa7, 0xd5, 0x33, 0x5a, 0x8e, 0x58, 0x1c, 0x92, 0xa5, 0x9d, 0x7e,
     0x77, 0xee, 0xcb, 0x85, 0xa0, 0xde, 0x2e, 0x05, 0xb1, 0xbd, 0xbc, 0x12,
     0xeb, 0x07, 0x0b, 0x0e, 0xd7, 0x4b, 0x71, 0x8d, 0x4a, 0x92, 0xa4, 0x2c,
     0xd7, 0x2a, 0x0d, 0xaa, 0x19, 0xa1, 0x60, 0xfa, 0xd9, 0x57, 0xe5, 0xe9,
     0x15, 0x20, 0x08, 0xfb, 0x02, 0x6d, 0xc6, 0x74, 0x08, 0xbf, 0x20, 0x33,
     0xb2, 0x71, 0x22, 0x14, 0x56, 0xf7, 0xfd, 0x15, 0x78, 0x3d, 0x56, 0x64,
     0x3e, 0x38, 0xdb, 0x90, 0xbd, 0x44, 0x00, 0xd7, 0x9a, 0x9c, 0x8b, 0xda,
     0x8d, 0xd0, 0x47, 0x79, 0x98, 0x2f, 0xc5, 0xb2, 0x51, 0x4b, 0xef, 0x5a,
     0x39, 0x40, 0xbf, 0x2c, 0x5b, 0x61, 0x9f, 0x18, 0xda, 0x96, 0x96, 0x88,
     0x46, 0x7e, 0x35, 0x99, 0xe1, 0x37, 0x58, 0xc9, 0x8e, 0xf6, 0x64, 0x49,
     0x54, 0x4d, 0x96, 0xfb, 0xc3, 0xa5, 0x2d, 0x7c, 0x5f, 0x60, 0x96, 0x8c,
     0x8e, 0xa7, 0x3d, 0xd9, 0x4c, 0x97, 0x5a, 0xe1, 0x0d, 0x7b, 0xaf, 0x82,
     0x20, 0xf8, 0xfc, 0x3c, 0x46, 0x61, 0x64, 0x77, 0xbd, 0xb5, 0xe9, 0x6f,
     0x87, 0x65, 0x46, 0x54, 0xed, 0x5b]"

section \<open>Reading them\<close>

definition number :: "nat list \<Rightarrow> nat" where
  "number bs = foldl (\<lambda>n b. 256 * n + b) 0 bs"

text \<open>The contents and the rest: a short length is one byte, a long one is told how many.\<close>

fun der_item :: "nat list \<Rightarrow> nat list \<times> nat list" where
  "der_item (t # l # bs) =
     (if l < 128 then (take l bs, drop l bs)
      else case number (take (l - 128) bs) of n \<Rightarrow> (take n (drop (l - 128) bs), drop n (drop (l - 128) bs)))"
| "der_item bs = (bs, [])"

text \<open>The contents of item number \<open>i\<close>.\<close>

fun der_nth :: "nat \<Rightarrow> nat list \<Rightarrow> nat list" where
  "der_nth 0 bs = fst (der_item bs)"
| "der_nth (Suc i) bs = der_nth i (snd (der_item bs))"

lemma der_nth_numeral [simp]: "der_nth (numeral n) bs = der_nth (pred_numeral n) (snd (der_item bs))"
  by (simp add: numeral_eq_Suc)

text \<open>
  The numbers of the key: item 1 is the modulus, 2 the public exponent, 3 the private one, 4 and 5 the primes.
  The certificate's first item is what is signed, whose item 5 holds the public key: a modulus and an
  exponent.
\<close>

definition key_item :: "nat \<Rightarrow> nat list" where
  "key_item i = der_nth i (fst (der_item private_key))"

definition certified :: "nat \<Rightarrow> nat list" where
  "certified i = der_nth i (der_nth 0 (fst (der_item certificate)))"

definition certified_key :: "nat \<Rightarrow> nat list" where
  "certified_key i = der_nth i (fst (der_item (tl (der_nth 1 (certified 5)))))"

lemma lengths: "length certificate = 678" "length private_key = 1191"
  by (simp_all add: certificate_def private_key_def)

lemma whole: "fst (der_item private_key) = drop 4 private_key" "fst (der_item certificate) = drop 4 certificate"
  by (simp_all add: private_key_def certificate_def number_def)

lemma key_items: "key_item 1 = take 257 (drop 11 private_key)" "key_item 2 = [1, 0, 1]"
  "key_item 4 = take 129 (drop 536 private_key)" "key_item 5 = take 129 (drop 668 private_key)"
  unfolding key_item_def whole by (simp_all add: private_key_def number_def)

lemma certified_items: "certified 5 = take 290 (drop 112 certificate)"
  unfolding certified_def whole by (simp add: certificate_def number_def)

lemma certified_keys: "certified_key 0 = take 257 (drop 140 certificate)" "certified_key 1 = [1, 0, 1]"
  unfolding certified_key_def certified_items by (simp_all add: certificate_def number_def)

lemma same_modulus: "take 257 (drop 140 certificate) = take 257 (drop 11 private_key)"
  by (simp add: certificate_def private_key_def)

lemma modulus_product:
  "number (take 129 (drop 536 private_key)) * number (take 129 (drop 668 private_key)) =
     number (take 257 (drop 11 private_key))"
  by (simp add: private_key_def number_def)

text \<open>The end of the certificate's validity, as text: \<open>140120010437Z\<close>, thirty days after its beginning.\<close>

lemma valid_until:
  "der_nth 1 (certified 3) = [49, 52, 48, 49, 50, 48, 48, 49, 48, 52, 51, 55, 90]"
  "der_nth 0 (certified 3) = [49, 51, 49, 50, 50, 49, 48, 49, 48, 52, 51, 55, 90]"
  unfolding certified_def whole by (simp_all add: certificate_def number_def)

end
