(* ===== verification/Secure_Socket.thy ===== *)
theory Secure_Socket
  imports Sockets Certificate
begin

text \<open>
  \<open>src/src/httpserver/secure_socket.cc\<close>: a TCP socket under OpenSSL. The calls of the library are
  arguments; what the code makes of their answers is written out. An \<open>ssl_error\<close> is a \<open>tagged_error\<close>
  as a \<open>unix_error\<close> is, so it is the same constructor of \<open>err\<close>, with the name of the call.

  The library's convention is that 1 is success and 0 or a negative number a failure. The lemmas
  state where the code follows it and where it does not.
\<close>

datatype SSL_MODE = CLIENT | SERVER

datatype ssl_error = SSL_ERROR_ZERO_RETURN | SSL_ERROR_SYSCALL | OtherSslError int

record 'k ssl_calls =
  ssl_ctx_new :: "SSL_MODE \<Rightarrow> 'k \<Rightarrow> bool \<times> 'k"
  ssl_use_certificate :: "nat list \<Rightarrow> 'k \<Rightarrow> int \<times> 'k"
  ssl_use_private_key :: "nat list \<Rightarrow> 'k \<Rightarrow> int \<times> 'k"
  ssl_check_private_key :: "'k \<Rightarrow> int \<times> 'k"
  ssl_new :: "'k \<Rightarrow> bool \<times> 'k"
  ssl_set_fd :: "int \<Rightarrow> 'k \<Rightarrow> int \<times> 'k"
  ssl_connect :: "'k \<Rightarrow> int \<times> 'k"
  ssl_accept :: "'k \<Rightarrow> int \<times> 'k"
  ssl_read :: "nat \<Rightarrow> 'k \<Rightarrow> (int \<times> string) \<times> 'k"
  ssl_pending :: "'k \<Rightarrow> nat"
  ssl_get_error :: "'k \<Rightarrow> ssl_error"
  err_get_error :: "'k \<Rightarrow> int"
  ssl_write :: "string \<Rightarrow> 'k \<Rightarrow> int \<times> 'k"

unbundle bit_operations_syntax

section \<open>Contexts\<close>

definition initialize_new_context :: "'k ssl_calls \<Rightarrow> SSL_MODE \<Rightarrow> 'k \<Rightarrow> 'k res" where
  "initialize_new_context C type k =
     (case ssl_ctx_new C type k of (ret, k') \<Rightarrow> if \<not> ret then Inl (UnixError ''SSL_CTL_new'') else Inr k')"

text \<open>A call that answers with a number, taken for true when it is not 0.\<close>

definition checked :: "string \<Rightarrow> ('k \<Rightarrow> int \<times> 'k) \<Rightarrow> 'k \<Rightarrow> 'k res" where
  "checked attempt call k = (case call k of (ret, k') \<Rightarrow> if ret = 0 then Inl (UnixError attempt) else Inr k')"

definition ssl_context_new :: "'k ssl_calls \<Rightarrow> SSL_MODE \<Rightarrow> 'k \<Rightarrow> 'k res" where
  "ssl_context_new C type k =
     rbind (initialize_new_context C type k) (\<lambda>k1.
       if type = SERVER then
         rbind (checked ''SSL_CTX_use_certificate_ASN1'' (ssl_use_certificate C (take 678 certificate)) k1) (\<lambda>k2.
         rbind (checked ''SSL_CTX_use_RSAPrivateKey_ASN1'' (ssl_use_private_key C (take 1191 private_key)) k2) (\<lambda>k3.
           checked ''SSL_CTX_check_private_key'' (ssl_check_private_key C) k3))
       else Inr k1)"

definition new_secure_socket :: "'k ssl_calls \<Rightarrow> file_descriptor \<times> 'k \<Rightarrow> (file_descriptor \<times> 'k) res" where
  "new_secure_socket C = (\<lambda>(sock, k).
     case ssl_new C k of (ssl, k1) \<Rightarrow>
       if \<not> ssl then Inl (RuntimeError ''SecureSocket: constructor must be passed valid SSL structure'')
       else rbind (checked ''SSL_set_fd'' (ssl_set_fd C (fd_num sock)) k1) (\<lambda>k2. Inr (sock, k2)))"

section \<open>The handshake\<close>

definition secure_connect :: "'k ssl_calls \<Rightarrow> 'k \<Rightarrow> 'k res" where
  "secure_connect C k = checked ''SSL_connect'' (ssl_connect C) k"

text \<open>The \<open>register_read\<close> behind the two branches is never reached.\<close>

definition secure_accept :: "'k ssl_calls \<Rightarrow> file_descriptor \<times> 'k \<Rightarrow> (file_descriptor \<times> 'k) res" where
  "secure_accept C = (\<lambda>(fd, k).
     case ssl_accept C k of (ret, k') \<Rightarrow>
       if ret = 1 then Inr (fd, k') else Inl (UnixError ''SSL_accept''))"

section \<open>Reading and writing\<close>

definition SSL_max_record_length :: nat where "SSL_max_record_length = 16384"

text \<open>\<open>SSL_read\<close> answers with its result and the bytes in the buffer.\<close>

definition secure_read :: "'k ssl_calls \<Rightarrow> file_descriptor \<times> 'k \<Rightarrow> (string \<times> (file_descriptor \<times> 'k)) res"
where
  "secure_read C = (\<lambda>(fd, k).
     case ssl_read C SSL_max_record_length k of ((bytes_read, buffer), k') \<Rightarrow>
       if ssl_pending C k' \<noteq> 0 then Inl AssertFail
       else if bytes_read = 0 then
         (case ssl_get_error C k' of
            SSL_ERROR_ZERO_RETURN \<Rightarrow> Inr ([], (register_read (fd\<lparr>fd_eof := True\<rparr>), k'))
          | SSL_ERROR_SYSCALL \<Rightarrow>
              if err_get_error C k' \<noteq> 0 then Inl AssertFail
              else Inr ([], (register_read (fd\<lparr>fd_eof := True\<rparr>), k'))
          | _ \<Rightarrow> Inr ([], (register_read fd, k')))
       else if bytes_read < 0 then Inl (UnixError ''SSL_read'')
       else Inr (take (nat bytes_read) buffer, (register_read fd, k')))"

definition secure_write ::
  "'k ssl_calls \<Rightarrow> string \<Rightarrow> file_descriptor \<times> 'k \<Rightarrow> (file_descriptor \<times> 'k) res" where
  "secure_write C message = (\<lambda>(fd, k).
     case ssl_write C message k of (bytes_written, k') \<Rightarrow>
       if bytes_written < 0 then Inl (UnixError ''SSL_write'')
       else Inr (register_write fd, k'))"

text \<open>Each read and each write is one operation of the descriptor for the poller.\<close>

lemma secure_read_counts:
  assumes "secure_read C (fd, k) = Inr (s, (fd', k'))"
  shows "fd_num fd' = fd_num fd \<and> read_count fd' = read_count fd + 1 \<and> write_count fd' = write_count fd"
  using assms
  by (auto simp: secure_read_def register_read_def Let_def split: prod.splits if_splits ssl_error.splits)

lemma secure_write_counts:
  assumes "secure_write C s (fd, k) = Inr (fd', k')"
  shows "fd_num fd' = fd_num fd \<and> write_count fd' = write_count fd + 1 \<and> read_count fd' = read_count fd"
  using assms by (auto simp: secure_write_def register_write_def split: prod.splits if_splits)

text \<open>
  The handshake's results: \<open>accept\<close> follows the library's convention and leaves the descriptor's
  count alone; \<open>connect\<close> takes a failure with a negative result for a success.
\<close>

lemma secure_accept_uncounted:
  "secure_accept C (fd, k) = Inr (fd', k') \<Longrightarrow> fd' = fd \<and> fst (ssl_accept C k) = 1"
  by (auto simp: secure_accept_def split: prod.splits if_splits)

text \<open>
  What the code takes for success of a call of OpenSSL: \<open>accept\<close> succeeds exactly when
  \<open>SSL_accept\<close> returns 1; \<open>connect\<close> also succeeds when \<open>SSL_connect\<close> returns a negative number, which
  is how the library reports a failed handshake; and \<open>write\<close> succeeds when \<open>SSL_write\<close> returns 0,
  which is a failure, too, with nothing written.
\<close>

lemma secure_accept_succeeds: "(\<exists>x. secure_accept C (fd, k) = Inr x) = (fst (ssl_accept C k) = 1)"
  by (auto simp: secure_accept_def split: prod.splits)

lemma secure_connect_succeeds: "(\<exists>x. secure_connect C k = Inr x) = (fst (ssl_connect C k) \<noteq> 0)"
  by (auto simp: secure_connect_def checked_def split: prod.splits)

lemma secure_write_succeeds:
  "(\<exists>x. secure_write C message (fd, k) = Inr x) = (0 \<le> fst (ssl_write C message k))"
  by (auto simp: secure_write_def split: prod.splits)

section \<open>The certificate of the server\<close>


section \<open>The locks of OpenSSL\<close>

text \<open>
  The library asks for its locks by number, to be locked or unlocked as a bit of the mode says. A lock
  is held or not: \<open>at\<close> throws for a number there is no lock of, locking one that is held waits, and unlocking
  one that is not held is undefined.
\<close>

definition CRYPTO_LOCK :: int where "CRYPTO_LOCK = 1"

definition openssl_new :: "nat \<Rightarrow> bool list" where
  "openssl_new num_locks = replicate num_locks False"

definition locking_function :: "int \<Rightarrow> int \<Rightarrow> bool list \<Rightarrow> bool list res" where
  "locking_function mode n locks =
     (if n < 0 \<or> int (length locks) \<le> n then Inl OutOfRange
      else if mode AND CRYPTO_LOCK \<noteq> 0 then
        if locks ! nat n then Inl Diverges else Inr (locks[nat n := True])
      else if locks ! nat n then Inr (locks[nat n := False]) else Inl Undefined)"

lemma locking_roundtrip:
  assumes "locking_function mode n locks = Inr locks'" and "mode AND CRYPTO_LOCK \<noteq> 0" and "mode' AND CRYPTO_LOCK = 0"
  shows "locking_function mode' n locks' = Inr locks"
  using assms by (auto simp: locking_function_def list_update_same_conv split: if_splits)

end
