(* ===== verification/Proxy_Loop.thy ===== *)
theory Proxy_Loop
  imports Http_Proxy Parser_Queue Poller_Loop Sockets Secure_Socket
begin

text \<open>
  A connection of the proxy as it runs: \<open>HTTPProxy::loop\<close> and \<open>handle_tcp\<close>
  (\<open>src/src/httpserver/http_proxy.cc\<close>). The four callbacks of \<open>Http_Proxy\<close> become the actions of a
  poller over two sockets; \<open>loop\<close> is a template over the type of socket, here a record of the two
  calls it makes. Other connections change the list of resources while this one waits in \<open>::poll\<close>.
  A callback's exception ends the connection's thread; a parse loop that does not end is the error
  \<^const>\<open>Diverges\<close>.
\<close>

section \<open>The socket types\<close>

record 'k socket_class =
  sock_read :: "file_descriptor \<times> 'k \<Rightarrow> (string \<times> (file_descriptor \<times> 'k)) res"
  sock_write :: "string \<Rightarrow> file_descriptor \<times> 'k \<Rightarrow> (file_descriptor \<times> 'k) res"

definition TCPSocket :: "'k sys_read \<Rightarrow> 'k sys_write \<Rightarrow> 'k socket_class" where
  "TCPSocket sys_read sys_write =
     \<lparr>sock_read = fd_read sys_read BUFFER_SIZE,
      sock_write = (\<lambda>s st. rbind (fd_write sys_write True s st) (\<lambda>(_, st'). Inr st'))\<rparr>"

definition SecureSocket :: "'k ssl_calls \<Rightarrow> 'k socket_class" where
  "SecureSocket C = \<lparr>sock_read = secure_read C, sock_write = secure_write C\<rparr>"

section \<open>The loop\<close>

record 'k proxy_kernel =
  server_class :: "'k socket_class"
  client_class :: "'k socket_class"
  proxy_poll_fds :: "'k sys_poll"
  sizeof_std_string :: nat
  clock :: "'k \<Rightarrow> nat \<Rightarrow> int"
  meanwhile :: "'k \<Rightarrow> cloud_list \<Rightarrow> cloud_list"

record 'k proxy_world =
  proxy_server :: file_descriptor
  proxy_client :: file_descriptor
  traffic :: connection
  resources :: cloud_list
  proxy_state :: 'k
  proxy_calls :: "'k proxy_kernel"

definition returned :: "'a res option \<Rightarrow> 'a res" where
  "returned r = (case r of None \<Rightarrow> Inl Diverges | Some x \<Rightarrow> x)"

definition server_readable :: "'k proxy_world \<Rightarrow> (action_result \<times> 'k proxy_world) res" where
  "server_readable w =
     rbind (sock_read (server_class (proxy_calls w)) (proxy_server w, proxy_state w)) (\<lambda>(buf, (fd, k)).
       case on_server_readable buf (traffic w) (resources w) of (r, m) \<Rightarrow>
         rbind (returned r) (\<lambda>c.
           Inr (just Continue, w\<lparr>proxy_server := fd, proxy_state := k, traffic := c, resources := m\<rparr>)))"

definition client_readable :: "'k proxy_world \<Rightarrow> (action_result \<times> 'k proxy_world) res" where
  "client_readable w =
     rbind (sock_read (client_class (proxy_calls w)) (proxy_client w, proxy_state w)) (\<lambda>(buf, (fd, k)).
       case on_client_readable (sizeof_std_string (proxy_calls w)) (clock (proxy_calls w) k) buf
           (traffic w) (resources w) of (r, m) \<Rightarrow>
         rbind (returned r) (\<lambda>c.
           Inr (just Continue, w\<lparr>proxy_client := fd, proxy_state := k, traffic := c, resources := m\<rparr>)))"

text \<open>The text of the oldest message is written; then the connection's own part of the step.\<close>

definition server_writable :: "'k proxy_world \<Rightarrow> (action_result \<times> 'k proxy_world) res" where
  "server_writable w =
     rbind (rbind (sequence_front (request_parser (traffic w))) message_str) (\<lambda>text.
     rbind (sock_write (server_class (proxy_calls w)) text (proxy_server w, proxy_state w)) (\<lambda>(fd, k).
     rbind (on_server_writable (traffic w)) (\<lambda>c.
       Inr (just Continue, w\<lparr>proxy_server := fd, proxy_state := k, traffic := c\<rparr>))))"

definition client_writable :: "'k proxy_world \<Rightarrow> (action_result \<times> 'k proxy_world) res" where
  "client_writable w =
     rbind (rbind (sequence_front (response_parser (traffic w))) message_str) (\<lambda>text.
     rbind (sock_write (client_class (proxy_calls w)) text (proxy_client w, proxy_state w)) (\<lambda>(fd, k).
     rbind (on_client_writable (traffic w)) (\<lambda>c.
       Inr (just Continue, w\<lparr>proxy_client := fd, proxy_state := k, traffic := c\<rparr>))))"

definition proxy_actions :: "'k proxy_world action list" where
  "proxy_actions =
     [\<lparr>action_fd = proxy_server, action_direction = In, callback = server_readable,
       when_interested = (\<lambda>w. (\<not> fd_eof (proxy_client w), w)), active = True\<rparr>,
      \<lparr>action_fd = proxy_client, action_direction = In, callback = client_readable,
       when_interested = (\<lambda>w. (\<not> fd_eof (proxy_server w), w)), active = True\<rparr>,
      \<lparr>action_fd = proxy_server, action_direction = Out, callback = server_writable,
       when_interested = (\<lambda>w. (\<not> sequence_empty (request_parser (traffic w)), w)), active = True\<rparr>,
      \<lparr>action_fd = proxy_client, action_direction = Out, callback = client_writable,
       when_interested = (\<lambda>w. (\<not> sequence_empty (response_parser (traffic w)), w)), active = True\<rparr>]"

definition proxy_poll :: "'k proxy_world sys_poll" where
  "proxy_poll ps t w =
     rbind (proxy_poll_fds (proxy_calls w) ps t (proxy_state w)) (\<lambda>(n, rs, k).
       Inr (n, rs, w\<lparr>proxy_state := k, resources := meanwhile (proxy_calls w) k (resources w)\<rparr>))"

definition proxy_wait :: "'k proxy_world \<Rightarrow> (int \<times> 'k proxy_world) res" where
  "proxy_wait w = Inr (-1, w)"

definition proxy_world_new ::
  "'k proxy_kernel \<Rightarrow> file_descriptor \<Rightarrow> file_descriptor \<Rightarrow> string \<times> nat \<Rightarrow> cloud_list \<Rightarrow> 'k \<Rightarrow> 'k proxy_world" where
  "proxy_world_new K server client original_dest m k =
     \<lparr>proxy_server = server, proxy_client = client, traffic = connection_new original_dest,
      resources = m, proxy_state = k, proxy_calls = K\<rparr>"

definition proxy_start :: "'k proxy_world \<Rightarrow> 'k proxy_world poller \<times> 'k proxy_world" where
  "proxy_start w = (fold (add_action w) proxy_actions poller_new, w)"

definition proxy_loop ::
  "'k proxy_kernel \<Rightarrow> (file_descriptor \<Rightarrow> 'k \<Rightarrow> (string \<times> nat) res) \<Rightarrow> file_descriptor \<Rightarrow> file_descriptor \<Rightarrow>
     cloud_list \<Rightarrow> 'k \<Rightarrow> (u32 \<times> ('k proxy_world poller \<times> 'k proxy_world)) res option" where
  "proxy_loop K original_dest server client m k =
     (case original_dest client k of
        Inl e \<Rightarrow> Some (Inl e)
      | Inr dest \<Rightarrow> poll_loop proxy_poll proxy_wait (proxy_start (proxy_world_new K server client dest m k)))"

section \<open>The thread of a connection\<close>

text \<open>
  What \<open>handle_tcp\<close> calls: the two kinds of socket on each side, and the calls that make them. The
  two \<open>ssl_calls\<close> are OpenSSL's on the context of the constructor, one for each side.
\<close>

record 'k thread_kernel =
  original_dest :: "file_descriptor \<Rightarrow> 'k \<Rightarrow> (string \<times> nat) res"
  connect_to :: "string \<times> nat \<Rightarrow> 'k \<Rightarrow> (file_descriptor \<times> 'k) res"
  plain_kernel :: "'k proxy_kernel"
  server_ssl :: "'k ssl_calls"
  client_ssl :: "'k ssl_calls"

definition tls_kernel :: "'k thread_kernel \<Rightarrow> 'k proxy_kernel" where
  "tls_kernel T = (plain_kernel T)
     \<lparr>server_class := SecureSocket (server_ssl T), client_class := SecureSocket (client_ssl T)\<rparr>"

definition tls_sockets ::
  "'k thread_kernel \<Rightarrow> file_descriptor \<Rightarrow> file_descriptor \<Rightarrow> 'k \<Rightarrow>
     (file_descriptor \<times> file_descriptor \<times> 'k) res" where
  "tls_sockets T server client k =
     rbind (new_secure_socket (server_ssl T) (server, k)) (\<lambda>(tls_server, k1).
     rbind (secure_connect (server_ssl T) k1) (\<lambda>k2.
     rbind (new_secure_socket (client_ssl T) (client, k2)) (\<lambda>(tls_client, k3).
     rbind (secure_accept (client_ssl T) (tls_client, k3)) (\<lambda>(tls_client', k4).
       Inr (tls_server, tls_client', k4)))))"

definition handle_connection ::
  "'k thread_kernel \<Rightarrow> cloud_list \<Rightarrow> file_descriptor \<times> 'k \<Rightarrow>
     (u32 \<times> ('k proxy_world poller \<times> 'k proxy_world)) res option" where
  "handle_connection T m = (\<lambda>(client, k).
     case rbind (original_dest T client k) (\<lambda>dest.
            rbind (connect_to T dest k) (\<lambda>(server, k1). Inr (dest, server, k1))) of
       Inl e \<Rightarrow> Some (Inl e)
     | Inr (dest, server, k1) \<Rightarrow>
         if snd dest \<noteq> 443 then proxy_loop (plain_kernel T) (original_dest T) server client m k1
         else (case tls_sockets T server client k1 of
             Inl e \<Rightarrow> Some (Inl e)
           | Inr (tls_server, tls_client, k2) \<Rightarrow>
               proxy_loop (tls_kernel T) (original_dest T) tls_server tls_client m k2))"

text \<open>The constructor: the listener is bound, then listens; the contexts are the server's and a client's.\<close>

definition proxy_new ::
  "('k \<Rightarrow> (file_descriptor \<times> 'k) res) \<Rightarrow> 'k ssl_calls \<Rightarrow> (file_descriptor \<Rightarrow> address \<Rightarrow> 'k \<Rightarrow> 'k res) \<Rightarrow>
     (file_descriptor \<Rightarrow> 'k \<Rightarrow> 'k res) \<Rightarrow> address \<Rightarrow> 'k \<Rightarrow> (file_descriptor \<times> 'k) res" where
  "proxy_new open_tcp C bind_socket listen_socket listener_addr k =
     rbind (open_tcp k) (\<lambda>(listener, k1).
     rbind (ssl_context_new C SERVER k1) (\<lambda>k2.
     rbind (ssl_context_new C CLIENT k2) (\<lambda>k3.
     rbind (bind_socket listener listener_addr k3) (\<lambda>k4.
     rbind (listen_socket listener k4) (\<lambda>k5. Inr (listener, k5))))))"

text \<open>The listener's callback: what \<open>accept\<close> yields is given to a new thread.\<close>

record 'k accept_world =
  proxy_listener :: file_descriptor
  accept_state :: 'k
  proxy_threads :: "file_descriptor list"

definition handle_tcp ::
  "('k \<Rightarrow> (int \<times> 'k) res) \<Rightarrow> (int \<Rightarrow> socket_option \<Rightarrow> 'k \<Rightarrow> (nat \<times> int) res) \<Rightarrow> 'k accept_world \<Rightarrow>
     (action_result \<times> 'k accept_world) res" where
  "handle_tcp sys_accept sys_getsockopt w =
     (case tcp_accept sys_accept sys_getsockopt (proxy_listener w, accept_state w) of (listener, r) \<Rightarrow>
        rbind r (\<lambda>(client, k).
          Inr (just Continue, w\<lparr>proxy_listener := listener, accept_state := k,
            proxy_threads := proxy_threads w @ [client]\<rparr>)))"

definition register_proxy_handlers ::
  "('k \<Rightarrow> (int \<times> 'k) res) \<Rightarrow> (int \<Rightarrow> socket_option \<Rightarrow> 'k \<Rightarrow> (nat \<times> int) res) \<Rightarrow> 'k accept_world \<Rightarrow>
     'k accept_world poller \<Rightarrow> 'k accept_world poller" where
  "register_proxy_handlers sys_accept sys_getsockopt w p =
     add_action w \<lparr>action_fd = proxy_listener, action_direction = In,
       callback = handle_tcp sys_accept sys_getsockopt, when_interested = (\<lambda>w. (True, w)), active = True\<rparr> p"

section \<open>Sockets that serve their descriptor\<close>

text \<open>
  What the poller needs of a socket type: a read and a write are counted on the descriptor, and the
  descriptor stays the same.
\<close>

locale stream_socket =
  fixes rd :: "file_descriptor \<times> 'k \<Rightarrow> (string \<times> (file_descriptor \<times> 'k)) res"
    and wr :: "string \<Rightarrow> file_descriptor \<times> 'k \<Rightarrow> (file_descriptor \<times> 'k) res"
  assumes read_law: "rd (fd, k) = Inr (s, (fd', k')) \<Longrightarrow>
      fd_num fd' = fd_num fd \<and> read_count fd' \<noteq> read_count fd"
    and write_law: "wr s (fd, k) = Inr (fd', k') \<Longrightarrow>
      fd_num fd' = fd_num fd \<and> write_count fd' \<noteq> write_count fd"

interpretation secure: stream_socket "secure_read C" "secure_write C"
proof
  show "fd_num fd' = fd_num fd \<and> read_count fd' \<noteq> read_count fd"
    if "secure_read C (fd, k) = Inr (s, (fd', k'))" for fd and k :: 'a and s fd' k'
    using secure_read_counts [OF that] by simp
  show "fd_num fd' = fd_num fd \<and> write_count fd' \<noteq> write_count fd"
    if "secure_write C s (fd, k) = Inr (fd', k')" for s fd and k :: 'a and fd' k'
    using secure_write_counts [OF that] by simp
qed

text \<open>
  A plain socket is blocking, so a \<open>write\<close> that succeeds has taken all it was given; then one call is
  counted. (Split writes would be counted one by one, in 32 bits.)
\<close>

definition blocking :: "'k sys_write \<Rightarrow> 'k sys_write" where
  "blocking sys_write s k = rbind (sys_write s k) (\<lambda>(n, k'). Inr (length s, k'))"

lemma fd_write_blocking:
  "fd_write (blocking sys_write) True s (fd, k) =
     (if s = [] then Inl (RuntimeError ''nothing to write'')
      else rbind (sys_write s k) (\<lambda>(n, k'). Inr ((s, []), (fd\<lparr>write_count := write_count fd + 1\<rparr>, k'))))"
  by (cases "sys_write s k") (auto simp: fd_write.simps fd_write_part_def blocking_def split: prod.splits)

interpretation tcp: stream_socket "sock_read (TCPSocket sys_read sys_write')"
  "sock_write (TCPSocket sys_read (blocking sys_write))"
proof
  show "fd_num fd' = fd_num fd \<and> read_count fd' \<noteq> read_count fd"
    if "sock_read (TCPSocket sys_read sys_write') (fd, k) = Inr (s, (fd', k'))" for fd and k :: 'a and s fd' k'
    using fd_read_shape [of sys_read BUFFER_SIZE fd k s fd' k'] that by (simp add: TCPSocket_def)
  show "fd_num fd' = fd_num fd \<and> write_count fd' \<noteq> write_count fd"
    if "sock_write (TCPSocket sys_read (blocking sys_write)) s (fd, k) = Inr (fd', k')"
    for s fd and k :: 'a and fd' k'
    using that by (auto simp: TCPSocket_def fd_write_blocking res_iff split: if_splits)
qed

section \<open>The requests of a stream\<close>

text \<open>What the request parser makes of the bytes read so far, whatever the reads were.\<close>

definition text_of :: "http_message list \<Rightarrow> string" where
  "text_of ms = concat (map (\<lambda>m. projr (message_str m)) ms)"

definition after_reading :: "string \<Rightarrow> request_parser res option" where
  "after_reading str = (if str = '''' then Some (Inr request_parser_new) else request_parse str request_parser_new)"

lemma text_of_append: "text_of (xs @ ys) = text_of xs @ text_of ys"
  by (simp add: text_of_def)

lemma text_of_sized: "text_of (map sized ms) = text_of ms"
proof -
  have "message_str (sized m) = message_str m" for m
    by (cases m) (simp add: message_str_def sized_def)
  then show ?thesis by (simp add: text_of_def o_def)
qed

lemma after_reading_all:
  assumes "list_all request_wf ms"
  shows "after_reading (text_of ms) = Some (Inr (request_parser_new\<lparr>complete_messages := map sized ms\<rparr>))"
proof (cases "text_of ms = ''''")
  case True
  then have "ms = []"
    using assms by (cases ms) (auto simp: text_of_def request_wf_def message_str_def CRLF_def)
  then show ?thesis
    by (simp add: text_of_def after_reading_def request_parser_new_def)
next
  case False
  have "request_parse (text_of ms) request_parser_new =
      parse_loop HTTPRequest request_initialize (more_input (text_of ms) request_parser_new)"
    unfolding request_parse_def by (rule request.parse_nonempty [OF False])
  also have "\<dots> = Some (Inr ((more_input (text_of ms) request_parser_new)\<lparr>buffer := '''',
      complete_messages := complete_messages (more_input (text_of ms) request_parser_new) @ map sized ms\<rparr>))"
    by (rule request_loop_strs) (use assms in \<open>simp_all add: request_parser_new_def text_of_def\<close>)
  finally show ?thesis
    using False by (simp add: after_reading_def request_parser_new_def more_input_def)
qed

lemma after_reading_ok:
  assumes "length str < INPUT_LIMIT" and "after_reading str = Some (Inr P)"
  shows "message_ok (\<lambda>m. False) (message_in_progress P) \<and> held_input P \<le> length str"
proof (cases "str = ''''")
  case True
  then show ?thesis using request_parser_new_ok assms(2) by (simp add: after_reading_def)
next
  case False
  then have "parse HTTPRequest request_initialize str request_parser_new = Some (Inr P)"
    using assms(2) by (simp add: after_reading_def request_parse_def)
  then show ?thesis
    using request.parse_returns [of request_parser_new str, OF _ _ False] request_parser_new_ok assms(1)
    by simp
qed

lemma after_reading_append:
  assumes "length (u @ v) < INPUT_LIMIT" and "v \<noteq> ''''"
  shows "after_reading (u @ v) =
    (case after_reading u of Some (Inr P) \<Rightarrow> request_parse v P | r \<Rightarrow> r)"
proof (cases "u = ''''")
  case True
  then show ?thesis using assms(2) by (simp add: after_reading_def)
next
  case False
  have "parse_pieces HTTPRequest request_initialize [u, v] request_parser_new =
      parse HTTPRequest request_initialize (concat [u, v]) request_parser_new"
    using request.parse_segmentation [of "[u, v]" request_parser_new] False assms request_parser_new_ok
    by (simp add: outcome_id)
  then show ?thesis
    using False by (auto simp: after_reading_def request_parse_def split: option.splits sum.splits)
qed

text \<open>Reading a beginning of the stream completes a beginning of the list of requests.\<close>

lemma after_reading_prefix:
  assumes "after_reading (u @ v) = Some (Inr Q)" and "length (u @ v) < INPUT_LIMIT"
  shows "\<exists>P. after_reading u = Some (Inr P) \<and> prefix (complete_messages P) (complete_messages Q)"
proof (cases "v = ''''")
  case True
  then show ?thesis using assms by simp
next
  case False
  then obtain P where P: "after_reading u = Some (Inr P)" "request_parse v P = Some (Inr Q)"
    using assms after_reading_append [OF assms(2) False] by (auto split: option.splits sum.splits)
  then show ?thesis
    using request.parse_adds [OF P(2) [unfolded request_parse_def]] by blast
qed

lemma after_reading_some:
  assumes "list_all request_wf ms" and "prefix str (text_of ms)" and "length (text_of ms) < INPUT_LIMIT"
  shows "\<exists>P j. after_reading str = Some (Inr P) \<and> j \<le> length ms \<and>
    complete_messages P = map sized (take j ms) \<and>
    (\<forall>i \<le> length ms. prefix (text_of (take i ms)) str \<longrightarrow> i \<le> j)"
proof -
  obtain v where v: "text_of ms = str @ v"
    using assms(2) by (auto simp: prefix_def)
  then obtain P where P: "after_reading str = Some (Inr P)" "prefix (complete_messages P) (map sized ms)"
    using after_reading_prefix [of str v] after_reading_all [OF assms(1)] assms(3) by auto
  then obtain j where j: "j \<le> length ms" "complete_messages P = map sized (take j ms)"
    by (metis length_map linear take_all take_map prefix_def append_eq_conv_conj)
  have "i \<le> j" if i: "i \<le> length ms" "prefix (text_of (take i ms)) str" for i
  proof -
    obtain u where u: "str = text_of (take i ms) @ u"
      using i(2) by (auto simp: prefix_def)
    have "list_all request_wf (take i ms)"
      using assms(1) by (metis append_take_drop_id list_all_append)
    then have "prefix (map sized (take i ms)) (complete_messages P)"
      using after_reading_prefix [of "text_of (take i ms)" u P] after_reading_all [of "take i ms"] P(1) u assms(3) v
      by auto
    then show ?thesis
      using j i(1) by (auto dest: prefix_length_le)
  qed
  then show ?thesis using P(1) j by blast
qed

section \<open>Responses keep their request\<close>

text \<open>
  The requests a response parser is given are complete, so the exchanges it yields can be written
  and stored.
\<close>

definition answerable :: "http_response \<Rightarrow> bool" where
  "answerable r \<longleftrightarrow> state r = COMPLETE \<and> state (request_of r) = COMPLETE"

definition responses_ok :: "response_parser \<Rightarrow> bool" where
  "responses_ok rp \<longleftrightarrow>
     list_all (\<lambda>q. state q = COMPLETE) (requests rp) \<and> list_all answerable (complete_messages rp) \<and>
     (state (message_in_progress rp) \<noteq> FIRST_LINE_PENDING \<longrightarrow>
        state (request_of (message_in_progress rp)) = COMPLETE)"

lemma request_of_updates [simp]:
  "request_of (m\<lparr>expected_body_size_pair := p\<rparr>) = request_of m"
  "request_of (m\<lparr>first_line := line\<rparr>) = request_of m"
  "request_of (m\<lparr>headers := hs\<rparr>) = request_of m"
  "request_of (m\<lparr>body := b\<rparr>) = request_of m"
  "request_of (m\<lparr>state := st\<rparr>) = request_of m"
  by (cases m; simp)+

lemma response_calculate_request: "response_calculate m = Inr m' \<Longrightarrow> request_of m' = request_of m"
  using response_calculate_shape [of m m'] by auto

lemma response_read_complex_request:
  assumes "response_read_complex str m = Inr (n, m')"
  shows "request_of m' = request_of m"
proof -
  have "state m = BODY_PENDING"
    using assms by (cases "state m = BODY_PENDING") (simp_all add: response_read_complex_def)
  moreover obtain bp where "body_parser m = Some bp"
    using assms calculation by (cases "body_parser m") (simp_all add: response_read_complex_def)
  moreover obtain r bp' where "body_parser_read str bp = Inr (r, bp')"
    using assms calculation by (cases "body_parser_read str bp") (auto simp: response_read_complex_def)
  ultimately have "(case r of
        None \<Rightarrow> Inr (length str, m\<lparr>body_parser := Some bp', body := body (m\<lparr>body_parser := Some bp'\<rparr>) @ str\<rparr>)
      | Some k \<Rightarrow> rbind (substr str 0 k) (\<lambda>part.
          Inr (k, m\<lparr>body_parser := Some bp',
            body := body (m\<lparr>body_parser := Some bp'\<rparr>) @ part, state := COMPLETE\<rparr>))) = Inr (n, m')"
    using assms by (simp add: response_read_complex_def Let_def del: body_parser_read.simps)
  then show ?thesis
    by (cases r) (auto simp: rbind_Inr_iff)
qed

lemma read_known_body_request:
  assumes "read_known_body str m = Inr (n, m')"
  shows "request_of m' = request_of m"
proof -
  obtain x where "expected_body_size m = Inr x"
    using assms by (cases "expected_body_size m") (simp_all add: read_known_body_def)
  moreover from this obtain part where "substr str 0 (min (x - length (body m)) (length str)) = Inr part"
    using assms by (cases "substr str 0 (min (x - length (body m)) (length str))")
      (simp_all add: read_known_body_def Let_def split: if_splits)
  ultimately show ?thesis
    using assms by (auto simp: read_known_body_def Let_def split: if_splits)
qed

lemma response_read_request:
  "read_in_body response_read_complex str m = Inr (n, m') \<Longrightarrow> request_of m' = request_of m"
  unfolding read_in_body_def
  by (auto simp: rbind_Inr_iff dest: response_read_complex_request read_known_body_request split: if_splits)

lemma response_line_request:
  "set_first_line line m = Inr m' \<Longrightarrow> request_of m' = request_of m"
  "add_header_line line m = Inr m' \<Longrightarrow> request_of m' = request_of m"
  "done_with_headers response_calculate m = Inr m' \<Longrightarrow> request_of m' = request_of m"
  by (auto simp: set_first_line_def add_header_line_def add_header_def done_with_headers_def res_iff
      dest: response_calculate_request split: if_splits)

lemma response_initialize_ok:
  assumes "response_initialize rp = Inr rp'" and "responses_ok rp"
  shows "state (request_of (message_in_progress rp')) = COMPLETE \<and>
    list_all (\<lambda>q. state q = COMPLETE) (requests rp') \<and> list_all answerable (complete_messages rp')"
  using assms
  by (auto simp: response_initialize_def responses_ok_def set_request_def res_iff split: if_splits list.splits)

lemma response_step_ok:
  assumes "parsing_step HTTPResponse response_initialize rp = Inr (c, rp')" and "responses_ok rp"
  shows "responses_ok rp'"
proof (cases "state (message_in_progress rp)")
  case FIRST_LINE_PENDING
  then show ?thesis
    using assms
    by (auto simp: parsing_step_def first_line_step_def res_iff responses_ok_def
        dest!: response_initialize_ok [OF _ assms(2)] response_line_request split: if_splits)
next
  case HEADERS_PENDING
  then show ?thesis
    using assms
    by (auto simp: parsing_step_def header_line_step_def res_iff responses_ok_def HTTPResponse_def
        dest!: response_line_request split: if_splits)
next
  case BODY_PENDING
  then show ?thesis
    using assms
    by (auto simp: parsing_step_def body_step_def res_iff responses_ok_def HTTPResponse_def
        dest!: response_read_request split: if_splits)
next
  case COMPLETE
  then show ?thesis
    using assms
    by (auto simp: parsing_step_def responses_ok_def answerable_def HTTPResponse_def http_response_new_def)
qed

lemma response_loop_ok_at:
  assumes "parse_loop C init s = Some r" and "r = Inr s'" and "Q s"
    and "\<And>s c s'. parsing_step C init s = Inr (c, s') \<Longrightarrow> Q s \<Longrightarrow> Q s'"
  shows "Q s'"
  using assms
proof (induction C init s r rule: parse_loop.raw_induct [rotated, consumes 1, case_names step])
  case (step loop C init s r)
  obtain c s1 where s1: "parsing_step C init s = Inr (c, s1)"
    using step(2,3) by (auto split: sum.splits)
  show ?case
  proof (cases c)
    case True
    then have loop: "loop C init s1 = Some r"
      using step(2) s1 by simp
    show ?thesis
      by (rule step(1) [OF loop step(3) step(5) [OF s1 step(4)]]) (rule step(5))
  next
    case False
    then show ?thesis
      using step(2,3) step(5) [OF s1 step(4)] s1 by simp
  qed
qed

lemma response_parse_ok:
  assumes "response_parse buf rp = Some (Inr rp')" and "responses_ok rp"
  shows "responses_ok rp'"
proof -
  have "responses_ok (rp\<lparr>message_in_progress := m\<rparr>)"
    if "message_eof (eof_in_body HTTPResponse) (message_in_progress rp) = Inr m" for m
    using that assms(2)
    by (auto simp: message_eof_def responses_ok_def res_iff split: http_message_state.splits if_splits)
  then have "\<exists>rp1. responses_ok rp1 \<and> parse_loop HTTPResponse response_initialize
      (rp1\<lparr>buffer := buffer rp1 @ buf\<rparr>) = Some (Inr rp')"
    using assms by (fastforce simp: response_parse_def parse_def res_iff split: if_splits sum.splits)
  then obtain rp1 where rp1: "responses_ok (rp1\<lparr>buffer := buffer rp1 @ buf\<rparr>)"
    "parse_loop HTTPResponse response_initialize (rp1\<lparr>buffer := buffer rp1 @ buf\<rparr>) = Some (Inr rp')"
    by (auto simp: responses_ok_def)
  show ?thesis
    by (rule response_loop_ok_at [where Q = responses_ok, OF rp1(2) refl rp1(1)]) (rule response_step_ok)
qed

lemma answerable_writes:
  assumes "answerable r"
  shows "\<exists>text exchange. message_str r = Inr text \<and> save r addr = Inr exchange"
  using assms by (simp add: answerable_def message_str_def save_def toprotobuf_def)

section \<open>The invariant of the loop\<close>

text \<open>
  The setting: both sockets count their calls, and \<open>received\<close> is what the kernel has handed over of
  the client's stream. The client sends well-formed requests, one after the other, and closes its
  side only after the last; no read of it names a resource. Nothing is assumed of the server.
\<close>

definition client_stream :: "('k \<Rightarrow> string) \<Rightarrow> http_message list \<Rightarrow> 'k proxy_kernel \<Rightarrow> bool" where
  "client_stream received ms K \<longleftrightarrow>
     list_all request_wf ms \<and> length (text_of ms) < INPUT_LIMIT \<and>
     stream_socket (sock_read (server_class K)) (sock_write (server_class K)) \<and>
     stream_socket (sock_read (client_class K)) (sock_write (client_class K)) \<and>
     (\<forall>fd k s fd' k'. sock_read (client_class K) (fd, k) = Inr (s, (fd', k')) \<longrightarrow>
        prefix (received k) (text_of ms) \<longrightarrow>
        received k' = received k @ s \<and> prefix (received k') (text_of ms) \<and>
        (if s = '''' then received k = text_of ms else innocent s)) \<and>
     (\<forall>fd k s fd' k'. sock_read (server_class K) (fd, k) = Inr (s, (fd', k')) \<longrightarrow> received k' = received k) \<and>
     (\<forall>fd k s fd' k'. sock_write (server_class K) s (fd, k) = Inr (fd', k') \<longrightarrow> received k' = received k) \<and>
     (\<forall>fd k s fd' k'. sock_write (client_class K) s (fd, k) = Inr (fd', k') \<longrightarrow> received k' = received k) \<and>
     (\<forall>ps t k n rs k'. proxy_poll_fds K ps t k = Inr (n, rs, k') \<longrightarrow>
        received k' = received k \<and> length rs = length ps)"

lemma client_streamD:
  assumes "client_stream received ms K"
  shows "list_all request_wf ms" "length (text_of ms) < INPUT_LIMIT"
    and "stream_socket (sock_read (server_class K)) (sock_write (server_class K))"
    and "stream_socket (sock_read (client_class K)) (sock_write (client_class K))"
    and "sock_read (client_class K) (fd, k) = Inr (s, (fd', k')) \<Longrightarrow> prefix (received k) (text_of ms) \<Longrightarrow>
      received k' = received k @ s \<and> prefix (received k') (text_of ms) \<and>
      (if s = '''' then received k = text_of ms else innocent s)"
    and "sock_read (server_class K) (fd, k) = Inr (s, (fd', k')) \<Longrightarrow> received k' = received k"
    and "sock_write (server_class K) s (fd, k) = Inr (fd', k') \<Longrightarrow> received k' = received k"
    and "sock_write (client_class K) s (fd, k) = Inr (fd', k') \<Longrightarrow> received k' = received k"
    and "proxy_poll_fds K ps t k = Inr (n, rs, k') \<Longrightarrow> received k' = received k \<and> length rs = length ps"
  using assms unfolding client_stream_def by (blast, blast, blast, blast, metis+)

text \<open>
  The bytes received, parsed from scratch, give the parser of the loop with the requests in front
  that were written to the server.
\<close>

definition requests_kept :: "string \<Rightarrow> connection \<Rightarrow> bool" where
  "requests_kept str c \<longleftrightarrow>
     (\<exists>sent. after_reading str = Some (Inr (prefixed sent (request_parser c))) \<and> to_server c = text_of sent)"

definition proxy_inv ::
  "'k proxy_kernel \<Rightarrow> ('k \<Rightarrow> string) \<Rightarrow> http_message list \<Rightarrow> 'k proxy_world \<Rightarrow> bool" where
  "proxy_inv K received ms w \<longleftrightarrow>
     proxy_calls w = K \<and> client_stream received ms K \<and> prefix (received (proxy_state w)) (text_of ms) \<and>
     requests_kept (received (proxy_state w)) (traffic w) \<and> responses_ok (response_parser (traffic w))"

definition proxy_willing :: "nat \<Rightarrow> 'k proxy_world \<Rightarrow> bool" where
  "proxy_willing i w \<longleftrightarrow>
     (i = 2 \<longrightarrow> \<not> sequence_empty (request_parser (traffic w))) \<and>
     (i = 3 \<longrightarrow> \<not> sequence_empty (response_parser (traffic w)))"

text \<open>Requests the parser of the invariant holds are well-formed ones of the list.\<close>

lemma requests_kept_complete:
  assumes "client_stream received ms K" and "prefix str (text_of ms)" and "requests_kept str c"
  shows "\<exists>i j. i \<le> j \<and> j \<le> length ms \<and> to_server c = text_of (take i ms) \<and>
    complete_messages (request_parser c) = map sized (drop i (take j ms)) \<and>
    (\<forall>n \<le> length ms. prefix (text_of (take n ms)) str \<longrightarrow> n \<le> j)"
proof -
  obtain sent where sent: "after_reading str = Some (Inr (prefixed sent (request_parser c)))"
    "to_server c = text_of sent"
    using assms(3) by (auto simp: requests_kept_def)
  obtain j where j: "j \<le> length ms" "sent @ complete_messages (request_parser c) = map sized (take j ms)"
      "\<forall>n \<le> length ms. prefix (text_of (take n ms)) str \<longrightarrow> n \<le> j"
    using after_reading_some [OF client_streamD(1) [OF assms(1)] assms(2) client_streamD(2) [OF assms(1)]] sent(1)
    by auto
  let ?i = "length sent"
  have "?i \<le> j"
    using j(1) arg_cong [OF j(2), where f = length] by simp
  moreover have "sent = map sized (take ?i ms)"
    using arg_cong [OF j(2), where f = "take ?i"] \<open>?i \<le> j\<close> by (simp add: take_map min_def)
  moreover have "complete_messages (request_parser c) = map sized (drop ?i (take j ms))"
    using arg_cong [OF j(2), where f = "drop ?i"] by (simp add: drop_map)
  moreover have "text_of (map sized (take ?i ms)) = text_of (take ?i ms)"
    by (rule text_of_sized)
  ultimately show ?thesis
    using j sent(2) by (intro exI [of _ ?i] exI [of _ j]) simp
qed

text \<open>Every request waiting can be printed.\<close>

lemma requests_kept_printed:
  assumes "client_stream received ms K" and "prefix str (text_of ms)" and "requests_kept str c"
    and "m \<in> set (complete_messages (request_parser c))"
  shows "message_str m = Inr (projr (message_str m))"
proof -
  obtain i j where "complete_messages (request_parser c) = map sized (drop i (take j ms))"
    using requests_kept_complete [OF assms(1-3)] by blast
  then obtain q where "q \<in> set ms" "m = sized q"
    using assms(4) by (auto dest: in_set_dropD in_set_takeD)
  moreover have "state q = COMPLETE"
    using client_streamD(1) [OF assms(1)] \<open>q \<in> set ms\<close> by (auto simp: list_all_iff request_wf_def)
  ultimately show ?thesis
    by (simp add: message_str_def sized_def)
qed

section \<open>The callbacks under the invariant\<close>

lemma filter_empty: "v2filter_client sizeof_string now '''' m = (Inr '''', m)"
proof -
  have "limit_loop sizeof_string now keyword_table ('''', '''', False) m = (Inr ('''', '''', False), m)"
    by (rule limit_loop_no_keyword) (auto simp: keyword_table_def)
  then show ?thesis
    by (simp add: v2filter_client_def limit_resource_def)
qed

lemma request_parser_waits:
  assumes "message_in_progress qp = http_message_new" and "buffer qp = ''''"
  shows "request_parse '''' qp = Some (Inr qp)"
  using assms request.loop_idle [of qp]
  by (cases qp) (simp add: request_parse_def parse_def message_eof_def http_message_new_def)

lemma requests_read:
  assumes K: "client_stream received ms K" and kept: "requests_kept str c"
    and s: "prefix (str @ s) (text_of ms)" "if s = '''' then str = text_of ms else innocent s"
  shows "\<exists>qp. on_client_readable sizeof_string now s c m = (Some (Inr (c\<lparr>request_parser := qp\<rparr>)), m) \<and>
    requests_kept (str @ s) (c\<lparr>request_parser := qp\<rparr>) \<and>
    prefix (complete_messages (request_parser c)) (complete_messages qp)"
proof -
  note wf = client_streamD(1,2) [OF K]
  obtain sent where sent: "after_reading str = Some (Inr (prefixed sent (request_parser c)))"
    "to_server c = text_of sent"
    using kept by (auto simp: requests_kept_def)
  have "\<exists>qp. request_parse s (request_parser c) = Some (Inr qp) \<and>
      after_reading (str @ s) = Some (Inr (prefixed sent qp))"
  proof (cases "s = ''''")
    case True
    then have "prefixed sent (request_parser c) = request_parser_new\<lparr>complete_messages := map sized ms\<rparr>"
      using s(2) sent(1) after_reading_all [OF wf(1)] by simp
    then have "message_in_progress (request_parser c) = http_message_new" "buffer (request_parser c) = ''''"
      by (metis prefixed_simps(1,2) request_parser_new_def message_sequence.simps(1,3,5,6,8))+
    from request_parser_waits [OF this] show ?thesis
      using True sent(1) by simp
  next
    case False
    have len: "length (str @ s) < INPUT_LIMIT"
      using prefix_length_le [OF s(1)] wf(2) by simp
    then have len': "length str < INPUT_LIMIT" by simp
    obtain Q where Q: "after_reading (str @ s) = Some (Inr Q)"
      using after_reading_some [OF wf(1) s(1) wf(2)] by blast
    then have Q': "request_parse s (prefixed sent (request_parser c)) = Some (Inr Q)"
      using after_reading_append [OF len False] sent(1) by simp
    have ok: "message_ok (\<lambda>m. False) (message_in_progress (request_parser c))"
      "held_input (request_parser c) \<le> length str"
      using after_reading_ok [OF len' sent(1)] by simp_all
    then obtain r where r: "request_parse s (request_parser c) = Some r"
      using request.parse_returns [OF ok(1), of s] len False by (auto simp: request_parse_def)
    have "request_parse s (prefixed sent (request_parser c)) = Some (rmap (prefixed sent) r)"
      using request.parse_prefixed r unfolding request_parse_def by blast
    then show ?thesis
      using Q Q' r by (cases r) auto
  qed
  then obtain qp where qp: "request_parse s (request_parser c) = Some (Inr qp)"
    "after_reading (str @ s) = Some (Inr (prefixed sent qp))" by blast
  have filter: "v2filter_client sizeof_string now s m = (Inr s, m)"
    using s(2) filter_empty filter_innocent [of s] by (cases "s = ''''") simp_all
  have "s \<noteq> ''BLOCKED''"
    using s(2) by (auto simp: innocent_def split: if_splits)
  then have "on_client_readable sizeof_string now s c m = (Some (Inr (c\<lparr>request_parser := qp\<rparr>)), m)"
    using qp(1) filter by (simp add: on_client_readable_def)
  then show ?thesis
    using qp sent(2) request.parse_adds [OF qp(1) [unfolded request_parse_def]]
    by (auto simp: requests_kept_def)
qed

section \<open>The loop meets the poller's contract\<close>

text \<open>
  The errors that can end a connection: those of the sockets and of \<open>poll\<close>, and those of what the
  server sends.
\<close>

definition connection_error :: "'k proxy_kernel \<Rightarrow> err \<Rightarrow> bool" where
  "connection_error K e \<longleftrightarrow>
     (\<exists>st. sock_read (server_class K) st = Inl e \<or> sock_read (client_class K) st = Inl e) \<or>
     (\<exists>s st. sock_write (server_class K) s st = Inl e \<or> sock_write (client_class K) s st = Inl e) \<or>
     (\<exists>ps t k. proxy_poll_fds K ps t k = Inl e) \<or>
     (\<exists>buf m. fst (v2filter_server buf m) = Inl e) \<or> (\<exists>buf rp. returned (response_parse buf rp) = Inl e)"

lemma proxy_fd_nums:
  "fd_nums proxy_actions w =
     [fd_num (proxy_server w), fd_num (proxy_client w), fd_num (proxy_server w), fd_num (proxy_client w)]"
  by (simp add: fd_nums_def proxy_actions_def)

text \<open>What an action that is called with reason leaves.\<close>

definition proxied ::
  "'k proxy_kernel \<Rightarrow> ('k \<Rightarrow> string) \<Rightarrow> http_message list \<Rightarrow> nat \<Rightarrow> 'k proxy_world \<Rightarrow> 'k proxy_world \<Rightarrow> bool"
where
  "proxied K received ms i w w' \<longleftrightarrow>
     proxy_inv K received ms w' \<and> fd_nums proxy_actions w' = fd_nums proxy_actions w \<and>
     (\<forall>j > i. proxy_willing j w \<longrightarrow> proxy_willing j w') \<and>
     service_count w' (proxy_actions ! i) \<noteq> service_count w (proxy_actions ! i)"

lemma proxied_simps:
  "service_count w (proxy_actions ! 0) = read_count (proxy_server w)"
  "service_count w (proxy_actions ! 1) = read_count (proxy_client w)"
  "service_count w (proxy_actions ! Suc 0) = read_count (proxy_client w)"
  "service_count w (proxy_actions ! 2) = write_count (proxy_server w)"
  "service_count w (proxy_actions ! 3) = write_count (proxy_client w)"
  by (simp_all add: service_count_def proxy_actions_def numeral_eq_Suc)

lemma requests_kept_other [simp]:
  "requests_kept str (c\<lparr>response_parser := rp\<rparr>) = requests_kept str c"
  "requests_kept str (c\<lparr>to_client := s\<rparr>) = requests_kept str c"
  "requests_kept str (c\<lparr>saved := xs\<rparr>) = requests_kept str c"
  by (simp_all add: requests_kept_def)

lemma not_empty_prefix:
  "prefix (complete_messages s) (complete_messages s') \<Longrightarrow> \<not> sequence_empty s \<Longrightarrow> \<not> sequence_empty s'"
  by (auto simp: sequence_empty_def)

lemma server_readable_spec:
  assumes "proxy_inv K received ms w"
  shows "case server_readable w of
      Inl e \<Rightarrow> connection_error K e
    | Inr (r, w') \<Rightarrow> proxied K received ms 0 w w'"
proof (cases "sock_read (server_class K) (proxy_server w, proxy_state w)")
  case (Inl e)
  then show ?thesis
    using assms by (auto simp: server_readable_def proxy_inv_def connection_error_def)
next
  case (Inr x)
  obtain buf fd k where x: "x = (buf, (fd, k))" by (metis surj_pair)
  note K = assms [unfolded proxy_inv_def]
  note rd = stream_socket.read_law [OF client_streamD(3) [OF K [THEN conjunct2, THEN conjunct1]] Inr [unfolded x]]
  note k = client_streamD(6) [OF K [THEN conjunct2, THEN conjunct1] Inr [unfolded x]]
  obtain f m where f: "v2filter_server buf (resources w) = (f, m)" by force
  show ?thesis
  proof (cases f)
    case (Inl e)
    then have "fst (v2filter_server buf (resources w)) = Inl e"
      using f by simp
    then have "connection_error K e"
      unfolding connection_error_def by blast
    then show ?thesis
      using K Inr x f Inl by (simp add: server_readable_def on_server_readable_def returned_def)
  next
    case fine: (Inr u)
    show ?thesis
    proof (cases "returned (response_parse buf (response_parser (traffic w)))")
      case (Inl e)
      then have "connection_error K e"
        by (auto simp: connection_error_def)
      moreover have "server_readable w = Inl e"
        using K Inr x f fine Inl
        by (cases "response_parse buf (response_parser (traffic w))")
          (auto simp: server_readable_def on_server_readable_def returned_def split: sum.splits)
      ultimately show ?thesis by simp
    next
      case parsed: (Inr rp)
      then have rp: "response_parse buf (response_parser (traffic w)) = Some (Inr rp)"
        by (simp add: returned_def split: option.splits)
      have "server_readable w = Inr (just Continue, w\<lparr>proxy_server := fd, proxy_state := k,
          traffic := (traffic w)\<lparr>response_parser := rp\<rparr>, resources := m\<rparr>)"
        using K Inr x f fine rp by (simp add: server_readable_def on_server_readable_def returned_def)
      moreover have "responses_ok rp"
        using response_parse_ok [OF rp] K by simp
      ultimately show ?thesis
        using K rd k not_empty_prefix [OF response.parse_adds [OF rp [unfolded response_parse_def]]]
        by (simp add: proxied_def proxy_inv_def proxy_fd_nums proxied_simps proxy_willing_def)
    qed
  qed
qed

lemma client_readable_spec:
  assumes "proxy_inv K received ms w"
  shows "case client_readable w of
      Inl e \<Rightarrow> connection_error K e
    | Inr (r, w') \<Rightarrow> proxied K received ms 1 w w'"
proof (cases "sock_read (client_class K) (proxy_client w, proxy_state w)")
  case (Inl e)
  then show ?thesis
    using assms by (auto simp: client_readable_def proxy_inv_def connection_error_def)
next
  case (Inr x)
  obtain buf fd k where x: "x = (buf, (fd, k))" by (metis surj_pair)
  note K = assms [unfolded proxy_inv_def]
  note stream = K [THEN conjunct2, THEN conjunct1]
  note rd = stream_socket.read_law [OF client_streamD(4) [OF stream] Inr [unfolded x]]
  note k = client_streamD(5) [OF stream Inr [unfolded x]]
  obtain qp where qp: "on_client_readable (sizeof_std_string K) (clock K k) buf (traffic w) (resources w) =
      (Some (Inr ((traffic w)\<lparr>request_parser := qp\<rparr>)), resources w)"
    "requests_kept (received k) ((traffic w)\<lparr>request_parser := qp\<rparr>)"
    "prefix (complete_messages (request_parser (traffic w))) (complete_messages qp)"
    using requests_read [OF stream, of "received (proxy_state w)" "traffic w" buf] K k by metis
  then have "client_readable w = Inr (just Continue, w\<lparr>proxy_client := fd, proxy_state := k,
      traffic := (traffic w)\<lparr>request_parser := qp\<rparr>\<rparr>)"
    using K Inr x by (simp add: client_readable_def returned_def)
  then show ?thesis
    using K k rd qp not_empty_prefix [OF qp(3)]
    by (auto simp: proxied_def proxy_inv_def proxy_fd_nums proxied_simps proxy_willing_def)
qed

lemma server_writable_spec:
  assumes "proxy_inv K received ms w" and "\<not> sequence_empty (request_parser (traffic w))"
  shows "case server_writable w of
      Inl e \<Rightarrow> connection_error K e
    | Inr (r, w') \<Rightarrow> proxied K received ms 2 w w'"
proof -
  note K = assms(1) [unfolded proxy_inv_def]
  note stream = K [THEN conjunct2, THEN conjunct1]
  let ?c = "traffic w"
  obtain q qs where qs: "complete_messages (request_parser ?c) = q # qs"
    using assms(2) by (auto simp: sequence_empty_def neq_Nil_conv)
  define printed where "printed = projr (message_str q)"
  have printed: "message_str q = Inr printed"
    unfolding printed_def using requests_kept_printed [OF stream, of "received (proxy_state w)" ?c q] K qs by simp
  show ?thesis
  proof (cases "sock_write (server_class K) printed (proxy_server w, proxy_state w)")
    case (Inl e)
    then have "connection_error K e"
      by (auto simp: connection_error_def)
    then show ?thesis
      using K qs printed Inl by (simp add: server_writable_def sequence_front_def)
  next
    case (Inr x)
    obtain fd k where x: "x = (fd, k)" by force
    note wr = stream_socket.write_law [OF client_streamD(3) [OF stream] Inr [unfolded x]]
    note k = client_streamD(7) [OF stream Inr [unfolded x]]
    let ?c' = "?c\<lparr>to_server := to_server ?c @ printed,
        response_parser := new_request_arrived q (response_parser ?c),
        request_parser := (request_parser ?c)\<lparr>complete_messages := qs\<rparr>\<rparr>"
    have step: "server_writable w = Inr (just Continue, w\<lparr>proxy_server := fd, proxy_state := k, traffic := ?c'\<rparr>)"
      using K qs printed Inr x
      by (simp add: server_writable_def on_server_writable_def sequence_front_def sequence_pop_def)
    obtain sent where sent: "after_reading (received (proxy_state w)) = Some (Inr (prefixed sent (request_parser ?c)))"
      "to_server ?c = text_of sent"
      using K by (auto simp: requests_kept_def)
    have "prefixed sent (request_parser ?c) =
        prefixed (sent @ [q]) ((request_parser ?c)\<lparr>complete_messages := qs\<rparr>)"
      using qs by (simp add: prefixed_def)
    moreover have "text_of (sent @ [q]) = to_server ?c @ printed"
      using sent(2) by (simp add: text_of_def printed_def)
    ultimately have kept: "requests_kept (received k) ?c'"
      unfolding requests_kept_def using sent(1) k by (intro exI [of _ "sent @ [q]"]) simp
    have "state q = COMPLETE"
      using printed by (simp add: message_str_def split: if_splits)
    then have "responses_ok (new_request_arrived q (response_parser ?c))"
      using K by (simp add: responses_ok_def new_request_arrived_def)
    then show ?thesis
      using K k wr step kept
      by (simp add: proxied_def proxy_inv_def proxy_fd_nums proxied_simps proxy_willing_def
          new_request_arrived_def sequence_empty_def)
  qed
qed

lemma client_writable_spec:
  assumes "proxy_inv K received ms w" and "\<not> sequence_empty (response_parser (traffic w))"
  shows "case client_writable w of
      Inl e \<Rightarrow> connection_error K e
    | Inr (r, w') \<Rightarrow> proxied K received ms 3 w w'"
proof -
  note K = assms(1) [unfolded proxy_inv_def]
  note stream = K [THEN conjunct2, THEN conjunct1]
  let ?c = "traffic w"
  obtain a as where as: "complete_messages (response_parser ?c) = a # as"
    using assms(2) by (auto simp: sequence_empty_def neq_Nil_conv)
  then have "answerable a"
    using K by (simp add: responses_ok_def)
  then obtain printed exchange where printed: "message_str a = Inr printed" "save a (server_addr ?c) = Inr exchange"
    using answerable_writes by blast
  show ?thesis
  proof (cases "sock_write (client_class K) printed (proxy_client w, proxy_state w)")
    case (Inl e)
    then have "connection_error K e"
      by (auto simp: connection_error_def)
    then show ?thesis
      using K as printed Inl by (simp add: client_writable_def sequence_front_def)
  next
    case (Inr x)
    obtain fd k where x: "x = (fd, k)" by force
    note wr = stream_socket.write_law [OF client_streamD(4) [OF stream] Inr [unfolded x]]
    note k = client_streamD(8) [OF stream Inr [unfolded x]]
    let ?c' = "?c\<lparr>to_client := to_client ?c @ printed, saved := saved ?c @ [exchange],
        response_parser := (response_parser ?c)\<lparr>complete_messages := as\<rparr>\<rparr>"
    have step: "client_writable w = Inr (just Continue, w\<lparr>proxy_client := fd, proxy_state := k, traffic := ?c'\<rparr>)"
      using K as printed Inr x
      by (simp add: client_writable_def on_client_writable_def sequence_front_def sequence_pop_def)
    have "responses_ok ((response_parser ?c)\<lparr>complete_messages := as\<rparr>)"
      using K as by (simp add: responses_ok_def)
    then show ?thesis
      using K k wr step
      by (simp add: proxied_def proxy_inv_def proxy_fd_nums proxied_simps proxy_willing_def)
  qed
qed

lemma proxy_action_cases:
  assumes "i < length proxy_actions"
  obtains "i = 0" | "i = 1" | "i = 2" | "i = 3"
  using assms unfolding proxy_actions_def by (auto simp: less_Suc_eq numeral_eq_Suc)

lemma proxy_callbacks:
  "callback (proxy_actions ! 0) = server_readable" "callback (proxy_actions ! 1) = client_readable"
  "callback (proxy_actions ! 2) = server_writable" "callback (proxy_actions ! 3) = client_writable"
  by (simp_all add: proxy_actions_def numeral_eq_Suc)

lemma proxy_called:
  assumes "proxy_inv K received ms w" and "i < length proxy_actions" and "proxy_willing i w"
  shows "case callback (proxy_actions ! i) w of
      Inl e \<Rightarrow> connection_error K e
    | Inr (r, w') \<Rightarrow> proxied K received ms i w w'"
  using server_readable_spec [OF assms(1)] client_readable_spec [OF assms(1)]
    server_writable_spec [OF assms(1)] client_writable_spec [OF assms(1)] assms(3)
  by (cases rule: proxy_action_cases [OF assms(2)]) (simp_all only: proxy_callbacks proxy_willing_def, auto)

lemma proxy_asked:
  assumes "i < length proxy_actions" and "when_interested (proxy_actions ! i) w = (b, w')"
  shows "w' = w \<and> (b \<longrightarrow> proxy_willing i w)"
  using assms(2)
  by (cases rule: proxy_action_cases [OF assms(1)])
    (auto simp: proxy_actions_def proxy_willing_def numeral_eq_Suc)

lemma proxy_polled:
  assumes "proxy_inv K received ms w"
  shows "case proxy_poll ps t w of
      Inl e \<Rightarrow> connection_error K e
    | Inr (n, rs, w') \<Rightarrow> proxy_inv K received ms w' \<and> fd_nums proxy_actions w' = fd_nums proxy_actions w \<and>
        length rs = length ps \<and> (\<forall>j. proxy_willing j w \<longrightarrow> proxy_willing j w')"
proof (cases "proxy_poll_fds K ps t (proxy_state w)")
  case (Inl e)
  then have "connection_error K e"
    unfolding connection_error_def by blast
  then show ?thesis
    using assms Inl by (simp add: proxy_poll_def proxy_inv_def)
next
  case (Inr x)
  obtain n rs k where x: "x = (n, rs, k)" by (cases x)
  have "received k = received (proxy_state w) \<and> length rs = length ps"
    using client_streamD(9) [of received ms K ps t "proxy_state w" n rs k] assms Inr x
    by (simp add: proxy_inv_def)
  then show ?thesis
    using assms Inr x by (simp add: proxy_poll_def proxy_inv_def proxy_fd_nums proxy_willing_def)
qed

interpretation proxy: poller_client proxy_actions "proxy_inv K received ms" proxy_willing proxy_poll
proof
  show "proxy_inv K received ms w' \<and> fd_nums proxy_actions w' = fd_nums proxy_actions w \<and>
      (b \<longrightarrow> proxy_willing i w') \<and> (\<forall>j. proxy_willing j w \<longrightarrow> proxy_willing j w')"
    if "proxy_inv K received ms w" "i < length proxy_actions" "when_interested (proxy_actions ! i) w = (b, w')"
    for w :: "'a proxy_world" and i b w'
    using proxy_asked [OF that(2,3)] that(1) by blast
  show "proxy_inv K received ms w' \<and> fd_nums proxy_actions w' = fd_nums proxy_actions w \<and>
      (\<forall>j > i. proxy_willing j w \<longrightarrow> proxy_willing j w') \<and>
      (result r = Exit \<or> service_count w (proxy_actions ! i) \<noteq> service_count w' (proxy_actions ! i))"
    if "proxy_inv K received ms w" "i < length proxy_actions" "proxy_willing i w"
      "callback (proxy_actions ! i) w = Inr (r, w')" for w :: "'a proxy_world" and i r w'
  proof -
    have "proxied K received ms i w w'"
      using proxy_called [OF that(1-3)] that(4) by simp
    then show ?thesis
      unfolding proxied_def by metis
  qed
  show "proxy_inv K received ms w' \<and> fd_nums proxy_actions w' = fd_nums proxy_actions w \<and>
      length rs = length ps \<and> (\<forall>j. proxy_willing j w \<longrightarrow> proxy_willing j w')"
    if "proxy_inv K received ms w" "proxy_poll ps t w = Inr (n, rs, w')" for w :: "'a proxy_world" and ps t n rs w'
    using proxy_polled [OF that(1), of ps t] that(2) by simp
qed

lemma proxy_fault:
  assumes "poller_client.fault proxy_actions (proxy_inv K received ms) proxy_willing
    (proxy_poll :: 'k proxy_world sys_poll) e"
  shows "connection_error K e"
proof -
  have "connection_error K e" if "proxy_inv K received ms w" "proxy_poll ps t w = Inl e"
    for ps t and w :: "'k proxy_world"
    using proxy_polled [OF that(1), of ps t] that(2) by simp
  moreover have "connection_error K e"
    if "i < length proxy_actions" "proxy_inv K received ms w" "proxy_willing i w"
      "callback (proxy_actions ! i) w = Inl e" for i and w :: "'k proxy_world"
    using proxy_called [OF that(2,1,3)] that(4) by simp
  ultimately show ?thesis
    using assms unfolding proxy.fault_def by blast
qed

lemma proxy_pass:
  fixes w :: "'k proxy_world"
  assumes "proxy_inv K received ms w" and "passes proxy_poll proxy_wait (proxy_start w) s"
  shows "case loop_pass proxy_poll proxy_wait s of
      Inl e \<Rightarrow> connection_error K e
    | Inr (r, run, (p', w')) \<Rightarrow> proxy_inv K received ms w'"
proof -
  have "poller_client.holds proxy_actions (fst (proxy_start w)) w"
    unfolding proxy.holds_def proxy_fd_nums
    by (simp add: proxy_start_def proxy_actions_def add_action_def poller_new_def)
  then have "case loop_pass proxy_poll proxy_wait s of
      Inl e \<Rightarrow> poller_client.fault proxy_actions (proxy_inv K received ms) proxy_willing
          (proxy_poll :: 'k proxy_world sys_poll) e \<or>
        (\<exists>w :: 'k proxy_world. proxy_inv K received ms w \<and> proxy_wait w = Inl e)
    | Inr (r, run, (p', w')) \<Rightarrow> proxy_inv K received ms w' \<and> poller_client.holds proxy_actions p' w'"
    using assms(1) by (intro proxy.loop_pass_client [OF assms(2)]) (simp_all add: proxy_start_def proxy_wait_def)
  then show ?thesis
    using proxy_fault [of K received ms] by (auto simp: proxy_wait_def split: sum.splits)
qed

section \<open>Properties\<close>


text \<open>One request, read in one piece; then the client closes its side.\<close>

definition sample_proxy :: "string proxy_kernel" where
  "sample_proxy =
     (let text = text_of [sample_get];
          client_read = (\<lambda>n k. if k = [] then Inr (text, text) else if k = text then Inr ([], text)
            else Inl (UnixError ''read''))
      in \<lparr>server_class = TCPSocket (\<lambda>n k. Inl (UnixError ''read'')) (blocking (\<lambda>s k. Inr (length s, k))),
          client_class = TCPSocket client_read (blocking (\<lambda>s k. Inr (length s, k))),
          proxy_poll_fds = (\<lambda>ps t k. Inr (length ps, map events ps, k)),
          sizeof_std_string = 32, clock = (\<lambda>k i. 7), meanwhile = (\<lambda>k m. m)\<rparr>)"

lemma text_of_sample: "text_of [sample_get] = ''GET / HTTP/1.1'' @ CRLF @ ''Host: a.example'' @ CRLF @ CRLF"
  by (simp add: text_of_def message_str_def sample_get_def header_str_def)

lemma sample_proxy_stream: "client_stream (\<lambda>k. k) [sample_get] sample_proxy"
proof -
  have "innocent (text_of [sample_get])"
    unfolding text_of_sample by (simp add: innocent_def CRLF_def)
  moreover have "stream_socket (sock_read (server_class sample_proxy)) (sock_write (server_class sample_proxy))"
    "stream_socket (sock_read (client_class sample_proxy)) (sock_write (client_class sample_proxy))"
    unfolding sample_proxy_def Let_def by (simp_all add: tcp.stream_socket_axioms)
  moreover have "length (text_of [sample_get]) < INPUT_LIMIT"
    unfolding text_of_sample by (simp add: INPUT_LIMIT_def)
  moreover have "text_of [sample_get] \<noteq> ''''"
    unfolding text_of_sample by simp
  ultimately show ?thesis
    unfolding client_stream_def
    by (simp add: sample_get_wf sample_proxy_def Let_def TCPSocket_def fd_read_def fd_write_blocking res_iff
        split: if_splits)
qed


text \<open>
  C7: a blocked read that does not complete a request can make the proxy read
  an empty queue in the very same poll. One allowed request waits for the server; the poll reports
  the client readable and the server writable; the read names a function, so it is blocked, and the
  waiting request is taken out of the queue in its place; then the callback that was polled for
  because the queue was not empty takes its front, which has no defined behaviour.
\<close>

theorem proxy_poll_undefined:
  assumes "request_parser (traffic w) = request_parser_new\<lparr>complete_messages := [sized p]\<rparr>"
    and "response_parser (traffic w) = response_parser_new" and "request_wf p"
    and "\<not> fd_eof (proxy_server w)" and "\<not> fd_eof (proxy_client w)"
    and "\<And>ps. length ps = 4 \<Longrightarrow>
      proxy_poll_fds (proxy_calls w) ps t (proxy_state w) = Inr (2, [0, POLLIN, POLLOUT, 0], k)"
    and "sock_read (client_class (proxy_calls w)) (proxy_client w, k) = Inr (buf, (fd, k'))"
    and "stream_socket (sock_read (client_class (proxy_calls w))) (sock_write (client_class (proxy_calls w)))"
    and "cloud_inv n (meanwhile (proxy_calls w) k (resources w))" and "2 \<le> n"
    and "str_find buf ''lambda'' \<noteq> None"
    and "str_find buf ''ec2'' = None \<or> str_find buf ''RunInstances'' = None"
    and "request_parse buf request_parser_new = Some (Inr qp)" and "sequence_empty qp"
  shows "poll proxy_poll t (proxy_start w) = Inl Undefined"
proof -
  let ?K = "proxy_calls w" and ?c = "traffic w"
  let ?m = "meanwhile ?K k (resources w)"
  let ?w = "w\<lparr>proxy_state := k, resources := ?m\<rparr>"
  have p: "state (sized p) = COMPLETE"
    using assms(3) by (simp add: request_wf_def sized_def)
  then have p': "state (sized p) \<noteq> FIRST_LINE_PENDING" by simp
  have parse: "request_parse buf (request_parser ?c) = Some (Inr (prefixed [sized p] qp))"
    using request.parse_prefixed [OF assms(13) [unfolded request_parse_def], of "[sized p]"] assms(1)
    by (simp add: request_parse_def prefixed_def request_parser_new_def)
  obtain r where "response_parse canned_405 (new_request_arrived (sized p) response_parser_new) =
      Some (Inr ((new_request_arrived (sized p) response_parser_new)\<lparr>requests := [], buffer := '''',
        complete_messages := complete_messages (new_request_arrived (sized p) response_parser_new) @ [r],
        message_in_progress := http_response_new\<rparr>))"
    using canned_parse [of "new_request_arrived (sized p) response_parser_new" "sized p" "[]", OF _ _ _ p']
    by (auto simp: new_request_arrived_def response_parser_new_def)
  then obtain rp where rp: "response_parse canned_405 (new_request_arrived (sized p) response_parser_new) = Some (Inr rp)"
    by blast
  have spoof: "spoof_response buf ?c = Some (Inr (?c\<lparr>request_parser := qp, response_parser := rp\<rparr>))"
    using parse get_canned_405 [OF p'] assms(2) rp
    by (simp add: spoof_response_def sequence_front_def sequence_pop_def prefixed_def)
  obtain m' where m': "v2filter_client (sizeof_std_string ?K) (clock ?K k') buf ?m = (Inr ''BLOCKED'', m')"
    using lambda_filtered [OF assms(9,11,12), where sizeof_string = "sizeof_std_string ?K" and now = "clock ?K k'"]
      assms(10)
    by (cases "v2filter_client (sizeof_std_string ?K) (clock ?K k') buf ?m") auto
  let ?w1 = "?w\<lparr>proxy_client := fd, proxy_state := k',
      traffic := ?c\<lparr>request_parser := qp, response_parser := rp\<rparr>, resources := m'\<rparr>"
  have first: "client_readable ?w = Inr (just Continue, ?w1)"
    using assms(7) m' spoof by (simp add: client_readable_def on_client_readable_def returned_def)
  have second: "server_writable ?w1 = Inl Undefined"
    using assms(14) by (simp add: server_writable_def sequence_front_def sequence_empty_def)
  have counted: "read_count fd \<noteq> read_count (proxy_client w)"
    using stream_socket.read_law [OF assms(8,7)] by simp
  let ?ps = "[\<lparr>poll_fd = fd_num (proxy_server w), events = POLLIN, revents = 0\<rparr>,
      \<lparr>poll_fd = fd_num (proxy_client w), events = POLLIN, revents = 0\<rparr>,
      \<lparr>poll_fd = fd_num (proxy_server w), events = POLLOUT, revents = 0\<rparr>,
      \<lparr>poll_fd = fd_num (proxy_client w), events = 0, revents = 0\<rparr>]"
  have "actions (fst (proxy_start w)) = proxy_actions"
    by (simp add: proxy_start_def proxy_actions_def add_action_def poller_new_def)
  moreover have "set_events proxy_actions (pollfds (fst (proxy_start w))) w = Inr (?ps, w)"
    using assms(1,2,4,5)
    by (simp add: proxy_start_def proxy_actions_def add_action_def poller_new_def interest_def
        sequence_empty_def response_parser_new_def)
  moreover have "proxy_poll ?ps t w = Inr (2, [0, POLLIN, POLLOUT, 0], ?w)"
    using assms(6) [of ?ps] by (simp add: proxy_poll_def)
  moreover have "serve 0 proxy_actions (answered ?ps [0, POLLIN, POLLOUT, 0]) ?w = Inl Undefined"
    using first second counted
    by (simp add: proxy_actions_def answered_def service_count_def serve.simps
        POLLIN_def POLLOUT_def POLLERR_def POLLHUP_def POLLNVAL_def just_def)
  ultimately show ?thesis
    by (simp add: poll_def proxy_actions_def proxy_start_def add_action_def poller_new_def POLLIN_def)
qed

text \<open>The client's second read is the beginning of a request that names a function.\<close>

definition sample_overlap :: "unit proxy_kernel" where
  "sample_overlap =
     \<lparr>server_class = TCPSocket (\<lambda>n k. Inl (UnixError ''read'')) (blocking (\<lambda>s k. Inr (length s, k))),
      client_class = TCPSocket (\<lambda>n k. Inr (''GET /lambda HT'', k)) (blocking (\<lambda>s k. Inr (length s, k))),
      proxy_poll_fds = (\<lambda>ps t k. Inr (2, [0, POLLIN, POLLOUT, 0], k)),
      sizeof_std_string = 32, clock = (\<lambda>k i. 7), meanwhile = (\<lambda>k m. full_list)\<rparr>"

lemma proxy_poll_undefined_witness:
  "poll proxy_poll (-1) (proxy_start ((proxy_world_new sample_overlap sample_fd sample_fd (''10.0.0.1'', 80) [] ())
     \<lparr>traffic := (connection_new (''10.0.0.1'', 80))
        \<lparr>request_parser := request_parser_new\<lparr>complete_messages := [sized sample_get]\<rparr>\<rparr>\<rparr>)) = Inl Undefined"
proof (rule proxy_poll_undefined)
  let ?qp = "more_input ''GET /lambda HT'' request_parser_new"
  show "request_parse ''GET /lambda HT'' request_parser_new = Some (Inr ?qp)"
    by (simp add: request_parse_def request.parse_nonempty parse_loop.simps parsing_step_def
        first_line_step_def have_complete_line_def more_input_def request_parser_new_def http_message_new_def
        CRLF_def)
  show "sequence_empty ?qp"
    by (simp add: sequence_empty_def request_parser_new_def)
  show "request_wf sample_get"
    by (rule sample_get_wf)
  let ?w = "(proxy_world_new sample_overlap sample_fd sample_fd (''10.0.0.1'', 80) [] ())
     \<lparr>traffic := (connection_new (''10.0.0.1'', 80))
        \<lparr>request_parser := request_parser_new\<lparr>complete_messages := [sized sample_get]\<rparr>\<rparr>\<rparr>"
  show "cloud_inv 2 (meanwhile (proxy_calls ?w) () (resources ?w))"
    using full_list_inv by (simp add: sample_overlap_def proxy_world_new_def)
  show "sock_read (client_class (proxy_calls ?w)) (proxy_client ?w, ()) =
      Inr (''GET /lambda HT'', (sample_fd\<lparr>read_count := read_count sample_fd + 1\<rparr>, ()))"
    by (simp add: sample_overlap_def proxy_world_new_def TCPSocket_def fd_read_def)
  show "stream_socket (sock_read (client_class (proxy_calls ?w))) (sock_write (client_class (proxy_calls ?w)))"
    by (simp add: sample_overlap_def proxy_world_new_def tcp.stream_socket_axioms)
qed (simp_all add: proxy_world_new_def connection_new_def sample_fd_def sample_overlap_def)

end
