(* ===== verification/Bind_Arguments.thy ===== *)
theory Bind_Arguments
  imports Prelude
begin

text \<open>
  \<open>src/src/packet/bindworkaround.hh\<close>: the arguments of a constructor are kept as a tuple, and the
  constructor is called with them later, in the child that owns the object. The templates are functions
  on lists: the indices are computed by recursion and pick the arguments from the tuple.
\<close>

text \<open>The recursive case puts \<open>First\<close> before the rest; the base case names the whole list.\<close>

fun ints_0_to_N :: "nat \<Rightarrow> nat list \<Rightarrow> nat list" where
  "ints_0_to_N (Suc n) rest = ints_0_to_N n (Suc n # rest)"
| "ints_0_to_N 0 rest = 0 # rest"

text \<open>An index that the tuple does not have is an error of the compiler; so is a tuple of no arguments.\<close>

definition bind_construct :: "('a list \<Rightarrow> 'o) \<Rightarrow> 'a list \<Rightarrow> nat list \<Rightarrow> 'o option" where
  "bind_construct constructor bound_arguments S =
     (if list_all (\<lambda>i. i < length bound_arguments) S then Some (constructor (map ((!) bound_arguments) S)) else None)"

definition bind_call :: "('a list \<Rightarrow> 'o) \<Rightarrow> 'a list \<Rightarrow> 'o option" where
  "bind_call constructor bound_arguments =
     (if bound_arguments = [] then None
      else bind_construct constructor bound_arguments (ints_0_to_N (length bound_arguments - 1) []))"

lemma ints_0_to_N_upt: "ints_0_to_N n rest = [0..<Suc n] @ rest"
  by (induction n rest rule: ints_0_to_N.induct) simp_all

text \<open>The constructor gets all the arguments, each once and in order.\<close>

lemma bind_call_arguments: "args \<noteq> [] \<Longrightarrow> bind_call constructor args = Some (constructor args)"
  by (simp add: bind_call_def bind_construct_def ints_0_to_N_upt list_all_iff map_nth del: upt_Suc)

end
