(* ===== verification/Packet_Shell.thy ===== *)
theory Packet_Shell
  imports Replay_Shell Proxy_Loop Bind_Arguments
begin

text \<open>
  What the packet shells and the recording shell build around the user's command:
  \<open>src/src/packet/packetshell.cc\<close> and the body of \<open>src/src/frontend/recordshell.cc\<close>, with the rules of
  \<open>src/src/util/nat.cc\<close>. Each process is a function of its own: the shell itself, the child that lives
  in the new network namespace, the child that carries packets the other way or records, and the
  child that becomes the user's command. Their event loops are those of \<open>Ferry\<close>, \<open>Dns_Proxy\<close>,
  \<open>Proxy_Loop\<close> and \<open>Event_Loop\<close>; a child function ends where its loop begins, and yields what the
  loop works on.

  The lemmas show with which IDs, arguments and environment the user's command is executed, that the
  recorder can only write as the user, and which addresses a nested shell avoids.
\<close>

section \<open>The calls\<close>

record 'k shell_calls =
  shell_ids :: "'k id_calls"
  shell_net :: "'k net_calls"
  shell_bind :: "'k bind_kernel"
  shell_open :: "string \<Rightarrow> 'k \<Rightarrow> (int \<times> 'k) res"
  shell_read :: "'k sys_read"
  shell_write :: "'k sys_write"
  shell_resolve :: "string \<Rightarrow> string res"
  shell_ntoa :: "u32 \<Rightarrow> string"
  interface_addresses :: "'k \<Rightarrow> (address list \<times> string \<times> 'k) res"
  shell_res_init :: "'k \<Rightarrow> (address list \<times> 'k) option"
  add_route :: "int \<Rightarrow> address \<Rightarrow> 'k \<Rightarrow> 'k option"
  socketpair :: "'k \<Rightarrow> (int \<times> int \<times> 'k) res"
  sendmsg :: "control_message \<Rightarrow> 'k \<Rightarrow> (nat \<times> 'k) res"
  recvmsg :: "'k \<Rightarrow> (nat \<times> bool \<times> control_message option \<times> 'k) res"
  len_of_int :: nat
  shell_clone :: "bool \<Rightarrow> 'k \<Rightarrow> (int \<times> 'k) res"
  shell_pid :: nat
  IPTABLES :: string
  shell_dnsmasq :: string
  dnsmasq_spawn :: "string list \<Rightarrow> 'k \<Rightarrow> (int \<times> 'k) res"
  dnsmasq_connect :: "'k \<Rightarrow> 'k res"
  dnsmasq_write :: "'k \<Rightarrow> unit res \<times> 'k"
  shell_strerror :: "string \<Rightarrow> string"
  mkdir :: "string \<Rightarrow> 'k \<Rightarrow> 'k option"
  first_timestamp :: "'k \<Rightarrow> 'k"

section \<open>NAT rules\<close>

text \<open>The constructor of a rule, and its destructor, which prints an exception.\<close>

definition nat_rule_new :: "'k net_calls \<Rightarrow> string \<Rightarrow> string list \<Rightarrow> 'k \<Rightarrow> 'k res" where
  "nat_rule_new N iptables arguments k = net_run N (rule_added iptables arguments) k"

definition nat_rule_end :: "'k net_calls \<Rightarrow> string \<Rightarrow> string list \<Rightarrow> 'k \<Rightarrow> 'k" where
  "nat_rule_end N iptables arguments k =
     (case net_run N (rule_removed iptables arguments) k of Inl e \<Rightarrow> k | Inr k' \<Rightarrow> k')"

fun nat_new :: "'k net_calls \<Rightarrow> string \<Rightarrow> string list list \<Rightarrow> 'k \<Rightarrow> 'k res" where
  "nat_new N iptables [] k = Inr k"
| "nat_new N iptables (r # rs) k = rbind (nat_rule_new N iptables r k) (\<lambda>k'. nat_new N iptables rs k')"

section \<open>The packet shell\<close>

text \<open>
  \<open>get_mahimahi_base\<close>: the user's environment is looked at without privileges; \<open>TemporaryEnvironment\<close>
  throws when an environment is there already, and takes it away at the end.
\<close>

definition temporary_environment ::
  "environment option \<Rightarrow> environment option \<Rightarrow> (environment option \<Rightarrow> 'a res) \<Rightarrow> ('a \<times> environment option) res" where
  "temporary_environment environ env inside =
     (if environ \<noteq> None then Inl (RuntimeError ''TemporaryEnvironment: cannot be entered recursively'')
      else rbind (inside env) (\<lambda>x. Inr (x, None)))"

definition get_mahimahi_base ::
  "'k shell_calls \<Rightarrow> environment option \<Rightarrow> environment option \<Rightarrow> 'k \<Rightarrow> (address \<times> environment option \<times> 'k) res" where
  "get_mahimahi_base S user_environment environ k =
     rbind (temporarily_unprivileged_new (shell_ids S) k) (\<lambda>(tu, k1).
     rbind (temporary_environment environ user_environment (\<lambda>env.
       case environment_of env ''MAHIMAHI_BASE'' of
         None \<Rightarrow> Inr address_new
       | Some mahimahi_base \<Rightarrow> rbind (shell_resolve S mahimahi_base) (\<lambda>a. Inr (numeric_address a 0)))) (\<lambda>(base, environ').
     rbind (temporarily_unprivileged_end (shell_ids S) tu k1) (\<lambda>k2. Inr (base, environ', k2))))"

record packet_shell =
  egress_addr :: address
  ingress_addr :: address
  nameserver :: address
  egress_tun :: file_descriptor
  dns_outside :: dns_proxy
  pipe_first :: file_descriptor
  pipe_second :: file_descriptor

definition packet_shell_new ::
  "'k shell_calls \<Rightarrow> string \<Rightarrow> environment option \<Rightarrow> environment option \<Rightarrow> 'k \<Rightarrow> (packet_shell \<times> 'k) res" where
  "packet_shell_new S device_prefix user_environment environ k =
     rbind (get_mahimahi_base S user_environment environ k) (\<lambda>(base, environ', k1).
     rbind (interface_addresses S k1) (\<lambda>(found, all_routes, k2).
     rbind (two_unassigned_addresses (shell_ntoa S) found all_routes base) (\<lambda>(egress, ingress).
     rbind (first_nameserver (shell_res_init S) k2) (\<lambda>(ns, k3).
     rbind (tun_device_new (shell_open S) (shell_net S) (device_prefix @ ''-'' @ to_string (shell_pid S)) egress ingress k3)
       (\<lambda>(tun, k4).
     rbind (dns_proxy_new (shell_bind S) egress ns ns k4) (\<lambda>(dns, k5).
     rbind (nat_new (shell_net S) (IPTABLES S) (nat_rules (shell_pid S) ingress) k5) (\<lambda>k6.
     rbind (unix_make_pair (socketpair S) k6) (\<lambda>(first, second, k7).
       if environ' \<noteq> None then Inl (RuntimeError ''PacketShell: environment was not cleared'')
       else Inr (\<lparr>egress_addr = egress, ingress_addr = ingress, nameserver = ns, egress_tun = tun,
              dns_outside = dns, pipe_first = first, pipe_second = second\<rparr>, first_timestamp S k7)))))))))"

text \<open>The default route over the gateway; destination and mask are zero.\<close>

definition default_route :: "'k shell_calls \<Rightarrow> address \<Rightarrow> 'k \<Rightarrow> 'k res" where
  "default_route S gateway k =
     rbind (open_udp (shell_net S) k) (\<lambda>(fd, k1).
       system_call ''ioctl SIOCADDRT'' (add_route S (fd_num fd) gateway k1))"

text \<open>The proxy inside: its TCP listener is bound to the address the UDP listener got.\<close>

definition dns_inside_new :: "'k shell_calls \<Rightarrow> address \<Rightarrow> dns_proxy \<Rightarrow> 'k \<Rightarrow> (dns_proxy \<times> 'k) res" where
  "dns_inside_new S ingress outside k =
     (let K = shell_bind S in
      rbind (make_bound_socket K SOCK_DGRAM ingress k) (\<lambda>(udp, k1).
      rbind (open_socket K SOCK_STREAM k1) (\<lambda>(tcp, k2).
      rbind (local_address K udp k2) (\<lambda>a.
      rbind (bind_socket K tcp a k2) (\<lambda>k3.
      rbind (local_address K (proxy_udp outside) k3) (\<lambda>udp_to.
      rbind (local_address K (proxy_tcp outside) k3) (\<lambda>tcp_to.
        dns_proxy_of_sockets K udp tcp udp_to tcp_to k3)))))))"

text \<open>What the loop of a ferry is given: the device, the proxy, the children, the environment.\<close>

record 'k ferry_given =
  ingress_tun :: file_descriptor
  ferry_dns :: dns_proxy
  ferry_children :: children
  ferry_pipe :: file_descriptor
  ferry_environ :: "environment option"
  ferry_kernel :: 'k

text \<open>
  The child in the new namespace, up to its loop. The state in which the command is forked off is
  that of \<open>shell_clone\<close>.
\<close>

definition inner_children :: "'k shell_calls \<Rightarrow> address \<Rightarrow> dns_proxy \<Rightarrow> 'k \<Rightarrow> (dns_proxy \<times> child_process \<times> 'k) res" where
  "inner_children S ingress outside k =
     rbind (dns_inside_new S ingress outside k) (\<lambda>(dns, k1).
     rbind (local_address (shell_bind S) (proxy_udp dns) k1) (\<lambda>a.
     rbind (start_dnsmasq (shell_dnsmasq S) (dnsmasq_spawn S) (dnsmasq_connect S) (dnsmasq_write S) (shell_strerror S)
         [''-S'', address_str ''#'' a] k1) (\<lambda>(dnsmasq, k2). Inr (dns, dnsmasq, k2))))"

definition uplink_child ::
  "'k shell_calls \<Rightarrow> packet_shell \<Rightarrow> environment option \<Rightarrow> string list \<Rightarrow> 'k \<Rightarrow> 'k ferry_given ended res" where
  "uplink_child S P user_environment cmd k =
     rbind (tun_device_new (shell_open S) (shell_net S) ''ingress'' (ingress_addr P) (egress_addr P) k) (\<lambda>(tun, k1).
     rbind (temp_ioctl (shell_net S) SIOCSIFFLAGS_UP ''lo'' k1) (\<lambda>k2.
     rbind (default_route S (egress_addr P) k2) (\<lambda>k3.
     rbind (inner_children S (ingress_addr P) (dns_outside P) k3) (\<lambda>(dns, dnsmasq, k4).
     rbind (drop_privileges (shell_ids S) k4) (\<lambda>d. case d of
        Exited why \<Rightarrow> Inr (Exited why)
      | Returned k5 \<Rightarrow>
          let environ = setenv ''MAHIMAHI_BASE'' (ip (egress_addr P)) False user_environment in
          rbind (join_command cmd) (\<lambda>name.
          rbind (shell_clone S False k5) (\<lambda>(pid, k6).
          rbind (send_fd (len_of_int S) (sendmsg S) tun (pipe_first P, k6)) (\<lambda>(pipe, k7).
            Inr (Returned \<lparr>ingress_tun = tun, ferry_dns = dns,
              ferry_children = add_child (child_new name pid SIGHUP) (add_child dnsmasq []), ferry_pipe = pipe,
              ferry_environ = environ, ferry_kernel = k7\<rparr>))))))))) "

text \<open>The child of the child: it is forked after the privileges are gone and the environment is back.\<close>

definition uplink_command ::
  "'k shell_calls \<Rightarrow> ('k image \<Rightarrow> bool) \<Rightarrow> environment option \<Rightarrow> string \<Rightarrow> string list \<Rightarrow> 'k \<Rightarrow> 'k image res" where
  "uplink_command S exec environ shell_prefix cmd k =
     ezexec (shell_ids S) exec (prefixed_environment shell_prefix environ) True cmd k"

text \<open>The child that carries the packets of the downlink.\<close>

definition downlink_child :: "'k shell_calls \<Rightarrow> packet_shell \<Rightarrow> environment option \<Rightarrow> 'k \<Rightarrow> 'k ferry_given ended res" where
  "downlink_child S P user_environment k =
     rbind (drop_privileges (shell_ids S) k) (\<lambda>d. case d of
        Exited why \<Rightarrow> Inr (Exited why)
      | Returned k1 \<Rightarrow>
          rbind (recv_fd (len_of_int S) (recvmsg S) (pipe_second P, k1)) (\<lambda>(tun, (pipe, k2)).
            Inr (Returned \<lparr>ingress_tun = tun, ferry_dns = dns_outside P, ferry_children = [], ferry_pipe = pipe,
              ferry_environ = user_environment, ferry_kernel = k2\<rparr>)))"

text \<open>Both children of the shell's loop; that one of them ends does not end the other.\<close>

definition start_links :: "'k shell_calls \<Rightarrow> 'k \<Rightarrow> (children \<times> 'k) res" where
  "start_links S k =
     rbind (shell_clone S True k) (\<lambda>(up, k1).
     rbind (shell_clone S False k1) (\<lambda>(down, k2).
       Inr (add_special_child 77 (child_new ''downlink'' down SIGHUP)
         (add_special_child 77 (child_new ''packetshell'' up SIGHUP) []), k2)))"

section \<open>The recording shell\<close>

record record_shell =
  record_egress :: address
  record_ingress :: address
  record_nameserver :: address
  egress_name :: string
  ingress_name :: string
  veth_devices :: veth_pair
  record_dns :: dns_proxy
  http_listener :: file_descriptor
  dnat_arguments :: "string list"

text \<open>The main process up to the fork.\<close>

definition record_shell_new ::
  "'k shell_calls \<Rightarrow> 'k ssl_calls \<Rightarrow> 'k \<Rightarrow> (record_shell \<times> 'k) res" where
  "record_shell_new S C k =
     (let N = shell_net S; out = ''veth-'' @ to_string (shell_pid S); into = ''veth-i'' @ to_string (shell_pid S) in
      rbind (first_nameserver (shell_res_init S) k) (\<lambda>(ns, k1).
      rbind (interface_addresses S k1) (\<lambda>(found, all_routes, k2).
      rbind (two_unassigned_addresses (shell_ntoa S) found all_routes address_new) (\<lambda>(egress, ingress).
      rbind (veth_new N out into k2) (\<lambda>(veth, k3).
      rbind (assign_address N out egress ingress k3) (\<lambda>k4.
      rbind (dns_proxy_new (shell_bind S) egress ns ns k4) (\<lambda>(dns, k5).
      rbind (nat_new N (IPTABLES S) (nat_rules (shell_pid S) ingress) k5) (\<lambda>k6.
      rbind (proxy_new (open_socket (shell_bind S) SOCK_STREAM) C (bind_socket (shell_bind S)) (listen_socket (shell_bind S))
        egress k6) (\<lambda>(http, k7).
      rbind (local_address (shell_bind S) http k7) (\<lambda>listener.
      rbind (nat_rule_new N (IPTABLES S) (dnat_rule listener out) k7) (\<lambda>k8.
        Inr (\<lparr>record_egress = egress, record_ingress = ingress, record_nameserver = ns, egress_name = out,
              ingress_name = into, veth_devices = veth, record_dns = dns, http_listener = http,
              dnat_arguments = dnat_rule listener out\<rparr>, k8))))))))))))"

text \<open>
  The fork: the container waits for a byte from the pipe, which it gets when its network device is in
  its namespace. The result is the outer loop's children.
\<close>

definition record_start ::
  "'k shell_calls \<Rightarrow> record_shell \<Rightarrow> 'k \<Rightarrow> (children \<times> record_shell \<times> 'k) res" where
  "record_start S P k =
     (let N = shell_net S in
      rbind (unix_make_pair (socketpair S) k) (\<lambda>(first, second, k1).
      rbind (shell_clone S True k1) (\<lambda>(container, k2).
      rbind (net_run N [IP_program N, ''link'', ''set'', ''dev'', ingress_name P, ''netns'', to_string_int container] k2)
        (\<lambda>k3.
      rbind (fd_write (shell_write S) True ''x'' (first, k3)) (\<lambda>(_, (_, k4)).
      rbind (child_move (child_new ''v2proxyshell'' container SIGHUP)) (\<lambda>(moved, _).
      rbind (shell_clone S False k4) (\<lambda>(recorder, k5).
        Inr (add_child (child_new ''recorder'' recorder SIGHUP) (add_child moved []),
          P\<lparr>veth_devices := set_kernel_will_destroy (veth_devices P)\<rparr>, k5)))))))) "

text \<open>The container, up to its loop, and the user's command in it.\<close>

definition container_child ::
  "'k shell_calls \<Rightarrow> record_shell \<Rightarrow> file_descriptor \<Rightarrow> string list \<Rightarrow> 'k \<Rightarrow>
     (children \<times> dns_proxy option \<times> 'k) ended res" where
  "container_child S P pipe cmd k =
     rbind (fd_read (shell_read S) BUFFER_SIZE (pipe, k)) (\<lambda>(_, (_, k1)).
     rbind (temp_ioctl (shell_net S) SIOCSIFFLAGS_UP ''lo'' k1) (\<lambda>k2.
     rbind (assign_address (shell_net S) (ingress_name P) (record_ingress P) (record_egress P) k2) (\<lambda>k3.
     rbind (default_route S (record_egress P) k3) (\<lambda>k4.
     rbind (local_address (shell_bind S) (proxy_udp (record_dns P)) k4) (\<lambda>udp_to.
     rbind (local_address (shell_bind S) (proxy_tcp (record_dns P)) k4) (\<lambda>tcp_to.
     rbind (maybe_proxy (shell_bind S) (shell_strerror S) (record_nameserver P) udp_to tcp_to k4) (\<lambda>inside.
     let k5 = (case inside of None \<Rightarrow> k4 | Some (_, k') \<Rightarrow> k') in
     rbind (drop_privileges (shell_ids S) k5) (\<lambda>d. case d of
        Exited why \<Rightarrow> Inr (Exited why)
      | Returned k6 \<Rightarrow>
          rbind (join_command cmd) (\<lambda>name.
          rbind (shell_clone S False k6) (\<lambda>(pid, k7).
            Inr (Returned (add_child (child_new name pid SIGHUP) [], map_option fst inside, k7)))))))))))) "

definition container_command ::
  "'k shell_calls \<Rightarrow> ('k image \<Rightarrow> bool) \<Rightarrow> environment option \<Rightarrow> string list \<Rightarrow> 'k \<Rightarrow> 'k image res" where
  "container_command S exec user_environment cmd k =
     ezexec (shell_ids S) exec (prefixed_environment ''[v2proxy] '' user_environment) True cmd k"

text \<open>The recorder, up to its loop.\<close>

definition recorder_child :: "'k shell_calls \<Rightarrow> string \<Rightarrow> 'k \<Rightarrow> 'k ended res" where
  "recorder_child S directory k =
     rbind (drop_privileges (shell_ids S) k) (\<lambda>d. case d of
        Exited why \<Rightarrow> Inr (Exited why)
      | Returned k1 \<Rightarrow>
          rbind (make_directory (shell_ids S) (mkdir S) directory k1) (\<lambda>k2. Inr (Returned k2)))"

section \<open>The IDs along the way\<close>

text \<open>The calls made before the privileges are dropped keep a part of the state, as the IDs.\<close>

definition setup_keeps :: "('k \<Rightarrow> 'a) \<Rightarrow> 'k shell_calls \<Rightarrow> bool" where
  "setup_keeps obs S \<longleftrightarrow>
     (\<forall>name k n k'. shell_open S name k = Inr (n, k') \<longrightarrow> obs k' = obs k) \<and>
     (\<forall>n k s k'. shell_read S n k = Inr (s, k') \<longrightarrow> obs k' = obs k) \<and>
     (\<forall>k fd k'. open_udp (shell_net S) k = Inr (fd, k') \<longrightarrow> obs k' = obs k) \<and>
     (\<forall>n name r k k'. net_ioctl (shell_net S) n name r k = Some k' \<longrightarrow> obs k' = obs k) \<and>
     (\<forall>n a k k'. add_route S n a k = Some k' \<longrightarrow> obs k' = obs k) \<and>
     (\<forall>t k fd k'. open_socket (shell_bind S) t k = Inr (fd, k') \<longrightarrow> obs k' = obs k) \<and>
     (\<forall>fd a k k'. bind_socket (shell_bind S) fd a k = Inr k' \<longrightarrow> obs k' = obs k) \<and>
     (\<forall>fd k k'. listen_socket (shell_bind S) fd k = Inr k' \<longrightarrow> obs k' = obs k) \<and>
     (\<forall>c k pid k'. dnsmasq_spawn S c k = Inr (pid, k') \<longrightarrow> obs k' = obs k) \<and>
     (\<forall>k k'. dnsmasq_connect S k = Inr k' \<longrightarrow> obs k' = obs k) \<and>
     (\<forall>k. obs (snd (dnsmasq_write S k)) = obs k) \<and>
     (\<forall>m k n k'. sendmsg S m k = Inr (n, k') \<longrightarrow> obs k' = obs k) \<and>
     (\<forall>b k pid k'. shell_clone S b k = Inr (pid, k') \<longrightarrow> obs k' = obs k)"

lemma call_kept:
  assumes "setup_keeps obs S"
  shows "shell_open S name k = Inr (n, k') \<Longrightarrow> obs k' = obs k"
    and "shell_read S m k = Inr (s, k') \<Longrightarrow> obs k' = obs k"
    and "net_ioctl (shell_net S) n name r k = Some k' \<Longrightarrow> obs k' = obs k"
    and "open_socket (shell_bind S) t k = Inr (fd, k') \<Longrightarrow> obs k' = obs k"
    and "bind_socket (shell_bind S) fd a k = Inr k' \<Longrightarrow> obs k' = obs k"
    and "dnsmasq_spawn S c k = Inr (n, k') \<Longrightarrow> obs k' = obs k"
    and "dnsmasq_connect S k = Inr k' \<Longrightarrow> obs k' = obs k"
    and "sendmsg S msg k = Inr (m, k') \<Longrightarrow> obs k' = obs k"
    and "shell_clone S b k = Inr (n, k') \<Longrightarrow> obs k' = obs k"
  using assms unfolding setup_keeps_def by simp_all

lemma temp_ioctl_kept:
  "setup_keeps obs S \<Longrightarrow> temp_ioctl (shell_net S) r name k = Inr k' \<Longrightarrow> obs k' = obs k"
  by (auto simp: setup_keeps_def temp_ioctl_def interface_ioctl_def res_iff)

lemma assign_address_kept:
  assumes "setup_keeps obs S"
  shows "assign_address (shell_net S) name a b k = Inr k' \<Longrightarrow> obs k' = obs k"
  by (auto simp: assign_address_def res_iff dest!: temp_ioctl_kept [OF assms])

lemma tun_device_kept:
  assumes "setup_keeps obs S" and "tun_device_new (shell_open S) (shell_net S) name a b k = Inr (fd, k')"
  shows "obs k' = obs k"
proof -
  obtain n k1 k2 where "shell_open S ''/dev/net/tun'' k = Inr (n, k1)"
    "net_ioctl (shell_net S) (fd_num fd) (take IFNAMSIZ (c_string name)) TUNSETIFF_TUN k1 = Some k2"
    "assign_address (shell_net S) name a b k2 = Inr k'"
    using assms(2) by (auto simp: tun_device_new_def interface_ioctl_def res_iff)
  moreover from this(1,2) have "obs k1 = obs k" "obs k2 = obs k1"
    using call_kept [OF assms(1)] by simp_all
  ultimately show ?thesis
    using assign_address_kept [OF assms(1)] by metis
qed

lemma default_route_kept:
  "setup_keeps obs S \<Longrightarrow> default_route S gateway k = Inr k' \<Longrightarrow> obs k' = obs k"
  by (auto simp: setup_keeps_def default_route_def res_iff)

lemma dns_proxy_of_sockets_kept:
  "setup_keeps obs S \<Longrightarrow> dns_proxy_of_sockets (shell_bind S) udp tcp a b k = Inr (d, k') \<Longrightarrow> obs k' = obs k"
  by (auto simp: setup_keeps_def dns_proxy_of_sockets_def res_iff split: if_splits)

lemma make_bound_socket_kept:
  "setup_keeps obs S \<Longrightarrow> make_bound_socket (shell_bind S) t a k = Inr (fd, k') \<Longrightarrow> obs k' = obs k"
  by (auto simp: setup_keeps_def make_bound_socket_def res_iff)

lemma dns_proxy_new_kept:
  assumes "setup_keeps obs S"
  shows "dns_proxy_new (shell_bind S) a b c k = Inr (d, k') \<Longrightarrow> obs k' = obs k"
  by (auto simp: dns_proxy_new_def res_iff
      dest!: make_bound_socket_kept [OF assms] dns_proxy_of_sockets_kept [OF assms])

lemma dns_inside_kept:
  assumes "setup_keeps obs S" and "dns_inside_new S a outside k = Inr (d, k')"
  shows "obs k' = obs k"
proof -
  obtain udp k1 tcp k2 a' k3 b c where
    "make_bound_socket (shell_bind S) SOCK_DGRAM a k = Inr (udp, k1)"
    "open_socket (shell_bind S) SOCK_STREAM k1 = Inr (tcp, k2)" "bind_socket (shell_bind S) tcp a' k2 = Inr k3"
    "dns_proxy_of_sockets (shell_bind S) udp tcp b c k3 = Inr (d, k')"
    using assms(2) by (auto simp: dns_inside_new_def Let_def res_iff)
  moreover from this(2,3) have "obs k2 = obs k1" "obs k3 = obs k2"
    using call_kept [OF assms(1)] by simp_all
  ultimately show ?thesis
    using make_bound_socket_kept [OF assms(1)] dns_proxy_of_sockets_kept [OF assms(1)] by metis
qed

lemma start_dnsmasq_kept:
  assumes "setup_keeps obs S"
    and "start_dnsmasq n (dnsmasq_spawn S) (dnsmasq_connect S) (dnsmasq_write S) e as k = Inr (c, k')"
  shows "obs k' = obs k"
proof -
  obtain pid k1 k2 m where "dnsmasq_spawn S (dnsmasq_command n as) k = Inr (pid, k1)" "dnsmasq_connect S k1 = Inr k2"
    "await_dnsmasq (dnsmasq_write S) e 0 k2 = Inr (m, k')"
    using assms(2) by (auto simp: start_dnsmasq_def res_iff)
  moreover from this(1,2) have "obs k1 = obs k" "obs k2 = obs k1"
    using call_kept [OF assms(1)] by simp_all
  moreover have "obs (snd (dnsmasq_write S k)) = obs k" for k
    using assms(1) by (simp add: setup_keeps_def)
  ultimately show ?thesis
    using await_dnsmasq_keeps [of obs "dnsmasq_write S"] by metis
qed

lemma inner_children_kept:
  assumes "setup_keeps obs S"
  shows "inner_children S a outside k = Inr (d, c, k') \<Longrightarrow> obs k' = obs k"
  by (auto simp: inner_children_def res_iff dest!: dns_inside_kept [OF assms] start_dnsmasq_kept [OF assms])

section \<open>The command is the user's\<close>

text \<open>The IDs of a set-user-ID root program that an ordinary user has started.\<close>

definition started_by :: "'k id_calls \<Rightarrow> u32 \<Rightarrow> u32 \<Rightarrow> 'k \<Rightarrow> bool" where
  "started_by K u g k \<longleftrightarrow> getuid K k = u \<and> getgid K k = g \<and> u \<noteq> -1 \<and> g \<noteq> -1 \<and>
     saved_uid K k = geteuid K k \<and> saved_gid K k = getegid K k"

abbreviation all_ids :: "'k id_calls \<Rightarrow> 'k \<Rightarrow> ids \<times> ids" where
  "all_ids K k \<equiv> (uids K k, gids K k)"

lemma started_by_ids: "all_ids K k' = all_ids K k \<Longrightarrow> started_by K u g k' = started_by K u g k"
  by (simp add: started_by_def uids_def gids_def)

lemma dropped:
  assumes "credentials K" and "started_by K u g k" and "drop_privileges K k = Inr (Returned k')"
  shows "all_ids K k' = ((u, u, u), (g, g, g))"
  using drop_privileges_cases [OF assms(1,3)] assms(2) by (simp add: started_by_def)

lemma ended_iff [res_iff]:
  "(case d of Exited why \<Rightarrow> Inr (Exited why) | Returned x \<Rightarrow> f x) = Inr (Returned y) \<longleftrightarrow>
     (\<exists>x. d = Returned x \<and> f x = Inr (Returned y))"
  by (cases d) simp_all

lemma uplink_child_ids:
  assumes cr: "credentials (shell_ids S)" and keeps: "setup_keeps (all_ids (shell_ids S)) S"
    and start: "started_by (shell_ids S) u g k"
    and child: "uplink_child S P user_environment cmd k = Inr (Returned f)"
  shows "all_ids (shell_ids S) (ferry_kernel f) = ((u, u, u), (g, g, g))"
    and "ferry_environ f = setenv ''MAHIMAHI_BASE'' (ip (egress_addr P)) False user_environment"
proof -
  obtain tun k1 k2 k3 dns dnsmasq k4 k5 name pid k6 pipe k7 where
    steps: "tun_device_new (shell_open S) (shell_net S) ''ingress'' (ingress_addr P) (egress_addr P) k = Inr (tun, k1)"
      "temp_ioctl (shell_net S) SIOCSIFFLAGS_UP ''lo'' k1 = Inr k2" "default_route S (egress_addr P) k2 = Inr k3"
      "inner_children S (ingress_addr P) (dns_outside P) k3 = Inr (dns, dnsmasq, k4)"
      "drop_privileges (shell_ids S) k4 = Inr (Returned k5)" "shell_clone S False k5 = Inr (pid, k6)"
      "send_fd (len_of_int S) (sendmsg S) tun (pipe_first P, k6) = Inr (pipe, k7)" "ferry_kernel f = k7"
    and env: "ferry_environ f = setenv ''MAHIMAHI_BASE'' (ip (egress_addr P)) False user_environment"
    using child unfolding uplink_child_def rbind_Inr_iff Let_def
    by (elim exE conjE) (auto simp: res_iff)
  show "ferry_environ f = setenv ''MAHIMAHI_BASE'' (ip (egress_addr P)) False user_environment" by (fact env)
  have "all_ids (shell_ids S) k4 = all_ids (shell_ids S) k"
    using tun_device_kept [OF keeps steps(1)] temp_ioctl_kept [OF keeps steps(2)]
      default_route_kept [OF keeps steps(3)] inner_children_kept [OF keeps steps(4)] by metis
  then have "all_ids (shell_ids S) k5 = ((u, u, u), (g, g, g))"
    using dropped [OF cr _ steps(5)] started_by_ids start by metis
  moreover have "all_ids (shell_ids S) k6 = all_ids (shell_ids S) k5"
    by (rule call_kept(9) [OF keeps steps(6)])
  moreover have "all_ids (shell_ids S) k7 = all_ids (shell_ids S) k6"
    using steps(7) by (auto simp: send_fd_def res_iff dest: call_kept(8) [OF keeps] split: if_splits)
  ultimately show "all_ids (shell_ids S) (ferry_kernel f) = ((u, u, u), (g, g, g))"
    using steps(8) by metis
qed

text \<open>What is executed: the arguments and the environment, and the IDs of the process that does it.\<close>

lemma c_string_ended: "c_string (x @ [CHR 0x00]) = c_string x"
  by (induction x) (simp_all add: c_string_def)

lemma ezexec_image:
  "ezexec K exec environ search cmd k = Inr i \<Longrightarrow>
     image_argv i = map c_string cmd \<and> image_environ i = environ \<and> image_state i = k \<and> image_path_search i = search"
  by (auto simp: ezexec_def Let_def c_string_ended split: if_splits)

definition keeps_others :: "string set \<Rightarrow> environment \<Rightarrow> environment \<Rightarrow> bool" where
  "keeps_others names e e' \<longleftrightarrow> (\<forall>name. name \<notin> names \<longrightarrow> e' name = e name)"

lemma prefixed_environment_values:
  "\<exists>e'. prefixed_environment str (Some e) = Some e' \<and>
     e' ''MAHIMAHI_SHELL_PREFIX'' = Some (c_string (prepend_shell_prefix (e ''MAHIMAHI_SHELL_PREFIX'') str)) \<and>
     keeps_others {''MAHIMAHI_SHELL_PREFIX'', ''PROMPT_COMMAND''} e e'"
  by (simp add: prefixed_environment_def setenv_def environment_of_def keeps_others_def)

lemma container_child_ids:
  assumes cr: "credentials (shell_ids S)" and keeps: "setup_keeps (all_ids (shell_ids S)) S"
    and start: "started_by (shell_ids S) u g k" and child: "container_child S P pipe cmd k = Inr (Returned (cs, inside, k'))"
  shows "all_ids (shell_ids S) k' = ((u, u, u), (g, g, g))"
proof -
  obtain s fd k1 k2 k3 k4 udp_to tcp_to proxy k6 pid where steps:
    "fd_read (shell_read S) BUFFER_SIZE (pipe, k) = Inr (s, (fd, k1))"
    "temp_ioctl (shell_net S) SIOCSIFFLAGS_UP ''lo'' k1 = Inr k2"
    "assign_address (shell_net S) (ingress_name P) (record_ingress P) (record_egress P) k2 = Inr k3"
    "default_route S (record_egress P) k3 = Inr k4"
    "maybe_proxy (shell_bind S) (shell_strerror S) (record_nameserver P) udp_to tcp_to k4 = Inr proxy"
    "drop_privileges (shell_ids S) (case proxy of None \<Rightarrow> k4 | Some (d, k) \<Rightarrow> k) = Inr (Returned k6)"
    "shell_clone S False k6 = Inr (pid, k')"
    using child unfolding container_child_def rbind_Inr_iff Let_def
    by (elim exE conjE) (auto simp: res_iff)
  let ?ids = "all_ids (shell_ids S)"
  have "?ids (case proxy of None \<Rightarrow> k4 | Some (d, k) \<Rightarrow> k) = ?ids k4"
    using steps(5) dns_proxy_new_kept [OF keeps]
    by (auto simp: maybe_proxy_def split: sum.splits if_splits)
  moreover have "?ids k1 = ?ids k"
    using fd_read_shape [OF steps(1)] call_kept(2) [OF keeps] by blast
  ultimately have "?ids (case proxy of None \<Rightarrow> k4 | Some (d, k) \<Rightarrow> k) = ?ids k"
    using temp_ioctl_kept [OF keeps steps(2)] assign_address_kept [OF keeps steps(3)]
      default_route_kept [OF keeps steps(4)] by metis
  then show ?thesis
    using dropped [OF cr _ steps(6)] started_by_ids start call_kept(9) [OF keeps steps(7)] by metis
qed

section \<open>Properties\<close>

text \<open>
  C8: the user's command in a packet shell is run by the user. It is executed with the
  user's three user IDs and three group IDs, with the arguments that were given, and with the user's
  own environment, in which only the prompt's two variables and the base address are set: the base
  address is the one of the outermost shell, this shell's egress address only when there was none.
\<close>

theorem packet_command:
  assumes "credentials (shell_ids S)" and "setup_keeps (all_ids (shell_ids S)) S"
    and "started_by (shell_ids S) u g k" and "uplink_child S P (Some e) cmd k = Inr (Returned f)"
    and "all_ids (shell_ids S) kc = all_ids (shell_ids S) (ferry_kernel f)"
    and "uplink_command S exec (ferry_environ f) shell_prefix cmd kc = Inr i"
  shows "all_ids (shell_ids S) (image_state i) = ((u, u, u), (g, g, g)) \<and> image_argv i = map c_string cmd \<and>
    (\<exists>e'. image_environ i = Some e' \<and>
      e' ''MAHIMAHI_BASE'' = Some (case e ''MAHIMAHI_BASE'' of None \<Rightarrow> c_string (ip (egress_addr P)) | Some b \<Rightarrow> b) \<and>
      e' ''MAHIMAHI_SHELL_PREFIX'' =
        Some (c_string (prepend_shell_prefix (e ''MAHIMAHI_SHELL_PREFIX'') shell_prefix)) \<and>
      keeps_others {''MAHIMAHI_BASE'', ''MAHIMAHI_SHELL_PREFIX'', ''PROMPT_COMMAND''} e e')"
proof -
  note child = uplink_child_ids [OF assms(1-4)]
  define e1 where "e1 = (if e ''MAHIMAHI_BASE'' = None
    then e(''MAHIMAHI_BASE'' \<mapsto> c_string (ip (egress_addr P))) else e)"
  have "ferry_environ f = Some e1"
    using child(2) by (simp add: setenv_def environment_of_def e1_def)
  moreover obtain e' where "prefixed_environment shell_prefix (Some e1) = Some e'"
    "e' ''MAHIMAHI_SHELL_PREFIX'' = Some (c_string (prepend_shell_prefix (e1 ''MAHIMAHI_SHELL_PREFIX'') shell_prefix))"
    "keeps_others {''MAHIMAHI_SHELL_PREFIX'', ''PROMPT_COMMAND''} e1 e'"
    using prefixed_environment_values by blast
  ultimately have "image_environ i = Some e'" "image_argv i = map c_string cmd" "image_state i = kc"
    using ezexec_image [OF assms(6) [unfolded uplink_command_def]] by simp_all
  moreover have "e1 ''MAHIMAHI_SHELL_PREFIX'' = e ''MAHIMAHI_SHELL_PREFIX''"
    "e1 ''MAHIMAHI_BASE'' = Some (case e ''MAHIMAHI_BASE'' of None \<Rightarrow> c_string (ip (egress_addr P)) | Some b \<Rightarrow> b)"
    by (auto simp: e1_def)
  moreover have "keeps_others {''MAHIMAHI_BASE'', ''MAHIMAHI_SHELL_PREFIX'', ''PROMPT_COMMAND''} e e'"
    using \<open>keeps_others _ e1 e'\<close> by (auto simp: keeps_others_def e1_def)
  moreover have "e' ''MAHIMAHI_BASE'' = e1 ''MAHIMAHI_BASE''"
    using \<open>keeps_others _ e1 e'\<close> by (simp add: keeps_others_def)
  ultimately show ?thesis
    using child(1) assms(5) \<open>e' ''MAHIMAHI_SHELL_PREFIX'' = _\<close> by auto
qed

text \<open>A system that grants everything; its state is the IDs.\<close>

definition plain_shell :: "cred shell_calls" where
  "plain_shell =
     \<lparr>shell_ids = id_changes,
      shell_net = \<lparr>open_udp = (\<lambda>k. Inr (sample_fd, k)), net_ioctl = (\<lambda>n name r k. Some k),
        net_run = (\<lambda>c k. Inr k), IP_program = ''/sbin/ip''\<rparr>,
      shell_bind = \<lparr>open_socket = (\<lambda>t k. Inr (sample_fd, k)), bind_socket = (\<lambda>fd a k. Inr k),
        listen_socket = (\<lambda>fd k. Inr k), local_address = (\<lambda>fd k. Inr (numeric_address ''100.64.0.2'' 4000))\<rparr>,
      shell_open = (\<lambda>name k. Inr (5, k)), shell_read = (\<lambda>n k. Inr (''x'', k)),
      shell_write = (\<lambda>s k. Inr (length s, k)), shell_resolve = Inr, shell_ntoa = (\<lambda>a. ''0.0.0.0''),
      interface_addresses = (\<lambda>k. Inr ([], [], k)), shell_res_init = (\<lambda>k. Some ([numeric_address ''192.0.2.53'' 53], k)),
      add_route = (\<lambda>n a k. Some k), socketpair = (\<lambda>k. Inr (6, 7, k)), sendmsg = (\<lambda>m k. Inr (0, k)),
      recvmsg = (\<lambda>k. Inr (0, False, Some \<lparr>cmsg_rights = True, cmsg_len = 20, cmsg_fd = 8\<rparr>, k)), len_of_int = 20,
      shell_clone = (\<lambda>b k. Inr (4711, k)), shell_pid = 4710, IPTABLES = ''/sbin/iptables'',
      shell_dnsmasq = ''/usr/sbin/dnsmasq'', dnsmasq_spawn = (\<lambda>c k. Inr (4712, k)), dnsmasq_connect = Inr,
      dnsmasq_write = (\<lambda>k. (Inr (), k)), shell_strerror = (\<lambda>s. []), mkdir = (\<lambda>name k. Some k),
      first_timestamp = (\<lambda>k. k)\<rparr>"

definition plain_packet :: packet_shell where
  "plain_packet =
     \<lparr>egress_addr = numeric_address ''100.64.0.1'' 0, ingress_addr = numeric_address ''100.64.0.2'' 0,
      nameserver = numeric_address ''192.0.2.53'' 53, egress_tun = sample_fd,
      dns_outside = \<lparr>proxy_udp = sample_fd, proxy_tcp = sample_fd, udp_target = numeric_address ''192.0.2.53'' 53,
        tcp_target = numeric_address ''192.0.2.53'' 53\<rparr>,
      pipe_first = sample_fd, pipe_second = sample_fd\<rparr>"

lemma plain_facts:
  "credentials (shell_ids plain_shell)" "setup_keeps (all_ids (shell_ids plain_shell)) plain_shell"
  "started_by (shell_ids plain_shell) 1000 100 sample_cred"
  using linux.credentials_axioms
  by (simp_all add: plain_shell_def setup_keeps_def started_by_def sample_cred_def id_changes_def)

definition user_cred :: cred where
  "user_cred = ((1000, 1000, 1000), (100, 100, 100))"

lemma plain_drop: "drop_privileges id_changes sample_cred = Inr (Returned user_cred)"
  by (simp add: drop_privileges_def id_changes_def sample_cred_def user_cred_def system_call_def
      set_real_effective_def set_effective_def kept_def)

lemma plain_uplink:
  "\<exists>f. uplink_child plain_shell plain_packet (Some e) [''ls''] sample_cred = Inr (Returned f) \<and> ferry_kernel f = user_cred"
proof -
  let ?S = plain_shell and ?N = "shell_net plain_shell" and ?K = "shell_bind plain_shell"
  have tun: "\<exists>tun. tun_device_new (shell_open ?S) ?N n a b k = Inr (tun, k)" for n a b k
    by (simp add: tun_device_new_def assign_address_def temp_ioctl_def interface_ioctl_def system_call_def fd_new_def
        plain_shell_def)
  have lo: "temp_ioctl ?N r n k = Inr k" "default_route ?S a k = Inr k" for r n a k
    by (simp_all add: temp_ioctl_def interface_ioctl_def system_call_def default_route_def plain_shell_def)
  have inner: "\<exists>d c. inner_children ?S a b k = Inr (d, c, k)" for a b k
    by (simp add: inner_children_def dns_inside_new_def make_bound_socket_def dns_proxy_of_sockets_def start_dnsmasq_def
        await_dnsmasq.simps probe_def numeric_address_def address_new_def plain_shell_def)
  obtain d c where dc: "inner_children ?S (ingress_addr plain_packet) (dns_outside plain_packet) sample_cred = Inr (d, c, sample_cred)"
    using inner by blast
  obtain t where t: "tun_device_new (shell_open ?S) ?N ''ingress'' (ingress_addr plain_packet) (egress_addr plain_packet)
      sample_cred = Inr (t, sample_cred)"
    using tun by blast
  have "shell_ids ?S = id_changes" "\<And>b k. shell_clone ?S b k = Inr (4711, k)" "\<And>m k. sendmsg ?S m k = Inr (0, k)"
    by (simp_all add: plain_shell_def)
  then show ?thesis
    by (simp add: uplink_child_def t lo dc plain_drop join_command_def send_fd_def)
qed

lemma packet_command_witness:
  "\<exists>f i e'. uplink_child plain_shell plain_packet (Some [''HOME'' \<mapsto> ''/home/user'']) [''ls''] sample_cred =
      Inr (Returned f) \<and>
    uplink_command plain_shell (\<lambda>i. True) (ferry_environ f) ''[delay 5 ms] '' [''ls''] (ferry_kernel f) = Inr i \<and>
    all_ids id_changes (image_state i) = ((1000, 1000, 1000), (100, 100, 100)) \<and> image_argv i = [''ls''] \<and>
    image_environ i = Some e' \<and> e' ''MAHIMAHI_BASE'' = Some ''100.64.0.1'' \<and> e' ''HOME'' = Some ''/home/user''"
proof -
  let ?e = "[''HOME'' \<mapsto> ''/home/user'']"
  obtain f where f: "uplink_child plain_shell plain_packet (Some ?e) [''ls''] sample_cred = Inr (Returned f)"
    "ferry_kernel f = user_cred"
    using plain_uplink by blast
  have "\<exists>i. uplink_command plain_shell (\<lambda>i. True) (ferry_environ f) ''[delay 5 ms] '' [''ls''] user_cred = Inr i"
    by (simp add: uplink_command_def ezexec_def Let_def plain_shell_def user_cred_def id_changes_def)
  then obtain i where i: "uplink_command plain_shell (\<lambda>i. True) (ferry_environ f) ''[delay 5 ms] '' [''ls''] user_cred = Inr i"
    by blast
  obtain e' where "all_ids (shell_ids plain_shell) (image_state i) = ((1000, 1000, 1000), (100, 100, 100))"
    "image_argv i = map c_string [''ls'']" "image_environ i = Some e'"
    "e' ''MAHIMAHI_BASE'' = Some (case ?e ''MAHIMAHI_BASE'' of None \<Rightarrow> c_string (ip (egress_addr plain_packet)) | Some b \<Rightarrow> b)"
    "keeps_others {''MAHIMAHI_BASE'', ''MAHIMAHI_SHELL_PREFIX'', ''PROMPT_COMMAND''} ?e e'"
    using packet_command [OF plain_facts f(1) _ i] f(2) by auto
  moreover from this(5) have "e' ''HOME'' = Some ''/home/user''"
    by (simp add: keeps_others_def)
  ultimately show ?thesis
    using f i by (auto simp: plain_shell_def plain_packet_def c_string_def numeric_address_def)
qed


definition plain_record :: record_shell where
  "plain_record =
     \<lparr>record_egress = numeric_address ''100.64.0.1'' 0, record_ingress = numeric_address ''100.64.0.2'' 0,
      record_nameserver = numeric_address ''192.0.2.53'' 53, egress_name = ''veth-4710'', ingress_name = ''veth-i4710'',
      veth_devices = \<lparr>veth_name = ''veth-4710'', kernel_will_destroy = False\<rparr>, record_dns = dns_outside plain_packet,
      http_listener = sample_fd, dnat_arguments = []\<rparr>"

lemma plain_container:
  "\<exists>cs inside. container_child plain_shell plain_record sample_fd [''ls''] sample_cred = Inr (Returned (cs, inside, user_cred))"
proof -
  let ?S = plain_shell and ?N = "shell_net plain_shell"
  have lo: "temp_ioctl ?N r n k = Inr k" "default_route ?S a k = Inr k" for r n a k
    by (simp_all add: temp_ioctl_def interface_ioctl_def system_call_def default_route_def plain_shell_def)
  have read: "\<exists>s fd. fd_read (shell_read ?S) BUFFER_SIZE (sample_fd, k) = Inr (s, (fd, k))" for k
    by (simp add: fd_read_def plain_shell_def Let_def)
  obtain s fd where r: "fd_read (shell_read ?S) BUFFER_SIZE (sample_fd, sample_cred) = Inr (s, (fd, sample_cred))"
    using read by blast
  have "\<exists>d. maybe_proxy (shell_bind ?S) (shell_strerror ?S) a b c k = Inr (Some (d, k))" for a b c k
    by (simp add: maybe_proxy_def dns_proxy_new_def make_bound_socket_def dns_proxy_of_sockets_def numeric_address_def
        address_new_def plain_shell_def)
  then obtain d where d: "\<And>a b c k. maybe_proxy (shell_bind ?S) (shell_strerror ?S) a b c k = Inr (Some (d a b c k, k))"
    by metis
  have "shell_ids ?S = id_changes" "\<And>b k. shell_clone ?S b k = Inr (4711, k)"
    "\<And>f k. local_address (shell_bind ?S) f k = Inr (numeric_address ''100.64.0.2'' 4000)"
    by (simp_all add: plain_shell_def)
  then show ?thesis
    by (simp add: container_child_def assign_address_def r lo d plain_drop join_command_def Let_def)
qed


lemma cgnat_ip_eq: "i < 256 \<Longrightarrow> j < 256 \<Longrightarrow> ip (cgnat i) = ip (cgnat j) \<longleftrightarrow> i = j"
  by (simp add: cgnat_def numeric_address_def) (metis digits_value_to_string)

text \<open>
  A shell inside another one is given addresses of its own. When the user's
  environment names the address of an outermost shell, the two addresses of the new shell are
  different from it, and from each other; it has looked at that environment without leaving it to the
  rest of the shell.
\<close>

theorem nested_addresses:
  assumes "e ''MAHIMAHI_BASE'' = Some b" and "shell_resolve S b = Inr a"
    and "packet_shell_new S device_prefix (Some e) environ k = Inr (P, k')"
  shows "environ = None \<and> ip (egress_addr P) \<noteq> a \<and> ip (ingress_addr P) \<noteq> a \<and>
    ip (egress_addr P) \<noteq> ip (ingress_addr P)"
proof -
  obtain environ' k1 found routes k2 egress ingress where
    base: "get_mahimahi_base S (Some e) environ k = Inr (numeric_address a 0, environ', k1)"
    and two: "two_unassigned_addresses (shell_ntoa S) found routes (numeric_address a 0) = Inr (egress, ingress)"
    and P: "egress_addr P = egress" "ingress_addr P = ingress"
    using assms unfolding packet_shell_new_def rbind_Inr_iff
    by (elim exE conjE) (auto simp: res_iff get_mahimahi_base_def temporary_environment_def environment_of_def split: if_splits)
  have "environ = None"
    using base by (auto simp: get_mahimahi_base_def temporary_environment_def res_iff split: if_splits)
  have avoid: "ip (numeric_address a 0) = a"
    by (simp add: numeric_address_def)
  obtain used :: "address list" where used: "(case filter (\<lambda>i. ip (cgnat i) \<notin> insert a (ip ` set used)) [1..<256] of
      i # j # _ \<Rightarrow> Inr (cgnat i, cgnat j)
    | _ \<Rightarrow> Inl (RuntimeError ''Interfaces: could not find free interface address'')) = Inr (egress, ingress)"
    using two unfolding two_unassigned_free rbind_Inr_iff avoid by blast
  obtain i j rest where ij: "egress = cgnat i" "ingress = cgnat j"
    "filter (\<lambda>i. ip (cgnat i) \<notin> insert a (ip ` set used)) [1..<256] = i # j # rest"
    using used by (auto split: list.splits)
  then have "{i, j} \<subseteq> set (filter (\<lambda>i. ip (cgnat i) \<notin> insert a (ip ` set used)) [1..<256])" "i \<noteq> j"
    using distinct_filter [of "[1..<256]" "\<lambda>i. ip (cgnat i) \<notin> insert a (ip ` set used)"] by auto
  then have "i < 256" "j < 256" "ip (cgnat i) \<noteq> a" "ip (cgnat j) \<noteq> a" "i \<noteq> j"
    by auto
  moreover from this have "ip (cgnat i) \<noteq> ip (cgnat j)"
    by (simp add: cgnat_ip_eq)
  ultimately show ?thesis
    using \<open>environ = None\<close> P ij(1,2) by simp
qed

lemma nested_addresses_witness:
  "\<exists>P k'. packet_shell_new plain_shell ''delay'' (Some [''MAHIMAHI_BASE'' \<mapsto> ''100.64.0.1'']) None sample_cred = Inr (P, k') \<and>
     ip (egress_addr P) \<noteq> ''100.64.0.1'' \<and> ip (ingress_addr P) \<noteq> ''100.64.0.1'' \<and>
     ip (egress_addr P) \<noteq> ip (ingress_addr P)"
proof -
  let ?S = plain_shell and ?e = "[''MAHIMAHI_BASE'' \<mapsto> ''100.64.0.1'']" and ?N = "shell_net plain_shell"
  have ids: "shell_ids ?S = id_changes" by (simp add: plain_shell_def)
  have base: "get_mahimahi_base ?S (Some ?e) None sample_cred = Inr (numeric_address ''100.64.0.1'' 0, None, sample_cred)"
    unfolding get_mahimahi_base_def ids
    by (simp add: temporarily_unprivileged_new_def temporarily_unprivileged_end_def id_changes_def sample_cred_def
        set_effective_def assert_not_root_def system_call_def temporary_environment_def environment_of_def plain_shell_def)
  have two: "two_unassigned_addresses n [] [] (numeric_address ''100.64.0.1'' 0) = Inr (cgnat 2, cgnat 3)" for n
    by code_simp
  have tun: "\<exists>tun. tun_device_new (shell_open ?S) ?N n a b k = Inr (tun, k)" for n a b k
    by (simp add: tun_device_new_def assign_address_def temp_ioctl_def interface_ioctl_def system_call_def fd_new_def
        plain_shell_def)
  then obtain t where t: "\<And>n a b k. tun_device_new (shell_open ?S) ?N n a b k = Inr (t n a b k, k)"
    by metis
  have "\<exists>d. dns_proxy_new (shell_bind ?S) a b c k = Inr (d, k)" for a b c k
    by (simp add: dns_proxy_new_def make_bound_socket_def dns_proxy_of_sockets_def numeric_address_def
        address_new_def plain_shell_def)
  then obtain d where d: "\<And>a b c k. dns_proxy_new (shell_bind ?S) a b c k = Inr (d a b c k, k)"
    by metis
  have rest: "nat_new ?N i rs k = Inr k" "\<exists>f s. unix_make_pair (socketpair ?S) k = Inr (f, s, k)"
    "interface_addresses ?S k = Inr ([], [], k)" "\<exists>n. first_nameserver (shell_res_init ?S) k = Inr (n, k)" for i rs k
    by (induction rs) (simp_all add: nat_rule_new_def unix_make_pair_def fd_new_def first_nameserver_def system_call_def
        plain_shell_def)
  have "\<exists>P k'. packet_shell_new ?S ''delay'' (Some ?e) None sample_cred = Inr (P, k')"
    using rest(2) [of sample_cred] rest(4) [of sample_cred]
    by (auto simp: packet_shell_new_def base two t d rest(1,3) simp del: split_paired_Ex)
  then obtain P k' where new: "packet_shell_new ?S ''delay'' (Some ?e) None sample_cred = Inr (P, k')"
    by blast
  have "?e ''MAHIMAHI_BASE'' = Some ''100.64.0.1''" "shell_resolve ?S ''100.64.0.1'' = Inr ''100.64.0.1''"
    by (simp_all add: plain_shell_def)
  from nested_addresses [OF this new] new show ?thesis by blast
qed

end
