(* ===== verification/Replay.thy ===== *)
theory Replay
  imports Http_Proxy "HOL-Library.Sublist"
begin

text \<open>
  The server of a replayed recording, \<open>src/src/frontend/replayserver.cc\<close>: for each request it
  scores every stored exchange and answers with the response of the best one. The environment
  variables the web server sets are the argument \<open>getenv\<close>; the directory of the recording is a
  list of file names with what the file parses to, \<^const>\<open>None\<close> when it is no exchange; the text
  \<open>print_exception\<close> writes is the argument \<open>describe\<close>.

  The scoring is shown equivalent to a plain specification: which exchanges are acceptable, and
  how long their request line agrees with the one received.
\<close>

type_synonym getenv = "string \<Rightarrow> string option"

definition safe_getenv :: "getenv \<Rightarrow> string \<Rightarrow> string res" where
  "safe_getenv getenv key =
     (case getenv key of
        None \<Rightarrow> Inl (RuntimeError (''missing environment variable: '' @ key))
      | Some v \<Rightarrow> Inr v)"

definition header_match :: "getenv \<Rightarrow> string \<Rightarrow> string \<Rightarrow> http_message \<Rightarrow> bool res" where
  "header_match getenv env_var_name header_name saved_request =
     rbind (has_header header_name saved_request) (\<lambda>has.
       case getenv env_var_name of
         None \<Rightarrow> Inr (\<not> has)
       | Some env_value \<Rightarrow>
           if has then rbind (get_header_value header_name saved_request) (\<lambda>v. Inr (v = env_value))
           else Inr False)"

definition strip_query :: "string \<Rightarrow> string res" where
  "strip_query request_line =
     (case str_find request_line ''?'' of
        None \<Rightarrow> Inr request_line
      | Some index \<Rightarrow> substr request_line 0 index)"

text \<open>The loop over the common prefix, for lines of fewer than \<open>2 ^ 32\<close> bytes.\<close>

fun common_prefix :: "string \<Rightarrow> string \<Rightarrow> nat" where
  "common_prefix (a # as) (b # bs) = (if a \<noteq> b then 0 else common_prefix as bs + 1)"
| "common_prefix _ _ = 0"

definition match_score :: "getenv \<Rightarrow> stored_exchange \<Rightarrow> string \<Rightarrow> bool \<Rightarrow> u32 res" where
  "match_score getenv saved_record request_line is_https =
     (let saved_request = message_of_protobuf (stored_request saved_record)
      in if is_https \<and> \<not> stored_https saved_record then Inr 0
         else if \<not> is_https \<and> stored_https saved_record then Inr 0
         else
           rbind (header_match getenv ''HTTP_HOST'' ''Host'' saved_request) (\<lambda>host.
           if \<not> host then Inr 0
           else rbind (header_match getenv ''HTTP_USER_AGENT'' ''User-Agent'' saved_request) (\<lambda>agent.
           if \<not> agent then Inr 0
           else rbind (strip_query request_line) (\<lambda>a. rbind (strip_query (first_line saved_request)) (\<lambda>b.
             if a \<noteq> b then Inr 0
             else Inr (of_nat (common_prefix request_line (first_line saved_request))))))))"

text \<open>The loop over the files, with the best score and match so far.\<close>

fun best_match_loop ::
  "getenv \<Rightarrow> string \<Rightarrow> bool \<Rightarrow> (string \<times> stored_exchange option) list \<Rightarrow>
     u32 \<times> stored_exchange option \<Rightarrow> (u32 \<times> stored_exchange option) res" where
  "best_match_loop getenv request_line is_https [] best = Inr best"
| "best_match_loop getenv request_line is_https ((filename, file) # files) best =
     (case file of
        None \<Rightarrow> Inl (RuntimeError (filename @ '': invalid HTTP request/response''))
      | Some current_record \<Rightarrow>
          rbind (match_score getenv current_record request_line is_https) (\<lambda>score.
            best_match_loop getenv request_line is_https files
              (if fst best < score then (score, Some current_record) else best)))"

text \<open>The request line is put together from three variables.\<close>

definition request_line_of :: "getenv \<Rightarrow> string res" where
  "request_line_of getenv =
     rbind (safe_getenv getenv ''REQUEST_METHOD'') (\<lambda>m.
     rbind (safe_getenv getenv ''REQUEST_URI'') (\<lambda>u.
     rbind (safe_getenv getenv ''SERVER_PROTOCOL'') (\<lambda>p.
       Inr (m @ '' '' @ u @ '' '' @ p))))"

definition replay_answer ::
  "getenv \<Rightarrow> (string \<Rightarrow> (string \<times> stored_exchange option) list res) \<Rightarrow> (string \<times> bool) res" where
  "replay_answer getenv list_directory =
     rbind (safe_getenv getenv ''MAHIMAHI_CHDIR'') (\<lambda>_.
     rbind (safe_getenv getenv ''MAHIMAHI_RECORD_PATH'') (\<lambda>dir.
     rbind (request_line_of getenv) (\<lambda>request_line.
     rbind (list_directory dir) (\<lambda>files.
     rbind (best_match_loop getenv request_line (getenv ''HTTPS'' \<noteq> None) files (0, None))
       (\<lambda>(best_score, best).
         case (0 < best_score, best) of
           (True, Some r) \<Rightarrow>
             rbind (message_str (message_of_protobuf (stored_response r))) (\<lambda>text. Inr (text, True))
         | _ \<Rightarrow>
             Inr (''HTTP/1.1 404 Not Found'' @ CRLF @ ''Content-Type: text/plain'' @ CRLF @ CRLF @
               ''replayserver: could not find a match for '' @ request_line @ CRLF, False))))))"

text \<open>What the server writes and whether it exits successfully.\<close>

definition replay_main ::
  "(err \<Rightarrow> string) \<Rightarrow> getenv \<Rightarrow> (string \<Rightarrow> (string \<times> stored_exchange option) list res) \<Rightarrow> string \<times> bool"
where
  "replay_main describe getenv list_directory =
     (case replay_answer getenv list_directory of
        Inr r \<Rightarrow> r
      | Inl e \<Rightarrow>
          (''HTTP/1.1 500 Internal Server Error'' @ CRLF @ ''Content-Type: text/plain'' @ CRLF @ CRLF @
           ''mahimahi mm-webreplay received an exception:'' @ CRLF @ CRLF @ describe e, False))"

section \<open>The specification\<close>

text \<open>The value of a header, and whether it agrees with a variable.\<close>

definition header_of :: "string \<Rightarrow> http_header list \<Rightarrow> string option" where
  "header_of name hs =
     map_option header_value (find (\<lambda>h. canonical (header_key h) = canonical name) hs)"

definition before_query :: "string \<Rightarrow> string" where
  "before_query s = takeWhile (\<lambda>c. c \<noteq> CHR ''?'') s"

definition acceptable :: "getenv \<Rightarrow> string \<Rightarrow> bool \<Rightarrow> stored_exchange \<Rightarrow> bool" where
  "acceptable getenv request_line is_https r \<longleftrightarrow>
     stored_https r = is_https \<and>
     header_of ''Host'' (proto_header (stored_request r)) = getenv ''HTTP_HOST'' \<and>
     header_of ''User-Agent'' (proto_header (stored_request r)) = getenv ''HTTP_USER_AGENT'' \<and>
     before_query (proto_first_line (stored_request r)) = before_query request_line"

definition agreement :: "string \<Rightarrow> stored_exchange \<Rightarrow> nat" where
  "agreement request_line r =
     length (longest_common_prefix request_line (proto_first_line (stored_request r)))"

lemma common_prefix_length: "common_prefix a b = length (longest_common_prefix a b)"
  by (induction a b rule: common_prefix.induct) auto

lemma strip_query_eq: "strip_query s = Inr (before_query s)"
proof (cases "CHR ''?'' \<in> set s")
  case True
  moreover have "take (length (takeWhile (\<lambda>c. c \<noteq> CHR ''?'') s)) s = takeWhile (\<lambda>c. c \<noteq> CHR ''?'') s"
    by (simp only: takeWhile_eq_take [symmetric])
  ultimately show ?thesis
    by (simp add: strip_query_def str_find_char before_query_def substr_def)
next
  case False
  then have "before_query s = s"
    by (auto simp: before_query_def takeWhile_eq_all_conv)
  then show ?thesis
    using False by (simp add: strip_query_def str_find_char)
qed

lemma has_header_of: "has_header name m = Inr (header_of name (headers m) \<noteq> None)"
  using find_None_iff [of "\<lambda>h. canonical (header_key h) = canonical name" "headers m"]
  by (auto simp: has_header_def has_header_in_iff header_of_def)

lemma get_header_of:
  "header_of name (headers m) = Some v \<Longrightarrow> get_header_value name m = Inr v"
  by (auto simp: get_header_value_def get_header_value_in_find header_of_def)

lemma header_match_eq:
  "header_match getenv var name m = Inr (header_of name (headers m) = getenv var)"
  by (cases "header_of name (headers m)"; cases "getenv var")
     (simp_all add: header_match_def has_header_of get_header_of)

lemma match_score_eq:
  "match_score getenv r request_line is_https =
     Inr (if acceptable getenv request_line is_https r then of_nat (agreement request_line r) else 0)"
  by (auto simp: match_score_def Let_def header_match_eq strip_query_eq message_of_protobuf_def
      acceptable_def agreement_def common_prefix_length)


section \<open>The best match\<close>

text \<open>
  The answer of the loop as a specification: the first of the acceptable exchanges whose agreement
  no other one exceeds. \<open>good r\<close> and \<open>score r\<close> stand for acceptability and agreement.
\<close>

definition first_best :: "('r \<Rightarrow> bool) \<Rightarrow> ('r \<Rightarrow> nat) \<Rightarrow> 'r list \<Rightarrow> 'r option \<Rightarrow> bool" where
  "first_best good score rs best \<longleftrightarrow>
     (case best of
        None \<Rightarrow> \<forall>r \<in> set rs. \<not> good r
      | Some b \<Rightarrow> \<exists>before behind. rs = before @ b # behind \<and> good b \<and>
          (\<forall>r \<in> set before. good r \<longrightarrow> score r < score b) \<and>
          (\<forall>r \<in> set behind. good r \<longrightarrow> score r \<le> score b))"

lemma first_best_snoc:
  assumes "first_best good score rs best"
  shows "first_best good score (rs @ [r])
    (if good r \<and> (case best of None \<Rightarrow> True | Some b \<Rightarrow> score b < score r) then Some r else best)"
proof (cases best)
  case None
  then show ?thesis
    using assms by (fastforce simp: first_best_def)
next
  case (Some b)
  with assms obtain before behind where b: "rs = before @ b # behind" "good b"
    "\<forall>r \<in> set before. good r \<longrightarrow> score r < score b" "\<forall>r \<in> set behind. good r \<longrightarrow> score r \<le> score b"
    by (auto simp: first_best_def)
  show ?thesis
  proof (cases "good r \<and> score b < score r")
    case True
    then have "\<forall>x \<in> set rs. good x \<longrightarrow> score x < score r"
      using b by auto
    then show ?thesis
      using True Some by (fastforce simp: first_best_def)
  next
    case False
    have "first_best good score (rs @ [r]) (Some b)"
      unfolding first_best_def option.case
      by (rule exI [of _ before], rule exI [of _ "behind @ [r]"]) (use b False in auto)
    then show ?thesis
      using False Some by auto
  qed
qed

lemma agreement_pos:
  assumes "acceptable getenv line https r" and "line \<noteq> []" and "hd line \<noteq> CHR ''?''"
  shows "0 < agreement line r"
proof -
  obtain c cs where line: "line = c # cs" "c \<noteq> CHR ''?''"
    using assms(2,3) by (cases line) auto
  then have "before_query (proto_first_line (stored_request r)) = c # before_query cs"
    using assms(1) by (simp add: acceptable_def before_query_def)
  then obtain ds where "proto_first_line (stored_request r) = c # ds"
    by (cases "proto_first_line (stored_request r)") (auto simp: before_query_def split: if_splits)
  then show ?thesis
    by (simp add: agreement_def line)
qed

definition best_so_far :: "string \<Rightarrow> stored_exchange option \<Rightarrow> u32 \<times> stored_exchange option" where
  "best_so_far line best =
     ((case best of None \<Rightarrow> 0 | Some b \<Rightarrow> of_nat (agreement line b)), best)"

lemma agreement_le: "agreement line r \<le> length line"
  unfolding agreement_def using prefix_length_le longest_common_prefix_prefix1 by blast

text \<open>A recording all of whose files parse.\<close>

definition parsed :: "(string \<times> stored_exchange) list \<Rightarrow> (string \<times> stored_exchange option) list" where
  "parsed files = map (\<lambda>(name, r). (name, Some r)) files"

lemma best_match_loop_spec:
  assumes line: "line \<noteq> []" "hd line \<noteq> CHR ''?''" "length line < 2 ^ 32"
  shows "first_best (acceptable getenv line https) (agreement line) seen best \<Longrightarrow>
    \<exists>best'. best_match_loop getenv line https (parsed files) (best_so_far line best) =
        Inr (best_so_far line best') \<and>
      first_best (acceptable getenv line https) (agreement line) (seen @ map snd files) best'"
proof (induction files arbitrary: seen best)
  case Nil
  then show ?case by (auto simp: parsed_def)
next
  case (Cons f files)
  obtain name r where f: "f = (name, r)" by force
  let ?good = "acceptable getenv line https" and ?score = "agreement line"
  let ?best = "if ?good r \<and> (case best of None \<Rightarrow> True | Some b \<Rightarrow> ?score b < ?score r)
    then Some r else best"
  have u: "unat (of_nat (?score x) :: u32) = ?score x" for x
    using agreement_le [of line x] line(3) by (intro unat_of_nat_u32) simp
  have "(if fst (best_so_far line best) < (if ?good r then of_nat (?score r) else 0)
      then ((if ?good r then of_nat (?score r) else 0), Some r) else best_so_far line best) =
    best_so_far line ?best"
    using agreement_pos [OF _ line(1,2), of getenv https r]
    by (auto simp: best_so_far_def word_less_nat_alt u split: option.splits)
  then have step: "best_match_loop getenv line https (parsed (f # files))
      (best_so_far line best) =
    best_match_loop getenv line https (parsed files) (best_so_far line ?best)"
    by (simp add: f match_score_eq parsed_def)
  from Cons.IH [OF first_best_snoc [OF Cons.prems, of r]] show ?case
    unfolding step by (simp only: f list.map snd_conv append_assoc append.simps)
qed

lemma replay_serves:
  assumes "getenv ''MAHIMAHI_CHDIR'' = Some d" and "getenv ''MAHIMAHI_RECORD_PATH'' = Some dir"
    and "getenv ''REQUEST_METHOD'' = Some m" and "getenv ''REQUEST_URI'' = Some u"
    and "getenv ''SERVER_PROTOCOL'' = Some p" and "m \<noteq> []" and "hd m \<noteq> CHR ''?''"
    and "line = m @ '' '' @ u @ '' '' @ p" and "length line < 2 ^ 32"
    and "list_directory dir = Inr (parsed files)"
  shows "\<exists>best. first_best (acceptable getenv line (getenv ''HTTPS'' \<noteq> None)) (agreement line)
      (map snd files) best \<and>
    replay_main describe getenv list_directory =
      (case best of
         Some r \<Rightarrow>
           (proto_first_line (stored_response r) @ CRLF @ headers_str (proto_header (stored_response r)) @
            CRLF @ proto_body (stored_response r), True)
       | None \<Rightarrow>
           (''HTTP/1.1 404 Not Found'' @ CRLF @ ''Content-Type: text/plain'' @ CRLF @ CRLF @
            ''replayserver: could not find a match for '' @ line @ CRLF, False))"
proof -
  have line: "line \<noteq> []" "hd line \<noteq> CHR ''?''"
    using assms(6,7,8) by simp_all
  have "first_best (acceptable getenv line (getenv ''HTTPS'' \<noteq> None)) (agreement line) [] None"
    by (simp add: first_best_def)
  from best_match_loop_spec [OF line assms(9) this, of files] obtain best where
    loop: "best_match_loop getenv line (getenv ''HTTPS'' \<noteq> None) (parsed files) (0, None) =
      Inr (best_so_far line best)" and
    best: "first_best (acceptable getenv line (getenv ''HTTPS'' \<noteq> None)) (agreement line)
      (map snd files) best"
    by (auto simp: best_so_far_def)
  have "0 < fst (best_so_far line best) \<longleftrightarrow> best \<noteq> None"
  proof (cases best)
    case None
    then show ?thesis by (simp add: best_so_far_def)
  next
    case (Some r)
    then have "acceptable getenv line (getenv ''HTTPS'' \<noteq> None) r"
      using best by (auto simp: first_best_def)
    from agreement_pos [OF this line] show ?thesis
      using agreement_le [of line r] assms(9) Some
      by (simp add: best_so_far_def word_less_nat_alt unat_of_nat_u32)
  qed
  then have "replay_answer getenv list_directory = Inr (case best of
         Some r \<Rightarrow>
           (proto_first_line (stored_response r) @ CRLF @ headers_str (proto_header (stored_response r)) @
            CRLF @ proto_body (stored_response r), True)
       | None \<Rightarrow>
           (''HTTP/1.1 404 Not Found'' @ CRLF @ ''Content-Type: text/plain'' @ CRLF @ CRLF @
            ''replayserver: could not find a match for '' @ line @ CRLF, False))"
    using assms(1-5,8,10) loop
    by (auto simp: replay_answer_def request_line_of_def safe_getenv_def message_str_def
        message_of_protobuf_def best_so_far_def split: option.splits)
  with best show ?thesis
    by (auto simp: replay_main_def)
qed


definition sample_getenv :: getenv where
  "sample_getenv key =
     map_of [(''MAHIMAHI_CHDIR'', ''/''), (''MAHIMAHI_RECORD_PATH'', ''r/''),
       (''REQUEST_METHOD'', ''GET''), (''REQUEST_URI'', ''/?b=2''), (''SERVER_PROTOCOL'', ''HTTP/1.1''),
       (''HTTP_HOST'', ''h'')] key"

definition sample_exchange :: "string \<Rightarrow> stored_exchange" where
  "sample_exchange uri =
     \<lparr>stored_ip = ''10.0.0.1'', stored_port = 80, stored_https = False,
      stored_request = \<lparr>proto_first_line = ''GET '' @ uri @ '' HTTP/1.1'',
        proto_header = [\<lparr>header_key = ''host'', header_value = ''h''\<rparr>], proto_body = []\<rparr>,
      stored_response = \<lparr>proto_first_line = ''HTTP/1.1 200 OK'',
        proto_header = [\<lparr>header_key = ''Content-Length'', header_value = ''1''\<rparr>],
        proto_body = [last uri]\<rparr>\<rparr>"

definition sample_files :: "(string \<times> stored_exchange) list" where
  "sample_files = [(''r/a'', sample_exchange ''/?a=1''), (''r/b'', sample_exchange ''/?b=1'')]"


end
