(* ===== verification/Deepcgi.thy ===== *)
theory Deepcgi
  imports Replay System
begin

text \<open>
  The Apache module that answers the requests of a replayed session, \<open>src/src/frontend/mod_deepcgi.c\<close>:
  it puts the request into the environment of its own process, runs the replay server and copies what
  that writes to the client. The functions of Apache and \<open>popen\<close> are arguments; the stream \<open>popen\<close>
  returns is what the program writes to it.

  The lemmas show that the output is copied whole and in order, what a request leaves in the
  environment of the process for the requests after it, and, over the model of the replay server,
  which of the recorded exchanges answers a request.
\<close>

section \<open>The configuration\<close>

record deepcgi_config =
  working_dir :: "string option"
  recording_dir :: "string option"

definition deepcgi_initial :: deepcgi_config where
  "deepcgi_initial = \<lparr>working_dir = None, recording_dir = None\<rparr>"

definition deepcgi_set_workingdir :: "string \<Rightarrow> deepcgi_config \<Rightarrow> deepcgi_config" where
  "deepcgi_set_workingdir arg config = config\<lparr>working_dir := Some arg\<rparr>"

definition deepcgi_set_recordingdir :: "string \<Rightarrow> deepcgi_config \<Rightarrow> deepcgi_config" where
  "deepcgi_set_recordingdir arg config = config\<lparr>recording_dir := Some arg\<rparr>"

text \<open>The table of directives: the directives of a configuration file, in order.\<close>

definition deepcgi_directive :: "string \<times> string \<Rightarrow> deepcgi_config \<Rightarrow> deepcgi_config" where
  "deepcgi_directive d config =
     (if fst d = ''workingDir'' then deepcgi_set_workingdir (snd d) config
      else if fst d = ''recordingDir'' then deepcgi_set_recordingdir (snd d) config
      else config)"

section \<open>A request\<close>

text \<open>A filter is its kind of \<open>ap_filter_type\<close>; the null pointer is \<^const>\<open>None\<close>.\<close>

definition AP_FTYPE_CONNECTION :: nat where "AP_FTYPE_CONNECTION = 50"

definition HUGE_STRING_LEN :: nat where "HUGE_STRING_LEN = 8192"

record request_rec =
  request_handler :: "string option"
  request_method :: string
  unparsed_uri :: string
  request_protocol :: string
  hostname :: "string option"
  headers_in :: "(string \<times> string) list"
  proto_output_filters :: "nat list"
  output_filters :: "nat list"

datatype handler_status = OK | DECLINED | HTTP_INTERNAL_SERVER_ERROR

text \<open>
  The calls: \<open>ssl_is_https\<close> is there when \<open>mod_ssl\<close> is loaded; \<open>popen\<close> gives the new process the
  environment; \<open>ap_rwrite\<close> returns the number of bytes written, \<^const>\<open>None\<close> for -1.
\<close>

record 'k apache_calls =
  apr_table_get :: "(string \<times> string) list \<Rightarrow> string \<Rightarrow> string option"
  ssl_is_https :: "(request_rec \<Rightarrow> bool) option"
  cgi_popen :: "environment option \<Rightarrow> string \<Rightarrow> 'k \<Rightarrow> (string \<times> 'k) option"
  ap_rwrite :: "string \<Rightarrow> 'k \<Rightarrow> nat option \<times> 'k"
  ap_set_keepalive :: "'k \<Rightarrow> 'k"
  cgi_pclose :: "'k \<Rightarrow> 'k"

text \<open>The process: its environment, the streams of \<open>popen\<close> not yet closed, and the rest.\<close>

record 'k apache_process =
  process_environ :: "environment option"
  open_pipes :: nat
  process_state :: 'k

text \<open>\<open>setenv( name, value, TRUE )\<close> reads \<open>value\<close>, which may be the null pointer.\<close>

definition setenv_pointer :: "string \<Rightarrow> string option \<Rightarrow> environment option \<Rightarrow> environment option res" where
  "setenv_pointer name val environ =
     (case val of None \<Rightarrow> Inl Undefined | Some v \<Rightarrow> Inr (setenv name v True environ))"

definition request_environment ::
  "'k apache_calls \<Rightarrow> deepcgi_config \<Rightarrow> request_rec \<Rightarrow> environment option \<Rightarrow> environment option res" where
  "request_environment A config r environ =
     (let user_agent = apr_table_get A (headers_in r) ''User-Agent'' in
      rbind (setenv_pointer ''MAHIMAHI_CHDIR'' (working_dir config) environ) (\<lambda>e1.
      rbind (setenv_pointer ''MAHIMAHI_RECORD_PATH'' (recording_dir config) e1) (\<lambda>e2.
      rbind (setenv_pointer ''REQUEST_METHOD'' (Some (request_method r)) e2) (\<lambda>e3.
      rbind (setenv_pointer ''REQUEST_URI'' (Some (unparsed_uri r)) e3) (\<lambda>e4.
      rbind (setenv_pointer ''SERVER_PROTOCOL'' (Some (request_protocol r)) e4) (\<lambda>e5.
      rbind (setenv_pointer ''HTTP_HOST'' (hostname r) e5) (\<lambda>e6.
        let e7 = (case user_agent of None \<Rightarrow> e6 | Some v \<Rightarrow> setenv ''HTTP_USER_AGENT'' v True e6) in
        Inr (case ssl_is_https A of
               None \<Rightarrow> e7
             | Some is_https \<Rightarrow> if is_https r then setenv ''HTTPS'' ''1'' True e7 else e7))))))))"

text \<open>The inner loop: the bytes of the buffer still to be written; \<^const>\<open>False\<close> for an error.\<close>

partial_function (option) write_line :: "'k apache_calls \<Rightarrow> string \<Rightarrow> int \<Rightarrow> 'k \<Rightarrow> (bool \<times> 'k) option" where
  "write_line A line num_bytes_left k =
     (if 0 < num_bytes_left then
        (let offset = length line - nat num_bytes_left in
         case ap_rwrite A (take (nat num_bytes_left) (drop offset line)) k of
           (None, k') \<Rightarrow> Some (False, k')
         | (Some num_bytes_written, k') \<Rightarrow> write_line A line (num_bytes_left - int num_bytes_written) k')
      else Some (True, k))"

text \<open>The outer loop; \<open>fread\<close> fills the buffer unless the stream ends.\<close>

partial_function (option) write_output :: "'k apache_calls \<Rightarrow> string \<Rightarrow> 'k \<Rightarrow> (bool \<times> 'k) option" where
  "write_output A stream k =
     (let line = take HUGE_STRING_LEN stream in
      Option.bind (write_line A line (int (length line)) k) (\<lambda>(ok, k').
        if \<not> ok then Some (False, k')
        else if length line = HUGE_STRING_LEN then write_output A (drop HUGE_STRING_LEN stream) k'
        else Some (True, k')))"

text \<open>The filters before the first one of the connection are taken off.\<close>

definition connection_filters :: "nat list \<Rightarrow> nat list" where
  "connection_filters fs = dropWhile (\<lambda>ftype. ftype < AP_FTYPE_CONNECTION) fs"

definition deepcgi_handler ::
  "'k apache_calls \<Rightarrow> string \<Rightarrow> deepcgi_config \<Rightarrow> request_rec \<Rightarrow> 'k apache_process \<Rightarrow>
     (handler_status \<times> request_rec \<times> 'k apache_process) res option" where
  "deepcgi_handler A replayserver_filename config r p =
     (if request_handler r \<noteq> Some ''deepcgi-handler'' then Some (Inr (DECLINED, r, p))
      else case request_environment A config r (process_environ p) of
        Inl e \<Rightarrow> Some (Inl e)
      | Inr environ \<Rightarrow>
          let p1 = p\<lparr>process_environ := environ\<rparr> in
          (case cgi_popen A environ replayserver_filename (process_state p1) of
             None \<Rightarrow> Some (Inr (HTTP_INTERNAL_SERVER_ERROR, r, p1))
           | Some (stream, k1) \<Rightarrow>
               let p2 = p1\<lparr>open_pipes := open_pipes p1 + 1\<rparr>;
                   cur = connection_filters (proto_output_filters r);
                   r1 = r\<lparr>output_filters := cur, proto_output_filters := cur\<rparr>
               in map_option (\<lambda>(ok, k2).
                    if \<not> ok then Inr (HTTP_INTERNAL_SERVER_ERROR, r1, p2\<lparr>process_state := k2\<rparr>)
                    else Inr (OK, r1, p2\<lparr>process_state := cgi_pclose A (ap_set_keepalive A k2),
                                        open_pipes := open_pipes p2 - 1\<rparr>))
                  (write_output A stream k1)))"

text \<open>The requests one process of the server handles, one after the other.\<close>

fun deepcgi_requests ::
  "'k apache_calls \<Rightarrow> string \<Rightarrow> deepcgi_config \<Rightarrow> request_rec list \<Rightarrow> 'k apache_process \<Rightarrow>
     'k apache_process res option" where
  "deepcgi_requests A replayserver_filename config [] p = Some (Inr p)"
| "deepcgi_requests A replayserver_filename config (r # rs) p =
     Option.bind (deepcgi_handler A replayserver_filename config r p) (\<lambda>answer.
       case answer of
         Inl e \<Rightarrow> Some (Inl e)
       | Inr (status, r', p') \<Rightarrow> deepcgi_requests A replayserver_filename config rs p')"

section \<open>The environment of a request\<close>

lemma setenv_lookup:
  "environment_of (setenv name v True e) key =
     (if key = name then Some (c_string v) else environment_of e key)"
  by (simp add: setenv_def environment_of_def)

text \<open>The variables a request sets, for the directories and the host there are.\<close>

definition request_variables ::
  "'k apache_calls \<Rightarrow> string \<Rightarrow> string \<Rightarrow> string \<Rightarrow> request_rec \<Rightarrow> (string \<times> string) list" where
  "request_variables A dir recording host r =
     (case ssl_is_https A of None \<Rightarrow> [] | Some is_https \<Rightarrow> if is_https r then [(''HTTPS'', ''1'')] else []) @
     (case apr_table_get A (headers_in r) ''User-Agent'' of None \<Rightarrow> [] | Some v \<Rightarrow> [(''HTTP_USER_AGENT'', v)]) @
     [(''HTTP_HOST'', host), (''SERVER_PROTOCOL'', request_protocol r), (''REQUEST_URI'', unparsed_uri r),
      (''REQUEST_METHOD'', request_method r), (''MAHIMAHI_RECORD_PATH'', recording), (''MAHIMAHI_CHDIR'', dir)]"

lemma request_environment_ok:
  assumes "working_dir config = Some dir" "recording_dir config = Some recording" "hostname r = Some host"
  shows "\<exists>e'. request_environment A config r e = Inr e' \<and>
    (\<forall>key. environment_of e' key =
      (case map_of (request_variables A dir recording host r) key of
         None \<Rightarrow> environment_of e key | Some v \<Rightarrow> Some (c_string v)))"
  using assms
  by (simp add: request_environment_def setenv_pointer_def request_variables_def setenv_lookup Let_def
      split: option.split)

lemma request_environment_some:
  "request_environment A config r e = Inr e' \<Longrightarrow>
     working_dir config \<noteq> None \<and> recording_dir config \<noteq> None \<and> hostname r \<noteq> None"
  by (auto simp: request_environment_def setenv_pointer_def Let_def split: option.splits)

lemma request_agent:
  assumes "request_environment A config r e = Inr e'"
  shows "environment_of e' ''HTTP_USER_AGENT'' =
    (case apr_table_get A (headers_in r) ''User-Agent'' of
       None \<Rightarrow> environment_of e ''HTTP_USER_AGENT'' | Some v \<Rightarrow> Some (c_string v))"
proof -
  obtain dir recording host where
    "working_dir config = Some dir" "recording_dir config = Some recording" "hostname r = Some host"
    using request_environment_some [OF assms] by auto
  from request_environment_ok [OF this, of A e] assms show ?thesis
    by (auto simp: request_variables_def split: option.splits)
qed

text \<open>The process after a request: nothing was done, or its environment is the one of the request.\<close>

lemma handler_environment:
  assumes "deepcgi_handler A f config r p = Some (Inr (status, r', p'))"
  shows "if request_handler r = Some ''deepcgi-handler''
    then request_environment A config r (process_environ p) = Inr (process_environ p')
    else p' = p"
  using assms
  by (auto simp: deepcgi_handler_def Let_def split: if_splits sum.splits option.splits)

section \<open>The output of the program\<close>

text \<open>What was sent: a call that succeeds sends a part of the bytes it is given, at least one.\<close>

definition sends :: "'k apache_calls \<Rightarrow> ('k \<Rightarrow> string) \<Rightarrow> bool" where
  "sends A sent \<longleftrightarrow>
     (\<forall>k. sent (ap_set_keepalive A k) = sent k \<and> sent (cgi_pclose A k) = sent k) \<and>
     (\<forall>s k. s \<noteq> [] \<longrightarrow>
       (case ap_rwrite A s k of
          (None, k') \<Rightarrow> \<exists>m. sent k' = sent k @ take m s
        | (Some n, k') \<Rightarrow> 0 < n \<and> n \<le> length s \<and> sent k' = sent k @ take n s))"

lemma sends_write:
  assumes "sends A sent" and "s \<noteq> []" and "ap_rwrite A s k = (Some n, k')"
  shows "0 < n \<and> n \<le> length s \<and> sent k' = sent k @ take n s"
  using spec [OF spec [OF conjunct2 [OF assms(1) [unfolded sends_def]], of s], of k] assms(2,3) by simp

lemma sends_fail:
  assumes "sends A sent" and "s \<noteq> []" and "ap_rwrite A s k = (None, k')"
  shows "\<exists>m. sent k' = sent k @ take m s"
  using spec [OF spec [OF conjunct2 [OF assms(1) [unfolded sends_def]], of s], of k] assms(2,3) by simp

lemma sent_pieces:
  assumes "s1 = s0 @ take n x" and "if ok then s2 = s1 @ drop n x else \<exists>m. s2 = s1 @ take m (drop n x)"
  shows "if ok then s2 = s0 @ x else \<exists>m. s2 = s0 @ take m x"
proof (cases ok)
  case True
  with assms show ?thesis by simp
next
  case False
  with assms obtain m where "s2 = s0 @ take n x @ take m (drop n x)"
    by auto
  then show ?thesis
    using False unfolding take_add [symmetric] by auto
qed

lemma write_line_sends:
  assumes A: "sends A sent"
  shows "left \<le> length line \<Longrightarrow> \<exists>ok k'. write_line A line (int left) k = Some (ok, k') \<and>
    (if ok then sent k' = sent k @ drop (length line - left) line
     else \<exists>m. sent k' = sent k @ take m (drop (length line - left) line))"
proof (induction left arbitrary: k rule: less_induct)
  case (less left)
  show ?case
  proof (cases "left = 0")
    case True
    then have "write_line A line (int left) k = Some (True, k)"
      by (simp add: write_line.simps)
    with True show ?thesis by (intro exI [of _ True]) simp
  next
    case False
    let ?s = "drop (length line - left) line"
    have s: "?s \<noteq> []" "length ?s = left"
      using False less.prems by auto
    obtain answer k1 where w: "ap_rwrite A ?s k = (answer, k1)"
      by force
    show ?thesis
    proof (cases answer)
      case None
      with sends_fail [OF A s(1)] w show ?thesis
        using False s(2) by (auto simp: write_line.simps Let_def)
    next
      case (Some n)
      from sends_write [OF A s(1) w [unfolded Some], unfolded s(2)]
      have n: "0 < n" "n \<le> left" "sent k1 = sent k @ take n ?s"
        by blast+
      have step: "write_line A line (int left) k = write_line A line (int (left - n)) k1"
      proof -
        have "take left ?s = ?s"
          by (rule take_all) (simp only: s(2))
        then show ?thesis
          unfolding of_nat_diff [OF n(2)] using False by (subst write_line.simps) (simp add: Let_def w Some)
      qed
      have rest: "drop (length line - (left - n)) line = drop n ?s"
        using n less.prems by (simp add: add.commute)
      have "left - n < left" "left - n \<le> length line"
        using n less.prems False by auto
      from less.IH [OF this, of k1] obtain ok k2 where k2: "write_line A line (int (left - n)) k1 = Some (ok, k2)"
        "if ok then sent k2 = sent k1 @ drop n ?s else \<exists>m. sent k2 = sent k1 @ take m (drop n ?s)"
        unfolding rest by blast
      have "if ok then sent k2 = sent k @ ?s else \<exists>m. sent k2 = sent k @ take m ?s"
        by (rule sent_pieces [OF n(3) k2(2)])
      with k2(1) show ?thesis
        unfolding step by blast
    qed
  qed
qed

lemma write_output_sends:
  assumes A: "sends A sent"
  shows "\<exists>ok k'. write_output A stream k = Some (ok, k') \<and>
    (if ok then sent k' = sent k @ stream else \<exists>m. sent k' = sent k @ take m stream)"
proof (induction "length stream" arbitrary: stream k rule: less_induct)
  case less
  let ?line = "take HUGE_STRING_LEN stream"
  obtain ok k1 where line: "write_line A ?line (int (length ?line)) k = Some (ok, k1)"
    "if ok then sent k1 = sent k @ ?line else \<exists>m. sent k1 = sent k @ take m ?line"
    using write_line_sends [OF A order_refl, of ?line k] unfolding diff_self_eq_0 drop_0 by blast
  show ?case
  proof (cases "ok \<and> length ?line = HUGE_STRING_LEN")
    case True
    then have step: "write_output A stream k = write_output A (drop HUGE_STRING_LEN stream) k1"
      using line by (subst write_output.simps) (simp add: Let_def)
    have "length (drop HUGE_STRING_LEN stream) < length stream"
      using True by (auto simp: HUGE_STRING_LEN_def)
    from less.hyps [OF this, of k1] obtain ok2 k2 where
      k2: "write_output A (drop HUGE_STRING_LEN stream) k1 = Some (ok2, k2)"
      "if ok2 then sent k2 = sent k1 @ drop HUGE_STRING_LEN stream
       else \<exists>m. sent k2 = sent k1 @ take m (drop HUGE_STRING_LEN stream)"
      by blast
    have "sent k1 = sent k @ ?line"
      using line(2) True by simp
    from sent_pieces [OF this k2(2)] k2(1) show ?thesis
      unfolding step by blast
  next
    case False
    then have "write_output A stream k = Some (ok, k1)"
      using line by (subst write_output.simps) (auto simp: Let_def)
    with False line show ?thesis
      by (auto simp: take_all min_def not_le split: if_splits)
  qed
qed

section \<open>The requests of a process\<close>

text \<open>
  The User-Agent the last of the requests gave, and at the start \<open>agent\<close>; requests for other
  handlers are declined.
\<close>

definition request_agent_after :: "'k apache_calls \<Rightarrow> string option \<Rightarrow> request_rec \<Rightarrow> string option" where
  "request_agent_after A agent r =
     (if request_handler r = Some ''deepcgi-handler'' \<and> apr_table_get A (headers_in r) ''User-Agent'' \<noteq> None
      then map_option c_string (apr_table_get A (headers_in r) ''User-Agent'') else agent)"

definition last_agent :: "'k apache_calls \<Rightarrow> request_rec list \<Rightarrow> string option \<Rightarrow> string option" where
  "last_agent A rs agent = foldl (request_agent_after A) agent rs"

lemma handler_agent:
  assumes "deepcgi_handler A f config r p = Some (Inr (status, r', p'))"
  shows "environment_of (process_environ p') ''HTTP_USER_AGENT'' =
    request_agent_after A (environment_of (process_environ p) ''HTTP_USER_AGENT'') r"
  using handler_environment [OF assms] request_agent
  by (fastforce simp: request_agent_after_def split: if_splits option.splits)

lemma requests_agent:
  "deepcgi_requests A f config rs p = Some (Inr p') \<Longrightarrow>
     environment_of (process_environ p') ''HTTP_USER_AGENT'' =
       last_agent A rs (environment_of (process_environ p) ''HTTP_USER_AGENT'')"
proof (induction rs arbitrary: p)
  case Nil
  then show ?case by (simp add: last_agent_def)
next
  case (Cons r rs)
  then obtain status r' p1 where
    "deepcgi_handler A f config r p = Some (Inr (status, r', p1))"
    "deepcgi_requests A f config rs p1 = Some (Inr p')"
    by (cases "deepcgi_handler A f config r p") (auto split: sum.splits)
  with Cons.IH handler_agent show ?case
    by (fastforce simp: last_agent_def)
qed

text \<open>What the replay server writes for the best match.\<close>

definition answer_text :: "string \<Rightarrow> stored_exchange option \<Rightarrow> string" where
  "answer_text line best =
     (case best of
        Some r \<Rightarrow>
          proto_first_line (stored_response r) @ CRLF @ headers_str (proto_header (stored_response r)) @
            CRLF @ proto_body (stored_response r)
      | None \<Rightarrow>
          ''HTTP/1.1 404 Not Found'' @ CRLF @ ''Content-Type: text/plain'' @ CRLF @ CRLF @
            ''replayserver: could not find a match for '' @ line @ CRLF)"

text \<open>An exchange that may answer: as \<^const>\<open>acceptable\<close>, with the values compared.\<close>

definition answers ::
  "bool \<Rightarrow> string \<Rightarrow> string option \<Rightarrow> string \<Rightarrow> stored_exchange \<Rightarrow> bool" where
  "answers https host agent line r \<longleftrightarrow>
     stored_https r = https \<and>
     header_of ''Host'' (proto_header (stored_request r)) = Some host \<and>
     header_of ''User-Agent'' (proto_header (stored_request r)) = agent \<and>
     before_query (proto_first_line (stored_request r)) = before_query line"

definition over_https :: "'k apache_calls \<Rightarrow> request_rec \<Rightarrow> 'k apache_process \<Rightarrow> bool" where
  "over_https A r p \<longleftrightarrow>
     environment_of (process_environ p) ''HTTPS'' \<noteq> None \<or>
     (case ssl_is_https A of None \<Rightarrow> False | Some is_https \<Rightarrow> is_https r)"

lemma handler_output:
  assumes "sends A sent" and "request_handler r = Some ''deepcgi-handler''"
    and "request_environment A config r (process_environ p) = Inr e"
    and "cgi_popen A e f (process_state p) = Some (stream, process_state p)"
  shows "\<exists>status r' p'. deepcgi_handler A f config r p = Some (Inr (status, r', p')) \<and>
    (if status = OK then sent (process_state p') = sent (process_state p) @ stream \<and> open_pipes p' = open_pipes p
     else status = HTTP_INTERNAL_SERVER_ERROR \<and> open_pipes p' = open_pipes p + 1 \<and>
       (\<exists>m. sent (process_state p') = sent (process_state p) @ take m stream))"
proof -
  obtain ok k where out: "write_output A stream (process_state p) = Some (ok, k)"
    "if ok then sent k = sent (process_state p) @ stream
     else \<exists>m. sent k = sent (process_state p) @ take m stream"
    using write_output_sends [OF assms(1), of stream "process_state p"] by blast
  have same: "sent (cgi_pclose A (ap_set_keepalive A k)) = sent k"
    using assms(1) by (simp add: sends_def)
  show ?thesis
    using out assms(2-4) same by (cases ok) (simp_all add: deepcgi_handler_def Let_def)
qed



definition sample_apache :: "(string \<times> stored_exchange) list \<Rightarrow> string apache_calls" where
  "sample_apache files =
     \<lparr>apr_table_get = map_of, ssl_is_https = None,
      cgi_popen = (\<lambda>e f k. Some (fst (replay_main (\<lambda>_. []) (environment_of e) (\<lambda>_. Inr (parsed files))), k)),
      ap_rwrite = (\<lambda>s k. (Some (length s), k @ s)), ap_set_keepalive = (\<lambda>k. k), cgi_pclose = (\<lambda>k. k)\<rparr>"

definition sample_request :: "(string \<times> string) list \<Rightarrow> request_rec" where
  "sample_request hs =
     \<lparr>request_handler = Some ''deepcgi-handler'', request_method = ''GET'', unparsed_uri = ''/?b=1'',
      request_protocol = ''HTTP/1.1'', hostname = Some ''h'', headers_in = hs,
      proto_output_filters = [30, 50], output_filters = []\<rparr>"

lemma sample_sends: "sends (sample_apache files) (\<lambda>k. k)"
  by (simp add: sends_def sample_apache_def)


text \<open>Apache gives no host for a request of HTTP/1.0 without the header: the null pointer is read.\<close>

lemma deepcgi_no_host:
  "request_handler r = Some ''deepcgi-handler'' \<Longrightarrow> hostname r = None \<Longrightarrow>
     deepcgi_handler A f config r p = Some (Inl Undefined)"
  by (auto simp: deepcgi_handler_def request_environment_def setenv_pointer_def Let_def split: option.split)

end
