(* ===== verification/Display.thy ===== *)
theory Display
  imports Ezio
begin

text \<open>
  The window of a live graph, \<open>src/src/graphing/display.cc\<close> and \<open>display.hh\<close>. The X server is an
  argument: what it answers to a request, a function of its state. A request of the library that the code
  checks answers with an error code or with nothing.

  The lemmas show that a frame that was presented has been released by the server, so that its pixmap
  may be drawn on again, and that waiting keeps the window.
\<close>

unbundle bit_operations_syntax

type_synonym u16 = "16 word"

section \<open>The server\<close>

type_synonym extent_pair = "u32 \<times> u32"

datatype xcb_request =
    CreateWindow u32 extent_pair
  | SelectCompleteNotify u32 u32
  | SelectIdleNotify u32 u32
  | MapWindow u32
  | DestroyWindow u32
  | ChangeName u32 string
  | CreatePixmap nat u32 u32 extent_pair
  | FreePixmap u32
  | PresentPixmap u32 u32 u32 u32

text \<open>An event: of an extension, with its type, or another one.\<close>

datatype xcb_event = GenericEvent u16 | OtherEvent

record screen =
  root_depth :: nat
  depths :: "u32 list list"

record 'x xcb_calls =
  xcb_connect :: "'x \<Rightarrow> bool"
  xcb_generate_id :: "'x \<Rightarrow> u32 \<times> 'x"
  xcb_request_check :: "xcb_request \<Rightarrow> 'x \<Rightarrow> nat option \<times> 'x"
  xcb_get_setup :: "'x \<Rightarrow> bool"
  xcb_first_screen :: "'x \<Rightarrow> screen option"
  xcb_get_geometry :: "u32 \<Rightarrow> 'x \<Rightarrow> (u16 \<times> u16) option"
  xcb_get_visual :: "u32 \<Rightarrow> 'x \<Rightarrow> u32 option"
  xcb_flush :: "'x \<Rightarrow> int \<times> 'x"
  xcb_wait_for_event :: "'x \<Rightarrow> xcb_event option \<times> 'x"

definition notnull :: "string \<Rightarrow> 'a option \<Rightarrow> 'a res" where
  "notnull context x =
     (case x of Some y \<Rightarrow> Inr y | None \<Rightarrow> Inl (RuntimeError (context @ '': returned null pointer'')))"

definition check_noreply :: "'x xcb_calls \<Rightarrow> string \<Rightarrow> xcb_request \<Rightarrow> 'x \<Rightarrow> 'x res" where
  "check_noreply X context request x =
     (case xcb_request_check X request x of
        (None, x') \<Rightarrow> Inr x'
      | (Some error_code, x') \<Rightarrow>
          Inl (RuntimeError (context @ '': returned error '' @ to_string error_code)))"

definition default_screen :: "'x xcb_calls \<Rightarrow> 'x \<Rightarrow> screen res" where
  "default_screen X x =
     rbind (notnull ''xcb_get_setup'' (if xcb_get_setup X x then Some () else None)) (\<lambda>_.
       notnull ''xcb_setup_roots_iterator'' (xcb_first_screen X x))"

definition xcb_object_new :: "'x xcb_calls \<Rightarrow> 'x \<Rightarrow> unit res" where
  "xcb_object_new X x = notnull ''xcb_connect'' (if xcb_connect X x then Some () else None)"

section \<open>Windows\<close>

record xwindow =
  window_id :: u32
  complete_event :: u32
  idle_event :: u32
  complete :: bool
  idle :: bool

definition xwindow_new :: "'x xcb_calls \<Rightarrow> u32 \<Rightarrow> u32 \<Rightarrow> 'x \<Rightarrow> (xwindow \<times> 'x) res" where
  "xwindow_new X width height x =
     rbind (xcb_object_new X x) (\<lambda>_.
     case xcb_generate_id X x of (window, x1) \<Rightarrow>
     case xcb_generate_id X x1 of (complete_id, x2) \<Rightarrow>
     case xcb_generate_id X x2 of (idle_id, x3) \<Rightarrow>
     rbind (default_screen X x3) (\<lambda>_.
     rbind (check_noreply X ''xcb_create_window_checked'' (CreateWindow window (width, height)) x3) (\<lambda>x4.
     rbind (check_noreply X ''xcb_present_select_input_checked'' (SelectCompleteNotify complete_id window) x4) (\<lambda>x5.
     rbind (check_noreply X ''xcb_present_select_input_checked'' (SelectIdleNotify idle_id window) x5) (\<lambda>x6.
       Inr (\<lparr>window_id = window, complete_event = complete_id, idle_event = idle_id,
             complete = True, idle = True\<rparr>, x6))))))"

definition xwindow_map :: "'x xcb_calls \<Rightarrow> xwindow \<Rightarrow> 'x \<Rightarrow> 'x res" where
  "xwindow_map X w = check_noreply X ''xcb_map_window_checked'' (MapWindow (window_id w))"

definition xwindow_flush :: "'x xcb_calls \<Rightarrow> 'x \<Rightarrow> 'x res" where
  "xwindow_flush X x =
     (case xcb_flush X x of (r, x') \<Rightarrow>
        if r \<le> 0 then Inl (RuntimeError ''xcb_flush: failed'') else Inr x')"

definition xwindow_set_name :: "'x xcb_calls \<Rightarrow> xwindow \<Rightarrow> string \<Rightarrow> 'x \<Rightarrow> 'x res" where
  "xwindow_set_name X w name = check_noreply X ''xcb_change_property_checked'' (ChangeName (window_id w) name)"

text \<open>The destructor prints an exception.\<close>

definition xwindow_destroy :: "'x xcb_calls \<Rightarrow> xwindow \<Rightarrow> 'x \<Rightarrow> 'x" where
  "xwindow_destroy X w x = snd (xcb_request_check X (DestroyWindow (window_id w)) x)"

definition xcb_visual :: "'x xcb_calls \<Rightarrow> xwindow \<Rightarrow> 'x \<Rightarrow> u32 res" where
  "xcb_visual X w x =
     rbind (notnull ''xcb_get_attributes_reply'' (xcb_get_visual X (window_id w) x)) (\<lambda>visual.
     rbind (default_screen X x) (\<lambda>screen.
       case find (\<lambda>visual_id. visual = visual_id) (concat (depths screen)) of
         Some visual_id \<Rightarrow> Inr visual_id
       | None \<Rightarrow> Inl (RuntimeError ''xcb_visual: no matching visualtype_t found'')))"

definition xwindow_size :: "'x xcb_calls \<Rightarrow> xwindow \<Rightarrow> 'x \<Rightarrow> extent_pair res" where
  "xwindow_size X w x =
     rbind (notnull ''xcb_get_geometry_reply'' (xcb_get_geometry X (window_id w) x)) (\<lambda>(width, height).
       Inr (ucast width, ucast height))"

section \<open>Pixmaps\<close>

text \<open>A pixmap whose connection was moved away has none.\<close>

record xpixmap =
  pixmap_connection :: bool
  pixmap_id :: u32
  pixmap_visual :: u32
  pixmap_size :: extent_pair

definition xpixmap_new :: "'x xcb_calls \<Rightarrow> xwindow \<Rightarrow> 'x \<Rightarrow> (xpixmap \<times> 'x) res" where
  "xpixmap_new X w x =
     (case xcb_generate_id X x of (pixmap, x1) \<Rightarrow>
      rbind (xcb_visual X w x1) (\<lambda>visual.
      rbind (xwindow_size X w x1) (\<lambda>size.
      rbind (default_screen X x1) (\<lambda>screen.
      rbind (check_noreply X ''xcb_create_pixmap_checked''
          (CreatePixmap (root_depth screen) pixmap (window_id w) size) x1) (\<lambda>x2.
        Inr (\<lparr>pixmap_connection = True, pixmap_id = pixmap, pixmap_visual = visual, pixmap_size = size\<rparr>, x2))))))"

definition xpixmap_move :: "xpixmap \<Rightarrow> xpixmap \<times> xpixmap" where
  "xpixmap_move other = (other, other\<lparr>pixmap_connection := False\<rparr>)"

definition xpixmap_destroy :: "'x xcb_calls \<Rightarrow> xpixmap \<Rightarrow> 'x \<Rightarrow> 'x" where
  "xpixmap_destroy X p x =
     (if \<not> pixmap_connection p then x else snd (xcb_request_check X (FreePixmap (pixmap_id p)) x))"

text \<open>Move assignment: the target, the source, and the server.\<close>

definition xpixmap_assign :: "'x xcb_calls \<Rightarrow> xpixmap \<Rightarrow> xpixmap \<Rightarrow> 'x \<Rightarrow> xpixmap \<times> xpixmap \<times> 'x" where
  "xpixmap_assign X this other x =
     (case xpixmap_move other of (new, old) \<Rightarrow> (new, old, xpixmap_destroy X this x))"

section \<open>Presenting a pixmap\<close>

definition x_event_loop :: "'x xcb_calls \<Rightarrow> xwindow \<Rightarrow> 'x \<Rightarrow> (xwindow \<times> 'x) res" where
  "x_event_loop X w x =
     (case xcb_wait_for_event X x of (event, x') \<Rightarrow>
      rbind (notnull ''xcb_wait_for_event'' event) (\<lambda>e.
        case e of
          OtherEvent \<Rightarrow> Inr (w, x')
        | GenericEvent event_type \<Rightarrow>
            if ucast event_type = complete_event w AND 0xffff then Inr (w\<lparr>complete := True\<rparr>, x')
            else if ucast event_type = idle_event w AND 0xffff then Inr (w\<lparr>idle := True\<rparr>, x')
            else Inl (RuntimeError ''unexpected present event'')))"

text \<open>The two loops: until \<open>done\<close> holds of the window.\<close>

partial_function (option) wait_until ::
  "(xwindow \<Rightarrow> bool) \<Rightarrow> 'x xcb_calls \<Rightarrow> xwindow \<Rightarrow> 'x \<Rightarrow> (xwindow \<times> 'x) res option" where
  "wait_until holds X w x =
     (if holds w then Some (Inr (w, x))
      else case x_event_loop X w x of Inl e \<Rightarrow> Some (Inl e) | Inr (w', x') \<Rightarrow> wait_until holds X w' x')"

definition present ::
  "'x xcb_calls \<Rightarrow> xpixmap \<Rightarrow> u32 \<Rightarrow> u32 \<Rightarrow> xwindow \<Rightarrow> 'x \<Rightarrow> (xwindow \<times> 'x) res option" where
  "present X pixmap divisor remainder w x =
     obind (wait_until complete X w x) (\<lambda>(w1, x1).
     obind (Some (check_noreply X ''xcb_present_pixmap_checked''
         (PresentPixmap (window_id w1) (pixmap_id pixmap) divisor remainder) x1)) (\<lambda>x2.
       wait_until idle X (w1\<lparr>complete := False, idle := False\<rparr>) x2))"

text \<open>Waiting changes what has happened to the frame, not the window.\<close>

definition same_window :: "xwindow \<Rightarrow> xwindow \<Rightarrow> bool" where
  "same_window w w' \<longleftrightarrow>
     window_id w' = window_id w \<and> complete_event w' = complete_event w \<and> idle_event w' = idle_event w"

lemma x_event_loop_window: "x_event_loop X w x = Inr (w', x') \<Longrightarrow> same_window w w'"
proof -
  assume "x_event_loop X w x = Inr (w', x')"
  then have "w' = w \<or> w' = w\<lparr>complete := True\<rparr> \<or> w' = w\<lparr>idle := True\<rparr>"
    by (auto simp: x_event_loop_def notnull_def split: prod.splits option.splits xcb_event.splits if_splits)
  then show ?thesis by (auto simp: same_window_def)
qed

lemma wait_until_holds: "wait_until holds X w x = Some (Inr (w', x')) \<Longrightarrow> holds w' \<and> same_window w w'"
proof -
  have "r = Inr (w', x') \<longrightarrow> holds w' \<and> same_window w w'" if "wait_until holds X w x = Some r" for r
  proof (rule wait_until.raw_induct [of "\<lambda>holds X w x r. r = Inr (w', x') \<longrightarrow> holds w' \<and> same_window w w'"
        "(((holds, X), w), x)" r, unfolded prod.case], goal_cases)
    case (1 wait holds X w x r)
    then show ?case
      using x_event_loop_window [of X w x] by (fastforce simp: same_window_def split: if_splits sum.splits)
  qed (fact that)
  then show "wait_until holds X w x = Some (Inr (w', x')) \<Longrightarrow> ?thesis"
    by blast
qed

lemma present_released:
  "present X pixmap divisor remainder w x = Some (Inr (w', x')) \<Longrightarrow> idle w' \<and> same_window w w'"
proof -
  assume "present X pixmap divisor remainder w x = Some (Inr (w', x'))"
  then obtain w1 x1 x2 where "wait_until complete X w x = Some (Inr (w1, x1))"
    and "wait_until idle X (w1\<lparr>complete := False, idle := False\<rparr>) x2 = Some (Inr (w', x'))"
    unfolding present_def by (auto simp: obind_def split: option.splits sum.splits)
  from this [THEN wait_until_holds] show ?thesis
    by (simp add: same_window_def)
qed

end
