(* ===== verification/Floats.thy ===== *)
theory Floats
  imports Doubles
begin

text \<open>
  The values of \<open>float\<close> and \<open>double\<close> with infinities and NaN, for the live graphs, which divide by zero.
  An operation on two numbers computes exactly and rounds, to 24 or to 53 bits, and overflows to an
  infinity; the cases of infinities and NaN are those of IEEE 754. The sign of a zero is not kept: the
  graphs divide only by sums, differences and quotients whose zero is positive.
\<close>

datatype fp = Finite rat | Infinity bool | NaN

text \<open>\<^term>\<open>Infinity True\<close> is the positive one.\<close>

section \<open>Rounding\<close>

definition float_ulp :: "rat \<Rightarrow> rat" where
  "float_ulp x = 2 powi (max (exponent_of x - 23) (- 149))"

definition float_rnd_pos :: "rat \<Rightarrow> rat" where
  "float_rnd_pos x = of_int (round_half_even (x / float_ulp x)) * float_ulp x"

definition float_rnd :: "rat \<Rightarrow> rat" where
  "float_rnd x = (if x = 0 then 0 else if 0 < x then float_rnd_pos x else - float_rnd_pos (- x))"

definition below_overflow :: "rat \<Rightarrow> rat \<Rightarrow> fp" where
  "below_overflow limit r =
     (if limit \<le> r then Infinity True else if r \<le> - limit then Infinity False else Finite r)"

definition round64 :: "rat \<Rightarrow> fp" where
  "round64 x = below_overflow (2 ^ 1024) (rnd x)"

definition round32 :: "rat \<Rightarrow> fp" where
  "round32 x = below_overflow (2 ^ 128) (float_rnd x)"

text \<open>The conversion of a \<open>double\<close> to \<open>float\<close>; the other way is exact.\<close>

definition to_float :: "fp \<Rightarrow> fp" where
  "to_float a = (case a of Finite x \<Rightarrow> round32 x | _ \<Rightarrow> a)"

section \<open>Operations\<close>

text \<open>The argument is the rounding.\<close>

fun fp_add :: "(rat \<Rightarrow> fp) \<Rightarrow> fp \<Rightarrow> fp \<Rightarrow> fp" where
  "fp_add R (Finite x) (Finite y) = R (x + y)"
| "fp_add R (Infinity s) (Finite y) = Infinity s"
| "fp_add R (Finite x) (Infinity t) = Infinity t"
| "fp_add R (Infinity s) (Infinity t) = (if s = t then Infinity s else NaN)"
| "fp_add R _ _ = NaN"

fun fp_uminus :: "fp \<Rightarrow> fp" where
  "fp_uminus (Finite x) = Finite (- x)"
| "fp_uminus (Infinity s) = Infinity (\<not> s)"
| "fp_uminus NaN = NaN"

definition fp_sub :: "(rat \<Rightarrow> fp) \<Rightarrow> fp \<Rightarrow> fp \<Rightarrow> fp" where
  "fp_sub R a b = fp_add R a (fp_uminus b)"

fun fp_mul :: "(rat \<Rightarrow> fp) \<Rightarrow> fp \<Rightarrow> fp \<Rightarrow> fp" where
  "fp_mul R (Finite x) (Finite y) = R (x * y)"
| "fp_mul R (Infinity s) (Finite y) = (if y = 0 then NaN else Infinity (s = (0 < y)))"
| "fp_mul R (Finite x) (Infinity t) = (if x = 0 then NaN else Infinity ((0 < x) = t))"
| "fp_mul R (Infinity s) (Infinity t) = Infinity (s = t)"
| "fp_mul R _ _ = NaN"

fun fp_div :: "(rat \<Rightarrow> fp) \<Rightarrow> fp \<Rightarrow> fp \<Rightarrow> fp" where
  "fp_div R (Finite x) (Finite y) =
     (if y = 0 then if x = 0 then NaN else Infinity (0 < x) else R (x / y))"
| "fp_div R (Infinity s) (Finite y) = Infinity (s = (0 \<le> y))"
| "fp_div R (Finite x) (Infinity t) = Finite 0"
| "fp_div R _ _ = NaN"

abbreviation add64 :: "fp \<Rightarrow> fp \<Rightarrow> fp" where "add64 \<equiv> fp_add round64"
abbreviation sub64 :: "fp \<Rightarrow> fp \<Rightarrow> fp" where "sub64 \<equiv> fp_sub round64"
abbreviation mul64 :: "fp \<Rightarrow> fp \<Rightarrow> fp" where "mul64 \<equiv> fp_mul round64"
abbreviation div64 :: "fp \<Rightarrow> fp \<Rightarrow> fp" where "div64 \<equiv> fp_div round64"
abbreviation add32 :: "fp \<Rightarrow> fp \<Rightarrow> fp" where "add32 \<equiv> fp_add round32"
abbreviation sub32 :: "fp \<Rightarrow> fp \<Rightarrow> fp" where "sub32 \<equiv> fp_sub round32"
abbreviation mul32 :: "fp \<Rightarrow> fp \<Rightarrow> fp" where "mul32 \<equiv> fp_mul round32"
abbreviation div32 :: "fp \<Rightarrow> fp \<Rightarrow> fp" where "div32 \<equiv> fp_div round32"

section \<open>Comparisons\<close>

text \<open>Every comparison with NaN is false.\<close>

fun fp_less :: "fp \<Rightarrow> fp \<Rightarrow> bool" where
  "fp_less (Finite x) (Finite y) \<longleftrightarrow> x < y"
| "fp_less (Finite x) (Infinity t) \<longleftrightarrow> t"
| "fp_less (Infinity s) (Finite y) \<longleftrightarrow> \<not> s"
| "fp_less (Infinity s) (Infinity t) \<longleftrightarrow> \<not> s \<and> t"
| "fp_less _ _ \<longleftrightarrow> False"

fun fp_equal :: "fp \<Rightarrow> fp \<Rightarrow> bool" where
  "fp_equal NaN _ \<longleftrightarrow> False"
| "fp_equal a b \<longleftrightarrow> a = b"

definition fp_le :: "fp \<Rightarrow> fp \<Rightarrow> bool" where
  "fp_le a b \<longleftrightarrow> fp_less a b \<or> fp_equal a b"

text \<open>\<open>std::max\<close>\<close>

definition fp_max :: "fp \<Rightarrow> fp \<Rightarrow> fp" where
  "fp_max a b = (if fp_less a b then b else a)"

section \<open>Integers\<close>

text \<open>\<open>lrintf\<close> in the default rounding mode; the value for an argument that is no number is unspecified.\<close>

definition lrint :: "fp \<Rightarrow> int option" where
  "lrint a = (case a of Finite x \<Rightarrow> Some (round_half_even x) | _ \<Rightarrow> None)"

definition fp_floor :: "fp \<Rightarrow> fp" where
  "fp_floor a = (case a of Finite x \<Rightarrow> Finite (of_int \<lfloor>x\<rfloor>) | _ \<Rightarrow> a)"

definition fp_ceil :: "fp \<Rightarrow> fp" where
  "fp_ceil a = (case a of Finite x \<Rightarrow> Finite (of_int \<lceil>x\<rceil>) | _ \<Rightarrow> a)"

definition int64 :: "int \<Rightarrow> fp" where "int64 i = round64 (of_int i)"

definition int32 :: "int \<Rightarrow> fp" where "int32 i = round32 (of_int i)"

section \<open>Rounding error\<close>

lemma round_half_even_error: "\<bar>of_int (round_half_even y) - y\<bar> \<le> 1 / 2"
proof -
  define f where "f = \<lfloor>y\<rfloor>"
  have f: "of_int f \<le> y" "y < of_int f + 1"
    unfolding f_def by linarith+
  show ?thesis
  proof (cases "y - of_int f < 1 / 2 \<or> (y - of_int f = 1 / 2 \<and> even f)")
    case True
    then have "round_half_even y = f"
      by (simp add: round_half_even_def Let_def f_def)
    moreover have "y - of_int f \<le> 1 / 2"
      using True by auto
    ultimately show ?thesis
      using f by linarith
  next
    case False
    then have "round_half_even y = f + 1" "1 / 2 \<le> y - of_int f"
      by (simp_all add: round_half_even_def Let_def f_def not_less)
    then show ?thesis
      using f by simp
  qed
qed

lemma round_unit_error: "0 < u \<Longrightarrow> \<bar>of_int (round_half_even (x / u)) * u - x\<bar> \<le> u / 2"
proof -
  assume u: "0 < u"
  have "\<bar>of_int (round_half_even (x / u)) * u - x\<bar> = \<bar>of_int (round_half_even (x / u)) - x / u\<bar> * u"
    using u by (simp add: abs_if field_simps)
  also have "\<dots> \<le> (1 / 2) * u"
    using u round_half_even_error by (intro mult_right_mono) simp_all
  finally show ?thesis by simp
qed

text \<open>A multiple of the unit is not changed.\<close>

lemma round_unit_exact: "0 < u \<Longrightarrow> x = of_int n * u \<Longrightarrow> of_int (round_half_even (x / u)) * u = x"
  by simp

text \<open>A number of few bits is a multiple of the unit of rounding.\<close>

lemma few_bits_multiple:
  assumes "0 < n" and "n < 2 ^ p" and "e \<le> j" and x: "x = of_int n * 2 powi j"
  shows "\<exists>m. x = of_int m * 2 powi (max (exponent_of x - (int p - 1)) e)"
proof -
  have pos: "0 < x"
    using assms(1) by (simp add: x)
  have "(of_int n :: rat) < 2 ^ p"
    using assms(2) by (metis of_int_less_iff of_int_numeral of_int_power)
  then have "x < 2 powi (int p) * 2 powi j"
    unfolding x by (intro mult_strict_right_mono) simp_all
  then have "2 powi exponent_of x < (2 :: rat) powi (int p + j)"
    using exponent_of_lower [OF pos] by (simp add: power_int_add)
  then have "exponent_of x < int p + j"
    using power_int_increasing [of "int p + j" "exponent_of x" "2 :: rat"] by linarith
  define i where "i = max (exponent_of x - (int p - 1)) e"
  have "i \<le> j"
    using \<open>exponent_of x < int p + j\<close> assms(3) by (simp add: i_def)
  then obtain d where d: "j = i + int d"
    by (metis zle_iff_zadd)
  have "x = of_int (n * 2 ^ d) * 2 powi i"
    by (simp add: x d power_int_add)
  then show ?thesis
    unfolding i_def by blast
qed

lemma rnd_exact:
  assumes "0 \<le> n" and "n < 2 ^ 53" and "- 1074 \<le> j"
  shows "rnd (of_int n * 2 powi j) = of_int n * 2 powi j"
proof (cases "n = 0")
  case False
  then have "0 < n" using assms(1) by simp
  let ?x = "(of_int n :: rat) * 2 powi j"
  obtain m where "?x = of_int m * ulp ?x"
    using few_bits_multiple [OF \<open>0 < n\<close> assms(2,3) refl] by (auto simp: ulp_def)
  then have "rnd_pos ?x = ?x"
    unfolding rnd_pos_def by (rule round_unit_exact [OF ulp_pos])
  then show ?thesis
    using \<open>0 < n\<close> by (simp add: rnd_def)
qed simp

lemma float_ulp_pos [simp]: "0 < float_ulp x"
  by (simp add: float_ulp_def)

lemma float_rnd_exact:
  assumes "0 \<le> n" and "n < 2 ^ 24" and "- 149 \<le> j"
  shows "float_rnd (of_int n * 2 powi j) = of_int n * 2 powi j"
proof (cases "n = 0")
  case False
  then have "0 < n" using assms(1) by simp
  let ?x = "(of_int n :: rat) * 2 powi j"
  obtain m where "?x = of_int m * float_ulp ?x"
    using few_bits_multiple [OF \<open>0 < n\<close> assms(2,3) refl] by (auto simp: float_ulp_def)
  then have "float_rnd_pos ?x = ?x"
    unfolding float_rnd_pos_def by (rule round_unit_exact [OF float_ulp_pos])
  then show ?thesis
    using \<open>0 < n\<close> by (simp add: float_rnd_def)
qed (simp add: float_rnd_def)

text \<open>The exponent is the largest power of two below.\<close>

lemma exponent_of_upper:
  assumes "0 < x"
  shows "x < 2 powi (exponent_of x + 1)"
proof -
  obtain a b where q: "quotient_of x = (a, b)"
    by force
  then have x: "x = of_int a / of_int b" and b: "0 < b"
    by (simp_all add: quotient_of_div quotient_of_denom_pos)
  with assms have a: "0 < a"
    by (simp add: zero_less_divide_iff)
  let ?m = "flog2 (nat a)" and ?n = "flog2 (nat b)"
  have am: "nat a < 2 ^ Suc ?m" and bn: "2 ^ ?n \<le> nat b"
    using flog2_bounds [of "nat a"] flog2_bounds [of "nat b"] a b by auto
  have "a < (2 :: int) ^ Suc ?m"
    using am a by (metis nat_less_iff less_imp_le of_nat_numeral of_nat_power)
  then have am': "of_int a < (2 :: rat) ^ Suc ?m"
    by (metis of_int_less_iff of_int_numeral of_int_power)
  have "(2 :: int) ^ ?n \<le> b"
    using bn b by (metis nat_le_iff of_nat_numeral of_nat_power zle_int int_nat_eq less_imp_le)
  then have bn': "(2 :: rat) ^ ?n \<le> of_int b"
    by (metis of_int_le_iff of_int_numeral of_int_power)
  have "of_int a / of_int b \<le> (of_int a :: rat) / 2 ^ ?n"
    using a b bn' by (intro divide_left_mono) simp_all
  also have "\<dots> < 2 ^ Suc ?m / 2 ^ ?n"
    using am' by (intro divide_strict_right_mono) simp_all
  also have "\<dots> = (2 :: rat) powi (int ?m - int ?n + 1)"
    using powi_split [of "Suc ?m" ?n] by (simp add: algebra_simps)
  finally have "x < 2 powi (int ?m - int ?n + 1)"
    by (simp add: x)
  moreover have "exponent_of x = (if 2 powi (int ?m - int ?n) \<le> x then int ?m - int ?n else int ?m - int ?n - 1)"
    by (simp add: exponent_of_def q Let_def)
  ultimately show ?thesis
    by auto
qed

lemma exponent_of_ge: "2 powi k \<le> x \<Longrightarrow> k \<le> exponent_of x"
proof (rule ccontr)
  assume k: "2 powi k \<le> x" and "\<not> k \<le> exponent_of x"
  then have "(2 :: rat) powi (exponent_of x + 1) \<le> 2 powi k"
    by (intro power_int_increasing) simp_all
  moreover have "0 < x"
    using k by (rule less_le_trans [rotated]) simp
  ultimately show False
    using exponent_of_upper [of x] k by linarith
qed

lemma exponent_of_less: "0 < x \<Longrightarrow> x < 2 powi k \<Longrightarrow> exponent_of x < k"
proof (rule ccontr)
  assume x: "0 < x" "x < 2 powi k" and "\<not> exponent_of x < k"
  then have "(2 :: rat) powi k \<le> 2 powi exponent_of x"
    by (intro power_int_increasing) simp_all
  then show False
    using exponent_of_lower [OF x(1)] x(2) by linarith
qed

text \<open>A number that is less than half a unit above a power of two is rounded to at most that power.\<close>

lemma round_unit_le: "0 < u \<Longrightarrow> x < (of_int m + 1 / 2) * u \<Longrightarrow> of_int (round_half_even (x / u)) * u \<le> of_int m * u"
proof (intro mult_right_mono)
  assume u: "0 < u" and x: "x < (of_int m + 1 / 2) * u"
  have y: "x / u < of_int m + 1 / 2"
    using u x by (simp add: pos_divide_less_eq)
  have "of_int (round_half_even (x / u)) < (of_int (m + 1) :: rat)"
    using abs_le_D1 [OF round_half_even_error [of "x / u"]] y by simp
  then show "(of_int (round_half_even (x / u)) :: rat) \<le> of_int m"
    by (simp only: of_int_less_iff of_int_le_iff)
qed (rule less_imp_le)

lemma round_to_power:
  assumes "0 < x" and "x < 2 powi k + 2 powi (k - int p)" and "e \<le> k - int p" and "0 < p"
  shows "of_int (round_half_even (x / 2 powi (max (exponent_of x - (int p - 1)) e))) *
    2 powi (max (exponent_of x - (int p - 1)) e) \<le> (2 :: rat) powi k"
proof -
  define i where "i = max (exponent_of x - (int p - 1)) e"
  have "(2 :: rat) powi (k - int p) \<le> 2 powi k"
    by (intro power_int_increasing) simp_all
  then have "x < 2 powi (k + 1)"
    using assms(2) by (simp add: power_int_add)
  then have "exponent_of x < k + 1"
    by (rule exponent_of_less [OF assms(1)])
  then have i: "i \<le> k + 1 - int p"
    using assms(3) by (simp add: i_def)
  obtain d where d: "k = i + int d"
    using i assms(4) zle_iff_zadd [of i k] by auto
  have half: "x < (of_int (2 ^ d) + 1 / 2) * 2 powi i"
  proof (cases "exponent_of x = k")
    case True
    then have "i = k - (int p - 1)"
      using assms(3) by (simp add: i_def)
    then have "(1 / 2) * (2 :: rat) powi i = 2 powi (k - int p)"
      by (simp add: power_int_diff power_int_add)
    then show ?thesis
      using assms(2) d by (simp add: algebra_simps power_int_add)
  next
    case False
    then have "exponent_of x + 1 \<le> k"
      using \<open>exponent_of x < k + 1\<close> by simp
    then have "(2 :: rat) powi (exponent_of x + 1) \<le> 2 powi k"
      by (intro power_int_increasing) simp_all
    then have "x < 2 powi k"
      using exponent_of_upper [OF assms(1)] by linarith
    then show ?thesis
      using d by (simp add: algebra_simps power_int_add add_strict_increasing2)
  qed
  have "of_int (round_half_even (x / 2 powi i)) * 2 powi i \<le> of_int (2 ^ d) * (2 :: rat) powi i"
    by (rule round_unit_le [OF _ half]) simp
  also have "\<dots> = 2 powi k"
    by (simp add: d power_int_add)
  finally show ?thesis
    by (simp only: i_def)
qed

lemma rnd_le_power:
  assumes "0 \<le> x" and "x < 2 powi k + 2 powi (k - 53)" and "- 1021 \<le> k"
  shows "rnd x \<le> 2 powi k"
  using round_to_power [of x k 53 "- 1074"] assms by (cases "x = 0") (simp_all add: rnd_def rnd_pos_def ulp_def)

lemma float_rnd_le_power:
  assumes "0 \<le> x" and "x < 2 powi k + 2 powi (k - 24)" and "- 125 \<le> k"
  shows "float_rnd x \<le> 2 powi k"
  using round_to_power [of x k 24 "- 149"] assms
  by (cases "x = 0") (simp_all add: float_rnd_def float_rnd_pos_def float_ulp_def)

lemma float_rnd_nonneg: "0 \<le> x \<Longrightarrow> 0 \<le> float_rnd x"
proof -
  assume "0 \<le> x"
  moreover have "0 \<le> x \<Longrightarrow> 0 \<le> round_half_even (x / float_ulp x)"
    by (rule round_half_even_ge) (simp add: less_imp_le)
  ultimately show "0 \<le> float_rnd x"
    by (auto simp: float_rnd_def float_rnd_pos_def less_imp_le)
qed

text \<open>The results of operations on numbers up to \<open>2 ^ 100\<close> are numbers.\<close>

lemma round64_power:
  assumes "0 \<le> x" and "x < 2 powi k + 2 powi (k - 53)" and "- 1021 \<le> k" and "k \<le> 100"
  shows "round64 x = Finite (rnd x) \<and> 0 \<le> rnd x \<and> rnd x \<le> 2 powi k"
proof -
  have r: "rnd x \<le> 2 powi k" "0 \<le> rnd x"
    using rnd_le_power [OF assms(1-3)] rnd_nonneg [OF assms(1)] by auto
  have "(2 :: rat) powi k \<le> 2 powi 100"
    using assms(4) by (intro power_int_increasing) simp_all
  also have "\<dots> < (2 :: rat) ^ 1024"
    by simp
  finally have "rnd x < 2 ^ 1024"
    using r(1) by simp
  then show ?thesis
    using r by (simp add: round64_def below_overflow_def not_le)
qed

lemma round32_power:
  assumes "0 \<le> x" and "x < 2 powi k + 2 powi (k - 24)" and "- 125 \<le> k" and "k \<le> 100"
  shows "round32 x = Finite (float_rnd x) \<and> 0 \<le> float_rnd x \<and> float_rnd x \<le> 2 powi k"
proof -
  have r: "float_rnd x \<le> 2 powi k" "0 \<le> float_rnd x"
    using float_rnd_le_power [OF assms(1-3)] float_rnd_nonneg [OF assms(1)] by auto
  have "(2 :: rat) powi k \<le> 2 powi 100"
    using assms(4) by (intro power_int_increasing) simp_all
  also have "\<dots> < (2 :: rat) ^ 128"
    by simp
  finally have "float_rnd x < 2 ^ 128"
    using r(1) by simp
  then show ?thesis
    using r by (simp add: round32_def below_overflow_def not_le)
qed

lemma round64_exact:
  assumes "0 \<le> n" and "n < 2 ^ 53" and "- 1000 \<le> j" and "j \<le> 40"
  shows "round64 (of_int n * 2 powi j) = Finite (of_int n * 2 powi j)"
proof -
  have "(of_int n :: rat) < 2 ^ 53"
    using assms(2) by (metis of_int_less_iff of_int_numeral of_int_power)
  then have "(of_int n :: rat) * 2 powi j < 2 ^ 53 * 2 powi j"
    by (intro mult_strict_right_mono) simp_all
  also have "\<dots> \<le> 2 ^ 53 * (2 :: rat) powi 40"
    using assms(4) by (intro mult_left_mono power_int_increasing) simp_all
  also have "\<dots> = 2 powi 93"
    by simp
  finally have "(of_int n :: rat) * 2 powi j < 2 powi 93 + 2 powi (93 - 53)"
    by (rule less_le_trans) simp
  moreover have "0 \<le> (of_int n :: rat) * 2 powi j"
    using assms(1) by simp
  ultimately have "round64 (of_int n * 2 powi j) = Finite (rnd (of_int n * 2 powi j))"
    using round64_power [of "of_int n * 2 powi j" 93] by simp
  then show ?thesis
    using rnd_exact [of n j] assms(1-3) by simp
qed

lemma round32_exact:
  assumes "0 \<le> n" and "n < 2 ^ 24"
  shows "round32 (of_int n) = Finite (of_int n)"
proof -
  have "(of_int n :: rat) < 2 ^ 24"
    using assms(2) by (metis of_int_less_iff of_int_numeral of_int_power)
  then have "round32 (of_int n) = Finite (float_rnd (of_int n))"
    using round32_power [of "of_int n" 24] assms(1) by simp
  then show ?thesis
    using float_rnd_exact [OF assms, of 0] by simp
qed

lemma int64_exact: "0 \<le> n \<Longrightarrow> n < 2 ^ 53 \<Longrightarrow> int64 n = Finite (of_int n)"
  using round64_exact [of n 0] by (simp add: int64_def)

lemma int32_exact: "0 \<le> n \<Longrightarrow> n < 2 ^ 24 \<Longrightarrow> int32 n = Finite (of_int n)"
  using round32_exact [of n] by (simp add: int32_def)

text \<open>The error is at most half the unit of numbers below a power of two.\<close>

lemma rnd_near:
  assumes "0 \<le> x" and "x < 2 powi k" and "- 1021 \<le> k"
  shows "rnd x \<le> x + 2 powi (k - 54)"
proof (cases "x = 0")
  case False
  then have pos: "0 < x" using assms(1) by simp
  have "exponent_of x < k"
    using pos assms(2) by (rule exponent_of_less)
  then have "ulp x \<le> 2 powi (k - 53)"
    unfolding ulp_def using assms(3) by (intro power_int_increasing) simp_all
  also have "\<dots> = 2 * 2 powi (k - 54)"
    using power_int_add [of "2 :: rat" 1 "k - 54"] by simp
  finally have "ulp x / 2 \<le> 2 powi (k - 54)"
    by simp
  moreover have "rnd x - x \<le> ulp x / 2"
    using abs_le_D1 [OF round_unit_error [OF ulp_pos, of x x]] pos by (simp add: rnd_def rnd_pos_def)
  ultimately show ?thesis by linarith
qed simp

lemma rnd_near_below:
  assumes "0 \<le> x" and "x < 2 powi k" and "- 1021 \<le> k"
  shows "x - 2 powi (k - 54) \<le> rnd x"
proof (cases "x = 0")
  case False
  then have pos: "0 < x" using assms(1) by simp
  have "exponent_of x < k"
    using pos assms(2) by (rule exponent_of_less)
  then have "ulp x \<le> 2 powi (k - 53)"
    unfolding ulp_def using assms(3) by (intro power_int_increasing) simp_all
  also have "\<dots> = 2 * 2 powi (k - 54)"
    using power_int_add [of "2 :: rat" 1 "k - 54"] by simp
  finally have "ulp x / 2 \<le> 2 powi (k - 54)"
    by simp
  moreover have "x - rnd x \<le> ulp x / 2"
    using abs_le_D2 [OF round_unit_error [OF ulp_pos, of x x]] pos by (simp add: rnd_def rnd_pos_def)
  ultimately show ?thesis by linarith
qed simp

lemma float_rnd_near:
  assumes "0 \<le> x" and "x < 2 powi k" and "- 125 \<le> k"
  shows "float_rnd x \<le> x + 2 powi (k - 25)"
proof (cases "x = 0")
  case False
  then have pos: "0 < x" using assms(1) by simp
  have "exponent_of x < k"
    using pos assms(2) by (rule exponent_of_less)
  then have "float_ulp x \<le> 2 powi (k - 24)"
    unfolding float_ulp_def using assms(3) by (intro power_int_increasing) simp_all
  also have "\<dots> = 2 * 2 powi (k - 25)"
    using power_int_add [of "2 :: rat" 1 "k - 25"] by simp
  finally have "float_ulp x / 2 \<le> 2 powi (k - 25)"
    by simp
  moreover have "float_rnd x - x \<le> float_ulp x / 2"
    using abs_le_D1 [OF round_unit_error [OF float_ulp_pos, of x x]] pos by (simp add: float_rnd_def float_rnd_pos_def)
  ultimately show ?thesis by linarith
qed (simp add: float_rnd_def)

end
