(* ===== verification/Cairo_Objects.thy ===== *)
theory Cairo_Objects
  imports Display Floats
begin

text \<open>
  Drawing, \<open>src/src/graphing/cairo_objects.cc\<close> and \<open>cairo_objects.hh\<close>. A surface is what was drawn on it,
  the list of the calls of cairo; what the library computes from it (coordinates under the current
  transformation, whether it is in an error state) and the extents of a text are arguments.
\<close>

text \<open>A path of a text is the text and its font.\<close>

datatype cairo_op =
    CairoNewPath
  | CairoIdentityMatrix
  | CairoRectangle fp fp fp fp
  | CairoSetSourceRGBA fp fp fp fp
  | CairoSetSourcePattern
  | CairoSetLineWidth fp
  | CairoMoveTo fp fp
  | CairoLineTo fp fp
  | CairoFill
  | CairoStroke
  | CairoScale fp fp
  | CairoRotate fp
  | CairoTranslate fp fp
  | PangoLayoutPath string string
  | CairoAppendPath string string

type_synonym drawing = "cairo_op list"

text \<open>An error state is the text of the status; the last two print a number in the user's locale.\<close>

record drawing_lib =
  surface_status :: "xpixmap \<Rightarrow> string option"
  context_status :: "xpixmap \<Rightarrow> string option"
  pattern_status :: "string option"
  user_to_device :: "drawing \<Rightarrow> fp \<times> fp \<Rightarrow> fp \<times> fp"
  device_to_user :: "drawing \<Rightarrow> fp \<times> fp \<Rightarrow> fp \<times> fp"
  pango_layout_extents :: "string \<Rightarrow> string \<Rightarrow> int \<times> int \<times> int \<times> int"
  format_int :: "int \<Rightarrow> string"
  format_double :: "fp \<Rightarrow> string"

section \<open>Cairo\<close>

record cairo =
  cairo_size :: extent_pair
  cairo_ops :: drawing

definition status_error :: "string \<Rightarrow> string option \<Rightarrow> unit res" where
  "status_error context status =
     (case status of None \<Rightarrow> Inr () | Some message \<Rightarrow> Inl (RuntimeError (context @ message)))"

definition surface_check :: "drawing_lib \<Rightarrow> xpixmap \<Rightarrow> unit res" where
  "surface_check L pixmap = status_error ''cairo surface error: '' (surface_status L pixmap)"

definition context_check :: "drawing_lib \<Rightarrow> xpixmap \<Rightarrow> unit res" where
  "context_check L pixmap = status_error ''cairo context error: '' (context_status L pixmap)"

definition cairo_check :: "drawing_lib \<Rightarrow> xpixmap \<Rightarrow> unit res" where
  "cairo_check L pixmap = rbind (context_check L pixmap) (\<lambda>_. surface_check L pixmap)"

text \<open>The surface, the context and then both are checked.\<close>

definition cairo_new :: "drawing_lib \<Rightarrow> xpixmap \<Rightarrow> cairo res" where
  "cairo_new L pixmap =
     rbind (surface_check L pixmap) (\<lambda>_.
     rbind (context_check L pixmap) (\<lambda>_.
     rbind (cairo_check L pixmap) (\<lambda>_.
       Inr \<lparr>cairo_size = pixmap_size pixmap, cairo_ops = []\<rparr>)))"

definition pattern_new :: "drawing_lib \<Rightarrow> unit res" where
  "pattern_new L = status_error ''cairo pattern error: '' (pattern_status L)"

section \<open>Extents and texts\<close>

record extent =
  extent_x :: fp
  extent_y :: fp
  extent_width :: fp
  extent_height :: fp

text \<open>An extent whose two corners are transformed.\<close>

definition extent_through :: "(fp \<times> fp \<Rightarrow> fp \<times> fp) \<Rightarrow> extent \<Rightarrow> extent" where
  "extent_through f e =
     (case f (extent_x e, extent_y e) of (x1, y1) \<Rightarrow>
      case f (add64 (extent_x e) (extent_width e), add64 (extent_y e) (extent_height e)) of (x2, y2) \<Rightarrow>
        \<lparr>extent_x = x1, extent_y = y1, extent_width = sub64 x2 x1, extent_height = sub64 y2 y1\<rparr>)"

definition to_user :: "drawing_lib \<Rightarrow> drawing \<Rightarrow> extent \<Rightarrow> extent" where
  "to_user L d = extent_through (device_to_user L d)"

definition to_device :: "drawing_lib \<Rightarrow> drawing \<Rightarrow> extent \<Rightarrow> extent" where
  "to_device L d = extent_through (user_to_device L d)"

record pango_text =
  text_font :: string
  text_string :: string
  text_extent :: extent

definition PANGO_SCALE :: fp where "PANGO_SCALE = Finite 1024"

definition text_new :: "drawing_lib \<Rightarrow> string \<Rightarrow> string \<Rightarrow> drawing \<Rightarrow> pango_text \<times> drawing" where
  "text_new L font str d =
     (case pango_layout_extents L font str of (x, y, w, h) \<Rightarrow>
        (\<lparr>text_font = font, text_string = str,
          text_extent = \<lparr>extent_x = div64 (int64 x) PANGO_SCALE, extent_y = div64 (int64 y) PANGO_SCALE,
            extent_width = div64 (int64 w) PANGO_SCALE, extent_height = div64 (int64 h) PANGO_SCALE\<rparr>\<rparr>,
         d @ [CairoIdentityMatrix, CairoNewPath, PangoLayoutPath font str]))"

text \<open>\<open>numeric_limits<double>::max()\<close>\<close>

definition DBL_MAX :: fp where "DBL_MAX = Finite (2 ^ 1024 - 2 ^ 971)"

definition draw_centered_at ::
  "drawing_lib \<Rightarrow> pango_text \<Rightarrow> fp \<Rightarrow> fp \<Rightarrow> fp \<Rightarrow> drawing \<Rightarrow> drawing" where
  "draw_centered_at L txt x y max_width d =
     (let d1 = d @ [CairoIdentityMatrix, CairoNewPath];
          my_extent = to_device L d1 (text_extent txt);
          scale_factor = div64 max_width (extent_width my_extent);
          scaled = fp_less max_width (extent_width my_extent);
          d2 = (if scaled then d1 @ [CairoScale scale_factor scale_factor] else d1);
          width = (if scaled then mul64 (extent_width my_extent) scale_factor else extent_width my_extent);
          height = (if scaled then mul64 (extent_height my_extent) scale_factor else extent_height my_extent);
          center_x = sub64 (sub64 x (extent_x my_extent)) (div64 width (Finite 2));
          center_y = sub64 (sub64 y (extent_y my_extent)) (div64 height (Finite 2))
      in case device_to_user L d2 (center_x, center_y) of (tx, ty) \<Rightarrow>
           d2 @ [CairoTranslate tx ty, CairoAppendPath (text_font txt) (text_string txt)])"

definition draw_centered_rotated_at :: "drawing_lib \<Rightarrow> pango_text \<Rightarrow> fp \<Rightarrow> fp \<Rightarrow> drawing \<Rightarrow> drawing" where
  "draw_centered_rotated_at L txt x y d =
     (let d1 = d @ [CairoIdentityMatrix, CairoNewPath,
                    CairoRotate (div64 (round64 (- (31415926 / 10000000))) (Finite 2))];
          my_extent = to_device L d1 (text_extent txt);
          center_x = sub64 (sub64 x (extent_x my_extent)) (div64 (extent_width my_extent) (Finite 2));
          center_y = sub64 (sub64 y (extent_y my_extent)) (div64 (extent_height my_extent) (Finite 2))
      in case device_to_user L d1 (center_x, center_y) of (tx, ty) \<Rightarrow>
           d1 @ [CairoTranslate tx ty, CairoAppendPath (text_font txt) (text_string txt)])"

end
