(* ===== verification/Graph.thy ===== *)
theory Graph
  imports Cairo_Objects
begin

text \<open>
  The scrolling graph of \<open>src/src/graphing/graph.cc\<close> and \<open>graph.hh\<close>: lines of data points, the scale, the
  labels of both axes and the drawing of a frame, a list of calls of cairo. The blocks of \<open>blocking_draw\<close>
  are one definition each, composed by \<open>blocking_draw\<close>; the loops whose end depends on numbers are
  \<^theory_text>\<open>partial_function\<close>s.
\<close>

section \<open>The state\<close>

record y_label =
  label_height :: fp
  label_text :: pango_text
  label_intensity :: fp

record graphic_context =
  gc_pixmap :: xpixmap
  gc_cairo :: cairo

text \<open>Red, green, blue, opacity, and whether the area is filled.\<close>

type_synonym style = "fp \<times> fp \<times> fp \<times> fp \<times> bool"

record graph =
  graph_window :: xwindow
  gcs :: "graphic_context list"
  current_gc_index :: nat
  x_tick_labels :: "(int \<times> pango_text) list"
  y_tick_labels :: "y_label list"
  styles :: "style list"
  data_points :: "(fp \<times> fp) list list"
  x_label :: pango_text
  y_axis_label :: pango_text
  info :: pango_text
  target_min_y :: fp
  target_max_y :: fp
  graph_bottom :: fp
  graph_top :: fp

definition graph_font :: string where "graph_font = ''Open Sans Condensed Bold 20''"

definition graphic_context_new ::
  "'x xcb_calls \<Rightarrow> drawing_lib \<Rightarrow> xwindow \<Rightarrow> 'x \<Rightarrow> (graphic_context \<times> 'x) res" where
  "graphic_context_new X L w x =
     rbind (xpixmap_new X w x) (\<lambda>(pixmap, x1).
     rbind (cairo_new L pixmap) (\<lambda>cairo.
       Inr (\<lparr>gc_pixmap = pixmap, gc_cairo = cairo\<rparr>, x1)))"

definition current_gc :: "graph \<Rightarrow> graphic_context" where
  "current_gc g = gcs g ! current_gc_index g"

definition gc_draw :: "(drawing \<Rightarrow> drawing) \<Rightarrow> graphic_context \<Rightarrow> graphic_context" where
  "gc_draw f gc = gc\<lparr>gc_cairo := (gc_cairo gc)\<lparr>cairo_ops := f (cairo_ops (gc_cairo gc))\<rparr>\<rparr>"

text \<open>Calls on the current context.\<close>

definition draw :: "(drawing \<Rightarrow> drawing) \<Rightarrow> graph \<Rightarrow> graph" where
  "draw f g = g\<lparr>gcs := (gcs g)[current_gc_index g := gc_draw f (current_gc g)]\<rparr>"

definition drawing_of :: "graph \<Rightarrow> drawing" where
  "drawing_of g = cairo_ops (gc_cairo (current_gc g))"

text \<open>The constructor: three contexts of the same window, and texts made on the first.\<close>

definition graph_new ::
  "'x xcb_calls \<Rightarrow> drawing_lib \<Rightarrow> u32 \<Rightarrow> u32 \<Rightarrow> string \<Rightarrow> fp \<Rightarrow> fp \<Rightarrow> style list \<Rightarrow> string \<Rightarrow> string \<Rightarrow> 'x \<Rightarrow>
     (graph \<times> 'x) res" where
  "graph_new X L initial_width initial_height title min_y max_y sts x_str y_str x =
     rbind (xwindow_new X initial_width initial_height x) (\<lambda>(w, x1).
     rbind (graphic_context_new X L w x1) (\<lambda>(gc0, x2).
     rbind (graphic_context_new X L w x2) (\<lambda>(gc1, x3).
     rbind (graphic_context_new X L w x3) (\<lambda>(gc2, x4).
     case text_new L graph_font x_str (cairo_ops (gc_cairo gc0)) of (x_text, d1) \<Rightarrow>
     case text_new L graph_font y_str d1 of (y_text, d2) \<Rightarrow>
     case text_new L graph_font '''' d2 of (info_text, d3) \<Rightarrow>
     rbind (pattern_new L) (\<lambda>_.
     rbind (xwindow_set_name X w title x4) (\<lambda>x5.
     rbind (xwindow_map X w x5) (\<lambda>x6.
     rbind (xwindow_flush X x6) (\<lambda>x7.
       Inr (\<lparr>graph_window = w, gcs = [gc_draw (\<lambda>_. d3) gc0, gc1, gc2], current_gc_index = 0,
             x_tick_labels = [], y_tick_labels = [], styles = sts, data_points = replicate (length sts) [],
             x_label = x_text, y_axis_label = y_text, info = info_text,
             target_min_y = min_y, target_max_y = max_y, graph_bottom = min_y, graph_top = max_y\<rparr>,
            x7)))))))))"

definition add_data_point :: "nat \<Rightarrow> fp \<Rightarrow> fp \<Rightarrow> graph \<Rightarrow> graph res" where
  "add_data_point num t y g =
     (if length (data_points g) \<le> num then Inl OutOfRange
      else Inr (g\<lparr>data_points := (data_points g)[num := data_points g ! num @ [(t, y)]]\<rparr>))"

section \<open>Positions\<close>

text \<open>Windows have unsigned sizes, which become a \<open>float\<close> or a \<open>double\<close> as the other operand is.\<close>

definition u32_float :: "u32 \<Rightarrow> fp" where "u32_float w = int32 (uint w)"

definition u32_double :: "u32 \<Rightarrow> fp" where "u32_double w = int64 (uint w)"

text \<open>A literal.\<close>

definition lit :: "rat \<Rightarrow> fp" where "lit q = round64 q"

definition project_height :: "graph \<Rightarrow> fp \<Rightarrow> fp" where
  "project_height g x = div32 (sub32 x (graph_bottom g)) (sub32 (graph_top g) (graph_bottom g))"

definition chart_height :: "graph \<Rightarrow> fp \<Rightarrow> u32 \<Rightarrow> fp" where
  "chart_height g x window_height =
     to_float (add64
       (mul64 (u32_double (window_height - 40))
         (add64 (mul64 (lit (825 / 1000)) (sub32 (Finite 1) (project_height g x))) (lit (25 / 1000))))
       (mul64 (lit (825 / 1000)) (Finite 40)))"

definition x_position :: "fp \<Rightarrow> fp \<Rightarrow> fp \<Rightarrow> u32 \<Rightarrow> fp" where
  "x_position t x logical_width window_width =
     sub32 (u32_float window_width) (div32 (mul32 (sub32 t x) (u32_float window_width)) logical_width)"

section \<open>The lines\<close>

text \<open>\<open>cairo.size()\<close> of the current context is the argument \<open>dims\<close>.\<close>

definition begin_line :: "graph \<Rightarrow> fp \<Rightarrow> fp \<Rightarrow> fp \<Rightarrow> fp \<Rightarrow> extent_pair \<Rightarrow> drawing" where
  "begin_line g t x y logical_width dims =
     [CairoIdentityMatrix, CairoSetLineWidth (Finite 3),
      CairoMoveTo (x_position t x logical_width (fst dims)) (chart_height g y (snd dims))]"

definition add_segment :: "graph \<Rightarrow> fp \<Rightarrow> fp \<Rightarrow> fp \<Rightarrow> fp \<Rightarrow> extent_pair \<Rightarrow> drawing" where
  "add_segment g t x y logical_width dims =
     [CairoLineTo (x_position t x logical_width (fst dims)) (chart_height g y (snd dims))]"

definition end_line :: "graph \<Rightarrow> fp \<Rightarrow> fp \<Rightarrow> fp \<Rightarrow> bool \<Rightarrow> extent_pair \<Rightarrow> drawing" where
  "end_line g t x logical_width fill dims =
     (if fill then
        [CairoLineTo (u32_double (fst dims)) (chart_height g (Finite 0) (snd dims)),
         CairoLineTo (x_position t x logical_width (fst dims)) (chart_height g (Finite 0) (snd dims)),
         CairoFill]
      else [CairoStroke])"

text \<open>The points of a line: \<open>pen\<close> is the last point drawn while the pen is down.\<close>

fun draw_points ::
  "graph \<Rightarrow> fp \<Rightarrow> fp \<Rightarrow> bool \<Rightarrow> extent_pair \<Rightarrow> (fp \<times> fp) option \<Rightarrow> (fp \<times> fp) list \<Rightarrow>
     (fp \<times> fp) option \<times> drawing" where
  "draw_points g t logical_width fill dims pen [] = (pen, [])"
| "draw_points g t logical_width fill dims pen (p # ps) =
     (case (case pen of
              Some last_point \<Rightarrow>
                if fp_le (Finite 0) (snd p)
                then (Some p, add_segment g t (fst p) (snd p) logical_width dims)
                else (None, end_line g t (fst last_point) logical_width fill dims)
            | None \<Rightarrow>
                if fp_le (Finite 0) (snd p)
                then (Some p, begin_line g t (fst p) (snd p) logical_width dims)
                else (None, [])) of
        (pen1, d) \<Rightarrow>
      case draw_points g t logical_width fill dims pen1 ps of
        (pen2, d') \<Rightarrow> (pen2, d @ d'))"

definition draw_line ::
  "graph \<Rightarrow> fp \<Rightarrow> fp \<Rightarrow> fp \<Rightarrow> extent_pair \<Rightarrow> style \<times> (fp \<times> fp) list \<times> fp \<Rightarrow> drawing" where
  "draw_line g t logical_width current_weight dims = (\<lambda>((red, green, blue, opacity, fill), line, current).
     if line = [] then []
     else CairoSetSourceRGBA red green blue opacity #
       (case draw_points g t logical_width fill dims None line of
          (None, d) \<Rightarrow> d
        | (Some _, d) \<Rightarrow>
            d @
            (if fp_le (Finite 0) (snd (last line)) \<and> fp_le (Finite 0) current
             then add_segment g t t
               (to_float (add64 (mul64 current_weight current)
                  (mul64 (sub64 (Finite 1) current_weight) (snd (last line))))) logical_width dims
             else []) @
            end_line g t (fst (hd line)) logical_width fill dims))"

section \<open>A frame: the data and the scale\<close>

text \<open>Where the left edge of the window is, with a second to spare.\<close>

definition left_edge :: "fp \<Rightarrow> fp \<Rightarrow> fp" where
  "left_edge t logical_width = sub32 (sub32 t logical_width) (Finite 1)"

text \<open>A point goes when it and the next one are to the left of the window.\<close>

fun trim_line :: "fp \<Rightarrow> (fp \<times> fp) list \<Rightarrow> (fp \<times> fp) list" where
  "trim_line edge (p # q # ps) =
     (if fp_less (fst p) edge \<and> fp_less (fst q) edge then trim_line edge (q # ps) else p # q # ps)"
| "trim_line edge ps = ps"

text \<open>\<open>numeric_limits<float>::min()\<close> is the smallest positive normal number.\<close>

definition FLT_MIN :: fp where "FLT_MIN = Finite (1 / 2 ^ 126)"

definition larger :: "fp \<Rightarrow> fp \<Rightarrow> fp" where
  "larger max_value y = (if fp_less max_value y then y else max_value)"

text \<open>The largest value of one line, which is not looked at when it is filled.\<close>

definition line_max :: "fp \<Rightarrow> style \<times> (fp \<times> fp) list \<times> fp \<Rightarrow> fp \<Rightarrow> fp" where
  "line_max current_weight = (\<lambda>((red, green, blue, opacity, fill), line, current) max_value.
     if fill then max_value
     else let m = foldl larger max_value (map snd line)
          in if fp_less (lit (4 / 10)) current_weight then larger m current else m)"

definition frame_lines :: "graph \<Rightarrow> fp list \<Rightarrow> (style \<times> (fp \<times> fp) list \<times> fp) list" where
  "frame_lines g current_values = zip (styles g) (zip (data_points g) current_values)"

definition max_value :: "graph \<Rightarrow> fp list \<Rightarrow> fp \<Rightarrow> fp" where
  "max_value g current_values current_weight =
     foldl (\<lambda>m l. line_max current_weight l m) FLT_MIN (frame_lines g current_values)"

definition expand :: "fp \<Rightarrow> graph \<Rightarrow> graph" where
  "expand m g =
     (if fp_less (target_max_y g) (mul64 m (lit (12 / 10)))
      then g\<lparr>target_max_y := fp_max (mul32 m (round32 (14 / 10))) (add32 (target_min_y g) (Finite 1))\<rparr>
      else g)"

definition contract :: "fp \<Rightarrow> graph \<Rightarrow> graph" where
  "contract m g =
     (if fp_less (mul64 m (lit (18 / 10))) (target_max_y g)
      then g\<lparr>target_max_y := fp_max (mul32 m (round32 (16 / 10))) (add32 (target_min_y g) (Finite 1))\<rparr>
      else g)"

text \<open>A value moves a twentieth of the way to its target.\<close>

definition smoothed :: "fp \<Rightarrow> fp \<Rightarrow> fp" where
  "smoothed v target = to_float (add64 (mul64 v (lit (95 / 100))) (mul64 target (lit (5 / 100))))"

definition smooth :: "graph \<Rightarrow> graph" where
  "smooth g = g\<lparr>graph_top := smoothed (graph_top g) (target_max_y g),
               graph_bottom := smoothed (graph_bottom g) (target_min_y g)\<rparr>"

text \<open>Trimming, the assertions, the scale. \<open>styles.at\<close> throws when there are more lines than styles.\<close>

definition rescale :: "fp \<Rightarrow> fp \<Rightarrow> fp list \<Rightarrow> fp \<Rightarrow> graph \<Rightarrow> graph res" where
  "rescale t logical_width current_values current_weight g0 =
     (let g = g0\<lparr>data_points := map (trim_line (left_edge t logical_width)) (data_points g0)\<rparr> in
      if length (data_points g) \<noteq> length current_values then Inl AssertFail
      else if \<not> fp_le (Finite 0) current_weight then Inl AssertFail
      else if \<not> fp_le current_weight (Finite 1) then Inl AssertFail
      else if length (styles g) < length (data_points g) then Inl OutOfRange
      else let m = max_value g current_values current_weight
           in Inr (smooth (contract m (expand m g))))"

section \<open>The window of a frame\<close>

text \<open>Move assignment of a new context: the old pixmap is freed.\<close>

definition resize ::
  "'x xcb_calls \<Rightarrow> drawing_lib \<Rightarrow> extent_pair \<Rightarrow> graph \<Rightarrow> 'x \<Rightarrow> (graph \<times> 'x) res" where
  "resize X L window_size g x =
     (if window_size \<noteq> cairo_size (gc_cairo (current_gc g)) then
        rbind (graphic_context_new X L (graph_window g) x) (\<lambda>(gc, x1).
          case xpixmap_assign X (gc_pixmap (current_gc g)) (gc_pixmap gc) x1 of (pixmap, _, x2) \<Rightarrow>
            Inr (g\<lparr>gcs := (gcs g)[current_gc_index g := gc\<lparr>gc_pixmap := pixmap\<rparr>]\<rparr>, x2))
      else Inr (g, x))"

definition start_image :: "extent_pair \<Rightarrow> drawing" where
  "start_image window_size =
     [CairoNewPath, CairoIdentityMatrix,
      CairoRectangle (Finite 0) (Finite 0) (u32_double (fst window_size)) (u32_double (snd window_size)),
      CairoSetSourceRGBA (Finite 1) (Finite 1) (Finite 1) (Finite 1), CairoFill]"

section \<open>The labels of the time axis\<close>

definition drop_tick_labels :: "fp \<Rightarrow> fp \<Rightarrow> graph \<Rightarrow> graph" where
  "drop_tick_labels t logical_width g =
     g\<lparr>x_tick_labels :=
        dropWhile (\<lambda>x. fp_less (int32 (fst x)) (left_edge t logical_width)) (x_tick_labels g)\<rparr>"

text \<open>\<open>static_cast<int>( lrintf( x ) )\<close>, through \<open>long\<close>.\<close>

definition to_int :: "fp \<Rightarrow> int res" where
  "to_int x =
     (case lrint x of
        None \<Rightarrow> Inl Undefined
      | Some v \<Rightarrow> if - (2 ^ 63) \<le> v \<and> v < 2 ^ 63 then Inr (sint (word_of_int v :: u32)) else Inl Undefined)"

definition next_tick :: "fp \<Rightarrow> graph \<Rightarrow> int res" where
  "next_tick t g =
     (if x_tick_labels g = [] then to_int t
      else if fst (last (x_tick_labels g)) = 2 ^ 31 - 1 then Inl Undefined
      else Inr (fst (last (x_tick_labels g)) + 1))"

text \<open>Making a text draws on the current context.\<close>

definition add_tick :: "drawing_lib \<Rightarrow> int \<Rightarrow> graph \<Rightarrow> graph" where
  "add_tick L label g =
     (case text_new L graph_font (format_int L label) (drawing_of g) of (txt, d) \<Rightarrow>
        draw (\<lambda>_. d) (g\<lparr>x_tick_labels := x_tick_labels g @ [(label, txt)]\<rparr>))"

partial_function (option) add_tick_labels :: "drawing_lib \<Rightarrow> fp \<Rightarrow> graph \<Rightarrow> graph res option" where
  "add_tick_labels L t g =
     (if x_tick_labels g = [] \<or> fp_less (int32 (fst (last (x_tick_labels g)))) (add32 t (Finite 1))
      then case next_tick t g of
             Inl e \<Rightarrow> Some (Inl e)
           | Inr label \<Rightarrow> add_tick_labels L t (add_tick L label g)
      else Some (Inr g))"

definition blue_ink :: "fp \<Rightarrow> cairo_op" where
  "blue_ink opacity = CairoSetSourceRGBA (Finite 0) (Finite 0) (lit (4 / 10)) opacity"

definition draw_tick ::
  "drawing_lib \<Rightarrow> graph \<Rightarrow> fp \<Rightarrow> fp \<Rightarrow> extent_pair \<Rightarrow> int \<times> pango_text \<Rightarrow> drawing \<Rightarrow> drawing" where
  "draw_tick L g t logical_width window_size x d =
     (let width = u32_double (fst window_size); height = u32_double (snd window_size);
          x_pos = x_position t (int32 (fst x)) logical_width (fst window_size)
      in draw_centered_at L (snd x) x_pos (div64 (mul64 height (Finite 9)) (Finite 10))
           (div64 (mul64 (lit (85 / 100)) width) logical_width) d @
         [blue_ink (Finite 1), CairoFill,
          CairoIdentityMatrix, CairoSetLineWidth (Finite 2),
          CairoMoveTo x_pos (chart_height g (graph_bottom g) (snd window_size)),
          CairoLineTo x_pos (chart_height g (graph_top g) (snd window_size)),
          blue_ink (lit (25 / 100)), CairoStroke])"

definition draw_x_label :: "drawing_lib \<Rightarrow> graph \<Rightarrow> extent_pair \<Rightarrow> drawing \<Rightarrow> drawing" where
  "draw_x_label L g window_size d =
     draw_centered_at L (x_label g) (u32_double (35 + fst window_size div 2))
       (div64 (mul64 (u32_double (snd window_size)) (lit (96 / 10))) (Finite 10)) DBL_MAX d @
     [blue_ink (Finite 1), CairoFill]"

section \<open>The labels of the value axis\<close>

partial_function (option) label_spacing :: "fp \<Rightarrow> fp \<Rightarrow> fp \<Rightarrow> fp option" where
  "label_spacing label_bottom label_top spacing =
     (if fp_less spacing (div64 (sub64 label_top label_bottom) (Finite 6))
      then label_spacing label_bottom label_top (mul64 spacing (Finite 2))
      else Some spacing)"

text \<open>
  Culling: the loop erases a label and goes on with an iterator behind it, which the erasure has made
  invalid.
\<close>

fun cull_labels :: "y_label list \<Rightarrow> y_label list res" where
  "cull_labels [] = Inr []"
| "cull_labels (l # ls) =
     (if fp_less (label_intensity l) (lit (1 / 100)) then Inl Undefined
      else rbind (cull_labels ls) (\<lambda>ls'. Inr (l # ls')))"

text \<open>The heights that get a label, none of them taken yet.\<close>

definition on_chart :: "graph \<Rightarrow> fp \<Rightarrow> bool" where
  "on_chart g val \<longleftrightarrow>
     \<not> (fp_less (project_height g (to_float val)) (Finite 0) \<or>
        fp_less (Finite 1) (project_height g (to_float val)))"

partial_function (option) labels_that_belong ::
  "graph \<Rightarrow> fp \<Rightarrow> fp \<Rightarrow> fp \<Rightarrow> (fp \<times> bool) list \<Rightarrow> (fp \<times> bool) list option" where
  "labels_that_belong g val label_top spacing found =
     (if fp_le val label_top
      then labels_that_belong g (add64 val spacing) label_top spacing
             (if on_chart g val then found @ [(val, False)] else found)
      else Some found)"

text \<open>Whether a label belongs, with the height taken.\<close>

fun take_height :: "fp \<Rightarrow> (fp \<times> bool) list \<Rightarrow> (bool \<times> (fp \<times> bool) list) res" where
  "take_height h [] = Inr (False, [])"
| "take_height h ((y, taken) # ys) =
     (if fp_equal h y then
        if taken then Inl AssertFail else Inr (True, (y, True) # ys)
      else rbind (take_height h ys) (\<lambda>(belongs, ys'). Inr (belongs, (y, taken) # ys')))"

definition faded :: "fp \<Rightarrow> fp" where
  "faded intensity = to_float (mul64 (lit (95 / 100)) intensity)"

definition brightened :: "fp \<Rightarrow> fp" where
  "brightened intensity = to_float (add64 (mul64 (lit (95 / 100)) intensity) (lit (5 / 100)))"

fun adjust_labels ::
  "y_label list \<Rightarrow> (fp \<times> bool) list \<Rightarrow> (y_label list \<times> (fp \<times> bool) list) res" where
  "adjust_labels [] ys = Inr ([], ys)"
| "adjust_labels (l # ls) ys =
     rbind (take_height (label_height l) ys) (\<lambda>(belongs, ys1).
     rbind (adjust_labels ls ys1) (\<lambda>(ls', ys2).
       Inr (l\<lparr>label_intensity := (if belongs then brightened else faded) (label_intensity l)\<rparr> # ls', ys2)))"

fun add_labels :: "drawing_lib \<Rightarrow> (fp \<times> bool) list \<Rightarrow> graph \<Rightarrow> graph" where
  "add_labels L [] g = g"
| "add_labels L ((h, taken) # ys) g =
     (if taken then add_labels L ys g
      else case text_new L graph_font (format_double L h) (drawing_of g) of (txt, d) \<Rightarrow>
        add_labels L ys (draw (\<lambda>_. d) (g\<lparr>y_tick_labels := y_tick_labels g @
          [\<lparr>label_height = h, label_text = txt, label_intensity = to_float (lit (5 / 100))\<rparr>]\<rparr>)))"

text \<open>The lowest and the highest label there could be, and the distance between labels.\<close>

definition label_range :: "graph \<Rightarrow> (fp \<times> fp \<times> fp) res option" where
  "label_range g =
     obind (Some (to_int (fp_floor (graph_bottom g)))) (\<lambda>b.
     obind (Some (to_int (fp_ceil (graph_top g)))) (\<lambda>t.
       map_option (\<lambda>spacing. Inr (mul64 (div64 (int64 b) spacing) spacing,
                                  mul64 (div64 (int64 t) spacing) spacing, spacing))
         (label_spacing (int64 b) (int64 t) (lit (1 / 4)))))"

definition update_labels :: "drawing_lib \<Rightarrow> graph \<Rightarrow> graph res option" where
  "update_labels L g =
     obind (label_range g) (\<lambda>(label_bottom, label_top, spacing).
     obind (Some (cull_labels (y_tick_labels g))) (\<lambda>labels.
     obind (map_option Inr (labels_that_belong g label_bottom label_top spacing [])) (\<lambda>heights.
     obind (Some (adjust_labels labels heights)) (\<lambda>(labels', heights').
       Some (Inr (add_labels L heights' (g\<lparr>y_tick_labels := labels'\<rparr>)))))))"

definition draw_grid_line :: "graph \<Rightarrow> extent_pair \<Rightarrow> y_label \<Rightarrow> drawing" where
  "draw_grid_line g window_size l =
     [CairoIdentityMatrix, CairoSetLineWidth (Finite 1),
      CairoMoveTo (Finite 0) (chart_height g (to_float (label_height l)) (snd window_size)),
      CairoLineTo (u32_double (fst window_size)) (chart_height g (to_float (label_height l)) (snd window_size)),
      blue_ink (mul64 (lit (25 / 100)) (label_intensity l)), CairoStroke]"

definition draw_box :: "extent_pair \<Rightarrow> drawing" where
  "draw_box window_size =
     [CairoNewPath, CairoIdentityMatrix,
      CairoRectangle (Finite 0) (Finite 0) (Finite 190) (u32_double (snd window_size)),
      CairoSetSourcePattern, CairoFill]"

definition draw_info :: "drawing_lib \<Rightarrow> graph \<Rightarrow> extent_pair \<Rightarrow> drawing \<Rightarrow> drawing" where
  "draw_info L g window_size d =
     draw_centered_at L (info g) (u32_double (fst window_size div 2)) (Finite 20)
       (u32_double (fst window_size - 40)) d @
     [CairoSetSourceRGBA (lit (4 / 10)) (Finite 0) (Finite 0) (Finite 1), CairoFill]"

definition draw_y_label :: "drawing_lib \<Rightarrow> graph \<Rightarrow> extent_pair \<Rightarrow> drawing \<Rightarrow> drawing" where
  "draw_y_label L g window_size d =
     draw_centered_rotated_at L (y_axis_label g) (Finite 25)
       (mul64 (u32_double (snd window_size)) (lit (4375 / 10000))) d @
     [blue_ink (Finite 1), CairoFill]"

definition draw_tick_label ::
  "drawing_lib \<Rightarrow> graph \<Rightarrow> extent_pair \<Rightarrow> y_label \<Rightarrow> drawing \<Rightarrow> drawing" where
  "draw_tick_label L g window_size l d =
     draw_centered_at L (label_text l) (Finite 100)
       (chart_height g (to_float (label_height l)) (snd window_size)) DBL_MAX d @
     [blue_ink (label_intensity l), CairoFill]"

section \<open>A frame\<close>

definition draw_ticks_and_data ::
  "drawing_lib \<Rightarrow> fp \<Rightarrow> fp \<Rightarrow> fp list \<Rightarrow> fp \<Rightarrow> extent_pair \<Rightarrow> graph \<Rightarrow> graph" where
  "draw_ticks_and_data L t logical_width current_values current_weight window_size g =
     (let g1 = draw (fold (draw_tick L g t logical_width window_size) (x_tick_labels g)) g;
          g2 = draw (draw_x_label L g window_size) g1
      in draw (\<lambda>d. d @ concat (map
           (draw_line g t logical_width current_weight (cairo_size (gc_cairo (current_gc g))))
           (frame_lines g current_values))) g2)"

definition draw_labels :: "drawing_lib \<Rightarrow> extent_pair \<Rightarrow> graph \<Rightarrow> graph" where
  "draw_labels L window_size g =
     draw (\<lambda>d. fold (draw_tick_label L g window_size) (y_tick_labels g)
       (draw_y_label L g window_size
         (draw_info L g window_size
           (d @ concat (map (draw_grid_line g window_size) (y_tick_labels g)) @ draw_box window_size)))) g"

definition blocking_draw ::
  "'x xcb_calls \<Rightarrow> drawing_lib \<Rightarrow> fp \<Rightarrow> fp \<Rightarrow> fp list \<Rightarrow> fp \<Rightarrow> graph \<Rightarrow> 'x \<Rightarrow> (graph \<times> 'x) res option" where
  "blocking_draw X L t logical_width current_values current_weight g x =
     obind (Some (rescale t logical_width current_values current_weight g)) (\<lambda>g1.
     obind (Some (xwindow_size X (graph_window g1) x)) (\<lambda>window_size.
     obind (Some (resize X L window_size g1 x)) (\<lambda>(g2, x1).
     obind (add_tick_labels L t
       (drop_tick_labels t logical_width (draw (\<lambda>d. d @ start_image window_size) g2))) (\<lambda>g3.
     obind (update_labels L
       (draw_ticks_and_data L t logical_width current_values current_weight window_size g3)) (\<lambda>g4.
     let g5 = draw_labels L window_size g4 in
     obind (present X (gc_pixmap (current_gc g5)) (of_nat (length (gcs g5))) (of_nat (current_gc_index g5))
       (graph_window g5) x1) (\<lambda>(w, x2).
       Some (Inr (g5\<lparr>graph_window := w, current_gc_index := (current_gc_index g5 + 1) mod length (gcs g5)\<rparr>,
                  x2))))))))"

end
