(* ===== verification/Live_Graph.thy ===== *)
theory Live_Graph
  imports Graph Environment
begin

text \<open>
  The live graphs of throughput and delay, \<open>src/src/graphing/binned_livegraph.cc\<close>: values are added up
  over bins of time, and each bin that is over becomes a point of the graph. A value is an \<open>int\<close> of 32
  bits; what a new bin starts with is a function of the graph. Two threads use a graph, the program's and
  the animation's: each operation is one step. Adding takes the lock twice, to advance and to add; that the
  other thread advances between the two is left out.
\<close>

section \<open>The state\<close>

text \<open>\<open>initialize_new_bin_\<close> is \<^const>\<open>None\<close> until it is constructed.\<close>

type_synonym new_bin = "u32 \<Rightarrow> u32 \<Rightarrow> u32"

record live_graph =
  live_plot :: graph
  bin_width_ms :: u32
  value_this_bin :: "u32 list"
  current_bin :: u64
  multiplier :: fp
  rate_quantity :: bool
  halt :: bool
  initialize_new_bin :: "new_bin option"

text \<open>
  The members in the order of their declaration: the animation thread is started with what there is
  then, \<open>initialize_new_bin_\<close> comes after it and the first points in the body.
\<close>

definition live_graph_started ::
  "graph \<Rightarrow> fp \<Rightarrow> bool \<Rightarrow> u32 \<Rightarrow> env \<Rightarrow> (live_graph \<times> env) res" where
  "live_graph_started g mult rate bin_width e =
     (case timestamp e of (now, e') \<Rightarrow>
        if bin_width = 0 then Inl Undefined
        else Inr (\<lparr>live_plot = g, bin_width_ms = bin_width, value_this_bin = replicate (length (styles g)) 0,
                   current_bin = now div ucast bin_width, multiplier = mult, rate_quantity = rate,
                   halt = False, initialize_new_bin = None\<rparr>, e'))"

fun first_points :: "nat \<Rightarrow> nat \<Rightarrow> graph \<Rightarrow> graph res" where
  "first_points i 0 g = Inr g"
| "first_points i (Suc n) g =
     rbind (add_data_point i (Finite 0) (Finite 0) g) (first_points (Suc i) n)"

definition live_graph_constructed :: "new_bin \<Rightarrow> live_graph \<Rightarrow> live_graph res" where
  "live_graph_constructed f l =
     (let l1 = l\<lparr>initialize_new_bin := Some f\<rparr>
      in rbind (first_points 0 (length (value_this_bin l1)) (live_plot l1)) (\<lambda>g. Inr (l1\<lparr>live_plot := g\<rparr>)))"

definition live_graph_new ::
  "graph \<Rightarrow> fp \<Rightarrow> bool \<Rightarrow> u32 \<Rightarrow> new_bin \<Rightarrow> env \<Rightarrow> (live_graph \<times> env) res" where
  "live_graph_new g mult rate bin_width f e =
     rbind (live_graph_started g mult rate bin_width e) (\<lambda>(l, e').
     rbind (live_graph_constructed f l) (\<lambda>l'. Inr (l', e')))"

definition live_graph_open ::
  "'x xcb_calls \<Rightarrow> drawing_lib \<Rightarrow> string \<Rightarrow> style list \<Rightarrow> string \<Rightarrow> fp \<Rightarrow> bool \<Rightarrow> u32 \<Rightarrow> new_bin \<Rightarrow> env \<Rightarrow> 'x \<Rightarrow>
     (live_graph \<times> env \<times> 'x) res" where
  "live_graph_open X L name sts y_str mult rate bin_width f e x =
     rbind (graph_new X L 640 480 name (Finite 0) (Finite 1) sts ''time (s)'' y_str x) (\<lambda>(g, x').
     rbind (live_graph_new g mult rate bin_width f e) (\<lambda>(l, e'). Inr (l, e', x')))"

section \<open>Bins\<close>

definition u64_double :: "u64 \<Rightarrow> fp" where "u64_double w = int64 (uint w)"

text \<open>The value drawn for a bin: scaled, and per second when it is a rate.\<close>

definition bin_value :: "live_graph \<Rightarrow> u32 \<Rightarrow> fp" where
  "bin_value l v =
     (let value = mul64 (int64 (sint v)) (multiplier l)
      in if rate_quantity l then div64 value (div64 (u32_double (bin_width_ms l)) (Finite 1000)) else value)"

text \<open>The inner loop: line \<open>i\<close> and the ones after it.\<close>

fun close_bin :: "nat \<Rightarrow> u32 list \<Rightarrow> live_graph \<Rightarrow> live_graph res" where
  "close_bin i [] l = Inr l"
| "close_bin i (v # vs) l =
     rbind (add_data_point i
        (to_float (div64 (u64_double ((current_bin l + 1) * ucast (bin_width_ms l))) (Finite 1000)))
        (to_float (bin_value l v)) (live_plot l)) (\<lambda>g.
     case initialize_new_bin l of
       None \<Rightarrow> Inl Undefined
     | Some f \<Rightarrow>
         close_bin (Suc i) vs
           (l\<lparr>live_plot := g, value_this_bin := (value_this_bin l)[i := f (bin_width_ms l) v]\<rparr>))"

lemma next_bin: "a < b \<Longrightarrow> unat (a + 1) = unat a + 1" for a b :: u64
proof -
  assume "a < b"
  moreover have "unat b < 2 ^ 64"
    by (rule order_less_le_trans [OF unsigned_less]) simp
  ultimately show ?thesis
    by (simp add: word_less_nat_alt unat_word_ariths)
qed

function advance_to :: "u64 \<Rightarrow> live_graph \<Rightarrow> live_graph res" where
  "advance_to now_bin l =
     (if current_bin l < now_bin
      then rbind (close_bin 0 (value_this_bin l) l) (\<lambda>l'.
             advance_to now_bin (l'\<lparr>current_bin := current_bin l + 1\<rparr>))
      else Inr l)"
  by pat_completeness auto
termination
proof (relation "measure (\<lambda>(now_bin, l). unat now_bin - unat (current_bin l))", goal_cases)
  case (2 now_bin l l')
  then show ?case
    by (simp add: word_less_nat_alt next_bin)
qed simp

declare advance_to.simps [simp del]

definition advance :: "live_graph \<Rightarrow> env \<Rightarrow> (u64 \<times> live_graph \<times> env) res" where
  "advance l e =
     (case timestamp e of (now, e') \<Rightarrow>
        rbind (advance_to (now div ucast (bin_width_ms l)) l) (\<lambda>l'. Inr (now, l', e')))"

definition add_to_bin :: "nat \<Rightarrow> u32 \<Rightarrow> live_graph \<Rightarrow> live_graph res" where
  "add_to_bin num amount l =
     (if length (value_this_bin l) \<le> num then Inl OutOfRange
      else if sint (value_this_bin l ! num) < 0
      then Inl (RuntimeError ''BinnedLiveGraph: attempt to add to a default value'')
      else Inr (l\<lparr>value_this_bin := (value_this_bin l)[num := value_this_bin l ! num + amount]\<rparr>))"

definition add_value_now :: "nat \<Rightarrow> u32 \<Rightarrow> live_graph \<Rightarrow> env \<Rightarrow> (live_graph \<times> env) res" where
  "add_value_now num amount l e =
     rbind (advance l e) (\<lambda>(_, l1, e1). rbind (add_to_bin num amount l1) (\<lambda>l2. Inr (l2, e1)))"

definition max_in_bin :: "nat \<Rightarrow> u32 \<Rightarrow> live_graph \<Rightarrow> live_graph res" where
  "max_in_bin num amount l =
     (if length (value_this_bin l) \<le> num then Inl OutOfRange
      else Inr (l\<lparr>value_this_bin := (value_this_bin l)[num :=
        (if sint (value_this_bin l ! num) < 0 then amount else max (value_this_bin l ! num) amount)]\<rparr>))"

definition set_max_value_now :: "nat \<Rightarrow> u32 \<Rightarrow> live_graph \<Rightarrow> env \<Rightarrow> (live_graph \<times> env) res" where
  "set_max_value_now num amount l e =
     rbind (advance l e) (\<lambda>(_, l1, e1). rbind (max_in_bin num amount l1) (\<lambda>l2. Inr (l2, e1)))"

section \<open>The animation\<close>

definition logical_width :: "extent_pair \<Rightarrow> fp" where
  "logical_width window_size = fp_max (Finite 5) (div64 (u32_double (fst window_size)) (Finite 100))"

text \<open>The estimate of the bin that is not over, for the milliseconds of it so far.\<close>

definition current_estimate :: "live_graph \<Rightarrow> fp \<Rightarrow> u32 \<Rightarrow> fp" where
  "current_estimate l bin_width_so_far v =
     (let estimate = mul64 (int64 (sint v)) (multiplier l)
      in to_float (if rate_quantity l then div64 estimate (div64 bin_width_so_far (Finite 1000)) else estimate))"

text \<open>The cosine of a number is an argument; the square is a product.\<close>

definition confidence :: "(fp \<Rightarrow> fp) \<Rightarrow> fp \<Rightarrow> fp" where
  "confidence cosine bin_fraction =
     (let c = sub64 (Finite 1) (cosine (div64 (mul64 bin_fraction (lit (314159 / 100000))) (Finite 2)))
      in mul64 c c)"

text \<open>One round of the loop, and the loop for as long as the graph is not halted.\<close>

definition animation_frame ::
  "'x xcb_calls \<Rightarrow> drawing_lib \<Rightarrow> (fp \<Rightarrow> fp) \<Rightarrow> live_graph \<Rightarrow> env \<Rightarrow> 'x \<Rightarrow>
     (live_graph \<times> env \<times> 'x) res option" where
  "animation_frame X L cosine l0 e x =
     obind (Some (advance l0 e)) (\<lambda>(ts, l, e1).
     let bin_width_so_far = u64_double (ts mod ucast (bin_width_ms l));
         current_estimates = map (current_estimate l bin_width_so_far) (value_this_bin l);
         bin_fraction = div64 bin_width_so_far (u32_double (bin_width_ms l));
         weight = confidence cosine bin_fraction
     in obind (Some (xwindow_size X (graph_window (live_plot l)) x)) (\<lambda>window_size.
        obind (blocking_draw X L (to_float (div64 (u64_double ts) (Finite 1000)))
          (to_float (logical_width window_size)) current_estimates weight (live_plot l) x) (\<lambda>(g, x1).
          Some (Inr (l\<lparr>live_plot := g\<rparr>, e1, x1)))))"

section \<open>The points of the bins\<close>

text \<open>The time at which a bin of the sequence of bins ends.\<close>

definition bin_end :: "live_graph \<Rightarrow> nat \<Rightarrow> fp" where
  "bin_end l b = to_float (div64 (u64_double ((of_nat b + 1) * ucast (bin_width_ms l))) (Finite 1000))"

definition bin_point :: "live_graph \<Rightarrow> nat \<Rightarrow> u32 \<Rightarrow> fp \<times> fp" where
  "bin_point l b v = (bin_end l b, to_float (bin_value l v))"

text \<open>A graph that was constructed with a callback that gives each new bin the value \<open>c\<close>.\<close>

definition graph_ready :: "u32 \<Rightarrow> live_graph \<Rightarrow> bool" where
  "graph_ready c l \<longleftrightarrow>
     (\<exists>f. initialize_new_bin l = Some f \<and> (\<forall>v. f (bin_width_ms l) v = c)) \<and>
     length (data_points (live_plot l)) = length (value_this_bin l)"

text \<open>What does not change.\<close>

definition same_graph :: "live_graph \<Rightarrow> live_graph \<Rightarrow> bool" where
  "same_graph l l' \<longleftrightarrow>
     bin_width_ms l' = bin_width_ms l \<and> multiplier l' = multiplier l \<and> rate_quantity l' = rate_quantity l \<and>
     initialize_new_bin l' = initialize_new_bin l \<and> length (value_this_bin l') = length (value_this_bin l)"

lemma same_graph_refl [simp]: "same_graph l l"
  by (simp add: same_graph_def)

lemma same_graph_trans: "same_graph l l1 \<Longrightarrow> same_graph l1 l2 \<Longrightarrow> same_graph l l2"
  by (simp add: same_graph_def)

lemma same_graph_point: "same_graph l l' \<Longrightarrow> bin_point l' = bin_point l"
  by (auto simp: same_graph_def bin_point_def bin_end_def bin_value_def Let_def intro!: ext)

lemma close_bin_ready:
  assumes "initialize_new_bin l = Some f" and "\<And>v. f (bin_width_ms l) v = c"
    and "length (data_points (live_plot l)) = length (value_this_bin l)"
    and "i \<le> length (value_this_bin l)" and "vs = drop i (value_this_bin l)"
  shows "\<exists>g. close_bin i vs l =
      Inr (l\<lparr>live_plot := g, value_this_bin := take i (value_this_bin l) @ replicate (length vs) c\<rparr>) \<and>
    data_points g = take i (data_points (live_plot l)) @
      map2 (\<lambda>d v. d @ [bin_point l (unat (current_bin l)) v]) (drop i (data_points (live_plot l))) vs"
  using assms
proof (induction vs arbitrary: i l)
  case Nil
  then have "i = length (value_this_bin l)"
    by simp
  with Nil show ?case
    by (intro exI [of _ "live_plot l"]) simp
next
  case (Cons v vs)
  let ?d = "data_points (live_plot l)" and ?b = "unat (current_bin l)"
  have i: "i < length (value_this_bin l)"
    using Cons.prems(5) by (metis drop_all list.distinct(1) not_le)
  then have v: "v = value_this_bin l ! i" "vs = drop (Suc i) (value_this_bin l)"
    using Cons.prems(5) by (simp_all add: Cons_nth_drop_Suc [symmetric])
  let ?g = "(live_plot l)\<lparr>data_points := ?d[i := ?d ! i @ [bin_point l ?b v]]\<rparr>"
  let ?l = "l\<lparr>live_plot := ?g, value_this_bin := (value_this_bin l)[i := c]\<rparr>"
  have step: "close_bin i (v # vs) l = close_bin (Suc i) vs ?l"
    using i Cons.prems(1-3)
    by (simp add: add_data_point_def bin_point_def bin_end_def)
  have point: "bin_point ?l ?b = bin_point l ?b"
    by (simp add: fun_eq_iff bin_point_def bin_end_def bin_value_def Let_def)
  obtain g where g: "close_bin (Suc i) vs ?l =
      Inr (?l\<lparr>live_plot := g, value_this_bin := take (Suc i) (value_this_bin ?l) @ replicate (length vs) c\<rparr>)"
    "data_points g = take (Suc i) (data_points (live_plot ?l)) @
      map2 (\<lambda>d v. d @ [bin_point l ?b v]) (drop (Suc i) (data_points (live_plot ?l))) vs"
    using Cons.IH [of ?l "Suc i"] Cons.prems(1-3) i v(2) point by auto
  have "take (Suc i) ((value_this_bin l)[i := c]) = take i (value_this_bin l) @ [c]"
    using i by (simp add: take_Suc_conv_app_nth)
  then have vals: "?l\<lparr>live_plot := g, value_this_bin := take (Suc i) (value_this_bin ?l) @ replicate (length vs) c\<rparr> =
      l\<lparr>live_plot := g, value_this_bin := take i (value_this_bin l) @ replicate (length (v # vs)) c\<rparr>"
    by simp
  have d: "i < length ?d"
    using i Cons.prems(3) by simp
  have "take (Suc i) (?d[i := ?d ! i @ [bin_point l ?b v]]) = take i ?d @ [?d ! i @ [bin_point l ?b v]]"
    using d by (simp add: take_Suc_conv_app_nth)
  moreover have "drop i ?d = ?d ! i # drop (Suc i) ?d"
    using d by (simp add: Cons_nth_drop_Suc)
  ultimately have "data_points g = take i ?d @
      map2 (\<lambda>d v. d @ [bin_point l ?b v]) (drop i ?d) (v # vs)"
    using g(2) by simp
  with g(1) show ?case
    unfolding step vals by blast
qed

text \<open>All the lines of a bin that is over.\<close>

lemma close_bin_all:
  assumes "graph_ready c l"
  shows "\<exists>l'. close_bin 0 (value_this_bin l) l = Inr l' \<and> same_graph l l' \<and> current_bin l' = current_bin l \<and>
    value_this_bin l' = replicate (length (value_this_bin l)) c \<and>
    data_points (live_plot l') =
      map2 (\<lambda>d v. d @ [bin_point l (unat (current_bin l)) v]) (data_points (live_plot l)) (value_this_bin l)"
  using close_bin_ready [of l _ c 0 "value_this_bin l"] assms
  by (fastforce simp: graph_ready_def same_graph_def)

lemma advance_to_ready:
  "graph_ready c l \<Longrightarrow> \<exists>l'. advance_to now_bin l = Inr l' \<and> same_graph l l' \<and> graph_ready c l' \<and>
     current_bin l' = max (current_bin l) now_bin \<and>
     (\<forall>i < length (value_this_bin l).
        value_this_bin l' ! i = (if current_bin l < now_bin then c else value_this_bin l ! i) \<and>
        data_points (live_plot l') ! i = data_points (live_plot l) ! i @
          map (\<lambda>b. bin_point l b (if b = unat (current_bin l) then value_this_bin l ! i else c))
            [unat (current_bin l) ..< unat now_bin])"
proof (induction now_bin l rule: advance_to.induct)
  case (1 now_bin l)
  show ?case
  proof (cases "current_bin l < now_bin")
    case False
    then have "now_bin \<le> current_bin l" "unat now_bin \<le> unat (current_bin l)"
      by (simp_all add: not_less word_le_nat_alt)
    with False 1 show ?thesis
      by (auto simp: advance_to.simps [of now_bin l] max.absorb1)
  next
    case True
    obtain l1 where l1: "close_bin 0 (value_this_bin l) l = Inr l1" "same_graph l l1"
      "current_bin l1 = current_bin l" "value_this_bin l1 = replicate (length (value_this_bin l)) c"
      "data_points (live_plot l1) =
        map2 (\<lambda>d v. d @ [bin_point l (unat (current_bin l)) v]) (data_points (live_plot l)) (value_this_bin l)"
      using close_bin_all [OF "1.prems"] by blast
    let ?l2 = "l1\<lparr>current_bin := current_bin l + 1\<rparr>"
    have len: "length (data_points (live_plot l)) = length (value_this_bin l)"
      using "1.prems" by (simp add: graph_ready_def)
    have ready: "graph_ready c ?l2" and same: "same_graph l ?l2"
      using "1.prems" l1 by (auto simp: graph_ready_def same_graph_def)
    from "1.IH" [OF True l1(1) ready] obtain l' where l': "advance_to now_bin ?l2 = Inr l'" "same_graph ?l2 l'"
      "graph_ready c l'" "current_bin l' = max (current_bin l + 1) now_bin"
      "\<And>i. i < length (value_this_bin l) \<Longrightarrow> value_this_bin l' ! i = c \<and>
        data_points (live_plot l') ! i = (data_points (live_plot l) ! i @
          [bin_point l (unat (current_bin l)) (value_this_bin l ! i)]) @
          map (\<lambda>b. bin_point l b c) [unat (current_bin l + 1) ..< unat now_bin]"
      using len by (auto simp: l1(4,5) same_graph_point [OF same])
    have "current_bin l + 1 \<le> now_bin"
      using True next_bin [OF True] by (simp add: word_le_nat_alt word_less_nat_alt)
    then have "max (current_bin l + 1) now_bin = max (current_bin l) now_bin"
      using True by (simp only: max.absorb2 less_imp_le)
    moreover have "map (\<lambda>b. bin_point l b (if b = unat (current_bin l) then v else c))
        [unat (current_bin l) ..< unat now_bin] =
      bin_point l (unat (current_bin l)) v # map (\<lambda>b. bin_point l b c) [unat (current_bin l + 1) ..< unat now_bin]" for v
      using True next_bin [OF True] by (simp add: word_less_nat_alt upt_conv_Cons)
    ultimately show ?thesis
      using l' l1(1) True same_graph_trans [OF same l'(2)]
      by (simp add: advance_to.simps [of now_bin l])
  qed
qed

section \<open>A session\<close>

text \<open>
  The operations of the two threads, in the order they take the lock: adding, a new maximum, and the
  animation looking. The list pairs each with the time it read.
\<close>

datatype live_call = LiveAdd nat u32 | LiveMax nat u32 | LiveLook

definition live_do :: "live_call \<Rightarrow> live_graph \<times> env \<Rightarrow> (live_graph \<times> env) res" where
  "live_do c = (\<lambda>(l, e).
     case c of
       LiveAdd num amount \<Rightarrow> add_value_now num amount l e
     | LiveMax num amount \<Rightarrow> set_max_value_now num amount l e
     | LiveLook \<Rightarrow> rbind (advance l e) (\<lambda>(_, l1, e1). Inr (l1, e1)))"

fun live_run ::
  "live_call list \<Rightarrow> live_graph \<times> env \<Rightarrow> ((u64 \<times> live_call) list \<times> live_graph \<times> env) res" where
  "live_run [] s = Inr ([], s)"
| "live_run (c # cs) s =
     rbind (live_do c s) (\<lambda>s1.
     rbind (live_run cs s1) (\<lambda>(hist, s2). Inr ((fst (timestamp (snd s)), c) # hist, s2)))"

text \<open>The reference: what the calls on a line during a bin do to a value, one after the other.\<close>

fun on_line :: "nat \<Rightarrow> live_call \<Rightarrow> u32 \<Rightarrow> u32" where
  "on_line num (LiveAdd n amount) v = (if n = num then v + amount else v)"
| "on_line num (LiveMax n amount) v =
     (if n = num then if sint v < 0 then amount else max v amount else v)"
| "on_line num LiveLook v = v"

definition bin_at :: "live_graph \<Rightarrow> u64 \<Rightarrow> u64" where
  "bin_at l t = t div ucast (bin_width_ms l)"

definition bin_result :: "live_graph \<Rightarrow> (u64 \<times> live_call) list \<Rightarrow> nat \<Rightarrow> nat \<Rightarrow> u32 \<Rightarrow> u32" where
  "bin_result l hist num b v =
     fold (\<lambda>(t, c). on_line num c) (filter (\<lambda>(t, c). unat (bin_at l t) = b) hist) v"

lemma bin_result_Nil [simp]: "bin_result l [] num b v = v"
  by (simp add: bin_result_def)

lemma bin_result_Cons [simp]:
  "bin_result l ((t, c) # hist) num b v =
     bin_result l hist num b (if unat (bin_at l t) = b then on_line num c v else v)"
  by (simp add: bin_result_def)

lemma bin_result_none:
  "(\<And>t c. (t, c) \<in> set hist \<Longrightarrow> unat (bin_at l t) \<noteq> b) \<Longrightarrow> bin_result l hist num b v = v"
proof -
  assume "\<And>t c. (t, c) \<in> set hist \<Longrightarrow> unat (bin_at l t) \<noteq> b"
  then have "filter (\<lambda>(t, c). unat (bin_at l t) = b) hist = []"
    by (auto simp: filter_empty_conv)
  then show ?thesis
    by (simp add: bin_result_def)
qed

lemma bin_result_same: "same_graph l l' \<Longrightarrow> bin_result l' = bin_result l"
  by (simp add: fun_eq_iff bin_result_def bin_at_def same_graph_def)

text \<open>One call: the bins before the one of its time are closed, and it changes the value of its line.\<close>

lemma live_do_ready:
  assumes "graph_ready c l" and "live_do call (l, e) = Inr (l', e')"
  shows "\<exists>l1. advance_to (bin_at l (fst (timestamp e))) l = Inr l1 \<and> same_graph l1 l' \<and> graph_ready c l' \<and>
    current_bin l' = current_bin l1 \<and> live_plot l' = live_plot l1 \<and>
    (\<forall>i < length (value_this_bin l). value_this_bin l' ! i = on_line i call (value_this_bin l1 ! i))"
proof -
  obtain now e1 where now: "timestamp e = (now, e1)"
    by force
  obtain l1 where l1: "advance_to (bin_at l now) l = Inr l1" "same_graph l l1" "graph_ready c l1"
    using advance_to_ready [OF assms(1), of "bin_at l now"] by blast
  then have "advance l e = Inr (now, l1, e1)"
    by (simp add: advance_def now bin_at_def)
  with assms(2) l1 show ?thesis
    by (cases call)
       (auto simp: live_do_def add_value_now_def set_max_value_now_def add_to_bin_def max_in_bin_def now
         same_graph_def graph_ready_def nth_list_update split: if_splits)
qed

text \<open>The value a bin starts with: the first one has what is in it, the others \<open>c\<close>.\<close>

definition bin_start :: "live_graph \<Rightarrow> nat \<Rightarrow> u32 \<Rightarrow> nat \<Rightarrow> u32" where
  "bin_start l i c b = (if b = unat (current_bin l) then value_this_bin l ! i else c)"

definition reference_points ::
  "live_graph \<Rightarrow> (u64 \<times> live_call) list \<Rightarrow> nat \<Rightarrow> u32 \<Rightarrow> nat \<Rightarrow> (fp \<times> fp) list" where
  "reference_points l hist i c last_bin =
     map (\<lambda>b. bin_point l b (bin_result l hist i b (bin_start l i c b))) [unat (current_bin l) ..< last_bin]"

lemma bin_at_mono: "a \<le> b \<Longrightarrow> unat (bin_at l a) \<le> unat (bin_at l b)"
  by (simp add: bin_at_def unat_div word_le_nat_alt div_le_mono)

lemma live_run_points:
  "live_run cs (l, e) = Inr (hist, l', e') \<Longrightarrow> graph_ready c l \<Longrightarrow> sorted (map fst hist) \<Longrightarrow>
   (\<And>t call. (t, call) \<in> set hist \<Longrightarrow> current_bin l \<le> bin_at l t) \<Longrightarrow>
   same_graph l l' \<and> current_bin l' = (if hist = [] then current_bin l else bin_at l (fst (last hist))) \<and>
   (\<forall>i < length (value_this_bin l).
     data_points (live_plot l') ! i =
       data_points (live_plot l) ! i @ reference_points l hist i c (unat (current_bin l')) \<and>
     value_this_bin l' ! i =
       bin_result l hist i (unat (current_bin l')) (bin_start l i c (unat (current_bin l'))))"
proof (induction cs arbitrary: l e hist)
  case Nil
  then show ?case by (simp add: reference_points_def bin_start_def)
next
  case (Cons call cs)
  obtain l1 e1 hist1 where call: "live_do call (l, e) = Inr (l1, e1)"
    and run: "live_run cs (l1, e1) = Inr (hist1, l', e')"
    and hist: "hist = (fst (timestamp e), call) # hist1"
    using Cons.prems(1) by (auto simp: res_iff)
  let ?t = "fst (timestamp e)" and ?b = "bin_at l (fst (timestamp e))"
  obtain la where la: "advance_to ?b l = Inr la" "same_graph la l1" "graph_ready c l1"
    "current_bin l1 = current_bin la" "live_plot l1 = live_plot la"
    "\<And>i. i < length (value_this_bin l) \<Longrightarrow> value_this_bin l1 ! i = on_line i call (value_this_bin la ! i)"
    using live_do_ready [OF Cons.prems(2) call] by blast
  have b: "current_bin l \<le> ?b"
    using Cons.prems(4) hist by auto
  from advance_to_ready [OF Cons.prems(2), of ?b] la(1) b have adv: "same_graph l la" "current_bin la = ?b"
    "\<And>i. i < length (value_this_bin l) \<Longrightarrow>
        value_this_bin la ! i = (if current_bin l < ?b then c else value_this_bin l ! i) \<and>
        data_points (live_plot la) ! i = data_points (live_plot l) ! i @
          map (\<lambda>b. bin_point l b (if b = unat (current_bin l) then value_this_bin l ! i else c))
            [unat (current_bin l) ..< unat ?b]"
    by (auto simp: max.absorb2)
  have same: "same_graph l l1"
    using adv(1) la(2) by (rule same_graph_trans)
  then have at: "bin_at l1 = bin_at l"
    by (simp add: fun_eq_iff bin_at_def same_graph_def)
  have later: "?t \<le> t" if "(t, call') \<in> set hist1" for t call'
    using Cons.prems(3) hist that by auto
  have ready: "current_bin l1 \<le> bin_at l1 t" if "(t, call') \<in> set hist1" for t call'
    using bin_at_mono [OF later [OF that], of l] by (simp add: la(4) adv(2) at word_le_nat_alt)
  from Cons.IH [OF run la(3) _ ready] Cons.prems(3) hist have IH: "same_graph l1 l'"
    "current_bin l' = (if hist1 = [] then ?b else bin_at l (fst (last hist1)))"
    "\<And>i. i < length (value_this_bin l) \<Longrightarrow>
       data_points (live_plot l') ! i =
         data_points (live_plot l1) ! i @ reference_points l1 hist1 i c (unat (current_bin l')) \<and>
       value_this_bin l' ! i =
         bin_result l hist1 i (unat (current_bin l')) (bin_start l1 i c (unat (current_bin l')))"
    using same by (auto simp: la(4) adv(2) at same_graph_def bin_result_same [OF same])
  have last_bin: "?b \<le> current_bin l'"
    using IH(2) bin_at_mono [OF later, of "fst (last hist1)" "snd (last hist1)" l]
    by (auto simp: word_le_nat_alt)
  have start: "bin_result l hist1 i b (bin_start l1 i c b) = bin_result l hist i b (bin_start l i c b)"
    if "i < length (value_this_bin l)" "unat ?b \<le> b" for i b
    using la(6) [OF that(1)] adv(3) [OF that(1)] b that(2)
    by (auto simp: hist bin_start_def la(4) adv(2) word_le_nat_alt word_less_nat_alt)
  have before: "bin_result l hist i b (bin_start l i c b) = bin_start l i c b" if "b < unat ?b" for i b
  proof (rule bin_result_none)
    fix t call' assume "(t, call') \<in> set hist"
    then have "unat ?b \<le> unat (bin_at l t)"
      using later hist bin_at_mono [of ?t t l] by auto
    with that show "unat (bin_at l t) \<noteq> b" by simp
  qed
  have split: "[unat (current_bin l) ..< unat (current_bin l')] =
      [unat (current_bin l) ..< unat ?b] @ [unat ?b ..< unat (current_bin l')]"
    using b last_bin upt_add_eq_append [of "unat (current_bin l)" "unat ?b" "unat (current_bin l') - unat ?b"]
    by (simp add: word_le_nat_alt)
  have points: "reference_points l hist i c (unat (current_bin l')) =
      map (\<lambda>b. bin_point l b (if b = unat (current_bin l) then value_this_bin l ! i else c))
        [unat (current_bin l) ..< unat ?b] @ reference_points l1 hist1 i c (unat (current_bin l'))"
    if "i < length (value_this_bin l)" for i
    unfolding reference_points_def split map_append la(4) adv(2) same_graph_point [OF same] bin_result_same [OF same]
    using before start [OF that] by (simp add: bin_start_def)
  show ?case
    using IH same_graph_trans [OF same IH(1)] adv(3) points start last_bin
    by (auto simp: hist la(5) word_le_nat_alt)
qed

section \<open>From the constructor on\<close>

lemma first_points_all:
  "i + n = length (data_points g) \<Longrightarrow>
     \<exists>g'. first_points i n g = Inr g' \<and>
       data_points g' = take i (data_points g) @ map (\<lambda>d. d @ [(Finite 0, Finite 0)]) (drop i (data_points g))"
proof (induction n arbitrary: i g)
  case 0
  then show ?case by simp
next
  case (Suc n)
  let ?d = "data_points g"
  let ?g = "g\<lparr>data_points := ?d[i := ?d ! i @ [(Finite 0, Finite 0)]]\<rparr>"
  have i: "i < length ?d" using Suc.prems by simp
  then have step: "first_points i (Suc n) g = first_points (Suc i) n ?g"
    by (simp add: add_data_point_def)
  have "drop i ?d = ?d ! i # drop (Suc i) ?d"
    using i by (simp add: Cons_nth_drop_Suc)
  then show ?case
    unfolding step using Suc.IH [of "Suc i" ?g] Suc.prems i by (simp add: take_Suc_conv_app_nth)
qed

lemma live_graph_new_ready:
  assumes "live_graph_new g mult rate bin_width f e = Inr (l, e')" and "\<And>v. f bin_width v = c"
    and "data_points g = replicate (length (styles g)) []"
  shows "graph_ready c l \<and> bin_width_ms l = bin_width \<and> multiplier l = mult \<and> rate_quantity l = rate \<and>
    current_bin l = fst (timestamp e) div ucast bin_width \<and> value_this_bin l = replicate (length (styles g)) 0 \<and>
    data_points (live_plot l) = replicate (length (styles g)) [(Finite 0, Finite 0)]"
proof -
  obtain now where now: "timestamp e = (now, e')" "bin_width \<noteq> 0"
    and l: "live_graph_constructed f \<lparr>live_plot = g, bin_width_ms = bin_width,
      value_this_bin = replicate (length (styles g)) 0, current_bin = now div ucast bin_width, multiplier = mult,
      rate_quantity = rate, halt = False, initialize_new_bin = None\<rparr> = Inr l"
    using assms(1) by (auto simp: live_graph_new_def live_graph_started_def res_iff split: if_splits prod.splits)
  obtain g' where "first_points 0 (length (styles g)) g = Inr g'"
    "data_points g' = replicate (length (styles g)) [(Finite 0, Finite 0)]"
    using first_points_all [of 0 "length (styles g)" g] assms(3) by auto
  with l assms(2) now show ?thesis
    by (auto simp: live_graph_constructed_def Let_def graph_ready_def)
qed

lemma graph_new_points:
  "graph_new X L w h title lo hi sts x_str y_str x = Inr (g, x') \<Longrightarrow>
     styles g = sts \<and> data_points g = replicate (length sts) []"
  by (auto simp: graph_new_def res_iff case_prod_unfold)


text \<open>Adding to a graph of rates never fails while a bin stays below \<open>2 ^ 31\<close>.\<close>

fun added :: "live_call \<Rightarrow> nat" where
  "added (LiveAdd num amount) = unat amount"
| "added _ = 0"

fun adds_only :: "nat \<Rightarrow> live_call \<Rightarrow> bool" where
  "adds_only n (LiveAdd num amount) \<longleftrightarrow> num < n"
| "adds_only n (LiveMax num amount) \<longleftrightarrow> False"
| "adds_only n LiveLook \<longleftrightarrow> True"

lemma sint_nonneg_u32: "unat v < 2 ^ 31 \<Longrightarrow> 0 \<le> sint v" for v :: u32
  using sint_of_nat_u32_nonneg [of "unat v"] by simp

lemma live_run_adds:
  "graph_ready 0 l \<Longrightarrow> \<forall>call \<in> set cs. adds_only (length (value_this_bin l)) call \<Longrightarrow>
   \<forall>v \<in> set (value_this_bin l). unat v + sum_list (map added cs) < 2 ^ 31 \<Longrightarrow>
   \<exists>r. live_run cs (l, e) = Inr r"
proof (induction cs arbitrary: l e)
  case Nil
  then show ?case by simp
next
  case (Cons call cs)
  let ?rest = "sum_list (map added cs)" and ?n = "length (value_this_bin l)"
  obtain now e1 where now: "timestamp e = (now, e1)"
    by force
  obtain l1 where l1: "advance_to (bin_at l now) l = Inr l1" "same_graph l l1" "graph_ready 0 l1"
    "\<And>i. i < ?n \<Longrightarrow> value_this_bin l1 ! i = (if current_bin l < bin_at l now then 0 else value_this_bin l ! i)"
    using advance_to_ready [OF Cons.prems(1), of "bin_at l now"] by blast
  have adv: "advance l e = Inr (now, l1, e1)"
    using l1(1) by (simp add: advance_def now bin_at_def)
  have len: "length (value_this_bin l1) = ?n"
    using l1(2) by (simp add: same_graph_def)
  have small: "unat (value_this_bin l1 ! i) + added call + ?rest < 2 ^ 31" if "i < ?n" for i
    using Cons.prems(3) l1(4) [OF that] nth_mem [OF that] by (fastforce simp: add.assoc)
  have "\<exists>l2. live_do call (l, e) = Inr (l2, e1) \<and> graph_ready 0 l2 \<and> length (value_this_bin l2) = ?n \<and>
      (\<forall>i < ?n. unat (value_this_bin l2 ! i) + ?rest < 2 ^ 31)"
  proof (cases call)
    case (LiveAdd num amount)
    with Cons.prems(2) have num: "num < ?n" by simp
    have s: "0 \<le> sint (value_this_bin l1 ! num)"
      using small [OF num] by (intro sint_nonneg_u32) simp
    have "unat (value_this_bin l1 ! num + amount) = unat (value_this_bin l1 ! num) + unat amount"
      using small [OF num] LiveAdd by (simp add: unat_word_ariths)
    moreover have "unat (value_this_bin l1 ! i) + ?rest < 2 ^ 31" if "i < ?n" for i
      using small [OF that] by simp
    ultimately show ?thesis
      using small [OF num] LiveAdd s num len l1(3)
      by (auto simp: live_do_def add_value_now_def adv add_to_bin_def graph_ready_def nth_list_update)
  next
    case (LiveMax num amount)
    with Cons.prems(2) show ?thesis by simp
  next
    case LiveLook
    with small len l1(3) show ?thesis
      by (auto simp: live_do_def adv)
  qed
  then obtain l2 where l2: "live_do call (l, e) = Inr (l2, e1)" "graph_ready 0 l2" "length (value_this_bin l2) = ?n"
    "\<forall>v \<in> set (value_this_bin l2). unat v + ?rest < 2 ^ 31"
    by (metis in_set_conv_nth)
  have "\<forall>call \<in> set cs. adds_only (length (value_this_bin l2)) call"
    using Cons.prems(2) l2(3) by simp
  then obtain r where "live_run cs (l2, e1) = Inr r"
    using Cons.IH [OF l2(2) _ l2(4)] by blast
  then show ?case
    by (cases r) (simp add: l2(1))
qed

text \<open>The readings of the clock a session takes.\<close>

fun readings :: "nat \<Rightarrow> env \<Rightarrow> u64 list" where
  "readings 0 e = []"
| "readings (Suc n) e = fst (timestamp e) # readings n (snd (timestamp e))"

lemma live_do_env: "live_do call (l, e) = Inr (l', e') \<Longrightarrow> e' = snd (timestamp e)"
  by (cases call)
     (auto simp: live_do_def add_value_now_def set_max_value_now_def advance_def res_iff split: prod.splits)

lemma live_run_readings:
  "live_run cs (l, e) = Inr (hist, l', e') \<Longrightarrow> hist = zip (readings (length cs) e) cs"
proof (induction cs arbitrary: l e hist)
  case Nil
  then show ?case by simp
next
  case (Cons call cs)
  then obtain l1 hist1 where "live_run cs (l1, snd (timestamp e)) = Inr (hist1, l', e')"
    "hist = (fst (timestamp e), call) # hist1"
    using live_do_env by (fastforce simp: res_iff)
  with Cons.IH show ?case by simp
qed

definition sample_xcb :: "(nat \<times> xcb_event list) xcb_calls" where
  "sample_xcb =
     \<lparr>xcb_connect = (\<lambda>_. True),
      xcb_generate_id = (\<lambda>(n, es). (of_nat n, (n + 1, es))), xcb_request_check = (\<lambda>_ x. (None, x)),
      xcb_get_setup = (\<lambda>_. True), xcb_first_screen = (\<lambda>_. Some \<lparr>root_depth = 24, depths = [[7]]\<rparr>),
      xcb_get_geometry = (\<lambda>_ _. Some (640, 480)), xcb_get_visual = (\<lambda>_ _. Some 7),
      xcb_flush = (\<lambda>x. (1, x)),
      xcb_wait_for_event = (\<lambda>(n, es). case es of [] \<Rightarrow> (None, (n, [])) | e # es' \<Rightarrow> (Some e, (n, es')))\<rparr>"

definition sample_drawing :: drawing_lib where
  "sample_drawing =
     \<lparr>surface_status = (\<lambda>_. None), context_status = (\<lambda>_. None), pattern_status = None,
      user_to_device = (\<lambda>_ p. p), device_to_user = (\<lambda>_ p. p),
      pango_layout_extents = (\<lambda>_ _. (0, 0, 1024, 1024)), format_int = to_string_int, format_double = (\<lambda>_. [])\<rparr>"

definition sample_style :: style where
  "sample_style = (Finite 0, Finite 0, Finite 0, Finite 1, False)"

lemma graph_new_sample:
  "\<exists>g x. graph_new sample_xcb sample_drawing w h title lo hi sts x_str y_str (0, es) = Inr (g, x)"
  by (simp add: graph_new_def xwindow_new_def xcb_object_new_def default_screen_def notnull_def check_noreply_def sample_xcb_def
    graphic_context_new_def xpixmap_new_def xcb_visual_def xwindow_size_def cairo_new_def surface_check_def
    context_check_def cairo_check_def status_error_def sample_drawing_def pattern_new_def xwindow_set_name_def
    xwindow_map_def xwindow_flush_def text_new_def)

lemma live_graph_open_sample:
  assumes "bin_width \<noteq> 0"
  shows "\<exists>l e' x. live_graph_open sample_xcb sample_drawing name sts y_str mult rate bin_width f e (0, es) = Inr (l, e', x)"
proof -
  obtain g x where g: "graph_new sample_xcb sample_drawing 640 480 name (Finite 0) (Finite 1) sts ''time (s)''
      y_str (0, es) = Inr (g, x)"
    using graph_new_sample by blast
  then have "length (data_points g) = length (styles g)"
    using graph_new_points [OF g] by simp
  then obtain g' where "first_points 0 (length (styles g)) g = Inr g'"
    using first_points_all [of 0 "length (styles g)" g] by auto
  with assms show ?thesis
    by (simp add: live_graph_open_def g live_graph_new_def live_graph_started_def live_graph_constructed_def Let_def
      split: prod.split)
qed

lemma live_graph_open_env:
  "live_graph_open X L name sts y_str mult rate bin_width f e x = Inr (l, e', x') \<Longrightarrow> e' = snd (timestamp e)"
  by (auto simp: live_graph_open_def live_graph_new_def live_graph_started_def res_iff case_prod_unfold
    split: if_splits)


end
