(* ===== verification/Live_Frames.thy ===== *)
theory Live_Frames
  imports Live_Graph
begin

text \<open>
  What the frames of a live graph do (\<open>src/src/graphing/graph.cc\<close>, \<open>binned_livegraph.cc\<close>): which points
  and labels a frame keeps, that its loops end, that its assertions hold, that the lines drawn are well
  formed, and the cases in which a frame is not what it was meant to be.
\<close>

section \<open>Trimming\<close>

text \<open>What is dropped is to the left of the window, and so is the first point kept.\<close>

lemma trim_line_split:
  "\<exists>gone. ps = gone @ trim_line edge ps \<and> (\<forall>p \<in> set gone. fp_less (fst p) edge) \<and>
     (gone \<noteq> [] \<longrightarrow> trim_line edge ps \<noteq> [] \<and> fp_less (fst (hd (trim_line edge ps))) edge)"
proof (induction edge ps rule: trim_line.induct)
  case (1 edge p q ps)
  show ?case
  proof (cases "fp_less (fst p) edge \<and> fp_less (fst q) edge")
    case True
    with "1.IH" obtain gone where IH: "q # ps = gone @ trim_line edge (q # ps)"
      "\<forall>p \<in> set gone. fp_less (fst p) edge"
      "gone \<noteq> [] \<longrightarrow> trim_line edge (q # ps) \<noteq> [] \<and> fp_less (fst (hd (trim_line edge (q # ps)))) edge"
      by blast
    have "trim_line edge (q # ps) \<noteq> [] \<and> fp_less (fst (hd (trim_line edge (q # ps)))) edge"
      using IH True by (cases gone) auto
    with IH True show ?thesis
      by (intro exI [of _ "p # gone"]) auto
  qed auto
qed auto

section \<open>Drawing changes the pictures only\<close>

text \<open>The pixmaps and everything that is not drawn or a label stay.\<close>

definition redrawn :: "graph \<Rightarrow> graph \<Rightarrow> bool" where
  "redrawn g g' \<longleftrightarrow>
     graph_window g' = graph_window g \<and> current_gc_index g' = current_gc_index g \<and> styles g' = styles g \<and>
     data_points g' = data_points g \<and> target_min_y g' = target_min_y g \<and> target_max_y g' = target_max_y g \<and>
     graph_bottom g' = graph_bottom g \<and> graph_top g' = graph_top g \<and>
     map gc_pixmap (gcs g') = map gc_pixmap (gcs g)"

lemma redrawn_refl [simp]: "redrawn g g"
  by (simp add: redrawn_def)

lemma redrawn_trans: "redrawn g g1 \<Longrightarrow> redrawn g1 g2 \<Longrightarrow> redrawn g g2"
  by (simp add: redrawn_def)

lemma gc_draw_pixmap [simp]: "gc_pixmap (gc_draw f gc) = gc_pixmap gc"
  by (simp add: gc_draw_def)

lemma draw_fields [simp]:
  "x_tick_labels (draw f g) = x_tick_labels g" "y_tick_labels (draw f g) = y_tick_labels g"
  "current_gc_index (draw f g) = current_gc_index g" "graph_window (draw f g) = graph_window g"
  "graph_bottom (draw f g) = graph_bottom g" "graph_top (draw f g) = graph_top g"
  by (simp_all add: draw_def)

lemma redrawn_draw [simp]: "redrawn g (draw f g)"
proof -
  have "map gc_pixmap ((gcs g)[i := gc_draw f (gcs g ! i)]) = map gc_pixmap (gcs g)" for i
  proof (rule nth_equalityI)
    fix j assume "j < length (map gc_pixmap ((gcs g)[i := gc_draw f (gcs g ! i)]))"
    then show "map gc_pixmap ((gcs g)[i := gc_draw f (gcs g ! i)]) ! j = map gc_pixmap (gcs g) ! j"
      by (cases "i = j") simp_all
  qed simp
  then show ?thesis
    by (simp add: redrawn_def draw_def current_gc_def)
qed

section \<open>The labels of the time axis\<close>

text \<open>Consecutive seconds.\<close>

definition ticks_ok :: "graph \<Rightarrow> bool" where
  "ticks_ok g \<longleftrightarrow> (\<exists>a b. 0 \<le> a \<and> a \<le> b + 1 \<and> b \<le> 2 ^ 23 \<and> map fst (x_tick_labels g) = [a..b])"

lemma ticks_ok_labels: "x_tick_labels g' = x_tick_labels g \<Longrightarrow> ticks_ok g' = ticks_ok g"
  by (simp add: ticks_ok_def)

text \<open>Dropping leaves labels that are not to the left of the window.\<close>

lemma upto_suffix: "[a..b] = xs @ ys \<Longrightarrow> a \<le> b + 1 \<Longrightarrow> ys = [a + int (length xs)..b]"
proof (induction xs arbitrary: a)
  case (Cons x xs)
  then have "a \<le> b" by (cases "a \<le> b") auto
  with Cons.prems have "[a + 1..b] = xs @ ys"
    by (auto simp: upto_rec1)
  from Cons.IH [OF this] \<open>a \<le> b\<close> show ?case by (simp add: algebra_simps)
qed simp

lemma drop_tick_labels_ok:
  assumes "ticks_ok g"
  shows "ticks_ok (drop_tick_labels t width g)"
proof -
  obtain a b where ab: "0 \<le> a" "a \<le> b + 1" "b \<le> 2 ^ 23" "map fst (x_tick_labels g) = [a..b]"
    using assms by (auto simp: ticks_ok_def)
  let ?gone = "\<lambda>x. fp_less (int32 (fst x)) (left_edge t width)"
  have "[a..b] = map fst (takeWhile ?gone (x_tick_labels g)) @ map fst (dropWhile ?gone (x_tick_labels g))"
    by (simp only: ab(4) [symmetric] map_append [symmetric] takeWhile_dropWhile_id)
  note left = upto_suffix [OF this ab(2)]
  have "int (length (map fst (takeWhile ?gone (x_tick_labels g)))) \<le> int (length [a..b])"
    using length_takeWhile_le [of ?gone "x_tick_labels g"] ab(4) by (metis length_map of_nat_le_iff)
  then have "a + int (length (map fst (takeWhile ?gone (x_tick_labels g)))) \<le> b + 1"
    using ab(2) by simp
  with left ab(1,3) show ?thesis
    unfolding ticks_ok_def drop_tick_labels_def
    by (intro exI [of _ "a + int (length (map fst (takeWhile ?gone (x_tick_labels g))))"] exI [of _ b]) simp
qed

text \<open>A time whose floats are exact seconds at the ends.\<close>

definition tick_end :: "fp \<Rightarrow> int \<Rightarrow> bool" where
  "tick_end t e \<longleftrightarrow> (\<exists>s. add32 t (Finite 1) = Finite s \<and> e = \<lceil>s\<rceil>)"

lemma frame_time:
  assumes "0 \<le> r" and "r \<le> 2 ^ 23 - 1"
  shows "\<exists>n e. to_int (Finite r) = Inr n \<and> 0 \<le> n \<and> n \<le> 2 ^ 23 \<and> tick_end (Finite r) e \<and> e \<le> 2 ^ 23"
proof -
  let ?n = "round_half_even r"
  have n: "0 \<le> ?n" "?n \<le> 2 ^ 23 - 1"
    using round_half_even_ge [of 0 r] round_half_even_le [of r "2 ^ 23 - 1"] assms by simp_all
  then have "sint (word_of_int ?n :: u32) = ?n"
    by (simp add: signed_take_bit_int_eq_self sint_sbintrunc')
  then have "to_int (Finite r) = Inr ?n"
    using n by (simp add: to_int_def lrint_def)
  moreover have "round32 (r + 1) = Finite (float_rnd (r + 1))" "float_rnd (r + 1) \<le> 2 ^ 23"
    using round32_power [of "r + 1" 23] assms by simp_all
  ultimately show ?thesis
    using n by (auto simp: tick_end_def ceiling_le_iff)
qed

lemma add_tick_fields:
  "\<exists>txt. x_tick_labels (add_tick L label g) = x_tick_labels g @ [(label, txt)]"
  "y_tick_labels (add_tick L label g) = y_tick_labels g" "redrawn g (add_tick L label g)"
proof -
  obtain tx d where tx: "text_new L graph_font (format_int L label) (drawing_of g) = (tx, d)"
    by force
  let ?g = "g\<lparr>x_tick_labels := x_tick_labels g @ [(label, tx)]\<rparr>"
  have g: "add_tick L label g = draw (\<lambda>_. d) ?g"
    by (simp add: add_tick_def tx)
  show "\<exists>txt. x_tick_labels (add_tick L label g) = x_tick_labels g @ [(label, txt)]"
    "y_tick_labels (add_tick L label g) = y_tick_labels g"
    by (simp_all add: g)
  have "redrawn g ?g"
    by (simp add: redrawn_def)
  then show "redrawn g (add_tick L label g)"
    unfolding g by (rule redrawn_trans) simp
qed

lemma add_tick_labels_from:
  "map fst (x_tick_labels g) = [a..b] \<Longrightarrow> 0 \<le> a \<Longrightarrow> a \<le> b \<Longrightarrow> b \<le> 2 ^ 23 \<Longrightarrow> tick_end t e \<Longrightarrow> e \<le> 2 ^ 23 \<Longrightarrow>
   \<exists>g'. add_tick_labels L t g = Some (Inr g') \<and> redrawn g g' \<and> y_tick_labels g' = y_tick_labels g \<and>
     map fst (x_tick_labels g') = [a..max b e]"
proof (induction "nat (e - b)" arbitrary: b g rule: less_induct)
  case less
  obtain s where s: "add32 t (Finite 1) = Finite s" "e = \<lceil>s\<rceil>"
    using less.prems(5) by (auto simp: tick_end_def)
  have some: "x_tick_labels g \<noteq> []"
    using less.prems(1,3) by (auto simp: upto_rec2)
  then have last: "fst (last (x_tick_labels g)) = b"
    using less.prems(1,3) last_map [of "x_tick_labels g" fst] by (simp add: upto_rec2)
  have "int32 b = Finite (of_int b)"
    using less.prems(2-4) by (intro int32_exact) simp_all
  then have test: "fp_less (int32 b) (add32 t (Finite 1)) \<longleftrightarrow> b < e"
    by (simp add: s less_ceiling_iff)
  show ?case
  proof (cases "b < e")
    case False
    then have "add_tick_labels L t g = Some (Inr g)"
      by (subst add_tick_labels.simps) (simp add: some last test)
    with False less.prems(1) show ?thesis by simp
  next
    case True
    let ?g = "add_tick L (b + 1) g"
    have "next_tick t g = Inr (b + 1)"
      using less.prems(4) by (simp add: next_tick_def some last)
    then have step: "add_tick_labels L t g = add_tick_labels L t ?g"
      using True by (subst add_tick_labels.simps) (simp add: some last test)
    have "map fst (x_tick_labels ?g) = [a..b + 1]"
      using add_tick_fields(1) [of L "b + 1" g] less.prems(1,3) upto_rec2 [of a "b + 1"] by auto
    note labels = this
    have "nat (e - (b + 1)) < nat (e - b)" "a \<le> b + 1" "b + 1 \<le> 2 ^ 23" and high: "max (b + 1) e = max b e"
      using True less.prems(3,6) by auto
    from less.hyps [OF this(1) labels less.prems(2) this(2,3) less.prems(5,6)] obtain g' where
      "add_tick_labels L t ?g = Some (Inr g')" "redrawn ?g g'"
      "y_tick_labels g' = y_tick_labels ?g" "map fst (x_tick_labels g') = [a..max b e]"
      unfolding high by blast
    then show ?thesis
      unfolding step using add_tick_fields(2) [of L "b + 1" g] add_tick_fields(3) [of g L "b + 1"] redrawn_trans by auto
  qed
qed

text \<open>After the loop there are labels up to a second after the time of the frame.\<close>

lemma add_tick_labels_ends:
  assumes "ticks_ok g" and "to_int t = Inr n" and "0 \<le> n" and "n \<le> 2 ^ 23" and "tick_end t e" and "e \<le> 2 ^ 23"
  shows "\<exists>g' a b. add_tick_labels L t g = Some (Inr g') \<and> redrawn g g' \<and> y_tick_labels g' = y_tick_labels g \<and>
    map fst (x_tick_labels g') = [a..b] \<and> 0 \<le> a \<and> a \<le> b \<and> e \<le> b \<and> b \<le> 2 ^ 23"
proof (cases "x_tick_labels g = []")
  case True
  let ?g = "add_tick L n g"
  have step: "add_tick_labels L t g = add_tick_labels L t ?g"
    using True assms(2) by (subst add_tick_labels.simps) (simp add: next_tick_def)
  have "map fst (x_tick_labels ?g) = [n..n]"
    using add_tick_fields(1) [of L n g] True by auto
  from add_tick_labels_from [OF this assms(3) order_refl assms(4-6), where L = L] obtain g' where
    g': "add_tick_labels L t ?g = Some (Inr g')" "redrawn ?g g'" "y_tick_labels g' = y_tick_labels ?g"
    "map fst (x_tick_labels g') = [n..max n e]"
    by blast
  show ?thesis
    unfolding step using g' redrawn_trans [OF add_tick_fields(3) g'(2)] add_tick_fields(2) [of L n g] assms(3,4,6)
    by (intro exI [of _ g'] exI [of _ n] exI [of _ "max n e"]) simp
next
  case False
  obtain a b where ab: "0 \<le> a" "a \<le> b + 1" "b \<le> 2 ^ 23" "map fst (x_tick_labels g) = [a..b]"
    using assms(1) by (auto simp: ticks_ok_def)
  with False have "a \<le> b" by (cases "a \<le> b") auto
  from add_tick_labels_from [OF ab(4) ab(1) this ab(3) assms(5,6), where L = L] show ?thesis
    using \<open>a \<le> b\<close> ab(1,3) assms(6) by fastforce
qed

section \<open>The labels of the value axis\<close>

text \<open>The scale the graphs of the program have: from 0 to a number that is not too large.\<close>

definition scale_ok :: "graph \<Rightarrow> bool" where
  "scale_ok g \<longleftrightarrow> graph_bottom g = Finite 0 \<and> target_min_y g = Finite 0 \<and>
     (\<exists>h. graph_top g = Finite h \<and> 0 \<le> h \<and> h \<le> 2 ^ 30) \<and>
     (\<exists>m. target_max_y g = Finite m \<and> 0 \<le> m \<and> m \<le> 2 ^ 30)"

text \<open>The distance between labels after \<open>j\<close> doublings of a quarter.\<close>

definition quarters :: "nat \<Rightarrow> rat" where "quarters j = 2 powi (int j - 2)"

lemma quarters_pos [simp]: "0 < quarters j"
  by (simp add: quarters_def)

lemma label_spacing_ends:
  assumes "0 \<le> c" and "c \<le> 2 ^ 30"
  shows "j \<le> 33 \<Longrightarrow> \<exists>j' \<le> 33. label_spacing (Finite 0) (Finite (of_int c)) (Finite (quarters j)) = Some (Finite (quarters j'))"
proof (induction "33 - j" arbitrary: j rule: less_induct)
  case less
  have c: "(of_int c :: rat) \<le> 2 ^ 30" "0 \<le> (of_int c :: rat)"
    using assms by (metis of_int_le_iff of_int_numeral of_int_power, simp)
  then have "round64 (of_int c / 6) = Finite (rnd (of_int c / 6)) \<and> 0 \<le> rnd (of_int c / 6) \<and>
      rnd (of_int c / 6) \<le> 2 powi 30"
    by (intro round64_power) simp_all
  moreover have "round64 (of_int c) = Finite (of_int c)"
    using int64_exact [of c] assms by (simp add: int64_def)
  ultimately obtain q where q: "div64 (sub64 (Finite (of_int c)) (Finite 0)) (Finite 6) = Finite q" "q \<le> 2 powi 30"
    by (simp add: fp_sub_def)
  show ?case
  proof (cases "quarters j < q")
    case False
    then show ?thesis
      using less.prems by (subst label_spacing.simps) (auto simp: q)
  next
    case True
    have "quarters j < 2 powi 30"
      using True q(2) by linarith
    then have "int j - 2 < 30"
      using power_int_increasing [of 30 "int j - 2" "2 :: rat"] by (fastforce simp: quarters_def not_less)
    then have j: "j < 33" by simp
    have "round64 (of_int 1 * 2 powi (int (Suc j) - 2)) = Finite (of_int 1 * 2 powi (int (Suc j) - 2))"
      using j by (intro round64_exact) simp_all
    moreover have "quarters j * 2 = of_int 1 * 2 powi (int (Suc j) - 2)"
      unfolding quarters_def by (simp add: power_int_diff power_int_add)
    ultimately have "mul64 (Finite (quarters j)) (Finite 2) = Finite (quarters (Suc j))"
      by (simp add: quarters_def)
    then show ?thesis
      using less.hyps [of "Suc j"] j True by (subst label_spacing.simps) (simp add: q)
  qed
qed

lemma lit_quarter: "lit (1 / 4) = Finite (quarters 0)"
  using round64_exact [of 1 "- 2"] by (simp add: lit_def quarters_def power_int_minus)

lemma to_int_small: "\<bar>n\<bar> \<le> 2 ^ 30 \<Longrightarrow> to_int (Finite (of_int n)) = Inr n"
  by (simp add: to_int_def lrint_def signed_take_bit_int_eq_self sint_sbintrunc' abs_le_iff)

lemma label_range_ok:
  assumes "scale_ok g"
  shows "\<exists>c j. label_range g = Some (Inr (Finite 0, Finite (of_int c), Finite (quarters j))) \<and>
    0 \<le> c \<and> c \<le> 2 ^ 30 \<and> j \<le> 33"
proof -
  obtain h where h: "graph_bottom g = Finite 0" "graph_top g = Finite h" "0 \<le> h" "h \<le> 2 ^ 30"
    using assms by (auto simp: scale_ok_def)
  let ?c = "\<lceil>h\<rceil>"
  have c: "0 \<le> ?c" "?c \<le> 2 ^ 30"
    using h(3,4) by (simp_all add: ceiling_le_iff le_ceiling_iff)
  obtain j where j: "j \<le> 33" "label_spacing (Finite 0) (Finite (of_int ?c)) (Finite (quarters 0)) = Some (Finite (quarters j))"
    using label_spacing_ends [OF c, of 0] by auto
  have "round64 (of_int ?c * 2 powi (2 - int j)) = Finite (of_int ?c * 2 powi (2 - int j))"
    using c j(1) by (intro round64_exact) simp_all
  moreover have "of_int ?c / quarters j = of_int ?c * 2 powi (2 - int j)"
    by (simp add: quarters_def power_int_diff)
  ultimately have d: "div64 (Finite (of_int ?c)) (Finite (quarters j)) = Finite (of_int ?c / quarters j)"
    using less_imp_neq [OF quarters_pos [of j]] by simp
  have "round64 (of_int ?c) = Finite (of_int ?c)" "round64 0 = Finite 0"
    using int64_exact [of ?c] int64_exact [of 0] c by (simp_all add: int64_def)
  moreover have "to_int (Finite (of_int ?c)) = Inr ?c" "to_int (Finite (of_int 0)) = Inr 0"
    using c by (intro to_int_small; simp)+
  ultimately have "label_range g = Some (Inr (Finite 0, Finite (of_int ?c), Finite (quarters j)))"
    using d less_imp_neq [OF quarters_pos [of j]]
    by (simp add: label_range_def h fp_floor_def fp_ceil_def int64_def lit_quarter j(2))
  with c j(1) show ?thesis by blast
qed

text \<open>The heights are different multiples of the distance.\<close>

definition multiples :: "nat \<Rightarrow> nat list \<Rightarrow> (fp \<times> bool) list" where
  "multiples j ks = map (\<lambda>k. (Finite (of_nat k * quarters j), False)) ks"

lemma labels_that_belong_ends:
  assumes "0 \<le> c" and "c \<le> 2 ^ 30" and "j \<le> 33"
  shows "\<exists>ks. labels_that_belong g (Finite (of_nat k * quarters j)) (Finite (of_int c)) (Finite (quarters j)) found =
      Some (found @ multiples j ks) \<and> distinct ks \<and> (\<forall>i \<in> set ks. k \<le> i)"
proof (induction "nat (4 * c + 1) - k" arbitrary: k found rule: less_induct)
  case less
  let ?v = "of_nat k * quarters j :: rat"
  show ?case
  proof (cases "?v \<le> of_int c")
    case False
    then show ?thesis
      by (subst labels_that_belong.simps) (auto simp: fp_le_def multiples_def intro!: exI [of _ "[]"])
  next
    case True
    have "of_nat k * (1 / 4) \<le> ?v"
      using power_int_increasing [of "- 2" "int j - 2" "2 :: rat"]
      by (intro mult_left_mono) (simp_all add: quarters_def power_int_minus)
    then have "(of_int (int k) :: rat) \<le> of_int (4 * c)"
      using True by simp
    then have k: "int k \<le> 4 * c"
      by (simp only: of_int_le_iff)
    have "round64 (of_int (int (Suc k)) * 2 powi (int j - 2)) = Finite (of_int (int (Suc k)) * 2 powi (int j - 2))"
      using k assms by (intro round64_exact) simp_all
    then have next_val: "add64 (Finite ?v) (Finite (quarters j)) = Finite (of_nat (Suc k) * quarters j)"
      by (simp add: quarters_def algebra_simps)
    let ?found = "if on_chart g (Finite ?v) then found @ [(Finite ?v, False)] else found"
    obtain ks where ks: "labels_that_belong g (Finite (of_nat (Suc k) * quarters j)) (Finite (of_int c))
        (Finite (quarters j)) ?found = Some (?found @ multiples j ks)" "distinct ks" "\<forall>i \<in> set ks. Suc k \<le> i"
    proof -
      have "k < nat (4 * c + 1)"
        using k by linarith
      then have "nat (4 * c + 1) - Suc k < nat (4 * c + 1) - k"
        by simp
      from less.hyps [OF this] show ?thesis
        using that by blast
    qed
    have step: "labels_that_belong g (Finite ?v) (Finite (of_int c)) (Finite (quarters j)) found =
        labels_that_belong g (Finite (of_nat (Suc k) * quarters j)) (Finite (of_int c)) (Finite (quarters j)) ?found"
      using True next_val by (subst labels_that_belong.simps) (simp add: fp_le_def le_less)
    show ?thesis
    proof (cases "on_chart g (Finite ?v)")
      case True
      then have "?found @ multiples j ks = found @ multiples j (k # ks)"
        by (simp add: multiples_def)
      with ks show ?thesis
        unfolding step by (intro exI [of _ "k # ks"]) auto
    next
      case False
      with ks show ?thesis
        unfolding step by (intro exI [of _ ks]) auto
    qed
  qed
qed

lemma multiples_heights: "distinct ks \<Longrightarrow> distinct (map fst (multiples j ks))"
  using less_imp_neq [OF quarters_pos [of j]] by (auto simp: multiples_def distinct_map inj_on_def)

lemma multiples_untaken: "(h, taken) \<in> set (multiples j ks) \<Longrightarrow> (\<exists>x. h = Finite x) \<and> \<not> taken"
  by (auto simp: multiples_def)

lemma cull_labels_eq:
  "cull_labels ls =
     (if \<exists>l \<in> set ls. fp_less (label_intensity l) (lit (1 / 100)) then Inl Undefined else Inr ls)"
  by (induction ls) auto

text \<open>Labels have different heights, all numbers.\<close>

definition labels_ok :: "y_label list \<Rightarrow> bool" where
  "labels_ok ls \<longleftrightarrow> distinct (map label_height ls) \<and> (\<forall>l \<in> set ls. \<exists>x. label_height l = Finite x)"

definition with_height :: "fp \<Rightarrow> (fp \<times> bool) list \<Rightarrow> (fp \<times> bool) list" where
  "with_height h ys = map (\<lambda>(y, taken). (y, taken \<or> y = h)) ys"

lemma take_height_ok:
  "distinct (map fst ys) \<Longrightarrow> (\<And>y taken. (y, taken) \<in> set ys \<Longrightarrow> \<exists>x. y = Finite x) \<Longrightarrow>
   (Finite h, True) \<notin> set ys \<Longrightarrow>
   \<exists>belongs. take_height (Finite h) ys = Inr (belongs, with_height (Finite h) ys)"
proof (induction ys)
  case Nil
  then show ?case by (intro exI [of _ False]) (simp add: with_height_def)
next
  case (Cons p ys)
  obtain x taken where p: "p = (Finite x, taken)"
    using Cons.prems(2) by (cases p) fastforce
  show ?case
  proof (cases "x = h")
    case True
    then have "with_height (Finite h) ys = ys"
      using Cons.prems(1) p by (force simp: with_height_def intro: map_idI)
    with True Cons.prems(3) p show ?thesis
      by (auto simp: with_height_def)
  next
    case False
    with Cons.IH Cons.prems p show ?thesis
      by (fastforce simp: with_height_def)
  qed
qed

lemma with_height_props:
  "map fst (with_height h ys) = map fst ys"
  "(y, True) \<in> set (with_height h ys) \<longleftrightarrow> (y, True) \<in> set ys \<or> (y = h \<and> h \<in> fst ` set ys)"
  by (force simp: with_height_def)+

text \<open>No height is taken twice, so the assertion holds.\<close>

lemma adjust_labels_ok:
  "labels_ok ls \<Longrightarrow> distinct (map fst ys) \<Longrightarrow> \<forall>y \<in> set (map fst ys). \<exists>x. y = Finite x \<Longrightarrow>
   \<forall>y. (y, True) \<in> set ys \<longrightarrow> y \<notin> label_height ` set ls \<Longrightarrow>
   \<exists>ls' ys'. adjust_labels ls ys = Inr (ls', ys') \<and> map label_height ls' = map label_height ls \<and>
     map fst ys' = map fst ys \<and>
     (\<forall>y. (y, True) \<in> set ys' \<longleftrightarrow> (y, True) \<in> set ys \<or> (y \<in> label_height ` set ls \<and> y \<in> fst ` set ys))"
proof (induction ls arbitrary: ys)
  case Nil
  then show ?case by simp
next
  case (Cons l ls)
  obtain h where h: "label_height l = Finite h"
    using Cons.prems(1) by (auto simp: labels_ok_def)
  let ?ys = "with_height (Finite h) ys"
  have ok: "labels_ok ls" and new: "Finite h \<notin> label_height ` set ls"
    using Cons.prems(1) h by (auto simp: labels_ok_def)
  obtain belongs where take_h: "take_height (Finite h) ys = Inr (belongs, ?ys)"
    using take_height_ok [of ys h] Cons.prems(2-4) h by (force simp: image_iff)
  have "\<forall>y. (y, True) \<in> set ?ys \<longrightarrow> y \<notin> label_height ` set ls"
  proof (intro allI impI)
    fix y assume y: "(y, True) \<in> set ?ys"
    have "(y, True) \<in> set ys \<or> y = Finite h"
      using y with_height_props(2) by blast
    then show "y \<notin> label_height ` set ls"
    proof
      assume "(y, True) \<in> set ys"
      with Cons.prems(4) show ?thesis by simp
    next
      assume "y = Finite h"
      with new show ?thesis by simp
    qed
  qed
  from Cons.IH [OF ok _ _ this] Cons.prems(2,3) obtain ls' ys' where
    IH: "adjust_labels ls ?ys = Inr (ls', ys')" "map label_height ls' = map label_height ls"
    "map fst ys' = map fst ys"
    "\<forall>y. (y, True) \<in> set ys' \<longleftrightarrow> (y, True) \<in> set ?ys \<or> (y \<in> label_height ` set ls \<and> y \<in> fst ` set ?ys)"
    by (auto simp: with_height_props)
  have fsts: "fst ` set ?ys = fst ` set ys"
    using with_height_props(1) [of "Finite h" ys] by (metis list.set_map)
  show ?case
    using IH h take_h by (auto simp: with_height_props fsts intro: rev_image_eqI)
qed

lemma add_labels_ok:
  "\<exists>new. y_tick_labels (add_labels L ys g) = y_tick_labels g @ new \<and>
     map label_height new = map fst (filter (\<lambda>y. \<not> snd y) ys) \<and>
     x_tick_labels (add_labels L ys g) = x_tick_labels g \<and> redrawn g (add_labels L ys g)"
proof (induction ys arbitrary: g)
  case Nil
  then show ?case by simp
next
  case (Cons p ys)
  obtain h taken where p: "p = (h, taken)" by force
  show ?case
  proof (cases taken)
    case True
    with Cons.IH p show ?thesis by simp
  next
    case False
    obtain tx d where tx: "text_new L graph_font (format_double L h) (drawing_of g) = (tx, d)"
      by force
    let ?l = "\<lparr>label_height = h, label_text = tx, label_intensity = to_float (lit (5 / 100))\<rparr>"
    let ?g1 = "g\<lparr>y_tick_labels := y_tick_labels g @ [?l]\<rparr>"
    let ?g = "draw (\<lambda>_. d) ?g1"
    have step: "add_labels L (p # ys) g = add_labels L ys ?g"
      using False by (simp add: p tx)
    obtain new where new: "y_tick_labels (add_labels L ys ?g) = y_tick_labels ?g @ new"
      "map label_height new = map fst (filter (\<lambda>y. \<not> snd y) ys)"
      "x_tick_labels (add_labels L ys ?g) = x_tick_labels ?g" "redrawn ?g (add_labels L ys ?g)"
      using Cons.IH by blast
    have "redrawn g ?g1"
      by (simp add: redrawn_def)
    then have "redrawn g ?g"
      by (rule redrawn_trans) simp
    from redrawn_trans [OF this new(4)] show ?thesis
      unfolding step using False new(1-3) by (intro exI [of _ "?l # new"]) (simp add: p)
  qed
qed

text \<open>
  The labels of a frame: they are found, and their heights stay different; when a label has faded away
  before, culling it is undefined.
\<close>

lemma update_labels_ok:
  assumes "scale_ok g" and "labels_ok (y_tick_labels g)"
  shows "(\<exists>l \<in> set (y_tick_labels g). fp_less (label_intensity l) (lit (1 / 100))) \<and>
      update_labels L g = Some (Inl Undefined) \<or>
    \<not> (\<exists>l \<in> set (y_tick_labels g). fp_less (label_intensity l) (lit (1 / 100))) \<and>
    (\<exists>g'. update_labels L g = Some (Inr g') \<and> redrawn g g' \<and> x_tick_labels g' = x_tick_labels g \<and>
       labels_ok (y_tick_labels g'))"
proof -
  obtain c j where range: "label_range g = Some (Inr (Finite 0, Finite (of_int c), Finite (quarters j)))"
    "0 \<le> c" "c \<le> 2 ^ 30" "j \<le> 33"
    using label_range_ok [OF assms(1)] by blast
  obtain ks where ks: "labels_that_belong g (Finite 0) (Finite (of_int c)) (Finite (quarters j)) [] =
      Some (multiples j ks)" "distinct ks"
    using labels_that_belong_ends [OF range(2-4), of g 0 "[]"] by auto
  let ?ys = "multiples j ks" and ?ls = "y_tick_labels g"
  have ys: "distinct (map fst ?ys)" "\<forall>y \<in> set (map fst ?ys). \<exists>x. y = Finite x" "\<And>y. (y, True) \<notin> set ?ys"
    using multiples_heights [OF ks(2)] multiples_untaken by fastforce+
  obtain ls' ys' where adj: "adjust_labels ?ls ?ys = Inr (ls', ys')"
    "map label_height ls' = map label_height ?ls" "map fst ys' = map fst ?ys"
    "\<And>y. (y, True) \<in> set ys' \<longleftrightarrow> y \<in> label_height ` set ?ls \<and> y \<in> fst ` set ?ys"
    using adjust_labels_ok [OF assms(2) ys(1,2)] ys(3) by (metis (no_types, lifting))
  let ?g = "g\<lparr>y_tick_labels := ls'\<rparr>"
  obtain new where new: "y_tick_labels (add_labels L ys' ?g) = ls' @ new"
    "map label_height new = map fst (filter (\<lambda>y. \<not> snd y) ys')"
    "x_tick_labels (add_labels L ys' ?g) = x_tick_labels g" "redrawn ?g (add_labels L ys' ?g)"
    using add_labels_ok [of L ys' ?g] by auto
  have "redrawn g ?g"
    by (simp add: redrawn_def)
  then have red: "redrawn g (add_labels L ys' ?g)"
    using new(4) by (rule redrawn_trans)
  have "distinct (map fst ys')"
    using ys(1) adj(3) by simp
  then have "distinct (map label_height new)"
    unfolding new(2) by (rule distinct_map_filter)
  moreover have "y \<notin> label_height ` set ls'" if "y \<in> set (map label_height new)" for y
  proof -
    have "(y, False) \<in> set ys'"
      using that unfolding new(2) by auto
    then have "(y, True) \<notin> set ys'"
      using eq_key_imp_eq_value [OF \<open>distinct (map fst ys')\<close>] by blast
    moreover have "y \<in> set (map fst ?ys)"
      unfolding adj(3) [symmetric] using \<open>(y, False) \<in> set ys'\<close> by force
    ultimately have "y \<notin> set (map label_height ?ls)"
      using adj(4) [of y] by simp
    then show ?thesis
      unfolding adj(2) [symmetric] by simp
  qed
  moreover have "\<exists>x. y = Finite x" if "y \<in> set (map label_height new)" for y
  proof -
    have "y \<in> set (map fst ys')"
      using that unfolding new(2) by auto
    then show ?thesis
      using ys(2) unfolding adj(3) by blast
  qed
  ultimately have *: "distinct (map label_height new)" "\<forall>y \<in> set (map label_height new). y \<notin> label_height ` set ls'"
    "\<forall>y \<in> set (map label_height new). \<exists>x. y = Finite x"
    by blast+
  have "labels_ok (ls' @ new)"
  proof -
    have "labels_ok ls'"
      using assms(2) adj(2) unfolding labels_ok_def by (metis in_set_conv_nth length_map nth_map)
    with * show ?thesis
      unfolding labels_ok_def by (auto, metis image_eqI)
  qed
  then show ?thesis
    using range(1) ks(1) adj(1) new(1,3) red by (auto simp: update_labels_def cull_labels_eq)
qed

section \<open>The scale\<close>

definition values_ok :: "graph \<Rightarrow> fp list \<Rightarrow> fp \<Rightarrow> bool" where
  "values_ok g current_values current_weight \<longleftrightarrow>
     (\<forall>line \<in> set (data_points g). \<forall>p \<in> set line. \<exists>y. snd p = Finite y \<and> y \<le> 2 ^ 29) \<and>
     (fp_less (lit (4 / 10)) current_weight \<longrightarrow> (\<forall>c \<in> set current_values. \<exists>y. c = Finite y \<and> y \<le> 2 ^ 29))"

definition moderate :: "rat \<Rightarrow> fp \<Rightarrow> bool" where
  "moderate limit a \<longleftrightarrow> (\<exists>y. a = Finite y \<and> 0 \<le> y \<and> y \<le> limit)"

lemma larger_moderate: "moderate limit m \<Longrightarrow> \<exists>y. v = Finite y \<and> y \<le> limit \<Longrightarrow> moderate limit (larger m v)"
  by (auto simp: moderate_def larger_def)

lemma foldl_larger_moderate:
  "moderate limit m \<Longrightarrow> (\<And>v. v \<in> set vs \<Longrightarrow> \<exists>y. v = Finite y \<and> y \<le> limit) \<Longrightarrow> moderate limit (foldl larger m vs)"
proof (induction vs arbitrary: m)
  case (Cons v vs)
  have "moderate limit (larger m v)"
    using Cons.prems by (intro larger_moderate) simp_all
  with Cons show ?case by simp
qed simp

lemma max_value_moderate:
  assumes "values_ok g current_values current_weight"
  shows "moderate (2 ^ 29) (max_value g current_values current_weight)"
proof -
  have "moderate (2 ^ 29) m \<Longrightarrow> set ls \<subseteq> set (frame_lines g current_values) \<Longrightarrow>
      moderate (2 ^ 29) (foldl (\<lambda>m l. line_max current_weight l m) m ls)" for m ls
  proof (induction ls arbitrary: m)
    case (Cons l ls)
    obtain red green blue opacity fill line current where l: "l = ((red, green, blue, opacity, fill), line, current)"
      by (metis prod.collapse)
    have "line \<in> set (data_points g)" "current \<in> set current_values"
      using Cons.prems(2) l by (auto simp: frame_lines_def dest: set_zip_leftD set_zip_rightD)
    with assms have line: "\<And>v. v \<in> set (map snd line) \<Longrightarrow> \<exists>y. v = Finite y \<and> y \<le> 2 ^ 29"
      and current: "fp_less (lit (4 / 10)) current_weight \<Longrightarrow> \<exists>y. current = Finite y \<and> y \<le> 2 ^ 29"
      by (auto simp: values_ok_def)
    have "moderate (2 ^ 29) (foldl larger m (map snd line))"
      by (rule foldl_larger_moderate [OF Cons.prems(1) line])
    then have "moderate (2 ^ 29) (line_max current_weight l m)"
      using larger_moderate [OF _ current] Cons.prems(1) by (simp add: line_max_def l Let_def)
    with Cons show ?case by simp
  qed simp
  note lines = this
  have "moderate (2 ^ 29) FLT_MIN"
    unfolding moderate_def FLT_MIN_def by (intro exI [of _ "1 / 2 ^ 126"]) simp
  from lines [OF this subset_refl] show ?thesis
    by (simp only: max_value_def)
qed

text \<open>The new target: a value times less than 2, or 1.\<close>

lemma target_moderate:
  assumes "moderate (2 ^ 29) m" and "0 \<le> c" and "c \<le> 2"
  shows "moderate (2 ^ 30) (fp_max (mul32 m (round32 c)) (add32 (Finite 0) (Finite 1)))"
proof -
  obtain y where y: "m = Finite y" "0 \<le> y" "y \<le> 2 ^ 29"
    using assms(1) by (auto simp: moderate_def)
  obtain f where f: "round32 c = Finite f" "0 \<le> f" "f \<le> 2"
    using round32_power [of c 1] assms(2,3) by auto
  have "y * f \<le> 2 ^ 29 * 2"
    using y f by (intro mult_mono) simp_all
  then have "moderate (2 ^ 30) (round32 (y * f))"
    using round32_power [of "y * f" 30] y(2) f(2) by (auto simp: moderate_def)
  moreover have "round32 1 = Finite 1"
    using round32_exact [of 1] by simp
  ultimately show ?thesis
    by (auto simp: fp_max_def y f moderate_def)
qed

lemma smoothed_moderate:
  assumes "moderate (2 ^ 30) v" and "moderate (2 ^ 30) target"
  shows "moderate (2 ^ 30) (smoothed v target)"
proof -
  obtain h m where h: "v = Finite h" "0 \<le> h" "h \<le> 2 ^ 30" and m: "target = Finite m" "0 \<le> m" "m \<le> 2 ^ 30"
    using assms by (auto simp: moderate_def)
  define a b where "a = rnd (95 / 100)" and "b = rnd (5 / 100)"
  have a: "lit (95 / 100) = Finite a" "0 \<le> a" "a \<le> 95 / 100 + 2 powi (- 54)"
    using round64_power [of "95 / 100" 0] rnd_near [of "95 / 100" 0] by (simp_all add: lit_def a_def)
  have b: "lit (5 / 100) = Finite b" "0 \<le> b" "b \<le> 5 / 100 + 2 powi (- 54)"
    using round64_power [of "5 / 100" 0] rnd_near [of "5 / 100" 0] by (simp_all add: lit_def b_def)
  have small: "(2 :: rat) powi (- 54) \<le> 1 / 2 ^ 54"
    by (simp add: power_int_def power_one_over)
  have ha: "h * a \<le> 2 ^ 30 * (95 / 100 + 1 / 2 ^ 54)"
    by (rule mult_mono [OF h(3) order_trans [OF a(3) add_left_mono [OF small]]]) (simp_all add: a(2))
  have mb: "m * b \<le> 2 ^ 30 * (5 / 100 + 1 / 2 ^ 54)"
    by (rule mult_mono [OF m(3) order_trans [OF b(3) add_left_mono [OF small]]]) (simp_all add: b(2))
  have step: "round64 x = Finite (rnd x) \<and> 0 \<le> rnd x \<and> rnd x \<le> x + 1" if "0 \<le> x" "x < 2 powi 31" for x
  proof -
    have "(2 :: rat) powi (31 - 54) \<le> 1"
      by (simp add: power_int_minus)
    then show ?thesis
      using round64_power [of x 31] rnd_near [of x 31] that by (simp add: less_le_trans add_increasing2)
  qed
  have ha': "0 \<le> h * a" "h * a < 2 powi 31" and mb': "0 \<le> m * b" "m * b < 2 powi 31"
    using ha mb h(2) a(2) m(2) b(2) by simp_all
  note s1 = step [OF ha'] and s2 = step [OF mb']
  have sum: "0 \<le> rnd (h * a) + rnd (m * b)" "rnd (h * a) + rnd (m * b) < 2 powi 31"
    using s1 s2 ha mb by simp_all
  note s3 = step [OF sum]
  have "rnd (rnd (h * a) + rnd (m * b)) < 2 powi 30 + 2 powi (30 - 24)"
    using s1 s2 s3 ha mb by simp
  then have "moderate (2 ^ 30) (round32 (rnd (rnd (h * a) + rnd (m * b))))"
    using round32_power [of "rnd (rnd (h * a) + rnd (m * b))" 30] s3 by (auto simp: moderate_def)
  then show ?thesis
    unfolding smoothed_def h(1) m(1) a(1) b(1) using s1 s2 s3 by (simp add: to_float_def)
qed

definition weight_ok :: "fp \<Rightarrow> bool" where
  "weight_ok w \<longleftrightarrow> fp_le (Finite 0) w \<and> fp_le w (Finite 1)"

lemma scale_moderate:
  "scale_ok g \<longleftrightarrow> graph_bottom g = Finite 0 \<and> target_min_y g = Finite 0 \<and>
     moderate (2 ^ 30) (graph_top g) \<and> moderate (2 ^ 30) (target_max_y g)"
  by (simp add: scale_ok_def moderate_def)

lemma smoothed_zero: "smoothed (Finite 0) (Finite 0) = Finite 0"
proof -
  have "lit (95 / 100) = Finite (rnd (95 / 100))" "lit (5 / 100) = Finite (rnd (5 / 100))"
    using round64_power [of "95 / 100" 0] round64_power [of "5 / 100" 0] by (simp_all add: lit_def)
  moreover have "round64 0 = Finite 0" "round32 0 = Finite 0"
    using int64_exact [of 0] int32_exact [of 0] by (simp_all add: int64_def int32_def)
  ultimately show ?thesis
    unfolding smoothed_def by (simp only: fp_mul.simps fp_add.simps mult_zero_left add_0_left to_float_def fp.case)
qed

lemma retarget_moderate:
  assumes "moderate (2 ^ 29) m" and "target_min_y g = Finite 0" and "moderate (2 ^ 30) (target_max_y g)"
  shows "moderate (2 ^ 30) (target_max_y (expand m g))" "moderate (2 ^ 30) (target_max_y (contract m g))"
  using target_moderate [OF assms(1), of "14 / 10"] target_moderate [OF assms(1), of "16 / 10"] assms(2,3)
  by (simp_all add: expand_def contract_def)

lemma rescale_ok:
  assumes "scale_ok g" and "values_ok g current_values w" and "weight_ok w"
    and "length current_values = length (data_points g)" and "length (data_points g) \<le> length (styles g)"
  shows "\<exists>g'. rescale t width current_values w g = Inr g' \<and> scale_ok g' \<and>
    graph_window g' = graph_window g \<and> gcs g' = gcs g \<and> current_gc_index g' = current_gc_index g \<and>
    x_tick_labels g' = x_tick_labels g \<and> y_tick_labels g' = y_tick_labels g \<and> styles g' = styles g \<and>
    data_points g' = map (trim_line (left_edge t width)) (data_points g)"
proof -
  let ?g = "g\<lparr>data_points := map (trim_line (left_edge t width)) (data_points g)\<rparr>"
  let ?m = "max_value ?g current_values w"
  have "set (trim_line edge ps) \<subseteq> set ps" for edge ps
    using trim_line_split [of ps edge] by (metis Un_upper2 set_append)
  then have "values_ok ?g current_values w"
    using assms(2) by (fastforce simp: values_ok_def)
  then have m: "moderate (2 ^ 29) ?m"
    by (rule max_value_moderate)
  have r: "rescale t width current_values w g = Inr (smooth (contract ?m (expand ?m ?g)))"
    using assms(3-5) by (simp add: rescale_def Let_def weight_ok_def)
  have e: "target_min_y (expand ?m ?g) = Finite 0" "moderate (2 ^ 30) (target_max_y (expand ?m ?g))"
    using assms(1) retarget_moderate(1) [OF m, of ?g] by (simp_all add: scale_moderate expand_def)
  have "scale_ok (smooth (contract ?m (expand ?m ?g)))"
    using assms(1) retarget_moderate(2) [OF m e] smoothed_moderate smoothed_zero
    by (simp add: scale_moderate smooth_def expand_def contract_def)
  then show ?thesis
    unfolding r by (simp add: smooth_def contract_def expand_def)
qed

section \<open>A frame\<close>

definition frame_ok :: "graph \<Rightarrow> bool" where
  "frame_ok g \<longleftrightarrow> scale_ok g \<and> ticks_ok g \<and> labels_ok (y_tick_labels g) \<and>
     length (gcs g) = 3 \<and> current_gc_index g < 3 \<and> length (data_points g) = length (styles g)"

lemma scale_ok_redrawn: "redrawn g g' \<Longrightarrow> scale_ok g' = scale_ok g"
  by (simp add: scale_ok_def redrawn_def)

lemma redrawn_gcs: "redrawn g g' \<Longrightarrow> length (gcs g') = length (gcs g)"
  unfolding redrawn_def by (metis length_map)

lemma redrawn_pixmap:
  assumes "redrawn g g'" and "current_gc_index g < length (gcs g)"
  shows "gc_pixmap (current_gc g') = gc_pixmap (current_gc g)"
proof -
  have "map gc_pixmap (gcs g') ! current_gc_index g = map gc_pixmap (gcs g) ! current_gc_index g"
    using assms(1) by (simp add: redrawn_def)
  then show ?thesis
    using assms redrawn_gcs [OF assms(1)] by (simp add: current_gc_def redrawn_def)
qed

lemma redrawn_ticks_and_data: "redrawn g (draw_ticks_and_data L t width cs w dims g)"
  unfolding draw_ticks_and_data_def Let_def
  by (rule redrawn_trans [OF redrawn_trans [OF redrawn_draw redrawn_draw] redrawn_draw])

lemma resize_fields:
  assumes "resize X L window_size g x = Inr (g', x')"
  shows "graph_window g' = graph_window g \<and> current_gc_index g' = current_gc_index g \<and>
    x_tick_labels g' = x_tick_labels g \<and> y_tick_labels g' = y_tick_labels g \<and> styles g' = styles g \<and>
    data_points g' = data_points g \<and> scale_ok g' = scale_ok g \<and> length (gcs g') = length (gcs g)"
  using assms by (auto simp: resize_def res_iff scale_ok_def xpixmap_assign_def case_prod_unfold split: if_splits)

lemma resize_same:
  assumes "resize X L window_size g x = Inr (g2, x1)" and "gcs g1 = gcs g" and "graph_window g1 = graph_window g"
    and "current_gc_index g1 = current_gc_index g"
  shows "resize X L window_size g1 x = Inr (g1\<lparr>gcs := gcs g2\<rparr>, x1)"
  using assms
  by (auto simp: resize_def current_gc_def res_iff xpixmap_assign_def case_prod_unfold split: if_splits)

text \<open>The frame up to the labels of the value axis.\<close>

lemma frame_until_labels:
  assumes "frame_ok g" and "values_ok g current_values w" and "weight_ok w"
    and "length current_values = length (data_points g)" and "t = Finite r" and "0 \<le> r" and "r \<le> 2 ^ 23 - 1"
    and "xwindow_size X (graph_window g) x = Inr window_size"
    and "resize X L window_size g x = Inr (g2, x1)"
  shows "\<exists>ga. blocking_draw X L t width current_values w g x =
      obind (update_labels L ga) (\<lambda>g4.
        let g5 = draw_labels L window_size g4 in
        obind (present X (gc_pixmap (current_gc g5)) (of_nat (length (gcs g5))) (of_nat (current_gc_index g5))
          (graph_window g5) x1) (\<lambda>(w, x2).
            Some (Inr (g5\<lparr>graph_window := w, current_gc_index := (current_gc_index g5 + 1) mod length (gcs g5)\<rparr>, x2)))) \<and>
    scale_ok ga \<and> ticks_ok ga \<and> y_tick_labels ga = y_tick_labels g \<and>
    graph_window ga = graph_window g \<and> current_gc_index ga = current_gc_index g \<and> length (gcs ga) = length (gcs g) \<and>
    gc_pixmap (current_gc ga) = gc_pixmap (current_gc g2) \<and> styles ga = styles g \<and>
    data_points ga = map (trim_line (left_edge t width)) (data_points g)"
proof -
  obtain g1 where g1: "rescale t width current_values w g = Inr g1" "scale_ok g1" "graph_window g1 = graph_window g"
    "gcs g1 = gcs g" "current_gc_index g1 = current_gc_index g" "x_tick_labels g1 = x_tick_labels g"
    "y_tick_labels g1 = y_tick_labels g" "styles g1 = styles g"
    "data_points g1 = map (trim_line (left_edge t width)) (data_points g)"
    using rescale_ok [OF _ assms(2-4), of t width] assms(1) unfolding frame_ok_def by (metis order_refl)
  let ?g2 = "g1\<lparr>gcs := gcs g2\<rparr>"
  have resized: "resize X L window_size g1 x = Inr (?g2, x1)"
    using assms(9) g1(4,3,5) by (rule resize_same)
  note r = resize_fields [OF assms(9)]
  have index: "current_gc_index g < length (gcs g2)"
    using assms(1) r by (simp add: frame_ok_def)
  let ?ga = "draw (\<lambda>d. d @ start_image window_size) ?g2"
  let ?gb = "drop_tick_labels t width ?ga"
  have a: "redrawn ?g2 ?ga"
    by (rule redrawn_draw)
  have b: "redrawn ?ga ?gb"
    by (simp add: redrawn_def drop_tick_labels_def)
  have "ticks_ok ?g2"
    using assms(1) g1(6) by (simp add: frame_ok_def ticks_ok_def)
  then have "ticks_ok ?gb"
    by (intro drop_tick_labels_ok) (simp add: ticks_ok_def)
  obtain n e where time: "to_int t = Inr n" "0 \<le> n" "n \<le> 2 ^ 23" "tick_end t e" "e \<le> 2 ^ 23"
    using frame_time [OF assms(6,7)] assms(5) by blast
  obtain g3 lo hi where g3: "add_tick_labels L t ?gb = Some (Inr g3)" "redrawn ?gb g3"
    "y_tick_labels g3 = y_tick_labels ?gb" "map fst (x_tick_labels g3) = [lo..hi]" "0 \<le> lo" "lo \<le> hi" "hi \<le> 2 ^ 23"
    using add_tick_labels_ends [OF \<open>ticks_ok ?gb\<close> time, of L] by blast
  let ?gd = "draw_ticks_and_data L t width current_values w window_size g3"
  have red: "redrawn ?g2 ?gd"
    using redrawn_trans [OF redrawn_trans [OF redrawn_trans [OF a b] g3(2)] redrawn_ticks_and_data] .
  have labels: "x_tick_labels ?gd = x_tick_labels g3" "y_tick_labels ?gd = y_tick_labels g"
    using g3(3) g1(7) by (simp_all add: draw_ticks_and_data_def Let_def drop_tick_labels_def)
  have "ticks_ok ?gd"
    unfolding ticks_ok_def labels(1) using g3(4-7) by (intro exI [of _ lo] exI [of _ hi]) simp
  moreover have "scale_ok ?gd"
    using scale_ok_redrawn [OF red] g1(2) by (simp add: scale_ok_def)
  moreover have "gc_pixmap (current_gc ?gd) = gc_pixmap (current_gc g2)"
    using redrawn_pixmap [OF red] index r g1(5) by (simp add: current_gc_def)
  moreover have "length (gcs ?gd) = length (gcs g)"
    using redrawn_gcs [OF red] r by simp
  ultimately show ?thesis
    using red labels(2) g1 g3(1) resized assms(8)
    by (intro exI [of _ ?gd]) (simp add: blocking_draw_def redrawn_def)
qed

text \<open>The whole frame.\<close>

lemma frame_ends:
  assumes "frame_ok g" and "values_ok g current_values w" and "weight_ok w"
    and "length current_values = length (data_points g)" and "t = Finite r" and "0 \<le> r" and "r \<le> 2 ^ 23 - 1"
    and "xwindow_size X (graph_window g) x = Inr window_size"
    and "resize X L window_size g x = Inr (g2, x1)"
    and "\<forall>l \<in> set (y_tick_labels g). \<not> fp_less (label_intensity l) (lit (1 / 100))"
    and "present X (gc_pixmap (current_gc g2)) 3 (of_nat (current_gc_index g)) (graph_window g) x1 = Some (Inr (win, x2))"
  shows "\<exists>g'. blocking_draw X L t width current_values w g x = Some (Inr (g', x2)) \<and> frame_ok g' \<and>
    graph_window g' = win \<and> current_gc_index g' = (current_gc_index g + 1) mod 3 \<and>
    data_points g' = map (trim_line (left_edge t width)) (data_points g)"
proof -
  obtain ga where ga: "blocking_draw X L t width current_values w g x =
      obind (update_labels L ga) (\<lambda>g4.
        let g5 = draw_labels L window_size g4 in
        obind (present X (gc_pixmap (current_gc g5)) (of_nat (length (gcs g5))) (of_nat (current_gc_index g5))
          (graph_window g5) x1) (\<lambda>(w, x2).
            Some (Inr (g5\<lparr>graph_window := w, current_gc_index := (current_gc_index g5 + 1) mod length (gcs g5)\<rparr>, x2))))"
    "scale_ok ga" "ticks_ok ga" "y_tick_labels ga = y_tick_labels g"
    "graph_window ga = graph_window g" "current_gc_index ga = current_gc_index g" "length (gcs ga) = length (gcs g)"
    "gc_pixmap (current_gc ga) = gc_pixmap (current_gc g2)" "styles ga = styles g"
    "data_points ga = map (trim_line (left_edge t width)) (data_points g)"
    using frame_until_labels [OF assms(1-9)] by blast
  have "labels_ok (y_tick_labels ga)"
    using assms(1) ga(4) by (simp add: frame_ok_def)
  then obtain g4 where g4: "update_labels L ga = Some (Inr g4)" "redrawn ga g4" "x_tick_labels g4 = x_tick_labels ga"
    "labels_ok (y_tick_labels g4)"
    using update_labels_ok [OF ga(2), of L] assms(10) ga(4) by auto
  let ?g5 = "draw_labels L window_size g4"
  have red: "redrawn ga ?g5"
    using g4(2) unfolding draw_labels_def by (rule redrawn_trans) (rule redrawn_draw)
  have pixmap: "gc_pixmap (current_gc ?g5) = gc_pixmap (current_gc g2)"
    using redrawn_pixmap [OF red] assms(1) ga(6-8) by (simp add: frame_ok_def)
  have gcs: "length (gcs ?g5) = 3" "current_gc_index ?g5 = current_gc_index g" "graph_window ?g5 = graph_window g"
    using redrawn_gcs [OF red] red assms(1) ga(5-7) by (simp_all add: frame_ok_def redrawn_def)
  have labels: "x_tick_labels ?g5 = x_tick_labels ga" "y_tick_labels ?g5 = y_tick_labels g4"
    using g4(3) by (simp_all add: draw_labels_def)
  have "scale_ok ?g5" "ticks_ok ?g5" "labels_ok (y_tick_labels ?g5)"
    using scale_ok_redrawn [OF red] ga(2,3) labels g4(4) by (simp_all add: ticks_ok_def)
  then have "frame_ok (?g5\<lparr>graph_window := win, current_gc_index := (current_gc_index g + 1) mod 3\<rparr>)"
    using red gcs assms(1) ga(9,10) by (simp add: frame_ok_def scale_ok_def ticks_ok_def redrawn_def)
  then show ?thesis
    using ga(1,10) g4(1) assms(11) pixmap gcs red by (simp add: redrawn_def)
qed

text \<open>
  C20: a frame of a live graph ends, and leaves the graph ready for the next one. The
  scale starts at 0, the values to be drawn are at most 2 ^ 29, the weight of the estimates is between 0 and 1,
  the time is below 2 ^ 23 seconds and no label of the value axis has faded away; the calls of the X
  server succeed. Then all the loops end (the labels of both axes, doubling the distance between
  labels), no assertion fails (no height gets two labels), the scale stays within its bounds, the
  labels of the time axis are consecutive seconds, the next of the three contexts comes next, and the
  points left of the window are gone, except for one.
\<close>

theorem frame_returns:
  assumes "frame_ok g" and "values_ok g current_values w" and "weight_ok w"
    and "length current_values = length (data_points g)" and "t = Finite r" and "0 \<le> r" and "r \<le> 2 ^ 23 - 1"
    and "xwindow_size X (graph_window g) x = Inr window_size"
    and "resize X L window_size g x = Inr (g2, x1)"
    and "\<forall>l \<in> set (y_tick_labels g). \<not> fp_less (label_intensity l) (lit (1 / 100))"
    and "present X (gc_pixmap (current_gc g2)) 3 (of_nat (current_gc_index g)) (graph_window g) x1 = Some (Inr (win, x2))"
  shows "\<exists>g'. blocking_draw X L t width current_values w g x = Some (Inr (g', x2)) \<and> frame_ok g' \<and>
    graph_window g' = win \<and> current_gc_index g' = (current_gc_index g + 1) mod 3 \<and>
    data_points g' = map (trim_line (left_edge t width)) (data_points g)"
  using assms by (rule frame_ends)


section \<open>Labels fade\<close>

lemma faded_less:
  assumes "1 / 128 \<le> x" and "x \<le> 1"
  shows "\<exists>y. faded (Finite x) = Finite y \<and> 0 \<le> y \<and> y \<le> 96 / 100 * x"
proof -
  define a where "a = rnd (95 / 100)"
  have small: "(2 :: rat) powi (0 - 54) \<le> 1 / 2 ^ 54" "(2 :: rat) powi (0 - 25) \<le> 1 / 2 ^ 25"
    by (simp_all add: power_int_def power_one_over)
  have a: "lit (95 / 100) = Finite a" "0 \<le> a" "a \<le> 95 / 100 + 1 / 2 ^ 54"
    using round64_power [of "95 / 100" 0] order_trans [OF rnd_near [of "95 / 100" 0] add_left_mono [OF small(1)]]
    by (simp_all add: lit_def a_def)
  have p: "0 \<le> a * x" "a * x \<le> (95 / 100 + 1 / 2 ^ 54) * x"
    using a(2,3) assms(1) by (simp, intro mult_right_mono) simp_all
  note p(2)
  also have "(95 / 100 + 1 / 2 ^ 54) * x \<le> (95 / 100 + 1 / 2 ^ 54) * 1"
    using assms(2) by (intro mult_left_mono) simp_all
  finally have ax: "a * x \<le> (95 / 100 + 1 / 2 ^ 54) * 1" .
  then have "a * x < 2 powi 0"
    by (rule le_less_trans) simp
  then have d: "round64 (a * x) = Finite (rnd (a * x))" "0 \<le> rnd (a * x)" "rnd (a * x) \<le> a * x + 1 / 2 ^ 54"
    using round64_power [of "a * x" 0] order_trans [OF rnd_near [of "a * x" 0] add_left_mono [OF small(1)]] p(1)
    by simp_all
  have "rnd (a * x) < 2 powi 0"
    by (rule le_less_trans [OF order_trans [OF d(3) add_right_mono [OF ax]]]) simp
  then have f: "round32 (rnd (a * x)) = Finite (float_rnd (rnd (a * x)))" "0 \<le> float_rnd (rnd (a * x))"
    "float_rnd (rnd (a * x)) \<le> rnd (a * x) + 1 / 2 ^ 25"
    using round32_power [of "rnd (a * x)" 0] d(2)
      order_trans [OF float_rnd_near [of "rnd (a * x)" 0] add_left_mono [OF small(2)]]
    by simp_all
  have "float_rnd (rnd (a * x)) \<le> (95 / 100 + 1 / 2 ^ 54) * x + 1 / 2 ^ 54 + 1 / 2 ^ 25"
    by (rule order_trans [OF f(3) add_right_mono [OF order_trans [OF d(3) add_right_mono [OF p(2)]]]])
  also have "\<dots> \<le> 96 / 100 * x"
    using assms(1) by simp
  finally have "float_rnd (rnd (a * x)) \<le> 96 / 100 * x" .
  then show ?thesis
    unfolding faded_def a(1) using d(1) f(1,2) by (simp add: to_float_def)
qed

lemma lit_hundredth: "\<exists>q. lit (1 / 100) = Finite q \<and> 1 / 128 < q \<and> 99 / 10000 < q"
proof -
  have "(2 :: rat) powi (- 54) \<le> 1 / 2 ^ 54"
    by (simp add: power_int_def power_one_over)
  then have "1 / 100 - 1 / 2 ^ 54 \<le> rnd (1 / 100)"
    using rnd_near_below [of "1 / 100" 0] by simp
  moreover have "lit (1 / 100) = Finite (rnd (1 / 100))"
    using round64_power [of "1 / 100" 0] by (simp add: lit_def)
  ultimately show ?thesis by simp
qed

text \<open>A label that is not wanted is below 0.01 after at most 114 frames.\<close>

lemma fades:
  assumes "0 \<le> x" and "x \<le> 1"
  shows "\<exists>n \<le> 114. fp_less ((faded ^^ n) (Finite x)) (lit (1 / 100))"
proof (rule ccontr)
  obtain q where q: "lit (1 / 100) = Finite q" "1 / 128 < q" "99 / 10000 < q"
    using lit_hundredth by blast
  assume "\<not> ?thesis"
  then have never: "\<not> fp_less ((faded ^^ n) (Finite x)) (Finite q)" if "n \<le> 114" for n
    using that q(1) by auto
  have "n \<le> 114 \<Longrightarrow> \<exists>y. (faded ^^ n) (Finite x) = Finite y \<and> 0 \<le> y \<and> y \<le> (96 / 100) ^ n" for n
  proof (induction n)
    case 0
    then show ?case using assms by simp
  next
    case (Suc n)
    then obtain y where y: "(faded ^^ n) (Finite x) = Finite y" "0 \<le> y" "y \<le> (96 / 100) ^ n"
      by auto
    have "q \<le> y"
      using never [of n] Suc.prems y(1) by simp
    moreover have "(96 / 100 :: rat) ^ n \<le> 1"
      by (intro power_le_one) simp_all
    ultimately obtain z where z: "faded (Finite y) = Finite z" "0 \<le> z" "z \<le> 96 / 100 * y"
      using faded_less [of y] q(2) y(3) by auto
    have "z \<le> (96 / 100) ^ Suc n"
      using z(3) mult_left_mono [OF y(3), of "96 / 100"] by simp
    with z y(1) show ?case by simp
  qed
  from this [of 114] obtain y where y: "(faded ^^ 114) (Finite x) = Finite y" "y \<le> (96 / 100) ^ 114"
    by blast
  have "(96 / 100 :: rat) ^ 114 \<le> 99 / 10000"
    by (simp add: power_divide)
  then show False
    using never [of 114] y q(3) by simp
qed

section \<open>The estimates of a frame\<close>

lemma round64_unit: "0 \<le> x \<Longrightarrow> x \<le> 1 \<Longrightarrow> \<exists>y. round64 x = Finite y \<and> 0 \<le> y \<and> y \<le> 1"
  using round64_power [of x 0] by auto

text \<open>A cosine between 0 and 1, as of a number between 0 and \<open>3.14159 / 2\<close>, gives a weight that the assertions accept.\<close>

lemma confidence_ok:
  assumes "cosine (div64 (mul64 bin_fraction (lit (314159 / 100000))) (Finite 2)) = Finite c" and "0 \<le> c" and "c \<le> 1"
  shows "weight_ok (confidence cosine bin_fraction)"
proof -
  obtain y where y: "round64 (1 - c) = Finite y" "0 \<le> y" "y \<le> 1"
    using round64_unit [of "1 - c"] assms(2,3) by auto
  obtain z where z: "round64 (y * y) = Finite z" "0 \<le> z" "z \<le> 1"
    using round64_unit [of "y * y"] y(2,3) by (auto simp: mult_le_one)
  have "confidence cosine bin_fraction = Finite z"
    unfolding confidence_def assms(1) using y z by (simp add: fp_sub_def)
  with z show ?thesis
    by (auto simp: weight_ok_def fp_le_def)
qed

lemma chart_height_NaN: "chart_height g NaN h = NaN"
proof -
  have "add64 (mul64 a (add64 (mul64 b (sub32 c NaN)) d)) e = NaN" for a b c d e
    by (cases a; cases b; cases c; cases d; cases e) (simp_all add: fp_sub_def)
  then show ?thesis
    by (simp add: chart_height_def project_height_def fp_sub_def to_float_def)
qed

lemma draw_points_down:
  "ps \<noteq> [] \<or> pen \<noteq> None \<Longrightarrow> \<forall>p \<in> set ps. fp_le (Finite 0) (snd p) \<Longrightarrow>
   \<exists>q. fst (draw_points g t width fill dims pen ps) = Some q"
proof (induction ps arbitrary: pen)
  case Nil
  then show ?case by auto
next
  case (Cons p ps)
  from Cons.IH [of "Some p"] Cons.prems(2) show ?case
    by (cases pen) (auto simp: case_prod_unfold)
qed

text \<open>
  A frame at the millisecond in which a bin starts draws a line to a point that is no
  number. A rate is estimated by dividing by the time since the bin started; when some of the quantity is
  there already at that very millisecond, the estimate is infinite, its weight is 0, and the
  height the line is continued to is 0 times infinity.
\<close>

theorem boundary_frame:
  assumes "rate_quantity l" and "mul64 (int64 (sint v)) (multiplier l) = Finite p" and "0 < p"
    and "bin_width_ms l \<noteq> 0" and "ts mod ucast (bin_width_ms l) = 0" and "cosine (Finite 0) = Finite 1"
    and "line \<noteq> []" and "\<forall>q \<in> set line. fp_le (Finite 0) (snd q)"
    and "so_far = u64_double (ts mod ucast (bin_width_ms l))"
    and "weight = confidence cosine (div64 so_far (u32_double (bin_width_ms l)))"
  shows "weight = Finite 0 \<and> current_estimate l so_far v = Infinity True \<and>
    (\<exists>before. draw_line g t width weight dims (style, line, current_estimate l so_far v) =
       before @ CairoLineTo (x_position t t width (fst dims)) NaN #
       end_line g t (fst (hd line)) width (snd (snd (snd (snd style)))) dims)"
proof -
  have zero: "round64 0 = Finite 0"
    using int64_exact [of 0] by (simp add: int64_def)
  have so_far: "so_far = Finite 0"
    using assms(5,9) by (simp add: u64_double_def int64_def zero)
  have "uint (bin_width_ms l) < 2 ^ 32"
    by (rule order_less_le_trans [OF unsigned_less]) simp
  moreover have "0 < uint (bin_width_ms l)"
    using assms(4) by (metis le_neq_trans uint_0_iff unsigned_greater_eq)
  ultimately have "u32_double (bin_width_ms l) = Finite (of_int (uint (bin_width_ms l)))"
    "(of_int (uint (bin_width_ms l)) :: rat) \<noteq> 0"
    using int64_exact [of "uint (bin_width_ms l)"] by (simp_all only: u32_double_def of_int_eq_0_iff) simp_all
  then obtain bw where bw: "u32_double (bin_width_ms l) = Finite bw" "bw \<noteq> 0"
    by blast
  have "lit (314159 / 100000) = Finite (rnd (314159 / 100000))"
    using round64_power [of "314159 / 100000" 2] by (simp add: lit_def)
  then have weight: "weight = Finite 0"
    unfolding assms(10) confidence_def so_far bw(1) using bw(2) assms(6) by (simp add: zero fp_sub_def)
  have estimate: "current_estimate l so_far v = Infinity True"
    using assms(1-3) by (simp add: current_estimate_def so_far zero to_float_def)
  obtain red green blue opacity fill where style: "style = (red, green, blue, opacity, fill)"
    by (metis prod.collapse)
  obtain q d where points: "draw_points g t width fill dims None line = (Some q, d)"
    using draw_points_down [of line None g t width fill dims] assms(7,8) by (metis prod.collapse)
  have "add64 (mul64 (Finite 0) (Infinity True)) e = NaN" for e
    by simp
  moreover have "fp_le (Finite 0) (snd (last line))" "fp_le (Finite 0) (Infinity True)"
    using assms(7,8) by (simp_all add: fp_le_def)
  ultimately have "draw_line g t width weight dims (style, line, current_estimate l so_far v) =
      (CairoSetSourceRGBA red green blue opacity # d) @ CairoLineTo (x_position t t width (fst dims)) NaN #
      end_line g t (fst (hd line)) width fill dims"
    using assms(7) points
    by (simp add: draw_line_def style estimate weight add_segment_def to_float_def chart_height_NaN)
  then show ?thesis
    unfolding weight estimate style by (metis snd_conv)
qed

section \<open>The lines are drawn whole\<close>

text \<open>The pen: a path is begun only with the pen up, continued and ended only with the pen down.\<close>

fun pen_after :: "bool \<Rightarrow> drawing \<Rightarrow> bool option" where
  "pen_after down [] = Some down"
| "pen_after down (CairoMoveTo x y # d) = (if down then None else pen_after True d)"
| "pen_after down (CairoLineTo x y # d) = (if down then pen_after True d else None)"
| "pen_after down (CairoStroke # d) = (if down then pen_after False d else None)"
| "pen_after down (CairoFill # d) = (if down then pen_after False d else None)"
| "pen_after down (c # d) = (if down then None else pen_after False d)"

lemma pen_after_append:
  "pen_after down (d @ d') = Option.bind (pen_after down d) (\<lambda>down'. pen_after down' d')"
  by (induction down d rule: pen_after.induct) auto

lemma pen_after_lines [simp]:
  "pen_after False (begin_line g t x y width dims) = Some True"
  "pen_after True (add_segment g t x y width dims) = Some True"
  "pen_after True (end_line g t x width fill dims) = Some False"
  by (simp_all add: begin_line_def add_segment_def end_line_def)

lemma pen_after_points:
  "pen_after (pen \<noteq> None) (snd (draw_points g t width fill dims pen ps)) =
     Some (fst (draw_points g t width fill dims pen ps) \<noteq> None)"
proof (induction ps arbitrary: pen)
  case Nil
  then show ?case by simp
next
  case (Cons p ps)
  show ?case
    using Cons.IH [of None] Cons.IH [of "Some p"]
    by (cases pen) (simp_all add: case_prod_unfold pen_after_append)
qed


section \<open>The start\<close>

lemma no_ticks: "x_tick_labels g = [] \<Longrightarrow> ticks_ok g"
  unfolding ticks_ok_def by (intro exI [of _ 0] exI [of _ "- 1"]) simp

lemma graph_new_frame_ok:
  "graph_new X L w h title (Finite 0) (Finite 1) sts x_str y_str x = Inr (g, x') \<Longrightarrow> frame_ok g"
  by (auto simp: graph_new_def res_iff case_prod_unfold frame_ok_def scale_ok_def labels_ok_def no_ticks)

text \<open>The animation thread is started before the callback is constructed: at the end of a bin it is undefined.\<close>

lemma early_animation:
  assumes "live_graph_started g mult rate bin_width e = Inr (l, e1)" and "styles g \<noteq> []"
    and "length (data_points g) = length (styles g)" and "current_bin l < bin_at l (fst (timestamp e1))"
  shows "advance l e1 = Inl Undefined"
proof -
  have l: "initialize_new_bin l = None" "value_this_bin l = replicate (length (styles g)) 0" "live_plot l = g"
    using assms(1) by (auto simp: live_graph_started_def split: prod.splits if_splits)
  then obtain vs where "value_this_bin l = 0 # vs"
    using assms(2) by (cases "styles g") auto
  then have "close_bin 0 (value_this_bin l) l = Inl Undefined"
    using assms(2,3) l by (simp add: add_data_point_def)
  then show ?thesis
    using assms(4) by (simp add: advance_def advance_to.simps bin_at_def case_prod_unfold)
qed

section \<open>Examples\<close>

lemma graph_new_sample_fields:
  "graph_new sample_xcb sample_drawing w h title lo hi sts x_str y_str (0, es) = Inr (g, x) \<Longrightarrow>
     x = (6, es) \<and>
     graph_window g = \<lparr>window_id = 0, complete_event = 1, idle_event = 2, complete = True, idle = True\<rparr> \<and>
     cairo_size (gc_cairo (current_gc g)) = (640, 480) \<and> current_gc_index g = 0"
  by (auto simp: graph_new_def xwindow_new_def xcb_object_new_def default_screen_def notnull_def check_noreply_def sample_xcb_def
    graphic_context_new_def xpixmap_new_def xcb_visual_def xwindow_size_def cairo_new_def surface_check_def
    context_check_def cairo_check_def status_error_def sample_drawing_def pattern_new_def xwindow_set_name_def
    xwindow_map_def xwindow_flush_def text_new_def current_gc_def gc_draw_def)

definition first_frame :: "xcb_event list \<Rightarrow> (graph \<times> nat \<times> xcb_event list) res" where
  "first_frame es =
     graph_new sample_xcb sample_drawing 640 480 ''link'' (Finite 0) (Finite 1) [sample_style] ''time'' ''rate'' (0, es)"

lemma first_frame_ready:
  "\<exists>g. first_frame es = Inr (g, (6, es)) \<and> frame_ok g \<and> data_points g = [[]] \<and> y_tick_labels g = [] \<and>
     graph_window g = \<lparr>window_id = 0, complete_event = 1, idle_event = 2, complete = True, idle = True\<rparr> \<and>
     cairo_size (gc_cairo (current_gc g)) = (640, 480) \<and> current_gc_index g = 0"
proof -
  obtain g x where g: "first_frame es = Inr (g, x)"
    using graph_new_sample unfolding first_frame_def by blast
  have "y_tick_labels g = []"
    using g by (auto simp: first_frame_def graph_new_def res_iff case_prod_unfold)
  then show ?thesis
    using graph_new_sample_fields [OF g [unfolded first_frame_def]] graph_new_frame_ok [OF g [unfolded first_frame_def]]
      graph_new_points [OF g [unfolded first_frame_def]] g by auto
qed

lemma sample_window_size: "xwindow_size sample_xcb w x = Inr (640, 480)"
  by (simp add: xwindow_size_def sample_xcb_def notnull_def)

lemma sample_weight: "weight_ok (Finite 0)"
  by (simp add: weight_ok_def fp_le_def)

lemma sample_values: "data_points g = [[]] \<Longrightarrow> values_ok g cs (Finite 0)"
  using round64_power [of "4 / 10" 0] by (simp add: values_ok_def lit_def)

lemma frame_returns_witness:
  "\<exists>g g'. first_frame [GenericEvent 2] = Inr (g, (6, [GenericEvent 2])) \<and>
     blocking_draw sample_xcb sample_drawing (Finite 0) (Finite 5) [Finite 0] (Finite 0) g (6, [GenericEvent 2]) =
       Some (Inr (g', (6, []))) \<and> frame_ok g' \<and> current_gc_index g' = 1"
proof -
  obtain g where g: "first_frame [GenericEvent 2] = Inr (g, (6, [GenericEvent 2]))" "frame_ok g" "data_points g = [[]]"
    "y_tick_labels g = []"
    "graph_window g = \<lparr>window_id = 0, complete_event = 1, idle_event = 2, complete = True, idle = True\<rparr>"
    "cairo_size (gc_cairo (current_gc g)) = (640, 480)" "current_gc_index g = 0"
    using first_frame_ready by blast
  have resized: "resize sample_xcb sample_drawing (640, 480) g x = Inr (g, x)" for x
    by (simp add: resize_def g(6))
  have shown: "present sample_xcb p 3 (of_nat 0) (graph_window g) (6, [GenericEvent 2]) =
      Some (Inr (\<lparr>window_id = 0, complete_event = 1, idle_event = 2, complete = False, idle = True\<rparr>, (6, [])))" for p
    by (simp add: present_def wait_until.simps g(5) check_noreply_def sample_xcb_def x_event_loop_def notnull_def)
  have len: "length [Finite 0 :: fp] = length (data_points g)"
    by (simp add: g(3))
  have bright: "\<forall>l \<in> set (y_tick_labels g). \<not> fp_less (label_intensity l) (lit (1 / 100))"
    by (simp add: g(4))
  have small: "(0 :: rat) \<le> 2 ^ 23 - 1" by simp
  obtain g' where "blocking_draw sample_xcb sample_drawing (Finite 0) (Finite 5) [Finite 0] (Finite 0) g
      (6, [GenericEvent 2]) = Some (Inr (g', (6, [])))" "frame_ok g'" "current_gc_index g' = 1"
    using frame_returns [OF g(2) sample_values [OF g(3)] sample_weight len refl order_refl small sample_window_size
      resized bright shown [folded g(7)], of "Finite 5"] g(7) by auto
  with g(1) show ?thesis by blast
qed


lemma boundary_frame_witness:
  "\<exists>l e1 x1 g before.
     live_graph_open sample_xcb sample_drawing ''link'' [sample_style] ''throughput'' (Finite 1) True 500
       (\<lambda>_ _. 0) (sample_env [0]) (0, []) = Inr (l, e1, x1) \<and>
     draw_line g (Finite 1) (Finite 5) (Finite 0) (640, 480)
         (sample_style, [(Finite 0, Finite 0)], current_estimate l (u64_double (1000 mod 500)) 1000) =
       before @ CairoLineTo (x_position (Finite 1) (Finite 1) (Finite 5) 640) NaN #
       end_line g (Finite 1) (Finite 0) (Finite 5) False (640, 480)"
proof -
  have "(500 :: u32) \<noteq> 0" by simp
  from live_graph_open_sample [OF this] obtain l e1 x1 where l: "live_graph_open sample_xcb sample_drawing ''link''
      [sample_style] ''throughput'' (Finite 1) True 500 (\<lambda>_ _. 0) (sample_env [0]) (0, []) = Inr (l, e1, x1)"
    by blast
  then obtain g x0 where g: "graph_new sample_xcb sample_drawing 640 480 ''link'' (Finite 0) (Finite 1) [sample_style]
      ''time (s)'' ''throughput'' (0, []) = Inr (g, x0)"
    and new: "live_graph_new g (Finite 1) True 500 (\<lambda>_ _. 0) (sample_env [0]) = Inr (l, e1)"
    by (auto simp: live_graph_open_def res_iff)
  have fields: "rate_quantity l" "multiplier l = Finite 1" "bin_width_ms l = 500"
    using live_graph_new_ready [OF new, of 0] graph_new_points [OF g] by simp_all
  have product: "mul64 (int64 (sint (1000 :: u32))) (multiplier l) = Finite 1000"
    using int64_exact [of 1000] by (simp add: fields(2) int64_def)
  let ?so_far = "u64_double (1000 mod 500)"
  let ?weight = "confidence (\<lambda>_. Finite 1) (div64 ?so_far (u32_double (bin_width_ms l)))"
  have start: "bin_width_ms l \<noteq> 0" "1000 mod ucast (bin_width_ms l) = (0 :: u64)"
    "?so_far = u64_double (1000 mod ucast (bin_width_ms l))"
    by (simp_all add: fields(3))
  have line: "[(Finite 0, Finite 0)] \<noteq> []" "\<forall>q \<in> set [(Finite 0, Finite 0)]. fp_le (Finite 0) (snd q)"
    and pos: "(0 :: rat) < 1000"
    by (simp_all add: fp_le_def)
  from boundary_frame [OF fields(1) product pos start(1,2) refl line start(3) refl,
      where t = "Finite 1" and width = "Finite 5" and dims = "(640, 480)" and style = sample_style and g = g]
  have "?weight = Finite 0 \<and> (\<exists>before. draw_line g (Finite 1) (Finite 5) ?weight (640, 480)
         (sample_style, [(Finite 0, Finite 0)], current_estimate l ?so_far 1000) =
       before @ CairoLineTo (x_position (Finite 1) (Finite 1) (Finite 5) (fst (640 :: u32, 480 :: u32))) NaN #
       end_line g (Finite 1) (fst (hd [(Finite 0, Finite 0)])) (Finite 5)
         (snd (snd (snd (snd sample_style)))) (640, 480))"
    by blast
  then obtain before where "?weight = Finite 0" and drawn: "draw_line g (Finite 1) (Finite 5) ?weight (640, 480)
         (sample_style, [(Finite 0, Finite 0)], current_estimate l ?so_far 1000) =
       before @ CairoLineTo (x_position (Finite 1) (Finite 1) (Finite 5) (fst (640 :: u32, 480 :: u32))) NaN #
       end_line g (Finite 1) (fst (hd [(Finite 0, Finite 0)])) (Finite 5)
         (snd (snd (snd (snd sample_style)))) (640, 480)"
    by blast
  from drawn [unfolded this(1)] have "draw_line g (Finite 1) (Finite 5) (Finite 0) (640, 480)
         (sample_style, [(Finite 0, Finite 0)], current_estimate l ?so_far 1000) =
       before @ CairoLineTo (x_position (Finite 1) (Finite 1) (Finite 5) 640) NaN #
       end_line g (Finite 1) (Finite 0) (Finite 5) False (640, 480)"
    by (simp only: fst_conv list.sel sample_style_def snd_conv)
  with l show ?thesis by blast
qed

end
