(* ===== verification/Live_Animation.thy ===== *)
theory Live_Animation
  imports Live_Frames "HOL-Library.Sublist"
begin

text \<open>
  The animation thread of a live graph, \<open>animation_loop\<close> of \<open>src/src/graphing/binned_livegraph.cc\<close>: frames,
  between which the program's thread uses the graph, until the destructor halts it. The lemmas show that
  the frames forget points which have left the window and change nothing else of what is counted.
\<close>

section \<open>The loop\<close>

text \<open>
  A round is what the program does with the graph before the loop looks at \<open>halt_\<close>, and whether it has
  halted it by then. The loop is followed for as many rounds as the list has.
\<close>

fun animation_loop ::
  "'x xcb_calls \<Rightarrow> drawing_lib \<Rightarrow> (fp \<Rightarrow> fp) \<Rightarrow> (live_call list \<times> bool) list \<Rightarrow> live_graph \<Rightarrow> env \<Rightarrow> 'x \<Rightarrow>
     (live_graph \<times> env \<times> 'x) res option" where
  "animation_loop X L cosine [] l e x = Some (Inr (l, e, x))"
| "animation_loop X L cosine ((calls, stop) # rounds) l e x =
     obind (Some (live_run calls (l, e))) (\<lambda>(_, l1, e1).
     let l2 = l1\<lparr>halt := halt l1 \<or> stop\<rparr> in
     if halt l2 then Some (Inr (l2, e1, x))
     else obind (animation_frame X L cosine l2 e1 x) (\<lambda>(l3, e2, x1).
       animation_loop X L cosine rounds l3 e2 x1))"

text \<open>
  The destructor: the loop is halted and the thread joined; an exception that ended it is printed, as
  \<open>print_exception\<close> would.
\<close>

definition live_graph_destroy :: "(err \<Rightarrow> string) \<Rightarrow> err option \<Rightarrow> live_graph \<Rightarrow> live_graph \<times> string" where
  "live_graph_destroy describe animation_thread_exception l =
     (l\<lparr>halt := True\<rparr>,
      case animation_thread_exception of
        None \<Rightarrow> []
      | Some e \<Rightarrow> ''BinnedLiveGraph exited from exception: '' @ describe e)"

section \<open>What a frame keeps\<close>

lemma add_tick_labels_points:
  "add_tick_labels L t g = Some r \<Longrightarrow> r = Inr g' \<Longrightarrow> data_points g' = data_points g"
proof (induction L t g r rule: add_tick_labels.raw_induct [rotated, consumes 1, case_names step])
  case (step loop L t g r)
  show ?case
  proof (cases "x_tick_labels g = [] \<or> fp_less (int32 (fst (last (x_tick_labels g)))) (add32 t (Finite 1))")
    case True
    with step(2,3) obtain label where "loop L t (add_tick L label g) = Some r"
      by (auto split: sum.splits)
    from step(1) [OF this step(3)] show ?thesis
      using add_tick_fields(3) [of g L label] by (simp add: redrawn_def)
  next
    case False
    with step(2,3) show ?thesis by auto
  qed
qed

lemma obind_Inr_iff [res_iff]: "obind m f = Some (Inr y) \<longleftrightarrow> (\<exists>x. m = Some (Inr x) \<and> f x = Some (Inr y))"
  by (auto simp: obind_def split: option.splits sum.splits)

lemma update_labels_points: "update_labels L g = Some (Inr g') \<Longrightarrow> data_points g' = data_points g"
proof -
  assume "update_labels L g = Some (Inr g')"
  then obtain ys ls where "g' = add_labels L ys (g\<lparr>y_tick_labels := ls\<rparr>)"
    by (auto simp: update_labels_def res_iff)
  then show ?thesis
    using add_labels_ok [of L ys "g\<lparr>y_tick_labels := ls\<rparr>"] by (auto simp: redrawn_def)
qed

lemma rescale_points:
  "rescale t width current_values w g = Inr g' \<Longrightarrow>
     data_points g' = map (trim_line (left_edge t width)) (data_points g)"
  by (auto simp: rescale_def Let_def smooth_def contract_def expand_def split: if_splits)

lemma resize_points: "resize X L window_size g x = Inr (g', x') \<Longrightarrow> data_points g' = data_points g"
  by (auto simp: resize_def res_iff xpixmap_assign_def xpixmap_move_def split: if_splits)

text \<open>However a frame goes: when it returns, the lines have been trimmed.\<close>

lemma blocking_draw_points:
  assumes "blocking_draw X L t width current_values w g x = Some (Inr (g', x'))"
  shows "data_points g' = map (trim_line (left_edge t width)) (data_points g)"
proof -
  obtain g1 g2 g3 g4 window_size x1 where
    "rescale t width current_values w g = Inr g1" "resize X L window_size g1 x = Inr (g2, x1)"
    "add_tick_labels L t (drop_tick_labels t width (draw (\<lambda>d. d @ start_image window_size) g2)) = Some (Inr g3)"
    "update_labels L (draw_ticks_and_data L t width current_values w window_size g3) = Some (Inr g4)"
    and g': "data_points g' = data_points (draw_labels L window_size g4)"
    using assms by (auto simp: blocking_draw_def res_iff Let_def)
  note frame = this
  have draw_points: "data_points (draw f g) = data_points g" for f g
    using redrawn_draw [of g f] by (simp add: redrawn_def)
  have "data_points g' = data_points g4"
    unfolding g' by (simp add: draw_labels_def draw_points)
  also have "\<dots> = data_points g3"
    using update_labels_points [OF frame(4)] by (simp add: draw_ticks_and_data_def Let_def draw_points)
  also have "\<dots> = data_points g1"
    using add_tick_labels_points [OF frame(3) refl] resize_points [OF frame(2)]
    by (simp add: drop_tick_labels_def draw_points)
  finally show ?thesis
    using rescale_points [OF frame(1)] by simp
qed

section \<open>Graphs that have forgotten points\<close>

text \<open>The first graph is the second one with some of the oldest points of its lines gone.\<close>

definition forgetful :: "live_graph \<Rightarrow> live_graph \<Rightarrow> bool" where
  "forgetful l m \<longleftrightarrow>
     (\<exists>g. l = m\<lparr>live_plot := g\<rparr> \<and> list_all2 suffix (data_points g) (data_points (live_plot m)))"

lemma forgetful_fields:
  assumes "forgetful l m"
  shows "bin_width_ms l = bin_width_ms m" "value_this_bin l = value_this_bin m" "current_bin l = current_bin m"
    "initialize_new_bin l = initialize_new_bin m" "bin_value l = bin_value m"
    "list_all2 suffix (data_points (live_plot l)) (data_points (live_plot m))"
  using assms by (auto simp: forgetful_def fun_eq_iff bin_value_def Let_def)

lemma forgetful_update:
  assumes "forgetful l m" and "list_all2 suffix (data_points g) (data_points h)"
  shows "forgetful (l\<lparr>live_plot := g, value_this_bin := vs\<rparr>) (m\<lparr>live_plot := h, value_this_bin := vs\<rparr>)"
  using assms by (auto simp: forgetful_def intro!: exI [of _ g])

lemma forgetful_others:
  assumes "forgetful l m"
  shows "forgetful (l\<lparr>current_bin := b\<rparr>) (m\<lparr>current_bin := b\<rparr>)"
    "forgetful (l\<lparr>value_this_bin := vs\<rparr>) (m\<lparr>value_this_bin := vs\<rparr>)"
    "forgetful (l\<lparr>halt := stop\<rparr>) (m\<lparr>halt := stop\<rparr>)"
proof -
  obtain g where "l = m\<lparr>live_plot := g\<rparr>" "list_all2 suffix (data_points g) (data_points (live_plot m))"
    using assms by (auto simp: forgetful_def)
  then show "forgetful (l\<lparr>current_bin := b\<rparr>) (m\<lparr>current_bin := b\<rparr>)"
    "forgetful (l\<lparr>value_this_bin := vs\<rparr>) (m\<lparr>value_this_bin := vs\<rparr>)"
    "forgetful (l\<lparr>halt := stop\<rparr>) (m\<lparr>halt := stop\<rparr>)"
    unfolding forgetful_def by - (rule exI [of _ g], simp)+
qed

lemma add_data_point_forgetful:
  assumes "add_data_point i t y g = Inr g'" and "list_all2 suffix (data_points g) (data_points h)"
  shows "\<exists>h'. add_data_point i t y h = Inr h' \<and> list_all2 suffix (data_points g') (data_points h')"
proof -
  have i: "i < length (data_points g)" "g' = g\<lparr>data_points := (data_points g)[i := data_points g ! i @ [(t, y)]]\<rparr>"
    using assms(1) by (auto simp: add_data_point_def split: if_splits)
  have "suffix (data_points g ! i) (data_points h ! i)"
    using assms(2) i(1) by (rule list_all2_nthD)
  then have "suffix (data_points g ! i @ [(t, y)]) (data_points h ! i @ [(t, y)])"
    by (auto simp: suffix_def)
  then show ?thesis
    using assms(2) i list_all2_lengthD [OF assms(2)]
    by (simp add: add_data_point_def list_all2_update_cong)
qed

lemma close_bin_forgetful:
  "close_bin i vs l = Inr l' \<Longrightarrow> forgetful l m \<Longrightarrow> \<exists>m'. close_bin i vs m = Inr m' \<and> forgetful l' m'"
proof (induction vs arbitrary: i l m)
  case Nil
  then show ?case by simp
next
  case (Cons v vs)
  note same = forgetful_fields [OF Cons.prems(2)]
  let ?t = "to_float (div64 (u64_double ((current_bin l + 1) * ucast (bin_width_ms l))) (Finite 1000))"
  let ?l = "\<lambda>g f. l\<lparr>live_plot := g, value_this_bin := (value_this_bin l)[i := f (bin_width_ms l) v]\<rparr>"
  obtain g f where g: "add_data_point i ?t (to_float (bin_value l v)) (live_plot l) = Inr g"
    "initialize_new_bin l = Some f" "close_bin (Suc i) vs (?l g f) = Inr l'"
    using Cons.prems(1) by (auto simp: res_iff split: option.splits)
  from add_data_point_forgetful [OF g(1) same(6)] obtain h where
    h: "add_data_point i ?t (to_float (bin_value l v)) (live_plot m) = Inr h"
    "list_all2 suffix (data_points g) (data_points h)"
    by blast
  from Cons.IH [OF g(3) forgetful_update [OF Cons.prems(2) h(2)]] show ?case
    using h(1) g(2) by (simp add: same)
qed

lemma advance_to_forgetful:
  "advance_to now_bin l = Inr l' \<Longrightarrow> forgetful l m \<Longrightarrow> \<exists>m'. advance_to now_bin m = Inr m' \<and> forgetful l' m'"
proof (induction now_bin l arbitrary: m rule: advance_to.induct)
  case (1 now_bin l)
  note same = forgetful_fields [OF "1.prems"(2)]
  show ?case
  proof (cases "current_bin l < now_bin")
    case False
    with "1.prems" same(3) show ?thesis
      by (simp add: advance_to.simps)
  next
    case True
    then obtain l1 where l1: "close_bin 0 (value_this_bin l) l = Inr l1"
      "advance_to now_bin (l1\<lparr>current_bin := current_bin l + 1\<rparr>) = Inr l'"
      using "1.prems"(1) by (subst (asm) advance_to.simps) (auto simp: res_iff)
    from close_bin_forgetful [OF l1(1) "1.prems"(2)] obtain m1 where
      m1: "close_bin 0 (value_this_bin l) m = Inr m1" "forgetful l1 m1"
      by blast
    from "1.IH" [OF True l1(1) l1(2) forgetful_others(1) [OF m1(2)]] show ?thesis
      using True m1(1) by (subst advance_to.simps) (simp add: same)
  qed
qed

lemma advance_forgetful:
  assumes "advance l e = Inr (now, l', e')" and "forgetful l m"
  shows "\<exists>m'. advance m e = Inr (now, m', e') \<and> forgetful l' m'"
  using assms advance_to_forgetful [OF _ assms(2)] forgetful_fields [OF assms(2)]
  by (fastforce simp: advance_def res_iff split: prod.splits)

lemma live_do_forgetful:
  assumes "live_do c (l, e) = Inr (l', e')" and "forgetful l m"
  shows "\<exists>m'. live_do c (m, e) = Inr (m', e') \<and> forgetful l' m'"
proof -
  obtain now l1 e1 where adv: "advance l e = Inr (now, l1, e1)"
    using assms(1) by (cases c) (auto simp: live_do_def add_value_now_def set_max_value_now_def res_iff)
  from advance_forgetful [OF adv assms(2)] obtain m1 where m1: "advance m e = Inr (now, m1, e1)" "forgetful l1 m1"
    by blast
  show ?thesis
    using assms(1) adv m1 forgetful_fields(2) [OF m1(2)]
    by (cases c) (auto simp: live_do_def add_value_now_def set_max_value_now_def add_to_bin_def max_in_bin_def
      intro: forgetful_others(2) split: if_splits)
qed

lemma live_run_forgetful:
  "live_run cs (l, e) = Inr (hist, l', e') \<Longrightarrow> forgetful l m \<Longrightarrow>
     \<exists>m'. live_run cs (m, e) = Inr (hist, m', e') \<and> forgetful l' m'"
proof (induction cs arbitrary: l m e hist)
  case Nil
  then show ?case by simp
next
  case (Cons c cs)
  then obtain l1 e1 hist1 where step: "live_do c (l, e) = Inr (l1, e1)"
    and rest: "live_run cs (l1, e1) = Inr (hist1, l', e')" and hist: "hist = (fst (timestamp e), c) # hist1"
    by (auto simp: res_iff)
  from live_do_forgetful [OF step Cons.prems(2)] obtain m1 where m1: "live_do c (m, e) = Inr (m1, e1)" "forgetful l1 m1"
    by blast
  from Cons.IH [OF rest m1(2)] show ?case
    using m1(1) hist by auto
qed

section \<open>The animation\<close>

text \<open>Only the destructor halts.\<close>

lemma close_bin_halt: "close_bin i vs l = Inr l' \<Longrightarrow> halt l' = halt l"
  by (induction vs arbitrary: i l) (fastforce simp: res_iff split: option.splits)+

lemma advance_to_halt: "advance_to now_bin l = Inr l' \<Longrightarrow> halt l' = halt l"
proof (induction now_bin l rule: advance_to.induct)
  case (1 now_bin l)
  show ?case
  proof (cases "current_bin l < now_bin")
    case False
    with "1.prems" show ?thesis by (simp add: advance_to.simps)
  next
    case True
    then obtain l1 where l1: "close_bin 0 (value_this_bin l) l = Inr l1"
      "advance_to now_bin (l1\<lparr>current_bin := current_bin l + 1\<rparr>) = Inr l'"
      using "1.prems" by (subst (asm) advance_to.simps) (auto simp: res_iff)
    with "1.IH" [OF True l1(1) l1(2)] close_bin_halt [OF l1(1)] show ?thesis by simp
  qed
qed

lemma advance_halt: "advance l e = Inr (now, l', e') \<Longrightarrow> halt l' = halt l"
  by (auto simp: advance_def res_iff advance_to_halt split: prod.splits)

lemma live_do_halt: "live_do c (l, e) = Inr (l', e') \<Longrightarrow> halt l' = halt l"
  by (cases c)
     (auto simp: live_do_def add_value_now_def set_max_value_now_def add_to_bin_def max_in_bin_def res_iff
       advance_halt split: if_splits)

lemma live_run_halt: "live_run cs (l, e) = Inr (hist, l', e') \<Longrightarrow> halt l' = halt l"
  by (induction cs arbitrary: l e hist) (fastforce simp: res_iff dest: live_do_halt)+

lemma live_run_append:
  "live_run (cs @ ds) s = rbind (live_run cs s) (\<lambda>(hist, s1).
     rbind (live_run ds s1) (\<lambda>(hist1, s2). Inr (hist @ hist1, s2)))"
proof (induction cs arbitrary: s)
  case Nil
  then show ?case by (cases "live_run ds s") auto
next
  case (Cons c cs)
  show ?case
  proof (cases "live_do c s")
    case (Inr s1)
    then show ?thesis
      using Cons.IH [of s1] by (cases "live_run cs s1") (auto simp: case_prod_unfold rbind_assoc)
  qed simp
qed

text \<open>A frame is a look, and the trimming of the lines.\<close>

lemma trim_suffix: "suffix (trim_line edge ps) ps"
  using trim_line_split [of ps edge] by (auto simp: suffix_def)

lemma animation_frame_forgetful:
  assumes "animation_frame X L cosine l e x = Some (Inr (l', e', x'))" and "forgetful l m"
  shows "\<exists>m'. live_do LiveLook (m, e) = Inr (m', e') \<and> forgetful l' m'"
proof -
  obtain now l1 t width es w g where adv: "advance l e = Inr (now, l1, e')"
    and frame: "blocking_draw X L t width es w (live_plot l1) x = Some (Inr (g, x'))"
    and l': "l' = l1\<lparr>live_plot := g\<rparr>"
    using assms(1) by (auto simp: animation_frame_def res_iff Let_def)
  from advance_forgetful [OF adv assms(2)] obtain m1 where m1: "advance m e = Inr (now, m1, e')" "forgetful l1 m1"
    by blast
  have "list_all2 suffix (data_points g) (data_points (live_plot l1))"
    unfolding blocking_draw_points [OF frame] by (simp add: list_all2_conv_all_nth trim_suffix)
  then have "list_all2 suffix (data_points g) (data_points (live_plot m1))"
    by (rule list_all2_trans [OF _ _ forgetful_fields(6) [OF m1(2)], rotated]) (rule suffix_order.trans)
  then have "forgetful l' m1"
    using m1(2) unfolding l' forgetful_def by auto
  with m1(1) show ?thesis
    by (simp add: live_do_def)
qed

text \<open>What the rounds are to a graph without an animation: the calls, and a look for each frame.\<close>

fun looks :: "(live_call list \<times> bool) list \<Rightarrow> live_call list" where
  "looks [] = []"
| "looks ((calls, stop) # rounds) = calls @ (if stop then [] else LiveLook # looks rounds)"

lemma animation_loop_forgetful:
  "animation_loop X L cosine rounds l e x = Some (Inr (l', e', x')) \<Longrightarrow> forgetful l m \<Longrightarrow> \<not> halt l \<Longrightarrow>
   \<exists>hist m'. live_run (looks rounds) (m, e) = Inr (hist, m', e') \<and> forgetful l' (m'\<lparr>halt := halt l'\<rparr>)"
proof (induction rounds arbitrary: l m e x)
  case Nil
  from forgetful_others(3) [OF Nil(2), of "halt l"] have "forgetful l (m\<lparr>halt := halt l\<rparr>)"
    by simp
  with Nil show ?case by auto
next
  case (Cons r rounds)
  obtain calls stop where r: "r = (calls, stop)" by force
  obtain hist l1 e1 where run: "live_run calls (l, e) = Inr (hist, l1, e1)"
    using Cons.prems(1) by (auto simp: r res_iff)
  have running: "\<not> halt l1"
    using live_run_halt [OF run] Cons.prems(3) by simp
  from live_run_forgetful [OF run Cons.prems(2)] obtain m1 where
    m1: "live_run calls (m, e) = Inr (hist, m1, e1)" "forgetful l1 m1"
    by blast
  show ?case
  proof (cases stop)
    case True
    then have "l' = l1\<lparr>halt := True\<rparr>" "e' = e1"
      using Cons.prems(1) running by (auto simp: r run)
    then show ?thesis
      using True r m1 forgetful_others(3) [OF m1(2), of True] by simp
  next
    case False
    obtain l3 e2 x1 where frame: "animation_frame X L cosine l1 e1 x = Some (Inr (l3, e2, x1))"
      and rest: "animation_loop X L cosine rounds l3 e2 x1 = Some (Inr (l', e', x'))"
      using Cons.prems(1) running False by (auto simp: r run res_iff)
    from animation_frame_forgetful [OF frame m1(2)] obtain m2 where
      m2: "live_do LiveLook (m1, e1) = Inr (m2, e2)" "forgetful l3 m2"
      by blast
    have "\<not> halt l3"
      using frame running by (auto simp: animation_frame_def res_iff Let_def advance_halt)
    from Cons.IH [OF rest m2(2) this] False r m1(1) m2(1) show ?thesis
      by (auto simp: live_run_append)
  qed
qed


section \<open>The graphs of the shells\<close>

text \<open>
  The graphs of \<open>src/src/frontend/link_queue.cc\<close> and \<open>meter_queue.cc\<close>: capacity, arrivals and departures
  in bits per second, and the delay of the packets of a bin, which is a gap when there were none.
\<close>

definition megabits :: fp where "megabits = div64 (Finite 8) (Finite 1000000)"

definition line_style :: "rat \<Rightarrow> rat \<Rightarrow> rat \<Rightarrow> rat \<Rightarrow> bool \<Rightarrow> style" where
  "line_style red green blue opacity fill =
     (to_float (lit red), to_float (lit green), to_float (lit blue), to_float (lit opacity), fill)"

definition throughput_graph_open ::
  "'x xcb_calls \<Rightarrow> drawing_lib \<Rightarrow> string \<Rightarrow> string \<Rightarrow> env \<Rightarrow> 'x \<Rightarrow> (live_graph \<times> env \<times> 'x) res" where
  "throughput_graph_open X L link_name filename =
     live_graph_open X L (link_name @ '' ['' @ filename @ '']'')
       [line_style 1 0 0 (25 / 100) True, line_style 0 0 (4 / 10) 1 False, line_style 1 0 0 (5 / 10) False]
       ''throughput (Mbps)'' megabits True 500 (\<lambda>_ _. 0)"

definition delay_graph_open ::
  "'x xcb_calls \<Rightarrow> drawing_lib \<Rightarrow> string \<Rightarrow> string \<Rightarrow> env \<Rightarrow> 'x \<Rightarrow> (live_graph \<times> env \<times> 'x) res" where
  "delay_graph_open X L link_name filename =
     live_graph_open X L (link_name @ '' delay ['' @ filename @ '']'') [line_style 0 (25 / 100) 0 1 False]
       ''queueing delay (ms)'' (Finite 1) False 250 (\<lambda>_ _. - 1)"

definition meter_graph_open ::
  "'x xcb_calls \<Rightarrow> drawing_lib \<Rightarrow> string \<Rightarrow> env \<Rightarrow> 'x \<Rightarrow> (live_graph \<times> env \<times> 'x) res" where
  "meter_graph_open X L name =
     live_graph_open X L name [line_style 0 0 (4 / 10) 1 False] ''throughput (Mbps)'' megabits True 500 (\<lambda>_ _. 0)"

text \<open>What a link adds to its graph of throughput never ends it before \<open>2 ^ 31\<close> bytes.\<close>

lemma throughput_graph_runs:
  assumes "throughput_graph_open X L link_name filename e x = Inr (l, e1, x1)"
    and "\<forall>(num, bytes) \<in> set points. num < 3" and "sum_list (map snd points) < 2 ^ 31"
  shows "\<exists>r. live_run (map (\<lambda>(num, bytes). LiveAdd num (of_nat bytes)) points) (l, e1) = Inr r"
proof -
  obtain g x0 where g: "graph_new X L 640 480 (link_name @ '' ['' @ filename @ '']'') (Finite 0) (Finite 1)
      [line_style 1 0 0 (25 / 100) True, line_style 0 0 (4 / 10) 1 False, line_style 1 0 0 (5 / 10) False]
      ''time (s)'' ''throughput (Mbps)'' x = Inr (g, x0)"
    and l: "live_graph_new g megabits True 500 (\<lambda>_ _. 0) e = Inr (l, e1)"
    using assms(1) by (auto simp: throughput_graph_open_def live_graph_open_def res_iff)
  have ready: "graph_ready 0 l" "value_this_bin l = [0, 0, 0]"
    using live_graph_new_ready [OF l, of 0] graph_new_points [OF g] by (simp_all add: numeral_3_eq_3)
  let ?calls = "map (\<lambda>(num, bytes). LiveAdd num (of_nat bytes)) points"
  have "sum_list (map added ?calls) \<le> sum_list (map snd points)"
    by (simp add: comp_def case_prod_unfold sum_list_mono unat_of_nat)
  with assms(2,3) show ?thesis
    by (intro live_run_adds [OF ready(1)]) (auto simp: ready(2))
qed

text \<open>A bin of the delay graph in which no packet left: its height is negative, and the pen is lifted.\<close>

lemma idle_bin_gap:
  assumes "delay_graph_open X L link_name filename e x = Inr (l, e1, x1)"
  shows "snd (bin_point l b (- 1)) = Finite (- 1)"
    and "fst (draw_points g t width fill dims pen [bin_point l b (- 1)]) = None"
proof -
  obtain g0 x0 where g0: "graph_new X L 640 480 (link_name @ '' delay ['' @ filename @ '']'') (Finite 0) (Finite 1)
      [line_style 0 (25 / 100) 0 1 False] ''time (s)'' ''queueing delay (ms)'' x = Inr (g0, x0)"
    and l: "live_graph_new g0 (Finite 1) False 250 (\<lambda>_ _. - 1) e = Inr (l, e1)"
    using assms by (auto simp: delay_graph_open_def live_graph_open_def res_iff)
  have fields: "multiplier l = Finite 1" "\<not> rate_quantity l"
    using live_graph_new_ready [OF l, of "- 1"] graph_new_points [OF g0] by simp_all
  have "rnd_pos 1 = 1" "float_rnd_pos 1 = 1"
    using int64_exact [of 1] int32_exact [of 1]
    by (auto simp: int64_def int32_def round64_def round32_def below_overflow_def rnd_def float_rnd_def split: if_splits)
  then have "round64 (- 1) = Finite (- 1)" "round32 (- 1) = Finite (- 1)"
    by (simp_all add: round64_def round32_def below_overflow_def rnd_def float_rnd_def)
  then show "snd (bin_point l b (- 1)) = Finite (- 1)"
    using fields by (simp add: bin_point_def bin_value_def int64_def to_float_def)
  then show "fst (draw_points g t width fill dims pen [bin_point l b (- 1)]) = None"
    by (cases pen) (simp_all add: fp_le_def)
qed

section \<open>Examples\<close>

lemma first_points_rest: "first_points i n g = Inr g' \<Longrightarrow> \<exists>d. g' = g\<lparr>data_points := d\<rparr>"
proof (induction n arbitrary: i g)
  case 0
  then show ?case by (intro exI [of _ "data_points g"]) simp
next
  case (Suc n)
  then obtain d where "first_points (Suc i) n (g\<lparr>data_points := d\<rparr>) = Inr g'"
    by (auto simp: res_iff add_data_point_def split: if_splits)
  with Suc.IH show ?case by fastforce
qed

text \<open>A graph of counts, with one line, after 1000 was added, is drawn once and then halted.\<close>

definition sample_live :: "(live_graph \<times> env \<times> nat \<times> xcb_event list) res" where
  "sample_live =
     live_graph_open sample_xcb sample_drawing ''link'' [sample_style] ''packets'' (Finite 1) False 500 (\<lambda>_ _. 0)
       (sample_env [0]) (0, [GenericEvent 2])"

lemma sample_live_fields:
  "\<exists>l. sample_live = Inr (l, snd (timestamp (sample_env [0])), (6, [GenericEvent 2])) \<and>
     value_this_bin l = [0] \<and> bin_width_ms l = 500 \<and> current_bin l = 0 \<and> \<not> halt l \<and>
     data_points (live_plot l) = [[(Finite 0, Finite 0)]] \<and> frame_ok (live_plot l) \<and> y_tick_labels (live_plot l) = [] \<and>
     graph_window (live_plot l) =
       \<lparr>window_id = 0, complete_event = 1, idle_event = 2, complete = True, idle = True\<rparr> \<and>
     cairo_size (gc_cairo (current_gc (live_plot l))) = (640, 480) \<and> current_gc_index (live_plot l) = 0"
proof -
  let ?e = "sample_env [0]"
  have "(500 :: u32) \<noteq> 0" by simp
  from live_graph_open_sample [OF this] obtain l e1 x1 where l: "sample_live = Inr (l, e1, x1)"
    unfolding sample_live_def by blast
  obtain g x0 where g: "graph_new sample_xcb sample_drawing 640 480 ''link'' (Finite 0) (Finite 1) [sample_style]
      ''time (s)'' ''packets'' (0, [GenericEvent 2]) = Inr (g, x0)"
    and new: "live_graph_new g (Finite 1) False 500 (\<lambda>_ _. 0) ?e = Inr (l, e1)" and x1: "x1 = x0"
    using l by (auto simp: sample_live_def live_graph_open_def res_iff)
  note g_fields = graph_new_sample_fields [OF g] graph_new_frame_ok [OF g] graph_new_points [OF g]
  have "y_tick_labels g = []"
    using g by (auto simp: graph_new_def res_iff case_prod_unfold)
  moreover obtain d where d: "live_plot l = g\<lparr>data_points := d\<rparr>" "\<not> halt l"
    using new first_points_rest
    by (fastforce simp: live_graph_new_def live_graph_constructed_def live_graph_started_def res_iff Let_def
      split: prod.splits if_splits)
  moreover have "value_this_bin l = [0]" "bin_width_ms l = 500" "current_bin l = 0"
    "data_points (live_plot l) = [[(Finite 0, Finite 0)]]"
    using live_graph_new_ready [OF new, of 0] g_fields(3)
    by (simp_all add: timestamp_after_init raw_timestamp_def sample_env_def)
  moreover have "e1 = snd (timestamp ?e)"
    using live_graph_open_env [OF l [unfolded sample_live_def]] .
  moreover have "frame_ok (live_plot l)"
    using g_fields(2,3) d(1) \<open>data_points (live_plot l) = [[(Finite 0, Finite 0)]]\<close>
    by (simp add: frame_ok_def scale_ok_def ticks_ok_def)
  ultimately show ?thesis
    using l x1 g_fields(1) by (intro exI [of _ l]) (auto simp: current_gc_def)
qed

lemma sample_frame:
  assumes "frame_ok g" and "data_points g = [[(Finite 0, Finite 0)]]" and "y_tick_labels g = []"
    and "graph_window g = \<lparr>window_id = 0, complete_event = 1, idle_event = 2, complete = True, idle = True\<rparr>"
    and "cairo_size (gc_cairo (current_gc g)) = (640, 480)" and "current_gc_index g = 0"
  shows "\<exists>g'. blocking_draw sample_xcb sample_drawing (Finite 0) width [c] (Finite 0) g (6, [GenericEvent 2]) =
    Some (Inr (g', (6, [])))"
proof -
  have resized: "resize sample_xcb sample_drawing (640, 480) g x = Inr (g, x)" for x
    by (simp add: resize_def assms(5))
  have shown: "present sample_xcb p 3 (of_nat (current_gc_index g)) (graph_window g) (6, [GenericEvent 2]) =
      Some (Inr (\<lparr>window_id = 0, complete_event = 1, idle_event = 2, complete = False, idle = True\<rparr>, (6, [])))" for p
    by (simp add: present_def wait_until.simps assms(4,6) check_noreply_def sample_xcb_def x_event_loop_def notnull_def)
  have len: "length [c] = length (data_points g)"
    by (simp add: assms(2))
  have vals: "values_ok g [c] (Finite 0)"
    using round64_power [of "4 / 10" 0] by (simp add: values_ok_def lit_def assms(2))
  have bright: "\<forall>l \<in> set (y_tick_labels g). \<not> fp_less (label_intensity l) (lit (1 / 100))"
    by (simp add: assms(3))
  have small: "(0 :: rat) \<le> 2 ^ 23 - 1" by simp
  from frame_ends [OF assms(1) vals sample_weight len refl order_refl small sample_window_size resized bright shown]
  show ?thesis by blast
qed


end
