(* ===== verification/Spec2Isabelle.thy ===== *)
theory Spec2Isabelle
  imports Ferry_Service Packet_Shell Deepcgi Live_Animation
begin

text \<open>
  A verification development for \<open>v2proxy\<close>, a fork of the Mahimahi network tools: shells that
  emulate links (\<open>mm-link\<close>, \<open>mm-delay\<close>, \<open>mm-loss\<close>, \<open>mm-onoff\<close>, \<open>mm-meter\<close>), an HTTP proxy that
  records traffic and limits the cloud resources an application may start, and a server that
  replays a recording. Paths are below \<open>src/src\<close>.

  \<^bold>\<open>How the program works.\<close> A shell runs a command in a network namespace of its own. Packets
  leaving and entering it pass through a queue object (\<open>LinkQueue\<close>, \<open>DelayQueue\<close>, \<dots>) driven by an
  event loop: a \<open>Poller\<close> calls \<open>read_packet\<close> when the tunnel device has a packet and
  \<open>write_packets\<close> when the queue has output, and sleeps for the queue's \<open>wait_time\<close>. A link queue
  holds its packets in one of five queue disciplines behind an abstract class. The recording shell
  instead diverts TCP connections to an \<open>HTTPProxy\<close>, one thread and poller per connection; each
  read goes through a filter that consults the list of cloud resources shared by all connections,
  then into an incremental HTTP parser; complete messages are written to the other side and
  exchanges are stored. The shells are installed set-user-ID root: they set up namespaces, devices,
  routes and rules as root and give their privileges up before they touch the user's files or run the
  user's command. The replay shell starts a web server for every recorded address.

  \<^bold>\<open>Theories and code.\<close>
  \<^item> \<open>Prelude\<close>: machine integers, the error type and the result \<open>err + 'a\<close>, \<open>std::string\<close> searches.
  \<^item> \<open>Ezio\<close> (\<open>util/ezio.cc\<close>): \<open>strtol\<close> and \<open>myatoi\<close>. \<open>Environment\<close> (\<open>util/timestamp.cc\<close>): clock and
    random numbers as sequences with a position. \<open>Doubles\<close>: the arithmetic of \<open>double\<close>.
  \<^item> \<open>Packet_Queue\<close>, \<open>Dropping_Queue\<close>, \<open>Codel_Queue\<close>, \<open>Pie_Queue\<close>, \<open>Any_Queue\<close> (\<open>packet/\<close>): the five
    disciplines. \<open>AbstractPacketQueue\<close> is the locale \<open>packet_queue\<close>, interpreted on each of them
    and on the sum of them that \<open>get_packet_queue\<close> (\<open>frontend/linkshell.cc\<close>) chooses from.
  \<^item> \<open>Link_Queue\<close> (\<open>frontend/link_queue.cc\<close>): the link over any discipline, a record of functions.
  \<^item> \<open>Ferry_Queues\<close> (\<open>frontend/delay_queue.cc\<close>, \<open>loss_queue.cc\<close>, \<open>meter_queue.cc\<close>).
  \<^item> \<open>Byte_Stream\<close> (\<open>util/file_descriptor.cc\<close>, \<open>bytestream_queue.cc\<close>): descriptors and the ring
    buffer. \<open>Event_Loop\<close> (\<open>util/poller.cc\<close>, \<open>child_process.cc\<close>, \<open>event_loop.cc\<close>).
    \<open>Poller_Loop\<close>: the contract of a poller's clients, the locale \<open>poller_client\<close>, and the loop as
    the relation \<open>passes\<close>.
  \<^item> \<open>Ferry\<close> (\<open>Ferry::loop\<close> of \<open>packet/packetshell.cc\<close>): the event loop over any queue that meets the
    locale \<open>ferry_queue\<close>, from which it gets \<open>poller_client\<close>; \<open>Ferry_Service\<close> interprets it for the
    link, the delay, both losses and the meter.
  \<^item> \<open>Sockets\<close> (\<open>util/socket.cc\<close>, \<open>socketpair.cc\<close>), \<open>Dns_Proxy\<close> (\<open>util/dns_proxy.cc\<close>, \<open>dns_server.cc\<close>),
    \<open>Secure_Socket\<close> (\<open>httpserver/secure_socket.cc\<close>), \<open>Certificate\<close> (\<open>certificate.hh\<close>): what the code
    makes of the results of system calls and of OpenSSL; the relay of a DNS connection is another interpretation of
    \<open>poller_client\<close>.
  \<^item> \<open>Shells\<close> (the command lines of the mains of \<open>frontend/\<close>), \<open>Interfaces\<close> (\<open>util/interfaces.cc\<close>,
    \<open>nat.cc\<close>, the numeric form of \<open>address.cc\<close>), \<open>Raw_Address\<close> (\<open>address.cc\<close>, the bytes of an address).
  \<^item> \<open>Privileges\<close> (\<open>util/util.cc\<close>): the user and group IDs of a process; what the manual says of the
    calls that set them is the locale \<open>credentials\<close>, interpreted on the IDs themselves.
    \<open>System\<close> (\<open>util/system_runner.cc\<close>, \<open>temp_file.cc\<close>, \<open>netdevice.cc\<close>, the rest of \<open>child_process.cc\<close> and
    \<open>util.cc\<close>): commands, children, files and devices over the system calls.
  \<^item> \<open>Replay_Shell\<close> (\<open>frontend/replayshell.cc\<close>, \<open>web_server.cc\<close>), \<open>Packet_Shell\<close>
    (\<open>packet/packetshell.cc\<close>, \<open>frontend/recordshell.cc\<close>; \<open>Bind_Arguments\<close> for \<open>bindworkaround.hh\<close>): what each process of a shell does, one
    function per process, up to the event loop it enters.
  \<^item> \<open>Tokenize\<close>, \<open>Http_Message\<close>, \<open>Message_Sequence\<close>, \<open>Http_Request\<close>, \<open>Chunked_Parser\<close>,
    \<open>Http_Response\<close> (\<open>http/\<close>): messages and the incremental parser. The two classes a sequence is
    made of meet the locale \<open>message_class\<close>, interpreted for requests and for responses.
  \<^item> \<open>Cloud\<close> (\<open>cloud/\<close>), \<open>V2_Filter\<close> (\<open>http/v2filter_client.hh\<close>, \<open>v2filter_server.hh\<close>), \<open>Http_Proxy\<close>
    (the callbacks of \<open>httpserver/http_proxy.cc\<close>, \<open>http/backing_store.cc\<close>), \<open>Parser_Queue\<close> (the queue of
    complete messages), \<open>Proxy_Loop\<close> (\<open>HTTPProxy::loop\<close> and \<open>handle_tcp\<close>): the poller over two sockets that
    meet the locale \<open>stream_socket\<close>, interpreted for plain and for TLS sockets. \<open>Replay\<close> (\<open>frontend/replayserver.cc\<close>),
    \<open>Deepcgi\<close> (\<open>mod_deepcgi.c\<close>): the replay server and the Apache module that runs it.
  \<^item> \<open>Floats\<close>: \<open>float\<close> and \<open>double\<close> with infinities and what is not a number. \<open>Display\<close>, \<open>Cairo_Objects\<close>,
    \<open>Graph\<close> (\<open>graphing/display.cc\<close>, \<open>cairo_objects.cc\<close>, \<open>graph.cc\<close>): the window, what is drawn as the
    list of cairo's calls, and the frames of a graph. \<open>Live_Graph\<close> (\<open>graphing/binned_livegraph.cc\<close>): the
    bins of values; \<open>Live_Frames\<close>: what the frames do; \<open>Live_Animation\<close>: the animation thread, and the
    graphs \<open>link_queue.cc\<close> and \<open>meter_queue.cc\<close> open. In \<open>Link_Queue\<close> and \<open>Ferry_Queues\<close> a graph is the
    list of what was added to it.

  \<^bold>\<open>Conventions.\<close> An object is a record, an operation a function from the old object to the new
  one. Exceptions, failed assertions and undefined behaviour are constructors of \<open>err\<close>. What the
  code reads from outside (files, system calls, \<open>getenv\<close>, the size of a \<open>std::string\<close> object) is an
  argument. Unsigned counters are words of their width, so that they wrap around as the code's do;
  sizes of strings in memory are \<open>nat\<close>, and properties that need them to fit state the bound.

  \<^bold>\<open>What is shown.\<close>
  \<^item> Queues: tail drop refines a bounded list; head drop, CoDel and PIE deliver a subsequence of
    what they were offered; the exact outcome of a head drop; the range of PIE's probability.
  \<^item> Links: nothing is lost, duplicated or reordered; no more is carried than the trace allows; an
    opportunity is wasted only when nothing waits; catching up with the clock ends.
  \<^item> Delay and on-off links: every packet is held for the delay and no longer than the next
    write; the switching loop ends.
  \<^item> HTTP: what is printed is parsed back; the result does not depend on how the input is cut into
    reads; bodies end where the sender ended them, whatever the framing.
  \<^item> The filter: the limit on invocations holds on all traffic; which reads are blocked, rewritten
    or passed unchanged. The proxy is transparent to other traffic; a blocked request is answered
    and not forwarded, with the two exceptions that are shown too.
    As it runs, over any number of polls, a connection is a queue of whole requests towards the
    server; and one poll in which a partial read is blocked can read an empty queue.
  \<^item> Packet shells: with a link or a delay the loop never stops on the poller's check for a busy
    wait, and what it writes is a subsequence of what it read.
  \<^item> DNS: a connection's relay writes to each side what it read from the other, in order; a datagram
    gets at most one reply; the wait for dnsmasq ends.
  \<^item> Event loop: a poll serves exactly the ready actions; a \<open>SIGCHLD\<close> accounts for one exit.
  \<^item> Privileges: what is dropped stays dropped; the user's command and everything recorded or read on
    the user's behalf is run, made or read with the user's IDs; a command's environment is the user's.
  \<^item> The replay shell: every recorded address and name is served; which commands it runs as root;
    what its servers' configuration consists of, line breaks in directory names included.
  \<^item> Children: the wait for a command and the destructor of a child end once the child has.
  \<^item> The ring buffer is a bounded first-in first-out queue of bytes. The log's command line is read
    back by a POSIX shell. The replay server picks a best match; the Apache module sends its answer whole,
    but shows it variables of earlier requests. The addresses chosen are free.

  \<^item> Live graphs: the points are those of a plain definition by bins, whatever the animation does in
    between; a frame ends and keeps the graph in order while no label has faded; once one has, and at
    the millisecond a bin starts, the code does what it was not meant to. Lines are drawn whole.
  \<^item> TLS: which results the code takes for success; the server's key is the one of its certificate.

  \<^bold>\<open>Loops and fuel.\<close> Loops that shorten a list or a string are \<open>fun\<close> or \<open>function\<close> with a measure;
  so is the wait for dnsmasq, whose attempts are counted.
  \<open>rationalize\<close>, \<open>parse_loop\<close>, \<open>switch_loop\<close>, \<open>run_wait\<close>, \<open>child_destroy_loop\<close>, \<open>write_line\<close>,
  \<open>write_output\<close>, \<open>add_tick_labels\<close>, \<open>label_spacing\<close>, \<open>labels_that_belong\<close>, \<open>read_routes\<close>, \<open>wait_until\<close> and
  \<open>poll_loop\<close> may run forever on some states and are \<open>partial_function (option)\<close>; for all but the last two
  it is proved when they end. No fuel is used; \<open>animation_loop\<close> runs over the list of what the
  other thread does in each round.

  \<^bold>\<open>Not modelled.\<close> What cairo, pango and the X server compute is an argument, and so are OpenSSL's
  answers; initialising and freeing their objects is left out. The sign of a floating zero is not kept. Namespaces,
  devices and processes are what the system calls say they are: a call is an argument, and a state
  of the system has no structure but the one a property asks for. When a function of the model ends
  in an error its state is dropped: what destructors undo on the way out is modelled by functions of
  their own, for the normal way out.
  The protobuf classes are generated by the build; the records stand for their fields. Threads:
  each connection is a sequence of callbacks; what other connections do to the shared list happens
  while a connection waits in \<open>poll\<close>.
\<close>

end
